(* ===== verification/Prelude.thy ===== *)
theory Prelude
  imports Main "HOL-Library.AList"
begin

text \<open>
  What every component of the model shares.

  Strings are HOL strings: a character is a UTF-16 code unit below 256, which covers every
  identifier, field name and message the modelled code compares or builds; the operations
  below are the ones of \<open>String.prototype\<close> and \<open>Array.prototype\<close> the code calls.
  Only the canonical-JSON component works on full code units and has its own type for them.

  A JavaScript \<open>Map\<close> (or a plain object used as one) is an association list in insertion
  order, \<open>AList.update\<close> being \<open>set\<close>: it overwrites in place or appends at the end.
  A \<open>Set\<close> built from an array is \<open>uniq\<close> of the list: the first occurrences, in order.

  The collections: \<open>js_simps\<close> holds the equations of the library operations, \<open>inv_intros\<close>
  the preservation lemmas of the components' invariants.
\<close>

named_theorems js_simps
named_theorems inv_intros

section \<open>Results\<close>

text \<open>A throwing function returns \<open>error + 'a\<close>: \<open>Inl\<close> is the thrown error.\<close>

definition ebind :: "('e + 'a) \<Rightarrow> ('a \<Rightarrow> 'e + 'b) \<Rightarrow> 'e + 'b" where
  "ebind x f = (case x of Inl e \<Rightarrow> Inl e | Inr a \<Rightarrow> f a)"

lemma ebind_simps [simp]:
  "ebind (Inl e) f = Inl e"
  "ebind (Inr a) f = f a"
  by (simp_all add: ebind_def)

lemma ebind_Inr_iff: "ebind x f = Inr b \<longleftrightarrow> (\<exists>a. x = Inr a \<and> f a = Inr b)"
  by (cases x) auto

lemma ebind_Inl_iff: "ebind x f = Inl e \<longleftrightarrow> x = Inl e \<or> (\<exists>a. x = Inr a \<and> f a = Inl e)"
  by (cases x) auto

lemma ebind_cong [fundef_cong]:
  "x = y \<Longrightarrow> (\<And>a. y = Inr a \<Longrightarrow> f a = g a) \<Longrightarrow> ebind x f = ebind y g"
  by (cases y) auto

text \<open>\<open>for (const x of xs) f(x)\<close> where \<open>f\<close> may throw: the first error wins.\<close>

fun emap :: "('a \<Rightarrow> 'e + 'b) \<Rightarrow> 'a list \<Rightarrow> 'e + 'b list" where
  "emap f [] = Inr []"
| "emap f (x # xs) = ebind (f x) (\<lambda>y. ebind (emap f xs) (\<lambda>ys. Inr (y # ys)))"

lemma emap_Inr_iff: "emap f xs = Inr ys \<longleftrightarrow> list_all2 (\<lambda>x y. f x = Inr y) xs ys"
  by (induction xs arbitrary: ys) (auto simp: ebind_Inr_iff list_all2_Cons1)

lemma emap_cong [fundef_cong]:
  "xs = ys \<Longrightarrow> (\<And>x. x \<in> set ys \<Longrightarrow> f x = g x) \<Longrightarrow> emap f xs = emap g ys"
  by (induction ys arbitrary: xs) auto

lemma emap_Inl_in: "emap f xs = Inl e \<Longrightarrow> \<exists>x \<in> set xs. f x = Inl e"
  by (induction xs) (auto simp: ebind_Inl_iff)

text \<open>The first error a check reports over a list, if any.\<close>

fun first_error :: "('a \<Rightarrow> 'e option) \<Rightarrow> 'a list \<Rightarrow> 'e option" where
  "first_error f [] = None"
| "first_error f (x # xs) = (case f x of Some e \<Rightarrow> Some e | None \<Rightarrow> first_error f xs)"

lemma first_error_None_iff: "first_error f xs = None \<longleftrightarrow> (\<forall>x \<in> set xs. f x = None)"
  by (induction xs) (auto split: option.splits)

lemma first_error_Some_in: "first_error f xs = Some e \<Longrightarrow> \<exists>x \<in> set xs. f x = Some e"
  by (induction xs) (auto split: option.splits)

section \<open>Sets and maps in insertion order\<close>

fun uniq :: "'a list \<Rightarrow> 'a list" where
  "uniq [] = []"
| "uniq (x # xs) = x # filter (\<lambda>y. y \<noteq> x) (uniq xs)"

lemma set_uniq [simp]: "set (uniq xs) = set xs"
  by (induction xs) auto

lemma distinct_uniq [simp]: "distinct (uniq xs)"
  by (induction xs) auto

lemma uniq_distinct: "distinct xs \<Longrightarrow> uniq xs = xs"
proof (induction xs)
  case (Cons x xs)
  then show ?case by (simp add: filter_id_conv) blast
qed simp

lemma length_uniq_le: "length (uniq xs) \<le> length xs"
  by (induction xs) (auto intro: le_trans [OF length_filter_le])

lemma map_of_map_self [simp]: "map_of (map (\<lambda>x. (x, f x)) xs) k = (if k \<in> set xs then Some (f k) else None)"
  by (induction xs) auto

lemma map_of_update [simp, js_simps]:
  "map_of (AList.update k v m) x = (if x = k then Some v else map_of m x)"
  by (simp add: update_conv')

lemma update_fresh: "k \<notin> fst ` set m \<Longrightarrow> AList.update k v m = m @ [(k, v)]"
  by (induction m) auto

lemma update_foldl_distinct:
  "distinct (map fst es) \<Longrightarrow> fst ` set es \<inter> fst ` set m = {} \<Longrightarrow>
   foldl (\<lambda>o' (k, v). AList.update k v o') m es = m @ es"
proof (induction es arbitrary: m)
  case (Cons e es)
  obtain k v where e: "e = (k, v)" by (cases e)
  have "AList.update k v m = m @ [(k, v)]"
    using Cons.prems by (intro update_fresh) (auto simp: e)
  moreover have "fst ` set es \<inter> fst ` set (m @ [(k, v)]) = {}"
    using Cons.prems by (auto simp: e)
  ultimately show ?case using Cons by (simp add: e)
qed simp

section \<open>Strings\<close>

definition starts_with :: "string \<Rightarrow> string \<Rightarrow> bool" where
  "starts_with p s = (take (length p) s = p)"

lemma starts_with_iff: "starts_with p s \<longleftrightarrow> (\<exists>t. s = p @ t)"
  by (auto simp: starts_with_def) (metis append_take_drop_id)

lemma starts_with_append [simp]: "starts_with p (p @ s)"
  by (simp add: starts_with_def)

definition ends_with :: "string \<Rightarrow> string \<Rightarrow> bool" where
  "ends_with p s = starts_with (rev p) (rev s)"

lemma ends_with_iff: "ends_with p s \<longleftrightarrow> (\<exists>t. s = t @ p)"
  by (auto simp: ends_with_def starts_with_iff) (metis rev_append rev_rev_ident)

text \<open>\<open>indexOf\<close>: the first index, None for -1.\<close>

fun index_of :: "string \<Rightarrow> string \<Rightarrow> nat option" where
  "index_of p [] = (if p = [] then Some 0 else None)"
| "index_of p (c # cs) = (if starts_with p (c # cs) then Some 0 else map_option Suc (index_of p cs))"

definition has_sub :: "string \<Rightarrow> string \<Rightarrow> bool" where
  "has_sub p s = (index_of p s \<noteq> None)"

lemma index_of_Some: "index_of p s = Some i \<Longrightarrow> starts_with p (drop i s) \<and> i \<le> length s"
  by (induction p s arbitrary: i rule: index_of.induct)
    (auto split: if_splits simp: starts_with_def)

lemma has_sub_iff: "has_sub p s \<longleftrightarrow> (\<exists>a b. s = a @ p @ b)"
proof (induction s)
  case Nil
  then show ?case by (auto simp: has_sub_def)
next
  case (Cons c cs)
  show ?case
  proof
    assume *: "has_sub p (c # cs)"
    show "\<exists>a b. c # cs = a @ p @ b"
    proof (cases "starts_with p (c # cs)")
      case True
      then obtain t where "c # cs = p @ t" by (auto simp: starts_with_iff)
      then have "c # cs = [] @ p @ t" by simp
      then show ?thesis by blast
    next
      case False
      with * Cons.IH obtain a b where "cs = a @ p @ b" by (auto simp: has_sub_def)
      then have "c # cs = (c # a) @ p @ b" by simp
      then show ?thesis by blast
    qed
  next
    assume "\<exists>a b. c # cs = a @ p @ b"
    then obtain a b where *: "c # cs = a @ p @ b" by blast
    show "has_sub p (c # cs)"
    proof (cases a)
      case Nil
      with * have "starts_with p (c # cs)" by (simp add: starts_with_def)
      then show ?thesis by (simp add: has_sub_def)
    next
      case (Cons a1 a2)
      with * have "\<exists>a b. cs = a @ p @ b" by auto
      with Cons.IH show ?thesis by (auto simp: has_sub_def)
    qed
  qed
qed

fun join :: "string \<Rightarrow> string list \<Rightarrow> string" where
  "join d [] = []"
| "join d [x] = x"
| "join d (x # xs) = x @ d @ join d xs"

text \<open>\<open>split(c)[0]\<close> and \<open>split(c).pop()\<close> for a one-character separator.\<close>

fun split_char :: "char \<Rightarrow> string \<Rightarrow> string list" where
  "split_char d [] = [[]]"
| "split_char d (c # cs) =
     (if c = d then [] # split_char d cs
      else case split_char d cs of [] \<Rightarrow> [[c]] | w # ws \<Rightarrow> (c # w) # ws)"

lemma split_char_nonempty [simp]: "split_char d s \<noteq> []"
  by (induction s) (auto split: list.splits)

lemma join_split_char: "join [d] (split_char d s) = s"
proof (induction s)
  case (Cons c cs)
  obtain w ws where w: "split_char d cs = w # ws"
    by (cases "split_char d cs") auto
  with Cons show ?case by (cases ws) auto
qed simp

lemma split_char_append: "split_char d (a @ d # b) = split_char d a @ split_char d b"
proof (induction a)
  case (Cons c a)
  then show ?case by (cases "split_char d a") auto
qed simp

lemma split_char_single: "d \<notin> set s \<Longrightarrow> split_char d s = [s]"
  by (induction s) auto

lemma takeWhile_first: "d \<notin> set s \<Longrightarrow> takeWhile (\<lambda>c. c \<noteq> d) (s @ d # t) = s"
  by (induction s) auto

lemma takeWhile_none: "d \<notin> set s \<Longrightarrow> takeWhile (\<lambda>c. c \<noteq> d) s = s"
  by (induction s) auto

text \<open>White space as \<open>trim\<close> removes it, among the code units below 256.\<close>

definition js_space :: "char \<Rightarrow> bool" where
  "js_space c = (let n = of_char c :: nat in (9 \<le> n \<and> n \<le> 13) \<or> n = 32 \<or> n = 160)"

definition js_trim :: "string \<Rightarrow> string" where
  "js_trim s = rev (dropWhile js_space (rev (dropWhile js_space s)))"

lemma trim_nonempty: "c \<in> set s \<Longrightarrow> \<not> js_space c \<Longrightarrow> js_trim s \<noteq> []"
proof -
  assume c: "c \<in> set s" "\<not> js_space c"
  then have "c \<in> set (dropWhile js_space s)"
    by (metis Un_iff set_append set_takeWhileD takeWhile_dropWhile_id)
  then have "c \<in> set (rev (dropWhile js_space s))" by simp
  with c(2) show ?thesis by (auto simp: js_trim_def dropWhile_eq_Nil_conv)
qed

text \<open>Character classes of the code's regular expressions.\<close>

definition is_digit :: "char \<Rightarrow> bool" where
  "is_digit c = (let n = of_char c :: nat in 48 \<le> n \<and> n \<le> 57)"

definition is_lower :: "char \<Rightarrow> bool" where
  "is_lower c = (let n = of_char c :: nat in 97 \<le> n \<and> n \<le> 122)"

definition is_upper :: "char \<Rightarrow> bool" where
  "is_upper c = (let n = of_char c :: nat in 65 \<le> n \<and> n \<le> 90)"

definition is_alnum :: "char \<Rightarrow> bool" where
  "is_alnum c = (is_digit c \<or> is_lower c \<or> is_upper c)"

definition ascii_lower :: "char \<Rightarrow> char" where
  "ascii_lower c = (if is_upper c then char_of (of_char c + (32 :: nat)) else c)"

text \<open>\<open>String(n)\<close> for an integer.\<close>

fun nat_digits :: "nat \<Rightarrow> string" where
  "nat_digits n = (if n < 10 then [char_of (48 + n)] else nat_digits (n div 10) @ [char_of (48 + n mod 10)])"

declare nat_digits.simps [simp del]

lemma nat_digits_digits: "list_all is_digit (nat_digits n)"
proof (induction n rule: nat_digits.induct)
  case (1 n)
  have "is_digit (char_of (48 + n mod 10))" for n :: nat
  proof -
    have "48 + n mod 10 < 256" by (rule le_less_trans [of _ 57]) auto
    then show ?thesis by (simp add: is_digit_def Let_def)
  qed
  from this [of n] 1 show ?case
    by (subst nat_digits.simps) (cases "n < 10"; simp)
qed

lemma nat_digits_nonempty: "nat_digits n \<noteq> []"
  by (subst nat_digits.simps) simp

text \<open>Reading the digits back: \<open>Number(String(n))\<close>.\<close>

definition digit_value :: "nat \<Rightarrow> char \<Rightarrow> nat" where
  "digit_value acc c = acc * 10 + (of_char c - 48)"

lemma nat_digits_value: "foldl digit_value 0 (nat_digits n) = n"
proof (induction n rule: nat_digits.induct)
  case (1 n)
  have digit: "digit_value acc (char_of (48 + k mod 10)) = acc * 10 + k mod 10" for acc k
  proof -
    have "48 + k mod 10 < 256" by (rule le_less_trans [of _ 57]) auto
    then show ?thesis by (simp add: digit_value_def)
  qed
  show ?case
  proof (cases "n < 10")
    case True
    then show ?thesis using digit [of 0 n] by (subst nat_digits.simps) simp
  next
    case False
    with 1 have "foldl digit_value 0 (nat_digits (n div 10)) = n div 10" by simp
    with False show ?thesis by (subst nat_digits.simps) (simp add: digit)
  qed
qed

lemma nat_digits_inj: "nat_digits m = nat_digits n \<Longrightarrow> m = n"
  by (metis nat_digits_value)

definition int_str :: "int \<Rightarrow> string" where
  "int_str i = (if i < 0 then CHR ''-'' # nat_digits (nat (- i)) else nat_digits (nat i))"

section \<open>Sorting with a comparator\<close>

text \<open>
  \<open>Array.prototype.sort\<close> is stable; \<open>le a b\<close> stands for \<open>cmp(a, b) <= 0\<close>. The order of
  \<open>localeCompare\<close> depends on the host's collation and is a parameter wherever the code uses it.
\<close>

fun insert_by :: "('a \<Rightarrow> 'a \<Rightarrow> bool) \<Rightarrow> 'a \<Rightarrow> 'a list \<Rightarrow> 'a list" where
  "insert_by le x [] = [x]"
| "insert_by le x (y # ys) = (if le x y then x # y # ys else y # insert_by le x ys)"

fun sort_by :: "('a \<Rightarrow> 'a \<Rightarrow> bool) \<Rightarrow> 'a list \<Rightarrow> 'a list" where
  "sort_by le [] = []"
| "sort_by le (x # xs) = insert_by le x (sort_by le xs)"

lemma set_insert_by [simp]: "set (insert_by le x ys) = insert x (set ys)"
  by (induction ys) auto

lemma set_sort_by [simp]: "set (sort_by le xs) = set xs"
  by (induction xs) auto

lemma length_insert_by [simp]: "length (insert_by le x ys) = Suc (length ys)"
  by (induction ys) auto

lemma length_sort_by [simp]: "length (sort_by le xs) = length xs"
  by (induction xs) auto

lemma sort_by_empty_iff [simp]: "sort_by le xs = [] \<longleftrightarrow> xs = []"
  by (metis length_0_conv length_sort_by)

lemma insert_by_map: "insert_by le (f x) (map f ys) = map f (insert_by (\<lambda>a b. le (f a) (f b)) x ys)"
  by (induction ys) auto

lemma sort_by_map: "sort_by le (map f xs) = map f (sort_by (\<lambda>a b. le (f a) (f b)) xs)"
  by (induction xs) (auto simp: insert_by_map)

lemma sum_list_insert_by: "sum_list (map f (insert_by le x ys)) = f x + (sum_list (map f ys) :: int)"
  by (induction ys) auto

lemma sum_list_sort_by: "sum_list (map f (sort_by le xs)) = (sum_list (map f xs) :: int)"
  by (induction xs) (auto simp: sum_list_insert_by)

lemma distinct_map_insert_by: "distinct (map f (insert_by le x ys)) \<longleftrightarrow> distinct (map f (x # ys))"
  by (induction ys) auto

lemma distinct_map_sort_by [simp]: "distinct (map f (sort_by le xs)) \<longleftrightarrow> distinct (map f xs)"
  by (induction xs) (auto simp: distinct_map_insert_by)

text \<open>A comparator that ranks first leaves the list sorted by rank, whatever it does on ties.\<close>

lemma insert_by_rank:
  assumes "\<And>a b. le a b \<Longrightarrow> rank a \<le> (rank b :: nat)" and "\<And>a b. \<not> le a b \<Longrightarrow> rank b \<le> rank a"
    and "sorted (map rank ys)"
  shows "sorted (map rank (insert_by le x ys))"
  using assms(3)
proof (induction ys)
  case (Cons y ys)
  show ?case
  proof (cases "le x y")
    case True
    with assms(1) [OF True] Cons.prems show ?thesis by (auto intro: order_trans)
  next
    case False
    with assms(2) [OF False] Cons show ?thesis by auto
  qed
qed simp

lemma sort_by_rank:
  assumes "\<And>a b. le a b \<Longrightarrow> rank a \<le> (rank b :: nat)" and "\<And>a b. \<not> le a b \<Longrightarrow> rank b \<le> rank a"
  shows "sorted (map rank (sort_by le xs))"
proof (induction xs)
  case (Cons x xs)
  show ?case unfolding sort_by.simps by (rule insert_by_rank [OF assms Cons])
qed simp

section \<open>Worst-wins folding\<close>

text \<open>
  Several components settle a disagreement by rank, least first: the entry of lower rank stays, the
  earlier on a tie. The contract is a rank that tells its values apart.
\<close>

definition worse :: "('a \<Rightarrow> nat) \<Rightarrow> 'a \<Rightarrow> 'a \<Rightarrow> 'a" where
  "worse rank a b = (if rank a \<le> rank b then a else b)"

locale severity =
  fixes rank :: "'a \<Rightarrow> nat"
  assumes rank_inj: "rank a = rank b \<Longrightarrow> a = b"
begin

lemma worse_comm: "worse rank a b = worse rank b a"
  by (auto simp: worse_def intro: rank_inj)

lemma worse_assoc: "worse rank (worse rank a b) c = worse rank a (worse rank b c)"
  by (auto simp: worse_def)

lemma worse_idem: "worse rank a a = a"
  by (simp add: worse_def)

lemma foldl_worse_in: "foldl (worse rank) a xs \<in> insert a (set xs)"
proof (induction xs arbitrary: a)
  case (Cons x xs)
  show ?case using Cons [of "worse rank a x"] by (auto simp: worse_def split: if_splits)
qed simp

lemma foldl_worse_le: "x \<in> insert a (set xs) \<Longrightarrow> rank (foldl (worse rank) a xs) \<le> rank x"
proof (induction xs arbitrary: a x)
  case (Cons y xs)
  have "rank (foldl (worse rank) (worse rank a y) xs) \<le> rank (worse rank a y)"
    by (rule Cons.IH) simp
  then have "rank (foldl (worse rank) (worse rank a y) xs) \<le> min (rank a) (rank y)"
    by (auto simp: worse_def split: if_splits)
  with Cons show ?case by auto
qed simp

text \<open>The worst of a collection is determined: any element that is least is the one.\<close>

lemma foldl_worse_unique:
  assumes "m \<in> insert a (set xs)" and "\<And>x. x \<in> insert a (set xs) \<Longrightarrow> rank m \<le> rank x"
  shows "foldl (worse rank) a xs = m"
  by (intro rank_inj antisym foldl_worse_le assms foldl_worse_in)

lemma foldl_worse_set:
  "insert a (set xs) = insert b (set ys) \<Longrightarrow> foldl (worse rank) a xs = foldl (worse rank) b ys"
  using foldl_worse_in [of b ys] foldl_worse_le [of _ b ys] by (intro foldl_worse_unique) auto

end

end
