(* ===== verification/Json.thy ===== *)
theory Json
  imports Prelude
begin

text \<open>
  The \<open>unknown\<close> values the code passes around, as the JSON trees they are, plus the one
  non-JSON value a plain member read can produce: a function inherited from
  \<open>Object.prototype\<close> (\<open>JNative\<close>). Numbers are the integers a double holds exactly.
  An object is its own enumerable members in order; keys are distinct in every value a parser
  or an object literal builds (\<open>wf_json\<close>).
\<close>

datatype json =
    JNull
  | JBool bool
  | JNum int
  | JStr string
  | JArr "json list"
  | JObj "(string \<times> json) list"
  | JNative string

type_synonym jobject = "(string \<times> json) list"

lemma entry_size [termination_simp]:
  "(k, v) \<in> set es \<Longrightarrow> size v < Suc (size_list (size_prod (\<lambda>_. 0) size) es)"
  by (induction es) auto

fun wf_json :: "json \<Rightarrow> bool" where
  "wf_json (JArr xs) = (\<forall>x \<in> set xs. wf_json x)"
| "wf_json (JObj es) = (distinct (map fst es) \<and> (\<forall>(k, v) \<in> set es. wf_json v))"
| "wf_json (JNative n) = False"
| "wf_json v = True"

text \<open>Induction that hands out the hypothesis for every element and every member value.\<close>

lemma json_induct [case_names Null Bool Num Str Arr Obj Native]:
  assumes "P JNull" and "\<And>b. P (JBool b)" and "\<And>n. P (JNum n)" and "\<And>s. P (JStr s)"
    and "\<And>xs. (\<And>x. x \<in> set xs \<Longrightarrow> P x) \<Longrightarrow> P (JArr xs)"
    and "\<And>es. (\<And>k v. (k, v) \<in> set es \<Longrightarrow> P v) \<Longrightarrow> P (JObj es)"
    and "\<And>n. P (JNative n)"
  shows "P v"
proof (induction v rule: json.induct)
  case (JObj es)
  have "P w" if "(k, w) \<in> set es" for k w
    using JObj [of "(k, w)" w] that by simp
  with assms(6) show ?case by blast
qed (use assms in auto)

section \<open>Member access\<close>

text \<open>
  \<open>o[k]\<close> on a plain object reads an own member first and the prototype's otherwise:
  \<open>o['constructor']\<close> is a function, not \<open>undefined\<close>. \<open>k in o\<close> sees both.
\<close>

definition object_prototype_functions :: "string list" where
  "object_prototype_functions =
     [''hasOwnProperty'', ''isPrototypeOf'', ''propertyIsEnumerable'', ''toLocaleString'',
      ''toString'', ''valueOf'', ''__defineGetter__'', ''__defineSetter__'',
      ''__lookupGetter__'', ''__lookupSetter__'']"

definition proto_member :: "string \<Rightarrow> json option" where
  "proto_member k =
     (if k = ''constructor'' then Some (JNative ''Object'')
      else if k = ''__proto__'' then Some (JObj [])
      else if k \<in> set object_prototype_functions then Some (JNative k)
      else None)"

definition js_get :: "jobject \<Rightarrow> string \<Rightarrow> json option" where
  "js_get es k = (case map_of es k of Some v \<Rightarrow> Some v | None \<Rightarrow> proto_member k)"

definition js_in :: "string \<Rightarrow> jobject \<Rightarrow> bool" where
  "js_in k es = (js_get es k \<noteq> None)"

text \<open>
  \<open>o[k] = v\<close> on a plain object: \<open>__proto__\<close> reaches the prototype setter and adds no own
  member; any other key overwrites in place or is appended.
\<close>

definition js_set :: "string \<Rightarrow> json \<Rightarrow> jobject \<Rightarrow> jobject" where
  "js_set k v es = (if k = ''__proto__'' then es else AList.update k v es)"

definition js_assign :: "jobject \<Rightarrow> jobject" where
  "js_assign es = foldl (\<lambda>out (k, v). js_set k v out) [] es"

lemma js_get_own: "map_of es k = Some v \<Longrightarrow> js_get es k = Some v"
  by (simp add: js_get_def)

lemma js_get_plain: "proto_member k = None \<Longrightarrow> js_get es k = map_of es k"
  by (simp add: js_get_def split: option.splits)

lemma js_assign_filter:
  "distinct (map fst es) \<Longrightarrow> js_assign es = filter (\<lambda>(k, v). k \<noteq> ''__proto__'') es"
proof -
  assume d: "distinct (map fst es)"
  have *: "foldl (\<lambda>out (k, v). js_set k v out) out es = out @ filter (\<lambda>(k, v). k \<noteq> ''__proto__'') es"
    if "distinct (map fst es)" "fst ` set es \<inter> fst ` set out = {}" for es and out :: jobject
    using that
  proof (induction es arbitrary: out)
    case (Cons e es)
    obtain k v where e: "e = (k, v)" by (cases e)
    show ?case
    proof (cases "k = ''__proto__''")
      case True
      with Cons show ?thesis by (auto simp: e js_set_def)
    next
      case False
      then have "js_set k v out = out @ [(k, v)]"
        using Cons.prems by (auto simp: e js_set_def intro!: update_fresh)
      moreover have "fst ` set es \<inter> fst ` set (out @ [(k, v)]) = {}"
        using Cons.prems by (auto simp: e)
      ultimately show ?thesis using Cons False by (simp add: e)
    qed
  qed simp
  show ?thesis using * [OF d, of "[]"] by (simp add: js_assign_def)
qed

lemma js_assign_plain:
  "distinct (map fst es) \<Longrightarrow> ''__proto__'' \<notin> fst ` set es \<Longrightarrow> js_assign es = es"
  by (force simp: js_assign_filter filter_id_conv)

lemma js_assign_keys: "k \<in> fst ` set (js_assign es) \<Longrightarrow> k \<in> fst ` set es"
proof -
  have "k \<in> fst ` set (foldl (\<lambda>out (k, v). js_set k v out) out es) \<Longrightarrow>
        k \<in> fst ` set out \<or> k \<in> fst ` set es" for out
  proof (induction es arbitrary: out)
    case (Cons e es)
    obtain k' v where e: "e = (k', v)" by (cases e)
    from Cons.prems have "k \<in> fst ` set (foldl (\<lambda>out (k, v). js_set k v out) (js_set k' v out) es)"
      by (simp add: e)
    with Cons.IH have "k \<in> fst ` set (js_set k' v out) \<or> k \<in> fst ` set es" by blast
    then show ?case by (auto simp: e js_set_def dom_update split: if_splits)
  qed simp
  from this [of "[]"] show "k \<in> fst ` set (js_assign es) \<Longrightarrow> k \<in> fst ` set es"
    by (simp add: js_assign_def)
qed

lemma js_assign_values: "(k, v) \<in> set (js_assign es) \<Longrightarrow> \<exists>k'. (k', v) \<in> set es"
proof -
  have upd: "(k, v) \<in> set (AList.update k' v' m) \<Longrightarrow> v = v' \<or> (k, v) \<in> set m" for k' v' and m :: jobject
    by (induction m) (auto split: if_splits)
  have "(k, v) \<in> set (foldl (\<lambda>out (k, v). js_set k v out) out es) \<Longrightarrow>
        (k, v) \<in> set out \<or> (\<exists>k'. (k', v) \<in> set es)" for out
  proof (induction es arbitrary: out)
    case (Cons e es)
    obtain k' v' where e: "e = (k', v')" by (cases e)
    from Cons.prems Cons.IH [of "js_set k' v' out"]
    have "(k, v) \<in> set (js_set k' v' out) \<or> (\<exists>k''. (k'', v) \<in> set es)" by (simp add: e)
    then show ?case using upd [of k' v' out] by (auto simp: e js_set_def split: if_splits)
  qed simp
  from this [of "[]"] show "(k, v) \<in> set (js_assign es) \<Longrightarrow> \<exists>k'. (k', v) \<in> set es"
    by (simp add: js_assign_def)
qed

section \<open>\<open>String(v)\<close> and \<open>JSON.stringify\<close>\<close>

text \<open>
  \<open>String\<close> of an array joins its elements with commas, \<open>null\<close> giving nothing; of a plain
  object, the fixed tag (an object with an own \<open>toString\<close> or \<open>valueOf\<close> is outside the model).
\<close>

fun js_string :: "json \<Rightarrow> string" where
  "js_string JNull = ''null''"
| "js_string (JBool b) = (if b then ''true'' else ''false'')"
| "js_string (JNum n) = int_str n"
| "js_string (JStr s) = s"
| "js_string (JArr xs) = join '','' (map (\<lambda>x. if x = JNull then [] else js_string x) xs)"
| "js_string (JObj es) = ''[object Object]''"
| "js_string (JNative n) = ''function '' @ n @ ''() { [native code] }''"

definition hex_digit :: "nat \<Rightarrow> char" where
  "hex_digit n = (if n < 10 then char_of (48 + n) else char_of (87 + n))"

text \<open>A string literal as \<open>JSON.stringify\<close> writes it, for code units below 256.\<close>

definition escape_char :: "char \<Rightarrow> string" where
  "escape_char c =
     (let n = of_char c :: nat in
      if n = 34 then [CHR 92, CHR 34]
      else if n = 92 then [CHR 92, CHR 92]
      else if n = 8 then [CHR 92, CHR ''b'']
      else if n = 12 then [CHR 92, CHR ''f'']
      else if n = 10 then [CHR 92, CHR ''n'']
      else if n = 13 then [CHR 92, CHR ''r'']
      else if n = 9 then [CHR 92, CHR ''t'']
      else if n < 32 then [CHR 92, CHR ''u'', CHR ''0'', CHR ''0'', hex_digit (n div 16), hex_digit (n mod 16)]
      else [c])"

definition stringify_string :: "string \<Rightarrow> string" where
  "stringify_string s = CHR 34 # concat (map escape_char s) @ [CHR 34]"

section \<open>Objects with optional members\<close>

text \<open>An absent optional member of a record is not a member of the object it is at run time.\<close>

definition member_of :: "string \<Rightarrow> ('a \<Rightarrow> json) \<Rightarrow> 'a option \<Rightarrow> jobject" where
  "member_of k f x = (case x of None \<Rightarrow> [] | Some a \<Rightarrow> [(k, f a)])"

lemma map_of_member_of [simp]:
  "map_of (member_of k f x) l = (if l = k then map_option f x else None)"
  by (simp add: member_of_def split: option.splits)

text \<open>A member list is read key by key: another key is skipped, an absent member is not found.\<close>

lemma member_lookup:
  "l \<noteq> k \<Longrightarrow> map_of (member_of k f x @ es) l = map_of es l"
  "map_of es k = None \<Longrightarrow> map_of (member_of k f x @ es) k = map_option f x"
  "l \<noteq> k \<Longrightarrow> map_of ([(k, v)] @ es) l = map_of es l"
  "map_of ([(k, v)] @ es) k = Some v"
  by (simp_all add: member_of_def split: option.splits)

lemmas member_reads = member_lookup map_of_member_of

lemma wf_member_Cons:
  "wf_json (JObj es) \<Longrightarrow> k \<notin> fst ` set es \<Longrightarrow> (\<And>a. wf_json (f a)) \<Longrightarrow> wf_json (JObj (member_of k f x @ es))"
  "wf_json (JObj es) \<Longrightarrow> k \<notin> fst ` set es \<Longrightarrow> wf_json v \<Longrightarrow> wf_json (JObj ([(k, v)] @ es))"
  "(\<And>a. wf_json (f a)) \<Longrightarrow> wf_json (JObj (member_of k f x))"
  by (auto simp: member_of_def split: option.splits)

lemma key_notin_member:
  "l \<noteq> k \<Longrightarrow> l \<notin> fst ` set es \<Longrightarrow> l \<notin> fst ` set (member_of k f x @ es)"
  "l \<noteq> k \<Longrightarrow> l \<notin> fst ` set es \<Longrightarrow> l \<notin> fst ` set ([(k, v)] @ es)"
  "l \<noteq> k \<Longrightarrow> l \<notin> fst ` set (member_of k f x)"
  by (auto simp: member_of_def split: option.splits)

text \<open>\<open>v.k\<close> of a value that is not \<open>null\<close>, \<open>x ?? d\<close> and truthiness.\<close>

definition prop_of :: "json \<Rightarrow> string \<Rightarrow> json option" where
  "prop_of v k = (case v of JObj es \<Rightarrow> js_get es k | _ \<Rightarrow> None)"

definition coalesce :: "json option \<Rightarrow> json \<Rightarrow> json" where
  "coalesce x d = (case x of None \<Rightarrow> d | Some JNull \<Rightarrow> d | Some v \<Rightarrow> v)"

definition is_truthy :: "json option \<Rightarrow> bool" where
  "is_truthy v =
     (case v of None \<Rightarrow> False | Some JNull \<Rightarrow> False | Some (JBool b) \<Rightarrow> b | Some (JNum n) \<Rightarrow> n \<noteq> 0 | Some (JStr s) \<Rightarrow> s \<noteq> [] | _ \<Rightarrow> True)"

end
