(* ===== verification/Profiles.thy ===== *)
theory Profiles
  imports Json "HOL-Library.List_Lexorder" "HOL-Library.Char_ord"
begin

text \<open>
  Compatibility profiles (\<open>profiles.ts\<close>): the discovery predicates, the operational annexes, the
  floor table and the verification of a version 1 bundle. A discovery payload is an object; a
  member read of anything but an object gives \<open>undefined\<close> (\<open>None\<close>) for the names read here.
\<close>

section \<open>Reading a payload\<close>

type_synonym discovery = jobject

definition member :: "json option \<Rightarrow> string \<Rightarrow> json option" where
  "member v k = (case v of Some (JObj es) \<Rightarrow> js_get es k | _ \<Rightarrow> None)"

definition is_object :: "json option \<Rightarrow> bool" where
  "is_object v = (case v of Some (JObj es) \<Rightarrow> True | Some (JArr xs) \<Rightarrow> True | _ \<Rightarrow> False)"

definition nullish :: "json option \<Rightarrow> bool" where
  "nullish v = (v = None \<or> v = Some JNull)"

fun is_string :: "json \<Rightarrow> bool" where
  "is_string (JStr s) = True"
| "is_string v = False"

definition isStringArray :: "json option \<Rightarrow> bool" where
  "isStringArray v = (case v of Some (JArr xs) \<Rightarrow> list_all is_string xs | _ \<Rightarrow> False)"

definition isNonNegativeInteger :: "json option \<Rightarrow> bool" where
  "isNonNegativeInteger v = (case v of Some (JNum n) \<Rightarrow> 0 \<le> n | _ \<Rightarrow> False)"

definition includes_str :: "json option \<Rightarrow> string \<Rightarrow> bool" where
  "includes_str v s = (case v of Some (JArr xs) \<Rightarrow> JStr s \<in> set xs | _ \<Rightarrow> False)"

definition canonical_number :: "string \<Rightarrow> bool" where
  "canonical_number s =
     (s = ''0'' \<or> (case s of [] \<Rightarrow> False | c # cs \<Rightarrow> is_digit c \<and> c \<noteq> CHR ''0'' \<and> list_all is_digit cs))"

text \<open>\<open>PROTOCOL_VERSION_GRAMMAR\<close>: the major of a well-formed \<open>major.minor\<close>.\<close>

definition version_major :: "string \<Rightarrow> string option" where
  "version_major s =
     (let major = takeWhile (\<lambda>c. c \<noteq> CHR ''.'') s; rest = dropWhile (\<lambda>c. c \<noteq> CHR ''.'') s in
      if rest \<noteq> [] \<and> canonical_number major \<and> canonical_number (tl rest) then Some major else None)"

section \<open>The predicates\<close>

definition isCore :: "discovery \<Rightarrow> bool" where
  "isCore c =
     (let limits = js_get c ''limits'' in
      (case js_get c ''protocolVersion'' of Some (JStr v) \<Rightarrow> version_major v = Some ''1'' | _ \<Rightarrow> False) \<and>
      isStringArray (js_get c ''supportedEnvelopes'') \<and>
      is_object (js_get c ''schemaVersions'') \<and>
      is_object limits \<and>
      isNonNegativeInteger (member limits ''clarificationRounds'') \<and>
      isNonNegativeInteger (member limits ''schemaRounds'') \<and>
      isNonNegativeInteger (member limits ''envelopesPerTurn''))"

definition isInterrupts :: "discovery \<Rightarrow> bool" where
  "isInterrupts c =
     (isCore c \<and> isStringArray (js_get c ''supportedEnvelopes'') \<and>
      includes_str (js_get c ''supportedEnvelopes'') ''clarification.request'')"

definition isStreamSse :: "discovery \<Rightarrow> bool" where
  "isStreamSse c =
     (isCore c \<and> (nullish (js_get c ''supportedTransports'') \<or>
        isStringArray (js_get c ''supportedTransports'') \<and> includes_str (js_get c ''supportedTransports'') ''rest''))"

definition isStreamPoll :: "discovery \<Rightarrow> bool" where
  "isStreamPoll c =
     (isCore c \<and> (nullish (js_get c ''supportedTransports'') \<or>
        isStringArray (js_get c ''supportedTransports'') \<and> includes_str (js_get c ''supportedTransports'') ''rest''))"

definition isSecrets :: "discovery \<Rightarrow> bool" where
  "isSecrets c =
     (let s = js_get c ''secrets'' in
      isCore c \<and> is_object s \<and> member s ''supported'' = Some (JBool True) \<and>
      isStringArray (member s ''scopes'') \<and> includes_str (member s ''scopes'') ''user'')"

definition isProviderPolicy :: "discovery \<Rightarrow> bool" where
  "isProviderPolicy c =
     (let a = js_get c ''aiProviders''; p = member a ''policies'' in
      isCore c \<and> is_object a \<and> is_object p \<and> isStringArray (member p ''modes'') \<and>
      member p ''modes'' \<noteq> Some (JArr []) \<and> includes_str (member p ''modes'') ''optional'')"

definition isNodePacksDiscovery :: "discovery \<Rightarrow> bool" where
  "isNodePacksDiscovery c = isCore c"

definition isReplayFork :: "discovery \<Rightarrow> bool" where
  "isReplayFork c =
     (let r = js_get c ''replay'' in
      isCore c \<and> is_object r \<and> member r ''supported'' = Some (JBool True) \<and>
      isStringArray (member r ''modes'') \<and> member r ''modes'' \<noteq> Some (JArr []))"

definition isFixtures :: "discovery \<Rightarrow> bool" where
  "isFixtures c =
     (isCore c \<and> (case js_get c ''fixtures'' of
        Some (JArr xs) \<Rightarrow> xs \<noteq> [] \<and> list_all (\<lambda>x. is_string x \<and> x \<noteq> JStr []) xs
      | _ \<Rightarrow> False))"

definition isMemory :: "discovery \<Rightarrow> bool" where
  "isMemory c =
     (let m = js_get c ''memory''; a = js_get c ''agents'' in
      isCore c \<and> is_object m \<and> member m ''supported'' = Some (JBool True) \<and>
      member m ''writable'' \<noteq> Some (JBool False) \<and>
      \<not> nullish a \<and> isStringArray (member a ''memoryBackends'') \<and> includes_str (member a ''memoryBackends'') ''long-term'')"

definition blockSupported :: "json option \<Rightarrow> bool" where
  "blockSupported v = (is_object v \<and> member v ''supported'' = Some (JBool True))"

definition isTriggerBridge :: "discovery \<Rightarrow> bool" where
  "isTriggerBridge c =
     (let external = member (member (js_get c ''triggerBridge'') ''ingestion'') ''externalSources'' in
      isCore c \<and> blockSupported (js_get c ''triggerBridge'') \<and> blockSupported (js_get c ''deadLetter'') \<and>
      (blockSupported (js_get c ''queueBus'') \<or> blockSupported (js_get c ''scheduling'') \<or>
       is_object (js_get c ''webhooks'') \<and> member (js_get c ''webhooks'') ''durable'' = Some (JBool True) \<or>
       includes_str external ''email'' \<or> includes_str external ''form''))"

section \<open>The agent-platform annex\<close>

definition isAgentPlatformPartial :: "discovery \<Rightarrow> bool" where
  "isAgentPlatformPartial c =
     (isCore c \<and>
      blockSupported (member (js_get c ''agents'') ''manifestRuntime'') \<and>
      blockSupported (member (js_get c ''agents'') ''liveRuntime'') \<and>
      blockSupported (js_get c ''toolCatalog'') \<and> blockSupported (js_get c ''toolHooks'') \<and>
      blockSupported (member (js_get c ''httpClient'') ''safeFetch'') \<and>
      blockSupported (js_get c ''providerUsage'') \<and> blockSupported (js_get c ''prompts'') \<and>
      blockSupported (js_get c ''memory'') \<and> blockSupported (js_get c ''feedback'') \<and>
      (member (js_get c ''replay'') ''supported'' = Some (JBool True) \<or>
       member (js_get c ''nondeterminismPolicy'') ''declared'' = Some (JBool True)))"

definition isAgentPlatformFull :: "discovery \<Rightarrow> bool" where
  "isAgentPlatformFull c =
     (isAgentPlatformPartial c \<and>
      blockSupported (js_get c ''authorization'') \<and>
      member (member (js_get c ''agents'') ''manifestRuntime'') ''installScope'' = Some (JStr ''tenant'') \<and>
      blockSupported (member (js_get c ''memory'') ''attribution'') \<and>
      blockSupported (js_get c ''debugBundle'') \<and> blockSupported (js_get c ''triggerBridge'') \<and>
      blockSupported (member (js_get c ''httpClient'') ''egressPolicy''))"

datatype platform_status = PlatformNone | PlatformPartial | PlatformFull

definition agentPlatformStatus :: "discovery \<Rightarrow> platform_status" where
  "agentPlatformStatus c =
     (if isAgentPlatformFull c then PlatformFull
      else if isAgentPlatformPartial c then PlatformPartial else PlatformNone)"

definition floor_terms :: "discovery \<Rightarrow> (string \<times> bool) list" where
  "floor_terms c =
     [(''floor:agents.manifestRuntime'', blockSupported (member (js_get c ''agents'') ''manifestRuntime'')),
      (''floor:agents.liveRuntime'', blockSupported (member (js_get c ''agents'') ''liveRuntime'')),
      (''floor:toolCatalog'', blockSupported (js_get c ''toolCatalog'')),
      (''floor:toolHooks'', blockSupported (js_get c ''toolHooks'')),
      (''floor:httpClient.safeFetch'', blockSupported (member (js_get c ''httpClient'') ''safeFetch'')),
      (''floor:providerUsage'', blockSupported (js_get c ''providerUsage'')),
      (''floor:prompts'', blockSupported (js_get c ''prompts'')),
      (''floor:memory'', blockSupported (js_get c ''memory'')),
      (''floor:feedback'', blockSupported (js_get c ''feedback'')),
      (''floor:replay-or-nondeterminism'',
         member (js_get c ''replay'') ''supported'' = Some (JBool True) \<or>
         member (js_get c ''nondeterminismPolicy'') ''declared'' = Some (JBool True))]"

definition full_terms :: "discovery \<Rightarrow> (string \<times> bool) list" where
  "full_terms c =
     [(''full:authorization'', blockSupported (js_get c ''authorization'')),
      (''full:tenant-installScope'',
         member (member (js_get c ''agents'') ''manifestRuntime'') ''installScope'' = Some (JStr ''tenant'')),
      (''full:memory.attribution'', blockSupported (member (js_get c ''memory'') ''attribution'')),
      (''full:debugBundle'', blockSupported (js_get c ''debugBundle'')),
      (''full:triggerBridge'', blockSupported (js_get c ''triggerBridge'')),
      (''full:egressPolicy'', blockSupported (member (js_get c ''httpClient'') ''egressPolicy''))]"

definition agentPlatformSatisfiedTerms :: "discovery \<Rightarrow> string list" where
  "agentPlatformSatisfiedTerms c = map fst (filter snd (floor_terms c @ full_terms c))"

definition isCoreStandard :: "discovery \<Rightarrow> bool" where
  "isCoreStandard c = (isCore c \<and> isInterrupts c \<and> (isStreamSse c \<or> isStreamPoll c))"

section \<open>The catalog\<close>

definition profile_names :: "string list" where
  "profile_names =
     [''openwop-discovery-core'', ''openwop-core'', ''openwop-interrupts'', ''openwop-stream-sse'',
      ''openwop-stream-poll'', ''openwop-secrets'', ''openwop-provider-policy'', ''openwop-node-packs'',
      ''openwop-replay-fork'', ''openwop-fixtures'', ''openwop-memory'', ''openwop-trigger-bridge'']"

definition deprecated_profile_aliases :: "(string \<times> string) list" where
  "deprecated_profile_aliases = [(''openwop-core'', ''openwop-discovery-core'')]"

definition push_if :: "bool \<Rightarrow> string list \<Rightarrow> string list" where
  "push_if b names = (if b then names else [])"

definition deriveProfiles :: "discovery \<Rightarrow> string list" where
  "deriveProfiles c =
     push_if (isCore c) [''openwop-discovery-core'', ''openwop-core''] @
     push_if (isInterrupts c) [''openwop-interrupts''] @
     push_if (isStreamSse c) [''openwop-stream-sse''] @
     push_if (isStreamPoll c) [''openwop-stream-poll''] @
     push_if (isSecrets c) [''openwop-secrets''] @
     push_if (isProviderPolicy c) [''openwop-provider-policy''] @
     push_if (isNodePacksDiscovery c) [''openwop-node-packs''] @
     push_if (isReplayFork c) [''openwop-replay-fork''] @
     push_if (isFixtures c) [''openwop-fixtures''] @
     push_if (isMemory c) [''openwop-memory''] @
     push_if (isTriggerBridge c) [''openwop-trigger-bridge'']"

text \<open>The switch has no default: another name gives \<open>undefined\<close>.\<close>

definition profile_predicates :: "(string \<times> (discovery \<Rightarrow> bool)) list" where
  "profile_predicates =
     [(''openwop-discovery-core'', isCore), (''openwop-core'', isCore), (''openwop-interrupts'', isInterrupts),
      (''openwop-stream-sse'', isStreamSse), (''openwop-stream-poll'', isStreamPoll), (''openwop-secrets'', isSecrets),
      (''openwop-provider-policy'', isProviderPolicy), (''openwop-node-packs'', isNodePacksDiscovery),
      (''openwop-replay-fork'', isReplayFork), (''openwop-fixtures'', isFixtures), (''openwop-memory'', isMemory),
      (''openwop-trigger-bridge'', isTriggerBridge)]"

definition hasProfile :: "discovery \<Rightarrow> string \<Rightarrow> bool option" where
  "hasProfile c profile = map_option (\<lambda>p. p c) (map_of profile_predicates profile)"

section \<open>The major-2 registry\<close>

text \<open>
  \<open>v2-profiles.ts\<close>: the registry is the \<open>profiles\<close> array of a corpus file read at run time, \<open>None\<close>
  when this install has none; its entries are objects.
\<close>

type_synonym registry = "json list option"

definition v2RegistryAvailable :: "registry \<Rightarrow> bool" where
  "v2RegistryAvailable reg = (reg \<noteq> None)"

definition string_list :: "json option \<Rightarrow> string list" where
  "string_list v = (case v of Some (JArr xs) \<Rightarrow> map js_string xs | _ \<Rightarrow> [])"

definition is_record :: "json option \<Rightarrow> bool" where
  "is_record v = (case v of Some (JObj es) \<Rightarrow> True | _ \<Rightarrow> False)"

definition metadataPresent :: "discovery \<Rightarrow> string \<Rightarrow> bool" where
  "metadataPresent doc entry =
     (if CHR ''.'' \<notin> set entry then js_get doc entry \<noteq> None
      else
        let v = js_get doc (takeWhile (\<lambda>c. c \<noteq> CHR ''.'') entry) in
        is_record v \<and> member v (tl (dropWhile (\<lambda>c. c \<noteq> CHR ''.'') entry)) \<noteq> None)"

definition registry_families :: "json \<Rightarrow> string list" where
  "registry_families p = string_list (member (member (Some p) ''predicate'') ''families'')"

definition registry_metadata :: "json \<Rightarrow> string list" where
  "registry_metadata p = string_list (member (member (Some p) ''predicate'') ''metadata'')"

definition registry_id :: "json \<Rightarrow> string option" where
  "registry_id p = (case member (Some p) ''id'' of Some (JStr i) \<Rightarrow> Some i | _ \<Rightarrow> None)"

definition v2ProfileIds :: "registry \<Rightarrow> discovery \<Rightarrow> string list option" where
  "v2ProfileIds reg doc =
     map_option (List.map_filter (\<lambda>p.
       case registry_id p of
         None \<Rightarrow> None
       | Some i \<Rightarrow>
           if list_all (\<lambda>k. is_record (js_get doc k)) (registry_families p) \<and>
              list_all (metadataPresent doc) (registry_metadata p)
           then Some i else None)) reg"

definition v2ProfileDerivable :: "registry \<Rightarrow> discovery \<Rightarrow> string \<Rightarrow> bool" where
  "v2ProfileDerivable reg doc profile =
     (case v2ProfileIds reg doc of None \<Rightarrow> False | Some ids \<Rightarrow> profile \<in> set ids)"

definition obligation_family :: "string \<Rightarrow> string" where
  "obligation_family ob = takeWhile (\<lambda>c. c \<noteq> CHR ''.'') ob"

text \<open>\<open>owned\<close>: the last entry of an id wins.\<close>

definition owned_families :: "registry \<Rightarrow> string \<Rightarrow> string list" where
  "owned_families reg i =
     (case map_of (rev (List.map_filter (\<lambda>p. map_option (\<lambda>j. (j, registry_families p)) (registry_id p))
                 (case reg of None \<Rightarrow> [] | Some ps \<Rightarrow> ps))) i of
        None \<Rightarrow> [] | Some fs \<Rightarrow> fs)"

definition profilesRelaxedBy :: "registry \<Rightarrow> string list \<Rightarrow> string list \<Rightarrow> string list" where
  "profilesRelaxedBy reg obligations profileIds =
     (let families = filter (\<lambda>f. f \<noteq> []) (map obligation_family obligations) in
      uniq (filter (\<lambda>i. (\<exists>f \<in> set (owned_families reg i). f \<in> set families) \<or> (\<exists>f \<in> set families. has_sub f i)) profileIds))"

definition undeclared_relaxation_witnesses :: "(string \<times> string) list" where
  "undeclared_relaxation_witnesses = [(''openwop.requirement.0171.webhook-egress-refused'', ''webhooks.egress-guard'')]"

text \<open>The rows are given by id and whether the result is \<open>executed-fail\<close>.\<close>

definition observed_obligations :: "(string \<times> bool) list \<Rightarrow> string list" where
  "observed_obligations rows = map snd (filter (\<lambda>(i, ob). (i, True) \<in> set rows) undeclared_relaxation_witnesses)"

definition profilesDeniedByObservedRelaxation :: "registry \<Rightarrow> (string \<times> bool) list \<Rightarrow> string list \<Rightarrow> string list" where
  "profilesDeniedByObservedRelaxation reg rows profileIds = profilesRelaxedBy reg (observed_obligations rows) profileIds"

section \<open>Floors\<close>

record floor_branch =
  fb_path :: string
  fb_includes :: string
  fb_required :: "string list"

record profile_floor =
  pf_required :: "string list"
  pf_requiredAnyPrefix :: "string list"
  pf_requiredAnyOf :: "string list list"
  pf_discoveryOnly :: bool
  pf_runtimeDerived :: bool
  pf_conditional :: "floor_branch list"

definition floor_requiring :: "string list \<Rightarrow> profile_floor" where
  "floor_requiring fs =
     \<lparr>pf_required = fs, pf_requiredAnyPrefix = [], pf_requiredAnyOf = [], pf_discoveryOnly = False,
      pf_runtimeDerived = False, pf_conditional = []\<rparr>"

definition discovery_only :: profile_floor where
  "discovery_only = (floor_requiring [])\<lparr>pf_discoveryOnly := True\<rparr>"

definition floorMemberFiles :: "profile_floor \<Rightarrow> string list" where
  "floorMemberFiles f = pf_required f @ concat (map fb_required (pf_conditional f)) @ concat (pf_requiredAnyOf f)"

definition profile_floor_scenarios :: "(string \<times> profile_floor) list" where
  "profile_floor_scenarios =
     [(''openwop-core-standard'',
       (floor_requiring
          [''runs-lifecycle.test.ts'', ''discovery.test.ts'', ''auth.test.ts'', ''eventOrdering.test.ts'',
           ''failure-path.test.ts'', ''idempotency.test.ts'', ''idempotency-key-determinism.test.ts'',
           ''webhook-negative.test.ts''])\<lparr>pf_requiredAnyPrefix := [''interrupt-'']\<rparr>),
      (''openwop-discovery-core'', discovery_only),
      (''openwop-core'', discovery_only),
      (''openwop-fixtures'', discovery_only),
      (''openwop-stream-sse'',
       floor_requiring [''stream-modes.test.ts'', ''stream-modes-buffer.test.ts'', ''stream-modes-mixed.test.ts'']),
      (''openwop-stream-poll'', floor_requiring [''stream-modes.test.ts'']),
      (''openwop-node-packs'',
       (floor_requiring [''pack-registry.test.ts'', ''pack-registry-publish.test.ts''])\<lparr>pf_runtimeDerived := True\<rparr>),
      (''openwop-interrupts'',
       (floor_requiring [''interrupt-clarification.test.ts''])\<lparr>pf_requiredAnyPrefix := [''interrupt-'']\<rparr>),
      (''openwop-secrets'',
       (floor_requiring [])\<lparr>pf_requiredAnyOf := [[''byok-roundtrip.test.ts'', ''secrets-run-witness.test.ts'']]\<rparr>),
      (''openwop-provider-policy'', floor_requiring [''policies.test.ts'', ''providerPolicyEnforcement.test.ts'']),
      (''openwop-memory'',
       floor_requiring
         [''memory-capability-model-shape.test.ts'', ''memory-attribution-shape.test.ts'',
          ''memory-attribution-emits-on-write.test.ts'', ''memory-degraded-projection.test.ts'']),
      (''openwop-trigger-bridge'',
       floor_requiring [''trigger-bridge-shape.test.ts'', ''trigger-bridge-delivery.test.ts'']),
      (''openwop-agent-platform'',
       (floor_requiring
          [''agent-platform-aggregate-evidence.test.ts'', ''agent-manifest-runtime.test.ts'',
           ''agent-live-runtime-shape.test.ts'', ''tool-descriptor-shape.test.ts'', ''tool-hooks-shape.test.ts'',
           ''safefetch-behavior.test.ts'', ''provider-usage.test.ts'', ''prompt-list-and-fetch.test.ts'',
           ''memory-capability-model-shape.test.ts'', ''feedback-capability-shape.test.ts''])
         \<lparr>pf_conditional := [\<lparr>fb_path = ''replay.modes'', fb_includes = ''replay'', fb_required = [''replayDeterminism.test.ts'']\<rparr>]\<rparr>),
      (''openwop-replay-fork'',
       (floor_requiring [])
         \<lparr>pf_conditional :=
            [\<lparr>fb_path = ''replay.modes'', fb_includes = ''replay'',
              fb_required = [''replayDeterminism.test.ts'', ''replay-side-effect-suppression.test.ts'']\<rparr>,
             \<lparr>fb_path = ''replay.modes'', fb_includes = ''branch'', fb_required = [''replay-fork.test.ts'']\<rparr>]\<rparr>)]"

text \<open>
  \<open>PROFILE_FLOOR_SCENARIOS[profile]\<close> on a plain object: a name inherited from \<open>Object.prototype\<close> gives
  a value that is no floor, and reading its \<open>required\<close> list throws.
\<close>

datatype js_exception = TypeError string

definition floor_lookup :: "string \<Rightarrow> js_exception + profile_floor option" where
  "floor_lookup profile =
     (case map_of profile_floor_scenarios profile of
        Some f \<Rightarrow> Inr (Some f)
      | None \<Rightarrow> if proto_member profile = None then Inr None else Inl (TypeError ''floor.required is not iterable''))"

section \<open>Requirement ids\<close>

definition strip_suffix :: "string \<Rightarrow> string \<Rightarrow> string" where
  "strip_suffix suf s = (if ends_with suf s then take (length s - length suf) s else s)"

definition file_stem :: "string \<Rightarrow> string" where
  "file_stem f = strip_suffix ''.test.ts'' f"

definition requirementIdForScenario :: "string \<Rightarrow> string" where
  "requirementIdForScenario f = ''openwop.floor.'' @ file_stem f"

definition requirementIdForPrefix :: "string \<Rightarrow> string" where
  "requirementIdForPrefix p = ''openwop.floor.any.'' @ p"

definition requirementIdForAnyOf :: "string list \<Rightarrow> string" where
  "requirementIdForAnyOf fs = ''openwop.floor.anyof.'' @ join ''+'' (map file_stem fs)"

definition readPath :: "discovery \<Rightarrow> string \<Rightarrow> json option" where
  "readPath doc path = foldl member (Some (JObj doc)) (split_char (CHR ''.'') path)"

definition branch_files :: "discovery \<Rightarrow> profile_floor \<Rightarrow> string list" where
  "branch_files doc f =
     concat (map (\<lambda>b. if includes_str (readPath doc (fb_path b)) (fb_includes b) then fb_required b else []) (pf_conditional f))"

definition floorFilesFor :: "string \<Rightarrow> discovery option \<Rightarrow> js_exception + string list option" where
  "floorFilesFor profile document =
     ebind (floor_lookup profile) (\<lambda>entry. Inr
       (case entry of
          None \<Rightarrow> None
        | Some f \<Rightarrow>
            if pf_conditional f = [] then Some (uniq (pf_required f))
            else (case document of None \<Rightarrow> None | Some doc \<Rightarrow> Some (uniq (pf_required f @ branch_files doc f)))))"

text \<open>\<open>v2Floors\<close> is module state the runner installs: an argument, \<open>None\<close> when not installed.\<close>

type_synonym v2_floors = "(string \<times> string list) list option"

definition v2FloorsActive :: "v2_floors \<Rightarrow> bool" where
  "v2FloorsActive v2 = (v2 \<noteq> None)"

definition requirementsFor :: "v2_floors \<Rightarrow> string \<Rightarrow> discovery option \<Rightarrow> js_exception + string list option" where
  "requirementsFor v2 profile document =
     (case v2 of
        Some floors \<Rightarrow>
          (case map_of floors profile of
             Some files \<Rightarrow> Inr (Some (map requirementIdForScenario files))
           | None \<Rightarrow> if proto_member profile = None then Inr None else Inl (TypeError ''files.map is not a function''))
      | None \<Rightarrow>
          ebind (floor_lookup profile) (\<lambda>entry.
            case entry of
              None \<Rightarrow> Inr None
            | Some f \<Rightarrow>
                if pf_discoveryOnly f then Inr (Some [])
                else ebind (floorFilesFor profile document) (\<lambda>files. Inr
                  (case files of
                     None \<Rightarrow> None
                   | Some fs \<Rightarrow>
                       Some (map requirementIdForScenario fs @ map requirementIdForPrefix (pf_requiredAnyPrefix f) @
                             map requirementIdForAnyOf (pf_requiredAnyOf f))))))"

definition allRequirements :: "string list" where
  "allRequirements =
     sort (uniq (concat (map (\<lambda>(p, f).
       if pf_discoveryOnly f then []
       else map requirementIdForScenario (pf_required f) @
            concat (map (\<lambda>b. map requirementIdForScenario (fb_required b)) (pf_conditional f)) @
            map requirementIdForPrefix (pf_requiredAnyPrefix f) @
            concat (map (\<lambda>g. requirementIdForAnyOf g # map requirementIdForScenario g) (pf_requiredAnyOf f)))
       profile_floor_scenarios)))"

section \<open>Verifying a version 1 bundle\<close>

definition profileDerivable :: "registry \<Rightarrow> discovery \<Rightarrow> string \<Rightarrow> nat \<Rightarrow> bool" where
  "profileDerivable reg c profile targetMajor =
     (if targetMajor = 2 then v2ProfileDerivable reg c profile
      else if profile = ''openwop-core-standard'' then isCoreStandard c
      else if profile = ''openwop-agent-platform'' then agentPlatformStatus c \<noteq> PlatformNone
      else profile \<in> set profile_names \<and> profile \<in> set (deriveProfiles c))"

record bundle_v1 =
  b1_document :: discovery
  b1_claimedProfiles :: "string list"
  b1_passed :: "string list"

record bundle_profile_verdict =
  bv_profile :: string
  bv_derivable :: bool
  bv_floorProven :: bool
  bv_valid :: bool
  bv_missingFloor :: "string list"
  bv_floorUnspecified :: bool

definition scenarioBasename :: "string \<Rightarrow> string" where
  "scenarioBasename i = last (split_char (CHR ''/'') i)"

definition verifyBundleProfile :: "bundle_v1 \<Rightarrow> string \<Rightarrow> js_exception + bundle_profile_verdict" where
  "verifyBundleProfile b profile =
     (let derivable = profileDerivable None (b1_document b) profile 1 in
      ebind (floor_lookup profile) (\<lambda>entry. Inr
        (case entry of
           None \<Rightarrow> \<lparr>bv_profile = profile, bv_derivable = derivable, bv_floorProven = False, bv_valid = False,
                    bv_missingFloor = [], bv_floorUnspecified = True\<rparr>
         | Some f \<Rightarrow>
             let passed = map scenarioBasename (b1_passed b);
                 requiredFiles = pf_required f @ branch_files (b1_document b) f;
                 missing = filter (\<lambda>r. scenarioBasename r \<notin> set passed) requiredFiles @
                   map (join '' | '') (filter (\<lambda>g. \<not> (\<exists>x \<in> set g. scenarioBasename x \<in> set passed)) (pf_requiredAnyOf f));
                 prefixOk = list_all (\<lambda>p. \<exists>s \<in> set passed. starts_with p s) (pf_requiredAnyPrefix f);
                 evaluable = (pf_discoveryOnly f \<or> requiredFiles \<noteq> [] \<or> pf_requiredAnyPrefix f \<noteq> [] \<or> pf_requiredAnyOf f \<noteq> []);
                 proven = (evaluable \<and> missing = [] \<and> prefixOk)
             in \<lparr>bv_profile = profile, bv_derivable = derivable, bv_floorProven = proven, bv_valid = (derivable \<and> proven),
                 bv_missingFloor = missing, bv_floorUnspecified = False\<rparr>)))"

definition verifyBundle :: "bundle_v1 \<Rightarrow> js_exception + bool \<times> bundle_profile_verdict list" where
  "verifyBundle b =
     ebind (emap (verifyBundleProfile b) (b1_claimedProfiles b)) (\<lambda>vs. Inr (list_all bv_valid vs, vs))"

section \<open>Properties of the catalog\<close>

lemma profiles_need_core:
  "isInterrupts c \<Longrightarrow> isCore c" "isStreamSse c \<Longrightarrow> isCore c" "isStreamPoll c \<Longrightarrow> isCore c"
  "isSecrets c \<Longrightarrow> isCore c" "isProviderPolicy c \<Longrightarrow> isCore c" "isNodePacksDiscovery c \<Longrightarrow> isCore c"
  "isReplayFork c \<Longrightarrow> isCore c" "isFixtures c \<Longrightarrow> isCore c" "isMemory c \<Longrightarrow> isCore c" "isTriggerBridge c \<Longrightarrow> isCore c"
  by (simp_all add: isInterrupts_def isStreamSse_def isStreamPoll_def isSecrets_def isProviderPolicy_def
      isNodePacksDiscovery_def isReplayFork_def isFixtures_def isMemory_def isTriggerBridge_def Let_def)

definition catalog_flags :: "discovery \<Rightarrow> (string \<times> bool) list" where
  "catalog_flags c = map (\<lambda>(n, p). (n, p c)) profile_predicates"

lemma catalog_names: "map fst profile_predicates = profile_names"
  by (simp add: profile_predicates_def profile_names_def)

lemma deriveProfiles_flags: "deriveProfiles c = map fst (filter snd (catalog_flags c))"
  by (simp add: deriveProfiles_def catalog_flags_def profile_predicates_def push_if_def)

lemma distinct_profile_names: "distinct profile_names"
  by (simp add: profile_names_def)

lemma catalog_flag_names: "map fst (catalog_flags c) = profile_names"
  by (simp add: catalog_flags_def profile_predicates_def profile_names_def)

lemma filter_flags:
  "distinct (map fst xs) \<Longrightarrow> map fst (filter snd xs) = filter (\<lambda>n. map_of xs n = Some True) (map fst xs)"
proof (induction xs)
  case (Cons x xs)
  obtain n b where x: "x = (n, b)" by (cases x)
  have "filter (\<lambda>m. map_of (x # xs) m = Some True) (map fst xs) = filter (\<lambda>m. map_of xs m = Some True) (map fst xs)"
    using Cons.prems by (intro filter_cong refl) (auto simp: x)
  with Cons show ?case by (simp add: x)
qed simp

lemma flag_listed:
  assumes "distinct (map fst xs)" and "(i, b) \<in> set xs"
  shows "i \<in> set (map fst (filter snd xs)) \<longleftrightarrow> b"
proof
  assume "i \<in> set (map fst (filter snd xs))"
  then have "(i, True) \<in> set xs" by auto
  with eq_key_imp_eq_value [OF assms(1) assms(2)] show b by simp
next
  assume b
  with assms(2) show "i \<in> set (map fst (filter snd xs))" by force
qed

lemma derived_iff: "p \<in> set (deriveProfiles c) \<longleftrightarrow> map_of (catalog_flags c) p = Some True"
proof -
  have d: "distinct (map fst (catalog_flags c))" unfolding catalog_flag_names by (rule distinct_profile_names)
  show ?thesis
    unfolding deriveProfiles_flags filter_flags [OF d] set_filter
    by (auto simp: map_of_eq_Some_iff [OF d] image_iff intro: bexI [of _ "(p, True)"])
qed

text \<open>
  The catalog's two readers agree: the switch answers for exactly the twelve profile names
  and answers whether the derived set holds the name; the derived set is in catalog order; and it is
  empty exactly when the payload is not core, so every profile implies both core names.
\<close>

theorem catalog_agrees:
  "hasProfile c p = (if p \<in> set profile_names then Some (p \<in> set (deriveProfiles c)) else None) \<and>
   deriveProfiles c = filter (\<lambda>n. n \<in> set (deriveProfiles c)) profile_names \<and>
   (deriveProfiles c = [] \<longleftrightarrow> \<not> isCore c) \<and>
   (''openwop-discovery-core'' \<in> set (deriveProfiles c) \<longleftrightarrow> isCore c) \<and>
   (''openwop-core'' \<in> set (deriveProfiles c) \<longleftrightarrow> isCore c)"
proof -
  have flags: "map_of (catalog_flags c) = map_option (\<lambda>p. p c) \<circ> map_of profile_predicates"
    unfolding catalog_flags_def by (rule map_of_map)
  have "map_of profile_predicates p = None \<longleftrightarrow> p \<notin> set profile_names"
    unfolding map_of_eq_None_iff catalog_names [symmetric] by simp
  then have has: "hasProfile c p = (if p \<in> set profile_names then Some (p \<in> set (deriveProfiles c)) else None)"
    by (auto simp: hasProfile_def derived_iff flags)
  have d: "distinct (map fst (catalog_flags c))" unfolding catalog_flag_names by (rule distinct_profile_names)
  have "deriveProfiles c = filter (\<lambda>n. n \<in> set (deriveProfiles c)) profile_names"
    unfolding derived_iff using filter_flags [OF d] by (simp add: deriveProfiles_flags catalog_flag_names)
  moreover have "deriveProfiles c = [] \<longleftrightarrow> \<not> isCore c"
    using profiles_need_core [of c] by (auto simp: deriveProfiles_def push_if_def)
  moreover have "''openwop-discovery-core'' \<in> set (deriveProfiles c) \<longleftrightarrow> isCore c"
    and "''openwop-core'' \<in> set (deriveProfiles c) \<longleftrightarrow> isCore c"
    by (simp_all add: derived_iff catalog_flags_def profile_predicates_def)
  ultimately show ?thesis using has by blast
qed

text \<open>
  The annex status and the list of satisfied terms tell one story: full is core with all
  sixteen terms, at least partial is core with the ten floor terms, and every listed term is one of
  the sixteen, in order and without repetition.
\<close>

theorem platform_ladder:
  "(agentPlatformStatus c = PlatformFull \<longleftrightarrow>
      isCore c \<and> agentPlatformSatisfiedTerms c = map fst (floor_terms c) @ map fst (full_terms c)) \<and>
   (agentPlatformStatus c \<noteq> PlatformNone \<longleftrightarrow>
      isCore c \<and> set (map fst (floor_terms c)) \<subseteq> set (agentPlatformSatisfiedTerms c)) \<and>
   distinct (agentPlatformSatisfiedTerms c) \<and> length (agentPlatformSatisfiedTerms c) \<le> 16"
proof -
  let ?all = "floor_terms c @ full_terms c"
  have d: "distinct (map fst ?all)" by (simp add: floor_terms_def full_terms_def)
  have n: "length ?all = 16" by (simp add: floor_terms_def full_terms_def)
  have terms: "agentPlatformSatisfiedTerms c = filter (\<lambda>i. map_of ?all i = Some True) (map fst ?all)"
    unfolding agentPlatformSatisfiedTerms_def by (rule filter_flags [OF d])
  have partial: "isAgentPlatformPartial c \<longleftrightarrow> isCore c \<and> list_all snd (floor_terms c)"
    by (simp add: isAgentPlatformPartial_def floor_terms_def)
  have full: "isAgentPlatformFull c \<longleftrightarrow> isCore c \<and> list_all snd ?all"
    by (simp add: isAgentPlatformFull_def partial full_terms_def)
  have sat: "i \<in> set (agentPlatformSatisfiedTerms c) \<longleftrightarrow> b" if "(i, b) \<in> set ?all" for i b
    unfolding agentPlatformSatisfiedTerms_def by (rule flag_listed [OF d that])
  have "list_all snd ?all \<longleftrightarrow> agentPlatformSatisfiedTerms c = map fst ?all"
  proof
    assume "list_all snd ?all"
    then have "filter snd ?all = ?all" by (simp add: list_all_iff filter_id_conv)
    then show "agentPlatformSatisfiedTerms c = map fst ?all" by (simp add: agentPlatformSatisfiedTerms_def)
  next
    assume "agentPlatformSatisfiedTerms c = map fst ?all"
    then have "b" if "(i, b) \<in> set ?all" for i b
      using sat [OF that] that by force
    then show "list_all snd ?all" by (force simp: list_all_iff)
  qed
  moreover have "list_all snd (floor_terms c) \<longleftrightarrow> set (map fst (floor_terms c)) \<subseteq> set (agentPlatformSatisfiedTerms c)"
    using sat by (fastforce simp: list_all_iff)
  moreover have "length (agentPlatformSatisfiedTerms c) \<le> 16"
    unfolding terms n [symmetric] by (metis length_filter_le length_map)
  moreover have "distinct (agentPlatformSatisfiedTerms c)"
    unfolding terms by (rule distinct_filter [OF d])
  ultimately show ?thesis
    unfolding agentPlatformStatus_def by (auto simp: full partial)
qed

text \<open>
  Verifying a version 1 bundle returns a verdict unless a claimed profile is named like a
  member of \<open>Object.prototype\<close>, and then it throws: the plain-object table answers with an inherited
  function, which is not the undefined floor the code checks for.
\<close>

theorem bundle_v1_throws_iff:
  "(\<exists>e. verifyBundle b = Inl e) \<longleftrightarrow> (\<exists>p \<in> set (b1_claimedProfiles b). proto_member p \<noteq> None)"
proof -
  have known: "list_all (\<lambda>p. proto_member p = None) (map fst profile_floor_scenarios)" by code_simp
  have "map_of profile_floor_scenarios p = None" if "proto_member p \<noteq> None" for p
    using that known by (auto simp: list_all_iff map_of_eq_None_iff)
  then have look: "(\<exists>e. floor_lookup p = Inl e) \<longleftrightarrow> proto_member p \<noteq> None" for p
    by (auto simp: floor_lookup_def split: option.splits)
  have "(\<exists>e. verifyBundleProfile b p = Inl e) \<longleftrightarrow> proto_member p \<noteq> None" for p
    unfolding look [symmetric] by (auto simp: verifyBundleProfile_def Let_def ebind_Inl_iff)
  moreover have "(\<exists>e. emap f xs = Inl e) \<longleftrightarrow> (\<exists>x \<in> set xs. \<exists>e. f x = Inl e)"
    for f :: "string \<Rightarrow> js_exception + bundle_profile_verdict" and xs
    by (induction xs) (auto simp: ebind_Inl_iff ebind_Inr_iff, (metis sum.exhaust)+)
  ultimately show ?thesis
    by (auto simp: verifyBundle_def ebind_Inl_iff)
qed

theorem bundle_v1_throws_iff_witness:
  "\<exists>e. verifyBundle \<lparr>b1_document = [], b1_claimedProfiles = [''constructor''], b1_passed = []\<rparr> = Inl e"
  by (subst bundle_v1_throws_iff) (simp add: proto_member_def)

end
