(* ===== verification/Evidence.thy ===== *)
theory Evidence
  imports Json
begin

text \<open>
  The evidence scrubber and the secret scan of \<open>certification-bundle-verify.ts\<close>: every string of a
  document (member names included), where a literal occurs, and the replacement of secrets by
  redaction markers. The SHA-256 hex digest in a marker is a parameter.
\<close>

section \<open>Where a literal occurs\<close>

lemma zip_size [termination_simp]: "(i, x) \<in> set (zip is xs) \<Longrightarrow> size x < Suc (size_list size xs)"
  by (meson less_Suc_eq_le set_zip_rightD size_list_estimation' order_refl)

definition conformance_secret_canary :: string where
  "conformance_secret_canary = ''openwop-conformance-canary-secret''"

definition index_path :: "string \<Rightarrow> nat \<Rightarrow> string" where
  "index_path p i = p @ ''['' @ nat_digits i @ '']''"

definition member_path :: "string \<Rightarrow> string \<Rightarrow> string" where
  "member_path p k = p @ ''.'' @ k"

fun json_strings :: "string \<Rightarrow> json \<Rightarrow> (string \<times> string) list" where
  "json_strings p (JStr s) = [(p, s)]"
| "json_strings p (JArr xs) = concat (map (\<lambda>(i, x). json_strings (index_path p i) x) (zip [0..<length xs] xs))"
| "json_strings p (JObj es) = concat (map (\<lambda>(k, v). (member_path p k, k) # json_strings (member_path p k) v) es)"
| "json_strings p v = []"

definition findLiteral :: "json \<Rightarrow> string \<Rightarrow> string list" where
  "findLiteral v literal =
     (if literal = [] then [] else map fst (filter (\<lambda>(p, s). has_sub literal s) (json_strings ''$'' v)))"

text \<open>The strings of a value, without their paths.\<close>

inductive string_in :: "string \<Rightarrow> json \<Rightarrow> bool" where
  in_str: "string_in s (JStr s)"
| in_elem: "x \<in> set xs \<Longrightarrow> string_in s x \<Longrightarrow> string_in s (JArr xs)"
| in_key: "(k, v) \<in> set es \<Longrightarrow> string_in k (JObj es)"
| in_member: "(k, v) \<in> set es \<Longrightarrow> string_in s v \<Longrightarrow> string_in s (JObj es)"

inductive_simps string_in_simps:
  "string_in s (JStr t)" "string_in s (JArr xs)" "string_in s (JObj es)"
  "string_in s JNull" "string_in s (JBool b)" "string_in s (JNum n)" "string_in s (JNative n)"

lemma set_zip_index: "(\<exists>i. (i, x) \<in> set (zip [0..<length xs] xs)) \<longleftrightarrow> x \<in> set xs"
proof
  assume "x \<in> set xs"
  then obtain j where j: "j < length xs" "x = xs ! j" by (auto simp: in_set_conv_nth)
  then have "(j, x) \<in> set (zip [0..<length xs] xs)"
    unfolding in_set_zip by (intro exI [of _ j]) simp
  then show "\<exists>i. (i, x) \<in> set (zip [0..<length xs] xs)" by blast
qed (auto dest: set_zip_rightD)

lemma json_strings_iff: "(\<exists>q. (q, s) \<in> set (json_strings p v)) \<longleftrightarrow> string_in s v"
proof (induction v arbitrary: p rule: json_induct)
  case (Arr xs)
  have "(\<exists>q. (q, s) \<in> set (json_strings p (JArr xs))) \<longleftrightarrow>
      (\<exists>i x. (i, x) \<in> set (zip [0..<length xs] xs) \<and> (\<exists>q. (q, s) \<in> set (json_strings (index_path p i) x)))"
    by auto
  also have "\<dots> \<longleftrightarrow> (\<exists>i x. (i, x) \<in> set (zip [0..<length xs] xs) \<and> string_in s x)"
    using Arr set_zip_rightD by metis
  also have "\<dots> \<longleftrightarrow> (\<exists>x \<in> set xs. string_in s x)" using set_zip_index [of _ xs] by blast
  finally show ?case by (auto simp: string_in_simps)
next
  case (Obj es)
  have "(\<exists>q. (q, s) \<in> set (json_strings p (JObj es))) \<longleftrightarrow>
      (\<exists>k v. (k, v) \<in> set es \<and> (s = k \<or> (\<exists>q. (q, s) \<in> set (json_strings (member_path p k) v))))"
    by auto
  also have "\<dots> \<longleftrightarrow> (\<exists>k v. (k, v) \<in> set es \<and> (s = k \<or> string_in s v))" using Obj by metis
  finally show ?case by (auto simp: string_in_simps)
qed (auto simp: string_in_simps)

lemma findLiteral_none:
  "literal \<noteq> [] \<Longrightarrow> findLiteral v literal = [] \<longleftrightarrow> (\<forall>s. string_in s v \<longrightarrow> \<not> has_sub literal s)"
proof -
  assume "literal \<noteq> []"
  then have "findLiteral v literal = [] \<longleftrightarrow> (\<forall>p s. (p, s) \<in> set (json_strings ''$'' v) \<longrightarrow> \<not> has_sub literal s)"
    by (auto simp: findLiteral_def filter_empty_conv)
  then show ?thesis using json_strings_iff [of _ "''$''" v] by blast
qed

section \<open>Scrubbing\<close>

lemma index_of_Some_split: "index_of t s = Some i \<Longrightarrow> s = take i s @ t @ drop (i + length t) s"
  using index_of_Some [of t s i] by (auto simp: starts_with_iff)
    (metis append_eq_conv_conj append_take_drop_id drop_drop add.commute)

text \<open>\<open>s.split(secret).join(marker)\<close> for a non-empty secret.\<close>

function replace_all :: "string \<Rightarrow> string \<Rightarrow> string \<Rightarrow> string" where
  "replace_all t m s =
     (if t = [] then s
      else case index_of t s of
        None \<Rightarrow> s
      | Some i \<Rightarrow> take i s @ m @ replace_all t m (drop (i + length t) s))"
  by pat_completeness auto

termination
proof (relation "measure (\<lambda>(t, m, s). length s)")
  fix t m s :: string and i
  assume "t \<noteq> []" and "index_of t s = Some i"
  then have "s \<noteq> []" and "0 < i + length t" by auto
  then show "((t, m, drop (i + length t) s), t, m, s) \<in> measure (\<lambda>(t, m, s). length s)" by simp
qed simp

declare replace_all.simps [simp del]

definition redactionMarker :: "(string \<Rightarrow> string) \<Rightarrow> string \<Rightarrow> string" where
  "redactionMarker sha256 secret = [CHR 171] @ ''redacted:'' @ take 12 (sha256 secret) @ [CHR 187]"

definition is_hex :: "char \<Rightarrow> bool" where
  "is_hex c = (let n = of_char c :: nat in is_digit c \<or> (97 \<le> n \<and> n \<le> 102) \<or> (65 \<le> n \<and> n \<le> 70))"

text \<open>\<open>HEX_DIGEST\<close>, case-insensitive.\<close>

definition hex_digest :: "string \<Rightarrow> bool" where
  "hex_digest s =
     (let body = (if map ascii_lower (take 7 s) = ''sha256:'' then drop 7 s else s) in
      32 \<le> length body \<and> list_all is_hex body)"

definition live_secrets :: "string list \<Rightarrow> string list" where
  "live_secrets secrets = sort_by (\<lambda>a b. length b \<le> length a) (uniq (filter (\<lambda>s. js_trim s \<noteq> []) secrets))"

definition replace_secrets :: "(string \<Rightarrow> string) \<Rightarrow> string list \<Rightarrow> string \<Rightarrow> string" where
  "replace_secrets sha256 live s =
     foldl (\<lambda>out secret. if has_sub secret out then replace_all secret (redactionMarker sha256 secret) out else out) s live"

definition scrubString :: "(string \<Rightarrow> string) \<Rightarrow> string list \<Rightarrow> string \<Rightarrow> string" where
  "scrubString sha256 live s = (if hex_digest s \<and> s \<notin> set live then s else replace_secrets sha256 live s)"

text \<open>Some pass replaces something exactly when a secret occurs in the string as it came: its path is reported.\<close>

definition string_hit :: "string list \<Rightarrow> string \<Rightarrow> bool" where
  "string_hit live s = (\<not> (hex_digest s \<and> s \<notin> set live) \<and> (\<exists>t \<in> set live. has_sub t s))"

fun scrub_walk :: "(string \<Rightarrow> string) \<Rightarrow> string list \<Rightarrow> json \<Rightarrow> json" where
  "scrub_walk sha256 live (JStr s) = JStr (scrubString sha256 live s)"
| "scrub_walk sha256 live (JArr xs) = JArr (map (scrub_walk sha256 live) xs)"
| "scrub_walk sha256 live (JObj es) =
     JObj (js_assign (map (\<lambda>(k, v). (scrubString sha256 live k, scrub_walk sha256 live v)) es))"
| "scrub_walk sha256 live v = v"

definition scrubEvidence :: "(string \<Rightarrow> string) \<Rightarrow> json \<Rightarrow> string list \<Rightarrow> json \<times> string list" where
  "scrubEvidence sha256 v secrets =
     (let live = live_secrets secrets in
      if live = [] then (v, [])
      else (scrub_walk sha256 live v, map fst (filter (\<lambda>(p, s). string_hit live s) (json_strings ''$'' v))))"

definition credentialShaped :: "string \<Rightarrow> bool" where
  "credentialShaped v = (let t = js_trim v in 8 \<le> length t \<and> \<not> list_all is_digit t)"

definition names_secret :: "string \<Rightarrow> bool" where
  "names_secret k =
     (starts_with ''OPENWOP_'' k \<and>
      (\<exists>w \<in> set [''KEY'', ''TOKEN'', ''SECRET'', ''PASSWORD'', ''CREDENTIAL'']. has_sub w k) \<and> \<not> ends_with ''_ID'' k)"

text \<open>An absent value (\<open>undefined\<close>) in \<open>extra\<close> or \<open>except\<close> is dropped: the lists hold the present ones.\<close>

definition evidenceSecretsFromEnv :: "(string \<times> string) list \<Rightarrow> string list \<Rightarrow> string list \<Rightarrow> string list" where
  "evidenceSecretsFromEnv env extra except' =
     (let keep = filter (\<lambda>s. js_trim s \<noteq> []) except' in
      uniq (map snd (filter (\<lambda>(k, v). names_secret k \<and> js_trim v \<noteq> [] \<and> v \<notin> set keep \<and> credentialShaped v) env) @
            filter (\<lambda>s. js_trim s \<noteq> [] \<and> s \<notin> set keep) extra @ [conformance_secret_canary]))"

section \<open>No secret survives\<close>

lemma index_of_first: "index_of t s = Some i \<Longrightarrow> j < i \<Longrightarrow> \<not> starts_with t (drop j s)"
proof (induction t s arbitrary: i j rule: index_of.induct)
  case (2 p c cs)
  then obtain k where k: "index_of p cs = Some k" "i = Suc k" and no: "\<not> starts_with p (c # cs)"
    by (auto split: if_splits)
  with 2 show ?case by (cases j) auto
qed (simp split: if_splits)

lemma has_sub_mid:
  assumes "has_sub u (a @ c # b)" and "c \<notin> set u"
  shows "has_sub u a \<or> has_sub u b"
proof -
  from assms(1) obtain x y where eq: "a @ c # b = x @ u @ y" by (auto simp: has_sub_iff)
  show ?thesis
  proof (cases "length x + length u \<le> length a")
    case True
    then have "a = x @ u @ take (length a - length x - length u) y"
      using arg_cong [OF eq, of "take (length a)"] by simp
    then show ?thesis unfolding has_sub_iff by blast
  next
    case False
    have "length a < length x"
    proof (rule ccontr)
      assume "\<not> length a < length x"
      then have "(x @ u @ y) ! length a = u ! (length a - length x)" and "length a - length x < length u"
        using False by (auto simp: nth_append)
      then have "c \<in> set u" unfolding eq [symmetric] by (metis nth_append_length nth_mem)
      with assms(2) show False by contradiction
    qed
    then have "b = drop (Suc (length a)) x @ u @ y"
      using arg_cong [OF eq, of "drop (Suc (length a))"] by simp
    then show ?thesis unfolding has_sub_iff by blast
  qed
qed

definition marked_off :: "string \<Rightarrow> bool" where
  "marked_off u = (u \<noteq> [] \<and> CHR 171 \<notin> set u \<and> CHR 187 \<notin> set u)"

lemma replace_all_sub:
  assumes "marked_off u" and "\<not> has_sub u inner"
  shows "has_sub u (replace_all t ([CHR 171] @ inner @ [CHR 187]) s) \<Longrightarrow> has_sub u s"
proof (induction t "[CHR 171] @ inner @ [CHR 187]" s rule: replace_all.induct)
  case (1 t s)
  show ?case
  proof (cases "t = [] \<or> index_of t s = None")
    case True
    with 1(2) show ?thesis by (auto simp: replace_all.simps [of t] split: if_splits)
  next
    case False
    then obtain i where i: "index_of t s = Some i" "t \<noteq> []" by auto
    let ?r = "replace_all t ([CHR 171] @ inner @ [CHR 187]) (drop (i + length t) s)"
    have "has_sub u (take i s @ CHR 171 # (inner @ CHR 187 # ?r))"
      using 1(2) i by (subst (asm) replace_all.simps) simp
    then have "has_sub u (take i s) \<or> has_sub u ?r"
      using has_sub_mid assms unfolding marked_off_def by blast
    then have "has_sub u (take i s) \<or> has_sub u (drop (i + length t) s)"
      using 1(1) [OF i(2) i(1)] by blast
    then show ?thesis
    proof
      assume "has_sub u (take i s)"
      then obtain a b where "take i s = a @ u @ b" by (auto simp: has_sub_iff)
      then have "s = a @ u @ (b @ drop i s)" by (metis append.assoc append_take_drop_id)
      then show ?thesis unfolding has_sub_iff by blast
    next
      assume "has_sub u (drop (i + length t) s)"
      then obtain a b where "drop (i + length t) s = a @ u @ b" by (auto simp: has_sub_iff)
      then have "s = (take (i + length t) s @ a) @ u @ b" by (metis append.assoc append_take_drop_id)
      then show ?thesis unfolding has_sub_iff by blast
    qed
  qed
qed

lemma replace_all_gone:
  assumes "marked_off t" and "\<not> has_sub t inner"
  shows "\<not> has_sub t (replace_all t ([CHR 171] @ inner @ [CHR 187]) s)"
  using assms
proof (induction t "[CHR 171] @ inner @ [CHR 187]" s rule: replace_all.induct)
  case (1 t s)
  then have ne: "t \<noteq> []" by (simp add: marked_off_def)
  show ?case
  proof (cases "index_of t s")
    case None
    with ne show ?thesis by (subst replace_all.simps) (simp add: has_sub_def)
  next
    case (Some i)
    let ?r = "replace_all t ([CHR 171] @ inner @ [CHR 187]) (drop (i + length t) s)"
    have r: "\<not> has_sub t ?r" using 1 Some ne by blast
    have "\<not> has_sub t (take i s)"
    proof
      assume "has_sub t (take i s)"
      then obtain a b where ab: "take i s = a @ t @ b" by (auto simp: has_sub_iff)
      have "length (take i s) \<le> i" by simp
      then have "length a + length t \<le> i" unfolding ab by simp
      with ne have "length a < i" by (cases t) auto
      moreover have "s = a @ t @ (b @ drop i s)" using ab by (metis append.assoc append_take_drop_id)
      then have "starts_with t (drop (length a) s)" by (metis append_eq_conv_conj starts_with_append)
      ultimately show False using index_of_first [OF Some] by blast
    qed
    moreover have "replace_all t ([CHR 171] @ inner @ [CHR 187]) s = take i s @ CHR 171 # (inner @ CHR 187 # ?r)"
      using Some ne by (subst replace_all.simps) simp
    ultimately show ?thesis
      using has_sub_mid [of t] r 1(2,3) unfolding marked_off_def by metis
  qed
qed

definition secrets_ok :: "(string \<Rightarrow> string) \<Rightarrow> string list \<Rightarrow> bool" where
  "secrets_ok sha256 live =
     (\<forall>t \<in> set live. marked_off t \<and> (\<forall>u \<in> set live. \<not> has_sub t (''redacted:'' @ take 12 (sha256 u))))"

lemma marker_shape: "redactionMarker sha256 u = [CHR 171] @ (''redacted:'' @ take 12 (sha256 u)) @ [CHR 187]"
  by (simp add: redactionMarker_def)

lemma replace_secrets_keep:
  assumes "marked_off u" and "\<forall>t \<in> set ts. \<not> has_sub u (''redacted:'' @ take 12 (sha256 t))"
  shows "has_sub u (replace_secrets sha256 ts s) \<Longrightarrow> has_sub u s"
  using assms(2)
proof (induction ts arbitrary: s)
  case (Cons t ts)
  let ?s = "if has_sub t s then replace_all t (redactionMarker sha256 t) s else s"
  have "has_sub u (replace_secrets sha256 ts ?s)"
    using Cons.prems(1) by (simp add: replace_secrets_def)
  with Cons have "has_sub u ?s" by auto
  then show ?case
    using replace_all_sub [OF assms(1), of "''redacted:'' @ take 12 (sha256 t)" t s] Cons.prems(2)
    unfolding marker_shape by (auto split: if_splits)
qed (simp add: replace_secrets_def)

lemma replace_secrets_clean:
  assumes "secrets_ok sha256 live" and "set ts \<subseteq> set live" and "u \<in> set ts"
  shows "\<not> has_sub u (replace_secrets sha256 ts s)"
  using assms(2,3)
proof (induction ts arbitrary: s)
  case (Cons t ts)
  let ?s = "if has_sub t s then replace_all t (redactionMarker sha256 t) s else s"
  have run: "replace_secrets sha256 (t # ts) s = replace_secrets sha256 ts ?s"
    by (simp add: replace_secrets_def)
  show ?case
  proof (cases "u \<in> set ts")
    case True
    with Cons show ?thesis unfolding run by auto
  next
    case False
    then have u: "u = t" using Cons.prems by simp
    have ok: "marked_off u" "\<forall>x \<in> set live. \<not> has_sub u (''redacted:'' @ take 12 (sha256 x))"
      using assms(1) Cons.prems by (auto simp: secrets_ok_def)
    have "\<not> has_sub u ?s"
      using replace_all_gone [OF ok(1), of "''redacted:'' @ take 12 (sha256 t)" s] ok(2) Cons.prems(1) u
      unfolding marker_shape by auto
    moreover have "\<forall>x \<in> set ts. \<not> has_sub u (''redacted:'' @ take 12 (sha256 x))"
      using ok(2) Cons.prems(1) by auto
    ultimately show ?thesis
      unfolding run using replace_secrets_keep [OF ok(1)] by blast
  qed
qed simp

lemma scrubString_clean:
  "secrets_ok sha256 live \<Longrightarrow>
   hex_digest (scrubString sha256 live s) \<and> scrubString sha256 live s \<notin> set live \<or>
   (\<forall>u \<in> set live. \<not> has_sub u (scrubString sha256 live s))"
  unfolding scrubString_def using replace_secrets_clean [of sha256 live live _ s] by (simp split: if_split)

lemma string_in_scrubbed:
  "string_in s (scrub_walk sha256 live v) \<Longrightarrow> \<exists>r. s = scrubString sha256 live r"
proof (induction v rule: json_induct)
  case (Arr xs)
  then show ?case by (auto simp: string_in_simps)
next
  case (Obj es)
  let ?es = "map (\<lambda>(k, v). (scrubString sha256 live k, scrub_walk sha256 live v)) es"
  from Obj.prems obtain k v where kv: "(k, v) \<in> set (js_assign ?es)" and s: "s = k \<or> string_in s v"
    by (auto simp: string_in_simps)
  from s show ?case
  proof
    assume "s = k"
    have "k \<in> fst ` set (js_assign ?es)" using kv by (rule image_eqI [rotated]) simp
    then have "k \<in> fst ` set ?es" by (rule js_assign_keys)
    then obtain r w where "k = scrubString sha256 live r" by auto
    with \<open>s = k\<close> show ?thesis by blast
  next
    assume sv: "string_in s v"
    from js_assign_values [OF kv] obtain k' v' where "(k', v') \<in> set es" "v = scrub_walk sha256 live v'" by auto
    with Obj.IH sv show ?thesis by blast
  qed
qed (auto simp: string_in_simps)

text \<open>
  Claim C21: after scrubbing, no string of the document, member names included, contains a secret,
  apart from strings that are wholly a hex digest and are not themselves a secret: provided no
  secret contains a guillemet or occurs in the inside of a marker. This holds however the secrets
  overlap one another.
\<close>

theorem scrubbed_evidence_is_clean:
  assumes "secrets_ok sha256 (live_secrets secrets)" and "live_secrets secrets \<noteq> []"
    and "string_in s (fst (scrubEvidence sha256 v secrets))" and "u \<in> set secrets" and "js_trim u \<noteq> []"
  shows "\<not> has_sub u s \<or> hex_digest s \<and> s \<noteq> u"
proof -
  from assms(3) have "string_in s (scrub_walk sha256 (live_secrets secrets) v)"
    using assms(2) by (simp add: scrubEvidence_def Let_def)
  then obtain r where "s = scrubString sha256 (live_secrets secrets) r"
    using string_in_scrubbed by blast
  moreover have "u \<in> set (live_secrets secrets)" using assms(4,5) by (simp add: live_secrets_def)
  ultimately show ?thesis using scrubString_clean [OF assms(1), of r] by auto
qed

theorem scrubbed_evidence_is_clean_witness:
  "\<not> has_sub ''hunter22'' (case fst (scrubEvidence (\<lambda>s. ''00ff00ff00ff'') (JStr ''pw=hunter22;'') [''hunter22'']) of JStr s \<Rightarrow> s | _ \<Rightarrow> [])"
proof -
  let ?out = "fst (scrubEvidence (\<lambda>s. ''00ff00ff00ff'') (JStr ''pw=hunter22;'') [''hunter22''])"
  have live: "live_secrets [''hunter22''] = [''hunter22'']" by code_simp
  have ok: "secrets_ok (\<lambda>s. ''00ff00ff00ff'') (live_secrets [''hunter22''])" unfolding live by code_simp
  obtain s where s: "?out = JStr s" by (simp add: scrubEvidence_def live Let_def)
  have "string_in s ?out" by (simp add: s string_in_simps)
  moreover have "js_trim ''hunter22'' \<noteq> []" by code_simp
  ultimately have "\<not> has_sub ''hunter22'' s \<or> hex_digest s \<and> s \<noteq> ''hunter22''"
    using live by (intro scrubbed_evidence_is_clean [OF ok]) simp_all
  moreover have "\<not> hex_digest (case ?out of JStr s \<Rightarrow> s | _ \<Rightarrow> [])" by code_simp
  ultimately show ?thesis by (simp add: s)
qed

text \<open>
  A secret that occurs inside the marker's own fixed text survives its own replacement:
  the word the marker is spelled with is replaced by a marker that contains it.
\<close>

theorem marker_word_survives:
  "has_sub ''redacted'' (scrubString sha256 [''redacted''] ''pw=redacted'')"
proof -
  have "replace_all ''redacted'' m ''pw=redacted'' = ''pw='' @ m" for m
    by (simp add: replace_all.simps index_of.simps starts_with_def)
  moreover have "has_sub ''redacted'' ''pw=redacted''" "\<not> hex_digest ''pw=redacted''" by code_simp+
  ultimately have "scrubString sha256 [''redacted''] ''pw=redacted'' = ''pw='' @ redactionMarker sha256 ''redacted''"
    by (simp add: scrubString_def replace_secrets_def)
  also have "\<dots> = (''pw='' @ [CHR 171]) @ ''redacted'' @ ('':'' @ take 12 (sha256 ''redacted'') @ [CHR 187])"
    by (simp add: redactionMarker_def)
  finally show ?thesis unfolding has_sub_iff by blast
qed

end
