(* ===== verification/Ledger.thy ===== *)
theory Ledger
  imports Json
begin

text \<open>
  The requirement execution ledger (\<open>requirement-ledger.ts\<close>): the worker's map and journal, the
  JSONL sink and its reader, and the certification verdict. The module state is a record; the file
  system is a map from paths to lines inside it, an append that fails leaving it unchanged. A line
  is what \<open>JSON.parse\<close> makes of it. The collation of \<open>localeCompare\<close> is a parameter.
\<close>

section \<open>Data\<close>

datatype disposition = Executed_pass | Executed_fail | Skipped | Inapplicable | Blocked

definition disposition_name :: "disposition \<Rightarrow> string" where
  "disposition_name d =
     (case d of Executed_pass \<Rightarrow> ''executed-pass'' | Executed_fail \<Rightarrow> ''executed-fail''
      | Skipped \<Rightarrow> ''skipped'' | Inapplicable \<Rightarrow> ''inapplicable'' | Blocked \<Rightarrow> ''blocked'')"

definition dispositions :: "disposition list" where
  "dispositions = [Executed_pass, Executed_fail, Skipped, Inapplicable, Blocked]"

definition certifiable_dispositions :: "disposition list" where
  "certifiable_dispositions = [Executed_pass, Skipped, Inapplicable]"

definition certifiability_rank :: "disposition \<Rightarrow> nat" where
  "certifiability_rank d =
     (case d of Executed_fail \<Rightarrow> 0 | Blocked \<Rightarrow> 1 | Executed_pass \<Rightarrow> 2 | Skipped \<Rightarrow> 3 | Inapplicable \<Rightarrow> 4)"

interpretation cert: severity certifiability_rank
  by unfold_locales (auto simp: certifiability_rank_def split: disposition.splits)

text \<open>The ranking orders the dispositions, the least certifiable first.\<close>

instantiation disposition :: linorder
begin

definition less_eq_disposition :: "disposition \<Rightarrow> disposition \<Rightarrow> bool" where
  "less_eq_disposition a b = (certifiability_rank a \<le> certifiability_rank b)"

definition less_disposition :: "disposition \<Rightarrow> disposition \<Rightarrow> bool" where
  "less_disposition a b = (certifiability_rank a < certifiability_rank b)"

instance
  by standard (auto simp: less_eq_disposition_def less_disposition_def intro: cert.rank_inj)

end

record ledger_entry =
  le_requirementId :: string
  le_disposition :: disposition
  le_detail :: "string option"
  le_assertionCount :: "int option"
  le_scenarioFile :: "string option"
  le_evidence :: "json option"

record extras =
  ex_assertionCount :: "int option"
  ex_scenarioFile :: "string option"
  ex_evidence :: "json option"
  ex_fold :: bool

definition no_extras :: extras where
  "no_extras = \<lparr>ex_assertionCount = None, ex_scenarioFile = None, ex_evidence = None, ex_fold = False\<rparr>"

datatype ledger_error =
    ContradictingDisposition string disposition disposition
  | MissingReason string disposition

datatype ledger_line = Unparsable string | Parsed json

record ledger_state =
  ls_ledger :: "(string \<times> ledger_entry) list"
  ls_journal :: "ledger_entry list"
  ls_suspendedSink :: "string option"
  ls_files :: "(string \<times> ledger_line list) list"

definition entry_json :: "ledger_entry \<Rightarrow> json" where
  "entry_json e = JObj
     ([(''requirementId'', JStr (le_requirementId e))] @
      [(''disposition'', JStr (disposition_name (le_disposition e)))] @
      member_of ''detail'' JStr (le_detail e) @
      member_of ''assertionCount'' JNum (le_assertionCount e) @
      member_of ''scenarioFile'' JStr (le_scenarioFile e) @
      member_of ''evidence'' id (le_evidence e))"

section \<open>Recording\<close>

definition make_entry :: "string \<Rightarrow> disposition \<Rightarrow> string option \<Rightarrow> extras \<Rightarrow> ledger_entry" where
  "make_entry i d detail ex =
     \<lparr>le_requirementId = i, le_disposition = d, le_detail = detail,
      le_assertionCount = ex_assertionCount ex, le_scenarioFile = ex_scenarioFile ex,
      le_evidence = (if d = Executed_pass then ex_evidence ex else None)\<rparr>"

definition count_of :: "int option \<Rightarrow> int" where
  "count_of c = (case c of None \<Rightarrow> 0 | Some n \<Rightarrow> n)"

definition or_else :: "'a option \<Rightarrow> 'a option \<Rightarrow> 'a option" where
  "or_else a b = (case a of None \<Rightarrow> b | Some x \<Rightarrow> Some x)"

definition fold_entry :: "ledger_entry \<Rightarrow> ledger_entry \<Rightarrow> ledger_entry" where
  "fold_entry prior entry =
     (let keepPrior = certifiability_rank (le_disposition prior) \<le> certifiability_rank (le_disposition entry);
          winner = (if keepPrior then prior else entry);
          loser = (if keepPrior then entry else prior);
          hasCount = (le_assertionCount prior \<noteq> None \<or> le_assertionCount entry \<noteq> None)
      in \<lparr>le_requirementId = le_requirementId entry, le_disposition = le_disposition winner,
          le_detail = or_else (le_detail winner) (le_detail loser),
          le_assertionCount = (if hasCount then Some (count_of (le_assertionCount prior) + count_of (le_assertionCount entry)) else None),
          le_scenarioFile = le_scenarioFile winner,
          le_evidence = (if le_disposition winner = Executed_pass then le_evidence winner else None)\<rparr>)"

definition has_reason :: "disposition \<Rightarrow> string option \<Rightarrow> bool" where
  "has_reason d detail =
     (d = Executed_pass \<or> (case detail of None \<Rightarrow> False | Some t \<Rightarrow> js_trim t \<noteq> []))"

definition append_line :: "(string \<Rightarrow> bool) \<Rightarrow> string \<Rightarrow> ledger_line \<Rightarrow> (string \<times> ledger_line list) list \<Rightarrow> (string \<times> ledger_line list) list" where
  "append_line writable path line files =
     (if writable path
      then AList.update path ((case map_of files path of None \<Rightarrow> [] | Some ls \<Rightarrow> ls) @ [line]) files
      else files)"

definition sink_entry :: "(string \<Rightarrow> bool) \<Rightarrow> string option \<Rightarrow> ledger_entry \<Rightarrow> ledger_state \<Rightarrow> ledger_state" where
  "sink_entry writable sinkPath entry st =
     (case sinkPath of
        None \<Rightarrow> st
      | Some p \<Rightarrow>
          if p \<noteq> [] \<and> Some p \<noteq> ls_suspendedSink st
          then st\<lparr>ls_files := append_line writable p (Parsed (entry_json entry)) (ls_files st)\<rparr>
          else st)"

text \<open>
  \<open>writable\<close> says which paths an append succeeds on and \<open>sinkPath\<close> is \<open>OPENWOP_LEDGER_PATH\<close>.
\<close>

definition recordRequirement ::
  "(string \<Rightarrow> bool) \<Rightarrow> string option \<Rightarrow> string \<Rightarrow> disposition \<Rightarrow> string option \<Rightarrow> extras \<Rightarrow> ledger_state \<Rightarrow>
   ledger_error + ledger_state" where
  "recordRequirement writable sinkPath i d detail ex st =
     (let prior = map_of (ls_ledger st) i in
      case prior of
        Some p \<Rightarrow>
          if le_disposition p \<noteq> d \<and> \<not> ex_fold ex then Inl (ContradictingDisposition i (le_disposition p) d)
          else if \<not> has_reason d detail then Inl (MissingReason i d)
          else
            let entry = (if ex_fold ex then fold_entry p (make_entry i d detail ex) else make_entry i d detail ex)
            in Inr (sink_entry writable sinkPath entry
                 (st\<lparr>ls_ledger := AList.update i entry (ls_ledger st), ls_journal := ls_journal st @ [entry]\<rparr>))
      | None \<Rightarrow>
          if \<not> has_reason d detail then Inl (MissingReason i d)
          else
            let entry = make_entry i d detail ex
            in Inr (sink_entry writable sinkPath entry
                 (st\<lparr>ls_ledger := AList.update i entry (ls_ledger st), ls_journal := ls_journal st @ [entry]\<rparr>)))"

section \<open>Reading a ledger file\<close>

definition parse_disposition :: "json option \<Rightarrow> disposition option" where
  "parse_disposition v =
     (case v of
        Some (JStr s) \<Rightarrow> List.find (\<lambda>d. disposition_name d = s) dispositions
      | _ \<Rightarrow> None)"

definition str_member :: "jobject \<Rightarrow> string \<Rightarrow> string option" where
  "str_member es k = (case js_get es k of Some (JStr s) \<Rightarrow> Some s | _ \<Rightarrow> None)"

definition num_member :: "jobject \<Rightarrow> string \<Rightarrow> int option" where
  "num_member es k = (case js_get es k of Some (JNum n) \<Rightarrow> Some n | _ \<Rightarrow> None)"

text \<open>
  The cast of the parsed value: a row needs a string id and a known disposition; a member of
  another type than its field's is read as absent.
\<close>

definition entry_of_object :: "jobject \<Rightarrow> ledger_entry option" where
  "entry_of_object es =
     (case (str_member es ''requirementId'', parse_disposition (js_get es ''disposition'')) of
        (Some i, Some d) \<Rightarrow>
          Some \<lparr>le_requirementId = i, le_disposition = d, le_detail = str_member es ''detail'',
                le_assertionCount = num_member es ''assertionCount'', le_scenarioFile = str_member es ''scenarioFile'',
                le_evidence = js_get es ''evidence''\<rparr>
      | _ \<Rightarrow> None)"

text \<open>Reading a member of a parsed \<open>null\<close> throws; any other non-object is skipped as a row without an id.\<close>

definition entry_of_line :: "ledger_line \<Rightarrow> unit + ledger_entry option" where
  "entry_of_line l =
     (case l of
        Unparsable t \<Rightarrow> Inr None
      | Parsed JNull \<Rightarrow> Inl ()
      | Parsed (JObj es) \<Rightarrow> Inr (entry_of_object es)
      | Parsed _ \<Rightarrow> Inr None)"

definition file_of :: "ledger_entry \<Rightarrow> string" where
  "file_of e = (case le_scenarioFile e of None \<Rightarrow> [] | Some f \<Rightarrow> f)"

type_synonym per_file = "(string \<times> (string \<times> ledger_entry) list) list"

definition add_row :: "per_file \<Rightarrow> ledger_entry \<Rightarrow> per_file" where
  "add_row perFile e =
     (let files = (case map_of perFile (le_requirementId e) of None \<Rightarrow> [] | Some fs \<Rightarrow> fs);
          files' = (case map_of files (file_of e) of
                      None \<Rightarrow> AList.update (file_of e) e files
                    | Some prior \<Rightarrow>
                        if certifiability_rank (le_disposition e) \<le> certifiability_rank (le_disposition prior)
                        then AList.update (file_of e) e files else files)
      in AList.update (le_requirementId e) files' perFile)"

definition row_le :: "(string \<Rightarrow> string \<Rightarrow> bool) \<Rightarrow> ledger_entry \<Rightarrow> ledger_entry \<Rightarrow> bool" where
  "row_le collate a b =
     (certifiability_rank (le_disposition a) < certifiability_rank (le_disposition b) \<or>
      certifiability_rank (le_disposition a) = certifiability_rank (le_disposition b) \<and> collate (file_of a) (file_of b))"

definition merge_rows :: "(string \<Rightarrow> string \<Rightarrow> bool) \<Rightarrow> (string \<times> ledger_entry) list \<Rightarrow> ledger_entry" where
  "merge_rows collate files =
     (let rows = sort_by (row_le collate) (map snd files); winner = hd rows in
      if length rows = 1 \<or> \<not> (\<exists>r \<in> set rows. le_assertionCount r \<noteq> None) then winner
      else winner\<lparr>le_assertionCount := Some (sum_list (map (\<lambda>r. count_of (le_assertionCount r)) rows))\<rparr>)"

definition merge_ledger :: "(string \<Rightarrow> string \<Rightarrow> bool) \<Rightarrow> ledger_entry list \<Rightarrow> ledger_entry list" where
  "merge_ledger collate es =
     sort_by (\<lambda>a b. collate (le_requirementId a) (le_requirementId b))
       (map (\<lambda>(i, files). merge_rows collate files) (foldl add_row [] es))"

definition readLedgerFile :: "(string \<Rightarrow> string \<Rightarrow> bool) \<Rightarrow> ledger_line list option \<Rightarrow> unit + ledger_entry list" where
  "readLedgerFile collate file =
     (case file of
        None \<Rightarrow> Inr []
      | Some ls \<Rightarrow> ebind (emap entry_of_line ls) (\<lambda>es. Inr (merge_ledger collate (List.map_filter id es))))"

section \<open>Queries and the verdict\<close>

definition hasRequirement :: "ledger_state \<Rightarrow> string \<Rightarrow> bool" where
  "hasRequirement st i = (map_of (ls_ledger st) i \<noteq> None)"

definition dispositionOf :: "ledger_state \<Rightarrow> string \<Rightarrow> disposition" where
  "dispositionOf st i = (case map_of (ls_ledger st) i of None \<Rightarrow> Blocked | Some e \<Rightarrow> le_disposition e)"

definition entryOf :: "ledger_state \<Rightarrow> string \<Rightarrow> ledger_entry" where
  "entryOf st i =
     (case map_of (ls_ledger st) i of
        Some e \<Rightarrow> e
      | None \<Rightarrow> \<lparr>le_requirementId = i, le_disposition = Blocked,
                 le_detail = Some ''no disposition recorded: the requirement was not exercised'',
                 le_assertionCount = None, le_scenarioFile = None, le_evidence = None\<rparr>)"

definition snapshot :: "(string \<Rightarrow> string \<Rightarrow> bool) \<Rightarrow> ledger_state \<Rightarrow> ledger_entry list" where
  "snapshot collate st = sort_by (\<lambda>a b. collate (le_requirementId a) (le_requirementId b)) (map snd (ls_ledger st))"

definition suspendSinkForFixtures :: "string option \<Rightarrow> ledger_state \<Rightarrow> ledger_state" where
  "suspendSinkForFixtures sinkPath st = st\<lparr>ls_suspendedSink := sinkPath\<rparr>"

definition restoreSink :: "ledger_state \<Rightarrow> ledger_state" where
  "restoreSink st = st\<lparr>ls_suspendedSink := None\<rparr>"

definition journalLength :: "ledger_state \<Rightarrow> nat" where
  "journalLength st = length (ls_journal st)"

definition journalSince :: "nat \<Rightarrow> ledger_state \<Rightarrow> ledger_entry list" where
  "journalSince mark st = drop mark (ls_journal st)"

definition resetLedger :: "ledger_state \<Rightarrow> ledger_state" where
  "resetLedger st = st\<lparr>ls_ledger := [], ls_journal := []\<rparr>"

record profile_verdict =
  vd_profile :: string
  vd_certifiable :: bool
  vd_blocking :: "ledger_entry list"

definition verifyProfileRequirements :: "ledger_state \<Rightarrow> string \<Rightarrow> string list \<Rightarrow> profile_verdict" where
  "verifyProfileRequirements st profile ids =
     (let blocking = filter (\<lambda>e. le_disposition e \<notin> set certifiable_dispositions) (map (entryOf st) ids) in
      \<lparr>vd_profile = profile, vd_certifiable = (ids \<noteq> [] \<and> blocking = []), vd_blocking = blocking\<rparr>)"

section \<open>A written row reads back\<close>

lemma parse_disposition_name [simp]: "parse_disposition (Some (JStr (disposition_name d))) = Some d"
  by (cases d) (simp_all add: parse_disposition_def dispositions_def disposition_name_def)

lemma ledger_members_plain:
  "proto_member ''requirementId'' = None" "proto_member ''disposition'' = None" "proto_member ''detail'' = None"
  "proto_member ''assertionCount'' = None" "proto_member ''scenarioFile'' = None" "proto_member ''evidence'' = None"
  by code_simp+

lemma entry_of_written: "entry_of_line (Parsed (entry_json e)) = Inr (Some e)"
proof -
  note reads = str_member_def num_member_def js_get_plain ledger_members_plain member_reads
  show ?thesis
    unfolding entry_of_line_def entry_json_def entry_of_object_def
    by (simp add: reads option.map_id0 del: append_Cons append_Nil map_of_append split: option.split)
qed

section \<open>Folding one requirement\<close>

lemma worse_disposition: "worse certifiability_rank a b = min a b"
  by (simp add: worse_def min_def less_eq_disposition_def)

lemma fold_entry_simps [simp]:
  "le_requirementId (fold_entry p e) = le_requirementId e"
  "le_disposition (fold_entry p e) = min (le_disposition p) (le_disposition e)"
  by (simp_all add: fold_entry_def Let_def min_def less_eq_disposition_def)

lemma fold_entry_file: "le_scenarioFile p = le_scenarioFile e \<Longrightarrow> le_scenarioFile (fold_entry p e) = le_scenarioFile e"
  by (simp add: fold_entry_def Let_def)

definition add_counts :: "int option \<Rightarrow> int option \<Rightarrow> int option" where
  "add_counts a b = (if a = None \<and> b = None then None else Some (count_of a + count_of b))"

lemma fold_entry_count: "le_assertionCount (fold_entry p e) = add_counts (le_assertionCount p) (le_assertionCount e)"
  by (auto simp: fold_entry_def add_counts_def Let_def)

text \<open>The rows a sequence of folds records after the first, in order.\<close>

fun fold_trace :: "ledger_entry \<Rightarrow> ledger_entry list \<Rightarrow> ledger_entry list" where
  "fold_trace p [] = []"
| "fold_trace p (e # es) = fold_entry p e # fold_trace (fold_entry p e) es"

lemma last_fold_trace: "last (p # fold_trace p es) = foldl fold_entry p es"
  by (induction es arbitrary: p) auto

lemma foldl_fold_disposition:
  "le_disposition (foldl fold_entry p es) = Min (le_disposition ` set (p # es))"
proof (induction es arbitrary: p)
  case (Cons e es)
  have "le_disposition (foldl fold_entry p (e # es)) = Min (le_disposition ` set (fold_entry p e # es))"
    using Cons by simp
  also have "\<dots> = Min (insert (min (le_disposition p) (le_disposition e)) (le_disposition ` set es))" by simp
  also have "\<dots> = Min (insert (le_disposition p) (insert (le_disposition e) (le_disposition ` set es)))"
    by (cases "set es = {}") (simp_all add: min.assoc)
  finally show ?case by simp
qed simp

lemma foldl_fold_count:
  "count_of (le_assertionCount (foldl fold_entry p es)) = sum_list (map (\<lambda>e. count_of (le_assertionCount e)) (p # es))"
proof (induction es arbitrary: p)
  case (Cons e es)
  have "count_of (add_counts a b) = count_of a + count_of b" for a b
    by (auto simp: add_counts_def count_of_def)
  with Cons show ?case by (simp add: fold_entry_count)
qed simp

text \<open>The legs of one requirement recorded in turn.\<close>

fun record_legs ::
  "(string \<Rightarrow> bool) \<Rightarrow> string option \<Rightarrow> string \<Rightarrow> (disposition \<times> string option \<times> extras) list \<Rightarrow> ledger_state \<Rightarrow>
   ledger_error + ledger_state" where
  "record_legs writable sinkPath i [] st = Inr st"
| "record_legs writable sinkPath i ((d, detail, ex) # legs) st =
     ebind (recordRequirement writable sinkPath i d detail ex st) (record_legs writable sinkPath i legs)"

definition leg_entries :: "string \<Rightarrow> (disposition \<times> string option \<times> extras) list \<Rightarrow> ledger_entry list" where
  "leg_entries i legs = map (\<lambda>(d, detail, ex). make_entry i d detail ex) legs"

definition file_lines :: "ledger_state \<Rightarrow> string \<Rightarrow> ledger_line list" where
  "file_lines st path = (case map_of (ls_files st) path of None \<Rightarrow> [] | Some ls \<Rightarrow> ls)"

lemma sink_entry_simps [simp]:
  "ls_ledger (sink_entry w p e st) = ls_ledger st"
  "ls_journal (sink_entry w p e st) = ls_journal st"
  "ls_suspendedSink (sink_entry w p e st) = ls_suspendedSink st"
  by (simp_all add: sink_entry_def split: option.split)

lemma sink_entry_lines:
  "w path \<Longrightarrow> path \<noteq> [] \<Longrightarrow> ls_suspendedSink st \<noteq> Some path \<Longrightarrow>
   file_lines (sink_entry w (Some path) e st) path = file_lines st path @ [Parsed (entry_json e)]"
  by (auto simp: sink_entry_def append_line_def file_lines_def)

lemma record_fold_step:
  assumes "map_of (ls_ledger st) i = Some p" and "ex_fold ex"
    and "recordRequirement w sinkPath i d detail ex st = Inr st'"
  shows "st' = sink_entry w sinkPath (fold_entry p (make_entry i d detail ex))
           (st\<lparr>ls_ledger := AList.update i (fold_entry p (make_entry i d detail ex)) (ls_ledger st),
               ls_journal := ls_journal st @ [fold_entry p (make_entry i d detail ex)]\<rparr>)"
  using assms by (simp add: recordRequirement_def Let_def split: if_splits)

lemma record_first_step:
  assumes "map_of (ls_ledger st) i = None" and "recordRequirement w sinkPath i d detail ex st = Inr st'"
  shows "st' = sink_entry w sinkPath (make_entry i d detail ex)
           (st\<lparr>ls_ledger := AList.update i (make_entry i d detail ex) (ls_ledger st),
               ls_journal := ls_journal st @ [make_entry i d detail ex]\<rparr>)"
  using assms by (simp add: recordRequirement_def Let_def split: if_splits)

lemma record_legs_folded:
  assumes "record_legs w sinkPath i legs st = Inr st'" and "map_of (ls_ledger st) i = Some p"
    and "\<forall>(d, detail, ex) \<in> set legs. ex_fold ex"
  shows "map_of (ls_ledger st') i = Some (foldl fold_entry p (leg_entries i legs)) \<and>
         (sinkPath = Some path \<and> w path \<and> path \<noteq> [] \<and> ls_suspendedSink st \<noteq> Some path \<longrightarrow>
          file_lines st' path = file_lines st path @ map (Parsed \<circ> entry_json) (fold_trace p (leg_entries i legs)))"
  using assms
proof (induction legs arbitrary: st p)
  case Nil
  then show ?case by (simp add: leg_entries_def)
next
  case (Cons leg legs)
  obtain d detail ex where leg: "leg = (d, detail, ex)" by (cases leg)
  with Cons.prems obtain st1 where r: "recordRequirement w sinkPath i d detail ex st = Inr st1"
    and rest: "record_legs w sinkPath i legs st1 = Inr st'" and fold: "ex_fold ex"
    by (auto simp: ebind_Inr_iff)
  note st1 = record_fold_step [OF Cons.prems(2) fold r]
  let ?e = "fold_entry p (make_entry i d detail ex)"
  have "map_of (ls_ledger st1) i = Some ?e" by (simp add: st1)
  note ih = Cons.IH [OF rest this]
  have "file_lines st1 path = file_lines st path @ [Parsed (entry_json ?e)]"
    if "sinkPath = Some path \<and> w path \<and> path \<noteq> [] \<and> ls_suspendedSink st \<noteq> Some path"
    using that by (simp add: st1 sink_entry_lines) (simp add: file_lines_def)
  moreover have "ls_suspendedSink st1 = ls_suspendedSink st" by (simp add: st1)
  ultimately show ?case using ih Cons.prems(3) by (auto simp: leg leg_entries_def)
qed

lemma record_legs_fresh:
  assumes "record_legs w sinkPath i ((d, detail, ex) # legs) st = Inr st'" and "map_of (ls_ledger st) i = None"
    and "\<forall>(d, detail, ex) \<in> set legs. ex_fold ex"
  shows "map_of (ls_ledger st') i = Some (foldl fold_entry (make_entry i d detail ex) (leg_entries i legs)) \<and>
         (sinkPath = Some path \<and> w path \<and> path \<noteq> [] \<and> ls_suspendedSink st \<noteq> Some path \<longrightarrow>
          file_lines st' path = file_lines st path @
            map (Parsed \<circ> entry_json) (make_entry i d detail ex # fold_trace (make_entry i d detail ex) (leg_entries i legs)))"
proof -
  from assms(1) obtain st1 where r: "recordRequirement w sinkPath i d detail ex st = Inr st1"
    and rest: "record_legs w sinkPath i legs st1 = Inr st'"
    by (auto simp: ebind_Inr_iff)
  note st1 = record_first_step [OF assms(2) r]
  have "map_of (ls_ledger st1) i = Some (make_entry i d detail ex)" by (simp add: st1)
  note more = record_legs_folded [OF rest this assms(3)]
  have "file_lines st1 path = file_lines st path @ [Parsed (entry_json (make_entry i d detail ex))]"
    if "sinkPath = Some path \<and> w path \<and> path \<noteq> [] \<and> ls_suspendedSink st \<noteq> Some path"
    using that by (simp add: st1 sink_entry_lines) (simp add: file_lines_def)
  moreover have "ls_suspendedSink st1 = ls_suspendedSink st" by (simp add: st1)
  ultimately show ?thesis using more by auto
qed

section \<open>What the reader settles on\<close>

definition ledger_rows :: "ledger_line list \<Rightarrow> ledger_entry list" where
  "ledger_rows ls = List.map_filter (\<lambda>l. case entry_of_line l of Inl _ \<Rightarrow> None | Inr e \<Rightarrow> e) ls"

lemma emap_entries: "emap entry_of_line ls = Inr es \<Longrightarrow> List.map_filter id es = ledger_rows ls"
  unfolding emap_Inr_iff
  by (induction rule: list_all2_induct) (auto simp: ledger_rows_def map_filter_simps split: option.splits)

lemma readLedgerFile_Inr:
  "readLedgerFile collate (Some ls) = Inr rs \<Longrightarrow> rs = merge_ledger collate (ledger_rows ls)"
  by (auto simp: readLedgerFile_def ebind_Inr_iff dest: emap_entries)

lemma emap_written: "emap entry_of_line (map (Parsed \<circ> entry_json) es) = Inr (map Some es)"
  by (simp add: emap_Inr_iff list_all2_conv_all_nth entry_of_written)

lemma map_filter_Some [simp]: "List.map_filter id (map Some es) = es"
  by (induction es) (auto simp: map_filter_simps)

text \<open>The rows of one fold replace each other in the reader's table.\<close>

lemma add_rows_trace:
  assumes "\<forall>e \<in> set es. le_requirementId e = le_requirementId p \<and> le_scenarioFile e = le_scenarioFile p"
  shows "foldl add_row [(le_requirementId p, [(file_of p, p)])] (fold_trace p es) =
           [(le_requirementId p, [(file_of p, foldl fold_entry p es)])]"
  using assms
proof (induction es arbitrary: p)
  case (Cons e es)
  let ?q = "fold_entry p e"
  have same: "le_requirementId ?q = le_requirementId p" "le_scenarioFile ?q = le_scenarioFile p"
    using Cons.prems fold_entry_file [of p e] by auto
  then have f: "file_of ?q = file_of p" by (simp add: file_of_def)
  have "certifiability_rank (le_disposition ?q) \<le> certifiability_rank (le_disposition p)"
    by (simp add: min_def less_eq_disposition_def)
  then have "add_row [(le_requirementId p, [(file_of p, p)])] ?q = [(le_requirementId p, [(file_of p, ?q)])]"
    using same(1) f by (simp add: add_row_def Let_def)
  moreover have "foldl add_row [(le_requirementId ?q, [(file_of ?q, ?q)])] (fold_trace ?q es) =
      [(le_requirementId ?q, [(file_of ?q, foldl fold_entry ?q es)])]"
    by (rule Cons.IH) (use Cons.prems same in auto)
  ultimately show ?case using same(1) f by simp
qed simp

lemma merge_ledger_trace:
  assumes "\<forall>e \<in> set es. le_requirementId e = le_requirementId p \<and> le_scenarioFile e = le_scenarioFile p"
  shows "merge_ledger collate (p # fold_trace p es) = [foldl fold_entry p es]"
proof -
  have "foldl add_row [] (p # fold_trace p es) = [(le_requirementId p, [(file_of p, foldl fold_entry p es)])]"
    using add_rows_trace [OF assms] by (simp add: add_row_def)
  then show ?thesis by (simp add: merge_ledger_def merge_rows_def)
qed

text \<open>What the table holds after some rows: per id, rows of that id, the least of them among them.\<close>

definition table_ok :: "per_file \<Rightarrow> ledger_entry list \<Rightarrow> bool" where
  "table_ok perFile es =
     (distinct (map fst perFile) \<and> fst ` set perFile = le_requirementId ` set es \<and>
      (\<forall>(i, files) \<in> set perFile. files \<noteq> [] \<and> distinct (map fst files) \<and>
         (\<forall>r \<in> snd ` set files. r \<in> set es \<and> le_requirementId r = i) \<and>
         (\<forall>e \<in> set es. le_requirementId e = i \<longrightarrow> (\<exists>r \<in> snd ` set files. le_disposition r \<le> le_disposition e))))"

definition files_ok :: "string \<Rightarrow> (string \<times> ledger_entry) list \<Rightarrow> ledger_entry list \<Rightarrow> bool" where
  "files_ok i files es =
     (distinct (map fst files) \<and> (\<forall>r \<in> snd ` set files. r \<in> set es \<and> le_requirementId r = i) \<and>
      (\<forall>e \<in> set es. le_requirementId e = i \<longrightarrow> (\<exists>r \<in> snd ` set files. le_disposition r \<le> le_disposition e)))"

lemma update_member: "distinct (map fst m) \<Longrightarrow> (k', v') \<in> set (AList.update k v m) \<longleftrightarrow> (k', v') = (k, v) \<or> k' \<noteq> k \<and> (k', v') \<in> set m"
proof -
  assume d: "distinct (map fst m)"
  then have "distinct (map fst (AList.update k v m))" by (rule distinct_update)
  then have "(k', v') \<in> set (AList.update k v m) \<longleftrightarrow> map_of (AList.update k v m) k' = Some v'"
    by (rule map_of_eq_Some_iff [symmetric])
  also have "\<dots> \<longleftrightarrow> (k', v') = (k, v) \<or> k' \<noteq> k \<and> map_of m k' = Some v'" by auto
  also have "\<dots> \<longleftrightarrow> (k', v') = (k, v) \<or> k' \<noteq> k \<and> (k', v') \<in> set m" using d by simp
  finally show ?thesis .
qed

lemma files_ok_step:
  assumes ok: "files_ok i files es" and i: "le_requirementId e = i"
  shows "files_ok i (case map_of files (file_of e) of
                      None \<Rightarrow> AList.update (file_of e) e files
                    | Some prior \<Rightarrow>
                        if certifiability_rank (le_disposition e) \<le> certifiability_rank (le_disposition prior)
                        then AList.update (file_of e) e files else files) (es @ [e])"
proof -
  have d: "distinct (map fst files)" using ok by (simp add: files_ok_def)
  have upd: "files_ok i (AList.update (file_of e) e files) (es @ [e])"
    if prior: "\<forall>prior. map_of files (file_of e) = Some prior \<longrightarrow> le_disposition e \<le> le_disposition prior"
  proof -
    have "\<exists>r \<in> snd ` set (AList.update (file_of e) e files). le_disposition r \<le> le_disposition x"
      if x: "x \<in> set (es @ [e])" "le_requirementId x = i" for x
    proof (cases "x = e")
      case True
      have "(file_of e, e) \<in> set (AList.update (file_of e) e files)" by (simp add: update_member [OF d])
      with True show ?thesis by force
    next
      case False
      with x have "x \<in> set es" by simp
      with x(2) ok obtain r where r: "r \<in> snd ` set files" "le_disposition r \<le> le_disposition x"
        unfolding files_ok_def by blast
      then obtain f where fr: "(f, r) \<in> set files" "le_disposition r \<le> le_disposition x" by auto
      show ?thesis
      proof (cases "f = file_of e")
        case True
        with fr d have "map_of files (file_of e) = Some r" by auto
        then have "le_disposition e \<le> le_disposition r"
          using prior by simp
        then have "le_disposition e \<le> le_disposition x" using fr(2) by (rule order_trans)
        moreover have "(file_of e, e) \<in> set (AList.update (file_of e) e files)" by (simp add: update_member [OF d])
        ultimately show ?thesis by force
      next
        case False
        with fr have "(f, r) \<in> set (AList.update (file_of e) e files)" by (simp add: update_member [OF d])
        with fr(2) show ?thesis by force
      qed
    qed
    moreover have "r \<in> set (es @ [e]) \<and> le_requirementId r = i" if "r \<in> snd ` set (AList.update (file_of e) e files)" for r
      using that ok i by (auto simp: update_member [OF d] files_ok_def)
    ultimately show ?thesis using distinct_update [OF d] unfolding files_ok_def by blast
  qed
  show ?thesis
  proof (cases "map_of files (file_of e)")
    case None
    with upd show ?thesis by simp
  next
    case (Some prior)
    show ?thesis
    proof (cases "certifiability_rank (le_disposition e) \<le> certifiability_rank (le_disposition prior)")
      case True
      with Some upd show ?thesis by (simp add: less_eq_disposition_def)
    next
      case False
      then have "le_disposition prior \<le> le_disposition e" by (simp add: less_eq_disposition_def)
      moreover have "(file_of e, prior) \<in> set files" using Some by (rule map_of_SomeD)
      ultimately have "\<exists>r \<in> snd ` set files. le_disposition r \<le> le_disposition e" by force
      with ok i have "files_ok i files (es @ [e])" by (auto simp: files_ok_def)
      with Some False show ?thesis by simp
    qed
  qed
qed

lemma table_ok_iff:
  "table_ok perFile es \<longleftrightarrow> distinct (map fst perFile) \<and> fst ` set perFile = le_requirementId ` set es \<and>
     (\<forall>(i, files) \<in> set perFile. files \<noteq> [] \<and> files_ok i files es)"
  by (auto simp: table_ok_def files_ok_def)

lemma update_nonempty: "AList.update k v m \<noteq> []"
  by (induction m) auto

lemma files_ok_other: "files_ok i files es \<Longrightarrow> le_requirementId e \<noteq> i \<Longrightarrow> files_ok i files (es @ [e])"
  by (auto simp: files_ok_def)

lemma table_ok_add: "table_ok perFile es \<Longrightarrow> table_ok (add_row perFile e) (es @ [e])"
proof -
  assume ok: "table_ok perFile es"
  let ?i = "le_requirementId e"
  define files where "files = (case map_of perFile ?i of None \<Rightarrow> [] | Some fs \<Rightarrow> fs)"
  define files' where "files' = (case map_of files (file_of e) of
                      None \<Rightarrow> AList.update (file_of e) e files
                    | Some prior \<Rightarrow>
                        if certifiability_rank (le_disposition e) \<le> certifiability_rank (le_disposition prior)
                        then AList.update (file_of e) e files else files)"
  have add: "add_row perFile e = AList.update ?i files' perFile"
    unfolding files_def files'_def add_row_def Let_def ..
  have d: "distinct (map fst perFile)" using ok by (simp add: table_ok_iff)
  have "files_ok ?i files es"
  proof (cases "map_of perFile ?i")
    case None
    then have "?i \<notin> le_requirementId ` set es" using ok by (simp add: table_ok_iff map_of_eq_None_iff)
    then have "\<forall>x \<in> set es. le_requirementId x \<noteq> ?i" by (metis image_eqI)
    with None show ?thesis by (simp add: files_def files_ok_def)
  next
    case (Some fs)
    then have "(?i, fs) \<in> set perFile" by (rule map_of_SomeD)
    with ok Some show ?thesis by (auto simp: files_def table_ok_iff)
  qed
  from files_ok_step [OF this refl] have ok': "files_ok ?i files' (es @ [e])" by (simp add: files'_def)
  have ne: "files' \<noteq> []"
    by (auto simp: files'_def update_nonempty split: option.splits)
  have "files \<noteq> [] \<and> files_ok i files (es @ [e])" if "(i, files) \<in> set perFile" "i \<noteq> ?i" for i files
    using ok that files_ok_other by (fastforce simp: table_ok_iff)
  with ok ok' ne d show ?thesis
    by (auto simp: table_ok_iff add update_member distinct_update dom_update)
qed

lemma table_ok_rows: "table_ok (foldl add_row [] es) es"
proof (induction es rule: rev_induct)
  case Nil
  then show ?case by (simp add: table_ok_def)
next
  case (snoc e es)
  then show ?case using table_ok_add by simp
qed

lemma merge_rows_least:
  assumes "files \<noteq> []"
  shows "\<exists>r \<in> snd ` set files. le_requirementId (merge_rows collate files) = le_requirementId r \<and>
           le_disposition (merge_rows collate files) = le_disposition r \<and>
           (\<forall>q \<in> snd ` set files. le_disposition r \<le> le_disposition q)"
proof -
  let ?rows = "sort_by (row_le collate) (map snd files)"
  have "sorted (map (certifiability_rank \<circ> le_disposition) ?rows)"
    by (rule sort_by_rank) (auto simp: row_le_def)
  moreover have ne: "?rows \<noteq> []" using assms by simp
  ultimately have least: "\<forall>q \<in> set ?rows. certifiability_rank (le_disposition (hd ?rows)) \<le> certifiability_rank (le_disposition q)"
    by (cases ?rows) auto
  have "hd ?rows \<in> set ?rows" using ne by (rule hd_in_set)
  moreover have "le_requirementId (merge_rows collate files) = le_requirementId (hd ?rows)"
    and "le_disposition (merge_rows collate files) = le_disposition (hd ?rows)"
    by (simp_all add: merge_rows_def Let_def)
  ultimately show ?thesis
    using least by (intro bexI [of _ "hd ?rows"]) (auto simp: less_eq_disposition_def)
qed

section \<open>Properties of the ledger\<close>

definition empty_ledger :: ledger_state where
  "empty_ledger = \<lparr>ls_ledger = [], ls_journal = [], ls_suspendedSink = None, ls_files = []\<rparr>"

definition fold_leg :: "disposition \<Rightarrow> string \<Rightarrow> int \<Rightarrow> disposition \<times> string option \<times> extras" where
  "fold_leg d why n = (d, Some why, no_extras\<lparr>ex_assertionCount := Some n, ex_scenarioFile := Some ''a.test.ts'', ex_fold := True\<rparr>)"

lemma legs_disposition: "le_disposition ` set (leg_entries i legs) = fst ` set legs"
  by (force simp: leg_entries_def make_entry_def image_iff)

lemma legs_count:
  "map (\<lambda>e. count_of (le_assertionCount e)) (leg_entries i legs) = map (\<lambda>(d, detail, ex). count_of (ex_assertionCount ex)) legs"
  by (auto simp: leg_entries_def make_entry_def)

text \<open>
  Claim C11: when several legs record one fresh requirement by folding, the entry that stands has the
  least certifiable disposition of the legs, in whatever order they ran, and their assertion counts
  summed.
\<close>

theorem fold_settles_on_worst:
  assumes "record_legs w sinkPath i (leg # legs) st = Inr st'" and "\<not> hasRequirement st i"
    and "\<forall>(d, detail, ex) \<in> set legs. ex_fold ex"
  shows "dispositionOf st' i = Min (fst ` set (leg # legs)) \<and>
         count_of (le_assertionCount (entryOf st' i)) =
           sum_list (map (\<lambda>(d, detail, ex). count_of (ex_assertionCount ex)) (leg # legs))"
proof -
  obtain d detail ex where leg: "leg = (d, detail, ex)" by (cases leg)
  have fresh: "map_of (ls_ledger st) i = None" using assms(2) by (simp add: hasRequirement_def)
  have "map_of (ls_ledger st') i = Some (foldl fold_entry (make_entry i d detail ex) (leg_entries i legs))"
    using record_legs_fresh [OF assms(1) [unfolded leg] fresh assms(3)] by blast
  then show ?thesis
    by (simp add: dispositionOf_def entryOf_def foldl_fold_disposition foldl_fold_count legs_disposition legs_count leg)
      (simp add: make_entry_def)
qed

theorem fold_settles_on_worst_witness:
  "\<exists>st'. record_legs (\<lambda>_. True) None ''r'' [fold_leg Executed_pass ''ok'' 3, fold_leg Executed_fail ''bad'' 7] empty_ledger = Inr st' \<and>
     dispositionOf st' ''r'' = Executed_fail \<and> count_of (le_assertionCount (entryOf st' ''r'')) = 10"
proof -
  let ?legs = "[fold_leg Executed_fail ''bad'' 7]"
  have ok: "case record_legs (\<lambda>_. True) None ''r'' (fold_leg Executed_pass ''ok'' 3 # ?legs) empty_ledger of Inl _ \<Rightarrow> False | Inr _ \<Rightarrow> True"
    by code_simp
  then obtain st' where run: "record_legs (\<lambda>_. True) None ''r'' (fold_leg Executed_pass ''ok'' 3 # ?legs) empty_ledger = Inr st'"
    by (auto split: sum.splits)
  have "\<not> hasRequirement empty_ledger ''r''" "\<forall>(d, detail, ex) \<in> set ?legs. ex_fold ex"
    by (simp_all add: hasRequirement_def empty_ledger_def fold_leg_def)
  from fold_settles_on_worst [OF run this] run show ?thesis
    by (intro exI [of _ st']) (simp add: fold_leg_def no_extras_def count_of_def min_def less_eq_disposition_def certifiability_rank_def)
qed

text \<open>
  Claim C4: what the runner reads back from the sink is what the worker holds: after several legs of
  one scenario file folded one fresh requirement into a sink that is empty, writable and not suspended, the
  reader returns exactly the one entry of the in-memory ledger.
\<close>

theorem file_agrees_with_ledger:
  assumes "record_legs w (Some path) i (leg # legs) st = Inr st'" and "\<not> hasRequirement st i"
    and "\<forall>(d, detail, ex) \<in> set legs. ex_fold ex \<and> ex_scenarioFile ex = ex_scenarioFile (snd (snd leg))"
    and "w path" and "path \<noteq> []" and "ls_suspendedSink st \<noteq> Some path" and "file_lines st path = []"
  shows "readLedgerFile collate (Some (file_lines st' path)) = Inr [entryOf st' i]"
proof -
  obtain d detail ex where leg: "leg = (d, detail, ex)" by (cases leg)
  let ?p = "make_entry i d detail ex"
  let ?es = "leg_entries i legs"
  have fresh: "map_of (ls_ledger st) i = None" using assms(2) by (simp add: hasRequirement_def)
  have folds: "\<forall>(d, detail, ex) \<in> set legs. ex_fold ex" using assms(3) by auto
  have "map_of (ls_ledger st') i = Some (foldl fold_entry ?p ?es)"
    and lines: "file_lines st' path = map (Parsed \<circ> entry_json) (?p # fold_trace ?p ?es)"
    using record_legs_fresh [OF assms(1) [unfolded leg] fresh folds, of path] assms(4-7) by simp_all
  moreover have "\<forall>e \<in> set ?es. le_requirementId e = le_requirementId ?p \<and> le_scenarioFile e = le_scenarioFile ?p"
    using assms(3) by (force simp: leg leg_entries_def make_entry_def)
  ultimately show ?thesis
    unfolding lines readLedgerFile_def entryOf_def
    by (simp add: emap_written merge_ledger_trace del: list.map)
qed

theorem file_agrees_with_ledger_witness:
  "\<exists>st'. record_legs (\<lambda>_. True) (Some ''l'') ''r'' [fold_leg Executed_pass ''ok'' 3, fold_leg Executed_fail ''bad'' 7] empty_ledger = Inr st' \<and>
     readLedgerFile (\<lambda>a b. True) (Some (file_lines st' ''l'')) = Inr [entryOf st' ''r'']"
proof -
  let ?legs = "[fold_leg Executed_fail ''bad'' 7]"
  have ok: "case record_legs (\<lambda>_. True) (Some ''l'') ''r'' (fold_leg Executed_pass ''ok'' 3 # ?legs) empty_ledger of Inl _ \<Rightarrow> False | Inr _ \<Rightarrow> True"
    by code_simp
  then obtain st' where run: "record_legs (\<lambda>_. True) (Some ''l'') ''r'' (fold_leg Executed_pass ''ok'' 3 # ?legs) empty_ledger = Inr st'"
    by (auto split: sum.splits)
  have "\<not> hasRequirement empty_ledger ''r''" and
    "\<forall>(d, detail, ex) \<in> set ?legs. ex_fold ex \<and> ex_scenarioFile ex = ex_scenarioFile (snd (snd (fold_leg Executed_pass ''ok'' 3)))"
    and "ls_suspendedSink empty_ledger \<noteq> Some ''l''" and "file_lines empty_ledger ''l'' = []"
    by (simp_all add: hasRequirement_def empty_ledger_def fold_leg_def no_extras_def file_lines_def)
  with run file_agrees_with_ledger [OF run] show ?thesis by fastforce
qed

text \<open>
  A ledger file that reads at all gives one row per requirement id that has a valid line,
  with the least certifiable disposition of that id's valid lines, whatever the order of the lines
  and the files they name: a disagreement never rounds toward certification.
\<close>

theorem reader_settles_on_worst:
  assumes "readLedgerFile collate (Some ls) = Inr rs"
  shows "distinct (map le_requirementId rs) \<and>
         le_requirementId ` set rs = le_requirementId ` set (ledger_rows ls) \<and>
         (\<forall>r \<in> set rs. le_disposition r =
            Min (le_disposition ` {e \<in> set (ledger_rows ls). le_requirementId e = le_requirementId r}))"
proof -
  let ?es = "ledger_rows ls"
  let ?t = "foldl add_row [] ?es"
  let ?m = "\<lambda>(i, files). merge_rows collate files"
  have rs: "rs = merge_ledger collate ?es" using assms by (rule readLedgerFile_Inr)
  have ok: "table_ok ?t ?es" by (rule table_ok_rows)
  have row: "le_requirementId (?m (i, files)) = i \<and>
      le_disposition (?m (i, files)) = Min (le_disposition ` {e \<in> set ?es. le_requirementId e = i})"
    if mem: "(i, files) \<in> set ?t" for i files
  proof -
    have ne: "files \<noteq> []" and f: "files_ok i files ?es" using ok mem by (auto simp: table_ok_iff)
    from merge_rows_least [OF ne] obtain r where r: "r \<in> snd ` set files"
      "le_requirementId (merge_rows collate files) = le_requirementId r"
      "le_disposition (merge_rows collate files) = le_disposition r"
      and least: "\<forall>q \<in> snd ` set files. le_disposition r \<le> le_disposition q"
      by blast
    have mine: "r \<in> set ?es" "le_requirementId r = i" using f r(1) by (auto simp: files_ok_def)
    have "le_disposition r \<le> le_disposition e" if "e \<in> set ?es" "le_requirementId e = i" for e
    proof -
      from f that obtain q where "q \<in> snd ` set files" "le_disposition q \<le> le_disposition e"
        unfolding files_ok_def by blast
      with least show ?thesis by (blast intro: order_trans)
    qed
    then have "Min (le_disposition ` {e \<in> set ?es. le_requirementId e = i}) = le_disposition r"
      using mine by (intro Min_eqI) auto
    with r mine show ?thesis by simp
  qed
  have ids: "map le_requirementId (map ?m ?t) = map fst ?t"
    using row by (auto simp: comp_def)
  have set_rs: "set rs = ?m ` set ?t" by (simp add: rs merge_ledger_def)
  have "distinct (map le_requirementId rs)"
    unfolding rs merge_ledger_def distinct_map_sort_by ids using ok by (simp add: table_ok_iff)
  moreover have "le_requirementId ` set rs = set (map fst ?t)"
    unfolding set_rs ids [symmetric] by (simp add: image_image)
  then have "le_requirementId ` set rs = le_requirementId ` set ?es" using ok by (simp add: table_ok_iff)
  moreover have "le_disposition r = Min (le_disposition ` {e \<in> set ?es. le_requirementId e = le_requirementId r})"
    if "r \<in> set rs" for r
    using that row unfolding set_rs by fastforce
  ultimately show ?thesis by blast
qed

theorem reader_settles_on_worst_witness:
  "\<exists>rs. readLedgerFile (\<lambda>a b. True) (Some [Parsed (entry_json (make_entry ''r'' Skipped (Some ''x'') no_extras)), Unparsable ''{'']) = Inr rs \<and>
     distinct (map le_requirementId rs) \<and> le_requirementId ` set rs = {''r''}"
proof -
  let ?ls = "[Parsed (entry_json (make_entry ''r'' Skipped (Some ''x'') no_extras)), Unparsable ''{'']"
  obtain rs where rs: "readLedgerFile (\<lambda>a b. True) (Some ?ls) = Inr rs"
    by (simp add: readLedgerFile_def entry_of_written) (simp add: entry_of_line_def)
  have "ledger_rows ?ls = [make_entry ''r'' Skipped (Some ''x'') no_extras]"
    by (simp add: ledger_rows_def map_filter_simps entry_of_written) (simp add: entry_of_line_def)
  with rs reader_settles_on_worst [OF rs] show ?thesis by (simp add: make_entry_def)
qed

text \<open>
  Silence never certifies: a profile is certifiable exactly when it has requirements and
  every one of them was recorded, with a pass, a declared skip or an inapplicable; the rows it
  reports as blocking are those that were not.
\<close>

theorem silence_never_certifies:
  "vd_certifiable (verifyProfileRequirements st profile ids) \<longleftrightarrow>
     ids \<noteq> [] \<and> (\<forall>i \<in> set ids. \<exists>e. map_of (ls_ledger st) i = Some e \<and>
        le_disposition e \<noteq> Executed_fail \<and> le_disposition e \<noteq> Blocked)"
proof -
  have "le_disposition (entryOf st i) \<in> set certifiable_dispositions \<longleftrightarrow>
      (\<exists>e. map_of (ls_ledger st) i = Some e \<and> le_disposition e \<noteq> Executed_fail \<and> le_disposition e \<noteq> Blocked)" for i
    by (auto simp: entryOf_def certifiable_dispositions_def split: option.splits intro: disposition.exhaust)
  then show ?thesis
    by (auto simp: verifyProfileRequirements_def Let_def filter_empty_conv)
qed

theorem silence_never_certifies_witness:
  "\<not> vd_certifiable (verifyProfileRequirements empty_ledger ''p'' [''r'']) \<and>
   \<not> vd_certifiable (verifyProfileRequirements empty_ledger ''p'' [])"
  using silence_never_certifies [of empty_ledger "''p''" "[''r'']"] silence_never_certifies [of empty_ledger "''p''" "[]"]
  by (simp add: empty_ledger_def)

end
