(* ===== verification/Soft_Skip.thy ===== *)
theory Soft_Skip
  imports Prelude
begin

text \<open>
  The notes a test writes when it returns early (\<open>soft-skip.ts\<close>): the per-file note lists with
  their sequence numbers, the four writers, and the fold that turns a window of notes into one
  disposition. The file of the running test (\<open>expect.getState().testPath\<close>) is an argument of each
  writer, \<open>None\<close> outside a test; \<open>strict\<close> is \<open>OPENWOP_REQUIRE_BEHAVIOR=true\<close>.
\<close>

section \<open>Data\<close>

datatype soft_kind = Note_inapplicable | Note_skipped | Note_blocked

record skip_note =
  nt_kind :: soft_kind
  nt_reason :: string
  nt_seq :: nat
  nt_conclusive :: bool

record skip_state =
  sk_notes :: "(string \<times> skip_note list) list"
  sk_seq :: nat

record noted =
  nd_kind :: soft_kind
  nd_reason :: string
  nd_conclusive :: bool

datatype skip_error = Not_observable string

definition unclassified_return_detail :: string where
  "unclassified_return_detail =
     ''every test returned early with zero assertions and no recorded reason : unclassified return; RFC 0148 A resolves it to blocked (add softSkip(kind, reason) at the early return)''"

definition kind_name :: "soft_kind \<Rightarrow> string" where
  "kind_name k = (case k of Note_inapplicable \<Rightarrow> ''inapplicable'' | Note_skipped \<Rightarrow> ''skipped'' | Note_blocked \<Rightarrow> ''blocked'')"

definition soft_rank :: "soft_kind \<Rightarrow> nat" where
  "soft_rank k = (case k of Note_blocked \<Rightarrow> 0 | Note_skipped \<Rightarrow> 1 | Note_inapplicable \<Rightarrow> 2)"

interpretation soft: severity soft_rank
  by unfold_locales (auto simp: soft_rank_def split: soft_kind.splits)

section \<open>Writing notes\<close>

definition path_basename :: "string \<Rightarrow> string" where
  "path_basename p = last (split_char (CHR ''/'') (rev (dropWhile (\<lambda>c. c = CHR ''/'') (rev p))))"

definition currentFile :: "string option \<Rightarrow> string option" where
  "currentFile testPath = (case testPath of None \<Rightarrow> None | Some p \<Rightarrow> if p = [] then None else Some (path_basename p))"

definition notes_for :: "skip_state \<Rightarrow> string \<Rightarrow> skip_note list" where
  "notes_for st file = (case map_of (sk_notes st) file of None \<Rightarrow> [] | Some ns \<Rightarrow> ns)"

definition push_note :: "string \<Rightarrow> soft_kind \<Rightarrow> string \<Rightarrow> bool \<Rightarrow> skip_state \<Rightarrow> skip_state" where
  "push_note file k reason conclusive st =
     (let n = \<lparr>nt_kind = k, nt_reason = reason, nt_seq = Suc (sk_seq st), nt_conclusive = conclusive\<rparr>
      in \<lparr>sk_notes = AList.update file (notes_for st file @ [n]) (sk_notes st), sk_seq = Suc (sk_seq st)\<rparr>)"

definition softSkip :: "string option \<Rightarrow> soft_kind \<Rightarrow> string \<Rightarrow> skip_state \<Rightarrow> skip_state" where
  "softSkip testPath k reason st =
     (case currentFile testPath of None \<Rightarrow> st | Some file \<Rightarrow> push_note file k reason False st)"

definition seamAbsent :: "bool \<Rightarrow> string option \<Rightarrow> string \<Rightarrow> skip_state \<Rightarrow> skip_error + skip_state" where
  "seamAbsent strict testPath reason st =
     (if strict then Inl (Not_observable reason) else Inr (softSkip testPath Note_blocked reason st))"

definition blockedDespiteAssertions :: "string option \<Rightarrow> string \<Rightarrow> skip_state \<Rightarrow> skip_state" where
  "blockedDespiteAssertions testPath reason st =
     (case currentFile testPath of None \<Rightarrow> st | Some file \<Rightarrow> push_note file Note_blocked reason True st)"

definition seamAbsentDespiteAssertions :: "bool \<Rightarrow> string option \<Rightarrow> string \<Rightarrow> skip_state \<Rightarrow> skip_error + skip_state" where
  "seamAbsentDespiteAssertions strict testPath reason st =
     (if strict then Inl (Not_observable reason) else Inr (blockedDespiteAssertions testPath reason st))"

definition resetSoftSkips :: "skip_state \<Rightarrow> skip_state" where
  "resetSoftSkips st = \<lparr>sk_notes = [], sk_seq = 0\<rparr>"

section \<open>Folding notes\<close>

definition same_note :: "skip_note \<Rightarrow> skip_note \<Rightarrow> bool" where
  "same_note u n = (nt_kind u = nt_kind n \<and> nt_reason u = nt_reason n)"

definition add_uniq :: "skip_note list \<Rightarrow> skip_note \<Rightarrow> skip_note list" where
  "add_uniq us n = (if \<exists>u \<in> set us. same_note u n then us else us @ [n])"

definition uniq_notes :: "skip_note list \<Rightarrow> skip_note list" where
  "uniq_notes arr = foldl add_uniq [] arr"

definition kind_le :: "skip_note \<Rightarrow> skip_note \<Rightarrow> bool" where
  "kind_le a b = (soft_rank (nt_kind a) \<le> soft_rank (nt_kind b))"

definition fold_notes :: "skip_note list \<Rightarrow> noted option" where
  "fold_notes arr =
     (if arr = [] then None
      else
        let us = uniq_notes arr;
            kind = nt_kind (hd (sort_by kind_le us));
            reason = join ''; '' (map (\<lambda>n. if 1 < length us then ''['' @ kind_name (nt_kind n) @ ''] '' @ nt_reason n else nt_reason n) us)
        in Some \<lparr>nd_kind = kind, nd_reason = reason, nd_conclusive = (\<exists>u \<in> set us. nt_conclusive u)\<rparr>)"

definition softSkipDisposition :: "skip_state \<Rightarrow> string \<Rightarrow> noted option" where
  "softSkipDisposition st file = fold_notes (notes_for st file)"

definition softSkipMark :: "skip_state \<Rightarrow> nat" where
  "softSkipMark st = sk_seq st"

definition softSkipDispositionSince :: "skip_state \<Rightarrow> string \<Rightarrow> nat \<Rightarrow> noted option" where
  "softSkipDispositionSince st file mark = fold_notes (filter (\<lambda>n. mark < nt_seq n) (notes_for st file))"

section \<open>Sequences of calls\<close>

text \<open>A call that throws leaves the notes as they are.\<close>

datatype skip_call =
    Call_softSkip soft_kind string
  | Call_seamAbsent string
  | Call_blockedDespite string
  | Call_seamAbsentDespite string

definition run_call :: "bool \<Rightarrow> skip_state \<Rightarrow> string option \<times> skip_call \<Rightarrow> skip_state" where
  "run_call strict st c =
     (case c of
        (p, Call_softSkip k r) \<Rightarrow> softSkip p k r st
      | (p, Call_seamAbsent r) \<Rightarrow> (case seamAbsent strict p r st of Inl _ \<Rightarrow> st | Inr st' \<Rightarrow> st')
      | (p, Call_blockedDespite r) \<Rightarrow> blockedDespiteAssertions p r st
      | (p, Call_seamAbsentDespite r) \<Rightarrow> (case seamAbsentDespiteAssertions strict p r st of Inl _ \<Rightarrow> st | Inr st' \<Rightarrow> st'))"

text \<open>What a call notes: the specification, without the state.\<close>

definition call_notes :: "bool \<Rightarrow> string \<Rightarrow> string option \<times> skip_call \<Rightarrow> (soft_kind \<times> string \<times> bool) list" where
  "call_notes strict file c =
     (if currentFile (fst c) \<noteq> Some file then []
      else case snd c of
        Call_softSkip k r \<Rightarrow> [(k, r, False)]
      | Call_seamAbsent r \<Rightarrow> if strict then [] else [(Note_blocked, r, False)]
      | Call_blockedDespite r \<Rightarrow> [(Note_blocked, r, True)]
      | Call_seamAbsentDespite r \<Rightarrow> if strict then [] else [(Note_blocked, r, True)])"

definition note_body :: "skip_note \<Rightarrow> soft_kind \<times> string \<times> bool" where
  "note_body n = (nt_kind n, nt_reason n, nt_conclusive n)"

definition body_note :: "soft_kind \<times> string \<times> bool \<Rightarrow> skip_note" where
  "body_note b = (case b of (k, r, c) \<Rightarrow> \<lparr>nt_kind = k, nt_reason = r, nt_seq = 0, nt_conclusive = c\<rparr>)"

text \<open>Sequence numbers never exceed the counter.\<close>

definition notes_ok :: "skip_state \<Rightarrow> bool" where
  "notes_ok st = (\<forall>(f, ns) \<in> set (sk_notes st). \<forall>n \<in> set ns. nt_seq n \<le> sk_seq st)"

lemma notes_ok_reset [inv_intros]: "notes_ok (resetSoftSkips st)"
  by (simp add: notes_ok_def resetSoftSkips_def)

lemma notes_ok_le: "notes_ok st \<Longrightarrow> n \<in> set (notes_for st f) \<Longrightarrow> nt_seq n \<le> sk_seq st"
proof (cases "map_of (sk_notes st) f")
  case (Some ns)
  assume "notes_ok st" and "n \<in> set (notes_for st f)"
  with Some map_of_SomeD [OF Some] show ?thesis by (auto simp: notes_ok_def notes_for_def)
qed (simp add: notes_for_def)

lemma update_entry: "(a, b) \<in> set (AList.update k v m) \<Longrightarrow> (a, b) = (k, v) \<or> (a, b) \<in> set m"
  by (induction m) (auto split: if_splits)

lemma notes_ok_push [inv_intros]: "notes_ok st \<Longrightarrow> notes_ok (push_note file k r c st)"
  unfolding notes_ok_def push_note_def Let_def
  by (fastforce dest!: update_entry dest: notes_ok_le [unfolded notes_ok_def] simp: le_Suc_eq)

lemma call_cases:
  "run_call strict st c = st \<and> (\<forall>f. call_notes strict f c = []) \<or>
   (\<exists>file k r b. run_call strict st c = push_note file k r b st \<and>
      (\<forall>f. call_notes strict f c = (if f = file then [(k, r, b)] else [])))"
  by (cases c; cases "snd c"; cases "currentFile (fst c)")
    (auto simp: run_call_def call_notes_def softSkip_def seamAbsent_def blockedDespiteAssertions_def
      seamAbsentDespiteAssertions_def)

lemma notes_ok_call [inv_intros]: "notes_ok st \<Longrightarrow> notes_ok (run_call strict st c)"
  using call_cases [of strict st c] notes_ok_push by metis

lemma notes_ok_calls [inv_intros]: "notes_ok st \<Longrightarrow> notes_ok (foldl (run_call strict) st cs)"
  by (induction cs arbitrary: st) (auto intro: inv_intros)

lemma notes_for_push:
  "notes_for (push_note file k r b st) f =
     notes_for st f @ (if f = file then [\<lparr>nt_kind = k, nt_reason = r, nt_seq = Suc (sk_seq st), nt_conclusive = b\<rparr>] else [])"
  by (simp add: notes_for_def push_note_def)

lemma call_seq_mono: "sk_seq st \<le> sk_seq (run_call strict st c)"
  using call_cases [of strict st c] by (auto simp: push_note_def)

lemma window_call:
  assumes "mark \<le> sk_seq st"
  shows "map note_body (filter (\<lambda>n. mark < nt_seq n) (notes_for (run_call strict st c) f)) =
         map note_body (filter (\<lambda>n. mark < nt_seq n) (notes_for st f)) @ call_notes strict f c"
  using call_cases [of strict st c] assms
  by (auto simp: notes_for_push note_body_def)

lemma window_calls:
  "mark \<le> sk_seq st \<Longrightarrow>
   map note_body (filter (\<lambda>n. mark < nt_seq n) (notes_for (foldl (run_call strict) st cs) f)) =
   map note_body (filter (\<lambda>n. mark < nt_seq n) (notes_for st f)) @ concat (map (call_notes strict f) cs)"
proof (induction cs arbitrary: st)
  case (Cons c cs)
  have "mark \<le> sk_seq (run_call strict st c)"
    using Cons.prems call_seq_mono le_trans by blast
  from Cons.IH [OF this] show ?case
    by (simp add: window_call [OF Cons.prems])
qed simp

text \<open>The fold does not look at sequence numbers.\<close>

definition unseq :: "skip_note \<Rightarrow> skip_note" where
  "unseq n = n\<lparr>nt_seq := 0\<rparr>"

lemma unseq_simps [simp]:
  "nt_kind (unseq n) = nt_kind n" "nt_reason (unseq n) = nt_reason n" "nt_conclusive (unseq n) = nt_conclusive n"
  by (simp_all add: unseq_def)

lemma unseq_body: "unseq n = body_note (note_body n)"
  by (cases n) (simp add: unseq_def body_note_def note_body_def)

lemma map_unseq: "map unseq ns = map body_note (map note_body ns)"
  by (simp add: unseq_body)

lemma add_uniq_unseq: "add_uniq (map unseq us) (unseq n) = map unseq (add_uniq us n)"
  by (simp add: add_uniq_def same_note_def)

lemma uniq_notes_unseq: "uniq_notes (map unseq arr) = map unseq (uniq_notes arr)"
proof -
  have "foldl add_uniq (map unseq us) (map unseq arr) = map unseq (foldl add_uniq us arr)" for us
    by (induction arr arbitrary: us) (simp_all add: add_uniq_unseq)
  from this [of "[]"] show ?thesis by (simp add: uniq_notes_def)
qed

lemma add_uniq_keeps: "add_uniq us n \<noteq> [] \<and> set us \<subseteq> set (add_uniq us n)"
  by (auto simp: add_uniq_def)

lemma uniq_notes_Nil [simp]: "uniq_notes arr = [] \<longleftrightarrow> arr = []"
proof -
  have "foldl add_uniq us arr = [] \<longleftrightarrow> us = [] \<and> arr = []" for us
    using add_uniq_keeps by (induction arr arbitrary: us) auto
  then show ?thesis by (simp add: uniq_notes_def)
qed

lemma uniq_notes_kinds: "nt_kind ` set (uniq_notes arr) = nt_kind ` set arr"
proof -
  have step: "nt_kind ` set (add_uniq us n) = insert (nt_kind n) (nt_kind ` set us)" for us n
  proof (cases "\<exists>u \<in> set us. same_note u n")
    case True
    then have "nt_kind n \<in> nt_kind ` set us"
      unfolding same_note_def by (metis image_eqI)
    with True show ?thesis by (simp add: add_uniq_def insert_absorb)
  next
    case False
    then show ?thesis by (auto simp: add_uniq_def)
  qed
  have "nt_kind ` set (foldl add_uniq us arr) = nt_kind ` set us \<union> nt_kind ` set arr" for us
    by (induction arr arbitrary: us) (simp_all add: step)
  from this [of "[]"] show ?thesis by (simp add: uniq_notes_def)
qed

lemma fold_notes_None [simp]: "fold_notes arr = None \<longleftrightarrow> arr = []"
  by (simp add: fold_notes_def Let_def)

lemma fold_notes_unseq: "fold_notes (map unseq arr) = fold_notes arr"
proof (cases "arr = []")
  case False
  have le: "(\<lambda>a b. kind_le (unseq a) (unseq b)) = kind_le"
    by (simp add: kind_le_def fun_eq_iff)
  have "nt_kind (hd (map unseq (sort_by kind_le (uniq_notes arr)))) = nt_kind (hd (sort_by kind_le (uniq_notes arr)))"
    using False by (simp add: hd_map)
  with False show ?thesis
    by (simp add: fold_notes_def Let_def uniq_notes_unseq sort_by_map le comp_def cong: if_cong)
qed simp

lemma fold_notes_kind:
  assumes "fold_notes arr = Some d"
  shows "nd_kind d = foldl (worse soft_rank) Note_inapplicable (map nt_kind arr)"
proof (rule soft.foldl_worse_unique [symmetric])
  let ?sorted = "sort_by kind_le (uniq_notes arr)"
  have ne: "arr \<noteq> []" and d: "nd_kind d = nt_kind (hd ?sorted)"
    using assms by (auto simp: fold_notes_def Let_def split: if_splits)
  then have mem: "hd ?sorted \<in> set (uniq_notes arr)"
    by (metis list.set_sel(1) set_sort_by sort_by_empty_iff uniq_notes_Nil)
  then have "nd_kind d \<in> nt_kind ` set arr"
    using d uniq_notes_kinds by (metis image_eqI)
  then show "nd_kind d \<in> insert Note_inapplicable (set (map nt_kind arr))" by simp
  have "sorted (map (soft_rank \<circ> nt_kind) ?sorted)"
    by (rule sort_by_rank) (auto simp: kind_le_def)
  then have least: "soft_rank (nd_kind d) \<le> soft_rank (nt_kind n)" if "n \<in> set (uniq_notes arr)" for n
  proof -
    have "n \<in> set ?sorted" using that by simp
    with \<open>sorted (map (soft_rank \<circ> nt_kind) ?sorted)\<close> show ?thesis
      unfolding d by (cases ?sorted) (auto simp del: set_sort_by)
  qed
  show "soft_rank (nd_kind d) \<le> soft_rank k" if k: "k \<in> insert Note_inapplicable (set (map nt_kind arr))" for k
  proof (cases "k \<in> nt_kind ` set (uniq_notes arr)")
    case True
    then show ?thesis using least by auto
  next
    case False
    with k have "k = Note_inapplicable" by (simp add: uniq_notes_kinds)
    then show ?thesis by (simp add: soft_rank_def split: soft_kind.splits)
  qed
qed

lemma window_of_calls:
  assumes "notes_ok st"
  shows "softSkipDispositionSince (foldl (run_call strict) st calls) file (softSkipMark st) =
         fold_notes (map body_note (concat (map (call_notes strict file) calls)))"
proof -
  let ?w = "filter (\<lambda>n. softSkipMark st < nt_seq n) (notes_for (foldl (run_call strict) st calls) file)"
  have "filter (\<lambda>n. softSkipMark st < nt_seq n) (notes_for st file) = []"
    using assms notes_ok_le by (auto simp: filter_empty_conv softSkipMark_def not_less)
  then have "map note_body ?w = concat (map (call_notes strict file) calls)"
    using window_calls [of "softSkipMark st" st strict calls "file"] by (simp add: softSkipMark_def)
  then have "map body_note (concat (map (call_notes strict file) calls)) = map unseq ?w"
    by (metis map_unseq)
  then show ?thesis
    by (simp add: softSkipDispositionSince_def fold_notes_unseq)
qed

text \<open>
  The note disposition a test is given at its end is the fold of exactly the notes its own
  calls wrote: whatever the notes before the mark, and however many calls other files make in
  between, \<open>softSkipDispositionSince\<close> sees the calls made for its file after the mark, in order,
  and nothing else.
\<close>

theorem window_is_own_notes:
  assumes "notes_ok st"
  shows "softSkipDispositionSince (foldl (run_call strict) st calls) file (softSkipMark st) =
         fold_notes (map body_note (concat (map (call_notes strict file) calls)))"
  using assms by (rule window_of_calls)

theorem window_is_own_notes_witness:
  "softSkipDispositionSince
     (foldl (run_call False) (resetSoftSkips \<lparr>sk_notes = [], sk_seq = 0\<rparr>)
       [(Some ''/s/a.test.ts'', Call_softSkip Note_skipped ''no seam''), (Some ''/s/b.test.ts'', Call_blockedDespite ''x'')])
     ''a.test.ts'' (softSkipMark (resetSoftSkips \<lparr>sk_notes = [], sk_seq = 0\<rparr>)) =
   Some \<lparr>nd_kind = Note_skipped, nd_reason = ''no seam'', nd_conclusive = False\<rparr>"
  unfolding window_is_own_notes [OF notes_ok_reset] by code_simp

text \<open>
  The noted disposition of a file is the worst kind among its notes (\<open>blocked\<close> before
  \<open>skipped\<close> before \<open>inapplicable\<close>), in whatever order they were written, and there is none exactly
  when nothing was noted.
\<close>

theorem noted_kind_is_worst:
  "map_option nd_kind (softSkipDisposition st file) =
     (if notes_for st file = [] then None
      else Some (foldl (worse soft_rank) Note_inapplicable (map nt_kind (notes_for st file))))"
proof (cases "softSkipDisposition st file")
  case (Some d)
  then show ?thesis using fold_notes_kind [of "notes_for st file" d]
    by (auto simp: softSkipDisposition_def fold_notes_def)
qed (simp add: softSkipDisposition_def)

text \<open>
  A \<open>blockedDespiteAssertions\<close> whose reason an earlier \<open>blocked\<close> note of the same test
  already gave loses its force: the fold keeps the first of two notes with equal kind and reason,
  and with it the flag of the first.
\<close>

theorem conclusive_note_lost:
  assumes "notes_ok st" and "currentFile p = Some file"
  shows "softSkipDispositionSince
           (foldl (run_call strict) st [(p, Call_softSkip Note_blocked r), (p, Call_blockedDespite r)]) file (softSkipMark st) =
         Some \<lparr>nd_kind = Note_blocked, nd_reason = r, nd_conclusive = False\<rparr>"
  unfolding window_of_calls [OF assms(1)]
  using assms(2) by (simp add: call_notes_def body_note_def fold_notes_def uniq_notes_def add_uniq_def same_note_def)

theorem conclusive_note_lost_witness:
  "softSkipDispositionSince
     (foldl (run_call False) (resetSoftSkips \<lparr>sk_notes = [], sk_seq = 0\<rparr>)
        [(Some ''/s/a.test.ts'', Call_softSkip Note_blocked ''no read surface''),
         (Some ''/s/a.test.ts'', Call_blockedDespite ''no read surface'')]) ''a.test.ts''
     (softSkipMark (resetSoftSkips \<lparr>sk_notes = [], sk_seq = 0\<rparr>)) =
   Some \<lparr>nd_kind = Note_blocked, nd_reason = ''no read surface'', nd_conclusive = False\<rparr>"
  by (rule conclusive_note_lost [OF notes_ok_reset]) code_simp

end
