(* ===== verification/Bundle_V2.thy ===== *)
theory Bundle_V2
  imports Profiles Evidence Ledger Soft_Skip
begin

text \<open>
  Consumer-side verification of a version 2 certification bundle (\<open>verifyBundleV2\<close> of
  \<open>certification-bundle-verify.ts\<close>). The human-readable detail of a rejection is not modelled; its
  kind, profile and requirement are. The document the secret scan walks is the bundle as parsed.
\<close>

section \<open>Data\<close>

record bundle_row =
  br_requirementId :: string
  br_scenarioId :: string
  br_disposition :: string
  br_assertionCount :: "int option"
  br_detail :: "string option"

record totals =
  tt_executedPass :: int
  tt_executedFail :: int
  tt_skipped :: int
  tt_inapplicable :: int
  tt_blocked :: int

record bundle_v2 =
  b2_bundleVersion :: string
  b2_document :: discovery
  b2_claimedProfiles :: "string list"
  b2_totals :: "totals option"
  b2_requirements :: "bundle_row list"
  b2_json :: json

datatype rejection_kind =
    NotV2 | UnknownDisposition | DuplicateRequirement | TotalsMismatch | ReasonMissing | SecretCanary
  | UnwitnessedRequirement | VacuousPass

record bundle_rejection =
  rj_kind :: rejection_kind
  rj_profile :: "string option"
  rj_requirementId :: "string option"

record profile_verdict_v2 =
  pv2_profile :: string
  pv2_derivable :: bool
  pv2_floorUnspecified :: bool
  pv2_required :: "string list"
  pv2_rejections :: "bundle_rejection list"
  pv2_notCertifiable :: "string list"
  pv2_evidenceValid :: bool
  pv2_certified :: bool

record verdict_v2 =
  v2_evidenceValid :: bool
  v2_certified :: bool
  v2_rejections :: "bundle_rejection list"
  v2_profiles :: "profile_verdict_v2 list"

definition bundle_wide :: "rejection_kind \<Rightarrow> string option \<Rightarrow> bundle_rejection" where
  "bundle_wide k i = \<lparr>rj_kind = k, rj_profile = None, rj_requirementId = i\<rparr>"

definition scoped :: "rejection_kind \<Rightarrow> string \<Rightarrow> string \<Rightarrow> bundle_rejection" where
  "scoped k p i = \<lparr>rj_kind = k, rj_profile = Some p, rj_requirementId = Some i\<rparr>"

section \<open>Rows\<close>

definition isWitnessedPass :: "bundle_row \<Rightarrow> bool" where
  "isWitnessedPass r =
     (br_disposition r = ''executed-pass'' \<and> (case br_assertionCount r of None \<Rightarrow> False | Some n \<Rightarrow> 0 < n))"

definition isUnclassifiedReturn :: "bundle_row \<Rightarrow> bool" where
  "isUnclassifiedReturn r = (br_disposition r = ''blocked'' \<and> br_detail r = Some unclassified_return_detail)"

definition row_rejections :: "bundle_row \<Rightarrow> bundle_rejection list" where
  "row_rejections r =
     (if br_disposition r \<notin> disposition_name ` set dispositions
      then [bundle_wide UnknownDisposition (Some (br_requirementId r))] else []) @
     (if br_disposition r \<noteq> ''executed-pass'' \<and> (case br_detail r of None \<Rightarrow> True | Some d \<Rightarrow> js_trim d = [])
      then [bundle_wide ReasonMissing (Some (br_requirementId r))] else [])"

definition rows_of :: "bundle_row list \<Rightarrow> string \<Rightarrow> bundle_row list" where
  "rows_of rows i = filter (\<lambda>r. br_requirementId r = i) rows"

definition first_row :: "bundle_row list \<Rightarrow> string \<Rightarrow> bundle_row option" where
  "first_row rows i = (case rows_of rows i of [] \<Rightarrow> None | r # _ \<Rightarrow> Some r)"

definition duplicate_rejections :: "bundle_row list \<Rightarrow> bundle_rejection list" where
  "duplicate_rejections rows =
     map (\<lambda>i. bundle_wide DuplicateRequirement (Some i))
       (filter (\<lambda>i. 1 < length (rows_of rows i)) (uniq (map br_requirementId rows)))"

definition count_rows :: "bundle_row list \<Rightarrow> string \<Rightarrow> int" where
  "count_rows rows d = int (length (filter (\<lambda>r. br_disposition r = d) rows))"

definition expected_totals :: "bundle_row list \<Rightarrow> totals" where
  "expected_totals rows =
     \<lparr>tt_executedPass = count_rows rows ''executed-pass'', tt_executedFail = count_rows rows ''executed-fail'',
      tt_skipped = count_rows rows ''skipped'', tt_inapplicable = count_rows rows ''inapplicable'',
      tt_blocked = count_rows rows ''blocked''\<rparr>"

definition totals_rejections :: "totals option \<Rightarrow> bundle_row list \<Rightarrow> bundle_rejection list" where
  "totals_rejections t rows =
     (case t of
        None \<Rightarrow> []
      | Some t \<Rightarrow>
          let e = expected_totals rows in
          map (\<lambda>_. bundle_wide TotalsMismatch None)
            (filter id [tt_executedPass t \<noteq> tt_executedPass e, tt_executedFail t \<noteq> tt_executedFail e,
                        tt_skipped t \<noteq> tt_skipped e, tt_inapplicable t \<noteq> tt_inapplicable e, tt_blocked t \<noteq> tt_blocked e]))"

definition canary_rejections :: "json \<Rightarrow> bundle_rejection list" where
  "canary_rejections v = map (\<lambda>_. bundle_wide SecretCanary None) (findLiteral v conformance_secret_canary)"

section \<open>One profile\<close>

text \<open>What one required item contributes: a rejection, an item that is not certifiable, or nothing.\<close>

datatype item_outcome = Rejected bundle_rejection | NotCertifiable string | ItemHolds

definition certifiable_name :: "string \<Rightarrow> bool" where
  "certifiable_name d = (d \<in> disposition_name ` set certifiable_dispositions)"

definition check_file :: "bundle_row list \<Rightarrow> string \<Rightarrow> string \<Rightarrow> item_outcome" where
  "check_file rows profile file =
     (let i = requirementIdForScenario (scenarioBasename file) in
      case first_row rows i of
        None \<Rightarrow> Rejected (scoped UnwitnessedRequirement profile i)
      | Some r \<Rightarrow>
          if br_disposition r = ''executed-pass'' \<and> \<not> isWitnessedPass r then Rejected (scoped VacuousPass profile i)
          else if isUnclassifiedReturn r then Rejected (scoped UnwitnessedRequirement profile i)
          else if \<not> certifiable_name (br_disposition r) then NotCertifiable i else ItemHolds)"

definition check_prefix :: "bundle_row list \<Rightarrow> string \<Rightarrow> string \<Rightarrow> item_outcome" where
  "check_prefix rows profile prefix' =
     (let i = requirementIdForPrefix prefix';
          matching = filter (\<lambda>r. starts_with prefix' (scenarioBasename (br_scenarioId r)) \<and> br_requirementId r \<noteq> i) rows;
          considered = (if matching \<noteq> [] then matching else (case first_row rows i of None \<Rightarrow> [] | Some r \<Rightarrow> [r]))
      in if considered = [] then Rejected (scoped UnwitnessedRequirement profile i)
         else if \<exists>r \<in> set considered. (br_disposition r = ''executed-pass'' \<and> \<not> isWitnessedPass r) \<or> isUnclassifiedReturn r
         then Rejected (scoped VacuousPass profile i)
         else if \<not> (\<exists>r \<in> set considered. isWitnessedPass r) then NotCertifiable i else ItemHolds)"

definition check_group :: "bundle_row list \<Rightarrow> string \<Rightarrow> string list \<Rightarrow> item_outcome" where
  "check_group rows profile alts =
     (let i = requirementIdForAnyOf alts;
          members = List.map_filter (\<lambda>f. first_row rows (requirementIdForScenario (scenarioBasename f))) alts;
          considered = (case first_row rows i of Some r \<Rightarrow> [r] | None \<Rightarrow> members)
      in if considered = [] then Rejected (scoped UnwitnessedRequirement profile i)
         else if \<exists>r \<in> set considered. br_disposition r = ''executed-pass'' \<and> \<not> isWitnessedPass r
         then Rejected (scoped VacuousPass profile i)
         else if (\<exists>r \<in> set considered. br_disposition r = ''executed-fail'') \<or> \<not> (\<exists>r \<in> set considered. isWitnessedPass r)
         then NotCertifiable i else ItemHolds)"

definition rejections_of :: "item_outcome list \<Rightarrow> bundle_rejection list" where
  "rejections_of os = List.map_filter (\<lambda>x. case x of Rejected r \<Rightarrow> Some r | _ \<Rightarrow> None) os"

definition not_certifiable_of :: "item_outcome list \<Rightarrow> string list" where
  "not_certifiable_of os = List.map_filter (\<lambda>x. case x of NotCertifiable i \<Rightarrow> Some i | _ \<Rightarrow> None) os"

definition profile_outcomes :: "bundle_row list \<Rightarrow> string \<Rightarrow> profile_floor \<Rightarrow> string list \<Rightarrow> item_outcome list" where
  "profile_outcomes rows profile f fs =
     map (check_file rows profile) fs @ map (check_prefix rows profile) (pf_requiredAnyPrefix f) @
     map (check_group rows profile) (pf_requiredAnyOf f)"

definition unspecified_verdict :: "string \<Rightarrow> bool \<Rightarrow> profile_verdict_v2" where
  "unspecified_verdict profile derivable =
     \<lparr>pv2_profile = profile, pv2_derivable = derivable, pv2_floorUnspecified = True, pv2_required = [],
      pv2_rejections = [], pv2_notCertifiable = [], pv2_evidenceValid = True, pv2_certified = False\<rparr>"

definition verify_profile :: "bundle_v2 \<Rightarrow> string \<Rightarrow> js_exception + profile_verdict_v2" where
  "verify_profile b profile =
     (let derivable = profileDerivable None (b2_document b) profile 1; rows = b2_requirements b in
      ebind (floor_lookup profile) (\<lambda>entry.
      ebind (floorFilesFor profile (Some (b2_document b))) (\<lambda>files. Inr
        (case (entry, files) of
           (Some f, Some fs) \<Rightarrow>
             let outcomes = profile_outcomes rows profile f fs;
                 required = map (\<lambda>x. requirementIdForScenario (scenarioBasename x)) fs @
                            map requirementIdForPrefix (pf_requiredAnyPrefix f) @ map requirementIdForAnyOf (pf_requiredAnyOf f);
                 rej = rejections_of outcomes; notCert = not_certifiable_of outcomes
             in \<lparr>pv2_profile = profile, pv2_derivable = derivable, pv2_floorUnspecified = False, pv2_required = required,
                 pv2_rejections = rej, pv2_notCertifiable = notCert, pv2_evidenceValid = (rej = []),
                 pv2_certified = (derivable \<and> rej = [] \<and> notCert = [] \<and> (pf_discoveryOnly f \<or> required \<noteq> []))\<rparr>
         | _ \<Rightarrow> unspecified_verdict profile derivable))))"

definition verifyBundleV2 :: "bundle_v2 \<Rightarrow> js_exception + verdict_v2" where
  "verifyBundleV2 b =
     (let rows = b2_requirements b;
          rejections = (if b2_bundleVersion b \<noteq> ''2'' then [bundle_wide NotV2 None] else []) @
            concat (map row_rejections rows) @ duplicate_rejections rows @ totals_rejections (b2_totals b) rows @
            canary_rejections (b2_json b)
      in ebind (emap (verify_profile b) (b2_claimedProfiles b)) (\<lambda>profiles.
           let valid = (rejections = [] \<and> list_all pv2_evidenceValid profiles)
           in Inr \<lparr>v2_evidenceValid = valid,
                   v2_certified = (valid \<and> profiles \<noteq> [] \<and> list_all pv2_certified profiles),
                   v2_rejections = rejections, v2_profiles = profiles\<rparr>))"

section \<open>What certification rests on\<close>

text \<open>The specification: what the rows of a certified profile witness.\<close>

definition file_witnessed :: "bundle_row list \<Rightarrow> string \<Rightarrow> bool" where
  "file_witnessed rows f =
     (\<exists>r \<in> set rows. br_requirementId r = requirementIdForScenario (scenarioBasename f) \<and>
        (isWitnessedPass r \<or> br_disposition r \<in> {''skipped'', ''inapplicable''}))"

definition prefix_witnessed :: "bundle_row list \<Rightarrow> string \<Rightarrow> bool" where
  "prefix_witnessed rows p =
     (\<exists>r \<in> set rows. isWitnessedPass r \<and>
        (starts_with p (scenarioBasename (br_scenarioId r)) \<or> br_requirementId r = requirementIdForPrefix p))"

definition group_witnessed :: "bundle_row list \<Rightarrow> string list \<Rightarrow> bool" where
  "group_witnessed rows g =
     (\<exists>r \<in> set rows. isWitnessedPass r \<and>
        (br_requirementId r = requirementIdForAnyOf g \<or>
         (\<exists>f \<in> set g. br_requirementId r = requirementIdForScenario (scenarioBasename f))))"

definition profile_witnessed :: "bundle_v2 \<Rightarrow> string \<Rightarrow> bool" where
  "profile_witnessed b p =
     (\<exists>f fs. map_of profile_floor_scenarios p = Some f \<and> floorFilesFor p (Some (b2_document b)) = Inr (Some fs) \<and>
        profileDerivable None (b2_document b) p 1 \<and>
        (pf_discoveryOnly f \<or> fs \<noteq> [] \<or> pf_requiredAnyPrefix f \<noteq> [] \<or> pf_requiredAnyOf f \<noteq> []) \<and>
        (\<forall>x \<in> set fs. file_witnessed (b2_requirements b) x) \<and>
        (\<forall>x \<in> set (pf_requiredAnyPrefix f). prefix_witnessed (b2_requirements b) x) \<and>
        (\<forall>x \<in> set (pf_requiredAnyOf f). group_witnessed (b2_requirements b) x))"

lemma first_row_in: "first_row rows i = Some r \<Longrightarrow> r \<in> set rows \<and> br_requirementId r = i"
proof -
  assume "first_row rows i = Some r"
  then have "r \<in> set (rows_of rows i)" by (auto simp: first_row_def split: list.splits)
  then show ?thesis by (simp add: rows_of_def)
qed

lemma check_file_holds: "check_file rows p f = ItemHolds \<Longrightarrow> file_witnessed rows f"
  using first_row_in
  by (fastforce simp: check_file_def file_witnessed_def Let_def certifiable_name_def certifiable_dispositions_def
      disposition_name_def split: option.splits if_splits)

lemma check_prefix_holds: "check_prefix rows p x = ItemHolds \<Longrightarrow> prefix_witnessed rows x"
  using first_row_in [of rows "requirementIdForPrefix x"]
  by (auto simp: check_prefix_def prefix_witnessed_def Let_def split: option.splits if_splits)

lemma check_group_holds: "check_group rows p g = ItemHolds \<Longrightarrow> group_witnessed rows g"
proof -
  assume h: "check_group rows p g = ItemHolds"
  let ?members = "List.map_filter (\<lambda>f. first_row rows (requirementIdForScenario (scenarioBasename f))) g"
  let ?c = "case first_row rows (requirementIdForAnyOf g) of Some r \<Rightarrow> [r] | None \<Rightarrow> ?members"
  from h obtain r where r: "r \<in> set ?c" "isWitnessedPass r"
    by (auto simp: check_group_def Let_def split: if_splits)
  have "r \<in> set rows \<and> (br_requirementId r = requirementIdForAnyOf g \<or>
      (\<exists>f \<in> set g. br_requirementId r = requirementIdForScenario (scenarioBasename f)))"
  proof (cases "first_row rows (requirementIdForAnyOf g)")
    case None
    with r(1) obtain f where "f \<in> set g" "first_row rows (requirementIdForScenario (scenarioBasename f)) = Some r"
      by (auto simp: List.map_filter_def)
    with first_row_in show ?thesis by blast
  next
    case (Some s)
    with r(1) first_row_in show ?thesis by fastforce
  qed
  with r(2) show ?thesis unfolding group_witnessed_def by blast
qed

lemma outcomes_hold:
  "rejections_of os = [] \<and> not_certifiable_of os = [] \<longleftrightarrow> (\<forall>x \<in> set os. x = ItemHolds)"
proof (induction os)
  case (Cons x os)
  then show ?case
    by (cases x) (auto simp: rejections_of_def not_certifiable_of_def map_filter_simps)
qed (simp add: rejections_of_def not_certifiable_of_def map_filter_simps)

lemma verify_profile_certified:
  assumes "verify_profile b p = Inr v" and "pv2_certified v"
  shows "profile_witnessed b p"
proof -
  obtain entry files where look: "floor_lookup p = Inr entry" and files: "floorFilesFor p (Some (b2_document b)) = Inr files"
    using assms(1) by (auto simp: verify_profile_def Let_def ebind_Inr_iff)
  obtain f fs where some: "entry = Some f" "files = Some fs"
    using assms look files
    by (cases entry; cases files) (auto simp: verify_profile_def Let_def unspecified_verdict_def)
  let ?os = "profile_outcomes (b2_requirements b) p f fs"
  have d: "profileDerivable None (b2_document b) p 1" and r: "rejections_of ?os = []" and n: "not_certifiable_of ?os = []"
    and ne: "pf_discoveryOnly f \<or> fs \<noteq> [] \<or> pf_requiredAnyPrefix f \<noteq> [] \<or> pf_requiredAnyOf f \<noteq> []"
    using assms look files some by (auto simp: verify_profile_def Let_def)
  have holds: "\<forall>x \<in> set ?os. x = ItemHolds"
    using r n outcomes_hold by blast
  have "map_of profile_floor_scenarios p = Some f"
    using look some by (auto simp: floor_lookup_def split: option.splits if_splits)
  moreover have "\<forall>x \<in> set fs. file_witnessed (b2_requirements b) x"
    using holds check_file_holds by (auto simp: profile_outcomes_def)
  moreover have "\<forall>x \<in> set (pf_requiredAnyPrefix f). prefix_witnessed (b2_requirements b) x"
    using holds check_prefix_holds by (auto simp: profile_outcomes_def)
  moreover have "\<forall>x \<in> set (pf_requiredAnyOf f). group_witnessed (b2_requirements b) x"
    using holds check_group_holds by (auto simp: profile_outcomes_def)
  ultimately show ?thesis
    using files some d ne unfolding profile_witnessed_def by blast
qed

lemma list_all2_witness: "list_all2 R xs ys \<Longrightarrow> x \<in> set xs \<Longrightarrow> \<exists>y \<in> set ys. R x y"
  by (induction rule: list_all2_induct) auto

lemma distinct_by_count:
  "(\<And>i. i \<in> f ` set xs \<Longrightarrow> length (filter (\<lambda>x. f x = i) xs) \<le> 1) \<Longrightarrow> distinct (map f xs)"
proof (induction xs)
  case (Cons x xs)
  have "f x \<notin> f ` set xs"
    using Cons.prems [of "f x"] by (auto simp: filter_empty_conv)
  moreover have "length (filter (\<lambda>y. f y = i) xs) \<le> 1" if "i \<in> f ` set xs" for i
    using Cons.prems [of i] that by (auto split: if_splits)
  ultimately show ?case using Cons.IH by simp
qed simp

lemma no_duplicate_rows: "duplicate_rejections rows = [] \<Longrightarrow> distinct (map br_requirementId rows)"
  by (rule distinct_by_count) (auto simp: duplicate_rejections_def rows_of_def filter_empty_conv not_less)

text \<open>
  Claim C19: a version 2 bundle certifies only on witnesses: when the verdict says certified, at least
  one profile is claimed, every claimed profile derives from the captured document and has a
  floor, each required file has a row that is a pass with assertions, a skip or an inapplicable,
  each prefix and each any-of alts has a pass with assertions, every requirement has one row with
  a known disposition, and the totals are those of the rows.
\<close>

theorem v2_certification_sound:
  assumes "verifyBundleV2 b = Inr v" and "v2_certified v"
  shows "b2_claimedProfiles b \<noteq> [] \<and> (\<forall>p \<in> set (b2_claimedProfiles b). profile_witnessed b p) \<and>
         distinct (map br_requirementId (b2_requirements b)) \<and>
         (\<forall>r \<in> set (b2_requirements b). br_disposition r \<in> disposition_name ` set dispositions) \<and>
         (\<forall>t. b2_totals b = Some t \<longrightarrow> t = expected_totals (b2_requirements b))"
proof -
  let ?rows = "b2_requirements b"
  from assms obtain ps where ps: "emap (verify_profile b) (b2_claimedProfiles b) = Inr ps" "ps \<noteq> []" "list_all pv2_certified ps"
    and rows: "concat (map row_rejections ?rows) = []" and dup: "duplicate_rejections ?rows = []"
    and tot: "totals_rejections (b2_totals b) ?rows = []"
    by (auto simp: verifyBundleV2_def Let_def ebind_Inr_iff simp del: concat_eq_Nil_conv split: if_splits)
  have all2: "list_all2 (\<lambda>p v. verify_profile b p = Inr v) (b2_claimedProfiles b) ps"
    using ps(1) by (simp add: emap_Inr_iff)
  then have "b2_claimedProfiles b \<noteq> []" using ps(2) by auto
  moreover have "\<forall>p \<in> set (b2_claimedProfiles b). profile_witnessed b p"
  proof
    fix p
    assume "p \<in> set (b2_claimedProfiles b)"
    with list_all2_witness [OF all2] obtain w where "w \<in> set ps" "verify_profile b p = Inr w"
      by blast
    with ps(3) verify_profile_certified show "profile_witnessed b p" by (auto simp: list_all_iff)
  qed
  moreover have "distinct (map br_requirementId ?rows)"
    using dup by (rule no_duplicate_rows)
  moreover have "\<forall>r \<in> set ?rows. br_disposition r \<in> disposition_name ` set dispositions"
    using rows by (auto simp: row_rejections_def split: if_splits)
  moreover have "\<forall>t. b2_totals b = Some t \<longrightarrow> t = expected_totals ?rows"
    using tot by (auto simp: totals_rejections_def Let_def split: if_splits)
  ultimately show ?thesis by blast
qed

text \<open>A bundle that claims the core profile of a document with it, with no rows, is certified.\<close>

definition core_document :: discovery where
  "core_document =
     [(''protocolVersion'', JStr ''1.0''), (''supportedEnvelopes'', JArr []), (''schemaVersions'', JObj []),
      (''limits'', JObj [(''clarificationRounds'', JNum 1), (''schemaRounds'', JNum 1), (''envelopesPerTurn'', JNum 1)])]"

definition core_bundle :: bundle_v2 where
  "core_bundle =
     \<lparr>b2_bundleVersion = ''2'', b2_document = core_document, b2_claimedProfiles = [''openwop-discovery-core''],
      b2_totals = None, b2_requirements = [], b2_json = JNull\<rparr>"

lemma core_document_core: "isCore core_document"
  by code_simp

lemma core_floor:
  "floor_lookup ''openwop-discovery-core'' = Inr (Some discovery_only)"
  by (simp add: floor_lookup_def profile_floor_scenarios_def)

lemma core_bundle_verdict:
  "\<exists>v. verifyBundleV2 core_bundle = Inr v \<and> v2_certified v"
proof -
  have files: "floorFilesFor ''openwop-discovery-core'' (Some core_document) = Inr (Some [])"
    by (simp add: floorFilesFor_def core_floor discovery_only_def floor_requiring_def)
  have derivable: "profileDerivable None core_document ''openwop-discovery-core'' 1"
    using core_document_core by (simp add: profileDerivable_def deriveProfiles_def push_if_def profile_names_def)
  have "verify_profile core_bundle ''openwop-discovery-core'' = Inr
      \<lparr>pv2_profile = ''openwop-discovery-core'', pv2_derivable = True, pv2_floorUnspecified = False, pv2_required = [],
       pv2_rejections = [], pv2_notCertifiable = [], pv2_evidenceValid = True, pv2_certified = True\<rparr>"
    using files derivable
    by (simp add: verify_profile_def core_bundle_def core_floor discovery_only_def floor_requiring_def profile_outcomes_def rejections_of_def
        not_certifiable_of_def map_filter_simps)
  then show ?thesis
    by (simp add: verifyBundleV2_def core_bundle_def duplicate_rejections_def totals_rejections_def canary_rejections_def findLiteral_def)
qed

theorem v2_certification_sound_witness:
  "profile_witnessed core_bundle ''openwop-discovery-core''"
proof -
  obtain v where "verifyBundleV2 core_bundle = Inr v" "v2_certified v"
    using core_bundle_verdict by blast
  from v2_certification_sound [OF this] show ?thesis by (simp add: core_bundle_def)
qed

end
