(* ===== verification/It_Ids.thy ===== *)
theory It_Ids
  imports Prelude
begin

text \<open>
  Requirement ids of single tests (\<open>requirement-ids.ts\<close>): the slug of a title, the derived id and
  the file it names, the allocator that suffixes a second id of the same title, and the explicit
  override. The allocator's map, the override and the claimed ids are one record.
\<close>

section \<open>Slugs\<close>

definition js_lower :: "char \<Rightarrow> char" where
  "js_lower c =
     (let n = of_char c :: nat in
      if (65 \<le> n \<and> n \<le> 90) \<or> (192 \<le> n \<and> n \<le> 222 \<and> n \<noteq> 215) then char_of (n + 32) else c)"

definition slug_char :: "char \<Rightarrow> bool" where
  "slug_char c = (is_lower c \<or> is_digit c)"

text \<open>\<open>replace(/[^a-z0-9]+/g, '-')\<close>; the flag says whether the run at hand has its dash already.\<close>

fun fold_runs :: "bool \<Rightarrow> string \<Rightarrow> string" where
  "fold_runs run [] = []"
| "fold_runs run (c # cs) =
     (if slug_char c then c # fold_runs False cs
      else if run then fold_runs True cs else CHR ''-'' # fold_runs True cs)"

definition is_dash :: "char \<Rightarrow> bool" where
  "is_dash c = (c = CHR ''-'')"

definition strip_end_dashes :: "string \<Rightarrow> string" where
  "strip_end_dashes s = rev (dropWhile is_dash (rev s))"

definition max_slug :: nat where
  "max_slug = 80"

definition slugTitle :: "string \<Rightarrow> string" where
  "slugTitle title =
     (let s = strip_end_dashes (dropWhile is_dash (fold_runs False (map js_lower title)));
          capped = (if max_slug < length s then strip_end_dashes (take max_slug s) else s)
      in if capped \<noteq> [] then capped else ''untitled'')"

definition fileStem :: "string \<Rightarrow> string" where
  "fileStem f = (if ends_with ''.test.ts'' f then take (length f - 8) f else f)"

definition it_id_prefix :: string where
  "it_id_prefix = ''openwop.it.''"

definition itRequirementId :: "string \<Rightarrow> string \<Rightarrow> string" where
  "itRequirementId scenarioFile title = it_id_prefix @ fileStem scenarioFile @ ''.'' @ slugTitle title"

text \<open>\<open>IT_ID_GRAMMAR\<close>, as a matcher: neither a slug nor a suffix holds a dot or a tilde.\<close>

definition slug_shape :: "string \<Rightarrow> bool" where
  "slug_shape s = (\<forall>w \<in> set (split_char (CHR ''-'') s). w \<noteq> [] \<and> list_all slug_char w)"

definition suffix_shape :: "string \<Rightarrow> bool" where
  "suffix_shape s = (case s of [] \<Rightarrow> False | d # ds \<Rightarrow> is_digit d \<and> d \<notin> {CHR ''0'', CHR ''1''} \<and> list_all is_digit ds)"

definition it_id_grammar :: "string \<Rightarrow> bool" where
  "it_id_grammar s =
     (starts_with it_id_prefix s \<and>
      (case split_char (CHR ''.'') (drop (length it_id_prefix) s) of
         [stem, t] \<Rightarrow> slug_shape stem \<and>
           (case split_char (CHR ''~'') t of
              [slug] \<Rightarrow> slug_shape slug
            | [slug, n] \<Rightarrow> slug_shape slug \<and> suffix_shape n
            | _ \<Rightarrow> False)
       | _ \<Rightarrow> False))"

section \<open>Ids back to files\<close>

definition scenarioFileOfItId :: "string \<Rightarrow> string option" where
  "scenarioFileOfItId i =
     (if \<not> starts_with it_id_prefix i then None
      else
        let rest = drop (length it_id_prefix) i in
        case index_of ''.'' rest of
          None \<Rightarrow> None
        | Some dot \<Rightarrow> if dot = 0 then None else Some (take dot rest @ ''.test.ts''))"

fun file_of_prefixed :: "string list \<Rightarrow> string \<Rightarrow> string option" where
  "file_of_prefixed [] i = None"
| "file_of_prefixed (p # ps) i =
     (if \<not> starts_with p i then file_of_prefixed ps i
      else
        let rest = drop (length p) i in
        if rest = [] \<or> starts_with ''any.'' rest then None else Some (rest @ ''.test.ts''))"

definition scenarioFileOfId :: "string \<Rightarrow> string option" where
  "scenarioFileOfId i =
     (case scenarioFileOfItId i of
        Some f \<Rightarrow> Some f
      | None \<Rightarrow> file_of_prefixed [''openwop.scenario.'', ''openwop.floor.''] i)"

section \<open>The allocator\<close>

record it_state =
  it_seen :: "(string \<times> nat) list"
  it_explicit :: "string option"
  it_claimed :: "string list"

definition suffixed :: "string \<Rightarrow> nat \<Rightarrow> string" where
  "suffixed base n = (if n = 1 then base else base @ ''~'' @ nat_digits n)"

lemma suffixed_inj: "suffixed base m = suffixed base n \<Longrightarrow> m = n"
  by (auto simp: suffixed_def dest: nat_digits_inj split: if_splits)

lemma finite_claimed: "finite {m. suffixed base m \<in> set claimed}"
proof -
  have "inj_on (suffixed base) {m. suffixed base m \<in> set claimed}"
    by (auto intro: inj_onI suffixed_inj)
  then show ?thesis
    by (rule inj_on_finite [of _ _ "set claimed"]) auto
qed

text \<open>The loop ends because the suffixed ids of one base differ and finitely many are claimed.\<close>

function next_free :: "string list \<Rightarrow> string \<Rightarrow> nat \<Rightarrow> nat" where
  "next_free claimed base n = (if suffixed base n \<in> set claimed then next_free claimed base (Suc n) else n)"
  by auto

termination
proof (relation "measure (\<lambda>(claimed, base, n). card {m. n \<le> m \<and> suffixed base m \<in> set claimed})")
  fix claimed base n
  assume "suffixed base n \<in> set claimed"
  then have "{m. Suc n \<le> m \<and> suffixed base m \<in> set claimed} \<subset> {m. n \<le> m \<and> suffixed base m \<in> set claimed}"
    by (auto simp: Suc_le_eq)
  moreover have "finite {m. n \<le> m \<and> suffixed base m \<in> set claimed}"
    by (rule finite_subset [OF _ finite_claimed [of base claimed]]) auto
  ultimately show "((claimed, base, Suc n), (claimed, base, n)) \<in>
      measure (\<lambda>(claimed, base, n). card {m. n \<le> m \<and> suffixed base m \<in> set claimed})"
    by (simp add: psubset_card_mono)
qed simp

declare next_free.simps [simp del]

definition allocate :: "string \<Rightarrow> string \<Rightarrow> it_state \<Rightarrow> string \<times> it_state" where
  "allocate scenarioFile title st =
     (let base = itRequirementId scenarioFile title;
          n = next_free (it_claimed st) base (Suc (case map_of (it_seen st) base of None \<Rightarrow> 0 | Some k \<Rightarrow> k))
      in (suffixed base n, st\<lparr>it_seen := AList.update base n (it_seen st)\<rparr>))"

definition reset_ids :: "it_state \<Rightarrow> it_state" where
  "reset_ids st = st\<lparr>it_seen := []\<rparr>"

text \<open>\<open>impl\<close> and \<open>version\<close> are the two environment variables.\<close>

definition req :: "string option \<Rightarrow> string option \<Rightarrow> string \<Rightarrow> string \<Rightarrow> string \<Rightarrow> it_state \<Rightarrow> string \<times> it_state" where
  "req impl version i specSection requirement st =
     (let named = (\<lambda>v. case v of None \<Rightarrow> ''unknown'' | Some s \<Rightarrow> js_trim s) in
      (''['' @ named impl @ ''@'' @ named version @ ''] '' @ specSection @ '': '' @ requirement,
       st\<lparr>it_explicit := Some i, it_claimed := it_claimed st @ [i]\<rparr>))"

definition takeExplicitRequirementId :: "it_state \<Rightarrow> string option \<times> it_state" where
  "takeExplicitRequirementId st = (it_explicit st, st\<lparr>it_explicit := None\<rparr>)"

section \<open>The shape of a slug\<close>

definition slug_text :: "string \<Rightarrow> bool" where
  "slug_text s = list_all (\<lambda>c. slug_char c \<or> is_dash c) s"

text \<open>No two dashes in a row.\<close>

fun no_double :: "string \<Rightarrow> bool" where
  "no_double (a # b # cs) = (\<not> (is_dash a \<and> is_dash b) \<and> no_double (b # cs))"
| "no_double cs = True"

lemma slug_char_not_dash [simp]: "slug_char c \<Longrightarrow> \<not> is_dash c"
  by (auto simp: slug_char_def is_dash_def is_lower_def is_digit_def Let_def)

lemma fold_runs_text: "slug_text (fold_runs b s)"
  by (induction b s rule: fold_runs.induct) (auto simp: slug_text_def is_dash_def)

lemma fold_runs_no_double: "no_double (fold_runs b s) \<and> (b \<longrightarrow> fold_runs b s = [] \<or> \<not> is_dash (hd (fold_runs b s)))"
proof (induction b s rule: fold_runs.induct)
  case (2 b c cs)
  have cons: "no_double (x # xs)" if "no_double xs" "xs = [] \<or> \<not> (is_dash x \<and> is_dash (hd xs))" for x xs
    using that by (cases xs) auto
  show ?case using 2 by (auto intro!: cons)
qed simp

lemma no_double_suffix: "no_double (a @ b) \<Longrightarrow> no_double b"
  by (induction a) (auto elim: no_double.elims)

lemma no_double_prefix: "no_double (a @ b) \<Longrightarrow> no_double a"
proof (induction a rule: no_double.induct)
  case (1 x y cs)
  then show ?case by simp
qed auto

lemma split_shape:
  "slug_text s \<Longrightarrow> no_double s \<Longrightarrow> s = [] \<or> \<not> is_dash (last s) \<Longrightarrow> split_char (CHR ''-'') s = w # ws \<Longrightarrow>
   list_all slug_char w \<and> (\<forall>v \<in> set ws. v \<noteq> [] \<and> list_all slug_char v) \<and> (s \<noteq> [] \<and> \<not> is_dash (hd s) \<longrightarrow> w \<noteq> [])"
proof (induction s arbitrary: w ws)
  case (Cons c cs)
  obtain u us where u: "split_char (CHR ''-'') cs = u # us"
    by (cases "split_char (CHR ''-'') cs") auto
  have cs: "slug_text cs" "no_double cs" "cs = [] \<or> \<not> is_dash (last cs)"
    using Cons.prems(1) no_double_suffix [of "[c]" cs] Cons.prems(2,3) by (auto simp: slug_text_def split: if_splits)
  note IH = Cons.IH [OF cs u]
  show ?case
  proof (cases "is_dash c")
    case True
    then have "cs \<noteq> [] \<and> \<not> is_dash (hd cs)"
      using Cons.prems(2,3) by (cases cs) auto
    moreover have "w = []" "ws = u # us"
      using True Cons.prems(4) u by (auto simp: is_dash_def)
    ultimately show ?thesis using IH True by auto
  next
    case False
    with IH Cons.prems(1,4) u show ?thesis by (auto simp: is_dash_def slug_text_def)
  qed
qed simp

lemma slug_shapeI:
  assumes "slug_text s" "no_double s" "s \<noteq> []" "\<not> is_dash (hd s)" "\<not> is_dash (last s)"
  shows "slug_shape s"
proof -
  obtain w ws where w: "split_char (CHR ''-'') s = w # ws"
    by (cases "split_char (CHR ''-'') s") auto
  from split_shape [OF assms(1,2) _ w] assms(3-5) show ?thesis
    by (auto simp: slug_shape_def w)
qed

lemma strip_end_prefix: "\<exists>t. s = strip_end_dashes s @ t"
proof -
  have "rev s = takeWhile is_dash (rev s) @ dropWhile is_dash (rev s)" by simp
  then have "s = rev (dropWhile is_dash (rev s)) @ rev (takeWhile is_dash (rev s))"
    by (metis rev_append rev_rev_ident)
  then show ?thesis unfolding strip_end_dashes_def by blast
qed

lemma strip_end_last: "strip_end_dashes s \<noteq> [] \<Longrightarrow> \<not> is_dash (last (strip_end_dashes s))"
  by (simp add: strip_end_dashes_def last_rev hd_dropWhile)

text \<open>What cutting a text at either end keeps.\<close>

definition slug_ok :: "string \<Rightarrow> bool" where
  "slug_ok s = (slug_text s \<and> no_double s \<and> (s = [] \<or> \<not> is_dash (hd s)))"

lemma slug_ok_prefix: "slug_ok (a @ b) \<Longrightarrow> slug_ok a"
  using no_double_prefix by (cases a) (auto simp: slug_ok_def slug_text_def)

lemma slug_ok_start: "slug_ok (dropWhile is_dash (fold_runs False t))"
proof -
  have "no_double (takeWhile is_dash (fold_runs False t) @ dropWhile is_dash (fold_runs False t))"
    using fold_runs_no_double by simp
  then have "no_double (dropWhile is_dash (fold_runs False t))" by (rule no_double_suffix)
  moreover have "slug_text (dropWhile is_dash (fold_runs False t))"
    using fold_runs_text [of False t] by (auto simp: slug_text_def list_all_iff dest: set_dropWhileD)
  moreover have "dropWhile is_dash (fold_runs False t) = [] \<or> \<not> is_dash (hd (dropWhile is_dash (fold_runs False t)))"
    using hd_dropWhile by blast
  ultimately show ?thesis by (simp add: slug_ok_def)
qed

lemma slug_ok_strip: "slug_ok s \<Longrightarrow> slug_ok (strip_end_dashes s)"
  using strip_end_prefix [of s] slug_ok_prefix by metis

lemma slug_ok_take: "slug_ok s \<Longrightarrow> slug_ok (take n s)"
  by (rule slug_ok_prefix [of _ "drop n s"]) simp

lemma untitled_shape: "slug_shape ''untitled'' \<and> slug_text ''untitled''"
  by code_simp

lemma slugTitle_shape: "slug_shape (slugTitle title) \<and> slug_text (slugTitle title) \<and> length (slugTitle title) \<le> 80"
proof -
  define s where "s = strip_end_dashes (dropWhile is_dash (fold_runs False (map js_lower title)))"
  define c where "c = (if max_slug < length s then strip_end_dashes (take max_slug s) else s)"
  have s: "slug_ok s" unfolding s_def by (intro slug_ok_strip slug_ok_start)
  then have ok: "slug_ok c" unfolding c_def by (auto intro: slug_ok_strip slug_ok_take)
  have end': "c = [] \<or> \<not> is_dash (last c)"
  proof (cases "max_slug < length s")
    case True
    then have "c = strip_end_dashes (take max_slug s)" by (simp add: c_def)
    with strip_end_last show ?thesis by metis
  next
    case False
    then have "c = s" by (simp add: c_def)
    moreover have "s = [] \<or> \<not> is_dash (last s)" unfolding s_def using strip_end_last by blast
    ultimately show ?thesis by simp
  qed
  have short: "length (strip_end_dashes u) \<le> length u" for u
    using length_dropWhile_le [of is_dash "rev u"] by (simp add: strip_end_dashes_def)
  have "length c \<le> 80"
  proof (cases "max_slug < length s")
    case True
    then show ?thesis using short [of "take max_slug s"] by (simp add: c_def max_slug_def)
  next
    case False
    then show ?thesis by (simp add: c_def max_slug_def)
  qed
  moreover have "slug_shape c \<and> slug_text c" if "c \<noteq> []"
    using that ok end' by (auto intro!: slug_shapeI simp: slug_ok_def)
  moreover have "slugTitle title = (if c \<noteq> [] then c else ''untitled'')"
    by (simp add: slugTitle_def Let_def c_def s_def)
  ultimately show ?thesis using untitled_shape by simp
qed

lemma slug_no_sep: "slug_text s \<Longrightarrow> CHR ''.'' \<notin> set s \<and> CHR ''~'' \<notin> set s"
  by (auto simp: slug_text_def list_all_iff slug_char_def is_dash_def is_lower_def is_digit_def Let_def)

lemma slug_shape_text: "slug_shape s \<Longrightarrow> slug_text s"
proof -
  have "slug_text (join ''-'' ws)" if "\<forall>w \<in> set ws. list_all slug_char w" for ws
    using that
  proof (induction "''-''" ws rule: join.induct)
    case (3 x v va)
    then have "slug_text (join ''-'' (v # va))" by simp
    with 3(2) show ?case by (auto simp: slug_text_def list_all_iff is_dash_def)
  qed (auto simp: slug_text_def list_all_iff)
  moreover assume "slug_shape s"
  ultimately have "slug_text (join ''-'' (split_char (CHR ''-'') s))" by (simp add: slug_shape_def)
  then show ?thesis by (simp only: join_split_char)
qed

lemma digits_no_sep: "CHR ''.'' \<notin> set (nat_digits n) \<and> CHR ''~'' \<notin> set (nat_digits n)"
  using nat_digits_digits [of n] by (auto simp: list_all_iff is_digit_def Let_def)

definition suffix_of :: "nat \<Rightarrow> string" where
  "suffix_of n = (if n = 1 then [] else ''~'' @ nat_digits n)"

lemma suffixed_eq: "suffixed base n = base @ suffix_of n"
  by (simp add: suffixed_def suffix_of_def)

lemma suffix_no_dot: "CHR ''.'' \<notin> set (suffix_of n)"
  using digits_no_sep by (simp add: suffix_of_def)

section \<open>Allocation\<close>

text \<open>What a worker does between two resets: it derives ids and claims explicit ones.\<close>

datatype it_event = Allocate string string | Claim string

fun run_events :: "it_event list \<Rightarrow> it_state \<Rightarrow> string list \<times> it_state" where
  "run_events [] st = ([], st)"
| "run_events (Allocate f t # es) st =
     (let (i, st1) = allocate f t st; (ids, st2) = run_events es st1 in (i # ids, st2))"
| "run_events (Claim i # es) st = run_events es (snd (req None None i [] [] st))"

lemma next_free_ge: "n \<le> next_free claimed base n \<and> suffixed base (next_free claimed base n) \<notin> set claimed"
proof (induction claimed base n rule: next_free.induct)
  case (1 claimed base n)
  then show ?case by (subst (1 2) next_free.simps) auto
qed

definition seen_count :: "it_state \<Rightarrow> string \<Rightarrow> nat" where
  "seen_count st base = (case map_of (it_seen st) base of None \<Rightarrow> 0 | Some k \<Rightarrow> k)"

lemma allocate_result:
  assumes "allocate f t st = (i, st')"
  shows "\<exists>n. i = suffixed (itRequirementId f t) n \<and> seen_count st (itRequirementId f t) < n \<and> i \<notin> set (it_claimed st) \<and>
    it_claimed st' = it_claimed st \<and>
    (\<forall>b. seen_count st' b = (if b = itRequirementId f t then n else seen_count st b))"
  using assms next_free_ge [of "Suc (seen_count st (itRequirementId f t))" "it_claimed st" "itRequirementId f t"]
  by (auto simp: allocate_def Let_def seen_count_def Suc_le_eq)

lemma last_dot_unique:
  assumes "a @ CHR ''.'' # s = b @ CHR ''.'' # t" and "CHR ''.'' \<notin> set s" and "CHR ''.'' \<notin> set t"
  shows "a = b \<and> s = t"
proof -
  have "takeWhile (\<lambda>c. c \<noteq> CHR ''.'') (rev (a @ CHR ''.'' # s)) = rev s" if "CHR ''.'' \<notin> set s" for a s
    using that by (simp add: takeWhile_first)
  with assms have "rev s = rev t" by metis
  with assms(1) show ?thesis by simp
qed

lemma first_tilde_unique:
  assumes "s @ suffix_of m = t @ suffix_of n" and "CHR ''~'' \<notin> set s" and "CHR ''~'' \<notin> set t"
  shows "s = t"
proof -
  have "takeWhile (\<lambda>c. c \<noteq> CHR ''~'') (s @ suffix_of m) = s" if "CHR ''~'' \<notin> set s" for s m
    using that by (simp add: suffix_of_def takeWhile_first takeWhile_none)
  with assms show ?thesis by metis
qed

lemma base_determined:
  assumes "suffixed (itRequirementId f t) m = suffixed (itRequirementId f' t') n"
  shows "itRequirementId f t = itRequirementId f' t'"
proof -
  let ?s = "slugTitle t" and ?s' = "slugTitle t'"
  have no: "CHR ''.'' \<notin> set ?s" "CHR ''~'' \<notin> set ?s" "CHR ''.'' \<notin> set ?s'" "CHR ''~'' \<notin> set ?s'"
    using slugTitle_shape slug_no_sep by blast+
  have "(it_id_prefix @ fileStem f) @ CHR ''.'' # (?s @ suffix_of m) = (it_id_prefix @ fileStem f') @ CHR ''.'' # (?s' @ suffix_of n)"
    using assms by (simp add: suffixed_eq itRequirementId_def)
  then have "it_id_prefix @ fileStem f = it_id_prefix @ fileStem f' \<and> ?s @ suffix_of m = ?s' @ suffix_of n"
    by (rule last_dot_unique) (simp_all add: no suffix_no_dot)
  with first_tilde_unique no show ?thesis by (auto simp: itRequirementId_def)
qed

lemma run_events_ids:
  "i \<in> set (fst (run_events es st)) \<Longrightarrow>
   i \<notin> set (it_claimed st) \<and> (\<exists>f t n. i = suffixed (itRequirementId f t) n \<and> seen_count st (itRequirementId f t) < n)"
proof (induction es st rule: run_events.induct)
  case (2 f t es st)
  obtain j st1 where al: "allocate f t st = (j, st1)" by fastforce
  obtain n where n: "j = suffixed (itRequirementId f t) n" "seen_count st (itRequirementId f t) < n" "j \<notin> set (it_claimed st)"
    "it_claimed st1 = it_claimed st" "\<forall>b. seen_count st1 b = (if b = itRequirementId f t then n else seen_count st b)"
    using allocate_result [OF al] by blast
  show ?case
  proof (cases "i = j")
    case True
    with n show ?thesis by blast
  next
    case False
    then have "i \<in> set (fst (run_events es st1))"
      using "2.prems" al by (auto split: prod.splits)
    with 2(1) [OF refl al [symmetric]] obtain f' t' m where
      "i \<notin> set (it_claimed st1)" "i = suffixed (itRequirementId f' t') m" "seen_count st1 (itRequirementId f' t') < m"
      by auto
    moreover from this n(2,5) have "seen_count st (itRequirementId f' t') < m" by (auto split: if_splits)
    ultimately show ?thesis using n(4) by metis
  qed
next
  case (3 i' es st)
  then have "i \<notin> set (it_claimed (snd (req None None i' [] [] st)))" and
    "\<exists>f t n. i = suffixed (itRequirementId f t) n \<and> seen_count (snd (req None None i' [] [] st)) (itRequirementId f t) < n"
    by auto
  then show ?case by (simp add: req_def Let_def seen_count_def)
qed simp

lemma run_events_distinct: "distinct (fst (run_events es st))"
proof (induction es st rule: run_events.induct)
  case (2 f t es st)
  obtain j st1 where al: "allocate f t st = (j, st1)" by fastforce
  obtain n where n: "j = suffixed (itRequirementId f t) n" "\<forall>b. seen_count st1 b = (if b = itRequirementId f t then n else seen_count st b)"
    using allocate_result [OF al] by blast
  have "j \<notin> set (fst (run_events es st1))"
  proof
    assume "j \<in> set (fst (run_events es st1))"
    then obtain f' t' m where m: "j = suffixed (itRequirementId f' t') m" "seen_count st1 (itRequirementId f' t') < m"
      using run_events_ids by blast
    then have "itRequirementId f' t' = itRequirementId f t" using n(1) base_determined by metis
    with m n suffixed_inj show False by fastforce
  qed
  with 2 al show ?case by (auto split: prod.splits)
qed simp_all

text \<open>
  Whatever titles a worker derives ids for and whatever explicit ids it claims in between,
  the derived ids are pairwise distinct and none is an id that was already claimed: the search for
  a free suffix ends, suffixes of one base never meet those of another, and a second file cannot
  produce them either.
\<close>

theorem allocated_ids_distinct:
  "distinct (fst (run_events es st)) \<and> set (fst (run_events es st)) \<inter> set (it_claimed st) = {}"
  using run_events_distinct run_events_ids by blast

text \<open>
  The slug of any title is words of lower-case letters and digits joined by single dashes,
  at most 80 characters, and never empty.
\<close>

theorem slug_well_formed:
  "slug_shape (slugTitle title) \<and> slugTitle title \<noteq> [] \<and> length (slugTitle title) \<le> 80"
proof -
  have "slugTitle title \<noteq> []" by (simp add: slugTitle_def Let_def)
  with slugTitle_shape show ?thesis by blast
qed

lemma stem_of_file: "fileStem (stem @ ''.test.ts'') = stem"
  by (simp add: fileStem_def ends_with_iff)

lemma split_tilde_suffix: "CHR ''~'' \<notin> set s \<Longrightarrow>
  split_char (CHR ''~'') (s @ suffix_of n) = (if n = 1 then [s] else [s, nat_digits n])"
  using digits_no_sep [of n] split_char_append [of "CHR ''~''" s "nat_digits n"]
  by (simp add: suffix_of_def split_char_single)

text \<open>
  Which derived ids the published grammar accepts: exactly those of a lower-case,
  dot-free file stem whose suffix number is absent or starts with a digit from 2 to 9. The tenth to
  nineteenth test of one title in a file get ids the grammar rejects.
\<close>

theorem derived_id_grammar:
  "it_id_grammar (suffixed (itRequirementId (stem @ ''.test.ts'') title) n) \<longleftrightarrow>
     slug_shape stem \<and> \<not> (n \<noteq> 1 \<and> hd (nat_digits n) \<in> {CHR ''0'', CHR ''1''})"
proof -
  let ?t = "slugTitle title @ suffix_of n"
  let ?id = "suffixed (itRequirementId (stem @ ''.test.ts'') title) n"
  have slug: "slug_shape (slugTitle title)" "CHR ''.'' \<notin> set (slugTitle title)" "CHR ''~'' \<notin> set (slugTitle title)"
    using slugTitle_shape slug_no_sep by blast+
  have id: "?id = it_id_prefix @ stem @ CHR ''.'' # ?t"
    by (simp add: suffixed_eq itRequirementId_def stem_of_file)
  have split: "split_char (CHR ''.'') (drop (length it_id_prefix) ?id) = split_char (CHR ''.'') stem @ [?t]"
    using slug(2) suffix_no_dot by (simp add: id split_char_append split_char_single)
  have suf: "suffix_shape (nat_digits n) \<longleftrightarrow> hd (nat_digits n) \<notin> {CHR ''0'', CHR ''1''}"
    using nat_digits_nonempty [of n] nat_digits_digits [of n]
    by (cases "nat_digits n") (auto simp: suffix_shape_def)
  show ?thesis
  proof (cases "CHR ''.'' \<in> set stem")
    case True
    then obtain a b where "stem = a @ CHR ''.'' # b" by (meson split_list)
    then have "length (split_char (CHR ''.'') stem) \<ge> 2"
      using split_char_nonempty [of "CHR ''.''" a] split_char_nonempty [of "CHR ''.''" b]
      by (cases "split_char (CHR ''.'') a"; cases "split_char (CHR ''.'') b") (simp_all add: split_char_append)
    then obtain x y zs where "split_char (CHR ''.'') stem = x # y # zs"
      by (metis Suc_le_length_iff numeral_2_eq_2)
    with split have "\<not> it_id_grammar ?id" by (cases zs) (simp_all add: it_id_grammar_def)
    moreover have "\<not> slug_shape stem" using True slug_shape_text slug_no_sep by blast
    ultimately show ?thesis by simp
  next
    case False
    then have "split_char (CHR ''.'') stem = [stem]" by (rule split_char_single)
    with split slug suf show ?thesis
      by (simp add: it_id_grammar_def id split_tilde_suffix)
  qed
qed

lemma index_of_dot: "CHR ''.'' \<notin> set a \<Longrightarrow> index_of ''.'' (a @ CHR ''.'' # b) = Some (length a)"
  by (induction a) (auto simp: starts_with_def)

text \<open>
  A derived id names the file up to the FIRST dot of the stem: it leads back to its own
  scenario file exactly when the stem has no dot, and for a stem with one it names another file.
\<close>

theorem derived_id_file:
  assumes "stem \<noteq> []" and "hd stem \<noteq> CHR ''.''"
  shows "scenarioFileOfItId (suffixed (itRequirementId (stem @ ''.test.ts'') title) n) =
         Some (takeWhile (\<lambda>c. c \<noteq> CHR ''.'') stem @ ''.test.ts'')"
proof -
  define head where "head = takeWhile (\<lambda>c. c \<noteq> CHR ''.'') stem"
  define rest where "rest = stem @ CHR ''.'' # slugTitle title @ suffix_of n"
  have id: "suffixed (itRequirementId (stem @ ''.test.ts'') title) n = it_id_prefix @ rest"
    by (simp add: suffixed_eq itRequirementId_def stem_of_file rest_def)
  have "\<exists>b. rest = head @ CHR ''.'' # b"
  proof (cases "CHR ''.'' \<in> set stem")
    case True
    then obtain a b where ab: "stem = a @ CHR ''.'' # b" "CHR ''.'' \<notin> set a"
      by (meson split_list_first)
    then have "head = a" by (simp add: head_def takeWhile_first)
    with ab show ?thesis by (simp add: rest_def)
  next
    case False
    then have "head = stem" unfolding head_def by (rule takeWhile_none)
    then show ?thesis by (simp add: rest_def)
  qed
  then obtain b where b: "rest = head @ CHR ''.'' # b" by blast
  have "CHR ''.'' \<notin> set head" unfolding head_def by (auto dest: set_takeWhileD)
  then have "index_of ''.'' rest = Some (length head)" by (simp add: b index_of_dot)
  moreover have "head \<noteq> []" using assms by (cases stem) (auto simp: head_def)
  ultimately show ?thesis
    by (simp add: scenarioFileOfItId_def Let_def id b flip: head_def)
qed

theorem derived_id_file_witness:
  "scenarioFileOfItId (suffixed (itRequirementId (''aiEnvelope.redaction'' @ ''.test.ts'') ''the title'') 1) = Some ''aiEnvelope.test.ts''"
  by (subst derived_id_file) simp_all

end
