(* ===== verification/Disposition.thy ===== *)
theory Disposition
  imports Ledger Soft_Skip It_Ids Profiles
begin

text \<open>
  From test states to requirement dispositions (\<open>scenario-disposition.ts\<close>): the per-test and the
  per-file record of the worker, and the runner's derivation of the bundle rows and the profile
  verdicts from the report and the ledger. The corpus floors read from disk, the coherence file set,
  the collation and the installed major-2 floors are arguments. Reasons are the code's with its
  dashes and section signs written in ASCII.
\<close>

section \<open>Requirement ids of files\<close>

definition v2_floor_files :: "bool \<Rightarrow> (string \<times> string list) list \<Rightarrow> string list" where
  "v2_floor_files active corpusFloors = (if active then concat (map snd corpusFloors) else [])"

definition floorScenarioFiles :: "nat \<Rightarrow> v2_floors \<Rightarrow> (string \<times> string list) list \<Rightarrow> string list" where
  "floorScenarioFiles targetMajor v2 corpusFloors =
     uniq (concat (map (\<lambda>(p, f). floorMemberFiles f) profile_floor_scenarios) @
           v2_floor_files (targetMajor = 2 \<or> v2FloorsActive v2) corpusFloors)"

definition requirementIdForFile :: "string list \<Rightarrow> string \<Rightarrow> string" where
  "requirementIdForFile floorFiles f =
     (if f \<in> set floorFiles then requirementIdForScenario f else ''openwop.scenario.'' @ file_stem f)"

section \<open>One test\<close>

datatype test_state = Test_pass | Test_fail | Test_skip

datatype gate_reason = Gate_inapplicable | Gate_skipped

definition partial_witness_prefix :: string where
  "partial_witness_prefix = ''partial-witness: ''"

definition transport_loss_mark :: string where
  "transport_loss_mark = ''transport-loss: ''"

definition kind_disposition :: "soft_kind \<Rightarrow> disposition" where
  "kind_disposition k = (case k of Note_inapplicable \<Rightarrow> Inapplicable | Note_skipped \<Rightarrow> Skipped | Note_blocked \<Rightarrow> Blocked)"

definition reason_disposition :: "gate_reason \<Rightarrow> disposition" where
  "reason_disposition g = (case g of Gate_inapplicable \<Rightarrow> Inapplicable | Gate_skipped \<Rightarrow> Skipped)"

definition js_quote :: "string \<Rightarrow> string" where
  "js_quote s = CHR 0x22 # s @ [CHR 0x22]"

definition or_default :: "string option \<Rightarrow> string \<Rightarrow> string" where
  "or_default v d = (case v of None \<Rightarrow> d | Some s \<Rightarrow> s)"

definition from_mark :: "string \<Rightarrow> string" where
  "from_mark e = (case index_of transport_loss_mark e of None \<Rightarrow> e | Some i \<Rightarrow> drop i e)"

definition transport_loss :: "nat \<Rightarrow> string option \<Rightarrow> bool" where
  "transport_loss assertionCalls firstError =
     (assertionCalls = 0 \<and> (case firstError of None \<Rightarrow> False | Some e \<Rightarrow> has_sub transport_loss_mark e))"

definition partial_witness :: "noted \<Rightarrow> string" where
  "partial_witness n = partial_witness_prefix @ kind_name (nd_kind n) @ '': '' @ nd_reason n"

definition resolveItRecord ::
  "test_state \<Rightarrow> nat \<Rightarrow> (gate_reason \<times> string option) option \<Rightarrow> noted option \<Rightarrow> string option \<Rightarrow> bool \<Rightarrow> string option \<Rightarrow>
   disposition \<times> string option" where
  "resolveItRecord state assertionCalls gate noted firstError blockedStands testName =
     (if state = Test_fail then
        (if transport_loss assertionCalls firstError
         then (Blocked, Some (take 300 (from_mark (or_default firstError []))))
         else
           let where = (case testName of None \<Rightarrow> [] | Some t \<Rightarrow> if js_trim t = [] then [] else '' in '' @ js_quote (take 120 t))
           in (Executed_fail, Some (''the test executed and failed'' @ where @ '': '' @ take 300 (or_default firstError ''no message''))))
      else if state = Test_pass \<and> 0 < assertionCalls then
        (case noted of
           None \<Rightarrow> (Executed_pass, None)
         | Some n \<Rightarrow>
             if nd_kind n = Note_blocked \<and> (nd_conclusive n \<or> blockedStands) then (Blocked, Some (nd_reason n))
             else (Executed_pass, Some (partial_witness n)))
      else
        (case gate of
           Some (g, d) \<Rightarrow>
             (reason_disposition g, Some (or_default d (disposition_name (reason_disposition g) @ '' (gate recorded no reason)'')))
         | None \<Rightarrow>
             (case noted of
                Some n \<Rightarrow> (kind_disposition (nd_kind n), Some (nd_reason n))
              | None \<Rightarrow>
                  if state = Test_pass
                  then (Blocked, Some ''unclassified return: the test passed with zero assertions and recorded no reason : RFC 0148 A resolves it to blocked, never to a pass'')
                  else (Skipped, Some ''vitest skipped the test (ctx.skip / it.skip) without a recorded gate reason''))))"

section \<open>One file\<close>

record test_failure =
  tf_name :: string
  tf_message :: "string option"

record finished_test =
  ft_id :: string
  ft_name :: string
  ft_state :: "string option"
  ft_message :: "string option"

definition unrecorded_failure :: "finished_test \<Rightarrow> test_failure" where
  "unrecorded_failure t =
     \<lparr>tf_name = ft_name t,
      tf_message = Some (''the test or its afterEach hook failed before the runner recorded it: '' @ or_default (ft_message t) ''no message'')\<rparr>"

fun unrecordedTests :: "finished_test list \<Rightarrow> string list \<Rightarrow> test_state list \<times> test_failure list" where
  "unrecordedTests [] recordedIds = ([], [])"
| "unrecordedTests (t # ts) recordedIds =
     (let (states, failures) = unrecordedTests ts recordedIds in
      if ft_id t \<in> set recordedIds then (states, failures)
      else if ft_state t = Some ''pass'' then (Test_pass # states, failures)
      else if ft_state t = Some ''fail'' then (Test_fail # states, unrecorded_failure t # failures)
      else (states, failures))"

definition failureDetail :: "test_failure list \<Rightarrow> nat \<Rightarrow> string" where
  "failureDetail failures failedCount =
     (case failures of
        [] \<Rightarrow> nat_digits failedCount @ '' test(s) in the file failed; the runner captured no message''
      | head # _ \<Rightarrow>
          let named = join '', '' (map (\<lambda>f. js_quote (take 120 (tf_name f))) (take 3 failures));
              more = (if 3 < length failures then '' (+'' @ nat_digits (length failures - 3) @ '' more)'' else []);
              msg = (case tf_message head of None \<Rightarrow> ''no message'' | Some m \<Rightarrow> if js_trim m = [] then ''no message'' else take 400 m)
          in nat_digits (length failures) @ '' test(s) failed : '' @ named @ more @ ''; first failure: '' @ msg)"

definition lost_transport :: "test_failure \<Rightarrow> bool" where
  "lost_transport f = (case tf_message f of None \<Rightarrow> False | Some m \<Rightarrow> has_sub transport_loss_mark m)"

definition failed_count :: "test_state list \<Rightarrow> nat" where
  "failed_count states = length (filter (\<lambda>s. s = Test_fail) states)"

definition fileDisposition ::
  "test_state list \<Rightarrow> gate_reason option \<Rightarrow> nat option \<Rightarrow> test_failure list \<Rightarrow> disposition \<times> string option" where
  "fileDisposition states gateReason assertionCount failures =
     (let failed = failed_count states in
      if 0 < failed \<and> assertionCount = Some 0 \<and> length failures = failed \<and> list_all lost_transport failures
      then (Blocked, Some (''no response reached the suite in '' @ nat_digits failed @ '' test(s); first: '' @
              take 300 (from_mark (or_default (tf_message (hd failures)) []))))
      else if 0 < failed then (Executed_fail, Some (failureDetail failures failed))
      else if Test_pass \<in> set states then
        (if assertionCount = Some 0 \<and> gateReason = Some Gate_inapplicable
         then (Inapplicable, Some ''every test returned early through behaviorGate with zero assertions: profile not advertised in the captured discovery set'')
         else if assertionCount = Some 0 \<and> gateReason = Some Gate_skipped
         then (Skipped, Some ''every test returned early through behaviorGate with zero assertions: operator opted the profile or family out (OPENWOP_OPTED_OUT_PROFILES)'')
         else (Executed_pass, None))
      else if gateReason = Some Gate_inapplicable
      then (Inapplicable, Some ''every test skipped: profile not advertised in the captured discovery set (behaviorGate)'')
      else if gateReason = Some Gate_skipped
      then (Skipped, Some ''every test skipped: operator opted the profile or family out (OPENWOP_OPTED_OUT_PROFILES)'')
      else (Blocked, Some (if states = []
              then ''no test executed and no disposition recorded : unclassified return (RFC 0148 A resolves it to blocked)''
              else ''every test skipped with no recorded reason : unclassified return (RFC 0148 A resolves it to blocked)'')))"

definition spec_coherence_detail :: string where
  "spec_coherence_detail =
     ''inapplicable to any host: this scenario reads spec/v1/ to check the SPEC corpus is internally coherent and asserts nothing about a host. The published tarball does not bundle spec/v1/ (see lib/paths.ts), so it does not run here. Set OPENWOP_CONFORMANCE_ROOT to a spec checkout to run it; it needs no host.''"

text \<open>\<open>coherence\<close> is \<open>SPEC_COHERENCE_SCENARIOS\<close> and \<open>corpusGate\<close> is \<open>OPENWOP_CORPUS_GATE=1\<close>.\<close>

definition resolveFileRecord ::
  "string list \<Rightarrow> bool \<Rightarrow> test_state list \<Rightarrow> gate_reason option \<Rightarrow> nat \<Rightarrow> noted option \<Rightarrow> string option \<Rightarrow> test_failure list \<Rightarrow>
   disposition \<times> string option" where
  "resolveFileRecord coherence corpusGate states gateReason assertionCount noted specCoherenceFile failures =
     (if (case specCoherenceFile of None \<Rightarrow> False | Some f \<Rightarrow> \<not> corpusGate \<and> f \<in> set coherence) \<and>
         Test_fail \<notin> set states \<and> assertionCount = 0
      then (Inapplicable, Some spec_coherence_detail)
      else
        let (disposition, detail) = fileDisposition states gateReason (Some assertionCount) failures in
        if disposition = Executed_pass \<and> assertionCount = 0 then
          (case noted of
             Some n \<Rightarrow> (kind_disposition (nd_kind n), Some (nd_reason n))
           | None \<Rightarrow> (Blocked, Some unclassified_return_detail))
        else
          (case noted of
             Some n \<Rightarrow>
               if gateReason = None \<and> states \<noteq> [] \<and> list_all (\<lambda>s. s = Test_skip) states
               then (kind_disposition (nd_kind n), Some (nd_reason n))
               else if disposition = Executed_pass then (disposition, Some (partial_witness n))
               else (disposition, detail)
           | None \<Rightarrow> (disposition, detail)))"

section \<open>The runner's derivation\<close>

datatype report_state = Report_passed | Report_failed | Report_skipped

record derived_row =
  dr_requirementId :: string
  dr_scenarioId :: string
  dr_disposition :: disposition
  dr_detail :: "string option"
  dr_assertionCount :: "int option"

record derived_verdict =
  dv_profile :: string
  dv_unclassified :: "string list"
  dv_blocking :: "string list"
  dv_certifiable :: bool
  dv_runtimeDerived :: bool
  dv_held :: bool
  dv_witnessedPasses :: nat

record derived_totals =
  dt_executedPass :: nat
  dt_executedFail :: nat
  dt_skipped :: nat
  dt_inapplicable :: nat
  dt_blocked :: nat

record derivation =
  de_requirements :: "derived_row list"
  de_totals :: derived_totals
  de_verdicts :: "derived_verdict list"
  de_rejectUnclassified :: bool
  de_ledgerPresent :: bool

text \<open>\<open>new Map(xs.map(x => [key(x), x]))\<close>: a lookup finds the last entry of a key.\<close>

definition last_with :: "('a \<Rightarrow> string) \<Rightarrow> 'a list \<Rightarrow> string \<Rightarrow> 'a option" where
  "last_with key xs k = (case filter (\<lambda>x. key x = k) xs of [] \<Rightarrow> None | ys \<Rightarrow> Some (last ys))"

definition row_of_entry :: "string \<Rightarrow> ledger_entry \<Rightarrow> derived_row" where
  "row_of_entry file e =
     \<lparr>dr_requirementId = le_requirementId e, dr_scenarioId = file, dr_disposition = le_disposition e,
      dr_detail = le_detail e, dr_assertionCount = le_assertionCount e\<rparr>"

definition plain_row :: "string \<Rightarrow> string \<Rightarrow> disposition \<Rightarrow> string option \<Rightarrow> int option \<Rightarrow> derived_row" where
  "plain_row i scenario d detail n =
     \<lparr>dr_requirementId = i, dr_scenarioId = scenario, dr_disposition = d, dr_detail = detail, dr_assertionCount = n\<rparr>"

definition file_row :: "(string \<Rightarrow> string) \<Rightarrow> ledger_entry list \<Rightarrow> string \<times> report_state \<Rightarrow> derived_row" where
  "file_row idOf ledger r =
     (case r of (file, state) \<Rightarrow>
        let i = idOf file; ledgerPresent = (ledger \<noteq> []) in
        case last_with le_requirementId ledger i of
          Some e \<Rightarrow> row_of_entry file e
        | None \<Rightarrow>
            (case state of
               Report_passed \<Rightarrow>
                 plain_row i file Executed_pass
                   (if ledgerPresent then Some ''report-derived: vitest passed the file but no disposition was recorded (assertion count unknown) : unclassified for a claimed floor'' else None) None
             | Report_failed \<Rightarrow>
                 plain_row i file Executed_fail (Some ''the scenario executed and failed (report-derived; no ledger entry)'') None
             | Report_skipped \<Rightarrow>
                 plain_row i file Blocked
                   (Some (if ledgerPresent
                          then ''unclassified return: the file recorded no disposition : RFC 0148 A resolves it to blocked, never to a pass''
                          else ''runner cannot classify a skipped file without a ledger; RFC 0148 A resolves an unclassifiable requirement to blocked'')) None))"

definition row_count :: "derived_row \<Rightarrow> int" where
  "row_count r = count_of (dr_assertionCount r)"

definition passes :: "derived_row list \<Rightarrow> derived_row list" where
  "passes rs = filter (\<lambda>r. dr_disposition r = Executed_pass) rs"

definition prefix_row :: "derived_row list \<Rightarrow> string \<Rightarrow> derived_row" where
  "prefix_row fileRows prefix' =
     (let matching = filter (\<lambda>r. starts_with prefix' (dr_scenarioId r)) fileRows;
          i = requirementIdForPrefix prefix'; scenario = prefix' @ ''*'' in
      if passes matching \<noteq> []
      then plain_row i scenario Executed_pass None (Some (sum_list (map row_count (passes matching))))
      else if \<exists>r \<in> set matching. dr_disposition r = Executed_fail
      then plain_row i scenario Executed_fail (Some (''no '' @ prefix' @ ''* scenario passed and at least one failed'')) None
      else if matching = []
      then plain_row i scenario Blocked (Some (''no '' @ prefix' @ ''* scenario ran : unclassified return'')) None
      else plain_row i scenario Blocked
             (Some (''no '' @ prefix' @ ''* scenario executed a passing assertion ('' @
                join '', '' (map (\<lambda>r. disposition_name (dr_disposition r)) matching) @ '')'')) None)"

definition any_of_row :: "derived_row list \<Rightarrow> string \<times> string list \<Rightarrow> derived_row" where
  "any_of_row fileRows g =
     (case g of (i, members) \<Rightarrow>
        let scenario = ''anyof:'' @ join ''|'' members;
            matching = List.map_filter (last_with dr_scenarioId fileRows) members;
            failed = filter (\<lambda>r. dr_disposition r = Executed_fail) matching;
            witnessed = filter (\<lambda>r. 0 < row_count r) (passes matching) in
        if failed \<noteq> []
        then plain_row i scenario Executed_fail (Some (''an alternative failed: '' @ join '', '' (map dr_scenarioId failed))) None
        else if witnessed \<noteq> []
        then plain_row i scenario Executed_pass None (Some (sum_list (map row_count witnessed)))
        else if matching = []
        then plain_row i scenario Blocked (Some (''none of '' @ join '', '' members @ '' ran : unclassified return'')) None
        else plain_row i scenario Blocked
               (Some (''no alternative recorded a witnessed pass ('' @
                  join '', '' (map (\<lambda>r. dr_scenarioId r @ '': '' @ disposition_name (dr_disposition r)) matching) @ '')'')) None)"

definition canonical_profile :: "string \<Rightarrow> string" where
  "canonical_profile p = or_default (map_of deprecated_profile_aliases p) p"

definition claimed_floors :: "v2_floors \<Rightarrow> string list \<Rightarrow> profile_floor list" where
  "claimed_floors v2 claimedProfiles =
     (if v2FloorsActive v2 then []
      else map snd (filter (\<lambda>(p, f). p \<in> canonical_profile ` set claimedProfiles) profile_floor_scenarios))"

definition any_of_groups :: "profile_floor list \<Rightarrow> (string \<times> string list) list" where
  "any_of_groups floors = foldl (\<lambda>m g. AList.update (requirementIdForAnyOf g) g m) [] (concat (map pf_requiredAnyOf floors))"

text \<open>The ledger rows that become bundle rows of their own, none of them already emitted.\<close>

definition entry_file :: "ledger_entry \<Rightarrow> string option" where
  "entry_file e = (case le_scenarioFile e of Some f \<Rightarrow> Some f | None \<Rightarrow> scenarioFileOfItId (le_requirementId e))"

fun it_rows :: "string list \<Rightarrow> string list \<Rightarrow> ledger_entry list \<Rightarrow> derived_row list" where
  "it_rows reported emitted [] = []"
| "it_rows reported emitted (e # es) =
     (case entry_file e of
        Some f \<Rightarrow>
          if le_requirementId e \<notin> set emitted \<and> f \<in> set reported
          then row_of_entry f e # it_rows reported (le_requirementId e # emitted) es
          else it_rows reported emitted es
      | None \<Rightarrow> it_rows reported emitted es)"

definition add_total :: "derived_totals \<Rightarrow> derived_row \<Rightarrow> derived_totals" where
  "add_total t r =
     (case dr_disposition r of
        Executed_pass \<Rightarrow> t\<lparr>dt_executedPass := Suc (dt_executedPass t)\<rparr>
      | Executed_fail \<Rightarrow> t\<lparr>dt_executedFail := Suc (dt_executedFail t)\<rparr>
      | Skipped \<Rightarrow> t\<lparr>dt_skipped := Suc (dt_skipped t)\<rparr>
      | Inapplicable \<Rightarrow> t\<lparr>dt_inapplicable := Suc (dt_inapplicable t)\<rparr>
      | Blocked \<Rightarrow> t\<lparr>dt_blocked := Suc (dt_blocked t)\<rparr>)"

definition no_totals :: derived_totals where
  "no_totals = \<lparr>dt_executedPass = 0, dt_executedFail = 0, dt_skipped = 0, dt_inapplicable = 0, dt_blocked = 0\<rparr>"

definition witnessed_row :: "derived_row \<Rightarrow> bool" where
  "witnessed_row r = (dr_disposition r = Executed_pass \<and> 0 < row_count r)"

definition vacuous_row :: "derived_row \<Rightarrow> bool" where
  "vacuous_row r =
     ((dr_disposition r = Executed_pass \<and> dr_assertionCount r = Some 0) \<or>
      (dr_disposition r = Blocked \<and> dr_detail r = Some unclassified_return_detail))"

definition from_ledger :: "ledger_entry list \<Rightarrow> string \<Rightarrow> derived_row option \<Rightarrow> bool" where
  "from_ledger ledger i r =
     ((\<exists>e \<in> set ledger. le_requirementId e = i) \<or>
      (case r of None \<Rightarrow> False | Some r \<Rightarrow> ends_with ''*'' (dr_scenarioId r) \<or> starts_with ''anyof:'' (dr_scenarioId r)))"

definition is_unclassified :: "ledger_entry list \<Rightarrow> string \<Rightarrow> derived_row option \<Rightarrow> bool" where
  "is_unclassified ledger i r =
     (case r of
        None \<Rightarrow> True
      | Some row \<Rightarrow>
          (\<not> from_ledger ledger i r \<and> (ledger \<noteq> [] \<or> dr_disposition row = Blocked)) \<or> vacuous_row row)"

definition is_blocking :: "bool \<Rightarrow> ledger_entry list \<Rightarrow> string \<Rightarrow> derived_row option \<Rightarrow> bool" where
  "is_blocking atMajor2 ledger i r =
     (is_unclassified ledger i r \<or>
      (case r of None \<Rightarrow> True
       | Some row \<Rightarrow> dr_disposition row \<notin> set certifiable_dispositions \<or> (atMajor2 \<and> dr_disposition row = Skipped)))"

definition option_all :: "('a \<Rightarrow> bool) \<Rightarrow> 'a option \<Rightarrow> bool" where
  "option_all P v = (case v of None \<Rightarrow> False | Some x \<Rightarrow> P x)"

definition unheld_ids :: "derived_row list \<Rightarrow> string list \<Rightarrow> string list" where
  "unheld_ids rows ids =
     filter (\<lambda>i. \<not> option_all (\<lambda>r. dr_disposition r = Executed_pass \<and> row_count r \<noteq> 0) (last_with dr_requirementId rows i)) ids"

definition floor_flag :: "v2_floors \<Rightarrow> (profile_floor \<Rightarrow> bool) \<Rightarrow> string \<Rightarrow> bool" where
  "floor_flag v2 flag profile = (\<not> v2FloorsActive v2 \<and> option_all flag (map_of profile_floor_scenarios profile))"

definition no_ids_verdict :: "string \<Rightarrow> derived_verdict" where
  "no_ids_verdict profile =
     (let why = (if map_of profile_floor_scenarios profile = None
                 then ''(no floor defined for '' @ profile @ '')''
                 else ''(discovery-conditional floor for '' @ profile @ '' is unevaluable without the discovery document)'')
      in \<lparr>dv_profile = profile, dv_unclassified = [], dv_blocking = [why], dv_certifiable = False,
          dv_runtimeDerived = False, dv_held = False, dv_witnessedPasses = 0\<rparr>)"

definition derive_verdict ::
  "v2_floors \<Rightarrow> discovery option \<Rightarrow> ledger_entry list \<Rightarrow> derived_row list \<Rightarrow> string \<Rightarrow> js_exception + derived_verdict" where
  "derive_verdict v2 document ledger rows profile =
     ebind (requirementsFor v2 profile document) (\<lambda>required. Inr
       (case required of
          None \<Rightarrow> no_ids_verdict profile
        | Some ids \<Rightarrow>
            let row = last_with dr_requirementId rows; atMajor2 = v2FloorsActive v2;
                witnessed = length (filter (\<lambda>i. option_all witnessed_row (row i)) ids);
                unclassified = filter (\<lambda>i. is_unclassified ledger i (row i)) ids;
                blocking = filter (\<lambda>i. is_blocking atMajor2 ledger i (row i)) ids;
                discoveryOnly = floor_flag v2 pf_discoveryOnly profile;
                runtimeDerived = floor_flag v2 pf_runtimeDerived profile;
                held = (ids \<noteq> [] \<and> witnessed = length ids)
            in \<lparr>dv_profile = profile,
                dv_unclassified = (if runtimeDerived \<and> \<not> held then [] else unclassified),
                dv_blocking = (if runtimeDerived \<and> \<not> held then unheld_ids rows ids else blocking),
                dv_certifiable =
                  (if atMajor2 then ids \<noteq> [] \<and> blocking = [] \<and> 1 \<le> witnessed
                   else if runtimeDerived then held else discoveryOnly \<or> (ids \<noteq> [] \<and> blocking = [])),
                dv_runtimeDerived = runtimeDerived, dv_held = held, dv_witnessedPasses = witnessed\<rparr>))"

definition derived_rows ::
  "(string \<Rightarrow> string \<Rightarrow> bool) \<Rightarrow> string list \<Rightarrow> v2_floors \<Rightarrow> (string \<times> report_state) list \<Rightarrow> ledger_entry list \<Rightarrow> string list \<Rightarrow>
   derived_row list" where
  "derived_rows collate floorFiles v2 reportStates ledger claimedProfiles =
     (let fileRows = map (file_row (requirementIdForFile floorFiles) ledger) (sort_by (\<lambda>a b. collate (fst a) (fst b)) reportStates);
          floors = claimed_floors v2 claimedProfiles;
          prefixRows = map (prefix_row fileRows) (sort (uniq (concat (map pf_requiredAnyPrefix floors))));
          groupRows = map (any_of_row fileRows) (sort_by (\<lambda>a b. collate (fst a) (fst b)) (any_of_groups floors));
          summary = fileRows @ prefixRows @ groupRows
      in summary @ it_rows (map fst reportStates) (map dr_requirementId summary)
           (sort_by (\<lambda>a b. collate (le_requirementId a) (le_requirementId b)) ledger))"

definition deriveRequirementDispositions ::
  "(string \<Rightarrow> string \<Rightarrow> bool) \<Rightarrow> string list \<Rightarrow> v2_floors \<Rightarrow> (string \<times> report_state) list \<Rightarrow> ledger_entry list \<Rightarrow> string list \<Rightarrow>
   discovery option \<Rightarrow> js_exception + derivation" where
  "deriveRequirementDispositions collate floorFiles v2 reportStates ledger claimedProfiles document =
     (let rows = derived_rows collate floorFiles v2 reportStates ledger claimedProfiles in
      ebind (emap (derive_verdict v2 document ledger rows) claimedProfiles) (\<lambda>verdicts. Inr
        \<lparr>de_requirements = rows, de_totals = foldl add_total no_totals rows, de_verdicts = verdicts,
         de_rejectUnclassified = (\<exists>v \<in> set verdicts. dv_unclassified v \<noteq> []), de_ledgerPresent = (ledger \<noteq> [])\<rparr>))"

section \<open>Passes are earned\<close>

lemma file_pass_iff:
  "fst (fileDisposition states gateReason (Some k) failures) = Executed_pass \<longleftrightarrow>
   Test_fail \<notin> set states \<and> Test_pass \<in> set states \<and> (k = 0 \<longrightarrow> gateReason = None)"
proof -
  have "0 < failed_count states \<longleftrightarrow> Test_fail \<in> set states"
    by (auto simp: failed_count_def filter_empty_conv)
  then show ?thesis
    by (cases gateReason) (auto simp: fileDisposition_def Let_def split: gate_reason.splits, metis gate_reason.exhaust)
qed

lemma kind_not_pass [simp]: "kind_disposition k \<noteq> Executed_pass" "reason_disposition g \<noteq> Executed_pass"
  by (simp_all add: kind_disposition_def reason_disposition_def split: soft_kind.splits gate_reason.splits)

lemma it_pass_iff:
  "fst (resolveItRecord state n gate noted firstError blockedStands testName) = Executed_pass \<longleftrightarrow>
   state = Test_pass \<and> 0 < n \<and> \<not> option_all (\<lambda>m. nd_kind m = Note_blocked \<and> (nd_conclusive m \<or> blockedStands)) noted"
  by (auto simp: resolveItRecord_def Let_def option_all_def split: option.splits prod.splits)

lemma file_record_pass_iff:
  "fst (resolveFileRecord coherence corpusGate states gateReason k noted f failures) = Executed_pass \<longleftrightarrow>
   Test_pass \<in> set states \<and> Test_fail \<notin> set states \<and> 0 < k"
  using file_pass_iff [of states gateReason k failures]
  by (cases "fileDisposition states gateReason (Some k) failures"; cases "k = 0"; cases noted)
    (auto simp: resolveFileRecord_def Let_def list_all_iff split: option.splits)

text \<open>
  Claim C26: a pass is recorded exactly when it was earned: for a test, it passed after at least one
  assertion and left no blocked note that stands; for a file, some test passed, none failed and at
  least one assertion was made. No note, gate reason or message turns silence into a pass.
\<close>

theorem recorded_pass_is_earned:
  "(fst (resolveItRecord state n gate noted firstError blockedStands testName) = Executed_pass \<longleftrightarrow>
      state = Test_pass \<and> 0 < n \<and>
      \<not> option_all (\<lambda>m. nd_kind m = Note_blocked \<and> (nd_conclusive m \<or> blockedStands)) noted) \<and>
   (fst (resolveFileRecord coherence corpusGate states gateReason k noted' f failures) = Executed_pass \<longleftrightarrow>
      Test_pass \<in> set states \<and> Test_fail \<notin> set states \<and> 0 < k)"
  by (intro conjI it_pass_iff file_record_pass_iff)

section \<open>Every record can be written\<close>

definition spoken :: "string \<Rightarrow> bool" where
  "spoken s = (js_trim s \<noteq> [])"

lemma spokenI: "c \<in> set s \<Longrightarrow> \<not> js_space c \<Longrightarrow> spoken s"
  by (simp add: spoken_def trim_nonempty)

text \<open>A text that starts with a character that is not white space.\<close>

lemma spoken_head: "\<not> js_space c \<Longrightarrow> spoken (c # s)"
  by (rule spokenI [of c]) simp_all

lemma letters: "\<not> js_space (CHR ''e'')" "\<not> js_space (CHR ''t'')" "\<not> js_space (CHR ''n'')" "\<not> js_space (CHR ''u'')"
  "\<not> js_space (CHR ''v'')" "\<not> js_space (CHR ''i'')" "\<not> js_space (CHR ''g'')"
  by (simp_all add: js_space_def)

lemma take_mark: "has_sub transport_loss_mark e \<Longrightarrow> spoken (take 300 (from_mark e))"
proof -
  assume "has_sub transport_loss_mark e"
  then obtain i where i: "index_of transport_loss_mark e = Some i" by (auto simp: has_sub_def)
  then obtain t where "drop i e = transport_loss_mark @ t"
    using index_of_Some by (metis starts_with_iff)
  then have "from_mark e = CHR ''t'' # tl (from_mark e)"
    using i by (simp add: from_mark_def) (simp add: transport_loss_mark_def)
  then show ?thesis
    by (metis spoken_head letters(2) take_Cons_numeral)
qed

lemma failureDetail_spoken: "spoken (failureDetail fs n)"
  by (rule spokenI [of "CHR ''e''"]) (simp_all add: failureDetail_def Let_def letters split: list.split)

lemma has_reason_spoken: "has_reason d v \<longleftrightarrow> d = Executed_pass \<or> option_all spoken v"
  by (simp add: has_reason_def option_all_def spoken_def split: option.split)

lemma file_reason: "has_reason (fst (fileDisposition states g k fs)) (snd (fileDisposition states g k fs))"
  unfolding fileDisposition_def Let_def has_reason_spoken
  by (simp add: option_all_def failureDetail_spoken spoken_head letters)

definition noted_spoken :: "noted option \<Rightarrow> bool" where
  "noted_spoken nt = (case nt of None \<Rightarrow> True | Some m \<Rightarrow> spoken (nd_reason m))"

definition gate_spoken :: "(gate_reason \<times> string option) option \<Rightarrow> bool" where
  "gate_spoken g = (case g of Some (_, Some d) \<Rightarrow> spoken d | _ \<Rightarrow> True)"

lemma it_record_reason:
  assumes "noted_spoken noted" and "gate_spoken gate"
  shows "has_reason (fst (resolveItRecord state n gate noted firstError blockedStands testName))
           (snd (resolveItRecord state n gate noted firstError blockedStands testName))"
proof -
  have silent: "spoken (disposition_name d @ '' (gate recorded no reason)'')" for d
    by (rule spokenI [of "CHR ''e''"]) (simp_all add: letters)
  show ?thesis
    using assms silent take_mark unfolding has_reason_spoken
    by (auto simp: resolveItRecord_def Let_def option_all_def transport_loss_def or_default_def spoken_head letters
        noted_spoken_def gate_spoken_def split: option.splits prod.splits)
qed

lemma file_record_reason:
  assumes "noted_spoken noted"
  shows "has_reason (fst (resolveFileRecord coherence corpusGate states gateReason k noted f failures))
           (snd (resolveFileRecord coherence corpusGate states gateReason k noted f failures))"
  using assms file_reason [of states gateReason "Some k" failures] unfolding has_reason_spoken
  by (cases "fileDisposition states gateReason (Some k) failures"; cases noted)
    (auto simp: resolveFileRecord_def Let_def option_all_def spoken_head letters unclassified_return_detail_def
      spec_coherence_detail_def noted_spoken_def split: option.splits)

text \<open>
  What the worker resolves can always be recorded: a record that is not a pass carries a
  reason that is not blank, whenever the notes and gate details it draws on are not, so the ledger's
  reason check never drops the row of a test or of a file.
\<close>

theorem resolved_records_carry_reasons:
  assumes "noted_spoken noted" and "gate_spoken gate"
  shows "has_reason (fst (resolveItRecord state n gate noted firstError blockedStands testName))
           (snd (resolveItRecord state n gate noted firstError blockedStands testName)) \<and>
         has_reason (fst (resolveFileRecord coherence corpusGate states gateReason k noted f failures))
           (snd (resolveFileRecord coherence corpusGate states gateReason k noted f failures))"
  using assms it_record_reason file_record_reason by blast

theorem resolved_records_carry_reasons_witness:
  "has_reason (fst (resolveItRecord Test_pass 0 None (Some \<lparr>nd_kind = Note_blocked, nd_reason = ''x'', nd_conclusive = False\<rparr>) None False None))
     (Some ''x'')"
proof -
  have "noted_spoken (Some \<lparr>nd_kind = Note_blocked, nd_reason = ''x'', nd_conclusive = False\<rparr>)" "gate_spoken None"
    by (simp_all add: noted_spoken_def gate_spoken_def spoken_def js_trim_def js_space_def)
  from resolved_records_carry_reasons [OF this, of Test_pass 0 None False None "[]" False "[]" None 0 None "[]"]
  show ?thesis by (simp add: resolveItRecord_def)
qed

section \<open>The derived rows\<close>

lemma last_with_Some: "last_with key xs k = Some x \<Longrightarrow> x \<in> set xs \<and> key x = k"
proof -
  assume a: "last_with key xs k = Some x"
  define ys where "ys = filter (\<lambda>x. key x = k) xs"
  from a have "ys \<noteq> []" and x: "x = last ys"
    unfolding last_with_def ys_def [symmetric] by (auto split: list.splits)
  then have "x \<in> set ys" by simp
  then show ?thesis by (simp add: ys_def)
qed

lemma last_with_None: "last_with key xs k = None \<longleftrightarrow> (\<forall>x \<in> set xs. key x \<noteq> k)"
proof -
  have "last_with key xs k = None \<longleftrightarrow> filter (\<lambda>x. key x = k) xs = []"
    by (simp add: last_with_def split: list.split)
  then show ?thesis by (simp add: filter_empty_conv)
qed

lemma plain_row_id [simp]: "dr_requirementId (plain_row i s d t n) = i" "dr_scenarioId (plain_row i s d t n) = s"
  by (simp_all add: plain_row_def)

lemma file_row_id: "dr_requirementId (file_row idOf ledger r) = idOf (fst r)"
  using last_with_Some [of le_requirementId ledger "idOf (fst r)"]
  by (auto simp: file_row_def Let_def row_of_entry_def split: prod.splits option.splits report_state.splits)

lemma prefix_row_id: "dr_requirementId (prefix_row rs p) = requirementIdForPrefix p"
  by (simp add: prefix_row_def Let_def)

lemma any_of_row_id: "dr_requirementId (any_of_row rs g) = fst g"
  by (simp add: any_of_row_def Let_def split: prod.splits)

lemma it_rows_fresh:
  "distinct (map dr_requirementId (it_rows reported emitted es)) \<and>
   dr_requirementId ` set (it_rows reported emitted es) \<inter> set emitted = {}"
proof (induction reported emitted es rule: it_rows.induct)
  case (2 reported emitted e es)
  show ?case
  proof (cases "entry_file e")
    case (Some f)
    with 2 show ?thesis
      by (cases "le_requirementId e \<notin> set emitted \<and> f \<in> set reported") (auto simp: row_of_entry_def)
  qed (use 2 in auto)
qed simp

lemma any_of_groups_keys:
  "distinct (map fst (any_of_groups floors)) \<and> (\<forall>i \<in> fst ` set (any_of_groups floors). \<exists>fs. i = requirementIdForAnyOf fs)"
proof -
  have step: "distinct (map fst (foldl (\<lambda>m g. AList.update (requirementIdForAnyOf g) g m) m gs)) \<and>
      (\<forall>i \<in> fst ` set (foldl (\<lambda>m g. AList.update (requirementIdForAnyOf g) g m) m gs). \<exists>fs. i = requirementIdForAnyOf fs)"
    if "distinct (map fst m)" "\<forall>i \<in> fst ` set m. \<exists>fs. i = requirementIdForAnyOf fs" for m gs
    using that
  proof (induction gs arbitrary: m)
    case (Cons g gs)
    have "distinct (map fst (AList.update (requirementIdForAnyOf g) g m))"
      using Cons.prems(1) by (rule distinct_update)
    moreover have "\<forall>i \<in> fst ` set (AList.update (requirementIdForAnyOf g) g m). \<exists>fs. i = requirementIdForAnyOf fs"
      using Cons.prems(2) unfolding dom_update by blast
    ultimately show ?case unfolding foldl.simps by (rule Cons.IH)
  qed simp
  show ?thesis
    unfolding any_of_groups_def by (rule step) simp_all
qed

text \<open>A scenario file as the runner reports it: its stem is not one of the reserved group names.\<close>

definition scenario_name :: "string \<Rightarrow> bool" where
  "scenario_name f = (ends_with ''.test.ts'' f \<and> \<not> starts_with ''any.'' f \<and> \<not> starts_with ''anyof.'' f \<and> \<not> starts_with ''anyof:'' f)"

lemma scenario_stem: "scenario_name f \<Longrightarrow> f = file_stem f @ ''.test.ts''"
  by (auto simp: scenario_name_def file_stem_def strip_suffix_def ends_with_iff)

lemma file_ids_inj: "inj_on (requirementIdForFile ff) {f. scenario_name f}"
proof (rule inj_onI)
  fix f g
  assume "f \<in> {f. scenario_name f}" "g \<in> {f. scenario_name f}" "requirementIdForFile ff f = requirementIdForFile ff g"
  then show "f = g"
    using scenario_stem [of f] scenario_stem [of g]
    by (auto simp: requirementIdForFile_def requirementIdForScenario_def split: if_splits)
qed

lemma file_id_not_group:
  assumes "scenario_name f"
  shows "requirementIdForFile ff f \<noteq> requirementIdForPrefix p" "requirementIdForFile ff f \<noteq> requirementIdForAnyOf g"
  using assms scenario_stem [OF assms]
  by (auto simp: requirementIdForFile_def requirementIdForScenario_def requirementIdForPrefix_def requirementIdForAnyOf_def
      scenario_name_def starts_with_def split: if_splits)

lemma group_ids_differ: "requirementIdForPrefix p \<noteq> requirementIdForAnyOf g"
  by (simp add: requirementIdForPrefix_def requirementIdForAnyOf_def)

lemma derived_rows_distinct:
  assumes "distinct (map fst reportStates)" and "\<forall>f \<in> fst ` set reportStates. scenario_name f"
  shows "distinct (map dr_requirementId (derived_rows collate ff v2 reportStates ledger claimed))"
proof -
  let ?idOf = "requirementIdForFile ff"
  let ?sorted = "sort_by (\<lambda>a b. collate (fst a) (fst b)) reportStates"
  let ?fileRows = "map (file_row ?idOf ledger) ?sorted"
  let ?floors = "claimed_floors v2 claimed"
  let ?prefixes = "sort (uniq (concat (map pf_requiredAnyPrefix ?floors)))"
  let ?groups = "sort_by (\<lambda>a b. collate (fst a) (fst b)) (any_of_groups ?floors)"
  let ?summary = "?fileRows @ map (prefix_row ?fileRows) ?prefixes @ map (any_of_row ?fileRows) ?groups"
  have files: "map dr_requirementId ?fileRows = map ?idOf (map fst ?sorted)"
    by (simp add: file_row_id)
  have "distinct (map fst ?sorted)" using assms(1) by simp
  moreover have "set (map fst ?sorted) \<subseteq> {f. scenario_name f}" using assms(2) by auto
  ultimately have d1: "distinct (map dr_requirementId ?fileRows)"
    unfolding files distinct_map using file_ids_inj inj_on_subset by blast
  have d2: "distinct (map dr_requirementId (map (prefix_row ?fileRows) ?prefixes))"
    by (simp add: prefix_row_id comp_def distinct_map inj_on_def requirementIdForPrefix_def)
  have d3: "distinct (map dr_requirementId (map (any_of_row ?fileRows) ?groups))"
    using any_of_groups_keys [of ?floors] by (simp add: any_of_row_id comp_def)
  have file_id: "\<exists>f. scenario_name f \<and> i = ?idOf f" if "i \<in> dr_requirementId ` set ?fileRows" for i
    using that assms(2) by (auto simp: file_row_id)
  have group_id: "\<exists>fs. i = requirementIdForAnyOf fs" if "i \<in> dr_requirementId ` set (map (any_of_row ?fileRows) ?groups)" for i
  proof -
    from that obtain g where "g \<in> set (any_of_groups ?floors)" "i = fst g"
      by (auto simp: any_of_row_id simp del: split_paired_Ex)
    then have "i \<in> fst ` set (any_of_groups ?floors)" by blast
    with any_of_groups_keys [of ?floors] show ?thesis by blast
  qed
  have prefix_id: "\<exists>p. i = requirementIdForPrefix p" if "i \<in> dr_requirementId ` set (map (prefix_row ?fileRows) ?prefixes)" for i
    using that by (auto simp: prefix_row_id)
  define F P G where "F = dr_requirementId ` set ?fileRows" and
    "P = dr_requirementId ` set (map (prefix_row ?fileRows) ?prefixes)" and
    "G = dr_requirementId ` set (map (any_of_row ?fileRows) ?groups)"
  note fid = file_id [folded F_def] and pid = prefix_id [folded P_def] and gid = group_id [folded G_def]
  have FP: "F \<inter> P = {}"
  proof (rule equals0I)
    fix i
    assume "i \<in> F \<inter> P"
    with fid pid file_id_not_group(1) show False by (metis IntD1 IntD2)
  qed
  have FG: "F \<inter> G = {}"
  proof (rule equals0I)
    fix i
    assume "i \<in> F \<inter> G"
    with fid gid file_id_not_group(2) show False by (metis IntD1 IntD2)
  qed
  have PG: "P \<inter> G = {}"
  proof (rule equals0I)
    fix i
    assume "i \<in> P \<inter> G"
    with pid gid group_ids_differ show False by (metis IntD1 IntD2)
  qed
  have "distinct (map dr_requirementId ?summary)"
    unfolding map_append distinct_append set_append set_map [of dr_requirementId] F_def [symmetric] P_def [symmetric] G_def [symmetric]
    using d1 d2 d3 FP FG PG by (simp only: Int_Un_distrib Un_empty_left simp_thms)
  then show ?thesis
    using it_rows_fresh [of "map fst reportStates" "map dr_requirementId ?summary"]
    unfolding derived_rows_def Let_def by (simp only: map_append [of _ ?summary] distinct_append set_map Int_commute simp_thms)
qed

definition disposition_count :: "derived_row list \<Rightarrow> disposition \<Rightarrow> nat" where
  "disposition_count rows d = length (filter (\<lambda>r. dr_disposition r = d) rows)"

lemma totals_count:
  "foldl add_total t rows =
     \<lparr>dt_executedPass = dt_executedPass t + disposition_count rows Executed_pass,
      dt_executedFail = dt_executedFail t + disposition_count rows Executed_fail,
      dt_skipped = dt_skipped t + disposition_count rows Skipped,
      dt_inapplicable = dt_inapplicable t + disposition_count rows Inapplicable,
      dt_blocked = dt_blocked t + disposition_count rows Blocked\<rparr>"
proof (induction rows arbitrary: t)
  case (Cons r rows)
  show ?case
    using Cons [of "add_total t r"] by (cases "dr_disposition r") (simp_all add: add_total_def disposition_count_def)
qed (simp add: disposition_count_def)

text \<open>
  The rows the runner derives are a bundle's worth: over distinct scenario files, each
  requirement id has one row, whatever the ledger holds and whichever profiles are claimed, and each
  total counts the rows of its disposition.
\<close>

theorem derived_rows_well_formed:
  assumes "deriveRequirementDispositions collate ff v2 reportStates ledger claimed doc = Inr d"
    and "distinct (map fst reportStates)" and "\<forall>f \<in> fst ` set reportStates. scenario_name f"
  shows "distinct (map dr_requirementId (de_requirements d)) \<and>
         de_totals d =
           \<lparr>dt_executedPass = disposition_count (de_requirements d) Executed_pass,
            dt_executedFail = disposition_count (de_requirements d) Executed_fail,
            dt_skipped = disposition_count (de_requirements d) Skipped,
            dt_inapplicable = disposition_count (de_requirements d) Inapplicable,
            dt_blocked = disposition_count (de_requirements d) Blocked\<rparr>"
proof -
  have d: "de_requirements d = derived_rows collate ff v2 reportStates ledger claimed"
      "de_totals d = foldl add_total no_totals (de_requirements d)"
    using assms(1) by (auto simp: deriveRequirementDispositions_def Let_def ebind_Inr_iff)
  show ?thesis
    using derived_rows_distinct [OF assms(2,3)] by (simp add: d totals_count no_totals_def)
qed

lemma derive_nothing_claimed: "\<exists>d. deriveRequirementDispositions collate ff v2 reportStates ledger [] doc = Inr d"
  by (simp add: deriveRequirementDispositions_def Let_def)

theorem derived_rows_well_formed_witness:
  "\<exists>d. deriveRequirementDispositions (\<le>) [] None [(''a.test.ts'', Report_passed), (''b.test.ts'', Report_failed)] [] [] None = Inr d \<and>
     dt_executedFail (de_totals d) = disposition_count (de_requirements d) Executed_fail"
proof -
  obtain d where d: "deriveRequirementDispositions (\<le>) [] None [(''a.test.ts'', Report_passed), (''b.test.ts'', Report_failed)] [] [] None = Inr d"
    using derive_nothing_claimed by blast
  have "scenario_name ''a.test.ts''" "scenario_name ''b.test.ts''" by code_simp+
  with derived_rows_well_formed [OF d] show ?thesis using d by simp
qed

section \<open>What a major-2 verdict rests on\<close>

text \<open>With the major-2 floors installed there are no summary rows: every row is a report's or a ledger entry's.\<close>

lemma it_rows_from: "r \<in> set (it_rows reported emitted es) \<Longrightarrow>
  \<exists>e \<in> set es. \<exists>f \<in> set reported. r = row_of_entry f e"
  by (induction reported emitted es rule: it_rows.induct) (auto split: option.splits if_splits)

lemma file_row_from:
  "(\<exists>e \<in> set ledger. le_requirementId e = idOf (fst r) \<and> file_row idOf ledger r = row_of_entry (fst r) e) \<or>
   (\<forall>e \<in> set ledger. le_requirementId e \<noteq> idOf (fst r)) \<and> dr_scenarioId (file_row idOf ledger r) = fst r"
  using last_with_Some [of le_requirementId ledger "idOf (fst r)"] last_with_None [of le_requirementId ledger "idOf (fst r)"]
  by (cases r; cases "last_with le_requirementId ledger (idOf (fst r))")
    (auto simp: file_row_def Let_def split: report_state.splits)

lemma major2_rows:
  assumes "r \<in> set (derived_rows collate ff (Some floors) reportStates ledger claimed)"
  shows "dr_scenarioId r \<in> fst ` set reportStates \<and>
    ((\<exists>e \<in> set ledger. le_requirementId e = dr_requirementId r) \<longrightarrow>
     (\<exists>e \<in> set ledger. r = row_of_entry (dr_scenarioId r) e))"
proof -
  have none: "claimed_floors (Some floors) claimed = []" by (simp add: claimed_floors_def v2FloorsActive_def)
  have groups: "any_of_groups [] = []" by (simp add: any_of_groups_def)
  from assms consider
    (report) s where "s \<in> set reportStates" "r = file_row (requirementIdForFile ff) ledger s"
  | (own) e f where "e \<in> set ledger" "f \<in> fst ` set reportStates" "r = row_of_entry f e"
    unfolding derived_rows_def Let_def none groups
    by (auto dest!: it_rows_from)
  then show ?thesis
  proof cases
    case report
    let ?r = "file_row (requirementIdForFile ff) ledger s"
    from file_row_from [of ledger "requirementIdForFile ff" s] consider
      (recorded) e where "e \<in> set ledger" "?r = row_of_entry (fst s) e"
    | (silent) "\<forall>e \<in> set ledger. le_requirementId e \<noteq> requirementIdForFile ff (fst s)" "dr_scenarioId ?r = fst s"
      by blast
    then show ?thesis
    proof cases
      case recorded
      then have "dr_scenarioId ?r = fst s" by (simp add: row_of_entry_def)
      with recorded report show ?thesis by (metis image_eqI)
    next
      case silent
      with report show ?thesis by (auto simp: file_row_id)
    qed
  next
    case own
    then show ?thesis by (auto simp: row_of_entry_def)
  qed
qed

lemma scenario_not_summary: "scenario_name f \<Longrightarrow> \<not> ends_with ''*'' f \<and> \<not> starts_with ''anyof:'' f"
  by (auto simp: scenario_name_def ends_with_iff)

text \<open>A ledger entry that can stand for a requirement at major 2, and one that witnesses it.\<close>

definition entry_stands :: "ledger_entry \<Rightarrow> bool" where
  "entry_stands e =
     (le_disposition e = Inapplicable \<or> (le_disposition e = Executed_pass \<and> le_assertionCount e \<noteq> Some 0))"

definition entry_witnesses :: "ledger_entry \<Rightarrow> bool" where
  "entry_witnesses e = (le_disposition e = Executed_pass \<and> 0 < count_of (le_assertionCount e))"

lemma major2_row_stands:
  assumes "r \<in> set (derived_rows collate ff (Some floors) reportStates ledger claimed)"
    and "\<forall>f \<in> fst ` set reportStates. scenario_name f" and "ledger \<noteq> []"
    and "\<not> is_blocking True ledger (dr_requirementId r) (Some r)"
  shows "\<exists>e \<in> set ledger. r = row_of_entry (dr_scenarioId r) e \<and> entry_stands e"
proof -
  note row = major2_rows [OF assms(1)]
  have "\<not> ends_with ''*'' (dr_scenarioId r) \<and> \<not> starts_with ''anyof:'' (dr_scenarioId r)"
    using row assms(2) scenario_not_summary by blast
  then have "\<exists>e \<in> set ledger. le_requirementId e = dr_requirementId r"
    using assms(3,4) by (auto simp: is_blocking_def is_unclassified_def from_ledger_def)
  with row obtain e where e: "e \<in> set ledger" "r = row_of_entry (dr_scenarioId r) e" by blast
  have "dr_disposition r \<in> {Executed_pass, Inapplicable}" "\<not> vacuous_row r"
    using assms(4) by (auto simp: is_blocking_def is_unclassified_def certifiable_dispositions_def)
  then have "entry_stands e"
    using e(2) by (metis (mono_tags, lifting) derived_row.select_convs(3,5) entry_stands_def insertE row_of_entry_def singletonD vacuous_row_def)
  with e show ?thesis by blast
qed

lemma major2_verdict:
  assumes "derive_verdict (Some floors) doc ledger rows p = Inr v" and "dv_certifiable v"
  shows "\<exists>files. map_of floors p = Some files \<and> dv_profile v = p \<and>
    (\<forall>i \<in> requirementIdForScenario ` set files. \<not> is_blocking True ledger i (last_with dr_requirementId rows i)) \<and>
    (\<exists>f \<in> set files. option_all witnessed_row (last_with dr_requirementId rows (requirementIdForScenario f)))"
proof -
  let ?row = "last_with dr_requirementId rows"
  obtain required where req: "requirementsFor (Some floors) p doc = Inr required"
    using assms(1) by (auto simp: derive_verdict_def ebind_Inr_iff)
  then have "required \<noteq> None"
    using assms by (cases required) (auto simp: derive_verdict_def no_ids_verdict_def Let_def)
  then obtain ids where ids: "required = Some ids" by auto
  then obtain files where files: "map_of floors p = Some files" "ids = map requirementIdForScenario files"
    using req by (auto simp: requirementsFor_def split: option.splits if_splits)
  have p: "dv_profile v = p" and
    c: "dv_certifiable v \<longleftrightarrow> ids \<noteq> [] \<and> filter (\<lambda>i. is_blocking True ledger i (?row i)) ids = [] \<and>
      1 \<le> length (filter (\<lambda>i. option_all witnessed_row (?row i)) ids)"
    using assms(1) req ids by (auto simp: derive_verdict_def Let_def v2FloorsActive_def)
  have b: "\<forall>i \<in> set ids. \<not> is_blocking True ledger i (?row i)"
    using c assms(2) by (simp add: filter_empty_conv)
  have "filter (\<lambda>i. option_all witnessed_row (?row i)) ids \<noteq> []"
    using c assms(2) by (metis length_0_conv not_one_le_zero)
  then have "\<exists>i \<in> set ids. option_all witnessed_row (?row i)"
    unfolding filter_empty_conv by blast
  then show ?thesis using files p b by auto
qed

lemma major2_on_the_ledger:
  assumes "deriveRequirementDispositions collate ff (Some floors) reportStates ledger claimed doc = Inr d"
    and "v \<in> set (de_verdicts d)" and "dv_certifiable v" and "ledger \<noteq> []"
    and "\<forall>f \<in> fst ` set reportStates. scenario_name f"
  shows "\<exists>files. map_of floors (dv_profile v) = Some files \<and>
           (\<forall>f \<in> set files. \<exists>e \<in> set ledger. le_requirementId e = requirementIdForScenario f \<and> entry_stands e) \<and>
           (\<exists>f \<in> set files. \<exists>e \<in> set ledger. le_requirementId e = requirementIdForScenario f \<and> entry_witnesses e)"
proof -
  let ?rows = "derived_rows collate ff (Some floors) reportStates ledger claimed"
  let ?row = "last_with dr_requirementId ?rows"
  have vs: "emap (derive_verdict (Some floors) doc ledger ?rows) claimed = Inr (de_verdicts d)"
    using assms(1) by (auto simp: deriveRequirementDispositions_def Let_def ebind_Inr_iff)
  then obtain p where v: "derive_verdict (Some floors) doc ledger ?rows p = Inr v"
    using assms(2) by (auto simp: emap_Inr_iff list_all2_conv_all_nth in_set_conv_nth)
  from major2_verdict [OF v assms(3)] obtain files where files: "map_of floors p = Some files"
    and p: "dv_profile v = p" and blocking: "\<forall>i \<in> requirementIdForScenario ` set files. \<not> is_blocking True ledger i (?row i)"
    and witnessed: "\<exists>f \<in> set files. option_all witnessed_row (?row (requirementIdForScenario f))"
    by blast
  have stands: "\<exists>r \<in> set ?rows. ?row i = Some r \<and> dr_requirementId r = i \<and>
      (\<exists>e \<in> set ledger. r = row_of_entry (dr_scenarioId r) e \<and> entry_stands e)"
    if "i \<in> requirementIdForScenario ` set files" for i
  proof -
    from blocking that have nb: "\<not> is_blocking True ledger i (?row i)" by blast
    then obtain r where r: "?row i = Some r" by (cases "?row i") (auto simp: is_blocking_def is_unclassified_def)
    with last_with_Some [OF r] major2_row_stands [OF _ assms(5,4)] nb show ?thesis by metis
  qed
  have "\<exists>e \<in> set ledger. le_requirementId e = requirementIdForScenario f \<and> entry_stands e" if "f \<in> set files" for f
  proof -
    from stands [of "requirementIdForScenario f"] that obtain r e where
      "e \<in> set ledger" "r = row_of_entry (dr_scenarioId r) e" "entry_stands e" "dr_requirementId r = requirementIdForScenario f"
      by blast
    then show ?thesis by (metis derived_row.select_convs(1) row_of_entry_def)
  qed
  moreover have "\<exists>f \<in> set files. \<exists>e \<in> set ledger. le_requirementId e = requirementIdForScenario f \<and> entry_witnesses e"
  proof -
    from witnessed obtain f where f: "f \<in> set files" "option_all witnessed_row (?row (requirementIdForScenario f))"
      by blast
    from stands [of "requirementIdForScenario f"] f obtain r e where r: "e \<in> set ledger" "r = row_of_entry (dr_scenarioId r) e"
      "dr_requirementId r = requirementIdForScenario f" "witnessed_row r"
      by (auto simp: option_all_def)
    then have "entry_witnesses e" and "le_requirementId e = requirementIdForScenario f"
      by (metis derived_row.select_convs(3,5) entry_witnesses_def row_count_def row_of_entry_def witnessed_row_def,
          metis derived_row.select_convs(1) row_of_entry_def)
    with f(1) r(1) show ?thesis by blast
  qed
  ultimately show ?thesis using files p by blast
qed

text \<open>
  Claim C31: at major 2 nothing certifies on silence: when a run has a ledger and a profile's verdict
  is certifiable, the profile has a floor in the declaration, every file of that floor has a ledger
  entry under its floor id that is inapplicable or a pass not counted as zero assertions, and at
  least one of them is a pass with assertions. A skip never stands, and neither does a report row.
\<close>

theorem major2_certifies_on_the_ledger:
  assumes "deriveRequirementDispositions collate ff (Some floors) reportStates ledger claimed doc = Inr d"
    and "v \<in> set (de_verdicts d)" and "dv_certifiable v" and "ledger \<noteq> []"
    and "\<forall>f \<in> fst ` set reportStates. scenario_name f"
  shows "\<exists>files. map_of floors (dv_profile v) = Some files \<and>
           (\<forall>f \<in> set files. \<exists>e \<in> set ledger. le_requirementId e = requirementIdForScenario f \<and> entry_stands e) \<and>
           (\<exists>f \<in> set files. \<exists>e \<in> set ledger. le_requirementId e = requirementIdForScenario f \<and> entry_witnesses e)"
  by (rule major2_on_the_ledger [OF assms])

definition pass_entry :: "string \<Rightarrow> int \<Rightarrow> ledger_entry" where
  "pass_entry i n =
     \<lparr>le_requirementId = i, le_disposition = Executed_pass, le_detail = None, le_assertionCount = Some n,
      le_scenarioFile = None, le_evidence = None\<rparr>"

theorem major2_certifies_on_the_ledger_witness:
  "\<exists>d v. deriveRequirementDispositions (\<le>) [''v2-a.test.ts''] (Some [(''p'', [''v2-a.test.ts''])]) [(''v2-a.test.ts'', Report_passed)]
       [pass_entry ''openwop.floor.v2-a'' 3] [''p''] None = Inr d \<and>
     v \<in> set (de_verdicts d) \<and> dv_certifiable v \<and>
     (\<exists>files. map_of [(''p'', [''v2-a.test.ts''])] (dv_profile v) = Some files)"
proof -
  have run: "case deriveRequirementDispositions (\<le>) [''v2-a.test.ts''] (Some [(''p'', [''v2-a.test.ts''])]) [(''v2-a.test.ts'', Report_passed)]
       [pass_entry ''openwop.floor.v2-a'' 3] [''p''] None of Inl e \<Rightarrow> False
     | Inr d \<Rightarrow> (case de_verdicts d of [v] \<Rightarrow> dv_certifiable v | _ \<Rightarrow> False)"
    by code_simp
  then obtain d v where d: "deriveRequirementDispositions (\<le>) [''v2-a.test.ts''] (Some [(''p'', [''v2-a.test.ts''])])
       [(''v2-a.test.ts'', Report_passed)] [pass_entry ''openwop.floor.v2-a'' 3] [''p''] None = Inr d"
     and v: "v \<in> set (de_verdicts d)" "dv_certifiable v"
    by (auto split: sum.splits list.splits)
  have "scenario_name ''v2-a.test.ts''" by code_simp
  then have "\<forall>f \<in> fst ` set [(''v2-a.test.ts'', Report_passed)]. scenario_name f" by simp
  from major2_certifies_on_the_ledger [OF d v _ this] d v show ?thesis by blast
qed

end
