(* ===== verification/Durability.thy ===== *)
theory Durability
  imports Profiles
begin

text \<open>
  The durability evidence of a bundle (\<open>durability-evidence.ts\<close>): the recovery bounds a host declares,
  the rung its rows support, the check of a claimed rung and the order of suite versions. Evidence is
  the JSON value a row carries; reasons are values of a datatype, one per message. A member read of
  \<open>null\<close> throws (\<open>TypeError\<close>).
\<close>

section \<open>Data\<close>

record recovery_term =
  rt_name :: string
  rt_ms :: int

record recovery_bound =
  rb_class :: string
  rb_bound :: int
  rb_terms :: "recovery_term list"

record evidence_row =
  er_id :: string
  er_result :: string
  er_evidence :: "json option"

datatype bounds_error =
    No_classes
  | Too_many_classes
  | Bad_class_name
  | Class_twice string
  | Bad_terms string
  | Bad_term string
  | Bad_bound string
  | Sum_differs string int int

datatype durability_rung = Single_instance | Multi_instance | Multi_region

definition max_recovery_classes :: nat where "max_recovery_classes = 16"

definition max_terms_per_class :: nat where "max_terms_per_class = 16"

definition rungs :: "(string \<times> durability_rung) list" where
  "rungs = [(''durable-single-instance'', Single_instance), (''durable-multi-instance'', Multi_instance),
            (''multi-region-qualified'', Multi_region)]"

definition row_prefix :: string where
  "row_prefix = ''openwop.requirement.0158.''"

definition single_instance_rows :: "string list" where
  "single_instance_rows =
     map (\<lambda>r. row_prefix @ r) [''kill-after-accept'', ''kill-during-execution'', ''duplicate-delivery'',
       ''poison-exhaustion'', ''bound-is-derived'']"

definition kill_rows :: "string list" where
  "kill_rows = [row_prefix @ ''kill-after-accept'', row_prefix @ ''kill-during-execution'']"

definition bound_row :: string where
  "bound_row = row_prefix @ ''bound-is-derived''"

section \<open>Declared bounds\<close>

definition name_char :: "char \<Rightarrow> bool" where
  "name_char c = (is_alnum c \<or> c = CHR ''.'' \<or> c = CHR ''_'' \<or> c = CHR ''-'')"

definition evidence_name :: "string \<Rightarrow> bool" where
  "evidence_name s = (case s of [] \<Rightarrow> False | c # cs \<Rightarrow> is_lower c \<and> length cs \<le> 63 \<and> list_all name_char cs)"

definition isName :: "json option \<Rightarrow> string option" where
  "isName v = (case v of Some (JStr s) \<Rightarrow> if evidence_name s then Some s else None | _ \<Rightarrow> None)"

definition isCount :: "json option \<Rightarrow> int option" where
  "isCount v = (case v of Some (JNum n) \<Rightarrow> if 0 \<le> n then Some n else None | _ \<Rightarrow> None)"

definition clean_term :: "string \<Rightarrow> json \<Rightarrow> bounds_error + recovery_term" where
  "clean_term cls t =
     (case (isName (member (Some t) ''name''), isCount (member (Some t) ''ms'')) of
        (Some n, Some ms) \<Rightarrow> Inr \<lparr>rt_name = n, rt_ms = ms\<rparr>
      | _ \<Rightarrow> Inl (Bad_term cls))"

definition terms_sum :: "recovery_term list \<Rightarrow> int" where
  "terms_sum ts = foldl (\<lambda>a t. a + rt_ms t) 0 ts"

definition clean_bound :: "string \<Rightarrow> json \<Rightarrow> bounds_error + recovery_bound" where
  "clean_bound cls entry =
     (case member (Some entry) ''terms'' of
        Some (JArr ts) \<Rightarrow>
          if ts = [] \<or> max_terms_per_class < length ts then Inl (Bad_terms cls)
          else ebind (emap (clean_term cls) ts) (\<lambda>clean.
            case isCount (member (Some entry) ''bound'') of
              None \<Rightarrow> Inl (Bad_bound cls)
            | Some b \<Rightarrow>
                if terms_sum clean \<noteq> b then Inl (Sum_differs cls (terms_sum clean) b)
                else Inr \<lparr>rb_class = cls, rb_bound = b, rb_terms = clean\<rparr>)
      | _ \<Rightarrow> Inl (Bad_terms cls))"

fun parse_entries :: "string list \<Rightarrow> json list \<Rightarrow> bounds_error + recovery_bound list" where
  "parse_entries seen [] = Inr []"
| "parse_entries seen (entry # rest) =
     (case isName (member (Some entry) ''class'') of
        None \<Rightarrow> Inl Bad_class_name
      | Some cls \<Rightarrow>
          if cls \<in> set seen then Inl (Class_twice cls)
          else ebind (clean_bound cls entry) (\<lambda>b.
               ebind (parse_entries (cls # seen) rest) (\<lambda>bs. Inr (b # bs))))"

definition parseRecoveryBounds :: "json option \<Rightarrow> bounds_error + recovery_bound list" where
  "parseRecoveryBounds raw =
     (case raw of
        Some (JArr xs) \<Rightarrow>
          if xs = [] then Inl No_classes
          else if max_recovery_classes < length xs then Inl Too_many_classes
          else parse_entries [] xs
      | _ \<Rightarrow> Inl No_classes)"

section \<open>The rung\<close>

datatype rung_reason =
    Row_absent string
  | Row_not_passed string string
  | No_usable_bounds bounds_error
  | No_observation string
  | Malformed_observation string
  | Undeclared_class string string
  | Wrong_bound string int int
  | Outside_bound string int int

datatype derived_rung = Rung durability_rung | No_rung rung_reason

text \<open>\<open>new Map(rows.map((r) => [r.id, r]))\<close>: the last row of an id wins.\<close>

definition by_id :: "evidence_row list \<Rightarrow> string \<Rightarrow> evidence_row option" where
  "by_id rows = map_of (rev (map (\<lambda>r. (er_id r, r)) rows))"

definition row_check :: "evidence_row list \<Rightarrow> string \<Rightarrow> rung_reason option" where
  "row_check rows i =
     (case by_id rows i of
        None \<Rightarrow> Some (Row_absent i)
      | Some row \<Rightarrow> if er_result row \<noteq> ''executed-pass'' then Some (Row_not_passed i (er_result row)) else None)"

definition row_member :: "evidence_row list \<Rightarrow> string \<Rightarrow> string \<Rightarrow> json option" where
  "row_member rows i k = (case by_id rows i of None \<Rightarrow> None | Some row \<Rightarrow> member (er_evidence row) k)"

definition kill_check :: "(string \<times> int) list \<Rightarrow> evidence_row list \<Rightarrow> string \<Rightarrow> js_exception + rung_reason option" where
  "kill_check bounds rows i =
     (let obs = row_member rows i ''recovery'' in
      if obs = None then Inr (Some (No_observation i))
      else if obs = Some JNull then Inl (TypeError ''class'')
      else case (isName (member obs ''class''), isCount (member obs ''boundMs''), isCount (member obs ''observedMs'')) of
        (Some cls, Some boundMs, Some observedMs) \<Rightarrow>
          (case map_of bounds cls of
             None \<Rightarrow> Inr (Some (Undeclared_class i cls))
           | Some bound \<Rightarrow>
               if boundMs \<noteq> bound then Inr (Some (Wrong_bound i boundMs bound))
               else if bound < observedMs then Inr (Some (Outside_bound i observedMs bound))
               else Inr None)
      | _ \<Rightarrow> Inr (Some (Malformed_observation i)))"

fun first_kill :: "(string \<times> int) list \<Rightarrow> evidence_row list \<Rightarrow> string list \<Rightarrow> js_exception + rung_reason option" where
  "first_kill bounds rows [] = Inr None"
| "first_kill bounds rows (i # ids) =
     ebind (kill_check bounds rows i) (\<lambda>r.
       case r of Some why \<Rightarrow> Inr (Some why) | None \<Rightarrow> first_kill bounds rows ids)"

definition bound_map :: "recovery_bound list \<Rightarrow> (string \<times> int) list" where
  "bound_map bs = rev (map (\<lambda>b. (rb_class b, rb_bound b)) bs)"

definition deriveRung :: "evidence_row list \<Rightarrow> js_exception + derived_rung" where
  "deriveRung rows =
     (case first_error (row_check rows) single_instance_rows of
        Some why \<Rightarrow> Inr (No_rung why)
      | None \<Rightarrow>
          (case parseRecoveryBounds (row_member rows bound_row ''recoveryBounds'') of
             Inl why \<Rightarrow> Inr (No_rung (No_usable_bounds why))
           | Inr bs \<Rightarrow>
               ebind (first_kill (bound_map bs) rows kill_rows) (\<lambda>r.
                 case r of Some why \<Rightarrow> Inr (No_rung why) | None \<Rightarrow> Inr (Rung Single_instance))))"

datatype rung_claim = Claim_ok | Unknown_rung json | Unsupported durability_rung rung_reason | Only_supports durability_rung durability_rung

definition checkRungClaim :: "json option \<Rightarrow> evidence_row list \<Rightarrow> js_exception + rung_claim" where
  "checkRungClaim claimed rows =
     (case claimed of
        None \<Rightarrow> Inr Claim_ok
      | Some v \<Rightarrow>
          (case (case v of JStr s \<Rightarrow> map_of rungs s | _ \<Rightarrow> None) of
             None \<Rightarrow> Inr (Unknown_rung v)
           | Some c \<Rightarrow>
               ebind (deriveRung rows) (\<lambda>d.
                 case d of
                   No_rung why \<Rightarrow> Inr (Unsupported c why)
                 | Rung r \<Rightarrow> if c \<noteq> r then Inr (Only_supports c r) else Inr Claim_ok)))"

section \<open>Suite versions\<close>

definition take_number :: "string \<Rightarrow> (nat \<times> string) option" where
  "take_number s =
     (let ds = takeWhile is_digit s in
      if ds = [] then None else Some (foldl digit_value 0 ds, dropWhile is_digit s))"

definition after_dot :: "string \<Rightarrow> string option" where
  "after_dot s = (case s of c # cs \<Rightarrow> if c = CHR ''.'' then Some cs else None | [] \<Rightarrow> None)"

definition parse_version :: "json option \<Rightarrow> nat list option" where
  "parse_version v =
     (case v of
        Some (JStr s) \<Rightarrow>
          Option.bind (take_number s) (\<lambda>(a, s).
          Option.bind (after_dot s) (\<lambda>s. Option.bind (take_number s) (\<lambda>(b, s).
          Option.bind (after_dot s) (\<lambda>s. Option.bind (take_number s) (\<lambda>(c, s). Some [a, b, c])))))
      | _ \<Rightarrow> None)"

fun first_greater :: "nat list \<Rightarrow> nat list \<Rightarrow> bool" where
  "first_greater (x # xs) (y # ys) = (if x \<noteq> y then y < x else first_greater xs ys)"
| "first_greater _ _ = False"

definition emittedByNewerSuite :: "json option \<Rightarrow> string \<Rightarrow> bool" where
  "emittedByNewerSuite bundleSuite verifierSuite =
     (case (parse_version bundleSuite, parse_version (Some (JStr verifierSuite))) of
        (Some b, Some mine) \<Rightarrow> first_greater b mine
      | _ \<Rightarrow> False)"

section \<open>What a declaration promises\<close>

definition term_ok :: "recovery_term \<Rightarrow> bool" where
  "term_ok t = (evidence_name (rt_name t) \<and> 0 \<le> rt_ms t)"

definition bound_ok :: "recovery_bound \<Rightarrow> bool" where
  "bound_ok b =
     (evidence_name (rb_class b) \<and> rb_terms b \<noteq> [] \<and> length (rb_terms b) \<le> 16 \<and> list_all term_ok (rb_terms b) \<and>
      rb_bound b = sum_list (map rt_ms (rb_terms b)))"

definition well_declared :: "recovery_bound list \<Rightarrow> bool" where
  "well_declared bs = (bs \<noteq> [] \<and> length bs \<le> 16 \<and> distinct (map rb_class bs) \<and> list_all bound_ok bs)"

text \<open>The declaration a host's seam returns.\<close>

definition term_json :: "recovery_term \<Rightarrow> json" where
  "term_json t = JObj [(''name'', JStr (rt_name t)), (''ms'', JNum (rt_ms t))]"

definition bound_json :: "recovery_bound \<Rightarrow> json" where
  "bound_json b =
     JObj [(''class'', JStr (rb_class b)), (''bound'', JNum (rb_bound b)), (''terms'', JArr (map term_json (rb_terms b)))]"

definition bounds_json :: "recovery_bound list \<Rightarrow> json" where
  "bounds_json bs = JArr (map bound_json bs)"

lemma terms_sum_list: "terms_sum ts = sum_list (map rt_ms ts)"
proof -
  have "foldl (\<lambda>a t. a + rt_ms t) n ts = n + sum_list (map rt_ms ts)" for n
    by (induction ts arbitrary: n) auto
  then show ?thesis by (simp add: terms_sum_def)
qed

lemma isName_Some: "isName v = Some s \<longleftrightarrow> v = Some (JStr s) \<and> evidence_name s"
  by (auto simp: isName_def split: option.splits json.splits if_splits)

lemma isCount_Some: "isCount v = Some n \<longleftrightarrow> v = Some (JNum n) \<and> 0 \<le> n"
  by (auto simp: isCount_def split: option.splits json.splits if_splits)

lemma clean_term_Inr:
  "clean_term cls t = Inr r \<longleftrightarrow>
     isName (member (Some t) ''name'') = Some (rt_name r) \<and> isCount (member (Some t) ''ms'') = Some (rt_ms r)"
  by (cases r) (auto simp: clean_term_def split: option.splits)

lemma clean_terms_ok: "emap (clean_term cls) ts = Inr rs \<Longrightarrow> length rs = length ts \<and> list_all term_ok rs"
  by (induction ts arbitrary: rs) (auto simp: ebind_Inr_iff clean_term_Inr isName_Some isCount_Some term_ok_def)

lemma clean_bound_ok:
  assumes "clean_bound cls entry = Inr b" and "evidence_name cls"
  shows "bound_ok b \<and> rb_class b = cls"
  using assms
  by (auto simp: clean_bound_def ebind_Inr_iff bound_ok_def terms_sum_list max_terms_per_class_def
      split: option.splits json.splits if_splits dest!: clean_terms_ok)

lemma parse_entries_ok:
  "parse_entries seen xs = Inr bs \<Longrightarrow>
   length bs = length xs \<and> list_all bound_ok bs \<and> distinct (map rb_class bs) \<and> set (map rb_class bs) \<inter> set seen = {}"
proof (induction seen xs arbitrary: bs rule: parse_entries.induct)
  case (2 seen entry rest)
  from "2.prems" obtain cls b bs' where c: "isName (member (Some entry) ''class'') = Some cls" "cls \<notin> set seen"
    "clean_bound cls entry = Inr b" "parse_entries (cls # seen) rest = Inr bs'" "bs = b # bs'"
    by (auto simp: ebind_Inr_iff split: option.splits if_splits)
  with "2.IH" [OF c(1,2)] clean_bound_ok [OF c(3)] show ?case by (auto simp: isName_Some)
qed simp

lemma member_reads [simp]:
  "member (Some (bound_json b)) ''class'' = Some (JStr (rb_class b))"
  "member (Some (bound_json b)) ''bound'' = Some (JNum (rb_bound b))"
  "member (Some (bound_json b)) ''terms'' = Some (JArr (map term_json (rb_terms b)))"
  "member (Some (term_json t)) ''name'' = Some (JStr (rt_name t))"
  "member (Some (term_json t)) ''ms'' = Some (JNum (rt_ms t))"
  by (simp_all add: member_def bound_json_def term_json_def js_get_def)

lemma terms_read: "list_all term_ok ts \<Longrightarrow> emap (clean_term cls) (map term_json ts) = Inr ts"
  by (induction ts) (auto simp: clean_term_Inr isName_Some isCount_Some term_ok_def ebind_Inr_iff)

lemma terms_nonneg: "list_all term_ok ts \<Longrightarrow> 0 \<le> sum_list (map rt_ms ts)"
  by (induction ts) (auto simp: term_ok_def)

lemma bound_read: "bound_ok b \<Longrightarrow> clean_bound (rb_class b) (bound_json b) = Inr b"
  by (auto simp: clean_bound_def bound_ok_def terms_read terms_sum_list isCount_def terms_nonneg max_terms_per_class_def)

lemma entries_read:
  "list_all bound_ok bs \<Longrightarrow> distinct (map rb_class bs) \<Longrightarrow> set (map rb_class bs) \<inter> set seen = {} \<Longrightarrow>
   parse_entries seen (map bound_json bs) = Inr bs"
proof (induction bs arbitrary: seen)
  case (Cons b bs)
  then have "parse_entries (rb_class b # seen) (map bound_json bs) = Inr bs" by (intro Cons.IH) auto
  with Cons.prems show ?case by (auto simp: isName_def bound_read bound_ok_def)
qed simp

lemma parsed_well_declared: "parseRecoveryBounds raw = Inr bs \<Longrightarrow> well_declared bs"
  by (auto simp: parseRecoveryBounds_def well_declared_def max_recovery_classes_def
      split: option.splits json.splits if_splits dest!: parse_entries_ok)

lemma declaration_parsed: "well_declared bs \<Longrightarrow> parseRecoveryBounds (Some (bounds_json bs)) = Inr bs"
  by (auto simp: parseRecoveryBounds_def bounds_json_def well_declared_def max_recovery_classes_def entries_read)

text \<open>
  Whatever a host's seam returns, bounds that are accepted are well declared (between one and
  sixteen classes with distinct short names, each with one to sixteen named non-negative terms whose sum
  is the bound), and the declaration of any well-declared list is read back as that list.
\<close>

theorem declared_bounds_are_sums:
  "(parseRecoveryBounds raw = Inr bs \<longrightarrow> well_declared bs) \<and>
   (well_declared bs \<longleftrightarrow> parseRecoveryBounds (Some (bounds_json bs)) = Inr bs)"
  using parsed_well_declared declaration_parsed by blast

section \<open>What a rung rests on\<close>

definition kill_ok :: "recovery_bound list \<Rightarrow> evidence_row list \<Rightarrow> string \<Rightarrow> bool" where
  "kill_ok bs rows i =
     (\<exists>b \<in> set bs. \<exists>observed. 0 \<le> observed \<and> observed \<le> rb_bound b \<and>
        (let obs = row_member rows i ''recovery'' in
         member obs ''class'' = Some (JStr (rb_class b)) \<and> member obs ''boundMs'' = Some (JNum (rb_bound b)) \<and>
         member obs ''observedMs'' = Some (JNum observed)))"

definition passed_row :: "evidence_row list \<Rightarrow> string \<Rightarrow> bool" where
  "passed_row rows i = (\<exists>row. by_id rows i = Some row \<and> er_result row = ''executed-pass'')"

definition supports_single :: "evidence_row list \<Rightarrow> bool" where
  "supports_single rows =
     ((\<forall>i \<in> set single_instance_rows. passed_row rows i) \<and>
      (\<exists>bs. parseRecoveryBounds (row_member rows bound_row ''recoveryBounds'') = Inr bs \<and>
            (\<forall>i \<in> set kill_rows. kill_ok bs rows i)))"

lemma row_check_None: "row_check rows i = None \<longleftrightarrow> passed_row rows i"
  by (auto simp: row_check_def passed_row_def split: option.splits)

lemma bound_map_Some:
  assumes "well_declared bs"
  shows "map_of (bound_map bs) cls = Some n \<longleftrightarrow> (\<exists>b \<in> set bs. rb_class b = cls \<and> rb_bound b = n)"
proof -
  have "distinct (map fst (map (\<lambda>b. (rb_class b, rb_bound b)) bs))"
    using assms by (simp add: well_declared_def comp_def)
  then have "distinct (map fst (bound_map bs))" by (simp add: bound_map_def rev_map [symmetric])
  then have "map_of (bound_map bs) cls = Some n \<longleftrightarrow> (cls, n) \<in> set (bound_map bs)" by simp
  then show ?thesis by (auto simp: bound_map_def)
qed

lemma declared_bound_nonneg: "well_declared bs \<Longrightarrow> b \<in> set bs \<Longrightarrow> 0 \<le> rb_bound b \<and> evidence_name (rb_class b)"
  by (auto simp: well_declared_def list_all_iff bound_ok_def intro!: terms_nonneg)

lemma kill_check_passes:
  assumes "well_declared bs"
  shows "kill_check (bound_map bs) rows i = Inr None \<longleftrightarrow> kill_ok bs rows i"
proof -
  let ?obs = "row_member rows i ''recovery''"
  have "kill_check (bound_map bs) rows i = Inr None \<longleftrightarrow>
      (\<exists>cls n observed. isName (member ?obs ''class'') = Some cls \<and> isCount (member ?obs ''boundMs'') = Some n \<and>
         isCount (member ?obs ''observedMs'') = Some observed \<and> map_of (bound_map bs) cls = Some n \<and> observed \<le> n)"
    by (cases "?obs = None \<or> ?obs = Some JNull")
      (auto simp: kill_check_def Let_def member_def isName_def isCount_def split: option.splits)
  also have "\<dots> \<longleftrightarrow> kill_ok bs rows i"
    using declared_bound_nonneg [OF assms]
    by (auto simp: kill_ok_def Let_def isName_Some isCount_Some bound_map_Some [OF assms])
  finally show ?thesis .
qed

lemma first_kill_passes:
  "well_declared bs \<Longrightarrow> first_kill (bound_map bs) rows ids = Inr None \<longleftrightarrow> (\<forall>i \<in> set ids. kill_ok bs rows i)"
  by (induction ids) (auto simp: ebind_Inr_iff kill_check_passes [symmetric] split: option.splits)

lemma rung_single_iff: "deriveRung rows = Inr (Rung r) \<longleftrightarrow> r = Single_instance \<and> supports_single rows"
proof (cases "first_error (row_check rows) single_instance_rows")
  case None
  then have p: "\<forall>i \<in> set single_instance_rows. passed_row rows i" by (simp add: first_error_None_iff row_check_None)
  show ?thesis
  proof (cases "parseRecoveryBounds (row_member rows bound_row ''recoveryBounds'')")
    case (Inr bs)
    then have "first_kill (bound_map bs) rows kill_rows = Inr None \<longleftrightarrow> (\<forall>i \<in> set kill_rows. kill_ok bs rows i)"
      by (intro first_kill_passes parsed_well_declared)
    with None p Inr show ?thesis
      by (auto simp: deriveRung_def supports_single_def ebind_Inr_iff split: option.splits)
  qed (use None in \<open>simp add: deriveRung_def supports_single_def\<close>)
next
  case (Some why)
  then have "\<not> (\<forall>i \<in> set single_instance_rows. passed_row rows i)"
    by (metis first_error_None_iff row_check_None option.distinct(1))
  with Some show ?thesis by (auto simp: deriveRung_def supports_single_def)
qed

text \<open>
  Claim C24: a claimed rung is accepted exactly when there is none or it is the single-instance rung and
  the rows carry its evidence: the last row of each of the five ids passed, the bounds row declares
  readable bounds, and each kill row names a declared class, was judged against that class's bound and
  resumed within it. No higher rung is ever accepted.
\<close>

theorem rung_claim_accepted_iff:
  "checkRungClaim claimed rows = Inr Claim_ok \<longleftrightarrow>
     claimed = None \<or> (claimed = Some (JStr ''durable-single-instance'') \<and> supports_single rows)"
proof -
  have r: "map_of rungs s = Some Single_instance \<longleftrightarrow> s = ''durable-single-instance''" for s by (simp add: rungs_def)
  have "checkRungClaim (Some v) rows = Inr Claim_ok \<longleftrightarrow>
      (\<exists>s c. v = JStr s \<and> map_of rungs s = Some c \<and> deriveRung rows = Inr (Rung c))" for v
    by (cases "deriveRung rows")
      (auto simp: checkRungClaim_def split: option.splits json.splits derived_rung.splits)
  then show ?thesis by (cases claimed) (auto simp: checkRungClaim_def rung_single_iff r)
qed

lemma split_Cons:
  "(\<exists>pre j post. i # ids' = pre @ j # post \<and> P pre j) \<longleftrightarrow> P [] i \<or> (\<exists>pre j post. ids' = pre @ j # post \<and> P (i # pre) j)"
proof
  assume "\<exists>pre j post. i # ids' = pre @ j # post \<and> P pre j"
  then obtain pre j post where "i # ids' = pre @ j # post" "P pre j" by blast
  then show "P [] i \<or> (\<exists>pre j post. ids' = pre @ j # post \<and> P (i # pre) j)" by (cases pre) auto
next
  assume "P [] i \<or> (\<exists>pre j post. ids' = pre @ j # post \<and> P (i # pre) j)"
  then show "\<exists>pre j post. i # ids' = pre @ j # post \<and> P pre j"
    by (metis append_Cons append_Nil)
qed

text \<open>
  Deriving a rung throws in exactly one situation: the five rows passed, the bounds are readable
  and the first kill row whose evidence does not already hold carries a null observation. Every other
  list of rows gets a verdict.
\<close>

theorem derive_rung_throws_iff:
  "deriveRung rows = Inl e \<longleftrightarrow>
     e = TypeError ''class'' \<and> list_all (passed_row rows) single_instance_rows \<and>
     (\<exists>bs. parseRecoveryBounds (row_member rows bound_row ''recoveryBounds'') = Inr bs \<and>
        (\<exists>pre i post. kill_rows = pre @ i # post \<and> list_all (kill_ok bs rows) pre \<and>
           row_member rows i ''recovery'' = Some JNull))"
proof -
  have one: "kill_check bm rows i = Inl e \<longleftrightarrow> e = TypeError ''class'' \<and> row_member rows i ''recovery'' = Some JNull" for bm i
    by (auto simp: kill_check_def Let_def split: option.splits)
  have all: "first_kill (bound_map bs) rows ids = Inl e \<longleftrightarrow>
      e = TypeError ''class'' \<and> (\<exists>pre i post. ids = pre @ i # post \<and> (\<forall>j \<in> set pre. kill_ok bs rows j) \<and>
           row_member rows i ''recovery'' = Some JNull)" if "well_declared bs" for bs ids
  proof (induction ids)
    case (Cons i ids)
    have step: "first_kill (bound_map bs) rows (i # ids) = Inl e \<longleftrightarrow>
        (e = TypeError ''class'' \<and> row_member rows i ''recovery'' = Some JNull) \<or>
        (kill_ok bs rows i \<and> first_kill (bound_map bs) rows ids = Inl e)"
      by (auto simp: ebind_Inl_iff one kill_check_passes [OF that, symmetric] split: option.splits)
    have cons: "(\<forall>j \<in> set (i # pre). kill_ok bs rows j) \<longleftrightarrow> kill_ok bs rows i \<and> (\<forall>j \<in> set pre. kill_ok bs rows j)" for pre
      by simp
    have nil: "(\<forall>j \<in> set []. kill_ok bs rows j) \<longleftrightarrow> True" by simp
    show ?case unfolding step Cons.IH split_Cons cons nil by blast
  qed simp
  show ?thesis
  proof (cases "first_error (row_check rows) single_instance_rows")
    case None
    then have "\<forall>i \<in> set single_instance_rows. passed_row rows i" by (simp add: first_error_None_iff row_check_None)
    with None show ?thesis
    proof (cases "parseRecoveryBounds (row_member rows bound_row ''recoveryBounds'')")
      case (Inr bs)
      with \<open>\<forall>i \<in> set single_instance_rows. passed_row rows i\<close> None
      show ?thesis using all [OF parsed_well_declared [OF Inr], of kill_rows]
        by (simp add: deriveRung_def ebind_Inl_iff list_all_iff split: option.splits)
    qed (simp add: deriveRung_def)
  next
    case (Some why)
    then have "\<not> (\<forall>i \<in> set single_instance_rows. passed_row rows i)"
      by (metis first_error_None_iff row_check_None option.distinct(1))
    with Some show ?thesis by (auto simp: deriveRung_def list_all_iff)
  qed
qed

section \<open>The order of suite versions\<close>

definition version_text :: "nat \<Rightarrow> nat \<Rightarrow> nat \<Rightarrow> string \<Rightarrow> string" where
  "version_text a b c rest = nat_digits a @ ''.'' @ nat_digits b @ ''.'' @ nat_digits c @ rest"

definition no_digit_first :: "string \<Rightarrow> bool" where
  "no_digit_first s = (case s of [] \<Rightarrow> True | c # cs \<Rightarrow> \<not> is_digit c)"

lemma take_number_reads: "no_digit_first rest \<Longrightarrow> take_number (nat_digits n @ rest) = Some (n, rest)"
proof -
  assume r: "no_digit_first rest"
  have "takeWhile is_digit (nat_digits n @ rest) = nat_digits n \<and> dropWhile is_digit (nat_digits n @ rest) = rest"
    using nat_digits_digits [of n] r
    by (cases rest) (auto simp: list_all_iff no_digit_first_def takeWhile_append dropWhile_append)
  then show ?thesis by (simp add: take_number_def Let_def nat_digits_nonempty nat_digits_value)
qed

lemma parse_version_text: "no_digit_first rest \<Longrightarrow> parse_version (Some (JStr (version_text a b c rest))) = Some [a, b, c]"
proof -
  have dot: "no_digit_first (CHR ''.'' # s)" for s by (simp add: no_digit_first_def is_digit_def)
  show "no_digit_first rest \<Longrightarrow> ?thesis"
    by (simp add: parse_version_def version_text_def take_number_reads dot after_dot_def)
qed

text \<open>
  A bundle counts as cut by a newer suite exactly when its version is lexicographically greater
  by (major, minor, patch), compared as numbers and not as text, whatever suffix either version has.
\<close>

theorem newer_suite_is_greater_version:
  assumes "no_digit_first rest" and "no_digit_first rest'"
  shows "emittedByNewerSuite (Some (JStr (version_text a b c rest))) (version_text a' b' c' rest') \<longleftrightarrow>
     a' < a \<or> a' = a \<and> (b' < b \<or> b' = b \<and> c' < c)"
  using assms by (auto simp: emittedByNewerSuite_def parse_version_text)

theorem newer_suite_is_greater_version_witness:
  "emittedByNewerSuite (Some (JStr (version_text 2 10 0 ''-rc.1''))) (version_text 2 9 3 [])"
  using newer_suite_is_greater_version [of "''-rc.1''" "[]" 2 10 0 2 9 3]
  by (simp add: no_digit_first_def is_digit_def)

section \<open>Concrete evidence\<close>

definition sample_bounds :: "recovery_bound list" where
  "sample_bounds =
     [\<lparr>rb_class = ''outbox-lane'', rb_bound = 65, rb_terms = [\<lparr>rt_name = ''tick'', rt_ms = 5\<rparr>, \<lparr>rt_name = ''grace'', rt_ms = 60\<rparr>]\<rparr>,
      \<lparr>rb_class = ''lease'', rb_bound = 750, rb_terms = [\<lparr>rt_name = ''ttl'', rt_ms = 720\<rparr>, \<lparr>rt_name = ''poll'', rt_ms = 30\<rparr>]\<rparr>]"

definition observation :: "int \<Rightarrow> json" where
  "observation ms = JObj [(''class'', JStr ''lease''), (''boundMs'', JNum 750), (''observedMs'', JNum ms)]"

definition sample_rows :: "json \<Rightarrow> evidence_row list" where
  "sample_rows obs =
     map (\<lambda>i. \<lparr>er_id = i, er_result = ''executed-pass'',
       er_evidence = (if i \<in> set kill_rows then Some (JObj [(''recovery'', obs)])
                      else if i = bound_row then Some (JObj [(''recoveryBounds'', bounds_json sample_bounds)]) else None)\<rparr>)
       single_instance_rows"

lemma sample_declared: "well_declared sample_bounds"
  by (simp add: well_declared_def sample_bounds_def bound_ok_def term_ok_def evidence_name_def is_lower_def
      name_char_def is_alnum_def is_upper_def is_digit_def)

lemma sample_passed: "i \<in> set single_instance_rows \<Longrightarrow> passed_row (sample_rows obs) i"
  by (auto simp: passed_row_def by_id_def sample_rows_def single_instance_rows_def row_prefix_def)

lemma sample_row_members:
  "row_member (sample_rows obs) bound_row ''recoveryBounds'' = Some (bounds_json sample_bounds)"
  "i \<in> set kill_rows \<Longrightarrow> row_member (sample_rows obs) i ''recovery'' = Some obs"
  by (auto simp: row_member_def by_id_def sample_rows_def single_instance_rows_def kill_rows_def bound_row_def
      row_prefix_def member_def js_get_def)

lemma sample_supports: "0 \<le> ms \<Longrightarrow> ms \<le> 750 \<Longrightarrow> supports_single (sample_rows (observation ms))"
proof -
  assume "0 \<le> ms" "ms \<le> 750"
  then have "kill_ok sample_bounds (sample_rows (observation ms)) i" if "i \<in> set kill_rows" for i
    unfolding kill_ok_def sample_row_members(2) [OF that]
    by (intro bexI [of _ "sample_bounds ! 1"]) (simp_all add: sample_bounds_def observation_def member_def js_get_def)
  then show ?thesis
    using sample_passed sample_row_members(1) declaration_parsed [OF sample_declared] by (auto simp: supports_single_def)
qed

theorem declared_bounds_are_sums_witness:
  "well_declared sample_bounds \<and> parseRecoveryBounds (Some (bounds_json sample_bounds)) = Inr sample_bounds"
  using declared_bounds_are_sums [of None sample_bounds] sample_declared by simp

theorem rung_claim_accepted_iff_witness:
  "checkRungClaim (Some (JStr ''durable-single-instance'')) (sample_rows (observation 700)) = Inr Claim_ok"
  using rung_claim_accepted_iff sample_supports [of 700] by simp

theorem derive_rung_throws_iff_witness: "deriveRung (sample_rows JNull) = Inl (TypeError ''class'')"
proof -
  have "kill_rows = [] @ (row_prefix @ ''kill-after-accept'') # [row_prefix @ ''kill-during-execution'']"
    by (simp add: kill_rows_def)
  moreover have "row_member (sample_rows JNull) (row_prefix @ ''kill-after-accept'') ''recovery'' = Some JNull"
    by (rule sample_row_members) (simp add: kill_rows_def)
  moreover have "list_all (passed_row (sample_rows JNull)) single_instance_rows"
    using sample_passed by (simp add: list_all_iff)
  moreover have "parseRecoveryBounds (row_member (sample_rows JNull) bound_row ''recoveryBounds'') = Inr sample_bounds"
    by (simp add: sample_row_members declaration_parsed sample_declared)
  ultimately show ?thesis unfolding derive_rung_throws_iff by (intro conjI refl exI) (assumption | simp)+
qed

end
