(* ===== verification/Jcs.thy ===== *)
theory Jcs
  imports Prelude
begin

text \<open>
  Canonical JSON (\<open>jcs.ts\<close>): the serializer of RFC 8785 with its refusals, the comparison of names by
  code unit and the I-JSON parser. Text is a list of UTF-16 code units. The parser's index is the text
  that is left; its recursion is bounded by fuel that is shown to be enough. What the language does with
  a number (\<open>Number.isFinite\<close>, \<open>Object.is(n, -0)\<close>, \<open>String(n)\<close>, \<open>Number(literal)\<close>) is a record of
  four operations, its laws a locale.
\<close>

type_synonym units = "nat list"

section \<open>Values\<close>

datatype refusal = Duplicate_name | Lone_surrogate | Integer_out_of_range | Non_finite | Not_json

text \<open>\<open>V_other\<close> is any value without JSON form: undefined, an array hole, a function, a class instance.\<close>

datatype 'n jv =
    V_null
  | V_bool bool
  | V_num 'n
  | V_str units
  | V_arr "'n jv list"
  | V_obj "(units \<times> 'n jv) list"
  | V_other string

record 'n number_ops =
  no_finite :: "'n \<Rightarrow> bool"
  no_negZero :: "'n \<Rightarrow> bool"
  no_string :: "'n \<Rightarrow> units"
  no_number :: "units \<Rightarrow> 'n option"

definition units_of :: "string \<Rightarrow> units" where
  "units_of s = map of_char s"

section \<open>Serializing\<close>

fun codeUnitCompare :: "units \<Rightarrow> units \<Rightarrow> int" where
  "codeUnitCompare (a # as) (b # bs) = (if a \<noteq> b then int a - int b else codeUnitCompare as bs)"
| "codeUnitCompare as bs = int (length as) - int (length bs)"

fun well_formed :: "units \<Rightarrow> bool" where
  "well_formed [] = True"
| "well_formed (u # us) =
     (if 0xD800 \<le> u \<and> u \<le> 0xDBFF
      then (case us of
              next # us' \<Rightarrow> if 0xDC00 \<le> next \<and> next \<le> 0xDFFF then well_formed us' else False
            | [] \<Rightarrow> False)
      else if 0xDC00 \<le> u \<and> u \<le> 0xDFFF then False else well_formed us)"

definition assertWellFormed :: "units \<Rightarrow> refusal + unit" where
  "assertWellFormed s = (if well_formed s then Inr () else Inl Lone_surrogate)"

definition serializeNumber :: "'n number_ops \<Rightarrow> 'n \<Rightarrow> refusal + units" where
  "serializeNumber ops n =
     (if \<not> no_finite ops n then Inl Non_finite else Inr (if no_negZero ops n then units_of ''0'' else no_string ops n))"

text \<open>\<open>JSON.stringify\<close> of a well-formed string.\<close>

definition hex_unit :: "nat \<Rightarrow> nat" where
  "hex_unit n = (if n < 10 then 48 + n else 87 + n)"

definition escape_unit :: "nat \<Rightarrow> units" where
  "escape_unit u =
     (if u = 0x22 then [0x5C, 0x22] else if u = 0x5C then [0x5C, 0x5C]
      else if u = 8 then [0x5C, 0x62] else if u = 9 then [0x5C, 0x74] else if u = 10 then [0x5C, 0x6E]
      else if u = 12 then [0x5C, 0x66] else if u = 13 then [0x5C, 0x72]
      else if u < 0x20 then [0x5C, 0x75, 0x30, 0x30, hex_unit (u div 16), hex_unit (u mod 16)]
      else [u])"

definition stringify :: "units \<Rightarrow> units" where
  "stringify s = 0x22 # concat (map escape_unit s) @ [0x22]"

definition comma_join :: "units list \<Rightarrow> units" where
  "comma_join ts = (case ts of [] \<Rightarrow> [] | t # ts \<Rightarrow> t @ concat (map (Cons 0x2C) ts))"

definition by_name :: "units \<times> 'a \<Rightarrow> units \<times> 'a \<Rightarrow> bool" where
  "by_name a b = (codeUnitCompare (fst a) (fst b) \<le> 0)"

definition member_text :: "units \<times> (refusal + units) \<Rightarrow> refusal + units" where
  "member_text m = ebind (assertWellFormed (fst m)) (\<lambda>_. ebind (snd m) (\<lambda>t. Inr (stringify (fst m) @ 0x3A # t)))"

primrec canonicalJSON :: "'n number_ops \<Rightarrow> 'n jv \<Rightarrow> refusal + units" where
  "canonicalJSON ops V_null = Inr (units_of ''null'')"
| "canonicalJSON ops (V_bool b) = Inr (units_of (if b then ''true'' else ''false''))"
| "canonicalJSON ops (V_num n) = serializeNumber ops n"
| "canonicalJSON ops (V_str s) = ebind (assertWellFormed s) (\<lambda>_. Inr (stringify s))"
| "canonicalJSON ops (V_arr vs) = ebind (emap id (map (canonicalJSON ops) vs)) (\<lambda>ts. Inr (0x5B # comma_join ts @ [0x5D]))"
| "canonicalJSON ops (V_obj es) =
     ebind (emap member_text (sort_by by_name (map (map_prod id (canonicalJSON ops)) es))) (\<lambda>ts. Inr (0x7B # comma_join ts @ [0x7D]))"
| "canonicalJSON ops (V_other t) = Inl Not_json"

section \<open>Parsing\<close>

definition is_ws :: "nat \<Rightarrow> bool" where
  "is_ws u = (u = 0x20 \<or> u = 9 \<or> u = 10 \<or> u = 13)"

definition ws :: "units \<Rightarrow> units" where
  "ws s = dropWhile is_ws s"

definition hex_value :: "nat \<Rightarrow> nat option" where
  "hex_value u =
     (if 48 \<le> u \<and> u \<le> 57 then Some (u - 48) else if 97 \<le> u \<and> u \<le> 102 then Some (u - 87)
      else if 65 \<le> u \<and> u \<le> 70 then Some (u - 55) else None)"

definition hex4 :: "units \<Rightarrow> nat option" where
  "hex4 h =
     (case map hex_value h of
        [Some a, Some b, Some c, Some d] \<Rightarrow> Some (((a * 16 + b) * 16 + c) * 16 + d)
      | _ \<Rightarrow> None)"

definition simple_escape :: "nat \<Rightarrow> nat option" where
  "simple_escape e =
     (if e = 0x22 \<or> e = 0x5C \<or> e = 0x2F then Some e else if e = 0x62 then Some 8 else if e = 0x66 then Some 12
      else if e = 0x6E then Some 10 else if e = 0x72 then Some 13 else if e = 0x74 then Some 9 else None)"

fun str_body :: "units \<Rightarrow> units \<Rightarrow> refusal + units \<times> units" where
  "str_body out [] = Inl Not_json"
| "str_body out (c # r) =
     (if c = 0x22 then Inr (out, r)
      else if c = 0x5C then
        (case r of
           [] \<Rightarrow> Inl Not_json
         | e # r \<Rightarrow>
             (case simple_escape e of
                Some u \<Rightarrow> str_body (out @ [u]) r
              | None \<Rightarrow>
                  if e = 0x75
                  then (case hex4 (take 4 r) of Some u \<Rightarrow> str_body (out @ [u]) (drop 4 r) | None \<Rightarrow> Inl Not_json)
                  else Inl Not_json))
      else if c < 0x20 then Inl Not_json
      else str_body (out @ [c]) r)"

definition p_str :: "units \<Rightarrow> refusal + units \<times> units" where
  "p_str s =
     (case s of
        [] \<Rightarrow> Inl Not_json
      | c # r \<Rightarrow>
          if c \<noteq> 0x22 then Inl Not_json
          else ebind (str_body [] r) (\<lambda>(out, r). ebind (assertWellFormed out) (\<lambda>_. Inr (out, r))))"

text \<open>The number expression: sign, integer part, optional fraction and exponent.\<close>

definition digit :: "nat \<Rightarrow> bool" where
  "digit u = (48 \<le> u \<and> u \<le> 57)"

definition scan_sign :: "units \<Rightarrow> units \<times> units" where
  "scan_sign s = (case s of c # r \<Rightarrow> if c = 0x2D then ([c], r) else ([], s) | [] \<Rightarrow> ([], []))"

definition scan_int :: "units \<Rightarrow> (units \<times> units) option" where
  "scan_int s =
     (case s of
        [] \<Rightarrow> None
      | c # r \<Rightarrow>
          if c = 48 then Some ([c], r)
          else if digit c then Some (c # takeWhile digit r, dropWhile digit r) else None)"

definition scan_frac :: "units \<Rightarrow> units \<times> units" where
  "scan_frac s =
     (case s of
        c # r \<Rightarrow> if c = 0x2E \<and> takeWhile digit r \<noteq> [] then (c # takeWhile digit r, dropWhile digit r) else ([], s)
      | [] \<Rightarrow> ([], []))"

definition exp_sign :: "units \<Rightarrow> units \<times> units" where
  "exp_sign s = (case s of c # r \<Rightarrow> if c = 0x2B \<or> c = 0x2D then ([c], r) else ([], s) | [] \<Rightarrow> ([], []))"

definition scan_exp :: "units \<Rightarrow> units \<times> units" where
  "scan_exp s =
     (case s of
        c # r \<Rightarrow>
          let (sg, r') = exp_sign r in
          if (c = 0x65 \<or> c = 0x45) \<and> takeWhile digit r' \<noteq> [] then (c # sg @ takeWhile digit r', dropWhile digit r') else ([], s)
      | [] \<Rightarrow> ([], []))"

definition scan_number :: "units \<Rightarrow> (units \<times> bool \<times> units) option" where
  "scan_number s =
     (let (sg, s1) = scan_sign s in
      case scan_int s1 of
        None \<Rightarrow> None
      | Some (i, s2) \<Rightarrow>
          let (f, s3) = scan_frac s2; (e, s4) = scan_exp s3 in
          Some (sg @ i @ f @ e, f = [] \<and> e = [], s4))"

definition big_int :: "units \<Rightarrow> int" where
  "big_int t =
     (let (sg, ds) = scan_sign t; n = foldl (\<lambda>a u. a * 10 + (int u - 48)) 0 ds in if sg = [] then n else - n)"

definition max_exact_big :: int where
  "max_exact_big = 2 ^ 53 - 1"

definition p_num :: "'n number_ops \<Rightarrow> units \<Rightarrow> refusal + 'n jv \<times> units" where
  "p_num ops s =
     (case scan_number s of
        None \<Rightarrow> Inl Not_json
      | Some (t, integer, r) \<Rightarrow>
          if integer \<and> (max_exact_big < big_int t \<or> big_int t < - max_exact_big) then Inl Integer_out_of_range
          else (case no_number ops t of None \<Rightarrow> Inl Non_finite | Some n \<Rightarrow> Inr (V_num n, r)))"

type_synonym 'a parsed = "(refusal + 'a \<times> units) option"

definition after_text :: "string \<Rightarrow> units \<Rightarrow> units option" where
  "after_text w s = (let t = units_of w in if take (length t) s = t then Some (drop (length t) s) else None)"

definition p_atom :: "'n number_ops \<Rightarrow> units \<Rightarrow> refusal + 'n jv \<times> units" where
  "p_atom ops s =
     (case after_text ''true'' s of
        Some r \<Rightarrow> Inr (V_bool True, r)
      | None \<Rightarrow>
          (case after_text ''false'' s of
             Some r \<Rightarrow> Inr (V_bool False, r)
           | None \<Rightarrow>
               (case after_text ''null'' s of
                  Some r \<Rightarrow> Inr (V_null, r)
                | None \<Rightarrow>
                    (case s of
                       c # r \<Rightarrow> if c = 0x2D \<or> digit c then p_num ops s else Inl Not_json
                     | [] \<Rightarrow> Inl Not_json))))"

fun p_val :: "'n number_ops \<Rightarrow> nat \<Rightarrow> units \<Rightarrow> 'n jv parsed"
  and p_members :: "'n number_ops \<Rightarrow> nat \<Rightarrow> (units \<times> 'n jv) list \<Rightarrow> units \<Rightarrow> 'n jv parsed"
  and p_elements :: "'n number_ops \<Rightarrow> nat \<Rightarrow> 'n jv list \<Rightarrow> units \<Rightarrow> 'n jv parsed"
where
  "p_val ops 0 s = None"
| "p_val ops (Suc n) s =
     (case ws s of
        [] \<Rightarrow> Some (Inl Not_json)
      | c # r \<Rightarrow>
          if c = 0x7B then
            (case ws r of d # r' \<Rightarrow> if d = 0x7D then Some (Inr (V_obj [], r')) else p_members ops n [] r | [] \<Rightarrow> p_members ops n [] r)
          else if c = 0x5B then
            (case ws r of d # r' \<Rightarrow> if d = 0x5D then Some (Inr (V_arr [], r')) else p_elements ops n [] r | [] \<Rightarrow> p_elements ops n [] r)
          else if c = 0x22 then Some (ebind (p_str (c # r)) (\<lambda>(t, r). Inr (V_str t, r)))
          else Some (p_atom ops (c # r)))"
| "p_members ops 0 obj s = None"
| "p_members ops (Suc n) obj s =
     (case p_str (ws s) of
        Inl e \<Rightarrow> Some (Inl e)
      | Inr (k, r) \<Rightarrow>
          if k \<in> fst ` set obj then Some (Inl Duplicate_name)
          else
            (case ws r of
               [] \<Rightarrow> Some (Inl Not_json)
             | c # r \<Rightarrow>
                 if c \<noteq> 0x3A then Some (Inl Not_json)
                 else
                   (case p_val ops n r of
                      None \<Rightarrow> None
                    | Some (Inl e) \<Rightarrow> Some (Inl e)
                    | Some (Inr (v, r)) \<Rightarrow>
                        (case ws r of
                           [] \<Rightarrow> Some (Inl Not_json)
                         | d # r \<Rightarrow>
                             if d = 0x7D then Some (Inr (V_obj (obj @ [(k, v)]), r))
                             else if d = 0x2C then p_members ops n (obj @ [(k, v)]) r
                             else Some (Inl Not_json)))))"
| "p_elements ops 0 arr s = None"
| "p_elements ops (Suc n) arr s =
     (case p_val ops n s of
        None \<Rightarrow> None
      | Some (Inl e) \<Rightarrow> Some (Inl e)
      | Some (Inr (v, r)) \<Rightarrow>
          (case ws r of
             [] \<Rightarrow> Some (Inl Not_json)
           | d # r \<Rightarrow>
               if d = 0x5D then Some (Inr (V_arr (arr @ [v]), r))
               else if d = 0x2C then p_elements ops n (arr @ [v]) r
               else Some (Inl Not_json)))"

definition parse_fuel :: "units \<Rightarrow> nat" where
  "parse_fuel s = 2 * length s + 1"

definition parseIJson :: "'n number_ops \<Rightarrow> units \<Rightarrow> (refusal + 'n jv) option" where
  "parseIJson ops txt =
     map_option (\<lambda>x. ebind x (\<lambda>(v, r). if ws r \<noteq> [] then Inl Not_json else Inr v)) (p_val ops (parse_fuel txt) txt)"

definition canonicalizeText :: "'n number_ops \<Rightarrow> units \<Rightarrow> (refusal + units) option" where
  "canonicalizeText ops txt = map_option (\<lambda>x. ebind x (canonicalJSON ops)) (parseIJson ops txt)"

section \<open>The parser consumes text and never runs out of fuel\<close>

lemma ws_length: "length (ws s) \<le> length s"
  by (simp add: ws_def length_dropWhile_le)

lemma str_body_length: "str_body out s = Inr (t, r) \<Longrightarrow> length r < length s"
proof (induction out s rule: str_body.induct)
  case (2 out c s)
  consider "c = 0x22" | "c = 0x5C" | "c \<noteq> 0x22" "c \<noteq> 0x5C" by blast
  then show ?case
  proof cases
    case 2
    then obtain e s' where s: "s = e # s'" using "2.prems" by (cases s) auto
    show ?thesis
    proof (cases "simple_escape e")
      case None
      with 2 s obtain u where "e = 0x75" "hex4 (take 4 s') = Some u"
        using "2.prems" by (auto split: if_splits option.splits)
      then have "length r < length (drop 4 s')" using "2.IH"(1) [of e s' u] 2 s None "2.prems" by simp
      then show ?thesis using s by simp
    next
      case (Some u)
      then have "length r < length s'" using "2.IH"(2) [of e s' u] 2 s "2.prems" by simp
      then show ?thesis using s by simp
    qed
  next
    case 3
    then show ?thesis using "2.IH"(3) "2.prems" by (simp split: if_splits)
  qed (use "2.prems" in simp)
qed simp

lemma p_str_length: "p_str s = Inr (t, r) \<Longrightarrow> length r < length s"
  by (auto simp: p_str_def ebind_Inr_iff split: list.splits if_splits dest!: str_body_length)

lemma scan_lengths:
  "length (snd (scan_sign s)) \<le> length s" "scan_int s = Some (i, r) \<Longrightarrow> length r < length s"
  "length (snd (scan_frac s)) \<le> length s" "length (snd (exp_sign s)) \<le> length s"
  by (auto simp: scan_sign_def scan_int_def scan_frac_def exp_sign_def less_Suc_eq_le le_SucI length_dropWhile_le split: list.splits if_splits)

lemma scan_exp_length: "length (snd (scan_exp s)) \<le> length s"
proof (cases s)
  case (Cons c r)
  have "length (dropWhile digit (snd (exp_sign r))) \<le> length r"
    using scan_lengths(4) [of r] length_dropWhile_le [of digit "snd (exp_sign r)"] by linarith
  with Cons show ?thesis by (cases "exp_sign r") (auto simp: scan_exp_def)
qed (simp add: scan_exp_def)

lemma scan_number_length: "scan_number s = Some (t, b, r) \<Longrightarrow> length r < length s"
  using scan_lengths(1) [of s] scan_lengths(2) [of "snd (scan_sign s)"] scan_lengths(3) scan_exp_length
  by (fastforce simp: scan_number_def Let_def split: prod.splits option.splits dest: le_less_trans)

lemma p_atom_length: "p_atom ops s = Inr (v, r) \<Longrightarrow> length r < length s"
proof -
  have w: "length r < length s" if "after_text w s = Some r" "w \<noteq> []" for w
    using that by (auto simp: after_text_def units_of_def Let_def split: if_splits) (cases s; auto)
  assume "p_atom ops s = Inr (v, r)"
  then show ?thesis
    using w by (auto simp: p_atom_def p_num_def split: option.splits list.splits if_splits prod.splits dest: scan_number_length)
qed

lemma parsed_shorter:
  "p_val ops n s = Some (Inr (v, r)) \<Longrightarrow> length r < length s"
  "p_members ops n obj s = Some (Inr (v, r)) \<Longrightarrow> length r < length s"
  "p_elements ops n arr s = Some (Inr (v, r)) \<Longrightarrow> length r < length s"
proof (induction ops n s and ops n obj s and ops n arr s arbitrary: v r and v r and v r rule: p_val_p_members_p_elements.induct)
  case (2 ops n s)
  show ?case
  proof (cases "ws s")
    case (Cons c t)
    have "length r \<le> length t"
    proof -
      consider "c = 0x7B" | "c = 0x5B" | "c = 0x22" | "c \<notin> {0x7B, 0x5B, 0x22}" by blast
      then show ?thesis
      proof cases
        case 1
        then show ?thesis
          using 2 Cons ws_length [of t] by (fastforce split: list.splits if_splits dest: less_imp_le)
      next
        case 2
        then show ?thesis
          using "2.prems" "2.IH" Cons ws_length [of t] by (fastforce split: list.splits if_splits dest: less_imp_le)
      next
        case 3
        then show ?thesis
          using "2.prems" Cons p_str_length [of "c # t"] by (fastforce simp: ebind_Inr_iff)
      next
        case 4
        then show ?thesis
          using "2.prems" Cons p_atom_length [of ops "c # t" v r] by simp
      qed
    qed
    then show ?thesis using Cons ws_length [of s] by simp
  qed (use 2 in simp)
next
  case (4 ops n obj s)
  obtain k t where k: "p_str (ws s) = Inr (k, t)" "k \<notin> fst ` set obj"
    using "4.prems" by (auto split: sum.splits if_splits)
  obtain c t2 where c: "ws t = c # t2" "c = 0x3A" using "4.prems" k by (auto split: list.splits if_splits)
  obtain w t3 where w: "p_val ops n t2 = Some (Inr (w, t3))"
    using "4.prems" k c by (auto split: option.splits sum.splits)
  obtain d t4 where d: "ws t3 = d # t4" using "4.prems" k c w by (auto split: list.splits)
  have l: "length t < length s" "length t2 < length t" "length t3 < length t2" "length t4 < length t3"
    using p_str_length [OF k(1)] ws_length [of s] ws_length [of t] ws_length [of t3] c d
      "4.IH"(1) [OF k(1) refl k(2) c(1) _ w] by (auto simp: c(2))
  show ?case
  proof (cases "d = 0x7D")
    case True
    then show ?thesis using "4.prems" k c w d l by simp
  next
    case False
    then have "d = 0x2C" "p_members ops n (obj @ [(k, w)]) t4 = Some (Inr (v, r))"
      using "4.prems" k c w d by (auto split: if_splits)
    then have "length r < length t4"
      using "4.IH"(2) [OF k(1) refl k(2) c(1) _ w refl refl d] c(2) False by simp
    then show ?thesis using l by simp
  qed
next
  case (6 ops n arr s)
  obtain w t where w: "p_val ops n s = Some (Inr (w, t))" using "6.prems" by (auto split: option.splits sum.splits)
  obtain d t2 where d: "ws t = d # t2" using "6.prems" w by (auto split: list.splits)
  have l: "length t < length s" "length t2 < length t" using "6.IH"(1) [OF w] ws_length [of t] d by auto
  show ?case
  proof (cases "d = 0x5D")
    case True
    then show ?thesis using "6.prems" w d l by simp
  next
    case False
    then have "d = 0x2C" "p_elements ops n (arr @ [w]) t2 = Some (Inr (v, r))"
      using "6.prems" w d by (auto split: if_splits)
    then have "length r < length t2" using "6.IH"(2) [OF w refl refl d False] by simp
    then show ?thesis using l by simp
  qed
qed simp_all

lemma enough_fuel:
  "2 * length s + 1 \<le> n \<Longrightarrow> p_val ops n s \<noteq> None"
  "2 * length s + 2 \<le> n \<Longrightarrow> p_members ops n obj s \<noteq> None"
  "2 * length s + 2 \<le> n \<Longrightarrow> p_elements ops n arr s \<noteq> None"
proof (induction ops n s and ops n obj s and ops n arr s rule: p_val_p_members_p_elements.induct)
  case (2 ops n s)
  show ?case
  proof (cases "ws s")
    case (Cons c t)
    then have "length t < length s" using ws_length [of s] by simp
    then have n: "2 * length t + 2 \<le> n" using "2.prems" by simp
    show ?thesis
    proof (cases "c = 0x7B \<or> c = 0x5B")
      case True
      have "p_members ops n [] t \<noteq> None" if "c = 0x7B" "ws t = [] \<or> hd (ws t) \<noteq> 0x7D"
        using "2.IH"(1,2) [OF Cons that(1)] n that(2) by (cases "ws t") auto
      moreover have "p_elements ops n [] t \<noteq> None" if "c = 0x5B" "ws t = [] \<or> hd (ws t) \<noteq> 0x5D"
        using "2.IH"(3,4) [OF Cons] n that by (cases "ws t") auto
      ultimately show ?thesis using Cons True by (auto split: list.splits)
    qed (use Cons in auto)
  qed simp
next
  case (4 ops n obj s)
  show ?case
  proof (cases "p_str (ws s)")
    case (Inr kt)
    obtain k t where kt: "kt = (k, t)" by (cases kt)
    have t: "length t < length s" using p_str_length [of "ws s" k t] Inr kt ws_length [of s] by simp
    show ?thesis
    proof (cases "k \<in> fst ` set obj \<or> ws t = [] \<or> hd (ws t) \<noteq> 0x3A")
      case False
      then obtain t2 where c: "ws t = 0x3A # t2" and k: "k \<notin> fst ` set obj" by (cases "ws t") auto
      have t2: "length t2 < length t" using c ws_length [of t] by simp
      have "p_val ops n t2 \<noteq> None" using "4.IH"(1) [OF Inr kt [symmetric] k c] "4.prems" t t2 by simp
      then obtain x where x: "p_val ops n t2 = Some x" by blast
      show ?thesis
      proof (cases x)
        case (Inr vr)
        obtain v t3 where v: "vr = (v, t3)" by (cases vr)
        have t3: "length t3 < length t2" using parsed_shorter(1) x Inr v by blast
        show ?thesis
        proof (cases "ws t3 \<noteq> [] \<and> hd (ws t3) = 0x2C")
          case True
          then obtain t4 where d: "ws t3 = 0x2C # t4" by (cases "ws t3") auto
          have "length t4 < length t3" using d ws_length [of t3] by simp
          then have "p_members ops n (obj @ [(k, v)]) t4 \<noteq> None"
            using "4.IH"(2) [OF \<open>p_str (ws s) = Inr kt\<close> kt [symmetric] k c _ x Inr v [symmetric] d] "4.prems" t t2 t3 by simp
          then show ?thesis using \<open>p_str (ws s) = Inr kt\<close> kt k c x Inr v d by simp
        qed (use \<open>p_str (ws s) = Inr kt\<close> kt k c x Inr v in \<open>auto split: list.splits\<close>)
      qed (use Inr kt k c x in simp)
    qed (use Inr kt in \<open>auto split: list.splits\<close>)
  qed simp
next
  case (6 ops n arr s)
  have "p_val ops n s \<noteq> None" using "6.IH"(1) "6.prems" by simp
  then obtain x where x: "p_val ops n s = Some x" by blast
  show ?case
  proof (cases x)
    case (Inr vr)
    obtain v t where v: "vr = (v, t)" by (cases vr)
    have t: "length t < length s" using parsed_shorter(1) x Inr v by blast
    show ?thesis
    proof (cases "ws t \<noteq> [] \<and> hd (ws t) = 0x2C")
      case True
      then obtain t2 where d: "ws t = 0x2C # t2" by (cases "ws t") auto
      have "length t2 < length t" using d ws_length [of t] by simp
      then have "p_elements ops n (arr @ [v]) t2 \<noteq> None"
        using "6.IH"(2) [OF x Inr v [symmetric] d] "6.prems" t by simp
      then show ?thesis using x Inr v d by simp
    qed (use x Inr v in \<open>auto split: list.splits\<close>)
  qed (use x in simp)
qed simp_all

text \<open>
  The parser returns on every text: an I-JSON value or one of the five refusals. The fuel of
  the model, two calls for every code unit and one more, is never used up.
\<close>

theorem parser_returns: "\<exists>x. parseIJson ops txt = Some x"
  using enough_fuel(1) [of "txt" "parse_fuel txt" ops] by (auto simp: parseIJson_def parse_fuel_def)

section \<open>Strings and numbers read back\<close>

lemma control_escapes:
  "list_all (\<lambda>u. hex4 [0x30, 0x30, hex_unit (u div 16), hex_unit (u mod 16)] = Some u) [0..<32]"
  by code_simp

lemma escape_reads: "str_body out (escape_unit u @ r) = str_body (out @ [u]) r"
proof (cases "u < 0x20 \<and> u \<notin> {8, 9, 10, 12, 13}")
  case True
  then have "u \<in> set [0..<32]" by simp
  then have "hex4 [0x30, 0x30, hex_unit (u div 16), hex_unit (u mod 16)] = Some u"
    using control_escapes unfolding list_all_iff by blast
  then show ?thesis using True by (simp add: escape_unit_def simple_escape_def)
next
  case False
  then show ?thesis by (auto simp: escape_unit_def simple_escape_def)
qed

lemma escapes_read: "str_body out (concat (map escape_unit s) @ 0x22 # r) = Inr (out @ s, r)"
  by (induction s arbitrary: out) (simp_all add: escape_reads)

lemma p_str_reads: "well_formed s \<Longrightarrow> p_str (stringify s @ r) = Inr (s, r)"
  by (simp add: p_str_def stringify_def escapes_read assertWellFormed_def)

text \<open>What follows a value inside a canonical text.\<close>

definition stops :: "units \<Rightarrow> bool" where
  "stops r = (case r of [] \<Rightarrow> True | c # _ \<Rightarrow> c \<in> {0x2C, 0x5D, 0x7D})"

lemma stops_simps [simp]: "stops []" "stops (0x2C # r)" "stops (0x5D # r)" "stops (0x7D # r)"
  by (simp_all add: stops_def)

lemma digits_stop:
  assumes "stops r"
  shows "takeWhile digit (s @ r) = takeWhile digit s \<and> dropWhile digit (s @ r) = dropWhile digit s @ r"
proof (induction s)
  case Nil
  show ?case using assms by (cases r) (auto simp: stops_def digit_def)
qed simp

lemma scan_int_stop: "stops r \<Longrightarrow> scan_int s = Some (i, s') \<Longrightarrow> scan_int (s @ r) = Some (i, s' @ r)"
  using digits_stop [of r] by (auto simp: scan_int_def split: list.splits if_splits)

lemma scan_frac_stop: "stops r \<Longrightarrow> scan_frac (s @ r) = apsnd (\<lambda>s'. s' @ r) (scan_frac s)"
  using digits_stop [of r] by (cases s; cases r) (auto simp: scan_frac_def stops_def)

lemma exp_sign_stop: "stops r \<Longrightarrow> exp_sign (s @ r) = apsnd (\<lambda>s'. s' @ r) (exp_sign s)"
  by (cases s; cases r) (auto simp: exp_sign_def stops_def)

lemma scan_exp_stop: "stops r \<Longrightarrow> scan_exp (s @ r) = apsnd (\<lambda>s'. s' @ r) (scan_exp s)"
proof (cases s)
  case Nil
  assume "stops r"
  with Nil show ?thesis by (cases r) (auto simp: scan_exp_def stops_def Let_def split: prod.split)
next
  case (Cons c t)
  assume "stops r"
  with Cons show ?thesis
    using digits_stop [of r] exp_sign_stop [of r t] by (cases "exp_sign t") (simp add: scan_exp_def)
qed

lemma scan_sign_stop: "s \<noteq> [] \<Longrightarrow> scan_sign (s @ r) = apsnd (\<lambda>s'. s' @ r) (scan_sign s)"
  by (cases s) (simp_all add: scan_sign_def)

lemma scan_number_stop:
  assumes "stops r" and "scan_number t = Some (t, b, [])"
  shows "scan_number (t @ r) = Some (t, b, r)"
proof -
  have "t \<noteq> []" using assms(2) by (auto simp: scan_number_def scan_sign_def scan_int_def)
  then show ?thesis
    using assms scan_sign_stop [of t r] scan_int_stop [OF assms(1)] scan_frac_stop [OF assms(1)] scan_exp_stop [OF assms(1)]
    by (cases "scan_sign t") (fastforce simp: scan_number_def split: option.splits prod.splits)
qed

lemma number_head:
  assumes "scan_number t = Some (t, b, [])"
  obtains c t' where "t = c # t'" and "c = 0x2D \<or> digit c"
  using assms by (cases t) (auto simp: scan_number_def scan_sign_def scan_int_def digit_def split: if_splits option.splits prod.splits)

section \<open>The laws of the language's numbers\<close>

definition plus_zero :: "'n number_ops \<Rightarrow> 'n" where
  "plus_zero ops = (case no_number ops (units_of ''0'') of Some z \<Rightarrow> z)"

locale number_laws =
  fixes ops :: "'n number_ops"
  assumes parsed_finite: "no_number ops t = Some n \<Longrightarrow> no_finite ops n"
    and string_literal: "no_finite ops n \<Longrightarrow> \<not> no_negZero ops n \<Longrightarrow> \<exists>b. scan_number (no_string ops n) = Some (no_string ops n, b, [])"
    and string_number: "no_finite ops n \<Longrightarrow> \<not> no_negZero ops n \<Longrightarrow> no_number ops (no_string ops n) = Some n"
    and zero: "no_number ops (units_of ''0'') = Some (plus_zero ops)" "\<not> no_negZero ops (plus_zero ops)"
      "no_string ops (plus_zero ops) = units_of ''0''"

text \<open>The value a canonical text stands for: members in order, no negative zero.\<close>

primrec normal :: "'n number_ops \<Rightarrow> 'n jv \<Rightarrow> 'n jv" where
  "normal ops V_null = V_null"
| "normal ops (V_bool b) = V_bool b"
| "normal ops (V_num n) = V_num (if no_negZero ops n then plus_zero ops else n)"
| "normal ops (V_str s) = V_str s"
| "normal ops (V_arr vs) = V_arr (map (normal ops) vs)"
| "normal ops (V_obj es) = V_obj (sort_by by_name (map (map_prod id (normal ops)) es))"
| "normal ops (V_other t) = V_other t"

text \<open>Distinct member names, and no number whose text is an integer literal beyond the exact ones.\<close>

definition text_exact :: "units \<Rightarrow> bool" where
  "text_exact t = (case scan_number t of Some (t', integer, _) \<Rightarrow> \<not> integer \<or> \<bar>big_int t\<bar> \<le> max_exact_big | None \<Rightarrow> True)"

primrec exact :: "'n number_ops \<Rightarrow> 'n jv \<Rightarrow> bool" where
  "exact ops V_null = True"
| "exact ops (V_bool b) = True"
| "exact ops (V_num n) = (no_negZero ops n \<or> text_exact (no_string ops n))"
| "exact ops (V_str s) = True"
| "exact ops (V_arr vs) = list_all id (map (exact ops) vs)"
| "exact ops (V_obj es) = (distinct (map fst es) \<and> list_all snd (map (map_prod id (exact ops)) es))"
| "exact ops (V_other t) = True"

lemma by_name_map: "sort_by by_name (map (map_prod id f) es) = map (map_prod id f) (sort_by by_name es)"
proof -
  have "(\<lambda>a b. by_name (map_prod id f a) (map_prod id f b)) = by_name" by (auto simp: by_name_def fun_eq_iff)
  then show ?thesis by (simp add: sort_by_map)
qed

text \<open>A text that reads back as a value, whatever follows it.\<close>

definition reads_as :: "'n number_ops \<Rightarrow> units \<Rightarrow> 'n jv \<Rightarrow> bool" where
  "reads_as ops t v =
     (t \<noteq> [] \<and> \<not> is_ws (hd t) \<and> hd t \<notin> {0x5D, 0x7D} \<and>
      (\<forall>n r. stops r \<longrightarrow> 2 * length (t @ r) + 1 \<le> n \<longrightarrow> p_val ops n (t @ r) = Some (Inr (v, r))))"

lemma reads_asI:
  assumes "t \<noteq> []" and "\<not> is_ws (hd t)" and "hd t \<notin> {0x5D, 0x7D}"
    and "\<And>n r. stops r \<Longrightarrow> 2 * length (t @ r) \<le> n \<Longrightarrow> p_val ops (Suc n) (t @ r) = Some (Inr (v, r))"
  shows "reads_as ops t v"
proof -
  have "p_val ops n (t @ r) = Some (Inr (v, r))" if "stops r" "2 * length (t @ r) + 1 \<le> n" for n r
    using that assms(4) [of r "n - 1"] by (cases n) simp_all
  with assms(1-3) show ?thesis by (simp add: reads_as_def)
qed

lemma ws_stop: "t \<noteq> [] \<Longrightarrow> \<not> is_ws (hd t) \<Longrightarrow> ws (t @ r) = t @ r"
  by (cases t) (simp_all add: ws_def)

lemma ws_marks [simp]:
  "ws (0x2C # r) = 0x2C # r" "ws (0x5D # r) = 0x5D # r" "ws (0x7D # r) = 0x7D # r" "ws (0x3A # r) = 0x3A # r" "ws (0x22 # r) = 0x22 # r"
  "ws (0x7B # r) = 0x7B # r" "ws (0x5B # r) = 0x5B # r" "ws [] = []"
  by (simp_all add: ws_def is_ws_def)

lemma elements_read:
  assumes "list_all2 (reads_as ops) ts vs" and "ts \<noteq> []" and "2 * length (comma_join ts @ 0x5D # r) + 2 \<le> n"
  shows "p_elements ops n acc (comma_join ts @ 0x5D # r) = Some (Inr (V_arr (acc @ vs), r))"
  using assms
proof (induction ts arbitrary: vs n acc)
  case (Cons t ts)
  then obtain v vs' where vs: "vs = v # vs'" "reads_as ops t v" "list_all2 (reads_as ops) ts vs'" by (auto simp: list_all2_Cons1)
  obtain m where m: "n = Suc m" using Cons.prems(3) by (cases n) auto
  show ?case
  proof (cases ts)
    case Nil
    have "p_val ops m (t @ 0x5D # r) = Some (Inr (v, 0x5D # r))"
      using vs(2) Cons.prems(3) m Nil by (simp add: reads_as_def comma_join_def)
    then show ?thesis using vs(1,3) m Nil by (simp add: comma_join_def)
  next
    case (Cons t' ts')
    let ?more = "comma_join ts @ 0x5D # r"
    have join: "comma_join (t # ts) = t @ 0x2C # comma_join ts" using Cons by (simp add: comma_join_def)
    have "p_val ops m (t @ 0x2C # ?more) = Some (Inr (v, 0x2C # ?more))"
      using vs(2) Cons.prems(3) m join by (simp add: reads_as_def)
    moreover have "p_elements ops m (acc @ [v]) ?more = Some (Inr (V_arr ((acc @ [v]) @ vs'), r))"
      by (rule Cons.IH [OF vs(3)]) (use Cons.prems(3) m join Cons in simp_all)
    ultimately show ?thesis using vs(1) m join by simp
  qed
qed simp

definition member_reads :: "'n number_ops \<Rightarrow> units \<Rightarrow> units \<times> 'n jv \<Rightarrow> bool" where
  "member_reads ops t m = (well_formed (fst m) \<and> (\<exists>s. t = stringify (fst m) @ 0x3A # s \<and> reads_as ops s (snd m)))"

lemma members_read:
  assumes "list_all2 (member_reads ops) ts ms" and "ts \<noteq> []" and "distinct (map fst (acc @ ms))"
    and "2 * length (comma_join ts @ 0x7D # r) + 2 \<le> n"
  shows "p_members ops n acc (comma_join ts @ 0x7D # r) = Some (Inr (V_obj (acc @ ms), r))"
  using assms
proof (induction ts arbitrary: ms n acc)
  case (Cons t ts)
  then obtain k v ms' where ms: "ms = (k, v) # ms'" "list_all2 (member_reads ops) ts ms'" and t: "member_reads ops t (k, v)"
    by (auto simp: list_all2_Cons1)
  from t obtain s where k: "well_formed k" and s: "t = stringify k @ 0x3A # s" "reads_as ops s v" by (auto simp: member_reads_def)
  obtain m where m: "n = Suc m" using Cons.prems(4) by (cases n) auto
  have new: "k \<notin> fst ` set acc" using Cons.prems(3) ms(1) by auto
  have quote: "ws (stringify k @ x) = stringify k @ x" for x by (simp add: stringify_def)
  show ?case
  proof (cases ts)
    case Nil
    have "p_val ops m (s @ 0x7D # r) = Some (Inr (v, 0x7D # r))"
      using s Cons.prems(4) m Nil by (simp add: reads_as_def comma_join_def)
    then show ?thesis using ms m Nil s(1) new p_str_reads [OF k] by (simp add: comma_join_def quote)
  next
    case (Cons t' ts')
    let ?more = "comma_join ts @ 0x7D # r"
    have join: "comma_join (t # ts) = stringify k @ 0x3A # s @ 0x2C # comma_join ts" using Cons s(1) by (simp add: comma_join_def)
    have "p_val ops m (s @ 0x2C # ?more) = Some (Inr (v, 0x2C # ?more))"
      using s(2) Cons.prems(4) m join by (simp add: reads_as_def)
    moreover have "p_members ops m (acc @ [(k, v)]) ?more = Some (Inr (V_obj ((acc @ [(k, v)]) @ ms'), r))"
      by (rule Cons.IH [OF ms(2)]) (use Cons.prems(3,4) m join ms(1) Cons in simp_all)
    ultimately show ?thesis using ms(1) m join new p_str_reads [OF k] by (simp add: quote)
  qed
qed simp

context number_laws
begin

lemma number_reads:
  assumes "no_finite ops n" and "no_negZero ops n \<or> text_exact (no_string ops n)"
  shows "reads_as ops (if no_negZero ops n then units_of ''0'' else no_string ops n) (V_num (if no_negZero ops n then plus_zero ops else n))"
proof -
  define m where "m = (if no_negZero ops n then plus_zero ops else n)"
  have fin: "no_finite ops m" "\<not> no_negZero ops m" using assms(1) zero parsed_finite by (auto simp: m_def)
  have txt_m: "(if no_negZero ops n then units_of ''0'' else no_string ops n) = no_string ops m" by (simp add: m_def zero)
  obtain b where b: "scan_number (no_string ops m) = Some (no_string ops m, b, [])" using string_literal [OF fin] by blast
  obtain c t where c: "no_string ops m = c # t" "c = 0x2D \<or> digit c" using number_head [OF b] .
  have "text_exact (units_of ''0'')" by code_simp
  then have "text_exact (no_string ops m)" using assms(2) by (auto simp: m_def zero)
  then have exact: "\<not> (b \<and> (max_exact_big < big_int (no_string ops m) \<or> big_int (no_string ops m) < - max_exact_big))"
    using b by (auto simp: text_exact_def)
  have head: "\<not> is_ws c" "c \<notin> {0x5D, 0x7D}" "c \<noteq> 0x7B" "c \<noteq> 0x5B" "c \<noteq> 0x22" "c \<noteq> of_char CHR ''t''" "c \<noteq> of_char CHR ''f''" "c \<noteq> of_char CHR ''n''"
    using c(2) by (auto simp: is_ws_def digit_def)
  have "p_val ops (Suc k) (no_string ops m @ r) = Some (Inr (V_num m, r))" if "stops r" for k r
  proof -
    have "after_text w (no_string ops m @ r) = None" if "w \<in> {''true'', ''false'', ''null''}" for w
      using that c(1) head by (auto simp: after_text_def units_of_def Let_def)
    then have "p_atom ops (no_string ops m @ r) = p_num ops (no_string ops m @ r)" using c by (simp add: p_atom_def)
    also have "\<dots> = Inr (V_num m, r)"
      using scan_number_stop [OF that b] exact string_number [OF fin] by (auto simp: p_num_def)
    finally show ?thesis
      using c(1) head ws_stop [of "no_string ops m" r] by simp
  qed
  then show ?thesis unfolding txt_m m_def [symmetric] using c(1) head by (intro reads_asI) auto
qed

lemma canonical_reads: "canonicalJSON ops v = Inr t \<Longrightarrow> exact ops v \<Longrightarrow> reads_as ops t (normal ops v)"
proof (induction v arbitrary: t)
  case (V_num n)
  then show ?case using number_reads [of n] by (auto simp: serializeNumber_def split: if_splits)
next
  case (V_str s)
  then have "well_formed s" "t = stringify s" by (auto simp: assertWellFormed_def ebind_Inr_iff split: if_splits)
  moreover have "ws (stringify s @ r) = 0x22 # drop 1 (stringify s) @ r" for r by (simp add: stringify_def)
  moreover have "p_str (0x22 # drop 1 (stringify s) @ r) = Inr (s, r)" if "well_formed s" for r
    using p_str_reads [OF that, of r] by (simp add: stringify_def)
  ultimately show ?case by (intro reads_asI) (simp_all add: stringify_def is_ws_def)
next
  case (V_arr vs)
  then obtain ts where ts: "emap id (map (canonicalJSON ops) vs) = Inr ts" "t = 0x5B # comma_join ts @ [0x5D]"
    by (auto simp: ebind_Inr_iff)
  have l: "list_all2 (reads_as ops) ts (map (normal ops) vs)"
    using ts(1) V_arr.IH V_arr.prems(2)
    by (auto simp: emap_Inr_iff list_all2_conv_all_nth list_all_length)
  show ?case
  proof (rule reads_asI)
    fix n r assume st: "stops r" and n: "2 * length (t @ r) \<le> n"
    show "p_val ops (Suc n) (t @ r) = Some (Inr (normal ops (V_arr vs), r))"
    proof (cases ts)
      case Nil
      then show ?thesis using ts(2) l by (simp add: comma_join_def)
    next
      case (Cons t1 ts')
      then have "reads_as ops t1 (hd (map (normal ops) vs))" using l by (cases vs) auto
      then have h: "t1 \<noteq> []" "\<not> is_ws (hd t1)" "hd t1 \<noteq> 0x5D" by (auto simp: reads_as_def)
      then obtain c x where c: "comma_join ts @ 0x5D # r = c # x" "\<not> is_ws c" "c \<noteq> 0x5D"
        using Cons by (cases t1) (auto simp: comma_join_def)
      then have "ws (c # x) = c # x" by (simp add: ws_def)
      moreover have "p_elements ops n [] (c # x) = Some (Inr (V_arr (map (normal ops) vs), r))"
        using elements_read [OF l, of r n "[]"] Cons n ts(2) unfolding c(1) [symmetric] by simp
      ultimately show ?thesis using ts(2) c by simp
    qed
  qed (use ts(2) in \<open>simp_all add: is_ws_def\<close>)
next
  case (V_obj es)
  let ?es = "sort_by by_name es"
  let ?ms = "map (map_prod id (normal ops)) ?es"
  obtain ts where ts: "emap member_text (map (map_prod id (canonicalJSON ops)) ?es) = Inr ts" "t = 0x7B # comma_join ts @ [0x7D]"
    using V_obj.prems(1) by (auto simp: ebind_Inr_iff by_name_map)
  have one: "member_reads ops u (map_prod id (normal ops) m)"
    if m1: "m \<in> set es" and m2: "member_text (map_prod id (canonicalJSON ops) m) = Inr u" for u m
  proof -
    obtain s where "canonicalJSON ops (snd m) = Inr s" "u = stringify (fst m) @ 0x3A # s" "well_formed (fst m)"
      using m2 by (auto simp: member_text_def assertWellFormed_def ebind_Inr_iff split: if_splits)
    moreover have "exact ops (snd m)" using V_obj.prems(2) m1 by (auto simp: list_all_iff)
    moreover have "snd m \<in> Basic_BNFs.snds m" by (cases m) simp
    ultimately show ?thesis using V_obj.IH [OF m1] by (auto simp: member_reads_def)
  qed
  have l: "list_all2 (member_reads ops) ts ?ms"
  proof -
    have "list_all2 (\<lambda>m u. member_text (map_prod id (canonicalJSON ops) m) = Inr u) ?es ts"
      using ts(1) by (simp add: emap_Inr_iff list_all2_map1)
    then have "list_all2 (\<lambda>m u. member_reads ops u (map_prod id (normal ops) m)) ?es ts"
      by (rule list.rel_mono_strong) (use one in simp)
    then have "list_all2 (\<lambda>u m. member_reads ops u (map_prod id (normal ops) m)) ts ?es"
      unfolding list_all2_conv_all_nth by simp
    then show ?thesis by (simp add: list_all2_map2)
  qed
  have d: "distinct (map fst ?ms)" using V_obj.prems(2) by (simp add: comp_def)
  show ?case
  proof (rule reads_asI)
    fix n r assume st: "stops r" and n: "2 * length (t @ r) \<le> n"
    show "p_val ops (Suc n) (t @ r) = Some (Inr (normal ops (V_obj es), r))"
    proof (cases ts)
      case Nil
      then show ?thesis using ts(2) l by (simp add: comma_join_def by_name_map)
    next
      case (Cons t1 ts')
      then obtain x where x: "comma_join ts @ 0x7D # r = 0x22 # x"
        using l by (auto simp: list_all2_Cons1 member_reads_def stringify_def comma_join_def)
      have "p_members ops n [] (0x22 # x) = Some (Inr (V_obj ?ms, r))"
        using members_read [OF l, of "[]" r n] d Cons n ts(2) unfolding x [symmetric] by simp
      then show ?thesis using ts(2) x by (simp add: by_name_map)
    qed
  qed (use ts(2) in \<open>simp_all add: is_ws_def\<close>)
next
  case V_null
  then show ?case by (intro reads_asI) (auto simp: units_of_def is_ws_def ws_def p_atom_def after_text_def)
next
  case (V_bool b)
  then show ?case by (cases b; intro reads_asI) (auto simp: units_of_def is_ws_def ws_def p_atom_def after_text_def)
next
  case (V_other w)
  then show ?case by simp
qed

end

section \<open>The order of names\<close>

lemma compare_flip: "codeUnitCompare b a = - codeUnitCompare a b"
  by (induction a b rule: codeUnitCompare.induct) auto

lemma compare_zero: "codeUnitCompare a b = 0 \<longleftrightarrow> a = b"
  by (induction a b rule: codeUnitCompare.induct) auto

lemma compare_Nil: "codeUnitCompare [] b \<le> 0" "codeUnitCompare a [] \<le> 0 \<longleftrightarrow> a = []"
  by (cases b; simp) (cases a; simp)

lemma compare_trans: "codeUnitCompare a b \<le> 0 \<Longrightarrow> codeUnitCompare b c \<le> 0 \<Longrightarrow> codeUnitCompare a c \<le> 0"
proof (induction a arbitrary: b c)
  case (Cons x a)
  then obtain y b' z c' where "b = y # b'" "c = z # c'" by (cases b; cases c) (auto simp: compare_Nil)
  with Cons show ?case by (auto split: if_splits)
qed (simp add: compare_Nil)

lemma by_name_total: "by_name a b \<or> by_name b a"
  using compare_flip [of "fst b" "fst a"] by (auto simp: by_name_def)

lemma by_name_trans: "by_name a b \<Longrightarrow> by_name b c \<Longrightarrow> by_name a c"
  using compare_trans by (auto simp: by_name_def)

lemma by_name_antisym: "by_name a b \<Longrightarrow> by_name b a \<Longrightarrow> fst a = fst b"
  using compare_flip [of "fst b" "fst a"] compare_zero [of "fst a" "fst b"] by (simp add: by_name_def)

lemma insert_by_sorted: "sorted_wrt by_name ys \<Longrightarrow> sorted_wrt by_name (insert_by by_name x ys)"
proof (induction ys)
  case (Cons y ys)
  show ?case
  proof (cases "by_name x y")
    case True
    with Cons.prems show ?thesis by (auto intro: by_name_trans)
  next
    case False
    with by_name_total [of x y] Cons show ?thesis by auto
  qed
qed simp

lemma sort_by_sorted: "sorted_wrt by_name (sort_by by_name xs)"
  by (induction xs) (simp_all add: insert_by_sorted)

lemma sort_by_sorted_id: "sorted_wrt by_name xs \<Longrightarrow> sort_by by_name xs = xs"
proof (induction xs)
  case (Cons x xs)
  then show ?case by (cases xs) auto
qed simp

text \<open>Two sorted lists of members with distinct names and the same members are one list.\<close>

lemma sorted_members_unique:
  "sorted_wrt by_name xs \<Longrightarrow> sorted_wrt by_name ys \<Longrightarrow> distinct (map fst xs) \<Longrightarrow> distinct (map fst ys) \<Longrightarrow> set xs = set ys \<Longrightarrow> xs = ys"
proof (induction xs arbitrary: ys)
  case (Cons x xs)
  then obtain y ys' where ys: "ys = y # ys'" by (cases ys) auto
  have "by_name x y \<and> by_name y x"
  proof -
    have "y \<in> set (x # xs)" "x \<in> set (y # ys')" using Cons.prems(5) ys by auto
    then show ?thesis using Cons.prems(1,2) ys by_name_total [of x x] by_name_total [of y y] by auto
  qed
  then have "fst x = fst y" by (blast dest: by_name_antisym)
  moreover have "x \<in> set ys" "y \<in> set ys" using Cons.prems(5) ys by auto
  ultimately have xy: "x = y" using Cons.prems(4) ys by (metis eq_key_imp_eq_value prod.collapse)
  have "set xs = set ys'"
  proof -
    have "x \<notin> set xs" "y \<notin> set ys'" using Cons.prems(3,4) ys by auto
    then show ?thesis using Cons.prems(5) ys xy by auto
  qed
  then show ?case using Cons.IH [of ys'] Cons.prems ys xy by simp
qed simp

lemma sort_members_set:
  assumes "distinct (map fst xs)" and "distinct (map fst ys)" and "set xs = set ys"
  shows "sort_by by_name xs = sort_by by_name ys"
  using assms sort_by_sorted by (intro sorted_members_unique) simp_all

section \<open>Canonical texts\<close>

lemma normal_obj: "normal ops (V_obj es) = V_obj (map (map_prod id (normal ops)) (sort_by by_name es))"
  by (simp add: by_name_map)

context number_laws
begin

lemma number_normal: "serializeNumber ops n = Inr t \<Longrightarrow> serializeNumber ops (if no_negZero ops n then plus_zero ops else n) = Inr t"
  using zero parsed_finite [OF zero(1)] by (auto simp: serializeNumber_def split: if_splits)

lemma canonical_normal: "canonicalJSON ops v = Inr t \<Longrightarrow> canonicalJSON ops (normal ops v) = Inr t"
proof (induction v arbitrary: t)
  case (V_num n)
  then show ?case using number_normal by simp
next
  case (V_arr vs)
  have "map (canonicalJSON ops) (map (normal ops) vs) = map (canonicalJSON ops) vs"
  proof -
    obtain ts where "emap id (map (canonicalJSON ops) vs) = Inr ts" using V_arr.prems by (auto simp: ebind_Inr_iff)
    then have "list_all2 (\<lambda>v t. canonicalJSON ops v = Inr t) vs ts" by (simp add: emap_Inr_iff list_all2_map1)
    then have "\<forall>v \<in> set vs. \<exists>t. canonicalJSON ops v = Inr t" by (auto simp: list_all2_conv_all_nth in_set_conv_nth)
    then show ?thesis using V_arr.IH by fastforce
  qed
  with V_arr.prems show ?case by (simp del: map_map)
next
  case (V_obj es)
  let ?es = "sort_by by_name es"
  have "map (map_prod id (canonicalJSON ops)) (map (map_prod id (normal ops)) ?es) = map (map_prod id (canonicalJSON ops)) ?es"
  proof -
    obtain ts where "emap member_text (map (map_prod id (canonicalJSON ops)) ?es) = Inr ts"
      using V_obj.prems by (auto simp: ebind_Inr_iff by_name_map)
    then have "list_all2 (\<lambda>m t. member_text (map_prod id (canonicalJSON ops) m) = Inr t) ?es ts" by (simp add: emap_Inr_iff list_all2_map1)
    then have "\<forall>m \<in> set ?es. \<exists>t. canonicalJSON ops (snd m) = Inr t"
      by (fastforce simp: list_all2_conv_all_nth in_set_conv_nth member_text_def ebind_Inr_iff simp del: set_sort_by)
    then have "\<forall>m \<in> set es. \<exists>t. canonicalJSON ops (snd m) = Inr t" by simp
    then have "canonicalJSON ops (normal ops (snd m)) = canonicalJSON ops (snd m)" if "m \<in> set es" for m
      using V_obj.IH [OF that, of "snd m"] that by (cases m) fastforce
    then show ?thesis by auto
  qed
  moreover have "sort_by by_name (map (map_prod id (canonicalJSON ops)) (map (map_prod id (normal ops)) ?es)) =
      map (map_prod id (canonicalJSON ops)) (map (map_prod id (normal ops)) ?es)"
    unfolding by_name_map sort_by_sorted_id [OF sort_by_sorted] ..
  ultimately have "sort_by by_name (map (map_prod id (canonicalJSON ops)) (map (map_prod id (normal ops)) ?es)) =
      sort_by by_name (map (map_prod id (canonicalJSON ops)) es)"
    unfolding by_name_map by simp
  then show ?case using V_obj.prems unfolding normal_obj by (simp del: map_map)
qed simp_all

lemma canonical_parses:
  assumes "canonicalJSON ops v = Inr t" and "exact ops v"
  shows "parseIJson ops t = Some (Inr (normal ops v))"
proof -
  have "reads_as ops t (normal ops v)" using canonical_reads [OF assms] .
  then have "p_val ops (parse_fuel t) (t @ []) = Some (Inr (normal ops v, []))"
    unfolding reads_as_def parse_fuel_def by (metis append_Nil2 order_refl stops_simps(1))
  then show ?thesis by (simp add: parseIJson_def)
qed

end

section \<open>What the parser accepts\<close>

text \<open>I-JSON: distinct names, well-formed strings, finite numbers, nothing without JSON form.\<close>

primrec i_json :: "'n number_ops \<Rightarrow> 'n jv \<Rightarrow> bool" where
  "i_json ops V_null = True"
| "i_json ops (V_bool b) = True"
| "i_json ops (V_num n) = no_finite ops n"
| "i_json ops (V_str s) = well_formed s"
| "i_json ops (V_arr vs) = list_all id (map (i_json ops) vs)"
| "i_json ops (V_obj es) =
     (distinct (map fst es) \<and> list_all (\<lambda>m. well_formed (fst m) \<and> snd m) (map (map_prod id (i_json ops)) es))"
| "i_json ops (V_other t) = False"

lemma emap_total: "\<forall>x \<in> set xs. \<exists>y. f x = Inr y \<Longrightarrow> \<exists>ys. emap f xs = Inr ys"
  by (induction xs) auto

lemma p_str_well_formed: "p_str s = Inr (k, r) \<Longrightarrow> well_formed k"
  by (auto simp: p_str_def ebind_Inr_iff assertWellFormed_def split: list.splits if_splits)

context number_laws
begin

lemma p_atom_i_json: "p_atom ops s = Inr (v, r) \<Longrightarrow> i_json ops v"
  using parsed_finite by (auto simp: p_atom_def p_num_def split: option.splits list.splits if_splits prod.splits)

lemma parsed_i_json:
  "p_val ops n s = Some (Inr (v, r)) \<Longrightarrow> i_json ops v"
  "p_members ops n obj s = Some (Inr (v, r)) \<Longrightarrow> i_json ops (V_obj obj) \<Longrightarrow> i_json ops v"
  "p_elements ops n arr s = Some (Inr (v, r)) \<Longrightarrow> i_json ops (V_arr arr) \<Longrightarrow> i_json ops v"
proof (induction n arbitrary: s v r obj arr)
  case (Suc n)
  note step = Suc.IH
  {
    case 1
    show ?case
    proof (cases "ws s")
      case (Cons c t)
      consider "c = 0x7B" | "c = 0x5B" | "c = 0x22" | "c \<notin> {0x7B, 0x5B, 0x22}" by blast
      then show ?thesis
      proof cases
        case A: 1
        have "i_json ops (V_obj [])" by simp
        then show ?thesis using 1 Cons A step(2) by (auto split: list.splits if_splits)
      next
        case A: 2
        have "i_json ops (V_arr [])" by simp
        then show ?thesis using 1 Cons A step(3) by (auto split: list.splits if_splits)
      next
        case A: 3
        then show ?thesis using 1 Cons p_str_well_formed by (auto simp: ebind_Inr_iff)
      next
        case A: 4
        then show ?thesis using 1 Cons p_atom_i_json by simp
      qed
    qed (use 1 in simp)
  next
    case 2
    obtain k t where k: "p_str (ws s) = Inr (k, t)" "k \<notin> fst ` set obj" using "2.prems" by (auto split: sum.splits if_splits)
    obtain c t2 where c: "ws t = c # t2" "c = 0x3A" using "2.prems" k by (auto split: list.splits if_splits)
    obtain w t3 where w: "p_val ops n t2 = Some (Inr (w, t3))" using "2.prems" k c by (auto split: option.splits sum.splits)
    obtain d t4 where d: "ws t3 = d # t4" using "2.prems" k c w by (auto split: list.splits)
    have ok: "i_json ops (V_obj (obj @ [(k, w)]))"
      using 2(2) step(1) [OF w] p_str_well_formed [OF k(1)] k(2) by auto
    show ?case
    proof (cases "d = 0x7D")
      case True
      then show ?thesis using "2.prems" k c w d ok by simp
    next
      case False
      then have "p_members ops n (obj @ [(k, w)]) t4 = Some (Inr (v, r))" using "2.prems" k c w d by (auto split: if_splits)
      then show ?thesis using step(2) ok by blast
    qed
  next
    case 3
    obtain w t where w: "p_val ops n s = Some (Inr (w, t))" using "3.prems" by (auto split: option.splits sum.splits)
    obtain d t2 where d: "ws t = d # t2" using "3.prems" w by (auto split: list.splits)
    have ok: "i_json ops (V_arr (arr @ [w]))" using 3(2) step(1) [OF w] by simp
    show ?case
    proof (cases "d = 0x5D")
      case True
      then show ?thesis using "3.prems" w d ok by simp
    next
      case False
      then have "p_elements ops n (arr @ [w]) t2 = Some (Inr (v, r))" using "3.prems" w d by (auto split: if_splits)
      then show ?thesis using step(3) ok by blast
    qed
  }
qed simp_all

lemma canonical_succeeds: "i_json ops v \<Longrightarrow> \<exists>t. canonicalJSON ops v = Inr t"
proof (induction v)
  case (V_arr vs)
  then have "\<forall>x \<in> set (map (canonicalJSON ops) vs). \<exists>t. id x = Inr t" by (simp add: list_all_iff)
  then have "\<exists>ts. emap id (map (canonicalJSON ops) vs) = Inr ts" by (rule emap_total)
  then show ?case by auto
next
  case (V_obj es)
  then have "\<forall>m \<in> set es. \<exists>t. member_text (map_prod id (canonicalJSON ops) m) = Inr t"
    by (fastforce simp: list_all_iff member_text_def assertWellFormed_def)
  then have "\<forall>m \<in> set (map (map_prod id (canonicalJSON ops)) (sort_by by_name es)). \<exists>t. member_text m = Inr t" by auto
  then have "\<exists>ts. emap member_text (map (map_prod id (canonicalJSON ops)) (sort_by by_name es)) = Inr ts" by (rule emap_total)
  then show ?case by (auto simp: by_name_map)
qed (simp_all add: serializeNumber_def assertWellFormed_def)

lemma parse_accepts:
  assumes "parseIJson ops t = Some (Inr v)"
  shows "i_json ops v \<and> (\<exists>c. canonicalizeText ops t = Some (Inr c))"
proof -
  obtain r where "p_val ops (parse_fuel t) t = Some (Inr (v, r))"
    using assms by (auto simp: parseIJson_def ebind_Inr_iff split: if_splits)
  then have "i_json ops v" by (rule parsed_i_json(1))
  then show ?thesis using canonical_succeeds assms by (auto simp: canonicalizeText_def)
qed

end

section \<open>Integer numbers\<close>

text \<open>The integers the rest of the model has for JSON numbers meet the laws.\<close>

definition int_ops :: "int number_ops" where
  "int_ops = \<lparr>no_finite = \<lambda>n. True, no_negZero = \<lambda>n. False, no_string = \<lambda>n. units_of (int_str n),
     no_number = \<lambda>t. case scan_number t of Some (t', True, []) \<Rightarrow> Some (big_int t') | _ \<Rightarrow> None\<rparr>"

lemma nat_digits_head: "0 < n \<Longrightarrow> hd (nat_digits n) \<noteq> CHR ''0''"
proof (induction n rule: nat_digits.induct)
  case (1 n)
  show ?case
  proof (cases "n < 10")
    case True
    then have "of_char (char_of (48 + n) :: char) = 48 + n" by simp
    moreover have "of_char CHR ''0'' = (48 :: nat)" by simp
    ultimately have "(char_of (48 + n) :: char) \<noteq> CHR ''0''" using 1(2) by (metis add_cancel_right_right less_not_refl)
    then show ?thesis using True by (simp add: nat_digits.simps [of n])
  next
    case False
    then show ?thesis using 1 nat_digits_nonempty [of "n div 10"] by (simp add: nat_digits.simps [of n] div_greater_zero_iff)
  qed
qed

lemma digit_unit: "is_digit c \<Longrightarrow> digit (of_char c)"
  by (simp add: is_digit_def digit_def Let_def)

lemma all_digits: "list_all is_digit cs \<Longrightarrow> takeWhile digit (units_of cs) = units_of cs \<and> dropWhile digit (units_of cs) = []"
  by (induction cs) (auto simp: units_of_def digit_unit)

lemma digits_value:
  "list_all is_digit cs \<Longrightarrow> foldl (\<lambda>a u. a * 10 + (int u - 48)) (int a) (units_of cs) = int (foldl digit_value a cs)"
proof (induction cs arbitrary: a)
  case (Cons c cs)
  then have "48 \<le> (of_char c :: nat)" by (simp add: is_digit_def Let_def)
  then have "int a * 10 + (int (of_char c) - 48) = int (digit_value a c)" by (simp add: digit_value_def)
  then show ?case using Cons by (simp add: units_of_def)
qed (simp add: units_of_def)

lemma scan_nat: "scan_int (units_of (nat_digits n)) = Some (units_of (nat_digits n), [])"
proof -
  obtain c cs where c: "nat_digits n = c # cs" using nat_digits_nonempty [of n] by (cases "nat_digits n") auto
  then have d: "is_digit c" "list_all is_digit cs" using nat_digits_digits [of n] by simp_all
  show ?thesis
  proof (cases "n = 0")
    case True
    then show ?thesis by (simp add: nat_digits.simps [of 0] units_of_def scan_int_def)
  next
    case False
    then have "c \<noteq> CHR ''0''" using nat_digits_head [of n] c by simp
    then have "of_char c \<noteq> (48 :: nat)"
    proof -
      have "of_char CHR ''0'' = (48 :: nat)" by simp
      then show ?thesis using \<open>c \<noteq> CHR ''0''\<close> by (metis of_char_eq_iff)
    qed
    then show ?thesis using c d digit_unit all_digits [of cs] by (simp add: scan_int_def units_of_def)
  qed
qed

lemma int_str_units: "units_of (int_str i) = (if i < 0 then [0x2D] else []) @ units_of (nat_digits (nat \<bar>i\<bar>))"
  by (simp add: int_str_def units_of_def)

lemma scan_sign_int:
  "scan_sign (units_of (int_str i)) = (if i < 0 then [0x2D] else [], units_of (nat_digits (nat \<bar>i\<bar>)))"
proof -
  obtain c cs where c: "nat_digits (nat \<bar>i\<bar>) = c # cs" using nat_digits_nonempty by (cases "nat_digits (nat \<bar>i\<bar>)") auto
  then have "is_digit c" using nat_digits_digits [of "nat \<bar>i\<bar>"] by simp
  then have "of_char c \<noteq> (0x2D :: nat)" by (auto simp: is_digit_def Let_def)
  then show ?thesis unfolding int_str_units c by (simp add: scan_sign_def units_of_def)
qed

lemma scan_int_str: "scan_number (units_of (int_str i)) = Some (units_of (int_str i), True, [])"
  unfolding scan_number_def scan_sign_int by (simp add: scan_nat scan_frac_def scan_exp_def int_str_units)

lemma big_int_str: "big_int (units_of (int_str i)) = i"
  using digits_value [OF nat_digits_digits [of "nat \<bar>i\<bar>"], of 0] by (simp add: big_int_def scan_sign_int nat_digits_value)

interpretation int_numbers: number_laws int_ops
proof unfold_locales
  show "no_number int_ops (units_of ''0'') = Some (plus_zero int_ops)" "no_string int_ops (plus_zero int_ops) = units_of ''0''"
    by code_simp+
qed (auto simp: int_ops_def scan_int_str big_int_str)

section \<open>Properties\<close>

text \<open>
  Claim C12: canonical JSON reads back. When a value has a canonical text and its names are distinct and
  its integers exact, the I-JSON parser accepts that text and gives the same value, members in code-unit
  order and negative zero as zero. The language's number conversions enter by their laws.
\<close>

theorem canonical_round_trip:
  assumes "number_laws ops" and "canonicalJSON ops v = Inr t" and "exact ops v"
  shows "parseIJson ops t = Some (Inr (normal ops v))"
  using number_laws.canonical_parses assms .

text \<open>
  Claim C32: the parser accepts I-JSON only, and whatever it accepts has a canonical text: names are
  distinct at every level, strings have no lone surrogate, numbers are finite.
\<close>

theorem accepted_text_is_i_json:
  assumes "number_laws ops" and "parseIJson ops t = Some (Inr v)"
  shows "i_json ops v \<and> (\<exists>c. canonicalizeText ops t = Some (Inr c))"
  using number_laws.parse_accepts assms .

text \<open>
  The canonical text of an object does not depend on the order its members were added in, and
  canonical text is stable: canonicalizing it again gives it back, when the integers of the value are exact.
\<close>

theorem canonical_text_unique:
  assumes "number_laws ops" and "distinct (map fst es)" and "distinct (map fst es')" and "set es = set es'"
    and "canonicalJSON ops (V_obj es) = Inr t" and "exact ops (V_obj es)"
  shows "canonicalJSON ops (V_obj es') = Inr t \<and> canonicalizeText ops t = Some (Inr t)"
proof -
  have "sort_by by_name es = sort_by by_name es'" using sort_members_set assms(2-4) .
  then have "canonicalJSON ops (V_obj es') = canonicalJSON ops (V_obj es)" by (simp add: by_name_map)
  then show ?thesis
    using assms(5) number_laws.canonical_parses [OF assms(1,5,6)] number_laws.canonical_normal [OF assms(1,5)]
    by (simp add: canonicalizeText_def)
qed

text \<open>
  Not every canonical text can be read again. A finite number whose text is an integer literal
  beyond \<open>2 ^ 53 - 1\<close>, as that of \<open>1e16\<close> is, is serialized, and the parser refuses the text it gives.
\<close>

theorem canonical_text_refused:
  assumes "number_laws ops" and "no_finite ops n" and "\<not> no_negZero ops n" and "\<not> text_exact (no_string ops n)"
  shows "canonicalJSON ops (V_num n) = Inr (no_string ops n) \<and> parseIJson ops (no_string ops n) = Some (Inl Integer_out_of_range)"
proof -
  let ?t = "no_string ops n"
  obtain b where b: "scan_number ?t = Some (?t, b, [])" using number_laws.string_literal [OF assms(1-3)] by blast
  obtain c r where c: "?t = c # r" "c = 0x2D \<or> digit c" using number_head [OF b] .
  have head: "\<not> is_ws c" "c \<noteq> 0x7B" "c \<noteq> 0x5B" "c \<noteq> 0x22" "c \<noteq> of_char CHR ''t''" "c \<noteq> of_char CHR ''f''" "c \<noteq> of_char CHR ''n''"
    using c(2) by (auto simp: is_ws_def digit_def)
  have "after_text w ?t = None" if "w \<in> {''true'', ''false'', ''null''}" for w
    using that c(1) head by (auto simp: after_text_def units_of_def Let_def)
  then have "p_atom ops ?t = p_num ops ?t" using c by (simp add: p_atom_def)
  also have "\<dots> = Inl Integer_out_of_range" using assms(4) b by (auto simp: p_num_def text_exact_def split: if_splits)
  finally have "p_val ops (parse_fuel ?t) ?t = Some (Inl Integer_out_of_range)"
    using c(1) head by (simp add: parse_fuel_def ws_def)
  then show ?thesis using assms(2,3) by (simp add: parseIJson_def serializeNumber_def)
qed

definition sample_value :: "int jv" where
  "sample_value = V_obj [([0x62], V_arr [V_num (- 7), V_str [0xD83D, 0xDE00, 10], V_null]), ([0x61], V_bool True)]"

lemmas canonical_eval = units_of_def assertWellFormed_def stringify_def escape_unit_def comma_join_def member_text_def by_name_def
  serializeNumber_def int_str_def nat_digits.simps int_ops_def

lemma int_text_exact: "text_exact (units_of (int_str i)) \<longleftrightarrow> \<bar>i\<bar> \<le> max_exact_big"
  by (simp add: text_exact_def scan_int_str big_int_str)

lemma int_exact: "exact int_ops (V_num i) \<longleftrightarrow> \<bar>i\<bar> \<le> max_exact_big"
  by (simp add: int_ops_def int_text_exact)

lemma sample_text:
  "canonicalJSON int_ops sample_value =
   Inr (units_of ''{'' @ [0x22, 0x61, 0x22] @ units_of '':true,'' @ [0x22, 0x62, 0x22] @ units_of '':[-7,'' @
     [0x22, 0xD83D, 0xDE00, 0x5C, 0x6E, 0x22] @ units_of '',null]}'')"
  by (simp add: sample_value_def canonical_eval)

lemma sample_exact: "exact int_ops sample_value"
  using int_exact [of "- 7"] by (simp add: sample_value_def max_exact_big_def)

theorem canonical_round_trip_witness:
  "parseIJson int_ops (units_of ''{'' @ [0x22, 0x61, 0x22] @ units_of '':true,'' @ [0x22, 0x62, 0x22] @ units_of '':[-7,'' @
     [0x22, 0xD83D, 0xDE00, 0x5C, 0x6E, 0x22] @ units_of '',null]}'') = Some (Inr (normal int_ops sample_value))"
  by (rule canonical_round_trip [OF int_numbers.number_laws_axioms sample_text sample_exact])

theorem accepted_text_is_i_json_witness: "i_json int_ops (normal int_ops sample_value)"
  using accepted_text_is_i_json [OF int_numbers.number_laws_axioms] int_numbers.canonical_parses [OF sample_text sample_exact] by blast

theorem canonical_text_unique_witness:
  "\<exists>t. canonicalJSON int_ops (V_obj [([0x61], V_num 1), ([0x62], V_num 2)]) = Inr t \<and> canonicalizeText int_ops t = Some (Inr t)"
proof -
  let ?es = "[([0x62], V_num 2), ([0x61], V_num 1)] :: (units \<times> int jv) list"
  let ?es' = "[([0x61], V_num 1), ([0x62], V_num 2)] :: (units \<times> int jv) list"
  have "i_json int_ops (V_obj ?es)" by (simp add: int_ops_def)
  then obtain t where t: "canonicalJSON int_ops (V_obj ?es) = Inr t" using int_numbers.canonical_succeeds by blast
  have "exact int_ops (V_obj ?es)" using int_exact [of 1] int_exact [of 2] by (simp add: max_exact_big_def)
  then have "canonicalJSON int_ops (V_obj ?es') = Inr t \<and> canonicalizeText int_ops t = Some (Inr t)"
    by (intro canonical_text_unique [OF int_numbers.number_laws_axioms _ _ _ t]) auto
  then show ?thesis by blast
qed

theorem canonical_text_refused_witness:
  "canonicalJSON int_ops (V_num 10000000000000000) = Inr (units_of (int_str 10000000000000000)) \<and>
   parseIJson int_ops (units_of (int_str 10000000000000000)) = Some (Inl Integer_out_of_range)"
proof -
  have "\<not> text_exact (units_of (int_str 10000000000000000))" by (simp add: int_text_exact max_exact_big_def)
  then show ?thesis
    using canonical_text_refused [OF int_numbers.number_laws_axioms, of 10000000000000000] by (simp add: int_ops_def)
qed

end
