(* ===== verification/Base64.thy ===== *)
theory Base64
  imports Prelude
begin

text \<open>
  The base64url text of a signature (\<open>toBase64url\<close> and \<open>fromBase64url\<close> of
  \<open>certification-bundle-v3.ts\<close>), over the runtime's base64 codec: bytes are naturals below 256, the
  decoder reads either alphabet, skips what is outside it and drops an incomplete last byte.
\<close>

section \<open>The codec\<close>

definition b64_char :: "nat \<Rightarrow> char" where
  "b64_char n =
     (if n < 26 then char_of (65 + n) else if n < 52 then char_of (71 + n) else if n < 62 then char_of (n - 4)
      else if n = 62 then CHR ''+'' else CHR ''/'')"

definition b64_value :: "char \<Rightarrow> nat option" where
  "b64_value c =
     (let n = of_char c in
      if is_upper c then Some (n - 65) else if is_lower c then Some (n - 71) else if is_digit c then Some (n + 4)
      else if c = CHR ''+'' \<or> c = CHR ''-'' then Some 62 else if c = CHR ''/'' \<or> c = CHR ''_'' then Some 63 else None)"

fun base64 :: "nat list \<Rightarrow> string" where
  "base64 [] = []"
| "base64 [a] = [b64_char (a div 4), b64_char (a mod 4 * 16), CHR ''='', CHR ''='']"
| "base64 [a, b] = [b64_char (a div 4), b64_char (a mod 4 * 16 + b div 16), b64_char (b mod 16 * 4), CHR ''='']"
| "base64 (a # b # c # rest) =
     b64_char (a div 4) # b64_char (a mod 4 * 16 + b div 16) # b64_char (b mod 16 * 4 + c div 64) # b64_char (c mod 64) # base64 rest"

fun bytes_of :: "nat list \<Rightarrow> nat list" where
  "bytes_of (p # q # r # s # rest) =
     (p * 4 + q div 16) # (q mod 16 * 16 + r div 4) # (r mod 4 * 64 + s) # bytes_of rest"
| "bytes_of [p, q, r] = [p * 4 + q div 16, q mod 16 * 16 + r div 4]"
| "bytes_of [p, q] = [p * 4 + q div 16]"
| "bytes_of _ = []"

definition from_base64 :: "string \<Rightarrow> nat list" where
  "from_base64 s = bytes_of (List.map_filter b64_value s)"

definition swap_char :: "(char \<times> char) list \<Rightarrow> char \<Rightarrow> char" where
  "swap_char m c = (case map_of m c of Some d \<Rightarrow> d | None \<Rightarrow> c)"

definition toBase64url :: "nat list \<Rightarrow> string" where
  "toBase64url buf =
     rev (dropWhile (\<lambda>c. c = CHR ''='') (rev (map (swap_char [(CHR ''+'', CHR ''-''), (CHR ''/'', CHR ''_'')]) (base64 buf))))"

definition fromBase64url :: "string \<Rightarrow> nat list" where
  "fromBase64url s = from_base64 (map (swap_char [(CHR ''-'', CHR ''+''), (CHR ''_'', CHR ''/'')]) s)"

section \<open>Reading a signature back\<close>

definition url_char :: "char \<Rightarrow> bool" where
  "url_char c = (is_alnum c \<or> c = CHR ''-'' \<or> c = CHR ''_'')"

lemma b64_value_char: "n < 64 \<Longrightarrow> b64_value (b64_char n) = Some n"
proof -
  assume n: "n < 64"
  consider "n < 26" | "26 \<le> n" "n < 52" | "52 \<le> n" "n < 62" | "n = 62" | "n = 63" using n by linarith
  then show ?thesis
    by cases (auto simp: b64_char_def b64_value_def is_upper_def is_lower_def is_digit_def Let_def)
qed

lemma swap_values:
  "b64_value (swap_char [(CHR ''+'', CHR ''-''), (CHR ''/'', CHR ''_'')] c) = b64_value c"
  "b64_value (swap_char [(CHR ''-'', CHR ''+''), (CHR ''_'', CHR ''/'')] c) = b64_value c"
  by (auto simp: swap_char_def b64_value_def is_upper_def is_lower_def is_digit_def Let_def)

lemma b64_pad: "b64_value (CHR ''='') = None"
  by (simp add: b64_value_def is_upper_def is_lower_def is_digit_def Let_def)

definition sextets :: "string \<Rightarrow> nat list" where
  "sextets s = List.map_filter b64_value s"

lemma sextets_simps [simp]:
  "sextets [] = []"
  "sextets (c # s) = (case b64_value c of None \<Rightarrow> sextets s | Some n \<Rightarrow> n # sextets s)"
  by (auto simp: sextets_def List.map_filter_def split: option.splits)

lemma sextets_map:
  "(\<And>c. b64_value (f c) = b64_value c) \<Longrightarrow> sextets (map f s) = sextets s"
  by (induction s) (auto split: option.splits)

lemma sextets_append: "sextets (s @ t) = sextets s @ sextets t"
  by (simp add: sextets_def List.map_filter_def)

lemma sextets_strip: "sextets (rev (dropWhile (\<lambda>c. c = CHR ''='') (rev s))) = sextets s"
  by (induction s rule: rev_induct) (auto simp: sextets_append b64_pad)

lemma byte_parts: "b < 256 \<Longrightarrow> b div 4 < (64 :: nat)" "b < 256 \<Longrightarrow> b div 16 < (16 :: nat)" "b < 256 \<Longrightarrow> b div 64 < (4 :: nat)"
  by (auto intro: less_mult_imp_div_less)

lemma sextet_bounds:
  "a < 256 \<Longrightarrow> a div 4 < (64 :: nat)" "a mod 4 * 16 < (64 :: nat)" "b mod 16 * 4 < (64 :: nat)" "c mod 64 < (64 :: nat)"
  "b < 256 \<Longrightarrow> a mod 4 * 16 + b div 16 < (64 :: nat)" "c < 256 \<Longrightarrow> b mod 16 * 4 + c div 64 < (64 :: nat)"
proof -
  have m: "a mod 4 < 4" "b mod 16 < 16" "c mod 64 < 64" by simp_all
  then show "a mod 4 * 16 < 64" "b mod 16 * 4 < 64" "c mod 64 < 64" by linarith+
  show "b < 256 \<Longrightarrow> a mod 4 * 16 + b div 16 < 64" using m byte_parts(2) [of b] by linarith
  show "c < 256 \<Longrightarrow> b mod 16 * 4 + c div 64 < 64" using m byte_parts(3) [of c] by linarith
qed (rule byte_parts)

lemma split_sextets:
  "y < 16 \<Longrightarrow> (x * 16 + y) div 16 = (x :: nat)" "y < 16 \<Longrightarrow> (x * 16 + y) mod 16 = y"
  "z < 4 \<Longrightarrow> (x * 4 + z) div 4 = x" "z < 4 \<Longrightarrow> (x * 4 + z) mod 4 = z" for x y z :: nat
  by simp_all

lemma bytes_read: "list_all (\<lambda>b. b < 256) bs \<Longrightarrow> bytes_of (sextets (base64 bs)) = bs"
proof (induction bs rule: base64.induct)
  case (3 a b)
  then have ab: "a < 256" "b < 256" by simp_all
  then show ?case
    using byte_parts(2) [of b] by (simp add: b64_value_char b64_pad sextet_bounds split_sextets mult.commute)
next
  case (4 a b c rest)
  then have abc: "a < 256" "b < 256" "c < 256" by simp_all
  with 4 show ?case
    using byte_parts(2) [of b] byte_parts(3) [of c]
    by (simp add: b64_value_char sextet_bounds split_sextets)
qed (auto simp: b64_value_char b64_pad sextet_bounds)

lemma url_reads: "list_all (\<lambda>b. b < 256) bs \<Longrightarrow> fromBase64url (toBase64url bs) = bs"
  unfolding fromBase64url_def toBase64url_def from_base64_def sextets_def [symmetric]
  by (simp only: sextets_map [OF swap_values(2)] sextets_strip sextets_map [OF swap_values(1)] bytes_read)

lemma b64_char_url: "n < 64 \<Longrightarrow> url_char (swap_char [(CHR ''+'', CHR ''-''), (CHR ''/'', CHR ''_'')] (b64_char n))"
proof -
  assume n: "n < 64"
  have "is_alnum (b64_char n)" if p: "n < 62"
  proof -
    consider "n < 26" | "26 \<le> n" "n < 52" | "52 \<le> n" "n < 62" using p by linarith
    then show ?thesis by cases (auto simp: b64_char_def is_alnum_def is_upper_def is_lower_def is_digit_def Let_def)
  qed
  moreover have "\<not> is_alnum (CHR ''+'')" "\<not> is_alnum (CHR ''/'')"
    by (simp_all add: is_alnum_def is_upper_def is_lower_def is_digit_def Let_def)
  ultimately have "url_char (swap_char [(CHR ''+'', CHR ''-''), (CHR ''/'', CHR ''_'')] (b64_char n))" if "n < 62"
    using that by (auto simp: url_char_def swap_char_def)
  moreover have "n < 62 \<or> n = 62 \<or> n = 63" using n by linarith
  ultimately show ?thesis by (auto simp: b64_char_def swap_char_def url_char_def)
qed

lemma url_body:
  "list_all (\<lambda>b. b < 256) bs \<Longrightarrow>
   \<exists>s k. map (swap_char [(CHR ''+'', CHR ''-''), (CHR ''/'', CHR ''_'')]) (base64 bs) = s @ replicate k (CHR ''='') \<and> list_all url_char s"
proof (induction bs rule: base64.induct)
  case 1
  show ?case by (intro exI [of _ "[]"] exI [of _ 0]) simp
next
  case (2 a)
  have "swap_char [(CHR ''+'', CHR ''-''), (CHR ''/'', CHR ''_'')] (CHR ''='') = CHR ''=''" by (simp add: swap_char_def)
  with 2 show ?case
    by (intro exI [of _ "map (swap_char [(CHR ''+'', CHR ''-''), (CHR ''/'', CHR ''_'')]) [b64_char (a div 4), b64_char (a mod 4 * 16)]"] exI [of _ 2])
      (simp add: b64_char_url sextet_bounds numeral_2_eq_2)
next
  case (3 a b)
  have "swap_char [(CHR ''+'', CHR ''-''), (CHR ''/'', CHR ''_'')] (CHR ''='') = CHR ''=''" by (simp add: swap_char_def)
  with 3 show ?case
    by (intro exI [of _ "map (swap_char [(CHR ''+'', CHR ''-''), (CHR ''/'', CHR ''_'')]) [b64_char (a div 4), b64_char (a mod 4 * 16 + b div 16), b64_char (b mod 16 * 4)]"] exI [of _ 1])
      (simp add: b64_char_url sextet_bounds)
next
  case (4 a b c rest)
  then obtain s k where "map (swap_char [(CHR ''+'', CHR ''-''), (CHR ''/'', CHR ''_'')]) (base64 rest) = s @ replicate k (CHR ''='')"
    and "list_all url_char s" by auto
  with 4 show ?case
    by (intro exI [of _ "map (swap_char [(CHR ''+'', CHR ''-''), (CHR ''/'', CHR ''_'')])
          [b64_char (a div 4), b64_char (a mod 4 * 16 + b div 16), b64_char (b mod 16 * 4 + c div 64), b64_char (c mod 64)] @ s"] exI [of _ k])
      (simp add: b64_char_url sextet_bounds)
qed

lemma pads_dropped: "dropWhile (\<lambda>c. c = x) (replicate k x @ s) = dropWhile (\<lambda>c. c = x) s"
  by (induction k) auto

lemma url_text: "list_all (\<lambda>b. b < 256) bs \<Longrightarrow> list_all url_char (toBase64url bs)"
proof -
  assume "list_all (\<lambda>b. b < 256) bs"
  then obtain s k where s: "map (swap_char [(CHR ''+'', CHR ''-''), (CHR ''/'', CHR ''_'')]) (base64 bs) = s @ replicate k (CHR ''='')"
    and url: "list_all url_char s" using url_body by blast
  have "\<not> url_char (CHR ''='')" by (simp add: url_char_def is_alnum_def is_upper_def is_lower_def is_digit_def Let_def)
  with url have "CHR ''='' \<notin> set s" by (auto simp: list_all_iff)
  then have "dropWhile (\<lambda>c. c = CHR ''='') (rev s) = rev s" by (cases "rev s") (auto simp: in_set_conv_decomp [of _ s] dest: arg_cong [of _ _ rev])
  with url show ?thesis by (simp add: toBase64url_def s pads_dropped)
qed

text \<open>
  The base64url text of any bytes reads back to those bytes and consists of the URL-safe
  alphabet only, without padding.
\<close>

theorem signature_text_round_trip:
  assumes "list_all (\<lambda>b. b < 256) bs"
  shows "fromBase64url (toBase64url bs) = bs \<and> list_all url_char (toBase64url bs)"
  using assms url_reads url_text by blast

theorem signature_text_round_trip_witness: "fromBase64url (toBase64url [0, 255, 62, 251]) = [0, 255, 62, 251]"
  using signature_text_round_trip [of "[0, 255, 62, 251]"] by simp

end
