(* ===== verification/Bundle_V3.thy ===== *)
theory Bundle_V3
  imports Bundle_V2 Disposition Durability Jcs Base64 "HOL-Library.Monad_Syntax"
begin

text \<open>
  Certification bundle version 3 (\<open>certification-bundle-v3.ts\<close>): the witness digest, the attestation, the
  signature, sealing and verification. SHA-256 over the UTF-8 bytes of a text, the key readers and Ed25519
  are parameters (\<open>crypto\<close>); a text stands for its bytes. Rejections keep their kind and profile, not
  their message. A draft is scrubbed as the JSON value it is and read back by member.
\<close>

section \<open>Data\<close>

record row3 =
  r3_id :: string
  r3_scenario :: string
  r3_result :: string
  r3_assertions :: "int option"
  r3_detail :: "string option"
  r3_evidence :: "json option"

record profile3 =
  p3_id :: string
  p3_evidenceTier :: string
  p3_witnessCount :: int
  p3_certified :: bool

record relaxation3 =
  rx_obligation :: string
  rx_durability :: string
  rx_reason :: string

record suite3 =
  s3_name :: string
  s3_version :: string
  s3_targetMajor :: int
  s3_specArtifactsVersion :: string
  s3_stampSha256 :: "string option"

record build3 =
  bd_kind :: string
  bd_id :: string

record host3 =
  h3_name :: string
  h3_version :: string
  h3_vendor :: "string option"
  h3_build :: build3
  h3_signingKeyId :: "string option"
  h3_relaxations :: "relaxation3 list option"
  h3_deployment :: "string option"

record discovery3 =
  d3_url :: string
  d3_sha256 :: string
  d3_protocolVersions :: "string list"
  d3_preferredVersion :: string
  d3_document :: "jobject option"

record non_pass3 =
  np_id :: string
  np_result :: string
  np_reason :: string

record signature3 =
  sg_alg :: string
  sg_keyId :: string
  sg_sig :: string
  sg_over :: "string list"

record draft3 =
  b3_bundleVersion :: string
  b3_generatedAt :: string
  b3_suite :: suite3
  b3_host :: host3
  b3_discovery :: discovery3
  b3_claimedProfiles :: "profile3 list"
  b3_totals :: totals
  b3_requirements :: "row3 list"
  b3_assertionCount :: int
  b3_detail :: "non_pass3 list option"
  b3_durability :: "json option"
  b3_verifierSignature :: "signature3 option"

record bundle3 = draft3 +
  b3_witnessSha256 :: string
  b3_signature :: "signature3 option"

text \<open>What a run of this code may throw.\<close>

datatype v3_error = Thrown js_exception | Bad_key | Not_ed25519 | Refused refusal

record 'k crypto =
  cr_sha256 :: "units \<Rightarrow> string"
  cr_private :: "string \<Rightarrow> 'k option"
  cr_keyType :: "'k \<Rightarrow> string"
  cr_sign :: "'k \<Rightarrow> units \<Rightarrow> nat list"
  cr_public :: "string \<Rightarrow> 'k option"
  cr_verify :: "'k \<Rightarrow> units \<Rightarrow> nat list \<Rightarrow> bool"

definition signature_over :: "string list" where
  "signature_over = [''witnessSha256'', ''host.build'', ''suite.version'', ''discovery.sha256'']"

section \<open>The digest and the attestation\<close>

primrec json_jv :: "json \<Rightarrow> int jv" where
  "json_jv JNull = V_null"
| "json_jv (JBool b) = V_bool b"
| "json_jv (JNum n) = V_num n"
| "json_jv (JStr s) = V_str (units_of s)"
| "json_jv (JArr xs) = V_arr (map json_jv xs)"
| "json_jv (JObj es) = V_obj (map (map_prod units_of json_jv) es)"
| "json_jv (JNative n) = V_other n"

definition text_value :: "string \<Rightarrow> int jv" where
  "text_value s = V_str (units_of s)"

definition present :: "string \<Rightarrow> ('a \<Rightarrow> int jv) \<Rightarrow> 'a option \<Rightarrow> (units \<times> int jv) list" where
  "present k f x = (case x of None \<Rightarrow> [] | Some v \<Rightarrow> [(units_of k, f v)])"

definition row_value :: "row3 \<Rightarrow> int jv" where
  "row_value r =
     V_obj ([(units_of ''id'', text_value (r3_id r)), (units_of ''scenario'', text_value (r3_scenario r)),
             (units_of ''result'', text_value (r3_result r))] @
            present ''assertions'' V_num (r3_assertions r) @ present ''detail'' text_value (r3_detail r) @
            present ''evidence'' json_jv (r3_evidence r))"

definition relaxation_value :: "relaxation3 \<Rightarrow> int jv" where
  "relaxation_value x =
     V_obj [(units_of ''obligation'', text_value (rx_obligation x)), (units_of ''durability'', text_value (rx_durability x)),
            (units_of ''reason'', text_value (rx_reason x))]"

definition canonical_rows :: "row3 list \<Rightarrow> row3 list" where
  "canonical_rows rows = sort_by (\<lambda>a b. codeUnitCompare (units_of (r3_id a)) (units_of (r3_id b)) \<le> 0) rows"

definition is_relaxed :: "relaxation3 list option \<Rightarrow> bool" where
  "is_relaxed relaxations = (case relaxations of None \<Rightarrow> False | Some xs \<Rightarrow> xs \<noteq> [])"

definition preimage :: "row3 list \<Rightarrow> relaxation3 list option \<Rightarrow> string option \<Rightarrow> int jv" where
  "preimage rows relaxations deployment =
     (let canonicalRows = V_arr (map row_value (canonical_rows rows)) in
      if is_relaxed relaxations \<or> deployment \<noteq> None
      then V_obj ([(units_of ''rows'', canonicalRows)] @
             (if is_relaxed relaxations then present ''relaxations'' (\<lambda>xs. V_arr (map relaxation_value xs)) relaxations else []) @
             present ''deployment'' text_value deployment)
      else canonicalRows)"

definition witnessDigest :: "'k crypto \<Rightarrow> row3 list \<Rightarrow> relaxation3 list option \<Rightarrow> string option \<Rightarrow> refusal + string" where
  "witnessDigest cr rows relaxations deployment =
     ebind (canonicalJSON int_ops (preimage rows relaxations deployment)) (\<lambda>t. Inr (cr_sha256 cr t))"

definition attested :: "string \<Rightarrow> build3 \<Rightarrow> string \<Rightarrow> string \<Rightarrow> int jv" where
  "attested witness build version discovery =
     V_obj [(units_of ''witnessSha256'', text_value witness),
            (units_of ''host.build'', V_obj [(units_of ''kind'', text_value (bd_kind build)), (units_of ''id'', text_value (bd_id build))]),
            (units_of ''suite.version'', text_value version), (units_of ''discovery.sha256'', text_value discovery)]"

definition attestationPayload :: "string \<Rightarrow> 'a draft3_scheme \<Rightarrow> refusal + units" where
  "attestationPayload witness b =
     canonicalJSON int_ops (attested witness (h3_build (b3_host b)) (s3_version (b3_suite b)) (d3_sha256 (b3_discovery b)))"

section \<open>Signing and sealing\<close>

definition refused :: "refusal + 'a \<Rightarrow> v3_error + 'a" where
  "refused x = (case x of Inl e \<Rightarrow> Inl (Refused e) | Inr a \<Rightarrow> Inr a)"

definition signBundleV3 :: "'k crypto \<Rightarrow> string \<Rightarrow> 'a draft3_scheme \<Rightarrow> string \<Rightarrow> string \<Rightarrow> v3_error + signature3" where
  "signBundleV3 cr witness b privateKeyPem keyId =
     (case cr_private cr privateKeyPem of
        None \<Rightarrow> Inl Bad_key
      | Some key \<Rightarrow>
          if cr_keyType cr key \<noteq> ''ed25519'' then Inl Not_ed25519
          else ebind (refused (attestationPayload witness b)) (\<lambda>payload.
            Inr \<lparr>sg_alg = ''ed25519'', sg_keyId = keyId, sg_sig = toBase64url (cr_sign cr key payload), sg_over = signature_over\<rparr>))"

definition verifierSign :: "'k crypto \<Rightarrow> bundle3 \<Rightarrow> string \<Rightarrow> string \<Rightarrow> v3_error + signature3" where
  "verifierSign cr b privateKeyPem keyId =
     (case cr_private cr privateKeyPem of
        None \<Rightarrow> Inl Bad_key
      | Some key \<Rightarrow>
          ebind (refused (attestationPayload (b3_witnessSha256 b) b)) (\<lambda>payload.
            Inr \<lparr>sg_alg = ''ed25519'', sg_keyId = keyId, sg_sig = toBase64url (cr_sign cr key payload), sg_over = []\<rparr>))"

text \<open>The draft as the JSON value it is, and the members read back from such a value.\<close>

definition opt_json :: "string \<Rightarrow> ('a \<Rightarrow> json) \<Rightarrow> 'a option \<Rightarrow> jobject" where
  "opt_json k f x = (case x of None \<Rightarrow> [] | Some v \<Rightarrow> [(k, f v)])"

definition row_json :: "row3 \<Rightarrow> json" where
  "row_json r =
     JObj ([(''id'', JStr (r3_id r)), (''scenario'', JStr (r3_scenario r)), (''result'', JStr (r3_result r))] @
           opt_json ''assertions'' JNum (r3_assertions r) @ opt_json ''detail'' JStr (r3_detail r) @
           opt_json ''evidence'' id (r3_evidence r))"

definition profile_json :: "profile3 \<Rightarrow> json" where
  "profile_json p =
     JObj [(''id'', JStr (p3_id p)), (''evidenceTier'', JStr (p3_evidenceTier p)), (''witnessCount'', JNum (p3_witnessCount p)),
           (''certified'', JBool (p3_certified p))]"

definition relaxation_json :: "relaxation3 \<Rightarrow> json" where
  "relaxation_json x =
     JObj [(''obligation'', JStr (rx_obligation x)), (''durability'', JStr (rx_durability x)), (''reason'', JStr (rx_reason x))]"

definition suite_json :: "suite3 \<Rightarrow> json" where
  "suite_json s =
     JObj ([(''name'', JStr (s3_name s)), (''version'', JStr (s3_version s)), (''targetMajor'', JNum (s3_targetMajor s)),
            (''specArtifactsVersion'', JStr (s3_specArtifactsVersion s))] @ opt_json ''stampSha256'' JStr (s3_stampSha256 s))"

definition build_json :: "build3 \<Rightarrow> json" where
  "build_json b = JObj [(''kind'', JStr (bd_kind b)), (''id'', JStr (bd_id b))]"

definition host_json :: "host3 \<Rightarrow> json" where
  "host_json h =
     JObj ([(''name'', JStr (h3_name h)), (''version'', JStr (h3_version h))] @ opt_json ''vendor'' JStr (h3_vendor h) @
           [(''build'', build_json (h3_build h))] @ opt_json ''signingKeyId'' JStr (h3_signingKeyId h) @
           opt_json ''relaxations'' (\<lambda>xs. JArr (map relaxation_json xs)) (h3_relaxations h) @
           opt_json ''deployment'' JStr (h3_deployment h))"

definition discovery_json :: "discovery3 \<Rightarrow> json" where
  "discovery_json d =
     JObj ([(''url'', JStr (d3_url d)), (''sha256'', JStr (d3_sha256 d)),
            (''protocolVersions'', JArr (map JStr (d3_protocolVersions d))), (''preferredVersion'', JStr (d3_preferredVersion d))] @
           opt_json ''document'' JObj (d3_document d))"

definition totals_json :: "totals \<Rightarrow> json" where
  "totals_json t =
     JObj [(''executedPass'', JNum (tt_executedPass t)), (''executedFail'', JNum (tt_executedFail t)),
           (''skipped'', JNum (tt_skipped t)), (''inapplicable'', JNum (tt_inapplicable t)), (''blocked'', JNum (tt_blocked t))]"

definition non_pass_json :: "non_pass3 \<Rightarrow> json" where
  "non_pass_json n = JObj [(''id'', JStr (np_id n)), (''result'', JStr (np_result n)), (''reason'', JStr (np_reason n))]"

definition signature_json :: "signature3 \<Rightarrow> json" where
  "signature_json s =
     JObj [(''alg'', JStr (sg_alg s)), (''keyId'', JStr (sg_keyId s)), (''sig'', JStr (sg_sig s)), (''over'', JArr (map JStr (sg_over s)))]"

definition draft_json :: "draft3 \<Rightarrow> json" where
  "draft_json b =
     JObj ([(''bundleVersion'', JStr (b3_bundleVersion b)), (''generatedAt'', JStr (b3_generatedAt b)),
            (''suite'', suite_json (b3_suite b)), (''host'', host_json (b3_host b)), (''discovery'', discovery_json (b3_discovery b)),
            (''claimedProfiles'', JArr (map profile_json (b3_claimedProfiles b))),
            (''results'', JObj [(''totals'', totals_json (b3_totals b)), (''requirements'', JArr (map row_json (b3_requirements b)))]),
            (''assertionCount'', JNum (b3_assertionCount b))] @
           opt_json ''detail'' (\<lambda>ns. JObj [(''nonPass'', JArr (map non_pass_json ns))]) (b3_detail b) @
           opt_json ''durability'' id (b3_durability b) @
           opt_json ''verifierSignature'' signature_json (b3_verifierSignature b))"

fun all_some :: "('a \<Rightarrow> 'b option) \<Rightarrow> 'a list \<Rightarrow> 'b list option" where
  "all_some f [] = Some []"
| "all_some f (x # xs) = do { y \<leftarrow> f x; ys \<leftarrow> all_some f xs; Some (y # ys) }"

definition rd_str :: "json option \<Rightarrow> string option" where
  "rd_str v = (case v of Some (JStr s) \<Rightarrow> Some s | _ \<Rightarrow> None)"

definition rd_int :: "json option \<Rightarrow> int option" where
  "rd_int v = (case v of Some (JNum n) \<Rightarrow> Some n | _ \<Rightarrow> None)"

definition rd_bool :: "json option \<Rightarrow> bool option" where
  "rd_bool v = (case v of Some (JBool b) \<Rightarrow> Some b | _ \<Rightarrow> None)"

definition rd_obj :: "json option \<Rightarrow> jobject option" where
  "rd_obj v = (case v of Some (JObj es) \<Rightarrow> Some es | _ \<Rightarrow> None)"

definition rd_list :: "(json option \<Rightarrow> 'a option) \<Rightarrow> json option \<Rightarrow> 'a list option" where
  "rd_list f v = (case v of Some (JArr xs) \<Rightarrow> all_some (\<lambda>x. f (Some x)) xs | _ \<Rightarrow> None)"

definition rd_opt :: "(json option \<Rightarrow> 'a option) \<Rightarrow> json option \<Rightarrow> 'a option option" where
  "rd_opt f v = (case v of None \<Rightarrow> Some None | Some w \<Rightarrow> map_option Some (f (Some w)))"

definition read_row :: "json option \<Rightarrow> row3 option" where
  "read_row v = do {
     i \<leftarrow> rd_str (member v ''id''); s \<leftarrow> rd_str (member v ''scenario''); r \<leftarrow> rd_str (member v ''result'');
     a \<leftarrow> rd_opt rd_int (member v ''assertions''); d \<leftarrow> rd_opt rd_str (member v ''detail'');
     Some \<lparr>r3_id = i, r3_scenario = s, r3_result = r, r3_assertions = a, r3_detail = d, r3_evidence = member v ''evidence''\<rparr> }"

definition read_profile :: "json option \<Rightarrow> profile3 option" where
  "read_profile v = do {
     i \<leftarrow> rd_str (member v ''id''); t \<leftarrow> rd_str (member v ''evidenceTier''); w \<leftarrow> rd_int (member v ''witnessCount'');
     c \<leftarrow> rd_bool (member v ''certified'');
     Some \<lparr>p3_id = i, p3_evidenceTier = t, p3_witnessCount = w, p3_certified = c\<rparr> }"

definition read_relaxation :: "json option \<Rightarrow> relaxation3 option" where
  "read_relaxation v = do {
     ob \<leftarrow> rd_str (member v ''obligation''); d \<leftarrow> rd_str (member v ''durability''); r \<leftarrow> rd_str (member v ''reason'');
     Some \<lparr>rx_obligation = ob, rx_durability = d, rx_reason = r\<rparr> }"

definition read_suite :: "json option \<Rightarrow> suite3 option" where
  "read_suite v = do {
     n \<leftarrow> rd_str (member v ''name''); w \<leftarrow> rd_str (member v ''version''); m \<leftarrow> rd_int (member v ''targetMajor'');
     a \<leftarrow> rd_str (member v ''specArtifactsVersion''); s \<leftarrow> rd_opt rd_str (member v ''stampSha256'');
     Some \<lparr>s3_name = n, s3_version = w, s3_targetMajor = m, s3_specArtifactsVersion = a, s3_stampSha256 = s\<rparr> }"

definition read_build :: "json option \<Rightarrow> build3 option" where
  "read_build v = do {
     k \<leftarrow> rd_str (member v ''kind''); i \<leftarrow> rd_str (member v ''id''); Some \<lparr>bd_kind = k, bd_id = i\<rparr> }"

definition read_host :: "json option \<Rightarrow> host3 option" where
  "read_host v = do {
     n \<leftarrow> rd_str (member v ''name''); w \<leftarrow> rd_str (member v ''version''); e \<leftarrow> rd_opt rd_str (member v ''vendor'');
     b \<leftarrow> read_build (member v ''build''); k \<leftarrow> rd_opt rd_str (member v ''signingKeyId'');
     xs \<leftarrow> rd_opt (rd_list read_relaxation) (member v ''relaxations''); d \<leftarrow> rd_opt rd_str (member v ''deployment'');
     Some \<lparr>h3_name = n, h3_version = w, h3_vendor = e, h3_build = b, h3_signingKeyId = k, h3_relaxations = xs, h3_deployment = d\<rparr> }"

definition read_discovery :: "json option \<Rightarrow> discovery3 option" where
  "read_discovery v = do {
     u \<leftarrow> rd_str (member v ''url''); s \<leftarrow> rd_str (member v ''sha256''); ps \<leftarrow> rd_list rd_str (member v ''protocolVersions'');
     p \<leftarrow> rd_str (member v ''preferredVersion''); d \<leftarrow> rd_opt rd_obj (member v ''document'');
     Some \<lparr>d3_url = u, d3_sha256 = s, d3_protocolVersions = ps, d3_preferredVersion = p, d3_document = d\<rparr> }"

definition read_totals :: "json option \<Rightarrow> totals option" where
  "read_totals v = do {
     p \<leftarrow> rd_int (member v ''executedPass''); f \<leftarrow> rd_int (member v ''executedFail''); s \<leftarrow> rd_int (member v ''skipped'');
     i \<leftarrow> rd_int (member v ''inapplicable''); b \<leftarrow> rd_int (member v ''blocked'');
     Some \<lparr>tt_executedPass = p, tt_executedFail = f, tt_skipped = s, tt_inapplicable = i, tt_blocked = b\<rparr> }"

definition read_non_pass :: "json option \<Rightarrow> non_pass3 option" where
  "read_non_pass v = do {
     i \<leftarrow> rd_str (member v ''id''); r \<leftarrow> rd_str (member v ''result''); w \<leftarrow> rd_str (member v ''reason'');
     Some \<lparr>np_id = i, np_result = r, np_reason = w\<rparr> }"

definition read_signature :: "json option \<Rightarrow> signature3 option" where
  "read_signature v = do {
     a \<leftarrow> rd_str (member v ''alg''); k \<leftarrow> rd_str (member v ''keyId''); s \<leftarrow> rd_str (member v ''sig'');
     os \<leftarrow> rd_opt (rd_list rd_str) (member v ''over'');
     Some \<lparr>sg_alg = a, sg_keyId = k, sg_sig = s, sg_over = (case os of None \<Rightarrow> [] | Some xs \<Rightarrow> xs)\<rparr> }"

definition read_draft :: "json \<Rightarrow> draft3 option" where
  "read_draft j = (let v = Some j in do {
     w \<leftarrow> rd_str (member v ''bundleVersion''); g \<leftarrow> rd_str (member v ''generatedAt'');
     s \<leftarrow> read_suite (member v ''suite''); h \<leftarrow> read_host (member v ''host''); d \<leftarrow> read_discovery (member v ''discovery'');
     ps \<leftarrow> rd_list read_profile (member v ''claimedProfiles''); t \<leftarrow> read_totals (member (member v ''results'') ''totals'');
     rows \<leftarrow> rd_list read_row (member (member v ''results'') ''requirements''); n \<leftarrow> rd_int (member v ''assertionCount'');
     e \<leftarrow> rd_opt (\<lambda>e. rd_list read_non_pass (member e ''nonPass'')) (member v ''detail'');
     vs \<leftarrow> rd_opt read_signature (member v ''verifierSignature'');
     Some \<lparr>b3_bundleVersion = w, b3_generatedAt = g, b3_suite = s, b3_host = h, b3_discovery = d, b3_claimedProfiles = ps,
           b3_totals = t, b3_requirements = rows, b3_assertionCount = n, b3_detail = e, b3_durability = member v ''durability'',
           b3_verifierSignature = vs\<rparr> })"

definition with_signature :: "draft3 \<Rightarrow> string \<Rightarrow> signature3 option \<Rightarrow> bundle3" where
  "with_signature d w s = draft3.extend d (bundle3.fields w s)"

text \<open>Scrub, then digest, then sign. A scrubbed draft without the members read next is a thrown error.\<close>

definition sealBundleV3 ::
  "'k crypto \<Rightarrow> draft3 \<Rightarrow> string list \<Rightarrow> string \<Rightarrow> string \<Rightarrow> v3_error + bundle3 \<times> bundle3 \<times> string list" where
  "sealBundleV3 cr draft secrets privateKeyPem keyId =
     (let (scrubbed, redactedAt) = scrubEvidence (\<lambda>s. cr_sha256 cr (units_of s)) (draft_json draft) secrets in
      case read_draft scrubbed of
        None \<Rightarrow> Inl (Thrown (TypeError ''requirements''))
      | Some d \<Rightarrow>
          ebind (refused (witnessDigest cr (b3_requirements d) (h3_relaxations (b3_host d)) (h3_deployment (b3_host d)))) (\<lambda>w.
          ebind (signBundleV3 cr w d privateKeyPem keyId) (\<lambda>s.
            Inr (with_signature d w None, with_signature d w (Some s), redactedAt))))"

section \<open>Verification\<close>

record options3 =
  op_hostPublicKeyPem :: "string option"
  op_verifierPublicKeyPem :: "string option"

record rejection3 =
  rj3_kind :: string
  rj3_profile :: "string option"

record verdict3 =
  v3_rejections :: "rejection3 list"
  v3_signatureVerified :: bool
  v3_verifierSignatureVerified :: bool
  v3_certifiedProfiles :: "string list"
  v3_derivabilityChecked :: bool
  v3_optedOut :: "string list"

definition reject :: "string \<Rightarrow> rejection3" where
  "reject k = \<lparr>rj3_kind = k, rj3_profile = None\<rparr>"

definition reject_profile :: "string \<Rightarrow> string \<Rightarrow> rejection3" where
  "reject_profile k p = \<lparr>rj3_kind = k, rj3_profile = Some p\<rparr>"

definition reject_if :: "bool \<Rightarrow> string \<Rightarrow> rejection3 list" where
  "reject_if b k = (if b then [reject k] else [])"

definition opt_out_row :: string where
  "opt_out_row = ''openwop.profile.''"

definition opt_out_mark :: string where
  "opt_out_mark = ''OPENWOP_OPTED_OUT_PROFILES''"

text \<open>\<open>OPT_OUT_DETAIL.exec\<close>: the name after the first mark that has one.\<close>

fun opt_out_name :: "string \<Rightarrow> string option" where
  "opt_out_name [] = None"
| "opt_out_name (c # cs) =
     (let m = opt_out_mark @ '': ''; rest = drop (length m) (c # cs) in
      if starts_with m (c # cs) \<and> (case rest of [] \<Rightarrow> False | l # ls \<Rightarrow> is_lower l)
      then Some (takeWhile name_char rest) else opt_out_name cs)"

definition row_opt_outs :: "row3 \<Rightarrow> string list" where
  "row_opt_outs r =
     (let d = or_default (r3_detail r) [] in
      if r3_result r \<noteq> ''skipped'' then []
      else (if starts_with opt_out_row (r3_id r) \<and> has_sub opt_out_mark d then [drop (length opt_out_row) (r3_id r)] else []) @
           (case opt_out_name d of None \<Rightarrow> [] | Some n \<Rightarrow> [n]))"

definition optedOutFromRows :: "row3 list \<Rightarrow> string list" where
  "optedOutFromRows rows = sort_by (\<lambda>a b. a \<le> b) (uniq (concat (map row_opt_outs rows)))"

definition row_rejections3 :: "string list \<Rightarrow> row3 \<Rightarrow> rejection3 list" where
  "row_rejections3 seen r =
     reject_if (r3_id r \<in> set seen) ''duplicate-requirement'' @
     reject_if (r3_result r \<noteq> ''executed-pass'' \<and> js_trim (or_default (r3_detail r) []) = []) ''reason-missing'' @
     reject_if (r3_result r = ''executed-pass'' \<and> \<not> (case r3_assertions r of None \<Rightarrow> False | Some n \<Rightarrow> 0 < n)) ''vacuous-pass''"

fun rows_rejections :: "string list \<Rightarrow> row3 list \<Rightarrow> rejection3 list" where
  "rows_rejections seen [] = []"
| "rows_rejections seen (r # rs) = row_rejections3 seen r @ rows_rejections (r3_id r # seen) rs"

definition count3 :: "row3 list \<Rightarrow> string \<Rightarrow> int" where
  "count3 rows d = int (length (filter (\<lambda>r. r3_result r = d) rows))"

definition expected3 :: "row3 list \<Rightarrow> totals" where
  "expected3 rows =
     \<lparr>tt_executedPass = count3 rows ''executed-pass'', tt_executedFail = count3 rows ''executed-fail'',
      tt_skipped = count3 rows ''skipped'', tt_inapplicable = count3 rows ''inapplicable'', tt_blocked = count3 rows ''blocked''\<rparr>"

definition totals_rejections3 :: "totals \<Rightarrow> totals \<Rightarrow> rejection3 list" where
  "totals_rejections3 t e =
     concat (map (\<lambda>f. reject_if (f t \<noteq> f e) ''totals-mismatch'')
       [tt_executedPass, tt_executedFail, tt_skipped, tt_inapplicable, tt_blocked])"

definition assertions3 :: "row3 list \<Rightarrow> int" where
  "assertions3 rows = foldl (\<lambda>n r. n + (case r3_assertions r of None \<Rightarrow> 0 | Some a \<Rightarrow> a)) 0 rows"

text \<open>\<open>refusedAs\<close>: a refusal is a rejection of the kind, and there is no value.\<close>

definition refusedAs :: "string \<Rightarrow> refusal + 'a \<Rightarrow> rejection3 list \<times> 'a option" where
  "refusedAs kind x = (case x of Inl e \<Rightarrow> ([reject kind], None) | Inr a \<Rightarrow> ([], Some a))"

definition record_rejections :: "'k crypto \<Rightarrow> bundle3 \<Rightarrow> rejection3 list" where
  "record_rejections cr b =
     (let rows = b3_requirements b;
          (refusals, digest) = refusedAs ''witness-digest'' (witnessDigest cr rows (h3_relaxations (b3_host b)) (h3_deployment (b3_host b)))
      in reject_if (b3_bundleVersion b \<noteq> ''3'') ''not-v3'' @
         rows_rejections [] rows @
         totals_rejections3 (b3_totals b) (expected3 rows) @
         refusals @ reject_if (digest \<noteq> None \<and> digest \<noteq> Some (b3_witnessSha256 b)) ''witness-digest'' @
         reject_if (b3_assertionCount b \<noteq> assertions3 rows) ''assertion-count'' @
         reject_if ((\<exists>r \<in> set rows. r3_result r \<noteq> ''executed-pass'') \<and> b3_detail b = None) ''detail-missing'' @
         reject_if (bd_kind (h3_build (b3_host b)) = [] \<or> bd_id (h3_build (b3_host b)) = []) ''build-missing'')"

text \<open>An absent or empty key is no key.\<close>

definition given_key :: "string option \<Rightarrow> string option" where
  "given_key k = (case k of Some [] \<Rightarrow> None | _ \<Rightarrow> k)"

definition check_attestation :: "'k crypto \<Rightarrow> string \<Rightarrow> bundle3 \<Rightarrow> string \<Rightarrow> string \<Rightarrow> v3_error + rejection3 list \<times> bool" where
  "check_attestation cr kind b pem sig =
     (case cr_public cr pem of
        None \<Rightarrow> Inl Bad_key
      | Some key \<Rightarrow>
          (let (refusals, payload) = refusedAs kind (attestationPayload (b3_witnessSha256 b) b);
               verified = (case payload of None \<Rightarrow> False | Some p \<Rightarrow> cr_verify cr key p (fromBase64url sig))
           in Inr (refusals @ reject_if (payload \<noteq> None \<and> \<not> verified) kind, verified)))"

definition check_signature :: "'k crypto \<Rightarrow> bundle3 \<Rightarrow> options3 \<Rightarrow> v3_error + rejection3 list \<times> bool" where
  "check_signature cr b opts =
     (case b3_signature b of
        None \<Rightarrow> Inr ([reject ''signature-missing''], False)
      | Some sig \<Rightarrow>
          if sg_alg sig \<noteq> ''ed25519'' \<or> sg_keyId sig = [] \<or> sg_sig sig = [] then Inr ([reject ''signature-missing''], False)
          else if sg_over sig \<noteq> signature_over then Inr ([reject ''signature-over''], False)
          else case given_key (op_hostPublicKeyPem opts) of
            None \<Rightarrow> Inr ([], False)
          | Some pem \<Rightarrow> check_attestation cr ''signature-invalid'' b pem (sg_sig sig))"

definition claims_independent :: "bundle3 \<Rightarrow> bool" where
  "claims_independent b = (\<exists>p \<in> set (b3_claimedProfiles b). p3_evidenceTier p = ''independent'')"

definition check_independent :: "'k crypto \<Rightarrow> bundle3 \<Rightarrow> options3 \<Rightarrow> v3_error + rejection3 list \<times> bool" where
  "check_independent cr b opts =
     (if \<not> claims_independent b then Inr ([], False)
      else case b3_verifierSignature b of
        None \<Rightarrow> Inr ([reject ''independent-unsigned''], False)
      | Some vs \<Rightarrow>
          if sg_keyId vs = [] \<or> sg_sig vs = [] then Inr ([reject ''independent-unsigned''], False)
          else if map_option sg_keyId (b3_signature b) = Some (sg_keyId vs) \<or> h3_signingKeyId (b3_host b) = Some (sg_keyId vs)
          then Inr ([reject ''independent-self-signed''], False)
          else case given_key (op_verifierPublicKeyPem opts) of
            None \<Rightarrow> Inr ([reject ''independent-unverifiable''], False)
          | Some pem \<Rightarrow> check_attestation cr ''verifier-signature-invalid'' b pem (sg_sig vs))"

definition evidence_rows :: "row3 list \<Rightarrow> evidence_row list" where
  "evidence_rows rows = map (\<lambda>r. \<lparr>er_id = r3_id r, er_result = r3_result r, er_evidence = r3_evidence r\<rparr>) rows"

definition check_rung :: "bundle3 \<Rightarrow> v3_error + rejection3 list" where
  "check_rung b =
     (case checkRungClaim (member (b3_durability b) ''rung'') (evidence_rows (b3_requirements b)) of
        Inl e \<Rightarrow> Inl (Thrown e)
      | Inr c \<Rightarrow> Inr (reject_if (c \<noteq> Claim_ok) ''rung-not-derivable''))"

definition profile_ids3 :: "bundle3 \<Rightarrow> string list" where
  "profile_ids3 b = map p3_id (b3_claimedProfiles b)"

definition relaxations3 :: "bundle3 \<Rightarrow> relaxation3 list" where
  "relaxations3 b = (case h3_relaxations (b3_host b) of None \<Rightarrow> [] | Some xs \<Rightarrow> xs)"

definition relaxed_profiles :: "registry \<Rightarrow> bundle3 \<Rightarrow> string list" where
  "relaxed_profiles reg b = profilesRelaxedBy reg (map rx_obligation (relaxations3 b)) (profile_ids3 b)"

definition observed_relaxed :: "registry \<Rightarrow> bundle3 \<Rightarrow> string list" where
  "observed_relaxed reg b =
     profilesDeniedByObservedRelaxation reg
       (map (\<lambda>r. (r3_id r, r3_result r = ''executed-fail'')) (b3_requirements b)) (profile_ids3 b)"

definition observed_rejections :: "registry \<Rightarrow> bundle3 \<Rightarrow> rejection3 list" where
  "observed_rejections reg b =
     map (\<lambda>p. reject_profile ''undeclared-relaxation-observed'' (p3_id p))
       (filter (\<lambda>p. p3_certified p \<and> p3_id p \<in> set (observed_relaxed reg b) \<and> p3_id p \<notin> set (relaxed_profiles reg b))
         (b3_claimedProfiles b))"

definition relaxed_rejections :: "registry \<Rightarrow> bundle3 \<Rightarrow> rejection3 list" where
  "relaxed_rejections reg b =
     map (\<lambda>p. reject_profile ''relaxed-profile-certified'' (p3_id p))
       (filter (\<lambda>p. p3_certified p \<and> p3_id p \<in> set (relaxed_profiles reg b)) (b3_claimedProfiles b))"

definition certified_claims :: "registry \<Rightarrow> bundle3 \<Rightarrow> string list" where
  "certified_claims reg b =
     map p3_id (filter (\<lambda>p. p3_certified p \<and> p3_id p \<notin> set (relaxed_profiles reg b)) (b3_claimedProfiles b))"

definition target_major3 :: "bundle3 \<Rightarrow> nat" where
  "target_major3 b = (if s3_targetMajor (b3_suite b) = 2 then 2 else 1)"

definition family_prefix :: string where
  "family_prefix = ''family.''"

definition advertised :: "registry \<Rightarrow> jobject \<Rightarrow> nat \<Rightarrow> string \<Rightarrow> bool" where
  "advertised reg doc major name =
     (if starts_with family_prefix name then is_record (js_get doc (drop (length family_prefix) name))
      else profileDerivable reg doc name major)"

definition derivability_rejections :: "registry \<Rightarrow> bundle3 \<Rightarrow> jobject \<Rightarrow> rejection3 list" where
  "derivability_rejections reg b doc =
     map (\<lambda>n. reject ''opted-out-but-advertised'')
       (filter (advertised reg doc (target_major3 b)) (optedOutFromRows (b3_requirements b))) @
     map (\<lambda>p. reject_profile ''profile-not-derivable'' (p3_id p))
       (filter (\<lambda>p. p3_certified p \<and> \<not> profileDerivable reg doc (p3_id p) (target_major3 b)) (b3_claimedProfiles b))"

definition check_document :: "'k crypto \<Rightarrow> registry \<Rightarrow> bundle3 \<Rightarrow> rejection3 list \<times> bool" where
  "check_document cr reg b =
     (case d3_document (b3_discovery b) of
        None \<Rightarrow> ([], False)
      | Some doc \<Rightarrow>
          (case refusedAs ''discovery-digest'' (ebind (canonicalJSON int_ops (json_jv (JObj doc))) (\<lambda>t. Inr (cr_sha256 cr t))) of
             (refusals, None) \<Rightarrow> (refusals, False)
           | (refusals, Some digest) \<Rightarrow>
               if digest \<noteq> d3_sha256 (b3_discovery b) then (refusals @ [reject ''discovery-digest''], False)
               else if target_major3 b = 2 \<and> \<not> v2RegistryAvailable reg then (refusals, False)
               else (refusals @ derivability_rejections reg b doc, True)))"

definition bundle_wide3 :: "rejection3 \<Rightarrow> bool" where
  "bundle_wide3 r = (case rj3_profile r of None \<Rightarrow> True | Some p \<Rightarrow> p = [])"

definition certified_of :: "rejection3 list \<Rightarrow> string list \<Rightarrow> string list" where
  "certified_of rejections certified =
     (if \<exists>r \<in> set rejections. bundle_wide3 r then []
      else filter (\<lambda>p. Some p \<notin> rj3_profile ` set rejections) certified)"

definition verifyBundleV3 :: "'k crypto \<Rightarrow> registry \<Rightarrow> bundle3 \<Rightarrow> options3 \<Rightarrow> v3_error + verdict3" where
  "verifyBundleV3 cr reg b opts =
     ebind (check_signature cr b opts) (\<lambda>s.
     ebind (check_independent cr b opts) (\<lambda>i.
     ebind (check_rung b) (\<lambda>rung.
       let doc = check_document cr reg b;
           certified = certified_claims reg b;
           rejections = record_rejections cr b @ fst s @ fst i @ rung @ observed_rejections reg b @ relaxed_rejections reg b @
             reject_if (0 < count3 (b3_requirements b) ''blocked'' \<and> certified \<noteq> []) ''blocked-certified'' @ fst doc
       in Inr \<lparr>v3_rejections = rejections, v3_signatureVerified = snd s, v3_verifierSignatureVerified = snd i,
               v3_certifiedProfiles = certified_of rejections certified, v3_derivabilityChecked = snd doc,
               v3_optedOut = optedOutFromRows (b3_requirements b)\<rparr>)))"

section \<open>What certification rests on\<close>

text \<open>The record: what the rows, their totals and their digest have to say.\<close>

definition row_ok :: "row3 \<Rightarrow> bool" where
  "row_ok r =
     (if r3_result r = ''executed-pass'' then \<exists>n. r3_assertions r = Some n \<and> 0 < n
      else \<exists>d. r3_detail r = Some d \<and> js_trim d \<noteq> [])"

definition record_ok :: "'k crypto \<Rightarrow> bundle3 \<Rightarrow> bool" where
  "record_ok cr b =
     (let rows = b3_requirements b; h = b3_host b in
      b3_bundleVersion b = ''3'' \<and> distinct (map r3_id rows) \<and> (\<forall>r \<in> set rows. row_ok r) \<and>
      b3_totals b = expected3 rows \<and>
      witnessDigest cr rows (h3_relaxations h) (h3_deployment h) = Inr (b3_witnessSha256 b) \<and>
      b3_assertionCount b = sum_list (map (\<lambda>r. case r3_assertions r of None \<Rightarrow> 0 | Some a \<Rightarrow> a) rows) \<and>
      ((\<exists>r \<in> set rows. r3_result r \<noteq> ''executed-pass'') \<longrightarrow> b3_detail b \<noteq> None) \<and>
      bd_kind (h3_build h) \<noteq> [] \<and> bd_id (h3_build h) \<noteq> [])"

definition attests :: "'k crypto \<Rightarrow> bundle3 \<Rightarrow> string \<Rightarrow> string \<Rightarrow> bool" where
  "attests cr b pem sig =
     (\<exists>key p. cr_public cr pem = Some key \<and> attestationPayload (b3_witnessSha256 b) b = Inr p \<and> cr_verify cr key p (fromBase64url sig))"

definition signature_ok :: "'k crypto \<Rightarrow> bundle3 \<Rightarrow> options3 \<Rightarrow> bool" where
  "signature_ok cr b opts =
     (\<exists>sig. b3_signature b = Some sig \<and> sg_alg sig = ''ed25519'' \<and> sg_keyId sig \<noteq> [] \<and> sg_sig sig \<noteq> [] \<and>
        sg_over sig = signature_over \<and>
        (case given_key (op_hostPublicKeyPem opts) of None \<Rightarrow> True | Some pem \<Rightarrow> attests cr b pem (sg_sig sig)))"

definition independent_ok :: "'k crypto \<Rightarrow> bundle3 \<Rightarrow> options3 \<Rightarrow> bool" where
  "independent_ok cr b opts =
     (claims_independent b \<longrightarrow>
      (\<exists>vs pem. b3_verifierSignature b = Some vs \<and> sg_keyId vs \<noteq> [] \<and> sg_sig vs \<noteq> [] \<and>
        map_option sg_keyId (b3_signature b) \<noteq> Some (sg_keyId vs) \<and> h3_signingKeyId (b3_host b) \<noteq> Some (sg_keyId vs) \<and>
        given_key (op_verifierPublicKeyPem opts) = Some pem \<and> attests cr b pem (sg_sig vs)))"

definition document_digest_ok :: "'k crypto \<Rightarrow> bundle3 \<Rightarrow> jobject \<Rightarrow> bool" where
  "document_digest_ok cr b doc =
     (\<exists>t. canonicalJSON int_ops (json_jv (JObj doc)) = Inr t \<and> cr_sha256 cr t = d3_sha256 (b3_discovery b))"

definition derivability_decidable :: "registry \<Rightarrow> bundle3 \<Rightarrow> bool" where
  "derivability_decidable reg b = (s3_targetMajor (b3_suite b) = 2 \<longrightarrow> v2RegistryAvailable reg)"

definition document_ok :: "'k crypto \<Rightarrow> registry \<Rightarrow> bundle3 \<Rightarrow> bool" where
  "document_ok cr reg b =
     (case d3_document (b3_discovery b) of
        None \<Rightarrow> True
      | Some doc \<Rightarrow>
          document_digest_ok cr b doc \<and>
          (derivability_decidable reg b \<longrightarrow>
             (\<forall>n \<in> set (optedOutFromRows (b3_requirements b)). \<not> advertised reg doc (target_major3 b) n)))"

definition profile_ok :: "registry \<Rightarrow> bundle3 \<Rightarrow> string \<Rightarrow> bool" where
  "profile_ok reg b p =
     (p \<notin> set (relaxed_profiles reg b) \<and> p \<notin> set (observed_relaxed reg b) \<and>
      (case d3_document (b3_discovery b) of
         None \<Rightarrow> True
       | Some doc \<Rightarrow> derivability_decidable reg b \<longrightarrow> profileDerivable reg doc p (target_major3 b)))"

definition claims_certified :: "bundle3 \<Rightarrow> string \<Rightarrow> bool" where
  "claims_certified b p = (\<exists>c \<in> set (b3_claimedProfiles b). p3_certified c \<and> p3_id c = p)"

text \<open>What lets any profile of the bundle certify: the nameless profile, if it is claimed, counts for all.\<close>

definition bundle_ok :: "'k crypto \<Rightarrow> registry \<Rightarrow> bundle3 \<Rightarrow> options3 \<Rightarrow> bool" where
  "bundle_ok cr reg b opts =
     (record_ok cr b \<and> signature_ok cr b opts \<and> independent_ok cr b opts \<and>
      checkRungClaim (member (b3_durability b) ''rung'') (evidence_rows (b3_requirements b)) = Inr Claim_ok \<and>
      (\<forall>r \<in> set (b3_requirements b). r3_result r \<noteq> ''blocked'') \<and> document_ok cr reg b \<and>
      (claims_certified b [] \<longrightarrow> profile_ok reg b []))"

lemma reject_if_Nil [simp]: "reject_if c k = [] \<longleftrightarrow> \<not> c"
  by (simp add: reject_if_def)

lemma rows_rejections_Nil:
  "rows_rejections seen rows = [] \<longleftrightarrow>
     distinct (map r3_id rows) \<and> set (map r3_id rows) \<inter> set seen = {} \<and> (\<forall>r \<in> set rows. row_ok r)"
proof (induction seen rows rule: rows_rejections.induct)
  case (2 seen r rs)
  have "row_rejections3 seen r = [] \<longleftrightarrow> r3_id r \<notin> set seen \<and> row_ok r"
    by (auto simp: row_rejections3_def row_ok_def or_default_def js_trim_def split: option.splits)
  with 2 show ?case by auto
qed simp

lemma totals_Nil: "totals_rejections3 t e = [] \<longleftrightarrow> t = e"
  by (cases t; cases e) (auto simp: totals_rejections3_def)

lemma assertions_sum: "assertions3 rows = sum_list (map (\<lambda>r. case r3_assertions r of None \<Rightarrow> 0 | Some a \<Rightarrow> a) rows)"
proof -
  have "foldl (\<lambda>n r. n + (case r3_assertions r of None \<Rightarrow> 0 | Some a \<Rightarrow> a)) m rows =
      m + sum_list (map (\<lambda>r. case r3_assertions r of None \<Rightarrow> 0 | Some a \<Rightarrow> a) rows)" for m
    by (induction rows arbitrary: m) auto
  then show ?thesis by (simp add: assertions3_def)
qed

lemma record_Nil: "record_rejections cr b = [] \<longleftrightarrow> record_ok cr b"
  by (auto simp: record_rejections_def record_ok_def Let_def refusedAs_def rows_rejections_Nil totals_Nil assertions_sum
      split: sum.splits)

lemma bundle_wide_simps [simp]: "bundle_wide3 (reject k)" "bundle_wide3 (reject_profile k p) \<longleftrightarrow> p = []"
  "rj3_profile (reject k) = None" "rj3_profile (reject_profile k p) = Some p"
  by (simp_all add: bundle_wide3_def reject_def reject_profile_def)

lemma check_attestation_ok:
  assumes "check_attestation cr kind b pem sig = Inr (rs, v)"
  shows "(rs = [] \<longleftrightarrow> attests cr b pem sig) \<and> (v \<longleftrightarrow> attests cr b pem sig)"
  using assms
  by (auto simp: check_attestation_def attests_def Let_def refusedAs_def reject_if_def
      split: option.splits prod.splits sum.splits if_splits)

lemma check_attestation_wide: "check_attestation cr kind b pem sig = Inr (rs, v) \<Longrightarrow> \<forall>r \<in> set rs. bundle_wide3 r"
  by (auto simp: check_attestation_def Let_def refusedAs_def reject_if_def
      split: option.splits prod.splits sum.splits if_splits)

lemma check_signature_ok:
  assumes "check_signature cr b opts = Inr (rs, v)"
  shows "rs = [] \<longleftrightarrow> signature_ok cr b opts"
  using assms
  by (auto simp: check_signature_def signature_ok_def split: option.splits if_splits dest!: check_attestation_ok)

lemma check_signature_verified:
  assumes "check_signature cr b opts = Inr (rs, v)" and "given_key (op_hostPublicKeyPem opts) = Some pem"
  shows "signature_ok cr b opts \<Longrightarrow> v"
  using assms check_attestation_ok
  by (fastforce simp: check_signature_def signature_ok_def split: option.splits if_splits)

lemma check_signature_wide: "check_signature cr b opts = Inr (rs, v) \<Longrightarrow> \<forall>r \<in> set rs. bundle_wide3 r"
  using check_attestation_wide
  by (fastforce simp: check_signature_def split: option.splits if_splits)

lemma check_independent_ok:
  assumes "check_independent cr b opts = Inr (rs, v)"
  shows "rs = [] \<longleftrightarrow> independent_ok cr b opts"
  using assms
  by (auto simp: check_independent_def independent_ok_def split: option.splits if_splits dest!: check_attestation_ok)

lemma check_independent_wide: "check_independent cr b opts = Inr (rs, v) \<Longrightarrow> \<forall>r \<in> set rs. bundle_wide3 r"
  using check_attestation_wide
  by (fastforce simp: check_independent_def split: option.splits if_splits)

lemma reject_if_wide: "r \<in> set (reject_if c k) \<Longrightarrow> bundle_wide3 r \<and> rj3_profile r = None"
  by (auto simp: reject_if_def reject_def bundle_wide3_def split: if_splits)

lemma rows_rejections_wide: "r \<in> set (rows_rejections seen rows) \<Longrightarrow> bundle_wide3 r"
  by (induction seen rows rule: rows_rejections.induct) (auto simp: row_rejections3_def dest: reject_if_wide)

lemma record_wide: "r \<in> set (record_rejections cr b) \<Longrightarrow> bundle_wide3 r"
  by (auto simp: record_rejections_def Let_def refusedAs_def totals_rejections3_def
      split: sum.splits dest: reject_if_wide rows_rejections_wide)

lemma check_rung_Inr: "check_rung b = Inr rs \<longleftrightarrow>
   (\<exists>c. checkRungClaim (member (b3_durability b) ''rung'') (evidence_rows (b3_requirements b)) = Inr c \<and>
        rs = reject_if (c \<noteq> Claim_ok) ''rung-not-derivable'')"
  by (auto simp: check_rung_def split: sum.splits)

lemma document_rejections:
  "(\<forall>r \<in> set (fst (check_document cr reg b)). \<not> bundle_wide3 r) \<longleftrightarrow>
     document_ok cr reg b \<and>
     (claims_certified b [] \<longrightarrow>
        (case d3_document (b3_discovery b) of
           None \<Rightarrow> True
         | Some doc \<Rightarrow> derivability_decidable reg b \<longrightarrow> profileDerivable reg doc [] (target_major3 b)))"
  by (auto simp: check_document_def document_ok_def document_digest_ok_def derivability_decidable_def refusedAs_def
      derivability_rejections_def target_major3_def claims_certified_def ball_Un ebind_Inl_iff ebind_Inr_iff
      split: option.splits sum.splits if_splits)

lemma all_wide_none: "(\<And>r. r \<in> set rs \<Longrightarrow> bundle_wide3 r) \<Longrightarrow> (\<forall>r \<in> set rs. \<not> bundle_wide3 r) \<longleftrightarrow> rs = []"
  by (cases rs) auto

lemma blocked_count: "0 < count3 rows d \<longleftrightarrow> (\<exists>r \<in> set rows. r3_result r = d)"
  by (auto simp: count3_def filter_empty_conv)

lemma document_scoped:
  "(\<forall>r \<in> set (fst (check_document cr reg b)). \<not> bundle_wide3 r) \<Longrightarrow>
   Some p \<in> rj3_profile ` set (fst (check_document cr reg b)) \<longleftrightarrow>
     claims_certified b p \<and>
     (case d3_document (b3_discovery b) of
        None \<Rightarrow> False
      | Some doc \<Rightarrow> derivability_decidable reg b \<and> \<not> profileDerivable reg doc p (target_major3 b))"
  by (auto simp: check_document_def document_digest_ok_def derivability_decidable_def refusedAs_def
      derivability_rejections_def target_major3_def claims_certified_def ball_Un image_Un image_image ebind_Inl_iff ebind_Inr_iff
      split: option.splits sum.splits if_splits)

lemma claims_scoped:
  "Some p \<in> rj3_profile ` set (observed_rejections reg b) \<longleftrightarrow>
     claims_certified b p \<and> p \<in> set (observed_relaxed reg b) \<and> p \<notin> set (relaxed_profiles reg b)"
  "Some p \<in> rj3_profile ` set (relaxed_rejections reg b) \<longleftrightarrow> claims_certified b p \<and> p \<in> set (relaxed_profiles reg b)"
  "(\<forall>r \<in> set (observed_rejections reg b). \<not> bundle_wide3 r) \<longleftrightarrow>
     \<not> (claims_certified b [] \<and> [] \<in> set (observed_relaxed reg b) \<and> [] \<notin> set (relaxed_profiles reg b))"
  "(\<forall>r \<in> set (relaxed_rejections reg b). \<not> bundle_wide3 r) \<longleftrightarrow> \<not> (claims_certified b [] \<and> [] \<in> set (relaxed_profiles reg b))"
  "p \<in> set (certified_claims reg b) \<longleftrightarrow> claims_certified b p \<and> p \<notin> set (relaxed_profiles reg b)"
  by (auto simp: observed_rejections_def relaxed_rejections_def certified_claims_def claims_certified_def image_iff)

lemma certified_of_iff:
  "p \<in> set (certified_of rs cs) \<longleftrightarrow> (\<forall>r \<in> set rs. \<not> bundle_wide3 r) \<and> p \<in> set cs \<and> Some p \<notin> rj3_profile ` set rs"
  by (auto simp: certified_of_def)

lemma certified_iff:
  assumes "verifyBundleV3 cr reg b opts = Inr v"
  shows "p \<in> set (v3_certifiedProfiles v) \<longleftrightarrow> bundle_ok cr reg b opts \<and> claims_certified b p \<and> profile_ok reg b p"
proof -
  obtain srs sv where s: "check_signature cr b opts = Inr (srs, sv)"
    using assms by (auto simp: verifyBundleV3_def ebind_Inr_iff)
  obtain irs iv where i: "check_independent cr b opts = Inr (irs, iv)"
    using assms s by (auto simp: verifyBundleV3_def ebind_Inr_iff)
  obtain rung where r: "check_rung b = Inr rung" using assms s i by (auto simp: verifyBundleV3_def ebind_Inr_iff)
  let ?cs = "certified_claims reg b"
  let ?blocked = "0 < count3 (b3_requirements b) ''blocked'' \<and> ?cs \<noteq> []"
  let ?doc = "fst (check_document cr reg b)"
  let ?wide = "\<lambda>rs. \<forall>r \<in> set rs. \<not> bundle_wide3 r"
  have v: "v3_certifiedProfiles v =
      certified_of (record_rejections cr b @ srs @ irs @ rung @ observed_rejections reg b @ relaxed_rejections reg b @
        reject_if ?blocked ''blocked-certified'' @ ?doc) ?cs"
    using assms s i r by (auto simp: verifyBundleV3_def Let_def)
  have pieces: "?wide (record_rejections cr b) \<longleftrightarrow> record_rejections cr b = []" "?wide srs \<longleftrightarrow> srs = []" "?wide irs \<longleftrightarrow> irs = []"
    "?wide rung \<longleftrightarrow> rung = []" "?wide (reject_if ?blocked ''blocked-certified'') \<longleftrightarrow> \<not> ?blocked"
    using record_wide check_signature_wide [OF s] check_independent_wide [OF i] r
    by (auto intro!: all_wide_none simp: check_rung_Inr reject_if_def)
  have rung: "rung = [] \<longleftrightarrow> checkRungClaim (member (b3_durability b) ''rung'') (evidence_rows (b3_requirements b)) = Inr Claim_ok"
    using r by (auto simp: check_rung_Inr)
  have "p \<in> set (v3_certifiedProfiles v) \<longleftrightarrow>
      (record_ok cr b \<and> signature_ok cr b opts \<and> independent_ok cr b opts \<and> rung = [] \<and> ?wide (observed_rejections reg b) \<and>
       ?wide (relaxed_rejections reg b) \<and> \<not> ?blocked \<and> ?wide ?doc) \<and> p \<in> set ?cs \<and>
      Some p \<notin> rj3_profile ` set (observed_rejections reg b) \<and> Some p \<notin> rj3_profile ` set ?doc"
    unfolding v certified_of_iff set_append ball_Un image_Un pieces record_Nil check_signature_ok [OF s] check_independent_ok [OF i]
    using pieces(5) record_Nil [of cr b] check_signature_ok [OF s] check_independent_ok [OF i] claims_scoped(2,5)
    by (auto simp: reject_if_def)
  also have "\<dots> \<longleftrightarrow> bundle_ok cr reg b opts \<and> claims_certified b p \<and> profile_ok reg b p"
  proof (cases "p \<in> set ?cs \<and> ?wide ?doc")
    case True
    then have "?cs \<noteq> []" by auto
    with True show ?thesis
      unfolding claims_scoped document_scoped [OF conjunct2 [OF True]] rung bundle_ok_def profile_ok_def blocked_count
      using document_rejections [of cr reg b] claims_scoped(5)
      by (auto split: option.splits)
  next
    case False
    then show ?thesis
      unfolding claims_scoped bundle_ok_def profile_ok_def using document_rejections [of cr reg b]
      by (auto split: option.splits)
  qed
  finally show ?thesis .
qed

end
