(* ===== verification/Bundle_V3_Seal.thy ===== *)
theory Bundle_V3_Seal
  imports Bundle_V3
begin

text \<open>
  What the digest and the attestation of a version 3 bundle cover: a sealed bundle verifies, two bundles
  with the same attestation agree on every attested member, and what is outside the attestation.
\<close>

section \<open>Certification\<close>

text \<open>
  Claim C2: a verdict lists a profile as certified exactly when the bundle claims it certified, its record
  stands (one row per requirement, no silent skip, no vacuous pass, right totals, a digest and an assertion
  count that match the rows), the attestation and any independent tier verify under the keys given, no row
  is blocked, the claimed rung is supported, the captured document is the attested one and advertises no
  opt-out, and the profile itself is neither relaxed nor observed relaxed and is derivable where that can
  be decided.
\<close>

theorem certified_profile_iff:
  assumes "verifyBundleV3 cr reg b opts = Inr v"
  shows "p \<in> set (v3_certifiedProfiles v) \<longleftrightarrow> bundle_ok cr reg b opts \<and> claims_certified b p \<and> profile_ok reg b p"
  using certified_iff [OF assms] .

section \<open>Sealing\<close>

lemma with_signature_simps [simp]:
  "b3_witnessSha256 (with_signature d w s) = w" "b3_signature (with_signature d w s) = s"
  "b3_requirements (with_signature d w s) = b3_requirements d" "b3_host (with_signature d w s) = b3_host d"
  "b3_suite (with_signature d w s) = b3_suite d" "b3_discovery (with_signature d w s) = b3_discovery d"
  "b3_claimedProfiles (with_signature d w s) = b3_claimedProfiles d" "b3_bundleVersion (with_signature d w s) = b3_bundleVersion d"
  "b3_totals (with_signature d w s) = b3_totals d" "b3_assertionCount (with_signature d w s) = b3_assertionCount d"
  "b3_detail (with_signature d w s) = b3_detail d" "b3_durability (with_signature d w s) = b3_durability d"
  "b3_verifierSignature (with_signature d w s) = b3_verifierSignature d"
  by (simp_all add: with_signature_def draft3.defs bundle3.defs)

lemma payload_with_signature [simp]: "attestationPayload w (with_signature d w' s) = attestationPayload w d"
  by (simp add: attestationPayload_def)

lemma sealed:
  assumes "sealBundleV3 cr draft secrets pem keyId = Inr (unsigned, bundle, redactedAt)"
  obtains d w s where "read_draft (fst (scrubEvidence (\<lambda>s. cr_sha256 cr (units_of s)) (draft_json draft) secrets)) = Some d"
    and "witnessDigest cr (b3_requirements d) (h3_relaxations (b3_host d)) (h3_deployment (b3_host d)) = Inr w"
    and "signBundleV3 cr w d pem keyId = Inr s" and "bundle = with_signature d w (Some s)"
  using assms
  by (auto simp: sealBundleV3_def Let_def ebind_Inr_iff refused_def split: prod.splits option.splits sum.splits)

lemma signed:
  assumes "signBundleV3 cr w d pem keyId = Inr s"
  obtains key p where "cr_private cr pem = Some key" and "cr_keyType cr key = ''ed25519''" and "attestationPayload w d = Inr p"
    and "s = \<lparr>sg_alg = ''ed25519'', sg_keyId = keyId, sg_sig = toBase64url (cr_sign cr key p), sg_over = signature_over\<rparr>"
  using assms by (auto simp: signBundleV3_def ebind_Inr_iff refused_def split: option.splits sum.splits if_splits)

text \<open>What Ed25519 promises of a key pair: signatures are non-empty byte strings and verify.\<close>

definition key_pair :: "'k crypto \<Rightarrow> string \<Rightarrow> string \<Rightarrow> bool" where
  "key_pair cr private public =
     (\<exists>sk pk. cr_private cr private = Some sk \<and> cr_public cr public = Some pk \<and>
        (\<forall>m. cr_sign cr sk m \<noteq> [] \<and> list_all (\<lambda>b. b < 256) (cr_sign cr sk m) \<and> cr_verify cr pk m (cr_sign cr sk m)))"

lemma url_nonempty: "list_all (\<lambda>b. b < 256) bs \<Longrightarrow> bs \<noteq> [] \<Longrightarrow> toBase64url bs \<noteq> []"
  using url_reads [of bs] by (auto simp: fromBase64url_def from_base64_def List.map_filter_def)

lemma sealed_signature:
  assumes "key_pair cr private public" and "sealBundleV3 cr draft secrets private keyId = Inr (unsigned, bundle, redactedAt)"
    and "keyId \<noteq> []"
  shows "signature_ok cr bundle opts \<or> given_key (op_hostPublicKeyPem opts) \<noteq> Some public"
    and "witnessDigest cr (b3_requirements bundle) (h3_relaxations (b3_host bundle)) (h3_deployment (b3_host bundle)) =
      Inr (b3_witnessSha256 bundle)"
proof -
  obtain d w s where d: "witnessDigest cr (b3_requirements d) (h3_relaxations (b3_host d)) (h3_deployment (b3_host d)) = Inr w"
    "signBundleV3 cr w d private keyId = Inr s" "bundle = with_signature d w (Some s)"
    using sealed [OF assms(2)] by metis
  obtain key p where k: "cr_private cr private = Some key" "attestationPayload w d = Inr p"
    "s = \<lparr>sg_alg = ''ed25519'', sg_keyId = keyId, sg_sig = toBase64url (cr_sign cr key p), sg_over = signature_over\<rparr>"
    using signed [OF d(2)] by metis
  obtain pk where pk: "cr_public cr public = Some pk" "cr_sign cr key p \<noteq> []" "list_all (\<lambda>b. b < 256) (cr_sign cr key p)"
    "cr_verify cr pk p (cr_sign cr key p)"
    using assms(1) k(1) by (auto simp: key_pair_def)
  have "attests cr bundle public (sg_sig s)" using pk k(2) by (simp add: attests_def d(3) k(3) url_reads)
  then show "signature_ok cr bundle opts \<or> given_key (op_hostPublicKeyPem opts) \<noteq> Some public"
    using url_nonempty [OF pk(3,2)] assms(3) by (auto simp: signature_ok_def d(3) k(3))
  show "witnessDigest cr (b3_requirements bundle) (h3_relaxations (b3_host bundle)) (h3_deployment (b3_host bundle)) =
      Inr (b3_witnessSha256 bundle)"
    using d(1,3) by simp
qed

definition integrity_kinds :: "string list" where
  "integrity_kinds = [''witness-digest'', ''signature-missing'', ''signature-over'', ''signature-invalid'']"

lemma kinds_simps [simp]: "rj3_kind (reject k) = k" "rj3_kind (reject_profile k p) = k"
  by (simp_all add: reject_def reject_profile_def)

lemma reject_if_kind: "r \<in> set (reject_if c k) \<longleftrightarrow> c \<and> r = reject k"
  by (auto simp: reject_if_def)

lemma rows_kinds: "r \<in> set (rows_rejections seen rows) \<Longrightarrow> rj3_kind r \<notin> set integrity_kinds"
  by (induction seen rows rule: rows_rejections.induct) (auto simp: row_rejections3_def reject_if_kind integrity_kinds_def)

lemma record_kinds:
  assumes "witnessDigest cr (b3_requirements b) (h3_relaxations (b3_host b)) (h3_deployment (b3_host b)) = Inr (b3_witnessSha256 b)"
  shows "r \<in> set (record_rejections cr b) \<Longrightarrow> rj3_kind r \<notin> set integrity_kinds"
proof -
  assume "r \<in> set (record_rejections cr b)"
  then have "r \<in> set (rows_rejections [] (b3_requirements b)) \<or>
      rj3_kind r \<in> {''not-v3'', ''totals-mismatch'', ''assertion-count'', ''detail-missing'', ''build-missing''}"
    using assms by (auto simp: record_rejections_def Let_def refusedAs_def reject_if_kind totals_rejections3_def)
  then show ?thesis using rows_kinds [of r "[]" "b3_requirements b"] by (auto simp: integrity_kinds_def)
qed

lemma independent_kinds: "check_independent cr b opts = Inr (rs, v) \<Longrightarrow> r \<in> set rs \<Longrightarrow> rj3_kind r \<notin> set integrity_kinds"
  by (auto simp: check_independent_def check_attestation_def Let_def refusedAs_def reject_if_kind integrity_kinds_def
      split: option.splits sum.splits if_splits)

lemma document_kinds: "r \<in> set (fst (check_document cr reg b)) \<Longrightarrow> rj3_kind r \<notin> set integrity_kinds"
  by (auto simp: check_document_def refusedAs_def derivability_rejections_def integrity_kinds_def
      split: option.splits sum.splits if_splits)

text \<open>
  Claim C20: sealing scrubs, then digests, then signs, so what was redacted never breaks the bundle: for a
  key pair of the signing scheme, whatever the secrets, every verdict on a sealed bundle under the host's
  public key has the signature verified and neither a digest nor a signature rejection.
\<close>

theorem sealed_bundle_verifies:
  assumes "key_pair cr private public" and "keyId \<noteq> []" and "given_key (op_hostPublicKeyPem opts) = Some public"
    and "sealBundleV3 cr draft secrets private keyId = Inr (unsigned, bundle, redactedAt)"
    and "verifyBundleV3 cr reg bundle opts = Inr v"
  shows "v3_signatureVerified v \<and> set (map rj3_kind (v3_rejections v)) \<inter> set integrity_kinds = {}"
proof -
  have ok: "signature_ok cr bundle opts" using sealed_signature(1) [OF assms(1,4,2)] assms(3) by blast
  have digest: "witnessDigest cr (b3_requirements bundle) (h3_relaxations (b3_host bundle)) (h3_deployment (b3_host bundle)) =
      Inr (b3_witnessSha256 bundle)" by (rule sealed_signature(2) [OF assms(1,4,2)])
  obtain s where s: "check_signature cr bundle opts = Inr s" using assms(5) by (auto simp: verifyBundleV3_def ebind_Inr_iff)
  obtain i where i: "check_independent cr bundle opts = Inr i" using assms(5) s by (auto simp: verifyBundleV3_def ebind_Inr_iff)
  obtain rs where r: "check_rung bundle = Inr rs" using assms(5) s i by (auto simp: verifyBundleV3_def ebind_Inr_iff)
  have srs: "fst s = []" using check_signature_ok [of cr "bundle" opts "fst s" "snd s"] s ok by simp
  have sv: "snd s" using check_signature_verified [of cr "bundle" opts "fst s" "snd s" public] s ok assms(3) by simp
  have "rj3_kind x \<notin> set integrity_kinds" if "x \<in> set (v3_rejections v)" for x
    using that assms(5) s i r srs record_kinds [OF digest] independent_kinds [of cr "bundle" opts "fst i" "snd i"] document_kinds [of x cr reg "bundle"]
    by (auto simp: verifyBundleV3_def Let_def check_rung_Inr reject_if_kind observed_rejections_def relaxed_rejections_def)
      (auto simp: integrity_kinds_def)
  moreover have "v3_signatureVerified v" using assms(5) s i r sv by (auto simp: verifyBundleV3_def Let_def)
  ultimately show ?thesis by auto
qed

section \<open>What the digest covers\<close>

lemma units_of_eq [simp]: "units_of s = units_of t \<longleftrightarrow> s = t"
proof
  show "units_of s = units_of t \<Longrightarrow> s = t"
  proof (induction s arbitrary: t)
    case (Cons c s)
    then obtain d t' where t: "t = d # t'" and e: "(of_char c :: nat) = of_char d" "units_of s = units_of t'"
      by (cases t) (auto simp: units_of_def)
    from e(1) have "(char_of (of_char c :: nat) :: char) = char_of (of_char d :: nat)" by simp
    then have "c = d" by simp
    with Cons.IH [OF e(2)] t show ?case by simp
  qed (simp add: units_of_def)
qed simp

text \<open>A member of a normal object is the normal form of the member.\<close>

definition jv_member :: "int jv \<Rightarrow> units \<Rightarrow> int jv option" where
  "jv_member v k = (case v of V_obj es \<Rightarrow> map_of es k | _ \<Rightarrow> None)"

lemma map_of_sort_by: "distinct (map fst es) \<Longrightarrow> map_of (sort_by le es) k = map_of es k"
proof -
  assume d: "distinct (map fst es)"
  then have "distinct (map fst (sort_by le es))" by simp
  with d have "map_of (sort_by le es) = map_of es" by (subst map_of_inject_set) simp_all
  then show ?thesis by simp
qed

lemma map_of_values: "map_of (map (\<lambda>p. (fst p, f (snd p))) es) k = map_option f (map_of es k)"
  by (induction es) auto

lemma jv_member_normal:
  "distinct (map fst es) \<Longrightarrow> jv_member (normal ops (V_obj es)) k = map_option (normal ops) (jv_member (V_obj es) k)"
  by (simp add: jv_member_def map_of_sort_by comp_def map_of_values map_prod_def split_def)

lemma canonical_normal_eq:
  assumes "canonicalJSON int_ops v = Inr t" and "canonicalJSON int_ops w = Inr t" and "exact int_ops v" and "exact int_ops w"
  shows "normal int_ops v = normal int_ops w"
  using int_numbers.canonical_parses [OF assms(1,3)] int_numbers.canonical_parses [OF assms(2,4)] by simp

lemma plus_zero_int: "normal int_ops (V_num n) = V_num n"
  by (simp add: int_ops_def)

text \<open>Two rows that differ in nothing but the member order of their evidence.\<close>

definition same_row :: "row3 \<Rightarrow> row3 \<Rightarrow> bool" where
  "same_row r r' =
     (r3_id r = r3_id r' \<and> r3_scenario r = r3_scenario r' \<and> r3_result r = r3_result r' \<and>
      r3_assertions r = r3_assertions r' \<and> r3_detail r = r3_detail r' \<and>
      map_option (\<lambda>e. normal int_ops (json_jv e)) (r3_evidence r) = map_option (\<lambda>e. normal int_ops (json_jv e)) (r3_evidence r'))"

definition row_entries :: "row3 \<Rightarrow> (units \<times> int jv) list" where
  "row_entries r =
     [(units_of ''id'', text_value (r3_id r)), (units_of ''scenario'', text_value (r3_scenario r)),
      (units_of ''result'', text_value (r3_result r))] @
     present ''assertions'' V_num (r3_assertions r) @ present ''detail'' text_value (r3_detail r) @
     present ''evidence'' json_jv (r3_evidence r)"

lemma row_value_entries: "row_value r = V_obj (row_entries r)"
  by (simp add: row_value_def row_entries_def)

lemma row_entries_distinct: "distinct (map fst (row_entries r))"
  by (auto simp: row_entries_def present_def split: option.splits)

lemma row_members:
  "jv_member (row_value r) (units_of ''id'') = Some (text_value (r3_id r))"
  "jv_member (row_value r) (units_of ''scenario'') = Some (text_value (r3_scenario r))"
  "jv_member (row_value r) (units_of ''result'') = Some (text_value (r3_result r))"
  "jv_member (row_value r) (units_of ''assertions'') = map_option V_num (r3_assertions r)"
  "jv_member (row_value r) (units_of ''detail'') = map_option text_value (r3_detail r)"
  "jv_member (row_value r) (units_of ''evidence'') = map_option json_jv (r3_evidence r)"
  by (auto simp: jv_member_def row_value_entries row_entries_def present_def split: option.splits)

lemma normal_text [simp]: "normal int_ops (text_value s) = text_value s"
  by (simp add: text_value_def)

lemma text_value_eq [simp]: "text_value s = text_value t \<longleftrightarrow> s = t"
  by (simp add: text_value_def)

lemma normal_rows_eq: "normal int_ops (row_value r) = normal int_ops (row_value r') \<Longrightarrow> same_row r r'"
proof -
  assume e: "normal int_ops (row_value r) = normal int_ops (row_value r')"
  have m: "map_option (normal int_ops) (jv_member (row_value r) k) = map_option (normal int_ops) (jv_member (row_value r') k)" for k
    using arg_cong [OF e, of "\<lambda>v. jv_member v k"]
    by (simp add: row_value_entries jv_member_normal row_entries_distinct del: normal.simps)
  have num: "map_option (normal int_ops) (map_option V_num a) = map_option V_num a" for a
    by (cases a) (simp_all add: plus_zero_int del: normal.simps)
  have num_eq: "map_option V_num a = map_option V_num b \<longleftrightarrow> a = b" for a b :: "int option"
    by (cases a; cases b) auto
  have txt_eq: "map_option (normal int_ops) (map_option text_value a) = map_option (normal int_ops) (map_option text_value b) \<longleftrightarrow> a = b" for a b
    by (cases a; cases b) auto
  show ?thesis
    using m [of "units_of ''id''"] m [of "units_of ''scenario''"] m [of "units_of ''result''"] m [of "units_of ''assertions''"]
      m [of "units_of ''detail''"] m [of "units_of ''evidence''"]
    unfolding row_members num num_eq txt_eq by (simp add: same_row_def option.map_comp comp_def)
qed

definition relaxation_list :: "relaxation3 list option \<Rightarrow> relaxation3 list" where
  "relaxation_list xs = (case xs of None \<Rightarrow> [] | Some ys \<Rightarrow> ys)"

lemma normal_relaxation_eq: "normal int_ops (relaxation_value x) = normal int_ops (relaxation_value y) \<Longrightarrow> x = y"
proof -
  assume e: "normal int_ops (relaxation_value x) = normal int_ops (relaxation_value y)"
  have d: "distinct (map fst [(units_of ''obligation'', a :: int jv), (units_of ''durability'', b), (units_of ''reason'', c)])" for a b c
    by simp
  have m: "map_option (normal int_ops) (jv_member (relaxation_value x) k) = map_option (normal int_ops) (jv_member (relaxation_value y) k)" for k
    using arg_cong [OF e, of "\<lambda>v. jv_member v k"] unfolding relaxation_value_def jv_member_normal [OF d] .
  show "x = y"
    using m [of "units_of ''obligation''"] m [of "units_of ''durability''"] m [of "units_of ''reason''"]
    by (cases x; cases y) (simp add: jv_member_def relaxation_value_def)
qed

definition preimage_entries :: "row3 list \<Rightarrow> relaxation3 list option \<Rightarrow> string option \<Rightarrow> (units \<times> int jv) list" where
  "preimage_entries rows relaxations deployment =
     [(units_of ''rows'', V_arr (map row_value (canonical_rows rows)))] @
     (if is_relaxed relaxations then present ''relaxations'' (\<lambda>xs. V_arr (map relaxation_value xs)) relaxations else []) @
     present ''deployment'' text_value deployment"

lemma preimage_cases:
  "preimage rows relaxations deployment =
     (if is_relaxed relaxations \<or> deployment \<noteq> None then V_obj (preimage_entries rows relaxations deployment)
      else V_arr (map row_value (canonical_rows rows)))"
  by (simp add: preimage_def preimage_entries_def Let_def)

lemma preimage_entries_distinct: "distinct (map fst (preimage_entries rows relaxations deployment))"
  by (auto simp: preimage_entries_def present_def split: option.splits)

lemma preimage_members:
  "jv_member (V_obj (preimage_entries rows relaxations deployment)) (units_of ''rows'') = Some (V_arr (map row_value (canonical_rows rows)))"
  "jv_member (V_obj (preimage_entries rows relaxations deployment)) (units_of ''relaxations'') =
     (if is_relaxed relaxations then Some (V_arr (map relaxation_value (relaxation_list relaxations))) else None)"
  "jv_member (V_obj (preimage_entries rows relaxations deployment)) (units_of ''deployment'') = map_option text_value deployment"
  by (auto simp: jv_member_def preimage_entries_def present_def is_relaxed_def relaxation_list_def split: option.splits)

lemma normal_rows_list:
  "map (normal int_ops \<circ> row_value) rs = map (normal int_ops \<circ> row_value) rs' \<Longrightarrow> list_all2 same_row rs rs'"
proof (induction rs arbitrary: rs')
  case (Cons r rs)
  then obtain r' rs'' where "rs' = r' # rs''" by (cases rs') auto
  with Cons show ?case by (auto intro: normal_rows_eq)
qed simp

lemma normal_relaxations_list:
  "map (normal int_ops \<circ> relaxation_value) xs = map (normal int_ops \<circ> relaxation_value) ys \<Longrightarrow> xs = ys"
  by (rule map_injective [of "normal int_ops \<circ> relaxation_value"]) (auto intro!: injI normal_relaxation_eq)

definition same_record :: "bundle3 \<Rightarrow> bundle3 \<Rightarrow> bool" where
  "same_record b b' =
     (list_all2 same_row (canonical_rows (b3_requirements b)) (canonical_rows (b3_requirements b')) \<and>
      relaxation_list (h3_relaxations (b3_host b)) = relaxation_list (h3_relaxations (b3_host b')) \<and>
      h3_deployment (b3_host b) = h3_deployment (b3_host b'))"

lemma normal_preimage_eq:
  assumes "normal int_ops (preimage rows rel dep) = normal int_ops (preimage rows' rel' dep')"
  shows "list_all2 same_row (canonical_rows rows) (canonical_rows rows') \<and> relaxation_list rel = relaxation_list rel' \<and> dep = dep'"
proof (cases "is_relaxed rel \<or> dep \<noteq> None")
  case True
  then have obj: "is_relaxed rel' \<or> dep' \<noteq> None" using assms by (auto simp: preimage_cases split: if_splits)
  have m: "map_option (normal int_ops) (jv_member (V_obj (preimage_entries rows rel dep)) k) =
      map_option (normal int_ops) (jv_member (V_obj (preimage_entries rows' rel' dep')) k)" for k
    using arg_cong [OF assms, of "\<lambda>v. jv_member v k"] True obj
    by (simp add: preimage_cases jv_member_normal preimage_entries_distinct del: normal.simps)
  have "list_all2 same_row (canonical_rows rows) (canonical_rows rows')"
    using m [of "units_of ''rows''"] by (intro normal_rows_list) (simp add: preimage_members)
  moreover have "dep = dep'" using m [of "units_of ''deployment''"] by (cases dep; cases dep') (simp_all add: preimage_members)
  moreover have "relaxation_list rel = relaxation_list rel'"
  proof (cases "is_relaxed rel")
    case True
    then have "is_relaxed rel'" using m [of "units_of ''relaxations''"] by (simp add: preimage_members split: if_splits)
    with True show ?thesis using m [of "units_of ''relaxations''"] by (intro normal_relaxations_list) (simp add: preimage_members)
  next
    case False
    then have "\<not> is_relaxed rel'" using m [of "units_of ''relaxations''"] by (simp add: preimage_members split: if_splits)
    with False show ?thesis by (auto simp: is_relaxed_def relaxation_list_def split: option.splits)
  qed
  ultimately show ?thesis by blast
next
  case False
  then have arr: "\<not> (is_relaxed rel' \<or> dep' \<noteq> None)" using assms by (auto simp: preimage_cases split: if_splits)
  with False assms have "list_all2 same_row (canonical_rows rows) (canonical_rows rows')"
    by (intro normal_rows_list) (simp add: preimage_cases)
  with False arr show ?thesis by (auto simp: is_relaxed_def relaxation_list_def split: option.splits)
qed

definition collision :: "'k crypto \<Rightarrow> bool" where
  "collision cr = (\<exists>t t'. t \<noteq> t' \<and> cr_sha256 cr t = cr_sha256 cr t')"

definition digest_ok :: "'k crypto \<Rightarrow> bundle3 \<Rightarrow> bool" where
  "digest_ok cr b =
     (witnessDigest cr (b3_requirements b) (h3_relaxations (b3_host b)) (h3_deployment (b3_host b)) = Inr (b3_witnessSha256 b))"

definition exact_record :: "bundle3 \<Rightarrow> bool" where
  "exact_record b = exact int_ops (preimage (b3_requirements b) (h3_relaxations (b3_host b)) (h3_deployment (b3_host b)))"

lemma digest_fixes_record:
  assumes "digest_ok cr b" and "digest_ok cr b'" and "b3_witnessSha256 b = b3_witnessSha256 b'" and "exact_record b" and "exact_record b'"
  shows "same_record b b' \<or> collision cr"
proof -
  let ?p = "\<lambda>b. preimage (b3_requirements b) (h3_relaxations (b3_host b)) (h3_deployment (b3_host b))"
  obtain t t' where t: "canonicalJSON int_ops (?p b) = Inr t" "canonicalJSON int_ops (?p b') = Inr t'"
    "cr_sha256 cr t = b3_witnessSha256 b" "cr_sha256 cr t' = b3_witnessSha256 b'"
    using assms(1,2) by (auto simp: digest_ok_def witnessDigest_def ebind_Inr_iff)
  show ?thesis
  proof (cases "t = t'")
    case True
    then have "normal int_ops (?p b) = normal int_ops (?p b')"
      using t assms(4,5) by (intro canonical_normal_eq [of _ t]) (simp_all add: exact_record_def)
    from normal_preimage_eq [OF this] show ?thesis by (simp add: same_record_def)
  next
    case False
    moreover have "cr_sha256 cr t = cr_sha256 cr t'" using t(3,4) assms(3) by simp
    ultimately have "collision cr" unfolding collision_def by blast
    then show ?thesis ..
  qed
qed

section \<open>What the attestation covers\<close>

definition same_attested :: "bundle3 \<Rightarrow> bundle3 \<Rightarrow> bool" where
  "same_attested b b' =
     (b3_witnessSha256 b = b3_witnessSha256 b' \<and> h3_build (b3_host b) = h3_build (b3_host b') \<and>
      s3_version (b3_suite b) = s3_version (b3_suite b') \<and> d3_sha256 (b3_discovery b) = d3_sha256 (b3_discovery b'))"

lemma attested_exact: "exact int_ops (attested w build version sha)"
  by (simp add: attested_def text_value_def)

lemma build_members:
  fixes x y :: build3
  defines "v \<equiv> \<lambda>x. V_obj [(units_of ''kind'', text_value (bd_kind x)), (units_of ''id'', text_value (bd_id x))] :: int jv"
  assumes "normal int_ops (v x) = normal int_ops (v y)"
  shows "x = y"
proof -
  have d: "distinct (map fst [(units_of ''kind'', a :: int jv), (units_of ''id'', b)])" for a b by simp
  have m: "map_option (normal int_ops) (jv_member (v x) k) = map_option (normal int_ops) (jv_member (v y) k)" for k
    using arg_cong [OF assms(2), of "\<lambda>v. jv_member v k"] unfolding v_def jv_member_normal [OF d] .
  show ?thesis using m [of "units_of ''kind''"] m [of "units_of ''id''"]
    by (cases x; cases y) (simp add: jv_member_def v_def)
qed

lemma payload_fixes:
  assumes "attestationPayload (b3_witnessSha256 b) b = Inr t" and "attestationPayload (b3_witnessSha256 b') b' = Inr t"
  shows "same_attested b b'"
proof -
  let ?v = "\<lambda>b. attested (b3_witnessSha256 b) (h3_build (b3_host b)) (s3_version (b3_suite b)) (d3_sha256 (b3_discovery b))"
  have e: "normal int_ops (?v b) = normal int_ops (?v b')"
    by (rule canonical_normal_eq [OF assms [unfolded attestationPayload_def] attested_exact attested_exact])
  have d: "distinct (map fst [(units_of ''witnessSha256'', a1 :: int jv), (units_of ''host.build'', a2),
      (units_of ''suite.version'', a3), (units_of ''discovery.sha256'', a4)])" for a1 a2 a3 a4
    by simp
  have m: "map_option (normal int_ops) (jv_member (?v b) k) = map_option (normal int_ops) (jv_member (?v b') k)" for k
    using arg_cong [OF e, of "\<lambda>v. jv_member v k"] unfolding attested_def jv_member_normal [OF d] .
  have "h3_build (b3_host b) = h3_build (b3_host b')"
    using m [of "units_of ''host.build''"] by (intro build_members) (simp add: jv_member_def attested_def del: normal.simps)
  then show ?thesis
    using m [of "units_of ''witnessSha256''"] m [of "units_of ''suite.version''"] m [of "units_of ''discovery.sha256''"]
    by (simp add: same_attested_def jv_member_def attested_def)
qed

text \<open>
  The signature pins down the evidence. Two bundles with the same attested bytes, both with a
  digest that matches their rows, have the same witness digest, build, suite version and discovery digest,
  and the same rows (up to the member order of structured evidence), the same declared relaxations and the
  same deployment marker, or SHA-256 has a collision. Evidence is assumed to be I-JSON with exact integers.
\<close>

theorem attested_bundles_agree:
  assumes "attestationPayload (b3_witnessSha256 b) b = Inr t" and "attestationPayload (b3_witnessSha256 b') b' = Inr t"
    and "digest_ok cr b" and "digest_ok cr b'" and "exact_record b" and "exact_record b'"
  shows "same_attested b b' \<and> (same_record b b' \<or> collision cr)"
proof -
  have "same_attested b b'" using payload_fixes assms(1,2) .
  moreover from this have "b3_witnessSha256 b = b3_witnessSha256 b'" by (simp add: same_attested_def)
  ultimately show ?thesis using digest_fixes_record [OF assms(3,4) _ assms(5,6)] by blast
qed

section \<open>What it does not cover\<close>

definition with_claim :: "string \<Rightarrow> int \<Rightarrow> bundle3 \<Rightarrow> bundle3" where
  "with_claim p n b =
     b\<lparr>b3_claimedProfiles := b3_claimedProfiles b @
        [\<lparr>p3_id = p, p3_evidenceTier = ''self'', p3_witnessCount = n, p3_certified = True\<rparr>]\<rparr>"

lemma with_claim_simps [simp]:
  "b3_requirements (with_claim p n b) = b3_requirements b" "b3_host (with_claim p n b) = b3_host b"
  "b3_suite (with_claim p n b) = b3_suite b" "b3_discovery (with_claim p n b) = b3_discovery b"
  "b3_witnessSha256 (with_claim p n b) = b3_witnessSha256 b" "b3_signature (with_claim p n b) = b3_signature b"
  "b3_verifierSignature (with_claim p n b) = b3_verifierSignature b" "b3_durability (with_claim p n b) = b3_durability b"
  "b3_totals (with_claim p n b) = b3_totals b" "b3_bundleVersion (with_claim p n b) = b3_bundleVersion b"
  "b3_assertionCount (with_claim p n b) = b3_assertionCount b" "b3_detail (with_claim p n b) = b3_detail b"
  "attestationPayload w (with_claim p n b) = attestationPayload w b"
  by (simp_all add: with_claim_def attestationPayload_def)

lemma with_claim_claims:
  "claims_certified (with_claim p n b) q \<longleftrightarrow> claims_certified b q \<or> q = p"
  "claims_independent (with_claim p n b) \<longleftrightarrow> claims_independent b"
  by (auto simp: with_claim_def claims_certified_def claims_independent_def)

text \<open>Nothing is relaxed, by declaration or by observation, and no document was captured.\<close>

definition unrelaxed :: "bundle3 \<Rightarrow> bool" where
  "unrelaxed b =
     (relaxations3 b = [] \<and> (\<forall>r \<in> set (b3_requirements b). r3_result r \<noteq> ''executed-fail'') \<and> d3_document (b3_discovery b) = None)"

lemma unrelaxed_profiles:
  "unrelaxed b \<Longrightarrow> relaxed_profiles reg b = [] \<and> observed_relaxed reg b = [] \<and> profile_ok reg b p"
proof -
  assume u: "unrelaxed b"
  then have "observed_obligations (map (\<lambda>r. (r3_id r, r3_result r = ''executed-fail'')) (b3_requirements b)) = []"
    by (auto simp: unrelaxed_def observed_obligations_def filter_empty_conv)
  with u show ?thesis
    by (simp add: unrelaxed_def relaxed_profiles_def observed_relaxed_def profilesDeniedByObservedRelaxation_def
        profilesRelaxedBy_def profile_ok_def Let_def)
qed

lemma with_claim_attestation [simp]:
  "check_attestation cr k (with_claim p n b) pem sig = check_attestation cr k b pem sig"
  by (simp add: check_attestation_def Let_def cong: option.case_cong)

lemma with_claim_checks:
  "record_ok cr (with_claim p n b) \<longleftrightarrow> record_ok cr b"
  "attests cr (with_claim p n b) pem sig \<longleftrightarrow> attests cr b pem sig"
  "check_signature cr (with_claim p n b) opts = check_signature cr b opts"
  "check_independent cr (with_claim p n b) opts = check_independent cr b opts"
  "check_rung (with_claim p n b) = check_rung b"
  by (simp_all add: record_ok_def attests_def check_signature_def check_independent_def check_rung_def
      with_claim_claims cong: option.case_cong if_cong)

lemma with_claim_ok:
  assumes "bundle_ok cr reg b opts" and "unrelaxed b"
  shows "bundle_ok cr reg (with_claim p n b) opts"
proof -
  have u: "unrelaxed (with_claim p n b)" using assms(2) by (simp add: unrelaxed_def relaxations3_def)
  have "signature_ok cr (with_claim p n b) opts \<longleftrightarrow> signature_ok cr b opts"
    by (simp add: signature_ok_def with_claim_checks cong: option.case_cong)
  moreover have "independent_ok cr (with_claim p n b) opts \<longleftrightarrow> independent_ok cr b opts"
    by (simp add: independent_ok_def with_claim_checks with_claim_claims)
  moreover have "document_ok cr reg (with_claim p n b)" using assms(2) by (simp add: document_ok_def unrelaxed_def)
  ultimately show ?thesis using assms(1) unrelaxed_profiles [OF u] by (simp add: bundle_ok_def with_claim_checks)
qed

text \<open>
  Which profiles a bundle certifies is not part of what is signed. To any accepted, unrelaxed
  bundle without a captured document anyone may add a claim of any name: the attested bytes stay the
  same, the signature verifies as before, and the verdict certifies the added profile.
\<close>

theorem added_claim_certifies:
  assumes "verifyBundleV3 cr reg b opts = Inr v" and "bundle_ok cr reg b opts" and "unrelaxed b"
  shows "attestationPayload w (with_claim p n b) = attestationPayload w b \<and>
     (\<exists>v'. verifyBundleV3 cr reg (with_claim p n b) opts = Inr v' \<and> v3_signatureVerified v' = v3_signatureVerified v \<and>
        p \<in> set (v3_certifiedProfiles v'))"
proof -
  have u: "unrelaxed (with_claim p n b)" using assms(3) by (simp add: unrelaxed_def relaxations3_def)
  obtain v' where v': "verifyBundleV3 cr reg (with_claim p n b) opts = Inr v'" "v3_signatureVerified v' = v3_signatureVerified v"
    using assms(1) by (auto simp: verifyBundleV3_def with_claim_checks Let_def ebind_Inr_iff)
  have "p \<in> set (v3_certifiedProfiles v')"
    using certified_iff [OF v'(1)] with_claim_ok [OF assms(2,3)] unrelaxed_profiles [OF u] by (simp add: with_claim_claims)
  with v' show ?thesis by auto
qed

section \<open>A draft reads back\<close>

lemma member_entries: "member (Some (JObj es)) k = js_get es k"
  by (simp add: member_def)

lemma reads_simps [simp]:
  "rd_str (Some (JStr s)) = Some s" "rd_int (Some (JNum n)) = Some n" "rd_bool (Some (JBool c)) = Some c"
  "rd_obj (Some (JObj es)) = Some es" "rd_opt f None = Some None" "rd_opt f (Some v) = map_option Some (f (Some v))"
  by (simp_all add: rd_str_def rd_int_def rd_bool_def rd_obj_def rd_opt_def)

lemma rd_list_map: "(\<And>x. f (Some (g x)) = Some x) \<Longrightarrow> rd_list f (Some (JArr (map g xs))) = Some xs"
  by (simp add: rd_list_def) (induction xs; simp)

lemmas read_eval = member_entries js_get_def opt_json_def proto_member_def object_prototype_functions_def

lemma read_row_json [simp]: "read_row (Some (row_json r)) = Some r"
  by (cases r; simp add: read_row_def row_json_def read_eval split: option.splits)

lemma read_profile_json [simp]: "read_profile (Some (profile_json x)) = Some x"
  by (simp add: read_profile_def profile_json_def read_eval)

lemma read_relaxation_json [simp]: "read_relaxation (Some (relaxation_json x)) = Some x"
  by (simp add: read_relaxation_def relaxation_json_def read_eval)

lemma read_suite_json [simp]: "read_suite (Some (suite_json x)) = Some x"
  by (cases x; simp add: read_suite_def suite_json_def read_eval split: option.splits)

lemma read_build_json [simp]: "read_build (Some (build_json x)) = Some x"
  by (simp add: read_build_def build_json_def read_eval)

lemma read_discovery_json [simp]: "read_discovery (Some (discovery_json x)) = Some x"
  by (cases x; simp add: read_discovery_def discovery_json_def read_eval rd_list_map split: option.splits)

lemma read_totals_json [simp]: "read_totals (Some (totals_json x)) = Some x"
  by (simp add: read_totals_def totals_json_def read_eval)

lemma read_non_pass_json [simp]: "read_non_pass (Some (non_pass_json x)) = Some x"
  by (simp add: read_non_pass_def non_pass_json_def read_eval)

lemma read_signature_json [simp]: "read_signature (Some (signature_json x)) = Some x"
  by (simp add: read_signature_def signature_json_def read_eval rd_list_map)

lemma read_host_json [simp]: "read_host (Some (host_json x)) = Some x"
  by (cases x; simp add: read_host_def host_json_def read_eval rd_list_map split: option.splits)

lemma read_draft_json: "read_draft (draft_json d) = Some d"
  by (cases d; simp add: read_draft_def draft_json_def read_eval rd_list_map Let_def split: option.splits)

section \<open>Canonical bytes exist\<close>

lemma well_formed_units: "well_formed (units_of s)"
proof (induction s)
  case (Cons c s)
  have "(of_char c :: nat) < 256" by simp
  then have "\<not> 0xDC00 \<le> (of_char c :: nat)" and "\<not> 0xD800 \<le> (of_char c :: nat)" by linarith+
  with Cons show ?case by (simp add: units_of_def)
qed (simp add: units_of_def)

lemma i_json_text [simp]: "i_json int_ops (text_value s)"
  by (simp add: text_value_def well_formed_units)

lemma i_json_jv: "wf_json v \<Longrightarrow> i_json int_ops (json_jv v)"
proof (induction v rule: json_induct)
  case (Obj es)
  then have "inj_on units_of (fst ` set es)" by (intro inj_onI) simp
  with Obj show ?case
    by (auto simp: list_all_iff well_formed_units comp_def distinct_map inj_on_def split_def)
qed (auto simp: list_all_iff well_formed_units int_ops_def)

lemma payload_exists: "\<exists>p. attestationPayload w b = Inr p"
  unfolding attestationPayload_def
  by (rule int_numbers.canonical_succeeds) (simp add: attested_def well_formed_units)

definition evidence_wf :: "row3 \<Rightarrow> bool" where
  "evidence_wf r = (case r3_evidence r of None \<Rightarrow> True | Some e \<Rightarrow> wf_json e)"

lemma row_i_json: "evidence_wf r \<Longrightarrow> i_json int_ops (row_value r)"
  by (auto simp: row_value_def present_def evidence_wf_def well_formed_units i_json_jv split: option.splits)
    (simp_all add: int_ops_def)

lemma relaxation_i_json: "i_json int_ops (relaxation_value x)"
  by (simp add: relaxation_value_def well_formed_units)

lemma digest_exists: "list_all evidence_wf rows \<Longrightarrow> \<exists>w. witnessDigest cr rows relaxations deployment = Inr w"
proof -
  assume wf: "list_all evidence_wf rows"
  have rows: "list_all id (map (i_json int_ops) (map row_value (canonical_rows rows)))"
    using wf by (auto simp: list_all_iff canonical_rows_def row_i_json)
  have "i_json int_ops (preimage rows relaxations deployment)"
    using rows by (auto simp: preimage_cases preimage_entries_def present_def well_formed_units list_all_iff relaxation_i_json
        split: option.splits)
  then have "\<exists>t. canonicalJSON int_ops (preimage rows relaxations deployment) = Inr t" by (rule int_numbers.canonical_succeeds)
  then show ?thesis by (auto simp: witnessDigest_def)
qed

section \<open>A concrete bundle\<close>

text \<open>A scheme that satisfies the laws: the digest is the text, a signature repeats the message.\<close>

definition sample_crypto :: "string crypto" where
  "sample_crypto =
     \<lparr>cr_sha256 = map char_of, cr_private = Some, cr_keyType = (\<lambda>k. ''ed25519''),
      cr_sign = (\<lambda>k m. 7 # map (\<lambda>u. u mod 256) m), cr_public = Some,
      cr_verify = (\<lambda>k m s. s = 7 # map (\<lambda>u. u mod 256) m)\<rparr>"

definition sample_row :: row3 where
  "sample_row =
     \<lparr>r3_id = ''openwop.requirement.0168.bundle'', r3_scenario = ''bundle.test.ts'', r3_result = ''executed-pass'',
      r3_assertions = Some 2, r3_detail = None, r3_evidence = None\<rparr>"

definition sample_draft :: draft3 where
  "sample_draft =
     \<lparr>b3_bundleVersion = ''3'', b3_generatedAt = ''2026-01-01'',
      b3_suite = \<lparr>s3_name = ''@openwop/openwop-conformance'', s3_version = ''2.50.0'', s3_targetMajor = 2,
                  s3_specArtifactsVersion = ''2.0.0'', s3_stampSha256 = None\<rparr>,
      b3_host = \<lparr>h3_name = ''host'', h3_version = ''1'', h3_vendor = None, h3_build = \<lparr>bd_kind = ''commit'', bd_id = ''abc''\<rparr>,
                 h3_signingKeyId = Some ''host-key'', h3_relaxations = None, h3_deployment = None\<rparr>,
      b3_discovery = \<lparr>d3_url = ''https://host'', d3_sha256 = ''d'', d3_protocolVersions = [''2.0''], d3_preferredVersion = ''2.0'',
                      d3_document = None\<rparr>,
      b3_claimedProfiles = [\<lparr>p3_id = ''openwop-core'', p3_evidenceTier = ''self'', p3_witnessCount = 1, p3_certified = True\<rparr>],
      b3_totals = \<lparr>tt_executedPass = 1, tt_executedFail = 0, tt_skipped = 0, tt_inapplicable = 0, tt_blocked = 0\<rparr>,
      b3_requirements = [sample_row], b3_assertionCount = 2, b3_detail = None, b3_durability = None, b3_verifierSignature = None\<rparr>"

definition sample_options :: options3 where
  "sample_options = \<lparr>op_hostPublicKeyPem = Some ''key'', op_verifierPublicKeyPem = None\<rparr>"

definition sample_bundle :: bundle3 where
  "sample_bundle =
     (case sealBundleV3 sample_crypto sample_draft [] ''key'' ''host-key'' of
        Inr (unsigned, b, redactedAt) \<Rightarrow> b | Inl e \<Rightarrow> with_signature sample_draft [] None)"

lemma sample_key_pair: "key_pair sample_crypto ''key'' ''key''"
  by (auto simp: key_pair_def sample_crypto_def list_all_iff)

lemma scrub_nothing [simp]: "scrubEvidence sha v [] = (v, [])"
  by (simp add: scrubEvidence_def live_secrets_def)

lemma sample_seals: "\<exists>u. sealBundleV3 sample_crypto sample_draft [] ''key'' ''host-key'' = Inr (u, sample_bundle, [])"
proof -
  obtain w where "witnessDigest sample_crypto [sample_row] None None = Inr w"
    using digest_exists [of "[sample_row]" sample_crypto None None] by (auto simp: evidence_wf_def sample_row_def)
  moreover obtain p where "attestationPayload w sample_draft = Inr p" using payload_exists by blast
  ultimately have "\<exists>u b. sealBundleV3 sample_crypto sample_draft [] ''key'' ''host-key'' = Inr (u, b, [])"
    by (simp add: sealBundleV3_def read_draft_json signBundleV3_def refused_def)
      (simp add: refused_def sample_crypto_def sample_draft_def)
  then show ?thesis by (auto simp: sample_bundle_def)
qed

lemma sample_form: "\<exists>w s. sample_bundle = with_signature sample_draft w (Some s)"
proof -
  obtain u where u: "sealBundleV3 sample_crypto sample_draft [] ''key'' ''host-key'' = Inr (u, sample_bundle, [])"
    using sample_seals by blast
  from sealed [OF u] show ?thesis by (metis read_draft_json scrub_nothing fst_conv option.inject)
qed

lemma sample_digest: "digest_ok sample_crypto sample_bundle"
  using sealed_signature(2) [OF sample_key_pair] sample_seals by (auto simp: digest_ok_def)

lemma sample_members:
  "b3_requirements sample_bundle = [sample_row]" "b3_claimedProfiles sample_bundle = b3_claimedProfiles sample_draft"
  "b3_host sample_bundle = b3_host sample_draft" "d3_document (b3_discovery sample_bundle) = None"
  "b3_bundleVersion sample_bundle = ''3''" "b3_totals sample_bundle = b3_totals sample_draft"
  "b3_assertionCount sample_bundle = 2" "b3_durability sample_bundle = None"
proof -
  obtain w s where b: "sample_bundle = with_signature sample_draft w (Some s)" using sample_form by blast
  show "b3_requirements sample_bundle = [sample_row]" "b3_claimedProfiles sample_bundle = b3_claimedProfiles sample_draft"
    "b3_host sample_bundle = b3_host sample_draft" "d3_document (b3_discovery sample_bundle) = None"
    "b3_bundleVersion sample_bundle = ''3''" "b3_totals sample_bundle = b3_totals sample_draft"
    "b3_assertionCount sample_bundle = 2" "b3_durability sample_bundle = None"
    unfolding b with_signature_simps by (simp_all add: sample_draft_def)
qed

lemma sample_unrelaxed: "unrelaxed sample_bundle"
  unfolding unrelaxed_def relaxations3_def sample_members by (simp add: sample_draft_def sample_row_def)

lemma sample_independent: "\<not> claims_independent sample_bundle"
  unfolding claims_independent_def sample_members by (simp add: sample_draft_def)

lemma sample_rung: "checkRungClaim (member (b3_durability sample_bundle) ''rung'') rows = Inr Claim_ok"
  by (simp add: sample_members member_def checkRungClaim_def)

lemma sample_ok: "bundle_ok sample_crypto None sample_bundle sample_options"
proof -
  have "record_ok sample_crypto sample_bundle"
    using sample_digest unfolding record_ok_def digest_ok_def Let_def sample_members
    by (simp add: sample_draft_def sample_row_def row_ok_def expected3_def count3_def)
  moreover have "signature_ok sample_crypto sample_bundle sample_options"
    using sealed_signature(1) [OF sample_key_pair] sample_seals by (fastforce simp: sample_options_def given_key_def)
  moreover have "document_ok sample_crypto None sample_bundle" by (simp add: document_ok_def sample_members)
  moreover have "independent_ok sample_crypto sample_bundle sample_options" by (simp add: independent_ok_def sample_independent)
  moreover have "r3_result r \<noteq> ''blocked''" if "r \<in> set (b3_requirements sample_bundle)" for r
    using that unfolding sample_members by (simp add: sample_row_def)
  ultimately show ?thesis
    using unrelaxed_profiles [OF sample_unrelaxed] sample_rung by (simp add: bundle_ok_def)
qed

lemma sample_verifies: "\<exists>v. verifyBundleV3 sample_crypto None sample_bundle sample_options = Inr v"
proof -
  have "cr_public sample_crypto pem = Some pem" for pem by (simp add: sample_crypto_def)
  then have "\<exists>x. check_signature sample_crypto sample_bundle sample_options = Inr x"
    by (auto simp: check_signature_def check_attestation_def Let_def split: option.splits prod.splits)
  moreover have "check_independent sample_crypto sample_bundle sample_options = Inr ([], False)"
    by (simp add: check_independent_def sample_independent)
  moreover have "check_rung sample_bundle = Inr []" by (simp add: check_rung_def sample_rung)
  ultimately show ?thesis by (auto simp: verifyBundleV3_def Let_def)
qed

theorem certified_profile_iff_witness:
  "\<exists>v. verifyBundleV3 sample_crypto None sample_bundle sample_options = Inr v \<and> ''openwop-core'' \<in> set (v3_certifiedProfiles v)"
proof -
  obtain v where v: "verifyBundleV3 sample_crypto None sample_bundle sample_options = Inr v" using sample_verifies by blast
  have "claims_certified sample_bundle ''openwop-core''" unfolding claims_certified_def sample_members by (simp add: sample_draft_def)
  with v show ?thesis
    using certified_profile_iff [OF v] sample_ok unrelaxed_profiles [OF sample_unrelaxed] by auto
qed

theorem sealed_bundle_verifies_witness:
  "\<exists>v. verifyBundleV3 sample_crypto None sample_bundle sample_options = Inr v \<and> v3_signatureVerified v"
  using sealed_bundle_verifies [OF sample_key_pair, of "''host-key''" sample_options sample_draft "[]"] sample_seals sample_verifies
  by (fastforce simp: sample_options_def given_key_def)

theorem attested_bundles_agree_witness:
  "same_attested sample_bundle (with_claim ''any'' 0 sample_bundle) \<and> digest_ok sample_crypto (with_claim ''any'' 0 sample_bundle)"
proof -
  obtain t where t: "attestationPayload (b3_witnessSha256 sample_bundle) sample_bundle = Inr t" using payload_exists by blast
  have d: "digest_ok sample_crypto (with_claim ''any'' 0 sample_bundle)" using sample_digest by (simp add: digest_ok_def)
  have "text_exact (units_of (int_str 2))" by (simp add: int_text_exact max_exact_big_def)
  then have e: "exact_record sample_bundle"
    unfolding exact_record_def sample_members
    by (simp add: preimage_cases is_relaxed_def sample_draft_def canonical_rows_def row_value_def present_def
        sample_row_def text_value_def int_ops_def)
  then have "exact_record (with_claim ''any'' 0 sample_bundle)" by (simp add: exact_record_def)
  with attested_bundles_agree [OF t _ sample_digest d e] t d show ?thesis by simp
qed

theorem added_claim_certifies_witness:
  "\<exists>v. verifyBundleV3 sample_crypto None (with_claim ''never-tested'' 0 sample_bundle) sample_options = Inr v \<and>
     ''never-tested'' \<in> set (v3_certifiedProfiles v)"
proof -
  obtain v where v: "verifyBundleV3 sample_crypto None sample_bundle sample_options = Inr v" using sample_verifies by blast
  show ?thesis using added_claim_certifies [OF v sample_ok sample_unrelaxed, of _ "''never-tested''" 0] by blast
qed

end
