(* ===== verification/Webhook_Verify.thy ===== *)
theory Webhook_Verify
  imports Base64 Json
begin

text \<open>
  The two webhook verifiers of \<open>webhook-receiver.ts\<close>: the HMAC recipe with its replay memory
  (\<open>verifyWebhookDelivery\<close>, \<open>signPayload\<close>) and the Standard Webhooks scheme (\<open>verifyStandardWebhooks\<close>,
  \<open>standardWebhooksSign\<close>, \<open>decodeWhsec\<close>). HMAC-SHA256 is a parameter: a function of key bytes and text;
  what is proved of signed deliveries assumes only that it returns bytes. The clock is an argument.
\<close>

section \<open>Bytes and text\<close>

type_synonym hmac = "nat list \<Rightarrow> string \<Rightarrow> nat list"

definition hmac_ok :: "hmac \<Rightarrow> bool" where
  "hmac_ok h = (\<forall>k m. h k m \<noteq> [] \<and> list_all (\<lambda>b. b < 256) (h k m))"

definition utf8_bytes :: "string \<Rightarrow> nat list" where
  "utf8_bytes s = concat (map (\<lambda>c. let n = of_char c in if n < 128 then [n] else [192 + n div 64, 128 + n mod 64]) s)"

definition hex_text :: "nat list \<Rightarrow> string" where
  "hex_text bs = concat (map (\<lambda>b. [hex_digit (b div 16), hex_digit (b mod 16)]) bs)"

definition hex_nibble :: "char \<Rightarrow> nat option" where
  "hex_nibble c =
     (let n = of_char c :: nat in
      if is_digit c then Some (n - 48) else if 97 \<le> n \<and> n \<le> 102 then Some (n - 87)
      else if 65 \<le> n \<and> n \<le> 70 then Some (n - 55) else None)"

text \<open>\<open>Buffer.from(s, 'hex')\<close> reads pairs up to the first that is not one; an odd digit at the end is dropped.\<close>

fun from_hex :: "string \<Rightarrow> nat list" where
  "from_hex (a # b # s) =
     (case (hex_nibble a, hex_nibble b) of (Some x, Some y) \<Rightarrow> (x * 16 + y) # from_hex s | _ \<Rightarrow> [])"
| "from_hex _ = []"

text \<open>
  \<open>Number(s)\<close>, when it is an integer: white space around is ignored, the empty text is 0, a sign, a
  fraction and an exponent are read, and the three prefixed forms. Exact for integers up to \<open>2^53\<close>.
\<close>

definition number_of :: "nat \<Rightarrow> string \<Rightarrow> nat option" where
  "number_of base s =
     (if s = [] then None
      else foldl (\<lambda>acc c. case (acc, hex_nibble c) of (Some n, Some d) \<Rightarrow> if d < base then Some (n * base + d) else None | _ \<Rightarrow> None)
             (Some 0) s)"

definition scaled :: "nat \<Rightarrow> int \<Rightarrow> nat option" where
  "scaled m e =
     (if 0 \<le> e then Some (m * 10 ^ nat e)
      else if m mod 10 ^ nat (- e) = 0 then Some (m div 10 ^ nat (- e)) else None)"

definition signed :: "string \<Rightarrow> int \<times> string" where
  "signed s = (if starts_with ''-'' s then (- 1, tl s) else if starts_with ''+'' s then (1, tl s) else (1, s))"

definition exponent_of :: "string \<Rightarrow> int option" where
  "exponent_of s =
     (case s of
        [] \<Rightarrow> Some 0
      | c # t \<Rightarrow> if c = CHR ''e'' \<or> c = CHR ''E''
                 then (case signed t of (sg, ds) \<Rightarrow> map_option (\<lambda>n. sg * int n) (number_of 10 ds)) else None)"

definition decimal_parts :: "string \<Rightarrow> (nat \<times> int) option" where
  "decimal_parts s =
     (let whole = takeWhile is_digit s; rest = dropWhile is_digit s;
          point = starts_with ''.'' rest;
          frac = (if point then takeWhile is_digit (tl rest) else []);
          tail = (if point then dropWhile is_digit (tl rest) else rest)
      in case (number_of 10 (whole @ frac), exponent_of tail) of
           (Some m, Some e) \<Rightarrow> Some (m, e - int (length frac))
         | _ \<Rightarrow> None)"

text \<open>A literal that a double rounds to infinity is not an integer, nor finite.\<close>

definition finite_double :: "nat \<Rightarrow> bool" where
  "finite_double n = (n < 2 ^ 1024 - 2 ^ 970)"

definition prefixed_number :: "string \<Rightarrow> nat option option" where
  "prefixed_number t =
     (if starts_with ''0x'' t \<or> starts_with ''0X'' t then Some (number_of 16 (drop 2 t))
      else if starts_with ''0o'' t \<or> starts_with ''0O'' t then Some (number_of 8 (drop 2 t))
      else if starts_with ''0b'' t \<or> starts_with ''0B'' t then Some (number_of 2 (drop 2 t))
      else None)"

text \<open>The number of a text, given how a scaled mantissa is turned into an integer.\<close>

definition number_with :: "(nat \<Rightarrow> int \<Rightarrow> nat option) \<Rightarrow> string \<Rightarrow> int option" where
  "number_with scale s =
     (let t = js_trim s;
          keep = (\<lambda>sg n. case n of None \<Rightarrow> None | Some v \<Rightarrow> if finite_double v then Some (sg * int v) else None)
      in if t = [] then Some 0
         else case prefixed_number t of
             Some n \<Rightarrow> keep 1 n
           | None \<Rightarrow> (case signed t of (sg, u) \<Rightarrow> keep sg (case decimal_parts u of None \<Rightarrow> None | Some (m, e) \<Rightarrow> scale m e)))"

definition js_integer :: "string \<Rightarrow> int option" where
  "js_integer = number_with scaled"

section \<open>The signed delivery\<close>

definition SIGNATURE_PREFIX :: string where
  "SIGNATURE_PREFIX = ''sha256=''"

definition DEFAULT_FRESHNESS_WINDOW_SECONDS :: int where
  "DEFAULT_FRESHNESS_WINDOW_SECONDS = 300"

datatype rejection =
    Signature_mismatch
  | Timestamp_expired
  | Timestamp_too_far_in_future
  | Malformed_signature_header
  | Malformed_timestamp_header
  | Wrong_algorithm
  | Duplicate_signature

datatype verify_result = Delivery_accepted | Delivery_refused rejection

record receiver_state =
  rs_acceptedSignatures :: "string list"

definition createReceiverState :: receiver_state where
  "createReceiverState = \<lparr>rs_acceptedSignatures = []\<rparr>"

record verify_options =
  vo_freshnessWindowSeconds :: "int option"
  vo_nowSeconds :: "int option"

record signed_headers =
  sh_signatureHeader :: string
  sh_timestampHeader :: string
  sh_algorithmHeader :: string

definition signed_text :: "int \<Rightarrow> string \<Rightarrow> string" where
  "signed_text timestamp body = int_str timestamp @ ''.'' @ body"

definition freshness :: "int \<Rightarrow> verify_options \<Rightarrow> int \<Rightarrow> rejection option" where
  "freshness clock opts timestamp =
     (let window = (case vo_freshnessWindowSeconds opts of None \<Rightarrow> DEFAULT_FRESHNESS_WINDOW_SECONDS | Some w \<Rightarrow> w);
          delta = (case vo_nowSeconds opts of None \<Rightarrow> clock | Some n \<Rightarrow> n) - timestamp
      in if 0 < window then
           (if window < delta then Some Timestamp_expired
            else if delta < - window then Some Timestamp_too_far_in_future else None)
         else None)"

definition verifyWebhookDelivery ::
  "hmac \<Rightarrow> int \<Rightarrow> string \<Rightarrow> string \<Rightarrow> string option \<Rightarrow> string \<Rightarrow> string \<Rightarrow> verify_options \<Rightarrow> receiver_state
     \<Rightarrow> verify_result \<times> receiver_state" where
  "verifyWebhookDelivery hm clock secret signatureHeader algorithmHeader timestampHeader body opts st =
     (if algorithmHeader \<noteq> None \<and> algorithmHeader \<noteq> Some ''v1'' then (Delivery_refused Wrong_algorithm, st)
      else if \<not> starts_with SIGNATURE_PREFIX signatureHeader then (Delivery_refused Malformed_signature_header, st)
      else let providedHex = drop (length SIGNATURE_PREFIX) signatureHeader in
        if providedHex = [] \<or> \<not> list_all (\<lambda>c. hex_nibble c \<noteq> None) providedHex then (Delivery_refused Malformed_signature_header, st)
        else if signatureHeader \<in> set (rs_acceptedSignatures st) then (Delivery_refused Duplicate_signature, st)
        else case js_integer timestampHeader of
            None \<Rightarrow> (Delivery_refused Malformed_timestamp_header, st)
          | Some timestamp \<Rightarrow>
              if timestamp \<le> 0 then (Delivery_refused Malformed_timestamp_header, st)
              else case freshness clock opts timestamp of
                  Some r \<Rightarrow> (Delivery_refused r, st)
                | None \<Rightarrow>
                    let expectedHex = hex_text (hm (utf8_bytes secret) (signed_text timestamp body))
                    in if from_hex providedHex \<noteq> from_hex expectedHex then (Delivery_refused Signature_mismatch, st)
                       else (Delivery_accepted, \<lparr>rs_acceptedSignatures = List.insert signatureHeader (rs_acceptedSignatures st)\<rparr>))"

definition signPayload :: "hmac \<Rightarrow> string \<Rightarrow> int \<Rightarrow> string \<Rightarrow> signed_headers" where
  "signPayload hm secret timestamp body =
     \<lparr>sh_signatureHeader = SIGNATURE_PREFIX @ hex_text (hm (utf8_bytes secret) (signed_text timestamp body)),
      sh_timestampHeader = int_str timestamp, sh_algorithmHeader = ''v1''\<rparr>"

section \<open>Standard Webhooks\<close>

definition WHSEC_PREFIX :: string where
  "WHSEC_PREFIX = ''whsec_''"

definition base64_char :: "char \<Rightarrow> bool" where
  "base64_char c = (is_alnum c \<or> c = CHR ''+'' \<or> c = CHR ''/'')"

text \<open>The pattern of the body: at least one character of the alphabet, then at most two paddings.\<close>

definition base64_body :: "string \<Rightarrow> bool" where
  "base64_body s =
     (let tail = dropWhile base64_char s in
      takeWhile base64_char s \<noteq> [] \<and> length tail \<le> 2 \<and> list_all (\<lambda>c. c = CHR ''='') tail)"

definition decodeWhsec :: "string \<Rightarrow> nat list option" where
  "decodeWhsec secret =
     (if \<not> starts_with WHSEC_PREFIX secret then None
      else let body = drop (length WHSEC_PREFIX) secret in
        if \<not> base64_body body then None
        else let key = from_base64 body in
          if 24 \<le> length key \<and> length key \<le> 64 then Some key else None)"

text \<open>None is the thrown error of a secret that is not a \<open>whsec_\<close> secret.\<close>

definition standardWebhooksSign :: "hmac \<Rightarrow> string \<Rightarrow> string \<Rightarrow> string \<Rightarrow> string \<Rightarrow> string option" where
  "standardWebhooksSign hm secret msgId timestamp body =
     map_option (\<lambda>key. ''v1,'' @ base64 (hm key (msgId @ ''.'' @ timestamp @ ''.'' @ body))) (decodeWhsec secret)"

datatype sw_rejection =
    Missing_headers
  | Malformed_id
  | Malformed_timestamp
  | Timestamp_out_of_tolerance
  | No_matching_signature

record sw_verdict =
  sv_accepted :: bool
  sv_reason :: "sw_rejection option"
  sv_entries :: "string list"
  sv_matched :: nat

datatype header_value = One string | Many "string list"

type_synonym header_bag = "(string \<times> header_value option) list"

definition header :: "header_bag \<Rightarrow> string \<Rightarrow> string option" where
  "header bag name =
     (case List.find (\<lambda>(k, v). map ascii_lower k = map ascii_lower name) bag of
        Some (k, Some (One s)) \<Rightarrow> Some s
      | Some (k, Some (Many ss)) \<Rightarrow> Some (join '', '' ss)
      | _ \<Rightarrow> None)"

definition sw_refused :: "sw_rejection \<Rightarrow> string list \<Rightarrow> sw_verdict" where
  "sw_refused r es = \<lparr>sv_accepted = False, sv_reason = Some r, sv_entries = es, sv_matched = 0\<rparr>"

text \<open>One entry: the part before the first comma is \<open>v1\<close> and the rest decodes to the expected bytes.\<close>

definition entry_matches :: "nat list \<Rightarrow> string \<Rightarrow> bool" where
  "entry_matches expected e =
     (case index_of '','' e of
        None \<Rightarrow> False
      | Some comma \<Rightarrow> take comma e = ''v1'' \<and> from_base64 (drop (comma + 1) e) = expected)"

definition verifyStandardWebhooks ::
  "hmac \<Rightarrow> int \<Rightarrow> string \<Rightarrow> header_bag \<Rightarrow> string \<Rightarrow> int option \<Rightarrow> int option \<Rightarrow> sw_verdict option" where
  "verifyStandardWebhooks hm clock body headers secret toleranceSeconds nowSeconds =
     (case (header headers ''webhook-id'', header headers ''webhook-timestamp'', header headers ''webhook-signature'') of
        (Some msgId, Some ts, Some sig) \<Rightarrow>
          (let entries = filter (\<lambda>e. e \<noteq> []) (split_char (CHR '' '') sig);
               tolerance = (case toleranceSeconds of None \<Rightarrow> DEFAULT_FRESHNESS_WINDOW_SECONDS | Some t \<Rightarrow> t);
               now = (case nowSeconds of None \<Rightarrow> clock | Some n \<Rightarrow> n)
           in if CHR ''.'' \<in> set msgId \<or> msgId = [] then Some (sw_refused Malformed_id entries)
              else if ts = [] \<or> \<not> list_all is_digit ts then Some (sw_refused Malformed_timestamp entries)
              else if tolerance < \<bar>now - int (foldl digit_value 0 ts)\<bar> then Some (sw_refused Timestamp_out_of_tolerance entries)
              else case standardWebhooksSign hm secret msgId ts body of
                  None \<Rightarrow> None
                | Some signature \<Rightarrow>
                    let matched = length (filter (entry_matches (from_base64 (drop 3 signature))) entries)
                    in Some (if 0 < matched then \<lparr>sv_accepted = True, sv_reason = None, sv_entries = entries, sv_matched = matched\<rparr>
                             else sw_refused No_matching_signature entries))
      | _ \<Rightarrow> Some (sw_refused Missing_headers []))"

section \<open>Hexadecimal text\<close>

lemma hex_nibble_digit: "n < 16 \<Longrightarrow> hex_nibble (hex_digit n) = Some n"
proof -
  assume "n < 16"
  then consider "n < 10" | "10 \<le> n" "n < 16" by linarith
  then show ?thesis by cases (auto simp: hex_nibble_def hex_digit_def is_digit_def Let_def)
qed

lemma hex_text_Cons: "hex_text (b # bs) = hex_digit (b div 16) # hex_digit (b mod 16) # hex_text bs"
  by (simp add: hex_text_def)

lemma byte_nibbles: "b < 256 \<Longrightarrow> b div 16 < (16 :: nat)" "b mod 16 < (16 :: nat)" "b div 16 * 16 + b mod 16 = b"
  by (auto intro: less_mult_imp_div_less)

lemma from_hex_text: "list_all (\<lambda>b. b < 256) bs \<Longrightarrow> length r < 2 \<Longrightarrow> from_hex (hex_text bs @ r) = bs"
proof (induction bs)
  case Nil
  then show ?case by (cases r rule: from_hex.cases) (simp_all add: hex_text_def)
next
  case (Cons b bs)
  then show ?case by (simp add: hex_text_Cons hex_nibble_digit byte_nibbles)
qed

lemma hex_text_digits: "list_all (\<lambda>b. b < 256) bs \<Longrightarrow> list_all (\<lambda>c. hex_nibble c \<noteq> None) (hex_text bs)"
  by (induction bs) (auto simp: hex_text_Cons hex_nibble_digit byte_nibbles, simp add: hex_text_def)

lemma hex_text_empty: "hex_text bs = [] \<longleftrightarrow> bs = []"
  by (cases bs) (simp_all add: hex_text_Cons, simp add: hex_text_def)

lemma length_hex_text: "length (hex_text bs) = 2 * length bs"
  by (induction bs) (simp_all add: hex_text_Cons, simp add: hex_text_def)


section \<open>Reading an integer back\<close>

lemma digit_hex: "is_digit c \<Longrightarrow> hex_nibble c = Some (of_char c - 48) \<and> of_char c - 48 < (10 :: nat)"
  by (auto simp: hex_nibble_def is_digit_def Let_def)

lemma number_of_digits:
  assumes "list_all is_digit s" and "s \<noteq> []"
  shows "number_of 10 s = Some (foldl digit_value 0 s)"
proof -
  have "foldl (\<lambda>acc c. case (acc, hex_nibble c) of (Some n, Some d) \<Rightarrow> if d < 10 then Some (n * 10 + d) else None | _ \<Rightarrow> None)
      (Some n) s = Some (foldl digit_value n s)" for n
    using assms(1) by (induction s arbitrary: n) (auto simp: digit_hex digit_value_def)
  with assms(2) show ?thesis by (simp add: number_of_def)
qed

lemma digit_not_special: "is_digit c \<Longrightarrow> c \<noteq> CHR ''-'' \<and> c \<noteq> CHR ''+'' \<and> \<not> js_space c"
  by (auto simp: is_digit_def js_space_def Let_def)

lemma trim_digits: "list_all is_digit s \<Longrightarrow> js_trim s = s"
proof -
  have none: "dropWhile js_space t = t" if "list_all is_digit t" for t
    using that by (cases t) (auto dest: digit_not_special)
  moreover assume "list_all is_digit s"
  ultimately show ?thesis by (simp add: js_trim_def)
qed

lemma number_with_digits:
  assumes "list_all is_digit s" and "s \<noteq> []" and "scale (foldl digit_value 0 s) 0 = Some v"
  shows "number_with scale s = (if finite_double v then Some (int v) else None)"
proof -
  obtain c t where s: "s = c # t" using assms(2) by (cases s) auto
  have "x \<noteq> CHR ''x'' \<and> x \<noteq> CHR ''X'' \<and> x \<noteq> CHR ''o'' \<and> x \<noteq> CHR ''O'' \<and> x \<noteq> CHR ''b'' \<and> x \<noteq> CHR ''B''" if "is_digit x" for x
    using that by (auto simp: is_digit_def Let_def)
  with assms(1) have pre: "\<not> starts_with [a, b] s" if "b \<in> set ''xXoObB''" for a b
    using that by (cases t) (auto simp: s starts_with_def)
  have sg: "signed s = (1, s)"
    using assms(1) digit_not_special [of c] by (auto simp: s signed_def starts_with_def)
  have all: "takeWhile is_digit s = s" "dropWhile is_digit s = []"
    using assms(1) by (auto simp: list_all_iff takeWhile_eq_all_conv)
  then have "decimal_parts s = Some (foldl digit_value 0 s, 0)"
    using number_of_digits [OF assms(1,2)] by (simp add: decimal_parts_def exponent_of_def Let_def all starts_with_def)
  then show ?thesis
    using pre sg assms(2,3) by (simp add: number_with_def prefixed_number_def trim_digits [OF assms(1)] Let_def)
qed

lemma js_integer_int_str: "0 < t \<Longrightarrow> finite_double (nat t) \<Longrightarrow> js_integer (int_str t) = Some t"
  using number_with_digits [OF nat_digits_digits nat_digits_nonempty, of scaled "nat t" "nat t"]
  by (simp add: int_str_def nat_digits_value js_integer_def scaled_def)

section \<open>Deliveries\<close>

record delivery =
  dl_signature :: string
  dl_algorithm :: "string option"
  dl_timestamp :: string
  dl_body :: string
  dl_clock :: int
  dl_options :: verify_options

definition receive :: "hmac \<Rightarrow> string \<Rightarrow> delivery \<Rightarrow> receiver_state \<Rightarrow> verify_result \<times> receiver_state" where
  "receive hm secret d st =
     verifyWebhookDelivery hm (dl_clock d) secret (dl_signature d) (dl_algorithm d) (dl_timestamp d) (dl_body d) (dl_options d) st"

fun accepted_run :: "hmac \<Rightarrow> string \<Rightarrow> receiver_state \<Rightarrow> delivery list \<Rightarrow> delivery list" where
  "accepted_run hm secret st [] = []"
| "accepted_run hm secret st (d # ds) =
     (case receive hm secret d st of (r, st') \<Rightarrow>
        (if r = Delivery_accepted then [d] else []) @ accepted_run hm secret st' ds)"

text \<open>A delivery signed with the secret, recently enough.\<close>

definition genuine :: "hmac \<Rightarrow> string \<Rightarrow> delivery \<Rightarrow> bool" where
  "genuine hm secret d =
     (case js_integer (dl_timestamp d) of
        None \<Rightarrow> False
      | Some t \<Rightarrow> 0 < t \<and> freshness (dl_clock d) (dl_options d) t = None \<and>
          from_hex (drop 7 (dl_signature d)) = hm (utf8_bytes secret) (signed_text t (dl_body d)))"

definition well_headed :: "delivery \<Rightarrow> bool" where
  "well_headed d =
     ((dl_algorithm d = None \<or> dl_algorithm d = Some ''v1'') \<and> starts_with SIGNATURE_PREFIX (dl_signature d) \<and>
      drop 7 (dl_signature d) \<noteq> [] \<and> list_all (\<lambda>c. hex_nibble c \<noteq> None) (drop 7 (dl_signature d)))"

lemma prefix_length: "length SIGNATURE_PREFIX = 7"
  by (simp add: SIGNATURE_PREFIX_def)

lemma hmac_bytes: "hmac_ok hm \<Longrightarrow> from_hex (hex_text (hm k m)) = hm k m"
  using from_hex_text [of "hm k m" "[]"] by (simp add: hmac_ok_def)

lemma receive_accepts:
  assumes "hmac_ok hm"
  shows "fst (receive hm secret d st) = Delivery_accepted \<longleftrightarrow>
     well_headed d \<and> genuine hm secret d \<and> dl_signature d \<notin> set (rs_acceptedSignatures st)"
  by (auto simp: receive_def verifyWebhookDelivery_def well_headed_def genuine_def prefix_length hmac_bytes [OF assms] Let_def
    split: option.splits)

lemma receive_state:
  "rs_acceptedSignatures (snd (receive hm secret d st)) =
     (if fst (receive hm secret d st) = Delivery_accepted then List.insert (dl_signature d) (rs_acceptedSignatures st)
      else rs_acceptedSignatures st)"
  by (simp add: receive_def verifyWebhookDelivery_def Let_def split: option.splits)

lemma accepted_run_new:
  assumes "hmac_ok hm"
  shows "list_all (\<lambda>d. genuine hm secret d \<and> dl_signature d \<notin> set (rs_acceptedSignatures st)) (accepted_run hm secret st ds) \<and>
     distinct (map dl_signature (accepted_run hm secret st ds))"
proof (induction ds arbitrary: st)
  case (Cons d ds)
  let ?st = "snd (receive hm secret d st)"
  have sub: "set (rs_acceptedSignatures st) \<subseteq> set (rs_acceptedSignatures ?st)" by (auto simp: receive_state)
  have fresh: "dl_signature d \<notin> dl_signature ` set (accepted_run hm secret ?st ds)" if "fst (receive hm secret d st) = Delivery_accepted"
    using Cons.IH [of ?st] that by (auto simp: list_all_iff receive_state)
  have rest: "list_all (\<lambda>d. genuine hm secret d \<and> dl_signature d \<notin> set (rs_acceptedSignatures st)) (accepted_run hm secret ?st ds)"
    using Cons.IH [of ?st] sub by (auto simp: list_all_iff)
  show ?case
    using Cons.IH [of ?st] fresh rest receive_accepts [OF assms, of secret d st]
    by (cases "receive hm secret d st") auto
qed simp

text \<open>
  Claim C13: whatever is delivered, in whatever order, only deliveries signed with the secret over their
  timestamp and body and inside the freshness window are accepted, and no signature header is accepted twice
  or when it was accepted before.
\<close>

theorem only_genuine_deliveries:
  assumes "hmac_ok hm"
  shows "list_all (\<lambda>d. genuine hm secret d \<and> dl_signature d \<notin> set (rs_acceptedSignatures st)) (accepted_run hm secret st ds) \<and>
     distinct (map dl_signature (accepted_run hm secret st ds))"
  using accepted_run_new [OF assms] .

definition toy_hmac :: hmac where
  "toy_hmac k m = [length m mod 256, length k mod 256]"

lemma toy_hmac_ok: "hmac_ok toy_hmac"
  by (simp add: hmac_ok_def toy_hmac_def)

definition toy_delivery :: delivery where
  "toy_delivery =
     \<lparr>dl_signature = ''sha256=0502'', dl_algorithm = Some ''v1'', dl_timestamp = ''100'', dl_body = ''x'', dl_clock = 200,
      dl_options = \<lparr>vo_freshnessWindowSeconds = None, vo_nowSeconds = None\<rparr>\<rparr>"

lemmas verify_evaluation =
  toy_delivery_def toy_hmac_def receive_def verifyWebhookDelivery_def SIGNATURE_PREFIX_def starts_with_def hex_nibble_def is_digit_def
  js_integer_def number_with_def prefixed_number_def finite_double_def js_trim_def js_space_def signed_def decimal_parts_def number_of_def exponent_of_def scaled_def freshness_def
  DEFAULT_FRESHNESS_WINDOW_SECONDS_def signed_text_def int_str_def nat_digits.simps utf8_bytes_def hex_text_def hex_digit_def
  createReceiverState_def

theorem only_genuine_deliveries_witness:
  "accepted_run toy_hmac ''ab'' createReceiverState [toy_delivery, toy_delivery] = [toy_delivery] \<and>
   distinct (map dl_signature (accepted_run toy_hmac ''ab'' createReceiverState [toy_delivery, toy_delivery]))"
  using only_genuine_deliveries [OF toy_hmac_ok, of "''ab''" createReceiverState "[toy_delivery, toy_delivery]"]
  by (simp add: verify_evaluation Let_def)

section \<open>A signed delivery\<close>

definition delivery_of :: "signed_headers \<Rightarrow> string \<Rightarrow> int \<Rightarrow> verify_options \<Rightarrow> delivery" where
  "delivery_of h body clock opts =
     \<lparr>dl_signature = sh_signatureHeader h, dl_algorithm = Some (sh_algorithmHeader h), dl_timestamp = sh_timestampHeader h,
      dl_body = body, dl_clock = clock, dl_options = opts\<rparr>"

lemma starts_with_prefix: "starts_with SIGNATURE_PREFIX (SIGNATURE_PREFIX @ s)" "drop 7 (SIGNATURE_PREFIX @ s) = s"
  by (rule starts_with_append) (simp add: SIGNATURE_PREFIX_def)

lemma signed_is_genuine:
  assumes "hmac_ok hm" and "0 < t \<and> finite_double (nat t)" and "freshness clock opts t = None"
  shows "well_headed (delivery_of (signPayload hm secret t body) body clock opts) \<and>
     genuine hm secret (delivery_of (signPayload hm secret t body) body clock opts)"
proof -
  have "hm k m \<noteq> [] \<and> list_all (\<lambda>b. b < 256) (hm k m)" for k m using assms(1) by (simp add: hmac_ok_def)
  then show ?thesis
    using assms(2,3) hex_text_digits js_integer_int_str [of t]
    by (simp add: well_headed_def genuine_def delivery_of_def signPayload_def prefix_length hex_text_empty hmac_bytes [OF assms(1)])
qed

text \<open>
  What \<open>signPayload\<close> signs is accepted by a receiver that has not seen its header, once: the second
  delivery of the same header is refused as a duplicate.
\<close>

theorem signed_delivery_accepted_once:
  assumes "hmac_ok hm" and "0 < t \<and> finite_double (nat t)" and "freshness clock opts t = None"
    and "d = delivery_of (signPayload hm secret t body) body clock opts" and "dl_signature d \<notin> set (rs_acceptedSignatures st)"
  shows "fst (receive hm secret d st) = Delivery_accepted \<and>
     fst (receive hm secret d (snd (receive hm secret d st))) = Delivery_refused Duplicate_signature"
proof -
  have g: "well_headed d" "genuine hm secret d" using signed_is_genuine [OF assms(1-3)] assms(4) by simp_all
  then have acc: "fst (receive hm secret d st) = Delivery_accepted" using receive_accepts [OF assms(1)] assms(5) by blast
  then have "dl_signature d \<in> set (rs_acceptedSignatures (snd (receive hm secret d st)))" by (simp add: receive_state)
  with g(1) acc show ?thesis
    by (auto simp: receive_def verifyWebhookDelivery_def well_headed_def prefix_length Let_def)
qed

theorem signed_delivery_accepted_once_witness:
  "fst (receive toy_hmac ''ab'' toy_delivery createReceiverState) = Delivery_accepted \<and>
   fst (receive toy_hmac ''ab'' toy_delivery (snd (receive toy_hmac ''ab'' toy_delivery createReceiverState))) =
     Delivery_refused Duplicate_signature"
  by (rule signed_delivery_accepted_once [OF toy_hmac_ok, of 100 200 "\<lparr>vo_freshnessWindowSeconds = None, vo_nowSeconds = None\<rparr>"
        toy_delivery "''ab''" "''x''"])
    (simp_all add: verify_evaluation delivery_of_def signPayload_def Let_def char_of_def bit_0)




section \<open>Standard Webhooks secrets and signatures\<close>

definition mint_whsec :: "nat list \<Rightarrow> string" where
  "mint_whsec bytes = WHSEC_PREFIX @ base64 bytes"

lemma from_base64_read: "list_all (\<lambda>b. b < 256) bs \<Longrightarrow> from_base64 (base64 bs) = bs"
  by (simp add: from_base64_def bytes_read flip: sextets_def)

lemma b64_char_class: "n < 64 \<Longrightarrow> base64_char (b64_char n)"
proof -
  assume n: "n < 64"
  then consider "n < 26" | "26 \<le> n" "n < 52" | "52 \<le> n" "n < 62" | "n = 62" | "n = 63" by linarith
  then show ?thesis
    by cases (auto simp: b64_char_def base64_char_def is_alnum_def is_upper_def is_lower_def is_digit_def Let_def)
qed

lemma base64_shape:
  "list_all (\<lambda>b. b < 256) bs \<Longrightarrow> \<exists>s k. base64 bs = s @ replicate k (CHR ''='') \<and> list_all base64_char s \<and> k \<le> 2 \<and> (bs \<noteq> [] \<longrightarrow> s \<noteq> [])"
proof (induction bs rule: base64.induct)
  case 1
  show ?case by (intro exI [of _ "[]"] exI [of _ 0]) simp
next
  case (2 a)
  then show ?case
    by (intro exI [of _ "[b64_char (a div 4), b64_char (a mod 4 * 16)]"] exI [of _ 2])
      (simp add: b64_char_class sextet_bounds numeral_2_eq_2)
next
  case (3 a b)
  then show ?case
    by (intro exI [of _ "[b64_char (a div 4), b64_char (a mod 4 * 16 + b div 16), b64_char (b mod 16 * 4)]"] exI [of _ 1])
      (simp add: b64_char_class sextet_bounds)
next
  case (4 a b c rest)
  then obtain s k where "base64 rest = s @ replicate k (CHR ''='')" "list_all base64_char s" "k \<le> 2" by auto
  with 4 show ?case
    by (intro exI [of _ "[b64_char (a div 4), b64_char (a mod 4 * 16 + b div 16), b64_char (b mod 16 * 4 + c div 64), b64_char (c mod 64)] @ s"]
        exI [of _ k]) (simp add: b64_char_class sextet_bounds)
qed

lemma base64_body_text: "list_all (\<lambda>b. b < 256) bs \<Longrightarrow> base64_body (base64 bs) \<longleftrightarrow> bs \<noteq> []"
proof -
  assume b: "list_all (\<lambda>b. b < 256) bs"
  then obtain s k where s: "base64 bs = s @ replicate k (CHR ''='')" "list_all base64_char s" "k \<le> 2" "bs \<noteq> [] \<longrightarrow> s \<noteq> []"
    using base64_shape by blast
  have pad: "\<not> base64_char (CHR ''='')"
    by (simp add: base64_char_def is_alnum_def is_upper_def is_lower_def is_digit_def Let_def)
  have "takeWhile base64_char (base64 bs) = s" "dropWhile base64_char (base64 bs) = replicate k (CHR ''='')"
    using s(1,2) pad by (cases k; auto simp: list_all_iff takeWhile_append dropWhile_append)+
  moreover have "bs = [] \<Longrightarrow> s = []" using s(1) by simp
  ultimately show ?thesis using s(3,4) by (auto simp: base64_body_def list_all_iff)
qed

text \<open>
  A minted secret decodes to its bytes exactly when it has between 24 and 64 of them, and is
  refused otherwise.
\<close>

theorem minted_secret_bounds:
  assumes "list_all (\<lambda>b. b < 256) bs"
  shows "decodeWhsec (mint_whsec bs) = (if 24 \<le> length bs \<and> length bs \<le> 64 then Some bs else None)"
  using base64_body_text [OF assms] from_base64_read [OF assms]
  by (auto simp: decodeWhsec_def mint_whsec_def)

theorem minted_secret_bounds_witness:
  "decodeWhsec (mint_whsec (replicate 24 7)) = Some (replicate 24 7) \<and> decodeWhsec (mint_whsec (replicate 23 7)) = None"
  using minted_secret_bounds [of "replicate 24 7"] minted_secret_bounds [of "replicate 23 7"] by (simp add: list_all_iff)

section \<open>The verdict\<close>

lemma split_join: "xs \<noteq> [] \<Longrightarrow> list_all (\<lambda>x. d \<notin> set x) xs \<Longrightarrow> split_char d (join [d] xs) = xs"
  by (induction "[d]" xs rule: join.induct) (auto simp: split_char_single split_char_append)

definition sw_headers :: "string \<Rightarrow> string \<Rightarrow> string list \<Rightarrow> header_bag" where
  "sw_headers msgId ts entries =
     [(''webhook-id'', Some (One msgId)), (''webhook-timestamp'', Some (One ts)),
      (''webhook-signature'', Some (One (join '' '' entries)))]"

lemma sw_header_reads:
  "header (sw_headers m ts es) ''webhook-id'' = Some m" "header (sw_headers m ts es) ''webhook-timestamp'' = Some ts"
  "header (sw_headers m ts es) ''webhook-signature'' = Some (join '' '' es)"
  by (simp_all add: header_def sw_headers_def ascii_lower_def is_upper_def Let_def)

lemma index_of_v1: "index_of '','' (''v1,'' @ s) = Some 2"
  by (simp add: starts_with_def)

lemma own_entry_matches: "entry_matches (from_base64 s) (''v1,'' @ s)"
  unfolding entry_matches_def index_of_v1 by simp

lemma sw_sign_shape: "standardWebhooksSign hm secret m ts body = Some sg \<Longrightarrow> \<exists>s. sg = ''v1,'' @ base64 s"
  by (auto simp: standardWebhooksSign_def)

lemma base64_no_blank: "CHR '' '' \<notin> set (base64 bs)"
proof -
  have "b64_char n \<noteq> CHR '' ''" for n
  proof -
    have "of_char (b64_char n) \<noteq> (32 :: nat)"
    proof (cases "n < 62")
      case True
      then show ?thesis by (auto simp: b64_char_def)
    qed (auto simp: b64_char_def)
    then show ?thesis by auto
  qed
  then show ?thesis by (induction bs rule: base64.induct) (auto, metis+)
qed

text \<open>
  A delivery is accepted whatever other entries its signature header carries, as long as the entry
  signed with the secret is among them: a secret can be rotated with both signatures sent.
\<close>

theorem signed_entry_suffices:
  assumes "standardWebhooksSign hm secret msgId (nat_digits t) body = Some sg" and "msgId \<noteq> [] \<and> CHR ''.'' \<notin> set msgId"
    and "\<bar>now - int t\<bar> \<le> tolerance" and "list_all (\<lambda>e. CHR '' '' \<notin> set e) (es @ fs)"
  shows "case verifyStandardWebhooks hm clock body (sw_headers msgId (nat_digits t) (es @ sg # fs)) secret (Some tolerance) (Some now) of
     None \<Rightarrow> False
   | Some v \<Rightarrow> sv_accepted v \<and> sv_reason v = None \<and> 0 < sv_matched v \<and> sv_matched v \<le> length (es @ sg # fs)"
proof -
  obtain s where s: "sg = ''v1,'' @ base64 s" using sw_sign_shape [OF assms(1)] by blast
  then have "CHR '' '' \<notin> set sg" using base64_no_blank [of s] by simp
  then have split: "split_char (CHR '' '') (join '' '' (es @ sg # fs)) = es @ sg # fs"
    using split_join [of "es @ sg # fs" "CHR '' ''"] assms(4) by simp
  let ?entries = "filter (\<lambda>e. e \<noteq> []) (es @ sg # fs)"
  let ?ok = "entry_matches (from_base64 (drop 3 sg))"
  have "sg \<in> set (filter ?ok ?entries)" using own_entry_matches [of "base64 s"] by (simp add: s)
  then have "0 < length (filter ?ok ?entries)" by (metis length_greater_0_conv list.set_cases list.distinct(1))
  moreover have "length (filter ?ok ?entries) \<le> length (es @ sg # fs)" by (meson le_trans length_filter_le)
  ultimately show ?thesis
    using assms(2,3) nat_digits_digits [of t] nat_digits_nonempty [of t]
    unfolding verifyStandardWebhooks_def sw_header_reads Let_def split assms(1) option.case prod.case nat_digits_value
    by simp
qed

definition toy_secret :: string where
  "toy_secret = mint_whsec (replicate 24 7)"

theorem signed_entry_suffices_witness:
  "case standardWebhooksSign toy_hmac toy_secret ''m1'' (nat_digits 100) ''x'' of
     None \<Rightarrow> False
   | Some sg \<Rightarrow> (case verifyStandardWebhooks toy_hmac 0 ''x'' (sw_headers ''m1'' (nat_digits 100) ([''v1,AAAA''] @ sg # [])) toy_secret (Some 300) (Some 200) of
       None \<Rightarrow> False
     | Some v \<Rightarrow> sv_accepted v \<and> sv_reason v = None \<and> 0 < sv_matched v \<and> sv_matched v \<le> length ([''v1,AAAA''] @ sg # []))"
proof -
  have "decodeWhsec toy_secret = Some (replicate 24 7)"
    using base64_body_text [of "replicate 24 7"] from_base64_read [of "replicate 24 7"]
    by (simp add: toy_secret_def decodeWhsec_def mint_whsec_def list_all_iff)
  then obtain sg where sg: "standardWebhooksSign toy_hmac toy_secret ''m1'' (nat_digits 100) ''x'' = Some sg"
    by (simp add: standardWebhooksSign_def)
  show ?thesis
    unfolding sg option.case by (rule signed_entry_suffices [OF sg]) simp_all
qed

text \<open>
  Verification throws exactly when the headers are present, well formed and recent but the
  receiver's own secret is not a \<open>whsec_\<close> secret of 24 to 64 bytes; every other input gets a verdict.
\<close>

theorem verification_throws_iff:
  "verifyStandardWebhooks hm clock body headers secret toleranceSeconds nowSeconds = None \<longleftrightarrow>
     decodeWhsec secret = None \<and> header headers ''webhook-signature'' \<noteq> None \<and>
     (\<exists>m ts. header headers ''webhook-id'' = Some m \<and> header headers ''webhook-timestamp'' = Some ts \<and>
        m \<noteq> [] \<and> CHR ''.'' \<notin> set m \<and> ts \<noteq> [] \<and> list_all is_digit ts \<and>
        \<bar>(case nowSeconds of None \<Rightarrow> clock | Some n \<Rightarrow> n) - int (foldl digit_value 0 ts)\<bar> \<le>
          (case toleranceSeconds of None \<Rightarrow> DEFAULT_FRESHNESS_WINDOW_SECONDS | Some t \<Rightarrow> t))"
  by (auto simp: verifyStandardWebhooks_def standardWebhooksSign_def Let_def not_less not_le split: option.splits)

end
