(* ===== verification/Gate.thy ===== *)
theory Gate
  imports Ledger
begin

text \<open>
  The environment of the suite (\<open>env.ts\<close>) and the behaviour gate (\<open>behavior-gate.ts\<close>) that decides
  whether a capability-gated scenario runs. The process environment is a function from names to
  values, the memo of \<open>loadEnv\<close> and the ledger are the gate's state; console warnings are not modelled.
\<close>

section \<open>Environment\<close>

type_synonym process_env = "string \<Rightarrow> string option"

record conformance_env =
  ce_baseUrl :: string
  ce_apiKey :: string
  ce_implementationName :: string
  ce_implementationVersion :: string
  ce_requireBehavior :: bool
  ce_optedOutProfiles :: "string list"

datatype gate_error =
    Env_required string
  | Advertised_and_opted_out string
  | Must_advertise string
  | Ledger_error ledger_error

definition trimmed :: "string option \<Rightarrow> string" where
  "trimmed v = (case v of None \<Rightarrow> [] | Some s \<Rightarrow> js_trim s)"

definition trimmed_or :: "string option \<Rightarrow> string \<Rightarrow> string" where
  "trimmed_or v d = (case v of None \<Rightarrow> d | Some s \<Rightarrow> js_trim s)"

definition strip_slash :: "string \<Rightarrow> string" where
  "strip_slash s = (if ends_with ''/'' s then butlast s else s)"

definition opted_out :: "string option \<Rightarrow> string list" where
  "opted_out raw = uniq (filter (\<lambda>s. s \<noteq> []) (map js_trim (split_char (CHR '','') (trimmed raw))))"

definition read_env :: "process_env \<Rightarrow> gate_error + conformance_env" where
  "read_env penv =
     (if trimmed (penv ''OPENWOP_BASE_URL'') = [] then Inl (Env_required ''OPENWOP_BASE_URL'')
      else if trimmed (penv ''OPENWOP_API_KEY'') = [] then Inl (Env_required ''OPENWOP_API_KEY'')
      else Inr
        \<lparr>ce_baseUrl = strip_slash (trimmed (penv ''OPENWOP_BASE_URL'')), ce_apiKey = trimmed (penv ''OPENWOP_API_KEY''),
         ce_implementationName = trimmed_or (penv ''OPENWOP_IMPLEMENTATION_NAME'') ''unknown'',
         ce_implementationVersion = trimmed_or (penv ''OPENWOP_IMPLEMENTATION_VERSION'') ''unknown'',
         ce_requireBehavior = (penv ''OPENWOP_REQUIRE_BEHAVIOR'' = Some ''true''),
         ce_optedOutProfiles = opted_out (penv ''OPENWOP_OPTED_OUT_PROFILES'')\<rparr>)"

record gate_state =
  gt_cached :: "conformance_env option"
  gt_ledger :: ledger_state

definition loadEnv :: "process_env \<Rightarrow> gate_state \<Rightarrow> gate_error + conformance_env \<times> gate_state" where
  "loadEnv penv st =
     (case gt_cached st of
        Some c \<Rightarrow> Inr (c, st)
      | None \<Rightarrow> ebind (read_env penv) (\<lambda>c. Inr (c, st\<lparr>gt_cached := Some c\<rparr>)))"

definition resetEnvCache :: "gate_state \<Rightarrow> gate_state" where
  "resetEnvCache st = st\<lparr>gt_cached := None\<rparr>"

definition isScenarioOptedOut :: "process_env \<Rightarrow> string \<Rightarrow> bool" where
  "isScenarioOptedOut penv scenarioId =
     (let raw = trimmed (penv ''OPENWOP_OPTED_OUT_SCENARIOS'') in
      raw \<noteq> [] \<and> (\<exists>entry \<in> set (split_char (CHR '','') raw). js_trim entry = scenarioId))"

section \<open>The gate\<close>

definition profileRequirementId :: "string \<Rightarrow> string" where
  "profileRequirementId profileName = ''openwop.profile.'' @ profileName"

definition opt_out_reason :: "string \<Rightarrow> string" where
  "opt_out_reason profileName = ''operator declared an honest opt-out via OPENWOP_OPTED_OUT_PROFILES: '' @ profileName"

definition not_advertised_reason :: string where
  "not_advertised_reason = ''profile not advertised in the captured discovery set''"

definition gate_record ::
  "(string \<Rightarrow> bool) \<Rightarrow> string option \<Rightarrow> string \<Rightarrow> disposition \<Rightarrow> string \<Rightarrow> gate_state \<Rightarrow> gate_error + bool \<times> gate_state" where
  "gate_record writable sinkPath profileName d detail st =
     (case recordRequirement writable sinkPath (profileRequirementId profileName) d (Some detail) no_extras (gt_ledger st) of
        Inl e \<Rightarrow> Inl (Ledger_error e)
      | Inr l \<Rightarrow> Inr (False, st\<lparr>gt_ledger := l\<rparr>))"

definition behaviorGate ::
  "(string \<Rightarrow> bool) \<Rightarrow> string option \<Rightarrow> process_env \<Rightarrow> string \<Rightarrow> bool \<Rightarrow> gate_state \<Rightarrow> gate_error + bool \<times> gate_state" where
  "behaviorGate writable sinkPath penv profileName advertised st =
     ebind (loadEnv penv st) (\<lambda>(env, st).
       let optedOut = profileName \<in> set (ce_optedOutProfiles env) in
       if advertised \<and> optedOut then Inl (Advertised_and_opted_out profileName)
       else if advertised then Inr (True, st)
       else if optedOut then gate_record writable sinkPath profileName Skipped (opt_out_reason profileName) st
       else if ce_requireBehavior env then Inl (Must_advertise profileName)
       else gate_record writable sinkPath profileName Inapplicable not_advertised_reason st)"

datatype tier = Stable | Experimental

definition experimentalGate ::
  "(string \<Rightarrow> bool) \<Rightarrow> string option \<Rightarrow> process_env \<Rightarrow> string \<Rightarrow> bool \<Rightarrow> tier option \<Rightarrow> gate_state \<Rightarrow> gate_error + bool \<times> gate_state" where
  "experimentalGate writable sinkPath penv profileName advertised t st =
     (if t = Some Experimental
      then ebind (loadEnv penv st) (\<lambda>(env, st).
             if penv ''OPENWOP_REQUIRE_EXPERIMENTAL'' \<noteq> Some ''true'' then Inr (False, st)
             else behaviorGate writable sinkPath penv profileName advertised st)
      else behaviorGate writable sinkPath penv profileName advertised st)"

definition behaviorGatePresent ::
  "(string \<Rightarrow> bool) \<Rightarrow> string option \<Rightarrow> process_env \<Rightarrow> string \<Rightarrow> json option \<Rightarrow> gate_state \<Rightarrow> gate_error + bool \<times> gate_state" where
  "behaviorGatePresent writable sinkPath penv profileName v st =
     ebind (behaviorGate writable sinkPath penv profileName (v \<noteq> None \<and> v \<noteq> Some JNull) st) (\<lambda>(b, st).
       Inr (b \<and> v \<noteq> None \<and> v \<noteq> Some JNull, st))"

section \<open>What a gate leaves behind\<close>

lemma sink_ledger [simp]: "ls_ledger (sink_entry w p e st) = ls_ledger st"
  by (simp add: sink_entry_def split: option.split)

lemma record_again:
  assumes "\<forall>e. map_of (ls_ledger st) i = Some e \<longrightarrow> le_disposition e = d" and "has_reason d (Some r)"
  shows "\<exists>st'. recordRequirement w p i d (Some r) no_extras st = Inr st' \<and>
    ls_ledger st' = AList.update i (make_entry i d (Some r) no_extras) (ls_ledger st)"
  using assms by (auto simp: recordRequirement_def no_extras_def Let_def split: option.split)

definition gate_disposition :: "conformance_env \<Rightarrow> string \<Rightarrow> disposition" where
  "gate_disposition env p = (if p \<in> set (ce_optedOutProfiles env) then Skipped else Inapplicable)"

definition gate_detail :: "conformance_env \<Rightarrow> string \<Rightarrow> string" where
  "gate_detail env p = (if p \<in> set (ce_optedOutProfiles env) then opt_out_reason p else not_advertised_reason)"

text \<open>The rows a gate may meet are its own.\<close>

definition gate_rows_ok :: "conformance_env \<Rightarrow> gate_state \<Rightarrow> bool" where
  "gate_rows_ok env st =
     (\<forall>p e. map_of (ls_ledger (gt_ledger st)) (profileRequirementId p) = Some e \<longrightarrow> le_disposition e = gate_disposition env p)"

lemma reasons_ok: "has_reason Skipped (Some (opt_out_reason p))" "has_reason Inapplicable (Some not_advertised_reason)"
proof -
  have o: "CHR ''o'' \<in> set (opt_out_reason p)" "CHR ''o'' \<in> set not_advertised_reason" "\<not> js_space (CHR ''o'')"
    by (simp_all add: opt_out_reason_def not_advertised_reason_def js_space_def)
  show "has_reason Skipped (Some (opt_out_reason p))" "has_reason Inapplicable (Some not_advertised_reason)"
    using trim_nonempty o by (auto simp: has_reason_def)
qed

lemma profile_ids_inj: "profileRequirementId p = profileRequirementId q \<longleftrightarrow> p = q"
  by (simp add: profileRequirementId_def)

definition gate_fails :: "conformance_env \<Rightarrow> string \<times> bool \<Rightarrow> bool" where
  "gate_fails env c =
     (case c of (p, advertised) \<Rightarrow>
        (advertised \<and> p \<in> set (ce_optedOutProfiles env)) \<or>
        (ce_requireBehavior env \<and> \<not> advertised \<and> p \<notin> set (ce_optedOutProfiles env)))"

lemma gate_step:
  assumes "loadEnv penv st = Inr (env, st1)" and "gate_rows_ok env st"
  shows "case behaviorGate w sink penv p a st of
           Inl e \<Rightarrow> gate_fails env (p, a)
         | Inr (b, st') \<Rightarrow>
             \<not> gate_fails env (p, a) \<and> b = a \<and> loadEnv penv st' = Inr (env, st') \<and> gate_rows_ok env st' \<and>
             map_of (ls_ledger (gt_ledger st')) =
               (if a then map_of (ls_ledger (gt_ledger st))
                else (map_of (ls_ledger (gt_ledger st)))(profileRequirementId p \<mapsto>
                  make_entry (profileRequirementId p) (gate_disposition env p) (Some (gate_detail env p)) no_extras))"
proof -
  let ?i = "profileRequirementId p"
  have st1: "gt_ledger st1 = gt_ledger st" "loadEnv penv st1 = Inr (env, st1)"
    using assms(1) by (auto simp: loadEnv_def ebind_Inr_iff split: option.splits)
  have cached: "gt_cached st1 = Some env"
    using assms(1) by (auto simp: loadEnv_def ebind_Inr_iff split: option.splits)
  have rows: "\<forall>e. map_of (ls_ledger (gt_ledger st1)) ?i = Some e \<longrightarrow> le_disposition e = gate_disposition env p"
    using assms(2) st1 by (simp add: gate_rows_ok_def)
  have reason: "has_reason (gate_disposition env p) (Some (gate_detail env p))"
    using reasons_ok by (simp add: gate_disposition_def gate_detail_def)
  obtain l where l: "recordRequirement w sink ?i (gate_disposition env p) (Some (gate_detail env p)) no_extras (gt_ledger st1) = Inr l"
      "ls_ledger l = AList.update ?i (make_entry ?i (gate_disposition env p) (Some (gate_detail env p)) no_extras) (ls_ledger (gt_ledger st1))"
    using record_again [OF rows reason] by blast
  have recorded: "gate_record w sink p (gate_disposition env p) (gate_detail env p) st1 = Inr (False, st1\<lparr>gt_ledger := l\<rparr>)"
    using l(1) by (simp add: gate_record_def)
  have gate: "behaviorGate w sink penv p a st =
      (if gate_fails env (p, a) then Inl (if a then Advertised_and_opted_out p else Must_advertise p)
       else if a then Inr (True, st1)
       else gate_record w sink p (gate_disposition env p) (gate_detail env p) st1)"
    using assms(1) by (auto simp: behaviorGate_def gate_fails_def gate_disposition_def gate_detail_def Let_def)
  have "le_disposition (make_entry ?i (gate_disposition env p) (Some (gate_detail env p)) no_extras) = gate_disposition env p"
    by (simp add: make_entry_def)
  with assms(2) have ok: "gate_rows_ok env (st1\<lparr>gt_ledger := l\<rparr>)"
    by (auto simp: gate_rows_ok_def l(2) st1(1) profile_ids_inj)
  have ok1: "gate_rows_ok env st1" using assms(2) st1(1) by (simp add: gate_rows_ok_def)
  have loaded: "loadEnv penv (st1\<lparr>gt_ledger := l\<rparr>) = Inr (env, st1\<lparr>gt_ledger := l\<rparr>)"
    using cached by (simp add: loadEnv_def)
  have upd: "map_of (ls_ledger l) = (map_of (ls_ledger (gt_ledger st)))(?i \<mapsto>
      make_entry ?i (gate_disposition env p) (Some (gate_detail env p)) no_extras)"
    by (rule ext) (simp add: l(2) st1(1))
  show ?thesis
  proof (cases "gate_fails env (p, a)")
    case False
    then show ?thesis
      unfolding gate using recorded ok ok1 loaded upd st1 by (cases a) simp_all
  qed (simp add: gate)
qed

text \<open>A run of gates: the first one that throws ends it.\<close>

fun run_gates ::
  "(string \<Rightarrow> bool) \<Rightarrow> string option \<Rightarrow> process_env \<Rightarrow> (string \<times> bool) list \<Rightarrow> gate_state \<Rightarrow> gate_error + gate_state" where
  "run_gates w sink penv [] st = Inr st"
| "run_gates w sink penv ((p, a) # cs) st =
     ebind (behaviorGate w sink penv p a st) (\<lambda>(b, st'). run_gates w sink penv cs st')"

lemma run_gates_rows:
  assumes "loadEnv penv st = Inr (env, st1)" and "gate_rows_ok env st"
  shows "case run_gates w sink penv cs st of
           Inl e \<Rightarrow> \<exists>c \<in> set cs. gate_fails env c
         | Inr st' \<Rightarrow> (\<forall>c \<in> set cs. \<not> gate_fails env c) \<and>
             (\<forall>i. map_of (ls_ledger (gt_ledger st')) i =
                (if \<exists>p. i = profileRequirementId p \<and> (p, False) \<in> set cs
                 then (let p = drop (length ''openwop.profile.'') i in
                       Some (make_entry i (gate_disposition env p) (Some (gate_detail env p)) no_extras))
                 else map_of (ls_ledger (gt_ledger st)) i))"
  using assms
proof (induction cs arbitrary: st st1)
  case (Cons c cs)
  obtain p a where c: "c = (p, a)" by (cases c)
  show ?case
  proof (cases "behaviorGate w sink penv p a st")
    case (Inl e)
    with gate_step [OF Cons.prems, where w = w and sink = sink and p = p and a = a] show ?thesis by (simp add: c)
  next
    case (Inr r)
    obtain b st2 where r: "r = (b, st2)" by (cases r)
    have step: "\<not> gate_fails env (p, a)" "loadEnv penv st2 = Inr (env, st2)" "gate_rows_ok env st2"
      and m: "map_of (ls_ledger (gt_ledger st2)) =
               (if a then map_of (ls_ledger (gt_ledger st))
                else (map_of (ls_ledger (gt_ledger st)))(profileRequirementId p \<mapsto>
                  make_entry (profileRequirementId p) (gate_disposition env p) (Some (gate_detail env p)) no_extras))"
      using gate_step [OF Cons.prems, where w = w and sink = sink and p = p and a = a] Inr r by auto
    have drop: "drop (length ''openwop.profile.'') (profileRequirementId p) = p" by (simp add: profileRequirementId_def)
    show ?thesis
    proof (cases "run_gates w sink penv cs st2")
      case (Inl e)
      with Cons.IH [OF step(2,3)] Inr r show ?thesis by (auto simp: c)
    next
      case Inr': (Inr st3)
      have ih: "\<forall>c \<in> set cs. \<not> gate_fails env c" "\<forall>i. map_of (ls_ledger (gt_ledger st3)) i =
          (if \<exists>p. i = profileRequirementId p \<and> (p, False) \<in> set cs
           then (let p = drop (length ''openwop.profile.'') i in
                 Some (make_entry i (gate_disposition env p) (Some (gate_detail env p)) no_extras))
           else map_of (ls_ledger (gt_ledger st2)) i)"
        using Cons.IH [OF step(2,3)] unfolding Inr' by auto
      have "run_gates w sink penv (c # cs) st = Inr st3" using Inr r Inr' by (simp add: c)
      then show ?thesis using step(1) ih drop by (auto simp: c m profile_ids_inj Let_def)
    qed
  qed
qed simp

text \<open>
  A run of gates over a ledger with no foreign profile rows throws exactly when some gate is
  advertised and opted out at once, or is required, not advertised and not opted out; otherwise every
  profile gated while not advertised has a row saying why it was left out, \<open>skipped\<close> for an
  opt-out and \<open>inapplicable\<close> for the rest, and every other row is untouched.
\<close>

theorem gates_decide_and_record:
  assumes "loadEnv penv st = Inr (env, st1)" and "gate_rows_ok env st"
  shows "((\<exists>e. run_gates w sink penv cs st = Inl e) \<longleftrightarrow> (\<exists>c \<in> set cs. gate_fails env c)) \<and>
         (\<forall>st' p. run_gates w sink penv cs st = Inr st' \<longrightarrow> (p, False) \<in> set cs \<longrightarrow>
            entryOf (gt_ledger st') (profileRequirementId p) =
              make_entry (profileRequirementId p) (gate_disposition env p) (Some (gate_detail env p)) no_extras) \<and>
         (\<forall>st' i. run_gates w sink penv cs st = Inr st' \<longrightarrow> (\<forall>p. (p, False) \<in> set cs \<longrightarrow> i \<noteq> profileRequirementId p) \<longrightarrow>
            entryOf (gt_ledger st') i = entryOf (gt_ledger st) i)"
proof -
  have drop: "drop (length ''openwop.profile.'') (profileRequirementId p) = p" for p
    by (simp add: profileRequirementId_def)
  note rows = run_gates_rows [OF assms, where w = w and sink = sink and cs = cs]
  show ?thesis
  proof (cases "run_gates w sink penv cs st")
    case (Inl e)
    with rows show ?thesis by auto
  next
    case (Inr st2)
    note m = rows [unfolded Inr sum.case]
    have "entryOf (gt_ledger st2) (profileRequirementId p) =
        make_entry (profileRequirementId p) (gate_disposition env p) (Some (gate_detail env p)) no_extras"
      if "(p, False) \<in> set cs" for p
      using m that drop by (auto simp: entryOf_def Let_def)
    moreover have "entryOf (gt_ledger st2) i = entryOf (gt_ledger st) i"
      if "\<forall>p. (p, False) \<in> set cs \<longrightarrow> i \<noteq> profileRequirementId p" for i
      using m that by (auto simp: entryOf_def)
    ultimately show ?thesis using m Inr by auto
  qed
qed

definition sample_env :: process_env where
  "sample_env =
     (\<lambda>n. if n = ''OPENWOP_BASE_URL'' then Some ''http://h/'' else if n = ''OPENWOP_API_KEY'' then Some ''k''
          else if n = ''OPENWOP_OPTED_OUT_PROFILES'' then Some ''p1, p2'' else None)"

definition fresh_gate :: gate_state where
  "fresh_gate = \<lparr>gt_cached = None, gt_ledger = \<lparr>ls_ledger = [], ls_journal = [], ls_suspendedSink = None, ls_files = []\<rparr>\<rparr>"

theorem gates_decide_and_record_witness:
  "\<exists>env st1. loadEnv sample_env fresh_gate = Inr (env, st1) \<and>
     ((\<exists>e. run_gates (\<lambda>_. True) None sample_env [(''p1'', True)] fresh_gate = Inl e) \<longleftrightarrow> gate_fails env (''p1'', True))"
proof -
  obtain env st1 where l: "loadEnv sample_env fresh_gate = Inr (env, st1)"
    by (auto simp: loadEnv_def fresh_gate_def read_env_def sample_env_def trimmed_def js_trim_def js_space_def)
  have ok: "gate_rows_ok env fresh_gate" by (simp add: gate_rows_ok_def fresh_gate_def)
  from gates_decide_and_record [OF l ok, where w = "\<lambda>_. True" and sink = None and cs = "[(''p1'', True)]"]
  have "(\<exists>e. run_gates (\<lambda>_. True) None sample_env [(''p1'', True)] fresh_gate = Inl e) \<longleftrightarrow> gate_fails env (''p1'', True)"
    by (elim conjE) (simp only: list.set bex_simps bex_empty simp_thms)
  with l show ?thesis by blast
qed

text \<open>
  An experimental scenario is left out without a trace unless it is asked for: the gate
  answers false and records no row, so the requirement of the profile reads as never exercised.
\<close>

theorem experimental_skip_leaves_no_row:
  assumes "loadEnv penv st = Inr (env, st1)" and "penv ''OPENWOP_REQUIRE_EXPERIMENTAL'' \<noteq> Some ''true''"
  shows "experimentalGate w sink penv p a (Some Experimental) st = Inr (False, st1) \<and>
         gt_ledger st1 = gt_ledger st"
  using assms by (auto simp: experimentalGate_def loadEnv_def ebind_Inr_iff split: option.splits)

theorem experimental_skip_leaves_no_row_witness:
  "\<exists>st1. experimentalGate (\<lambda>_. True) None sample_env ''p'' True (Some Experimental) fresh_gate = Inr (False, st1)"
proof -
  obtain env st1 where l: "loadEnv sample_env fresh_gate = Inr (env, st1)"
    by (auto simp: loadEnv_def fresh_gate_def read_env_def sample_env_def trimmed_def js_trim_def js_space_def)
  have "sample_env ''OPENWOP_REQUIRE_EXPERIMENTAL'' \<noteq> Some ''true''" by (simp add: sample_env_def)
  from experimental_skip_leaves_no_row [OF l this] show ?thesis by blast
qed

end
