(* ===== verification/Webhook_Modal.thy ===== *)
theory Webhook_Modal
  imports Webhook_Verify Gate
begin

text \<open>
  The suite's webhook receiver with a behaviour per path (\<open>startModalReceiver\<close> of \<open>webhook-receiver.ts\<close>),
  its binding and its public front. The state is what the closure keeps, the recorded hits and the failure
  counts; a request is handled in one step. \<open>JSON.parse\<close> (\<open>parse\<close>), the URL parser (\<open>parse_url\<close>, giving
  protocol and host name) and the process environment are parameters.
\<close>

section \<open>Where the receiver listens\<close>

record binding_address =
  ba_bind :: string
  ba_advertise :: string

definition receiverBinding :: "process_env \<Rightarrow> binding_address" where
  "receiverBinding penv =
     (let advertise = trimmed (penv ''OPENWOP_CONFORMANCE_HARNESS_HOST'')
      in if advertise = [] then \<lparr>ba_bind = ''127.0.0.1'', ba_advertise = ''127.0.0.1''\<rparr>
         else \<lparr>ba_bind = ''0.0.0.0'', ba_advertise = advertise\<rparr>)"

datatype front_error = Not_a_url string | Not_https string | Not_public string

record front =
  fr_url :: string
  fr_tunnelled :: bool

definition loopback_host :: "string \<Rightarrow> bool" where
  "loopback_host h = (h = ''localhost'' \<or> h = ''::1'' \<or> starts_with ''127.'' h)"

text \<open>\<open>172.16.\<close> to \<open>172.31.\<close>.\<close>

definition private_172 :: "string \<Rightarrow> bool" where
  "private_172 h =
     ((case h of
         a # b # _ \<Rightarrow> (a = CHR ''1'' \<and> b \<in> set ''6789'') \<or> (a = CHR ''2'' \<and> is_digit b) \<or> (a = CHR ''3'' \<and> b \<in> set ''01'')
       | _ \<Rightarrow> False) \<and> take 1 (drop 2 h) = ''.'')"

definition private_host :: "string \<Rightarrow> bool" where
  "private_host h =
     (starts_with ''10.'' h \<or> starts_with ''192.168.'' h \<or> (starts_with ''172.'' h \<and> private_172 (drop 4 h)) \<or>
      starts_with ''169.254.'' h \<or> starts_with ''fc'' h \<or> starts_with ''fd'' h)"

definition strip_slashes :: "string \<Rightarrow> string" where
  "strip_slashes s = rev (dropWhile (\<lambda>c. c = CHR ''/'') (rev s))"

definition resolvePublicFront ::
  "process_env \<Rightarrow> (string \<Rightarrow> (string \<times> string) option) \<Rightarrow> string \<Rightarrow> string \<Rightarrow> front_error + front" where
  "resolvePublicFront penv parse_url envName localUrl =
     (let raw = trimmed (penv envName) in
      if raw = [] then Inr \<lparr>fr_url = localUrl, fr_tunnelled = False\<rparr>
      else case parse_url raw of
          None \<Rightarrow> Inl (Not_a_url envName)
        | Some (protocol, hostname) \<Rightarrow>
            if protocol \<noteq> ''https:'' then Inl (Not_https envName)
            else let host = map ascii_lower hostname in
              if loopback_host host \<or> private_host host then Inl (Not_public envName)
              else Inr \<lparr>fr_url = (if envName = ''OPENWOP_WEBHOOK_RECEIVER_URL'' then raw else strip_slashes raw), fr_tunnelled = True\<rparr>)"

definition resolveRegistrationUrl :: "process_env \<Rightarrow> (string \<Rightarrow> (string \<times> string) option) \<Rightarrow> string \<Rightarrow> front_error + front" where
  "resolveRegistrationUrl penv parse_url localUrl = resolvePublicFront penv parse_url ''OPENWOP_WEBHOOK_RECEIVER_URL'' localUrl"

section \<open>The modal receiver\<close>

record modal_request =
  mr_url :: "string option"
  mr_method :: "string option"
  mr_headers :: header_bag
  mr_body :: string

record modal_hit =
  mh_mode :: string
  mh_path :: string
  mh_method :: string
  mh_headers :: header_bag
  mh_body :: string
  mh_status :: nat
  mh_verification :: bool
  mh_at :: int

record modal_response =
  ms_status :: nat
  ms_json :: "json option"
  ms_location :: "string option"

record modal_state =
  md_hits :: "modal_hit list"
  md_failures :: "(string \<times> nat) list"

definition modal_path :: "modal_request \<Rightarrow> string" where
  "modal_path r = (case mr_url r of None \<Rightarrow> ''/'' | Some u \<Rightarrow> u)"

text \<open>The segment after the nonce.\<close>

definition modal_mode :: "string \<Rightarrow> modal_request \<Rightarrow> string" where
  "modal_mode nonce r =
     (let segs = filter (\<lambda>x. x \<noteq> []) (split_char (CHR ''/'') (takeWhile (\<lambda>c. c \<noteq> CHR ''?'') (modal_path r)))
      in case dropWhile (\<lambda>x. x \<noteq> nonce) segs of _ # m # _ \<Rightarrow> m | _ \<Rightarrow> [])"

definition parsed_body :: "(string \<Rightarrow> json option) \<Rightarrow> modal_request \<Rightarrow> jobject option" where
  "parsed_body parse r = (case parse (mr_body r) of Some (JObj es) \<Rightarrow> Some es | _ \<Rightarrow> None)"

definition body_member :: "jobject option \<Rightarrow> string \<Rightarrow> json option" where
  "body_member p k = (case p of None \<Rightarrow> None | Some es \<Rightarrow> js_get es k)"

definition is_verification :: "(string \<Rightarrow> json option) \<Rightarrow> modal_request \<Rightarrow> bool" where
  "is_verification parse r = (body_member (parsed_body parse r) ''type'' = Some (JStr ''openwop.webhook.verification''))"

definition body_challenge :: "(string \<Rightarrow> json option) \<Rightarrow> modal_request \<Rightarrow> string option" where
  "body_challenge parse r = (case body_member (parsed_body parse r) ''challenge'' of Some (JStr s) \<Rightarrow> Some s | _ \<Rightarrow> None)"

text \<open>\<open>String(v ?? '')\<close>.\<close>

definition text_or_empty :: "json option \<Rightarrow> string" where
  "text_or_empty v = (case v of None \<Rightarrow> [] | Some JNull \<Rightarrow> [] | Some w \<Rightarrow> js_string w)"

definition event_sequence :: "json option \<Rightarrow> json option" where
  "event_sequence ev = (case ev of Some (JObj es) \<Rightarrow> js_get es ''sequence'' | _ \<Rightarrow> None)"

definition delivery_key :: "(string \<Rightarrow> json option) \<Rightarrow> modal_request \<Rightarrow> string" where
  "delivery_key parse r =
     (let webhook = (case header (mr_headers r) ''openwop-webhook-id'' of
                       Some s \<Rightarrow> s
                     | None \<Rightarrow> (case header (mr_headers r) ''x-openwop-webhook-id'' of Some s \<Rightarrow> s | None \<Rightarrow> []));
          p = parsed_body parse r
      in webhook @ ''|'' @ text_or_empty (body_member p ''runId'') @ ''|'' @ text_or_empty (event_sequence (body_member p ''event'')))"

text \<open>\<open>s.replace(p, q)\<close> with strings: the first occurrence.\<close>

definition replace_first :: "string \<Rightarrow> string \<Rightarrow> string \<Rightarrow> string" where
  "replace_first p q s = (case index_of p s of None \<Rightarrow> s | Some i \<Rightarrow> take i s @ q @ drop (i + length p) s)"

text \<open>What is answered, given how often this delivery was tried before.\<close>

definition modal_answer :: "string \<Rightarrow> (string \<Rightarrow> json option) \<Rightarrow> nat \<Rightarrow> modal_request \<Rightarrow> modal_response" where
  "modal_answer nonce parse tried r =
     (let mode = modal_mode nonce r; verification = is_verification parse r; challenge = body_challenge parse r;
          answer = (\<lambda>status v. \<lparr>ms_status = status, ms_json = Some v, ms_location = None\<rparr>);
          silent = (\<lambda>status. \<lparr>ms_status = status, ms_json = None, ms_location = None\<rparr>);
          echo = JObj (member_of ''challenge'' JStr challenge)
      in if mode = ''echo'' \<or> mode = ''redirect-target'' then (if verification then answer 200 echo else silent 204)
         else if mode = ''no-echo'' then (if verification then answer 200 (JObj []) else silent 204)
         else if mode = ''wrong-echo'' then
           (if verification
            then answer 200 (JObj [(''challenge'', JStr (case challenge of None \<Rightarrow> ''not-the-challenge'' | Some c \<Rightarrow> c @ ''x''))])
            else silent 204)
         else if mode = ''redirect'' then
           \<lparr>ms_status = 307, ms_json = None,
            ms_location = Some (replace_first (''/'' @ nonce @ ''/redirect'') (''/'' @ nonce @ ''/redirect-target'') (modal_path r))\<rparr>
         else if mode = ''fail2'' then
           (if verification then answer 200 echo else silent (if tried + 1 \<le> 2 then 500 else 204))
         else silent 404)"

definition counted :: "string \<Rightarrow> (string \<Rightarrow> json option) \<Rightarrow> modal_request \<Rightarrow> bool" where
  "counted nonce parse r = (modal_mode nonce r = ''fail2'' \<and> \<not> is_verification parse r)"

definition modal_handle ::
  "string \<Rightarrow> (string \<Rightarrow> json option) \<Rightarrow> int \<Rightarrow> modal_request \<Rightarrow> modal_state \<Rightarrow> modal_response \<times> modal_state" where
  "modal_handle nonce parse clock r st =
     (let key = delivery_key parse r;
          tried = (case map_of (md_failures st) key of None \<Rightarrow> 0 | Some n \<Rightarrow> n);
          response = modal_answer nonce parse tried r
      in (response,
          \<lparr>md_hits = md_hits st @
             [\<lparr>mh_mode = modal_mode nonce r, mh_path = modal_path r,
               mh_method = (case mr_method r of None \<Rightarrow> [] | Some m \<Rightarrow> m), mh_headers = mr_headers r, mh_body = mr_body r,
               mh_status = ms_status response, mh_verification = is_verification parse r, mh_at = clock\<rparr>],
           md_failures = (if counted nonce parse r then AList.update key (tried + 1) (md_failures st) else md_failures st)\<rparr>))"

fun modal_run ::
  "string \<Rightarrow> (string \<Rightarrow> json option) \<Rightarrow> (int \<times> modal_request) list \<Rightarrow> modal_state \<Rightarrow> modal_response list \<times> modal_state" where
  "modal_run nonce parse [] st = ([], st)"
| "modal_run nonce parse ((clock, r) # rs) st =
     (case modal_handle nonce parse clock r st of (response, st') \<Rightarrow>
        (case modal_run nonce parse rs st' of (responses, st'') \<Rightarrow> (response # responses, st'')))"

definition modal_start :: modal_state where
  "modal_start = \<lparr>md_hits = [], md_failures = []\<rparr>"

text \<open>The URL a host is given for a mode.\<close>

definition url_for :: "process_env \<Rightarrow> (string \<Rightarrow> (string \<times> string) option) \<Rightarrow> string \<Rightarrow> string \<Rightarrow> string \<Rightarrow> front_error + front" where
  "url_for penv parse_url local nonce mode =
     ebind (resolveRegistrationUrl penv parse_url (local @ ''/'')) (\<lambda>f.
       Inr \<lparr>fr_url = strip_slashes (fr_url f) @ ''/'' @ nonce @ ''/'' @ mode, fr_tunnelled = fr_tunnelled f\<rparr>)"

section \<open>Every request is recorded\<close>

lemma modal_run_append:
  "modal_run nonce parse (rs @ [(clock, r)]) st =
     (case modal_run nonce parse rs st of (responses, st') \<Rightarrow>
        (case modal_handle nonce parse clock r st' of (response, st'') \<Rightarrow> (responses @ [response], st'')))"
  by (induction nonce parse rs st rule: modal_run.induct) (auto split: prod.splits)

lemma hits_follow:
  "map (\<lambda>h. (mh_path h, mh_body h, mh_status h)) (md_hits (snd (modal_run nonce parse rs st))) =
     map (\<lambda>h. (mh_path h, mh_body h, mh_status h)) (md_hits st) @
     map2 (\<lambda>(clock, r) a. (modal_path r, mr_body r, ms_status a)) rs (fst (modal_run nonce parse rs st)) \<and>
   length (fst (modal_run nonce parse rs st)) = length rs"
proof (induction nonce parse rs st rule: modal_run.induct)
  case (2 nonce parse clock r rs st)
  obtain a st' where h: "modal_handle nonce parse clock r st = (a, st')" by (cases "modal_handle nonce parse clock r st")
  obtain as st'' where t: "modal_run nonce parse rs st' = (as, st'')" by (cases "modal_run nonce parse rs st'")
  have "map (\<lambda>h. (mh_path h, mh_body h, mh_status h)) (md_hits st') =
      map (\<lambda>h. (mh_path h, mh_body h, mh_status h)) (md_hits st) @ [(modal_path r, mr_body r, ms_status a)]"
    using h by (auto simp: modal_handle_def Let_def)
  with 2 [OF h [symmetric]] h t show ?case by simp
qed simp

text \<open>
  Whatever requests arrive, in whatever mode, each is recorded exactly once, in order, with the
  status it was answered.
\<close>

theorem every_request_recorded:
  "map (\<lambda>h. (mh_path h, mh_body h, mh_status h)) (md_hits (snd (modal_run nonce parse rs modal_start))) =
     map2 (\<lambda>(clock, r) a. (modal_path r, mr_body r, ms_status a)) rs (fst (modal_run nonce parse rs modal_start)) \<and>
   length (md_hits (snd (modal_run nonce parse rs modal_start))) = length rs"
proof -
  let ?hits = "md_hits (snd (modal_run nonce parse rs modal_start))" and ?pairs = "map2 (\<lambda>(clock, r) a. (modal_path r, mr_body r, ms_status a)) rs
      (fst (modal_run nonce parse rs modal_start))"
  have f: "map (\<lambda>h. (mh_path h, mh_body h, mh_status h)) ?hits = ?pairs" "length ?pairs = length rs"
    using hits_follow [of nonce parse rs modal_start] by (simp_all add: modal_start_def)
  have "length ?hits = length ?pairs" using arg_cong [OF f(1), of length] by (simp only: length_map)
  then show ?thesis by (intro conjI f(1)) (simp only: f(2))
qed

section \<open>A delivery fails twice\<close>

definition same_delivery :: "string \<Rightarrow> (string \<Rightarrow> json option) \<Rightarrow> modal_request \<Rightarrow> int \<times> modal_request \<Rightarrow> bool" where
  "same_delivery nonce parse r q = (counted nonce parse (snd q) \<and> delivery_key parse (snd q) = delivery_key parse r)"

definition tries_of :: "modal_state \<Rightarrow> string \<Rightarrow> nat" where
  "tries_of st k = (case map_of (md_failures st) k of None \<Rightarrow> 0 | Some n \<Rightarrow> n)"

lemma tries_step:
  "tries_of (snd (modal_handle nonce parse clock q st)) (delivery_key parse r) =
     tries_of st (delivery_key parse r) + (if same_delivery nonce parse r (clock, q) then 1 else 0)"
  by (simp add: modal_handle_def tries_of_def same_delivery_def Let_def)

lemma tries_counted:
  "tries_of (snd (modal_run nonce parse rs modal_start)) (delivery_key parse r) =
     length (filter (same_delivery nonce parse r) rs)"
proof (induction rs rule: rev_induct)
  case Nil
  then show ?case by (simp add: tries_of_def modal_start_def)
next
  case (snoc q rs)
  obtain clock q' where q: "q = (clock, q')" by (cases q)
  have "snd (modal_run nonce parse (rs @ [q]) modal_start) = snd (modal_handle nonce parse clock q' (snd (modal_run nonce parse rs modal_start)))"
    by (simp add: q modal_run_append split: prod.splits)
  then show ?case using snoc tries_step [of nonce parse clock q'] by (simp add: q)
qed

lemma fail_status:
  "counted nonce parse r \<Longrightarrow>
   ms_status (fst (modal_handle nonce parse clock r st)) = (if tries_of st (delivery_key parse r) < 2 then 500 else 204)"
  by (auto simp: counted_def modal_handle_def modal_answer_def tries_of_def Let_def)

text \<open>
  In the failing mode each delivery (webhook, run and sequence) is refused twice and accepted from
  the third attempt on, whatever other deliveries, verifications and modes are interleaved with it.
\<close>

theorem failing_mode_fails_twice:
  assumes "counted nonce parse r"
  shows "ms_status (fst (modal_handle nonce parse clock r (snd (modal_run nonce parse rs modal_start)))) =
     (if length (filter (same_delivery nonce parse r) rs) < 2 then 500 else 204)"
  using fail_status [OF assms] by (simp add: tries_counted)

definition sample_request :: modal_request where
  "sample_request = \<lparr>mr_url = Some ''/ab/fail2'', mr_method = Some ''POST'', mr_headers = [], mr_body = []\<rparr>"

lemma sample_counted: "counted ''ab'' (\<lambda>_. None) sample_request"
  by (simp add: counted_def modal_mode_def modal_path_def sample_request_def is_verification_def parsed_body_def body_member_def)

theorem failing_mode_fails_twice_witness:
  "ms_status (fst (modal_handle ''ab'' (\<lambda>_. None) 0 sample_request
     (snd (modal_run ''ab'' (\<lambda>_. None) [(0, sample_request), (1, sample_request)] modal_start)))) = 204"
  using failing_mode_fails_twice [OF sample_counted, of 0 "[(0, sample_request), (1, sample_request)]"] sample_counted
  by (simp add: same_delivery_def)

section \<open>Routing by the path\<close>

lemma segments_after:
  "filter (\<lambda>x. x \<noteq> []) (split_char (CHR ''/'') (p @ CHR ''/'' # q)) =
     filter (\<lambda>x. x \<noteq> []) (split_char (CHR ''/'') p) @ filter (\<lambda>x. x \<noteq> []) (split_char (CHR ''/'') q)"
  by (simp add: split_char_append)

text \<open>
  A request to the URL handed out for a mode is handled in that mode, behind any path prefix of a
  public front that does not itself contain the nonce.
\<close>

theorem mode_travels_in_url:
  assumes "mr_url r = Some (prefix @ ''/'' @ nonce @ ''/'' @ mode)" and "CHR ''?'' \<notin> set (prefix @ nonce @ mode)"
    and "CHR ''/'' \<notin> set (nonce @ mode)" and "nonce \<noteq> [] \<and> mode \<noteq> []" and "nonce \<notin> set (split_char (CHR ''/'') prefix)"
  shows "modal_mode nonce r = mode"
proof -
  let ?path = "prefix @ CHR ''/'' # nonce @ CHR ''/'' # mode"
  let ?segs = "filter (\<lambda>x. x \<noteq> []) (split_char (CHR ''/'') prefix)"
  have "takeWhile (\<lambda>c. c \<noteq> CHR ''?'') ?path = ?path" using assms(2) by (intro takeWhile_none) auto
  then have path: "takeWhile (\<lambda>c. c \<noteq> CHR ''?'') (modal_path r) = ?path" using assms(1) by (simp only: modal_path_def) simp
  have "filter (\<lambda>x. x \<noteq> []) (split_char (CHR ''/'') ?path) = ?segs @ [nonce, mode]"
    using assms(3,4) by (simp add: segments_after split_char_append split_char_single)
  moreover have "dropWhile (\<lambda>x. x \<noteq> nonce) (?segs @ [nonce, mode]) = [nonce, mode]"
    using assms(5) by (subst dropWhile_append2) auto
  ultimately show ?thesis unfolding modal_mode_def path Let_def by simp
qed

theorem mode_travels_in_url_witness: "modal_mode ''ab'' (sample_request\<lparr>mr_url := Some ''/t/ab/echo''\<rparr>) = ''echo''"
  by (rule mode_travels_in_url [where prefix = "''/t''"]) (simp_all add: sample_request_def)

section \<open>The public front\<close>

text \<open>
  A front is handed out exactly for an https URL whose host name is neither a loopback nor a
  private one as the text tests see it; without one the local address is used.
\<close>

theorem public_front_iff:
  "(\<exists>f. resolvePublicFront penv parse_url envName localUrl = Inr f \<and> fr_tunnelled f) \<longleftrightarrow>
     trimmed (penv envName) \<noteq> [] \<and>
     (case parse_url (trimmed (penv envName)) of
        None \<Rightarrow> False
      | Some (protocol, h) \<Rightarrow> protocol = ''https:'' \<and> \<not> loopback_host (map ascii_lower h) \<and> \<not> private_host (map ascii_lower h))"
  by (auto simp: resolvePublicFront_def Let_def split: option.splits)

text \<open>
  The text tests: the URL parser gives an IPv6 host in brackets, so its loopback and private addresses
  pass, and public names that begin with \<open>fc\<close> or \<open>fd\<close> do not.
\<close>

lemma bracketed_hosts:
  "\<not> loopback_host ''[::1]'' \<and> \<not> private_host ''[::1]'' \<and> \<not> private_host ''[fd00::1]'' \<and> private_host ''fdroid.org''"
  by (simp add: loopback_host_def private_host_def starts_with_def)

end
