(* ===== verification/Retry_Window.thy ===== *)
theory Retry_Window
  imports Webhook_Modal
begin

text \<open>
  How long a webhook scenario waits (\<open>webhook-retry-window.ts\<close>): the operator's cap, the host's advertised
  bound, the window chosen from both, the branch it was chosen by and the timeout of a test that waits.
  The notes printed beside a row are not modelled.
\<close>

section \<open>Definitions\<close>

definition RETRY_WAIT_FLOOR_MS :: int where "RETRY_WAIT_FLOOR_MS = 20000"

definition DEFAULT_RETRY_WAIT_CAP_MS :: int where "DEFAULT_RETRY_WAIT_CAP_MS = 90000"

definition MAX_RETRY_WAIT_CAP_MS :: int where "MAX_RETRY_WAIT_CAP_MS = 3600000"

definition RETRY_WAIT_ENV :: string where "RETRY_WAIT_ENV = ''OPENWOP_WEBHOOK_RETRY_WAIT_MS''"

definition ADVERTISED_BOUND_GRACE_MS :: int where "ADVERTISED_BOUND_GRACE_MS = 30000"

definition MAX_RETRY_WAIT_MS :: int where "MAX_RETRY_WAIT_MS = MAX_RETRY_WAIT_CAP_MS"

lemmas retry_constants =
  RETRY_WAIT_FLOOR_MS_def DEFAULT_RETRY_WAIT_CAP_MS_def MAX_RETRY_WAIT_CAP_MS_def ADVERTISED_BOUND_GRACE_MS_def MAX_RETRY_WAIT_MS_def

record advertised_policy =
  rp_backoff :: "string option"
  rp_maxElapsedMs :: "json option"

definition advertisedMaxElapsedMs :: "advertised_policy option \<Rightarrow> int option" where
  "advertisedMaxElapsedMs policy =
     (case policy of
        None \<Rightarrow> None
      | Some p \<Rightarrow> (case rp_maxElapsedMs p of Some (JNum v) \<Rightarrow> if 1 \<le> v then Some v else None | _ \<Rightarrow> None))"

definition pastAdvertisedBound :: "advertised_policy option \<Rightarrow> int \<Rightarrow> bool" where
  "pastAdvertisedBound policy waitedMs =
     (case advertisedMaxElapsedMs policy of None \<Rightarrow> False | Some b \<Rightarrow> b + ADVERTISED_BOUND_GRACE_MS \<le> waitedMs)"

text \<open>\<open>Math.floor\<close> of a number that is not negative; a negative one is below every cap.\<close>

definition floor_scaled :: "nat \<Rightarrow> int \<Rightarrow> nat option" where
  "floor_scaled m e = Some (if 0 \<le> e then m * 10 ^ nat e else m div 10 ^ nat (- e))"

definition retryWaitCapMs :: "process_env \<Rightarrow> int" where
  "retryWaitCapMs penv =
     (case (case penv RETRY_WAIT_ENV of None \<Rightarrow> None | Some s \<Rightarrow> number_with floor_scaled s) of
        None \<Rightarrow> DEFAULT_RETRY_WAIT_CAP_MS
      | Some raw \<Rightarrow> if raw < DEFAULT_RETRY_WAIT_CAP_MS then DEFAULT_RETRY_WAIT_CAP_MS else min raw MAX_RETRY_WAIT_CAP_MS)"

definition backs_off :: "advertised_policy \<Rightarrow> bool" where
  "backs_off p = (rp_backoff p = Some ''exponential'' \<or> rp_backoff p = Some ''fixed'')"

definition retryWaitFor :: "advertised_policy option \<Rightarrow> int \<Rightarrow> int" where
  "retryWaitFor policy capMs =
     (case policy of
        None \<Rightarrow> RETRY_WAIT_FLOOR_MS
      | Some p \<Rightarrow>
          (case advertisedMaxElapsedMs policy of
             Some b \<Rightarrow> min MAX_RETRY_WAIT_MS (max (b + ADVERTISED_BOUND_GRACE_MS) capMs)
           | None \<Rightarrow> if backs_off p then min MAX_RETRY_WAIT_MS capMs else RETRY_WAIT_FLOOR_MS))"

definition retryTestTimeoutMs :: "int \<Rightarrow> int \<Rightarrow> int" where
  "retryTestTimeoutMs waits slackMs = waits * MAX_RETRY_WAIT_MS + slackMs"

datatype retry_wait_path = Advertised_bound | Cap | Floor

record retry_selection =
  rt_path :: retry_wait_path
  rt_windowMs :: int
  rt_maxElapsedMs :: "int option"
  rt_capMs :: int

definition retryWaitSelection :: "advertised_policy option \<Rightarrow> int \<Rightarrow> retry_selection" where
  "retryWaitSelection policy capMs =
     (let windowMs = retryWaitFor policy capMs; b = advertisedMaxElapsedMs policy;
          path = (case policy of
                    None \<Rightarrow> Floor
                  | Some p \<Rightarrow>
                      (case b of
                         Some v \<Rightarrow> if capMs \<le> v + ADVERTISED_BOUND_GRACE_MS then Advertised_bound else Cap
                       | None \<Rightarrow> if backs_off p then Cap else Floor))
      in \<lparr>rt_path = path, rt_windowMs = windowMs, rt_maxElapsedMs = (if policy = None then None else b), rt_capMs = capMs\<rparr>)"

section \<open>Bounds\<close>

lemma cap_bounds: "DEFAULT_RETRY_WAIT_CAP_MS \<le> retryWaitCapMs penv \<and> retryWaitCapMs penv \<le> MAX_RETRY_WAIT_CAP_MS"
  by (auto simp: retryWaitCapMs_def retry_constants split: option.splits)

text \<open>
  Claim C38: whatever the environment says and the host advertises, the cap is never lowered below its
  default nor raised over an hour, the wait lies between the floor and an hour, and any number of waits fits
  in the timeout of the test that makes them.
\<close>

theorem wait_is_bounded:
  "DEFAULT_RETRY_WAIT_CAP_MS \<le> retryWaitCapMs penv \<and> retryWaitCapMs penv \<le> MAX_RETRY_WAIT_CAP_MS \<and>
   RETRY_WAIT_FLOOR_MS \<le> retryWaitFor policy (retryWaitCapMs penv) \<and> retryWaitFor policy (retryWaitCapMs penv) \<le> MAX_RETRY_WAIT_MS \<and>
   int waits * retryWaitFor policy (retryWaitCapMs penv) + slackMs \<le> retryTestTimeoutMs (int waits) slackMs"
proof -
  note c = cap_bounds [of penv]
  have w: "RETRY_WAIT_FLOOR_MS \<le> retryWaitFor policy (retryWaitCapMs penv)" "retryWaitFor policy (retryWaitCapMs penv) \<le> MAX_RETRY_WAIT_MS"
    using c by (auto simp: retryWaitFor_def retry_constants split: option.splits)
  then have "int waits * retryWaitFor policy (retryWaitCapMs penv) \<le> int waits * MAX_RETRY_WAIT_MS"
    by (intro mult_left_mono) simp_all
  with c w show ?thesis by (simp add: retryTestTimeoutMs_def)
qed

text \<open>
  A wait can convict a host on its own advertised bound exactly when the bound with its grace fits
  in an hour; a host that advertises more is never convicted.
\<close>

theorem wait_passes_bound_iff:
  "pastAdvertisedBound policy (retryWaitFor policy (retryWaitCapMs penv)) \<longleftrightarrow>
     (case advertisedMaxElapsedMs policy of None \<Rightarrow> False | Some b \<Rightarrow> b + ADVERTISED_BOUND_GRACE_MS \<le> MAX_RETRY_WAIT_MS)"
  using cap_bounds [of penv]
  by (auto simp: pastAdvertisedBound_def retryWaitFor_def advertisedMaxElapsedMs_def split: option.splits json.splits if_splits)

text \<open>
  The branch a row reports is the one that set its window: the bound with its grace, the cap
  (both at most an hour), or the floor.
\<close>

theorem reported_path_set_window:
  "rt_windowMs (retryWaitSelection policy capMs) =
     (case rt_path (retryWaitSelection policy capMs) of
        Advertised_bound \<Rightarrow>
          (case advertisedMaxElapsedMs policy of None \<Rightarrow> 0 | Some b \<Rightarrow> min MAX_RETRY_WAIT_MS (b + ADVERTISED_BOUND_GRACE_MS))
      | Cap \<Rightarrow> min MAX_RETRY_WAIT_MS capMs
      | Floor \<Rightarrow> RETRY_WAIT_FLOOR_MS)"
  by (auto simp: retryWaitSelection_def retryWaitFor_def advertisedMaxElapsedMs_def Let_def max_def split: option.splits json.splits if_splits)

end
