(* ===== verification/Cli_Args.thy ===== *)
theory Cli_Args
  imports Bundle_V3_Seal Retry_Window
begin

text \<open>
  The command line of the suite (\<open>cli.ts\<close>, with \<open>child-env.ts\<close> and \<open>pinned-ports.ts\<close>): the argument
  parser, the worker cap, and what \<open>main\<close> decides to do. \<open>process.exit(n)\<close> is \<open>Inl n\<close>; usage messages
  are dropped. The environment is the list of its variables. The one assignment the parser makes to
  \<open>process.env\<close> (\<open>--require-behavior\<close>) is a field of its state.
\<close>

section \<open>The argument parser\<close>

type_synonym 'a or_exit = "nat + 'a"

record parsed_args =
  pa_baseUrl :: "string option"
  pa_apiKey :: "string option"
  pa_offline :: bool
  pa_filter :: "string option"
  pa_targetMajor :: "nat option"
  pa_help :: bool
  pa_impl :: "string option"
  pa_implVersion :: "string option"
  pa_certify :: "string option"
  pa_bundleVersion :: string
  pa_hostBuild :: "build3 option"
  pa_evidenceTier :: string
  pa_signingKeyPath :: "string option"
  pa_signingKeyId :: "string option"
  pa_verifierKeyPath :: "string option"
  pa_verifyPath :: "string option"
  pa_verifyHostKeyPath :: "string option"
  pa_colocatedCompanion :: bool
  pa_verifierKeyId :: "string option"
  pa_maxWorkers :: "int option"

record parse_state = parsed_args +
  ps_requireBehavior :: bool

definition no_args :: "int option \<Rightarrow> parse_state" where
  "no_args workers =
     \<lparr>pa_baseUrl = None, pa_apiKey = None, pa_offline = False, pa_filter = None, pa_targetMajor = None, pa_help = False,
      pa_impl = None, pa_implVersion = None, pa_certify = None, pa_bundleVersion = ''3'', pa_hostBuild = None,
      pa_evidenceTier = ''self'', pa_signingKeyPath = None, pa_signingKeyId = None, pa_verifierKeyPath = None,
      pa_verifyPath = None, pa_verifyHostKeyPath = None, pa_colocatedCompanion = False, pa_verifierKeyId = None,
      pa_maxWorkers = workers, ps_requireBehavior = False\<rparr>"

definition parseMaxWorkers :: "string option \<Rightarrow> int option or_exit" where
  "parseMaxWorkers raw =
     (case raw of
        None \<Rightarrow> Inr None
      | Some s \<Rightarrow>
          if s = [] then Inr None
          else case js_integer s of
            None \<Rightarrow> Inl 2
          | Some n \<Rightarrow> if n < 1 then Inl 2 else Inr (Some n))"

definition maxWorkersArgs :: "int option \<Rightarrow> string list" where
  "maxWorkersArgs w = (case w of None \<Rightarrow> [] | Some n \<Rightarrow> [''--maxWorkers'', int_str n])"

text \<open>The regular expression of a build identity: a known kind, a colon and a text on one line.\<close>

definition build_kinds :: "string list" where
  "build_kinds = [''image-digest'', ''commit'', ''artifact-sha256'']"

definition line_end :: "char \<Rightarrow> bool" where
  "line_end c = (c = CHR 0x0A \<or> c = CHR 0x0D)"

definition host_build :: "string \<Rightarrow> build3 option" where
  "host_build v =
     (case find (\<lambda>k. starts_with (k @ '':'') v) build_kinds of
        None \<Rightarrow> None
      | Some k \<Rightarrow>
          let i = drop (Suc (length k)) v in
          if i \<noteq> [] \<and> (\<forall>c \<in> set i. \<not> line_end c) then Some \<lparr>bd_kind = k, bd_id = i\<rparr> else None)"

text \<open>\<open>arg.indexOf('=')\<close>: the flag and the inline value.\<close>

definition flag_name :: "string \<Rightarrow> string" where
  "flag_name a = takeWhile (\<lambda>c. c \<noteq> CHR ''='') a"

definition inline_value :: "string \<Rightarrow> string option" where
  "inline_value a = (if CHR ''='' \<in> set a then Some (tl (dropWhile (\<lambda>c. c \<noteq> CHR ''='') a)) else None)"

text \<open>\<open>nextValue()\<close>, and \<open>argv[++i]\<close>: the value and the arguments that are left.\<close>

definition next_value :: "string \<Rightarrow> string list \<Rightarrow> string option \<times> string list" where
  "next_value a rest =
     (case inline_value a of
        Some v \<Rightarrow> (Some v, rest)
      | None \<Rightarrow> (case rest of
          [] \<Rightarrow> (None, [])
        | n # ns \<Rightarrow> if starts_with ''-'' n then (None, rest) else (Some n, ns)))"

definition forced_value :: "string list \<Rightarrow> string option \<times> string list" where
  "forced_value rest = (case rest of [] \<Rightarrow> (None, []) | n # ns \<Rightarrow> (Some n, ns))"

text \<open>The flags with a value: how it is taken, and what it does.\<close>

definition value_flags :: "(string \<times> (string option \<Rightarrow> parse_state \<Rightarrow> parse_state or_exit)) list" where
  "value_flags =
     [(''--base-url'', \<lambda>v s. Inr (s\<lparr>pa_baseUrl := v\<rparr>)),
      (''--api-key'', \<lambda>v s. Inr (s\<lparr>pa_apiKey := v\<rparr>)),
      (''--filter'', \<lambda>v s. Inr (s\<lparr>pa_filter := v\<rparr>)),
      (''--impl'', \<lambda>v s. Inr (s\<lparr>pa_impl := v\<rparr>)),
      (''--implementation-name'', \<lambda>v s. Inr (s\<lparr>pa_impl := v\<rparr>)),
      (''--impl-version'', \<lambda>v s. Inr (s\<lparr>pa_implVersion := v\<rparr>)),
      (''--implementation-version'', \<lambda>v s. Inr (s\<lparr>pa_implVersion := v\<rparr>)),
      (''--certify'', \<lambda>v s. Inr (s\<lparr>pa_certify := v\<rparr>)),
      (''--max-workers'', \<lambda>v s. ebind (parseMaxWorkers v) (\<lambda>w. Inr (s\<lparr>pa_maxWorkers := w\<rparr>))),
      (''--verify'', \<lambda>v s. Inr (s\<lparr>pa_verifyPath := v\<rparr>)),
      (''--host-key'', \<lambda>v s. Inr (s\<lparr>pa_verifyHostKeyPath := v\<rparr>))]"

definition forced_flags :: "(string \<times> (string option \<Rightarrow> parse_state \<Rightarrow> parse_state or_exit)) list" where
  "forced_flags =
     [(''--target-major'', \<lambda>v s.
         if v = Some ''1'' then Inr (s\<lparr>pa_targetMajor := Some 1\<rparr>)
         else if v = Some ''2'' then Inr (s\<lparr>pa_targetMajor := Some 2\<rparr>) else Inl 2),
      (''--bundle-version'', \<lambda>v s.
         case v of Some w \<Rightarrow> if w = ''2'' \<or> w = ''3'' then Inr (s\<lparr>pa_bundleVersion := w\<rparr>) else Inl 2 | None \<Rightarrow> Inl 2),
      (''--host-build'', \<lambda>v s.
         case host_build (or_default v []) of None \<Rightarrow> Inl 2 | Some b \<Rightarrow> Inr (s\<lparr>pa_hostBuild := Some b\<rparr>)),
      (''--evidence-tier'', \<lambda>v s.
         case v of
           Some t \<Rightarrow> if t \<in> set [''self'', ''steward'', ''independent''] then Inr (s\<lparr>pa_evidenceTier := t\<rparr>) else Inl 2
         | None \<Rightarrow> Inl 2),
      (''--signing-key'', \<lambda>v s. Inr (s\<lparr>pa_signingKeyPath := v\<rparr>)),
      (''--signing-key-id'', \<lambda>v s. Inr (s\<lparr>pa_signingKeyId := v\<rparr>)),
      (''--verifier-key'', \<lambda>v s. Inr (s\<lparr>pa_verifierKeyPath := v\<rparr>)),
      (''--verifier-key-id'', \<lambda>v s. Inr (s\<lparr>pa_verifierKeyId := v\<rparr>))]"

definition switches :: "(string \<times> (parse_state \<Rightarrow> parse_state)) list" where
  "switches =
     [(''--as-colocated-companion'', \<lambda>s. s\<lparr>pa_colocatedCompanion := True\<rparr>),
      (''--require-behavior'', \<lambda>s. s\<lparr>ps_requireBehavior := True\<rparr>)]"

definition parse_arg :: "parse_state \<Rightarrow> string \<Rightarrow> string list \<Rightarrow> (parse_state \<times> string list) or_exit" where
  "parse_arg s a rest =
     (if a = ''-h'' \<or> a = ''--help'' then Inr (s\<lparr>pa_help := True\<rparr>, rest)
      else if a = ''--offline'' then Inr (s\<lparr>pa_offline := True\<rparr>, rest)
      else case map_of value_flags (flag_name a) of
        Some f \<Rightarrow> (case next_value a rest of (v, rest') \<Rightarrow> ebind (f v s) (\<lambda>s'. Inr (s', rest')))
      | None \<Rightarrow> (case map_of forced_flags (flag_name a) of
          Some f \<Rightarrow> (case forced_value rest of (v, rest') \<Rightarrow> ebind (f v s) (\<lambda>s'. Inr (s', rest')))
        | None \<Rightarrow> (case map_of switches (flag_name a) of
            Some f \<Rightarrow> Inr (f s, rest)
          | None \<Rightarrow> if starts_with ''-'' a then Inl 2 else Inr (s, rest))))"

lemma next_value_cases:
  obtains v where "next_value a rest = (v, rest)"
  | n ns where "rest = n # ns" and "\<not> starts_with ''-'' n" and "next_value a rest = (Some n, ns)"
  by (cases "inline_value a"; cases rest; cases "starts_with ''-'' (hd rest)") (auto simp: next_value_def)

lemma parse_arg_shrinks: "parse_arg s a rest = Inr (s', rest') \<Longrightarrow> length rest' \<le> length rest"
  by (auto simp: parse_arg_def next_value_def forced_value_def ebind_Inr_iff split: if_splits option.splits list.splits prod.splits)

function parse_from :: "parse_state \<Rightarrow> string list \<Rightarrow> parse_state or_exit" where
  "parse_from s [] = Inr s"
| "parse_from s (a # rest) = ebind (parse_arg s a rest) (\<lambda>x. parse_from (fst x) (snd x))"
  by pat_completeness auto

termination
  by (relation "measure (\<lambda>(s, xs). length xs)") (auto dest: parse_arg_shrinks)

definition parseArgs :: "string list \<Rightarrow> process_env \<Rightarrow> parse_state or_exit" where
  "parseArgs argv env = ebind (parseMaxWorkers (env ''OPENWOP_MAX_WORKERS'')) (\<lambda>w. parse_from (no_args w) argv)"

section \<open>What main decides\<close>

text \<open>The environment of a child (\<open>childEnv\<close>): what only the parent uses is taken out.\<close>

definition PARENT_ONLY_ENV :: "string list" where
  "PARENT_ONLY_ENV = [''OPENWOP_BUNDLE_SIGNING_KEY'']"

type_synonym env_list = "(string \<times> string) list"

definition childEnv :: "env_list \<Rightarrow> env_list" where
  "childEnv env = filter (\<lambda>kv. fst kv \<notin> set PARENT_ONLY_ENV) env"

definition PINNED_PORT_ENVS :: "string list" where
  "PINNED_PORT_ENVS =
     [''OPENWOP_WEBHOOK_RECEIVER_PORT'', ''OPENWOP_A2A_FAKE_PEER_PORT'', ''OPENWOP_MCP_FAKE_SERVER_PORT'',
      ''OPENWOP_OAUTH_AS_PORT'', ''OPENWOP_OAUTH_AS2_PORT'', ''OPENWOP_OAUTH_RESOURCE_PORT'',
      ''OPENWOP_OTEL_COLLECTOR_PORT'', ''OPENWOP_OTEL_COLLECTOR_GRPC_PORT'', ''OPENWOP_TEST_OIDC_ISSUER_PORT'']"

text \<open>The refusal is given by the pinned variables it names.\<close>

definition pinnedPortWorkerConflict :: "process_env \<Rightarrow> int option \<Rightarrow> bool \<Rightarrow> string list option" where
  "pinnedPortWorkerConflict env maxWorkers certifying =
     (if \<not> certifying then None
      else
        let pinned = filter (\<lambda>k. js_trim (or_default (env k) []) \<noteq> []) PINNED_PORT_ENVS in
        if pinned = [] \<or> maxWorkers = Some 1 then None else Some pinned)"

text \<open>A JavaScript string is true when it is there and not empty.\<close>

definition truthy :: "string option \<Rightarrow> bool" where
  "truthy v = (v \<noteq> None \<and> v \<noteq> Some [])"

definition set_if :: "string \<Rightarrow> string option \<Rightarrow> env_list \<Rightarrow> env_list" where
  "set_if k v env = (if truthy v then AList.update k (or_default v []) env else env)"

definition process_environment :: "parse_state \<Rightarrow> env_list \<Rightarrow> env_list" where
  "process_environment s env = (if ps_requireBehavior s then AList.update ''OPENWOP_REQUIRE_BEHAVIOR'' ''true'' env else env)"

definition suite_env :: "parse_state \<Rightarrow> env_list \<Rightarrow> env_list" where
  "suite_env s env =
     set_if ''OPENWOP_IMPLEMENTATION_VERSION'' (pa_implVersion s)
       (set_if ''OPENWOP_IMPLEMENTATION_NAME'' (pa_impl s)
         (set_if ''OPENWOP_API_KEY'' (pa_apiKey s)
           (set_if ''OPENWOP_BASE_URL'' (pa_baseUrl s) (childEnv env))))"

datatype plan =
    Exit_now nat
  | Audit_bundle string
  | Certify_run string string
  | Suite_run env_list

definition main_plan :: "parse_state \<Rightarrow> env_list \<Rightarrow> plan" where
  "main_plan s env0 =
     (let env = process_environment s env0;
          e = suite_env s env;
          reachable = truthy (map_of e ''OPENWOP_BASE_URL'') \<and> truthy (map_of e ''OPENWOP_API_KEY'')
      in if pa_colocatedCompanion s \<and> (\<not> truthy (pa_certify s) \<or> pa_bundleVersion s \<noteq> ''3'') then Exit_now 2
         else if pinnedPortWorkerConflict (map_of env) (pa_maxWorkers s) (pa_certify s \<noteq> None) \<noteq> None then Exit_now 2
         else if pa_help s then Exit_now 0
         else case pa_verifyPath s of
           Some p \<Rightarrow> Audit_bundle p
         | None \<Rightarrow>
             if pa_certify s \<noteq> None then
               (if reachable
                then Certify_run (or_default (map_of e ''OPENWOP_BASE_URL'') []) (or_default (map_of e ''OPENWOP_API_KEY'') [])
                else Exit_now 2)
             else if \<not> pa_offline s \<and> \<not> reachable then Exit_now 2
             else Suite_run e)"

definition run_env :: "parse_state \<Rightarrow> nat \<Rightarrow> env_list \<Rightarrow> env_list" where
  "run_env s major env = AList.update ''OPENWOP_TARGET_MAJOR'' (nat_digits major) (suite_env s env)"

text \<open>The command line of the child: vitest's arguments for a plain run and for a certification run.\<close>

definition suite_args :: "parse_state \<Rightarrow> string \<Rightarrow> string list \<Rightarrow> string list" where
  "suite_args s config files =
     [''run'', ''--config'', config] @
     (if pa_offline s then [''src/scenarios/fixtures-valid.test.ts''] else files) @
     (if truthy (pa_filter s) then [''--testNamePattern'', or_default (pa_filter s) []] else []) @
     maxWorkersArgs (pa_maxWorkers s)"

definition certify_args :: "parse_state \<Rightarrow> string \<Rightarrow> string \<Rightarrow> string list \<Rightarrow> string list" where
  "certify_args s config reportFile files =
     [''vitest'', ''run'', ''--config'', config, ''--reporter=json'', ''--outputFile='' @ reportFile] @
     maxWorkersArgs (pa_maxWorkers s) @
     (if truthy (pa_filter s) then [''--testNamePattern'', or_default (pa_filter s) []] else []) @ files"

definition certify_env :: "parse_state \<Rightarrow> string \<Rightarrow> string \<Rightarrow> string \<Rightarrow> nat \<Rightarrow> env_list \<Rightarrow> env_list" where
  "certify_env s baseUrl apiKey ledgerFile major env =
     AList.update ''OPENWOP_TARGET_MAJOR'' (nat_digits major)
       (set_if ''OPENWOP_IMPLEMENTATION_VERSION'' (pa_implVersion s)
         (set_if ''OPENWOP_IMPLEMENTATION_NAME'' (pa_impl s)
           (AList.update ''OPENWOP_LEDGER_PATH'' ledgerFile
             (AList.update ''OPENWOP_API_KEY'' apiKey
               (AList.update ''OPENWOP_BASE_URL'' baseUrl (childEnv env))))))"

section \<open>The target major\<close>

text \<open>
  \<open>resolveTargetMajor\<close>: the document is what the host served as JSON, if it was reachable. An error
  thrown while reading it (a version that is not a text) leaves the major to the default, but keeps
  what was found about a second stack. A major that is no number leaves the order of versions to the
  engine; here it compares equal. A head with a negative exponent is read as its whole part.
\<close>

definition version_head :: "string \<Rightarrow> string" where
  "version_head v = takeWhile (\<lambda>c. c \<noteq> CHR ''.'') v"

definition major_of :: "string \<Rightarrow> int option" where
  "major_of v = number_with floor_scaled (version_head v)"

definition at_least_2 :: "string \<Rightarrow> bool" where
  "at_least_2 v =
     (js_trim (version_head v) \<in> set [''Infinity'', ''+Infinity''] \<or>
      (case major_of v of None \<Rightarrow> False | Some n \<Rightarrow> 2 \<le> n))"

definition newer_first :: "string \<Rightarrow> string \<Rightarrow> bool" where
  "newer_first a b = (case (major_of a, major_of b) of (Some m, Some n) \<Rightarrow> n \<le> m | _ \<Rightarrow> True)"

fun serves_2x :: "json list \<Rightarrow> bool option" where
  "serves_2x [] = Some False"
| "serves_2x (JStr v # vs) = (if starts_with ''2.'' v then Some True else serves_2x vs)"
| "serves_2x (v # vs) = None"

datatype major_source = From_flag | From_preferred | From_versions | From_default

record target_major =
  tm_major :: nat
  tm_source :: major_source
  tm_dualStack :: bool

text \<open>\<open>pv\<close>: nothing when reading it throws, else the version or its absence.\<close>

definition first_version :: "json list \<Rightarrow> json option option" where
  "first_version vs =
     (case vs of
        [] \<Rightarrow> Some None
      | [v] \<Rightarrow> Some (Some v)
      | _ \<Rightarrow> if list_all is_string vs then Some (Some (JStr (hd (sort_by newer_first (map js_string vs))))) else None)"

definition version_members :: "json \<Rightarrow> (json option \<times> json list) option" where
  "version_members doc =
     (case doc of
        JNull \<Rightarrow> None
      | _ \<Rightarrow>
          (let p = member (Some doc) ''preferredVersion''; vs = member (Some doc) ''protocolVersions'' in
           if nullish vs then Some (if nullish p then None else p, [])
           else case vs of Some (JArr xs) \<Rightarrow> Some (if nullish p then None else p, xs) | _ \<Rightarrow> None))"

definition detected :: "json \<Rightarrow> (nat \<times> major_source) option \<times> bool" where
  "detected doc =
     (case version_members doc of
        None \<Rightarrow> (None, False)
      | Some (preferred, vs) \<Rightarrow>
          (case (case preferred of Some p \<Rightarrow> Some (Some p) | None \<Rightarrow> first_version vs) of
             None \<Rightarrow> (None, False)
           | Some pv \<Rightarrow>
               (case serves_2x vs of
                  None \<Rightarrow> (None, False)
                | Some dual \<Rightarrow>
                    ((case pv of
                        Some (JStr v) \<Rightarrow>
                          if v = [] then None
                          else Some (if at_least_2 v then 2 else 1, if preferred \<noteq> None then From_preferred else From_versions)
                      | _ \<Rightarrow> None), dual))))"

definition resolveTargetMajor :: "parse_state \<Rightarrow> string option \<Rightarrow> json option \<Rightarrow> target_major" where
  "resolveTargetMajor s baseUrl served =
     (case pa_targetMajor s of
        Some m \<Rightarrow> \<lparr>tm_major = m, tm_source = From_flag, tm_dualStack = False\<rparr>
      | None \<Rightarrow>
          (case (if truthy baseUrl then served else None) of
             None \<Rightarrow> \<lparr>tm_major = 1, tm_source = From_default, tm_dualStack = False\<rparr>
           | Some doc \<Rightarrow>
               (case detected doc of
                  (Some (m, src), dual) \<Rightarrow> \<lparr>tm_major = m, tm_source = src, tm_dualStack = dual\<rparr>
                | (None, dual) \<Rightarrow> \<lparr>tm_major = 1, tm_source = From_default, tm_dualStack = dual\<rparr>)))"

definition target_files :: "nat \<Rightarrow> (string \<times> nat list) list \<Rightarrow> string list" where
  "target_files major majors = map (\<lambda>(f, m). ''src/scenarios/'' @ f) (filter (\<lambda>(f, m). major \<in> set m) majors)"

section \<open>No flag is ignored\<close>

definition known_flag :: "string \<Rightarrow> bool" where
  "known_flag a =
     (a \<in> set [''-h'', ''--help'', ''--offline''] \<or>
      flag_name a \<in> set (map fst value_flags @ map fst forced_flags @ map fst switches))"

lemma map_of_in: "map_of m k = Some v \<Longrightarrow> k \<in> set (map fst m)"
  by (force dest: map_of_SomeD)

text \<open>The flags that take the next argument whatever it is.\<close>

definition takes_next :: "string \<Rightarrow> bool" where
  "takes_next a = (flag_name a \<in> set (map fst forced_flags))"

lemma takes_next_only:
  "takes_next a \<Longrightarrow> a \<notin> set [''-h'', ''--help'', ''--offline''] \<and> map_of value_flags (flag_name a) = None"
  by (auto simp: takes_next_def forced_flags_def value_flags_def flag_name_def)

lemma takes_next_dashed: "takes_next a \<Longrightarrow> starts_with ''-'' a"
  by (cases a) (auto simp: takes_next_def forced_flags_def flag_name_def starts_with_def split: if_splits)

lemma parse_arg_accounts:
  assumes "parse_arg s a rest = Inr (s', rest')"
  shows "(starts_with ''-'' a \<longrightarrow> known_flag a) \<and>
    (if takes_next a then rest' = drop 1 rest else rest' = rest \<or> (\<exists>n. rest = n # rest' \<and> \<not> starts_with ''-'' n))"
proof (cases "a \<in> set [''-h'', ''--help'', ''--offline'']")
  case True
  with assms takes_next_only [of a] show ?thesis by (auto simp: parse_arg_def known_flag_def)
next
  case False
  show ?thesis
  proof (cases "map_of value_flags (flag_name a)")
    case (Some f)
    then have "known_flag a" "\<not> takes_next a" using map_of_in [OF Some] takes_next_only [of a] by (auto simp: known_flag_def)
    moreover from assms False Some have "snd (next_value a rest) = rest'"
      by (auto simp: parse_arg_def ebind_Inr_iff split: prod.splits)
    ultimately show ?thesis by (cases rule: next_value_cases [of a rest]) auto
  next
    case None
    show ?thesis
    proof (cases "map_of forced_flags (flag_name a)")
      case (Some f)
      then have "known_flag a" "takes_next a" using map_of_in [OF Some] by (auto simp: known_flag_def takes_next_def)
      moreover from assms False None Some have "snd (forced_value rest) = rest'"
        by (auto simp: parse_arg_def ebind_Inr_iff split: prod.splits)
      ultimately show ?thesis by (auto simp: forced_value_def split: list.splits)
    next
      case no: None
      then have "\<not> takes_next a" by (simp add: takes_next_def map_of_eq_None_iff)
      moreover have "starts_with ''-'' a \<longrightarrow> known_flag a" "rest' = rest"
        using assms False None no map_of_in [of switches "flag_name a"]
        by (auto simp: parse_arg_def known_flag_def split: if_splits option.splits)
      ultimately show ?thesis by simp
    qed
  qed
qed

text \<open>Every dashed argument is a known flag, but for the one behind a flag that takes the next argument whatever it is.\<close>

function accounted :: "string list \<Rightarrow> bool" where
  "accounted [] = True"
| "accounted (a # rest) = ((starts_with ''-'' a \<longrightarrow> known_flag a) \<and> accounted (if takes_next a then drop 1 rest else rest))"
  by pat_completeness auto

termination
  by (relation "measure length") auto

lemma parse_from_accounts: "parse_from s argv = Inr s' \<Longrightarrow> accounted argv"
proof (induction s argv rule: parse_from.induct)
  case (2 s a rest)
  then obtain s1 rest1 where step: "parse_arg s a rest = Inr (s1, rest1)" and "parse_from s1 rest1 = Inr s'"
    by (auto simp: ebind_Inr_iff)
  with 2 have ih: "accounted rest1" by fastforce
  show ?case using parse_arg_accounts [OF step] ih takes_next_dashed by (auto split: if_splits)
qed simp

text \<open>
  Claim C25: no flag is ignored: when a command line is accepted, every argument that starts with a dash is a
  flag the parser knows, or is the value of a flag before it that takes the next argument whatever it is.
\<close>

theorem no_flag_is_ignored:
  assumes "parseArgs argv env = Inr s"
  shows "accounted argv"
  using assms parse_from_accounts by (auto simp: parseArgs_def ebind_Inr_iff)

theorem no_flag_is_ignored_witness:
  "\<exists>s. parseArgs [''--signing-key'', ''--signing-key-id'', ''--base-url=x''] (\<lambda>k. None) = Inr s \<and>
     accounted [''--signing-key'', ''--signing-key-id'', ''--base-url=x''] \<and>
     \<not> accounted [''--signing-key'', ''--signing-key-id'', ''--unknown'']"
proof -
  have "\<exists>s. parseArgs [''--signing-key'', ''--signing-key-id'', ''--base-url=x''] (\<lambda>k. None) = Inr s"
    by (simp add: parseArgs_def parseMaxWorkers_def parse_arg_def flag_name_def value_flags_def forced_flags_def forced_value_def
        next_value_def inline_value_def)
  moreover have "\<not> accounted [''--signing-key'', ''--signing-key-id'', ''--unknown'']"
    by (simp add: takes_next_def known_flag_def forced_flags_def value_flags_def switches_def flag_name_def starts_with_def)
  ultimately show ?thesis using no_flag_is_ignored by blast
qed

text \<open>
  A certification can be lost without a word. A flag that takes the next argument drops a value
  written after an equals sign and takes the argument behind it instead. Whatever the key file is called,
  a signing-key flag with an inline value before the certify flag is accepted as a run that does not
  certify, and so is a certify flag before another flag.
\<close>

theorem certification_silently_lost:
  "(\<exists>s. parseArgs [''--signing-key='' @ key, ''--certify'', ''out.json''] (\<lambda>k. None) = Inr s \<and>
        pa_certify s = None \<and> pa_signingKeyPath s = Some ''--certify'') \<and>
   (\<exists>s. parseArgs [''--certify'', ''--offline''] (\<lambda>k. None) = Inr s \<and> pa_certify s = None)"
proof (intro conjI)
  have "flag_name (''--signing-key='' @ key) = ''--signing-key''" by (simp add: flag_name_def)
  then show "\<exists>s. parseArgs [''--signing-key='' @ key, ''--certify'', ''out.json''] (\<lambda>k. None) = Inr s \<and>
        pa_certify s = None \<and> pa_signingKeyPath s = Some ''--certify''"
    by (simp add: parseArgs_def parseMaxWorkers_def parse_arg_def value_flags_def forced_flags_def forced_value_def
        switches_def no_args_def) (simp add: flag_name_def starts_with_def)
  show "\<exists>s. parseArgs [''--certify'', ''--offline''] (\<lambda>k. None) = Inr s \<and> pa_certify s = None"
    by (simp add: parseArgs_def parseMaxWorkers_def parse_arg_def flag_name_def value_flags_def next_value_def inline_value_def
        starts_with_def no_args_def)
qed

section \<open>Every setting can be written\<close>

definition with_inline :: "string \<Rightarrow> string option \<Rightarrow> string list" where
  "with_inline f v = (case v of None \<Rightarrow> [] | Some x \<Rightarrow> [f @ ''='' @ x])"

definition with_next :: "string \<Rightarrow> string option \<Rightarrow> string list" where
  "with_next f v = (case v of None \<Rightarrow> [] | Some x \<Rightarrow> [f, x])"

definition when_set :: "bool \<Rightarrow> string \<Rightarrow> string list" where
  "when_set c f = (if c then [f] else [])"

definition build_text :: "build3 \<Rightarrow> string" where
  "build_text b = bd_kind b @ '':'' @ bd_id b"

definition command_line :: "parse_state \<Rightarrow> string list" where
  "command_line s =
     with_inline ''--base-url'' (pa_baseUrl s) @ with_inline ''--api-key'' (pa_apiKey s) @ when_set (pa_offline s) ''--offline'' @
     with_inline ''--filter'' (pa_filter s) @ with_next ''--target-major'' (map_option nat_digits (pa_targetMajor s)) @
     when_set (pa_help s) ''--help'' @ with_inline ''--impl'' (pa_impl s) @ with_inline ''--impl-version'' (pa_implVersion s) @
     with_inline ''--certify'' (pa_certify s) @ with_next ''--bundle-version'' (Some (pa_bundleVersion s)) @
     with_next ''--host-build'' (map_option build_text (pa_hostBuild s)) @ with_next ''--evidence-tier'' (Some (pa_evidenceTier s)) @
     with_next ''--signing-key'' (pa_signingKeyPath s) @ with_next ''--signing-key-id'' (pa_signingKeyId s) @
     with_next ''--verifier-key'' (pa_verifierKeyPath s) @ with_inline ''--verify'' (pa_verifyPath s) @
     with_inline ''--host-key'' (pa_verifyHostKeyPath s) @ when_set (pa_colocatedCompanion s) ''--as-colocated-companion'' @
     with_next ''--verifier-key-id'' (pa_verifierKeyId s) @ with_inline ''--max-workers'' (map_option int_str (pa_maxWorkers s)) @
     when_set (ps_requireBehavior s) ''--require-behavior''"

text \<open>The settings a command line can have: the values the parser accepts.\<close>

definition settings_ok :: "parse_state \<Rightarrow> bool" where
  "settings_ok s =
     (pa_targetMajor s \<in> {None, Some 1, Some 2} \<and> pa_bundleVersion s \<in> {''2'', ''3''} \<and>
      pa_evidenceTier s \<in> {''self'', ''steward'', ''independent''} \<and>
      (case pa_hostBuild s of None \<Rightarrow> True
       | Some b \<Rightarrow> bd_kind b \<in> set build_kinds \<and> bd_id b \<noteq> [] \<and> (\<forall>c \<in> set (bd_id b). \<not> line_end c)) \<and>
      (case pa_maxWorkers s of None \<Rightarrow> True | Some n \<Rightarrow> 0 < n \<and> n \<le> 2 ^ 53))"

lemma flag_name_inline [simp]: "CHR ''='' \<notin> set f \<Longrightarrow> flag_name (f @ CHR ''='' # v) = f"
proof -
  assume "CHR ''='' \<notin> set f"
  then have "\<forall>x \<in> set f. x \<noteq> CHR ''=''" by auto
  then show ?thesis by (simp add: flag_name_def)
qed

lemma flag_name_plain [simp]: "CHR ''='' \<notin> set f \<Longrightarrow> flag_name f = f"
  unfolding flag_name_def by (subst takeWhile_eq_all_conv) auto

lemma inline_value_inline [simp]: "CHR ''='' \<notin> set f \<Longrightarrow> inline_value (f @ CHR ''='' # v) = Some v"
proof -
  assume "CHR ''='' \<notin> set f"
  then have "\<forall>x \<in> set f. x \<noteq> CHR ''=''" by auto
  then show ?thesis by (simp add: inline_value_def)
qed

lemma parse_inline:
  assumes "map_of value_flags f = Some g" and "CHR ''='' \<notin> set f"
  shows "parse_from s (with_inline f v @ rest) =
    (case v of None \<Rightarrow> parse_from s rest | Some x \<Rightarrow> ebind (g (Some x) s) (\<lambda>s'. parse_from s' rest))"
proof (cases v)
  case (Some x)
  have "f @ CHR ''='' # x \<noteq> a" if "CHR ''='' \<notin> set a" for a using that by auto
  then have "parse_arg s (f @ CHR ''='' # x) rest = ebind (g (Some x) s) (\<lambda>s'. Inr (s', rest))"
    using assms by (simp add: parse_arg_def next_value_def)
  with Some show ?thesis by (cases "g (Some x) s") (simp_all add: with_inline_def)
qed (simp add: with_inline_def)

lemma parse_next:
  assumes "map_of value_flags f = None" and "map_of forced_flags f = Some g" and "CHR ''='' \<notin> set f"
    and "f \<notin> set [''-h'', ''--help'', ''--offline'']"
  shows "parse_from s (with_next f v @ rest) =
    (case v of None \<Rightarrow> parse_from s rest | Some x \<Rightarrow> ebind (g (Some x) s) (\<lambda>s'. parse_from s' rest))"
proof (cases v)
  case (Some x)
  have "parse_arg s f (x # rest) = ebind (g (Some x) s) (\<lambda>s'. Inr (s', rest))"
    using assms by (simp add: parse_arg_def forced_value_def)
  with Some show ?thesis by (cases "g (Some x) s") (simp_all add: with_next_def)
qed (simp add: with_next_def)

lemma parse_companion:
  "parse_from s (when_set c ''--as-colocated-companion'' @ rest) =
   parse_from (s\<lparr>pa_colocatedCompanion := pa_colocatedCompanion s \<or> c\<rparr>) rest"
  by (cases s; simp add: when_set_def parse_arg_def value_flags_def forced_flags_def switches_def)

lemma parse_strict:
  "parse_from s (when_set c ''--require-behavior'' @ rest) = parse_from (s\<lparr>ps_requireBehavior := ps_requireBehavior s \<or> c\<rparr>) rest"
  by (cases s; simp add: when_set_def parse_arg_def value_flags_def forced_flags_def switches_def)

lemma parse_text:
  assumes "map_of value_flags f = Some (\<lambda>v s. Inr (upd v s))" and "CHR ''='' \<notin> set f" and "upd None s = s"
  shows "parse_from s (with_inline f v @ rest) = parse_from (upd v s) rest"
  using assms(3) by (simp add: parse_inline [OF assms(1,2)] split: option.splits)

lemma parse_path:
  assumes "map_of value_flags f = None" and "map_of forced_flags f = Some (\<lambda>v s. Inr (upd v s))" and "CHR ''='' \<notin> set f"
    and "f \<notin> set [''-h'', ''--help'', ''--offline'']" and "upd None s = s"
  shows "parse_from s (with_next f v @ rest) = parse_from (upd v s) rest"
  using assms(5) by (simp add: parse_next [OF assms(1-4)] split: option.splits)

lemmas parse_settings =
  parse_text [of "''--base-url''" "\<lambda>v s. s\<lparr>pa_baseUrl := v\<rparr>"]
  parse_text [of "''--api-key''" "\<lambda>v s. s\<lparr>pa_apiKey := v\<rparr>"]
  parse_text [of "''--filter''" "\<lambda>v s. s\<lparr>pa_filter := v\<rparr>"]
  parse_text [of "''--impl''" "\<lambda>v s. s\<lparr>pa_impl := v\<rparr>"]
  parse_text [of "''--impl-version''" "\<lambda>v s. s\<lparr>pa_implVersion := v\<rparr>"]
  parse_text [of "''--certify''" "\<lambda>v s. s\<lparr>pa_certify := v\<rparr>"]
  parse_text [of "''--verify''" "\<lambda>v s. s\<lparr>pa_verifyPath := v\<rparr>"]
  parse_text [of "''--host-key''" "\<lambda>v s. s\<lparr>pa_verifyHostKeyPath := v\<rparr>"]
  parse_path [of "''--signing-key''" "\<lambda>v s. s\<lparr>pa_signingKeyPath := v\<rparr>"]
  parse_path [of "''--signing-key-id''" "\<lambda>v s. s\<lparr>pa_signingKeyId := v\<rparr>"]
  parse_path [of "''--verifier-key''" "\<lambda>v s. s\<lparr>pa_verifierKeyPath := v\<rparr>"]
  parse_path [of "''--verifier-key-id''" "\<lambda>v s. s\<lparr>pa_verifierKeyId := v\<rparr>"]

lemma parse_offline: "parse_from s (when_set c ''--offline'' @ rest) = parse_from (s\<lparr>pa_offline := pa_offline s \<or> c\<rparr>) rest"
  by (cases s; simp add: when_set_def parse_arg_def)

lemma parse_help: "parse_from s (when_set c ''--help'' @ rest) = parse_from (s\<lparr>pa_help := pa_help s \<or> c\<rparr>) rest"
  by (cases s; simp add: when_set_def parse_arg_def)

lemma parse_major:
  assumes "v \<in> {None, Some 1, Some 2}" and "pa_targetMajor s = None"
  shows "parse_from s (with_next ''--target-major'' (map_option nat_digits v) @ rest) = parse_from (s\<lparr>pa_targetMajor := v\<rparr>) rest"
proof -
  have "nat_digits 1 = ''1''" and "nat_digits 2 = ''2''" by code_simp+
  then show ?thesis using assms
    by (subst parse_next [where g = "the (map_of forced_flags ''--target-major'')"]; cases s)
      (auto simp: value_flags_def forced_flags_def)
qed

lemma parse_bundle_version: "w \<in> {''2'', ''3''} \<Longrightarrow>
   parse_from s (with_next ''--bundle-version'' (Some w) @ rest) = parse_from (s\<lparr>pa_bundleVersion := w\<rparr>) rest"
  by (subst parse_next [where g = "the (map_of forced_flags ''--bundle-version'')"]) (auto simp: value_flags_def forced_flags_def)

lemma parse_tier: "t \<in> {''self'', ''steward'', ''independent''} \<Longrightarrow>
   parse_from s (with_next ''--evidence-tier'' (Some t) @ rest) = parse_from (s\<lparr>pa_evidenceTier := t\<rparr>) rest"
  by (subst parse_next [where g = "the (map_of forced_flags ''--evidence-tier'')"]) (auto simp: value_flags_def forced_flags_def)

lemma host_build_reads:
  assumes "bd_kind b \<in> set build_kinds" and "bd_id b \<noteq> []" and "\<forall>c \<in> set (bd_id b). \<not> line_end c"
  shows "host_build (build_text b) = Some b"
proof (cases b)
  case (fields k i)
  have k: "k \<in> {''image-digest'', ''commit'', ''artifact-sha256''}" using assms(1) by (simp add: fields build_kinds_def)
  have f: "find (\<lambda>k. starts_with (k @ '':'') (build_text b)) build_kinds = Some k"
    using k by (auto simp: build_kinds_def build_text_def fields starts_with_def)
  have "drop (Suc (length k)) (build_text b) = i" by (simp add: build_text_def fields)
  then show ?thesis using assms(2,3) unfolding host_build_def f by (simp add: fields)
qed

lemma parse_build:
  assumes "case v of None \<Rightarrow> True | Some b \<Rightarrow> bd_kind b \<in> set build_kinds \<and> bd_id b \<noteq> [] \<and> (\<forall>c \<in> set (bd_id b). \<not> line_end c)"
    and "pa_hostBuild s = None"
  shows "parse_from s (with_next ''--host-build'' (map_option build_text v) @ rest) = parse_from (s\<lparr>pa_hostBuild := v\<rparr>) rest"
  using assms
  by (subst parse_next [where g = "the (map_of forced_flags ''--host-build'')"]; cases s)
    (auto simp: value_flags_def forced_flags_def or_default_def host_build_reads split: option.splits)

lemma workers_read: "0 < n \<Longrightarrow> n \<le> 2 ^ 53 \<Longrightarrow> parseMaxWorkers (Some (int_str n)) = Inr (Some n)"
proof -
  assume n: "0 < n" "n \<le> 2 ^ 53"
  then have "nat n \<le> 2 ^ 53" by (simp add: nat_le_iff)
  then have "finite_double (nat n)" by (simp add: finite_double_def)
  moreover have "int_str n \<noteq> []" using n by (simp add: int_str_def nat_digits_nonempty)
  ultimately show ?thesis using n by (simp add: parseMaxWorkers_def js_integer_int_str)
qed

lemma parse_workers:
  assumes "case v of None \<Rightarrow> True | Some n \<Rightarrow> 0 < n \<and> n \<le> 2 ^ 53" and "pa_maxWorkers s = None"
  shows "parse_from s (with_inline ''--max-workers'' (map_option int_str v) @ rest) = parse_from (s\<lparr>pa_maxWorkers := v\<rparr>) rest"
  using assms
  by (subst parse_inline [where g = "the (map_of value_flags ''--max-workers'')"]; cases s)
    (auto simp: value_flags_def workers_read split: option.splits)

lemma parse_command_line:
  assumes "settings_ok s"
  shows "parse_from (no_args None) (command_line s) = Inr s"
proof (cases s)
  case (fields baseUrl apiKey offline filt major show_help impl implVersion certify version build tier key keyId vkey verify hostKey
      companion vkeyId workers strict)
  have "parse_from (no_args None) (command_line s @ []) = parse_from s []"
    using assms unfolding command_line_def no_args_def settings_ok_def
    by (simp add: fields parse_settings parse_offline parse_help parse_major parse_bundle_version parse_tier parse_build
        parse_workers parse_companion parse_strict value_flags_def forced_flags_def switches_def
        del: append_Nil2 parse_from.simps)
  then show ?thesis by simp
qed

text \<open>
  Claim C33: every setting can be written: for any settings the parser can hold, whatever their texts, there is
  a command line that is read back as exactly these settings when no worker cap comes from the environment.
\<close>

theorem command_line_round_trip:
  assumes "settings_ok s" and "env ''OPENWOP_MAX_WORKERS'' = None"
  shows "parseArgs (command_line s) env = Inr s"
  using parse_command_line [OF assms(1)] assms(2) by (simp add: parseArgs_def parseMaxWorkers_def)

definition sample_settings :: parse_state where
  "sample_settings = (no_args (Some 1))\<lparr>pa_baseUrl := Some ''--odd=url'', pa_certify := Some [], pa_targetMajor := Some 2,
     pa_hostBuild := Some \<lparr>bd_kind = ''commit'', bd_id = ''a:b''\<rparr>, pa_signingKeyPath := Some ''-k'', pa_evidenceTier := ''steward''\<rparr>"

theorem command_line_round_trip_witness:
  "settings_ok sample_settings \<and> parseArgs (command_line sample_settings) (\<lambda>k. None) = Inr sample_settings"
proof -
  have "settings_ok sample_settings"
    by (simp add: settings_ok_def sample_settings_def no_args_def build_kinds_def line_end_def)
  then show ?thesis using command_line_round_trip [of sample_settings "\<lambda>k. None"] by simp
qed

section \<open>What a plan promises\<close>

text \<open>
  A certification run is planned only when it can be trusted: a base URL and a key are at hand, a
  pinned fixture port means exactly one worker, a companion marker means a version 3 bundle, and no audit
  or help was asked for.
\<close>

theorem certification_plan_is_safe:
  assumes "main_plan s env = Certify_run baseUrl apiKey"
  shows "baseUrl \<noteq> [] \<and> apiKey \<noteq> [] \<and> pa_certify s \<noteq> None \<and> \<not> pa_help s \<and> pa_verifyPath s = None \<and>
    ((\<exists>k \<in> set PINNED_PORT_ENVS. js_trim (or_default (map_of (process_environment s env) k) []) \<noteq> []) \<longrightarrow>
       pa_maxWorkers s = Some 1) \<and>
    (pa_colocatedCompanion s \<longrightarrow> pa_bundleVersion s = ''3'')"
proof -
  have no: "pinnedPortWorkerConflict (map_of (process_environment s env)) (pa_maxWorkers s) (pa_certify s \<noteq> None) = None"
    and c: "pa_certify s \<noteq> None"
    using assms by (auto simp: main_plan_def Let_def split: if_splits option.splits)
  from no c have "(\<exists>k \<in> set PINNED_PORT_ENVS. js_trim (or_default (map_of (process_environment s env) k) []) \<noteq> []) \<longrightarrow>
       pa_maxWorkers s = Some 1"
    by (auto simp: pinnedPortWorkerConflict_def Let_def filter_empty_conv split: if_splits)
  with c assms show ?thesis
    by (auto simp: main_plan_def Let_def truthy_def or_default_def split: if_splits option.splits)
qed

definition pinned_env :: env_list where
  "pinned_env = [(''OPENWOP_BASE_URL'', ''http://h''), (''OPENWOP_OAUTH_AS_PORT'', ''9001'')]"

definition pinned_settings :: parse_state where
  "pinned_settings = (no_args (Some 1))\<lparr>pa_apiKey := Some ''k'', pa_certify := Some ''out.json''\<rparr>"

theorem certification_plan_is_safe_witness:
  "main_plan pinned_settings pinned_env = Certify_run ''http://h'' ''k'' \<and> pa_maxWorkers pinned_settings = Some 1"
proof -
  have "main_plan pinned_settings pinned_env = Certify_run ''http://h'' ''k''"
    by (simp add: main_plan_def pinned_settings_def pinned_env_def no_args_def process_environment_def suite_env_def set_if_def
        truthy_def or_default_def childEnv_def PARENT_ONLY_ENV_def pinnedPortWorkerConflict_def Let_def)
  moreover have "\<exists>k \<in> set PINNED_PORT_ENVS. js_trim (or_default (map_of (process_environment pinned_settings pinned_env) k) []) \<noteq> []"
    by (rule bexI [of _ "''OPENWOP_OAUTH_AS_PORT''"])
      (simp_all add: PINNED_PORT_ENVS_def process_environment_def pinned_settings_def no_args_def pinned_env_def or_default_def
        js_trim_def js_space_def)
  ultimately show ?thesis using certification_plan_is_safe by blast
qed

lemma map_of_childEnv: "map_of (childEnv env) k = (if k \<in> set PARENT_ONLY_ENV then None else map_of env k)"
  by (induction env) (auto simp: childEnv_def)

lemma map_of_set_if: "map_of (set_if k v env) x = (if x = k \<and> truthy v then v else map_of env x)"
  by (auto simp: set_if_def truthy_def or_default_def split: option.splits)

definition child_names :: "string list" where
  "child_names =
     [''OPENWOP_BASE_URL'', ''OPENWOP_API_KEY'', ''OPENWOP_IMPLEMENTATION_NAME'', ''OPENWOP_IMPLEMENTATION_VERSION'',
      ''OPENWOP_LEDGER_PATH'', ''OPENWOP_TARGET_MAJOR'']"

text \<open>
  The key that signs a bundle never reaches a child: neither a plain run nor a certification run has
  it in the environment of the process that runs the suite, and no other variable of the parent is lost or
  changed but the ones the run sets.
\<close>

theorem child_never_holds_signing_key:
  assumes "e = run_env s major env \<or> e = certify_env s baseUrl apiKey ledgerFile major env"
  shows "map_of e ''OPENWOP_BUNDLE_SIGNING_KEY'' = None \<and>
    (\<forall>k. k \<notin> set child_names \<and> k \<noteq> ''OPENWOP_BUNDLE_SIGNING_KEY'' \<longrightarrow> map_of e k = map_of env k)"
  using assms
  by (auto simp: run_env_def suite_env_def certify_env_def map_of_set_if map_of_childEnv PARENT_ONLY_ENV_def child_names_def)

theorem child_never_holds_signing_key_witness:
  "map_of (run_env pinned_settings 1 [(''OPENWOP_BUNDLE_SIGNING_KEY'', ''pem''), (''PATH'', ''/bin'')]) ''OPENWOP_BUNDLE_SIGNING_KEY'' = None \<and>
   map_of (run_env pinned_settings 1 [(''OPENWOP_BUNDLE_SIGNING_KEY'', ''pem''), (''PATH'', ''/bin'')]) ''PATH'' = Some ''/bin''"
  using child_never_holds_signing_key
      [of "run_env pinned_settings 1 [(''OPENWOP_BUNDLE_SIGNING_KEY'', ''pem''), (''PATH'', ''/bin'')]" pinned_settings
        1 "[(''OPENWOP_BUNDLE_SIGNING_KEY'', ''pem''), (''PATH'', ''/bin'')]"]
  by (simp add: child_names_def)

section \<open>The newest major wins\<close>

lemma hd_insert_by: "hd (insert_by le x ys) = (if ys = [] \<or> le x (hd ys) then x else hd ys)"
  by (cases ys) auto

lemma sort_by_head:
  assumes "xs \<noteq> []" and "\<And>a b. a \<in> set xs \<Longrightarrow> b \<in> set xs \<Longrightarrow> le a b \<longleftrightarrow> rank b \<le> (rank a :: int)"
  shows "hd (sort_by le xs) \<in> set xs \<and> (\<forall>x \<in> set xs. rank x \<le> rank (hd (sort_by le xs)))"
  using assms
proof (induction xs)
  case (Cons x xs)
  show ?case
  proof (cases "xs = []")
    case False
    have h: "hd (sort_by le xs) \<in> set xs" "\<forall>y \<in> set xs. rank y \<le> rank (hd (sort_by le xs))"
      using Cons.IH [OF False] Cons.prems(2) by auto
    have "le x (hd (sort_by le xs)) \<longleftrightarrow> rank (hd (sort_by le xs)) \<le> rank x" using Cons.prems(2) h(1) by auto
    with h False show ?thesis by (auto simp: hd_insert_by)
  qed simp
qed simp

text \<open>
  Without a flag and without a preferred version, a served list of readable versions targets major 2
  exactly when one of them has a major of at least 2, wherever it stands in the list.
\<close>

theorem newest_major_is_targeted:
  assumes "pa_targetMajor s = None" and "truthy baseUrl" and "nullish (js_get es ''preferredVersion'')"
    and "js_get es ''protocolVersions'' = Some (JArr (map JStr vs))" and "\<forall>v \<in> set vs. v \<noteq> [] \<and> major_of v \<noteq> None"
  shows "tm_major (resolveTargetMajor s baseUrl (Some (JObj es))) = 2 \<longleftrightarrow> (\<exists>v \<in> set vs. at_least_2 v)"
proof -
  have none: "js_trim (version_head v) \<notin> set [''Infinity'', ''+Infinity'']" if "v \<in> set vs" for v
    using assms(5) that
    by (auto simp: major_of_def number_with_def prefixed_number_def starts_with_def signed_def decimal_parts_def is_digit_def
        number_of_def Let_def)
  have two: "at_least_2 v \<longleftrightarrow> 2 \<le> the (major_of v)" if "v \<in> set vs" for v
    using none [OF that] assms(5) that by (auto simp: at_least_2_def)
  have serves: "\<exists>d. serves_2x (map JStr vs) = Some d" by (induction vs) auto
  have first: "first_version (map JStr vs) = Some (if vs = [] then None else Some (JStr (hd (sort_by newer_first vs))))"
    by (cases vs rule: remdups_adj.cases) (auto simp: first_version_def comp_def list_all_iff)
  have members: "version_members (JObj es) = Some (None, map JStr vs)"
    using assms(3,4) by (simp add: version_members_def member_def nullish_def Let_def)
  show ?thesis
  proof (cases "vs = []")
    case True
    with serves members assms(1,2) show ?thesis
      by (simp add: resolveTargetMajor_def detected_def first_version_def split: if_splits)
  next
    case False
    let ?m = "hd (sort_by newer_first vs)"
    have "?m \<in> set vs \<and> (\<forall>x \<in> set vs. the (major_of x) \<le> the (major_of ?m))"
      by (rule sort_by_head [OF False]) (use assms(5) in \<open>fastforce simp: newer_first_def split: option.splits\<close>)
    then have m: "?m \<in> set vs" "at_least_2 ?m \<longleftrightarrow> (\<exists>v \<in> set vs. at_least_2 v)" using two by (auto intro: order_trans)
    obtain d where "serves_2x (map JStr vs) = Some d" using serves by blast
    with m assms(1,2,5) members first False show ?thesis
      by (auto simp: resolveTargetMajor_def detected_def)
  qed
qed

lemma majors_read: "major_of ''1.4'' = Some 1" "major_of ''2.0'' = Some 2"
proof -
  have d: "list_all is_digit ''1''" "list_all is_digit ''2''" by (simp_all add: is_digit_def)
  have h: "version_head ''1.4'' = ''1''" "version_head ''2.0'' = ''2''" by (simp_all add: version_head_def)
  have v: "digit_value 0 (CHR ''1'') = Suc 0" "digit_value 0 (CHR ''2'') = 2" by (simp_all add: digit_value_def)
  have f: "finite_double 1" "finite_double 2" by (simp_all add: finite_double_def)
  show "major_of ''1.4'' = Some 1"
    using number_with_digits [OF d(1), of floor_scaled 1] f by (simp add: major_of_def h v floor_scaled_def)
  show "major_of ''2.0'' = Some 2"
    using number_with_digits [OF d(2), of floor_scaled 2] f by (simp add: major_of_def h v floor_scaled_def)
qed

theorem newest_major_is_targeted_witness:
  "tm_major (resolveTargetMajor (no_args None) (Some ''http://h'')
     (Some (JObj [(''protocolVersions'', JArr [JStr ''1.4'', JStr ''2.0''])]))) = 2"
proof -
  have "tm_major (resolveTargetMajor (no_args None) (Some ''http://h'')
     (Some (JObj [(''protocolVersions'', JArr (map JStr [''1.4'', ''2.0'']))]))) = 2 \<longleftrightarrow> (\<exists>v \<in> set [''1.4'', ''2.0'']. at_least_2 v)"
  proof (rule newest_major_is_targeted)
    show "\<forall>v \<in> set [''1.4'', ''2.0'']. v \<noteq> [] \<and> major_of v \<noteq> None" by (simp add: majors_read)
  qed (simp_all add: no_args_def truthy_def nullish_def js_get_def proto_member_def object_prototype_functions_def)
  moreover have "at_least_2 ''2.0''" by (simp add: at_least_2_def majors_read)
  ultimately show ?thesis by simp
qed

end
