(* ===== verification/Cli_Certify.thy ===== *)
theory Cli_Certify
  imports Cli_Args
begin

text \<open>
  The certification run of \<open>cli.ts\<close>: what the report says of each file, the claimed profiles, the assembly of a
  version 3 bundle with its self-audit, and the audit of a bundle somebody else cut. What the run is given (its
  settings, the environment, the files it reads, the report and the ledger of the suite, the clock) is the
  record \<open>cut\<close>; the schema validator and the key conversion are parameters.
\<close>

section \<open>Before assembly\<close>

record report_file =
  rf_name :: "string option"
  rf_statuses :: "string list"

definition report_status :: "string list \<Rightarrow> report_state" where
  "report_status statuses =
     (let passes = length (filter (\<lambda>s. s = ''passed'') statuses); failures = length (filter (\<lambda>s. s = ''failed'') statuses) in
      if 0 < failures then Report_failed else if 0 < passes then Report_passed else Report_skipped)"

definition scenarioStatesFromReport :: "report_file list \<Rightarrow> (string \<times> report_state) list" where
  "scenarioStatesFromReport results =
     foldl (\<lambda>states f. case rf_name f of
         None \<Rightarrow> states
       | Some n \<Rightarrow> AList.update (scenarioBasename n) (report_status (rf_statuses f)) states) [] results"

definition claimedProfilesFor :: "discovery \<Rightarrow> string list" where
  "claimedProfilesFor doc =
     deriveProfiles doc @ push_if (isCoreStandard doc) [''openwop-core-standard''] @
     push_if (agentPlatformStatus doc \<noteq> PlatformNone) [''openwop-agent-platform'']"

definition claimedProfilesForV2 :: "registry \<Rightarrow> discovery \<Rightarrow> string list" where
  "claimedProfilesForV2 reg doc = (case v2ProfileIds reg doc of None \<Rightarrow> [] | Some ids \<Rightarrow> ids)"

section \<open>What a run holds\<close>

text \<open>What the text of \<open>OPENWOP_HOST_RELAXATIONS\<close> parses to: a list, \<open>null\<close>, or a value that has no \<open>map\<close>.\<close>

datatype parsed_relaxations = Relaxations "relaxation3 list" | Null_relaxations | Not_a_list

record cut =
  ct_settings :: parse_state
  ct_env :: env_list
  ct_apiKey :: string
  ct_major :: nat
  ct_registry :: registry
  ct_floors :: "(string \<times> string list) list"
  ct_floorFiles :: "string list"
  ct_collate :: "string \<Rightarrow> string \<Rightarrow> bool"
  ct_url :: string
  ct_document :: jobject
  ct_report :: "report_file list"
  ct_ledger :: "ledger_entry list"
  ct_read :: "string \<Rightarrow> string option"
  ct_parseRelaxations :: "string \<Rightarrow> parsed_relaxations option"
  ct_version :: string
  ct_lock :: "(string \<times> string) option"
  ct_now :: string

definition cut_env :: "cut \<Rightarrow> string \<Rightarrow> string option" where
  "cut_env c = map_of (ct_env c)"

definition cut_claimed :: "cut \<Rightarrow> string list" where
  "cut_claimed c =
     (if ct_major c = 2 then claimedProfilesForV2 (ct_registry c) (ct_document c) else claimedProfilesFor (ct_document c))"

definition cut_v2floors :: "cut \<Rightarrow> v2_floors" where
  "cut_v2floors c = (if ct_major c = 2 then Some (ct_floors c) else None)"

definition cut_states :: "cut \<Rightarrow> (string \<times> report_state) list" where
  "cut_states c = scenarioStatesFromReport (ct_report c)"

definition cut_derivation :: "cut \<Rightarrow> js_exception + derivation" where
  "cut_derivation c =
     deriveRequirementDispositions (ct_collate c) (ct_floorFiles c) (cut_v2floors c) (cut_states c) (ct_ledger c)
       (cut_claimed c) (Some (ct_document c))"

definition not_held :: "derivation \<Rightarrow> string list" where
  "not_held d = map dv_profile (filter (\<lambda>v. dv_runtimeDerived v \<and> \<not> dv_held v) (de_verdicts d))"

definition rejected_profiles :: "derivation \<Rightarrow> string list" where
  "rejected_profiles d = map dv_profile (filter (\<lambda>v. dv_unclassified v \<noteq> []) (de_verdicts d))"

text \<open>The name or version of the host: the flag, else the implementation's text, else a default.\<close>

definition host_text :: "string option \<Rightarrow> jobject \<Rightarrow> string \<Rightarrow> string \<Rightarrow> string" where
  "host_text flag doc k d =
     (case flag of
        Some v \<Rightarrow> v
      | None \<Rightarrow> (case member (js_get doc ''implementation'') k of Some (JStr v) \<Rightarrow> v | _ \<Rightarrow> d))"

definition host_vendor :: "jobject \<Rightarrow> string option" where
  "host_vendor doc = (case member (js_get doc ''implementation'') ''vendor'' of Some (JStr v) \<Rightarrow> if v = [] then None else Some v | _ \<Rightarrow> None)"

section \<open>Rows and claims\<close>

text \<open>\<open>evidenceById\<close>: the last entry of an id that is a pass with evidence.\<close>

definition evidence_by_id :: "ledger_entry list \<Rightarrow> string \<Rightarrow> json option" where
  "evidence_by_id ledger i =
     (case last_with le_requirementId (filter (\<lambda>e. le_evidence e \<noteq> None \<and> le_disposition e = Executed_pass) ledger) i of
        None \<Rightarrow> None | Some e \<Rightarrow> le_evidence e)"

definition row_of_derived :: "ledger_entry list \<Rightarrow> derived_row \<Rightarrow> row3" where
  "row_of_derived ledger r =
     \<lparr>r3_id = dr_requirementId r, r3_scenario = dr_scenarioId r, r3_result = disposition_name (dr_disposition r),
      r3_assertions = dr_assertionCount r, r3_detail = dr_detail r,
      r3_evidence = (if dr_disposition r = Executed_pass then evidence_by_id ledger (dr_requirementId r) else None)\<rparr>"

definition cut_rows :: "cut \<Rightarrow> derivation \<Rightarrow> row3 list" where
  "cut_rows c d = map (row_of_derived (ct_ledger c)) (de_requirements d)"

definition totals_of :: "derived_totals \<Rightarrow> totals" where
  "totals_of t =
     \<lparr>tt_executedPass = int (dt_executedPass t), tt_executedFail = int (dt_executedFail t), tt_skipped = int (dt_skipped t),
      tt_inapplicable = int (dt_inapplicable t), tt_blocked = int (dt_blocked t)\<rparr>"

definition verdict_for :: "derivation \<Rightarrow> string \<Rightarrow> derived_verdict option" where
  "verdict_for d p = find (\<lambda>v. dv_profile v = p) (de_verdicts d)"

definition on_floor :: "profile_floor \<Rightarrow> string \<Rightarrow> bool" where
  "on_floor f scenario =
     (scenario \<in> set (pf_required f) \<or> (\<exists>pre \<in> set (pf_requiredAnyPrefix f). starts_with pre scenario) \<or>
      (\<exists>g \<in> set (pf_requiredAnyOf f). scenario \<in> set g))"

definition witness_count :: "cut \<Rightarrow> derivation \<Rightarrow> string \<Rightarrow> int" where
  "witness_count c d p =
     (if ct_major c = 2 then (case verdict_for d p of None \<Rightarrow> 0 | Some v \<Rightarrow> int (dv_witnessedPasses v))
      else case map_of profile_floor_scenarios p of
        None \<Rightarrow> 0
      | Some f \<Rightarrow> int (length (filter (\<lambda>r. dr_disposition r = Executed_pass \<and> on_floor f (dr_scenarioId r)) (de_requirements d))))"

text \<open>\<open>p in DEPRECATED_PROFILE_ALIASES\<close>, on a plain object.\<close>

definition is_alias :: "string \<Rightarrow> bool" where
  "is_alias p = (map_of deprecated_profile_aliases p \<noteq> None \<or> proto_member p \<noteq> None)"

definition is_relaxed_profile :: "cut \<Rightarrow> derivation \<Rightarrow> relaxation3 list option \<Rightarrow> string \<Rightarrow> bool" where
  "is_relaxed_profile c d relaxations p =
     (p \<in> set (profilesRelaxedBy (ct_registry c) (map rx_obligation (relaxation_list relaxations)) (cut_claimed c)) \<or>
      p \<in> set (profilesDeniedByObservedRelaxation (ct_registry c)
             (map (\<lambda>r. (r3_id r, r3_result r = ''executed-fail'')) (cut_rows c d)) (cut_claimed c)))"

definition may_certify :: "cut \<Rightarrow> derivation \<Rightarrow> relaxation3 list option \<Rightarrow> string \<Rightarrow> bool" where
  "may_certify c d relaxations p =
     (\<not> is_relaxed_profile c d relaxations p \<and>
      (case verdict_for d p of None \<Rightarrow> False | Some v \<Rightarrow> dv_certifiable v) \<and>
      p \<notin> set (not_held d) \<and> p \<notin> set (rejected_profiles d) \<and> dt_blocked (de_totals d) = 0)"

definition claims_of :: "cut \<Rightarrow> derivation \<Rightarrow> relaxation3 list option \<Rightarrow> profile3 list" where
  "claims_of c d relaxations =
     map (\<lambda>p. \<lparr>p3_id = p, p3_evidenceTier = pa_evidenceTier (ct_settings c), p3_witnessCount = witness_count c d p,
              p3_certified = may_certify c d relaxations p\<rparr>)
       (filter (\<lambda>p. \<not> is_alias p) (cut_claimed c))"

section \<open>Assembly, sealing and the self-audit\<close>

text \<open>Why no bundle is written: the exit of a refused run, a file that cannot be read, what was thrown, a defect.\<close>

datatype cut_failure =
    Refused_run nat
  | No_such_file string
  | Threw v3_error
  | Emitter_defect bundle3 "rejection3 list"
  | Off_schema bundle3

record written =
  wr_bundle :: bundle3
  wr_verdict :: verdict3
  wr_redactedAt :: "string list"
  wr_exit :: nat

definition threw :: "v3_error + 'a \<Rightarrow> cut_failure + 'a" where
  "threw x = (case x of Inl e \<Rightarrow> Inl (Threw e) | Inr a \<Rightarrow> Inr a)"

definition threw_js :: "js_exception + 'a \<Rightarrow> cut_failure + 'a" where
  "threw_js x = (case x of Inl e \<Rightarrow> Inl (Threw (Thrown e)) | Inr a \<Rightarrow> Inr a)"

text \<open>A key: the file of a given path, else the environment's text.\<close>

definition key_text :: "cut \<Rightarrow> string option \<Rightarrow> string \<Rightarrow> cut_failure + string option" where
  "key_text c path variable =
     (if truthy path then
        (case ct_read c (or_default path []) of None \<Rightarrow> Inl (No_such_file (or_default path [])) | Some t \<Rightarrow> Inr (Some t))
      else Inr (cut_env c variable))"

definition or_env :: "cut \<Rightarrow> string option \<Rightarrow> string \<Rightarrow> string option" where
  "or_env c flag variable = (case flag of Some v \<Rightarrow> Some v | None \<Rightarrow> cut_env c variable)"

definition cut_build :: "cut \<Rightarrow> build3 option" where
  "cut_build c =
     (case pa_hostBuild (ct_settings c) of
        Some b \<Rightarrow> Some b
      | None \<Rightarrow> host_build (or_default (cut_env c ''OPENWOP_HOST_BUILD'') []))"

definition cut_relaxations :: "cut \<Rightarrow> cut_failure + relaxation3 list option" where
  "cut_relaxations c =
     (let v = cut_env c ''OPENWOP_HOST_RELAXATIONS'' in
      if truthy v then
        (case ct_parseRelaxations c (or_default v []) of
           None \<Rightarrow> Inl (Refused_run 2)
         | Some Not_a_list \<Rightarrow> Inl (Threw (Thrown (TypeError ''map'')))
         | Some Null_relaxations \<Rightarrow> Inr None
         | Some (Relaxations rs) \<Rightarrow> Inr (Some rs))
      else Inr None)"

definition document_sha256 :: "'k crypto \<Rightarrow> cut \<Rightarrow> v3_error + string" where
  "document_sha256 cr c =
     refused (ebind (canonicalJSON int_ops (json_jv (JObj (ct_document c)))) (\<lambda>t. Inr (cr_sha256 cr t)))"

definition protocol_versions :: "jobject \<Rightarrow> string list" where
  "protocol_versions doc =
     (case js_get doc ''protocolVersions'' of
        Some (JArr vs) \<Rightarrow> map js_string vs
      | _ \<Rightarrow> [case js_get doc ''protocolVersion'' of None \<Rightarrow> [] | Some JNull \<Rightarrow> [] | Some v \<Rightarrow> js_string v])"

definition preferred_version :: "jobject \<Rightarrow> string" where
  "preferred_version doc =
     (case js_get doc ''preferredVersion'' of
        Some (JStr v) \<Rightarrow> v
      | _ \<Rightarrow> (case protocol_versions doc of [] \<Rightarrow> [] | v # vs \<Rightarrow> v))"

definition rung_json :: "derived_rung \<Rightarrow> json option" where
  "rung_json r =
     (case r of
        No_rung why \<Rightarrow> None
      | Rung g \<Rightarrow> map_option (\<lambda>(n, _). JObj [(''rung'', JStr n)]) (find (\<lambda>(_, x). x = g) rungs))"

definition non_pass_of :: "row3 list \<Rightarrow> non_pass3 list option" where
  "non_pass_of rows =
     (let rs = filter (\<lambda>r. r3_result r \<noteq> ''executed-pass'') rows in
      if rs = [] then None
      else Some (map (\<lambda>r. \<lparr>np_id = r3_id r, np_result = r3_result r, np_reason = or_default (r3_detail r) []\<rparr>) rs))"

definition draft_of :: "cut \<Rightarrow> derivation \<Rightarrow> string \<Rightarrow> build3 \<Rightarrow> string \<Rightarrow> relaxation3 list option \<Rightarrow> derived_rung \<Rightarrow> draft3" where
  "draft_of c d sha build keyId relaxations rung =
     (let doc = ct_document c; s = ct_settings c; rows = cut_rows c d in
      \<lparr>b3_bundleVersion = ''3'', b3_generatedAt = ct_now c,
       b3_suite = \<lparr>s3_name = ''@openwop/openwop-conformance'', s3_version = ct_version c, s3_targetMajor = int (ct_major c),
                   s3_specArtifactsVersion = (case ct_lock c of None \<Rightarrow> ''repo-layout'' | Some l \<Rightarrow> fst l),
                   s3_stampSha256 = map_option snd (ct_lock c)\<rparr>,
       b3_host = \<lparr>h3_name = host_text (pa_impl s) doc ''name'' ''unknown-host'',
                  h3_version = host_text (pa_implVersion s) doc ''version'' ''0.0.0'', h3_vendor = host_vendor doc,
                  h3_build = build, h3_signingKeyId = Some keyId,
                  h3_relaxations = (if relaxation_list relaxations = [] then None else relaxations),
                  h3_deployment = (if pa_colocatedCompanion s then Some ''colocated-companion'' else None)\<rparr>,
       b3_discovery = \<lparr>d3_url = ct_url c, d3_sha256 = sha, d3_protocolVersions = protocol_versions doc,
                       d3_preferredVersion = preferred_version doc, d3_document = Some doc\<rparr>,
       b3_claimedProfiles = claims_of c d relaxations, b3_totals = totals_of (de_totals d), b3_requirements = rows,
       b3_assertionCount = assertions3 rows, b3_detail = non_pass_of rows, b3_durability = rung_json rung,
       b3_verifierSignature = None\<rparr>)"

text \<open>The second signature of an independent tier, over the bundle without signatures.\<close>

definition countersigned :: "'k crypto \<Rightarrow> cut \<Rightarrow> bundle3 \<Rightarrow> bundle3 \<Rightarrow> cut_failure + bundle3" where
  "countersigned cr c unsigned b =
     (let s = ct_settings c in
      if pa_evidenceTier s \<noteq> ''independent'' then Inr b
      else
        ebind (key_text c (pa_verifierKeyPath s) ''OPENWOP_BUNDLE_VERIFIER_KEY'') (\<lambda>vk.
          let vkId = or_env c (pa_verifierKeyId s) ''OPENWOP_BUNDLE_VERIFIER_KEY_ID'' in
          if \<not> truthy vk \<or> \<not> truthy vkId then Inl (Refused_run 2)
          else ebind (threw (verifierSign cr unsigned (or_default vk []) (or_default vkId []))) (\<lambda>vs.
            Inr (b\<lparr>b3_verifierSignature := Some vs\<rparr>))))"

definition excused_kinds :: "string list" where
  "excused_kinds = [''blocked-certified'', ''independent-unverifiable'']"

definition cut_exit :: "cut \<Rightarrow> derivation \<Rightarrow> nat" where
  "cut_exit c d =
     (if rejected_profiles d \<noteq> [] then 3 else if Report_failed \<in> snd ` set (cut_states c) then 1 else 0)"

definition audited :: "'k crypto \<Rightarrow> (bundle3 \<Rightarrow> bool) \<Rightarrow> cut \<Rightarrow> derivation \<Rightarrow> string \<Rightarrow> bundle3 \<Rightarrow> string list \<Rightarrow> cut_failure + written" where
  "audited cr schema c d publicKey b redactedAt =
     ebind (threw (verifyBundleV3 cr (ct_registry c) b \<lparr>op_hostPublicKeyPem = Some publicKey, op_verifierPublicKeyPem = None\<rparr>)) (\<lambda>v.
       let defects = filter (\<lambda>r. rj3_kind r \<notin> set excused_kinds) (v3_rejections v) in
       if defects \<noteq> [] then Inl (Emitter_defect b defects)
       else if \<not> schema b then Inl (Off_schema b)
       else Inr \<lparr>wr_bundle = b, wr_verdict = v, wr_redactedAt = redactedAt, wr_exit = cut_exit c d\<rparr>)"

definition emit_v3 :: "'k crypto \<Rightarrow> (string \<Rightarrow> string) \<Rightarrow> (bundle3 \<Rightarrow> bool) \<Rightarrow> cut \<Rightarrow> cut_failure + written" where
  "emit_v3 cr publicKeyFromPrivate schema c =
     (let s = ct_settings c in
      ebind (threw (document_sha256 cr c)) (\<lambda>sha.
      ebind (threw_js (cut_derivation c)) (\<lambda>d.
      ebind (key_text c (pa_signingKeyPath s) ''OPENWOP_BUNDLE_SIGNING_KEY'') (\<lambda>pem.
        let keyId = or_env c (pa_signingKeyId s) ''OPENWOP_BUNDLE_SIGNING_KEY_ID'' in
        case cut_build c of
          None \<Rightarrow> Inl (Refused_run 2)
        | Some build \<Rightarrow>
            if \<not> truthy pem \<or> \<not> truthy keyId then Inl (Refused_run 2)
            else
              (let key = or_default pem []; i = or_default keyId [] in
               ebind (cut_relaxations c) (\<lambda>relaxations.
               ebind (threw_js (deriveRung (evidence_rows (cut_rows c d)))) (\<lambda>rung.
               ebind (threw (sealBundleV3 cr (draft_of c d sha build i relaxations rung)
                               (evidenceSecretsFromEnv (ct_env c) [ct_apiKey c, key] [i]) key i)) (\<lambda>(unsigned, b, redactedAt).
               ebind (countersigned cr c unsigned b) (\<lambda>b'.
                 audited cr schema c d (publicKeyFromPrivate key) b' redactedAt)))))))))"

section \<open>What is not redacted is kept\<close>

text \<open>A value without a member the scrubber's rebuilding would lose.\<close>

fun plain_json :: "json \<Rightarrow> bool" where
  "plain_json (JArr xs) = list_all plain_json xs"
| "plain_json (JObj es) = (distinct (map fst es) \<and> ''__proto__'' \<notin> fst ` set es \<and> list_all (\<lambda>(k, v). plain_json v) es)"
| "plain_json v = True"

lemma scrub_string_untouched: "\<not> string_hit live s \<Longrightarrow> scrubString sha live s = s"
proof -
  have keep: "foldl (\<lambda>out t. if has_sub t out then replace_all t (redactionMarker sha t) out else out) s ts = s"
    if "\<forall>t \<in> set ts. \<not> has_sub t s" for ts
    using that by (induction ts) auto
  assume "\<not> string_hit live s"
  then show ?thesis by (auto simp: string_hit_def scrubString_def replace_secrets_def keep)
qed

lemma scrub_walk_untouched:
  "plain_json v \<Longrightarrow> (\<And>s. string_in s v \<Longrightarrow> \<not> string_hit live s) \<Longrightarrow> scrub_walk sha live v = v"
proof (induction v rule: json_induct)
  case (Arr xs)
  then show ?case by (auto simp: string_in_simps list_all_iff intro!: map_idI)
next
  case (Obj es)
  have "map (\<lambda>(k, v). (scrubString sha live k, scrub_walk sha live v)) es = es"
  proof (rule map_idI)
    fix e assume e: "e \<in> set es"
    obtain k v where kv: "e = (k, v)" by (cases e)
    have "\<not> string_hit live k" using Obj.prems(2) e kv by (auto simp: string_in_simps)
    moreover have "scrub_walk sha live v = v"
    proof (rule Obj.IH)
      show "(k, v) \<in> set es" using e kv by simp
      with Obj.prems(1) show "plain_json v" by (auto simp: list_all_iff)
      show "\<not> string_hit live s" if "string_in s v" for s
        using Obj.prems(2) e kv that by (auto simp: string_in_simps)
    qed
    ultimately show "(case e of (k, v) \<Rightarrow> (scrubString sha live k, scrub_walk sha live v)) = e"
      by (simp add: kv scrub_string_untouched)
  qed
  with Obj.prems(1) show ?case by (simp add: js_assign_plain)
qed (auto simp: string_in_simps scrub_string_untouched)

lemma scrub_untouched:
  assumes "plain_json v" and "snd (scrubEvidence sha v secrets) = []"
  shows "fst (scrubEvidence sha v secrets) = v"
proof (cases "live_secrets secrets = []")
  case False
  then have "\<not> string_hit (live_secrets secrets) s" if "string_in s v" for s
    using assms(2) that json_strings_iff [of s "''$''" v] by (auto simp: scrubEvidence_def Let_def filter_empty_conv)
  then show ?thesis using scrub_walk_untouched [OF assms(1)] by (simp add: scrubEvidence_def Let_def)
qed (simp add: scrubEvidence_def)

text \<open>The parts of a draft that come from outside: the served document and the evidence of the ledger.\<close>

definition plain_cut :: "cut \<Rightarrow> bool" where
  "plain_cut c =
     (plain_json (JObj (ct_document c)) \<and>
      (\<forall>e \<in> set (ct_ledger c). case le_evidence e of None \<Rightarrow> True | Some j \<Rightarrow> plain_json j))"

lemma evidence_plain: "plain_cut c \<Longrightarrow> evidence_by_id (ct_ledger c) i = Some j \<Longrightarrow> plain_json j"
  by (auto simp: plain_cut_def evidence_by_id_def split: option.splits dest!: last_with_Some)

lemma row_plain: "plain_cut c \<Longrightarrow> plain_json (row_json (row_of_derived (ct_ledger c) r))"
  by (auto simp: row_json_def row_of_derived_def opt_json_def split: option.splits dest: evidence_plain)

lemma rung_plain: "rung_json g = Some j \<Longrightarrow> plain_json j"
  by (auto simp: rung_json_def split: derived_rung.splits)

lemma part_plain [simp]:
  "plain_json (profile_json p)" "plain_json (relaxation_json x)" "plain_json (suite_json s)" "plain_json (build_json b)"
  "plain_json (totals_json t)" "plain_json (non_pass_json n)" "plain_json (signature_json g)"
  by (auto simp: profile_json_def relaxation_json_def suite_json_def build_json_def totals_json_def non_pass_json_def
      signature_json_def opt_json_def list_all_iff split: option.splits)

lemma host_plain [simp]: "plain_json (host_json h)"
  by (auto simp: host_json_def opt_json_def list_all_iff split: option.splits)

lemma discovery_plain: "(\<And>doc. d3_document d = Some doc \<Longrightarrow> plain_json (JObj doc)) \<Longrightarrow> plain_json (discovery_json d)"
  by (auto simp: discovery_json_def opt_json_def list_all_iff split: option.splits)

lemma draft_plain: "plain_cut c \<Longrightarrow> plain_json (draft_json (draft_of c d sha build i relaxations g))"
proof -
  assume c: "plain_cut c"
  then have "plain_json (JObj (ct_document c))" by (simp add: plain_cut_def)
  then have "plain_json (discovery_json (b3_discovery (draft_of c d sha build i relaxations g)))"
    by (intro discovery_plain) (simp add: draft_of_def Let_def)
  moreover have "list_all plain_json (map row_json (cut_rows c d))"
    using c by (simp add: cut_rows_def list_all_iff row_plain)
  ultimately show ?thesis
    by (auto simp: draft_json_def draft_of_def Let_def opt_json_def list_all_iff split: option.splits dest: rung_plain)
qed

section \<open>What a written bundle is\<close>

lemma threw_Inr [simp]: "threw x = Inr a \<longleftrightarrow> x = Inr a" "threw_js y = Inr a \<longleftrightarrow> y = Inr a"
  by (simp_all add: threw_def threw_js_def split: sum.splits)

lemma threw_simps [simp]: "threw (Inr a) = Inr a" "threw_js (Inr a) = Inr a"
  by simp_all

lemma truthy_text: "truthy v \<longleftrightarrow> (\<exists>s. v = Some s \<and> s \<noteq> [])"
  by (cases v) (auto simp: truthy_def)

lemma audited_redactions: "audited cr schema c d p b rs = Inr w \<Longrightarrow> rs = wr_redactedAt w"
  by (auto simp: audited_def ebind_Inr_iff Let_def split: if_splits)

lemma emitted:
  assumes "emit_v3 cr pub schema c = Inr w"
  obtains sha d build pem i relaxations rung unsigned b b'
  where "document_sha256 cr c = Inr sha" and "cut_derivation c = Inr d" and "pem \<noteq> []" and "i \<noteq> []"
    and "key_text c (pa_signingKeyPath (ct_settings c)) ''OPENWOP_BUNDLE_SIGNING_KEY'' = Inr (Some pem)"
    and "or_env c (pa_signingKeyId (ct_settings c)) ''OPENWOP_BUNDLE_SIGNING_KEY_ID'' = Some i"
    and "cut_relaxations c = Inr relaxations" and "deriveRung (evidence_rows (cut_rows c d)) = Inr rung"
    and "sealBundleV3 cr (draft_of c d sha build i relaxations rung) (evidenceSecretsFromEnv (ct_env c) [ct_apiKey c, pem] [i]) pem i =
      Inr (unsigned, b, wr_redactedAt w)"
    and "countersigned cr c unsigned b = Inr b'"
    and "audited cr schema c d (pub pem) b' (wr_redactedAt w) = Inr w"
proof -
  note steps = ebind_Inr_iff threw_Inr
  let ?key = "key_text c (pa_signingKeyPath (ct_settings c)) ''OPENWOP_BUNDLE_SIGNING_KEY''"
  let ?id = "or_env c (pa_signingKeyId (ct_settings c)) ''OPENWOP_BUNDLE_SIGNING_KEY_ID''"
  obtain sha d pem where 1: "document_sha256 cr c = Inr sha" "cut_derivation c = Inr d" "?key = Inr pem"
    using assms by (auto simp: emit_v3_def Let_def steps)
  obtain build where 2: "cut_build c = Some build" "truthy pem" "truthy ?id"
    using assms 1 by (cases "cut_build c") (auto simp: emit_v3_def Let_def split: if_splits)
  obtain key i where 3: "pem = Some key" "key \<noteq> []" "?id = Some i" "i \<noteq> []" using 2(2,3) by (auto simp: truthy_text)
  obtain relaxations where 4: "cut_relaxations c = Inr relaxations"
    using assms 1 2 3 by (auto simp: emit_v3_def Let_def steps or_default_def)
  obtain rung where 5: "deriveRung (evidence_rows (cut_rows c d)) = Inr rung"
    using assms 1 2 3 4 by (auto simp: emit_v3_def Let_def steps or_default_def)
  obtain unsigned b rs where 6: "sealBundleV3 cr (draft_of c d sha build i relaxations rung)
      (evidenceSecretsFromEnv (ct_env c) [ct_apiKey c, key] [i]) key i = Inr (unsigned, b, rs)"
    using assms 1 2 3 4 5 by (auto simp: emit_v3_def Let_def steps or_default_def)
  obtain b' where 7: "countersigned cr c unsigned b = Inr b'" "audited cr schema c d (pub key) b' rs = Inr w"
    using assms 1 2 3 4 5 6 by (auto simp: emit_v3_def Let_def steps or_default_def)
  show ?thesis
    using that 1(1,2) 3(2,4) 1(3) 3(3) 4 5 6 7 audited_redactions [OF 7(2)] by (simp add: 3(1))
qed

lemma audited_parts:
  assumes "audited cr schema c d publicKey b rs = Inr w"
  shows "wr_bundle w = b" and "verifyBundleV3 cr (ct_registry c) b
           \<lparr>op_hostPublicKeyPem = Some publicKey, op_verifierPublicKeyPem = None\<rparr> = Inr (wr_verdict w)"
    and "\<forall>r \<in> set (v3_rejections (wr_verdict w)). rj3_kind r \<in> set excused_kinds"
  using assms by (auto simp: audited_def ebind_Inr_iff Let_def filter_empty_conv split: if_splits)

lemma countersigned_parts:
  assumes "countersigned cr c unsigned b = Inr b'"
  shows "b3_requirements b' = b3_requirements b \<and> b3_claimedProfiles b' = b3_claimedProfiles b \<and> b3_host b' = b3_host b \<and>
    b3_suite b' = b3_suite b \<and> b3_discovery b' = b3_discovery b \<and> b3_totals b' = b3_totals b \<and>
    (pa_evidenceTier (ct_settings c) \<noteq> ''independent'' \<longrightarrow> b' = b)"
  using assms by (auto simp: countersigned_def Let_def ebind_Inr_iff split: if_splits)

lemma untouched_seal:
  assumes "sealBundleV3 cr draft secrets pem i = Inr (unsigned, b, [])" and "plain_json (draft_json draft)"
  obtains w s where "b = with_signature draft w (Some s)"
proof -
  obtain d w s where d: "read_draft (fst (scrubEvidence (\<lambda>s. cr_sha256 cr (units_of s)) (draft_json draft) secrets)) = Some d"
    "b = with_signature d w (Some s)"
    using sealed [OF assms(1)] by metis
  have "snd (scrubEvidence (\<lambda>s. cr_sha256 cr (units_of s)) (draft_json draft) secrets) = []"
    using assms(1) by (auto simp: sealBundleV3_def Let_def ebind_Inr_iff split: prod.splits option.splits)
  then have "d = draft" using d(1) scrub_untouched [OF assms(2)] by (simp add: read_draft_json)
  with d(2) that show ?thesis by blast
qed

section \<open>What a redaction leaves of the captured document\<close>

text \<open>A marker contains a character that no member name and no hexadecimal digest has.\<close>

lemma replace_marks:
  assumes "t \<noteq> []" and "has_sub t s" shows "CHR 171 \<in> set (replace_all t (redactionMarker sha t) s)"
proof -
  obtain i where "index_of t s = Some i" using assms(2) by (auto simp: has_sub_def)
  with assms(1) show ?thesis by (subst replace_all.simps) (simp add: redactionMarker_def)
qed

lemma scrub_literal:
  assumes "[] \<notin> set live" and "CHR 171 \<notin> set (scrubString sha live s)" shows "scrubString sha live s = s"
proof -
  have "[] \<notin> set ts \<Longrightarrow>
      foldl (\<lambda>out t. if has_sub t out then replace_all t (redactionMarker sha t) out else out) s ts = s \<or>
      CHR 171 \<in> set (foldl (\<lambda>out t. if has_sub t out then replace_all t (redactionMarker sha t) out else out) s ts)" for s ts
  proof (induction ts arbitrary: s)
    case (Cons t ts)
    show ?case
    proof (cases "has_sub t s")
      case True
      with Cons.prems have m: "CHR 171 \<in> set (replace_all t (redactionMarker sha t) s)" by (intro replace_marks) auto
      show ?thesis using Cons.IH [of "replace_all t (redactionMarker sha t) s"] Cons.prems True m by auto
    qed (use Cons in simp)
  qed simp
  from this [OF assms(1), of s] show ?thesis using assms(2) by (auto simp: scrubString_def replace_secrets_def)
qed

lemma js_assign_members: "set (js_assign es) \<subseteq> set es"
proof -
  have upd: "set (AList.update k v m) \<subseteq> insert (k, v) (set m)" for k v and m :: jobject by (induction m) auto
  have "set (foldl (\<lambda>out (k, v). js_set k v out) out es) \<subseteq> set out \<union> set es" for out
  proof (induction es arbitrary: out)
    case (Cons e es)
    obtain k v where e: "e = (k, v)" by (cases e)
    have "set (js_set k v out) \<subseteq> insert (k, v) (set out)" using upd by (simp add: js_set_def subset_insertI)
    with Cons.IH [of "js_set k v out"] show ?case by (auto simp: e)
  qed simp
  from this [of "[]"] show ?thesis by (simp add: js_assign_def)
qed

lemma js_assign_names: "fst ` set es - {''__proto__''} \<subseteq> fst ` set (js_assign es)"
proof -
  have "fst ` set out \<union> (fst ` set es - {''__proto__''}) \<subseteq> fst ` set (foldl (\<lambda>out (k, v). js_set k v out) out es)" for out
  proof (induction es arbitrary: out)
    case (Cons e es)
    obtain k v where e: "e = (k, v)" by (cases e)
    have "fst ` set out \<union> ({k} - {''__proto__''}) \<subseteq> fst ` set (js_set k v out)" by (auto simp: js_set_def dom_update)
    moreover have "fst ` set (e # es) = insert k (fst ` set es)" by (simp add: e)
    moreover have "foldl (\<lambda>out (k, v). js_set k v out) out (e # es) = foldl (\<lambda>out (k, v). js_set k v out) (js_set k v out) es"
      by (simp add: e)
    ultimately show ?case using Cons.IH [of "js_set k v out"] by (simp only:) blast
  qed simp
  from this [of "[]"] show ?thesis by (simp add: js_assign_def)
qed

text \<open>A member that is read of a scrubbed object is the scrubbed member of that name.\<close>

lemma scrubbed_member:
  assumes "member (Some (scrub_walk sha live (JObj es))) k = Some v" and "[] \<notin> set live" and "CHR 171 \<notin> set k" and "proto_member k = None"
  shows "\<exists>v0. (k, v0) \<in> set es \<and> v = scrub_walk sha live v0"
proof -
  have "map_of (js_assign (map (\<lambda>(k, v). (scrubString sha live k, scrub_walk sha live v)) es)) k = Some v"
    using assms(1,4) by (simp add: member_entries js_get_plain)
  then have "(k, v) \<in> set (map (\<lambda>(k, v). (scrubString sha live k, scrub_walk sha live v)) es)"
    using js_assign_members by (blast dest: map_of_SomeD)
  then obtain k0 v0 where "(k0, v0) \<in> set es" "k = scrubString sha live k0" "v = scrub_walk sha live v0" by auto
  with assms(2,3) scrub_literal [of live sha k0] show ?thesis by auto
qed

lemma discovery_names:
  "proto_member ''discovery'' = None" "proto_member ''sha256'' = None" "proto_member ''document'' = None"
  "CHR 171 \<notin> set ''discovery''" "CHR 171 \<notin> set ''sha256''"
  by code_simp+

lemma live_nonempty: "[] \<notin> set (live_secrets secrets)"
  by (auto simp: live_secrets_def js_trim_def)

lemma live_subset: "set (live_secrets secrets) \<subseteq> set secrets"
  by (auto simp: live_secrets_def)

lemma read_discovery_parts:
  "read_discovery v = Some x \<Longrightarrow>
   member v ''sha256'' = Some (JStr (d3_sha256 x)) \<and> (d3_document x = None \<longrightarrow> member v ''document'' = None)"
  by (cases x, auto simp: read_discovery_def rd_str_def rd_opt_def split: Option.bind_splits option.splits json.splits) metis

lemma scrubbed_read:
  assumes "read_draft (fst (scrubEvidence sha (draft_json draft) secrets)) = Some d"
  shows "d = draft \<or>
    read_discovery (Some (scrub_walk sha (live_secrets secrets) (discovery_json (b3_discovery draft)))) = Some (b3_discovery d)"
proof (cases "live_secrets secrets = []")
  case True
  then show ?thesis using assms by (simp add: scrubEvidence_def read_draft_json)
next
  case False
  let ?live = "live_secrets secrets"
  obtain members where draft: "draft_json draft = JObj members" by (simp add: draft_json_def)
  let ?v = "Some (scrub_walk sha ?live (JObj members))"
  have "read_draft (scrub_walk sha ?live (JObj members)) = Some d"
    using assms False by (simp add: scrubEvidence_def Let_def draft del: scrub_walk.simps)
  then have rd: "read_discovery (member ?v ''discovery'') = Some (b3_discovery d)"
    by (auto simp: read_draft_def Let_def simp del: scrub_walk.simps split: Option.bind_splits)
  then obtain j where j: "member ?v ''discovery'' = Some j"
    by (cases "member ?v ''discovery''") (auto simp: read_discovery_def member_def rd_str_def)
  obtain v0 where "(''discovery'', v0) \<in> set members" "j = scrub_walk sha ?live v0"
    using scrubbed_member [OF j live_nonempty discovery_names(4,1)] by blast
  then have "j = scrub_walk sha ?live (discovery_json (b3_discovery draft))"
    using draft by (auto simp: draft_json_def opt_json_def split: option.splits)
  with rd j show ?thesis by simp
qed

text \<open>
  What a scrubbed draft, read back, says of the discovery document: a digest that is still a digest is the one it
  had, and a document that is gone was lost with its name.
\<close>

lemma scrubbed_digest:
  assumes "read_draft (fst (scrubEvidence sha (draft_json draft) secrets)) = Some d" and "CHR 171 \<notin> set (d3_sha256 (b3_discovery d))"
  shows "d3_sha256 (b3_discovery d) = d3_sha256 (b3_discovery draft)"
proof (cases "d = draft")
  case False
  let ?live = "live_secrets secrets"
  obtain es where es: "discovery_json (b3_discovery draft) = JObj es" by (simp add: discovery_json_def)
  have "member (Some (scrub_walk sha ?live (JObj es))) ''sha256'' = Some (JStr (d3_sha256 (b3_discovery d)))"
    using scrubbed_read [OF assms(1)] False read_discovery_parts unfolding es by blast
  from scrubbed_member [OF this live_nonempty discovery_names(5,2)] obtain v0 where
    v0: "(''sha256'', v0) \<in> set es" "JStr (d3_sha256 (b3_discovery d)) = scrub_walk sha ?live v0" by blast
  have "v0 = JStr (d3_sha256 (b3_discovery draft))"
    using v0(1) es by (auto simp: discovery_json_def opt_json_def split: option.splits)
  then have "d3_sha256 (b3_discovery d) = scrubString sha ?live (d3_sha256 (b3_discovery draft))" using v0(2) by simp
  with scrub_literal [OF live_nonempty] assms(2) show ?thesis by metis
qed simp

lemma scrubbed_document:
  assumes "read_draft (fst (scrubEvidence sha (draft_json draft) secrets)) = Some d"
    and doc: "d3_document (b3_discovery draft) = Some doc" and gone: "d3_document (b3_discovery d) = None"
  shows "\<exists>t \<in> set secrets. has_sub t ''document''"
proof (rule ccontr)
  let ?live = "live_secrets secrets"
  obtain es where es: "discovery_json (b3_discovery draft) = JObj es" by (simp add: discovery_json_def)
  let ?scrubbed = "map (\<lambda>(k, v). (scrubString sha ?live k, scrub_walk sha ?live v)) es"
  assume "\<not> (\<exists>t \<in> set secrets. has_sub t ''document'')"
  then have "\<not> string_hit ?live ''document''" using live_subset by (auto simp: string_hit_def)
  then have "scrubString sha ?live ''document'' = ''document''" by (rule scrub_string_untouched)
  moreover have "(''document'', JObj doc) \<in> set es" using doc es by (auto simp: discovery_json_def opt_json_def)
  ultimately have "''document'' \<in> fst ` set ?scrubbed" by force
  then have "''document'' \<in> fst ` set ?scrubbed - {''__proto__''}" by (intro DiffI) (assumption, simp)
  then have "''document'' \<in> fst ` set (js_assign ?scrubbed)" by (rule subsetD [OF js_assign_names])
  then have "member (Some (scrub_walk sha ?live (JObj es))) ''document'' \<noteq> None"
    by (simp add: member_entries js_get_plain [OF discovery_names(3)] map_of_eq_None_iff)
  moreover have "d \<noteq> draft" using doc gone by auto
  then have "member (Some (scrub_walk sha ?live (JObj es))) ''document'' = None"
    using scrubbed_read [OF assms(1)] read_discovery_parts gone unfolding es by blast
  ultimately show False by simp
qed

section \<open>The audit leaves nothing\<close>

lemmas kind_eval = excused_kinds_def reject_if_kind refusedAs_def

lemma record_not_excused: "r \<in> set (record_rejections cr b) \<Longrightarrow> rj3_kind r \<notin> set excused_kinds"
proof -
  have rows: "r \<in> set (rows_rejections seen rows) \<Longrightarrow> rj3_kind r \<notin> set excused_kinds" for seen rows
    by (induction seen rows rule: rows_rejections.induct) (auto simp: row_rejections3_def kind_eval)
  assume "r \<in> set (record_rejections cr b)"
  then show ?thesis
    using rows by (auto simp: record_rejections_def Let_def totals_rejections3_def kind_eval split: sum.splits)
qed

lemma attestation_not_excused:
  "check_attestation cr kind b pem sig = Inr (rs, v) \<Longrightarrow> r \<in> set rs \<Longrightarrow> rj3_kind r = kind"
  by (auto simp: check_attestation_def Let_def kind_eval split: option.splits sum.splits)

lemma signature_not_excused:
  "check_signature cr b opts = Inr (rs, v) \<Longrightarrow> r \<in> set rs \<Longrightarrow> rj3_kind r \<notin> set excused_kinds"
  by (auto simp: check_signature_def excused_kinds_def split: option.splits if_splits dest: attestation_not_excused)

lemma scoped_not_excused:
  "r \<in> set (observed_rejections reg b) \<Longrightarrow> rj3_kind r \<notin> set excused_kinds"
  "r \<in> set (relaxed_rejections reg b) \<Longrightarrow> rj3_kind r \<notin> set excused_kinds"
  "r \<in> set (fst (check_document cr reg b)) \<Longrightarrow> rj3_kind r \<notin> set excused_kinds"
  by (auto simp: observed_rejections_def relaxed_rejections_def check_document_def derivability_rejections_def kind_eval
      split: option.splits sum.splits if_splits)

lemma rung_not_excused: "check_rung b = Inr rs \<Longrightarrow> r \<in> set rs \<Longrightarrow> rj3_kind r \<notin> set excused_kinds"
  by (auto simp: check_rung_Inr kind_eval)

lemma independent_audit:
  assumes "check_independent cr b opts = Inr (rs, v)" and "op_verifierPublicKeyPem opts = None"
    and "\<forall>r \<in> set rs. rj3_kind r \<in> set excused_kinds"
  shows "rs = (if claims_independent b then [reject ''independent-unverifiable''] else [])"
  using assms by (auto simp: check_independent_def excused_kinds_def given_key_def reject_def split: option.splits if_splits)

text \<open>What the self-audit lets through is no rejection, or the one an independent tier cannot avoid.\<close>

lemma clean_audit:
  assumes "verifyBundleV3 cr reg b opts = Inr v" and "\<forall>r \<in> set (v3_rejections v). rj3_kind r \<in> set excused_kinds"
    and "op_verifierPublicKeyPem opts = None" and "\<not> (0 < count3 (b3_requirements b) ''blocked'' \<and> certified_claims reg b \<noteq> [])"
  shows "v3_rejections v = (if claims_independent b then [reject ''independent-unverifiable''] else [])"
proof -
  obtain s where s: "check_signature cr b opts = Inr s" using assms(1) by (auto simp: verifyBundleV3_def ebind_Inr_iff)
  obtain ind iv where i: "check_independent cr b opts = Inr (ind, iv)" using assms(1) s by (auto simp: verifyBundleV3_def ebind_Inr_iff)
  obtain rs where r: "check_rung b = Inr rs" using assms(1) s i by (auto simp: verifyBundleV3_def ebind_Inr_iff)
  have v: "v3_rejections v = record_rejections cr b @ fst s @ ind @ rs @ observed_rejections reg b @ relaxed_rejections reg b @
      fst (check_document cr reg b)"
    using assms(1,4) s i r by (auto simp: verifyBundleV3_def Let_def reject_if_def)
  note excused = assms(2) [unfolded v]
  have none: "xs = []" if "set xs \<subseteq> set (v3_rejections v)" and "\<And>r. r \<in> set xs \<Longrightarrow> rj3_kind r \<notin> set excused_kinds" for xs
    using that assms(2) by (cases xs) auto
  have "record_rejections cr b = []" by (rule none) (use record_not_excused in \<open>auto simp: v\<close>)
  moreover have "fst s = []" by (rule none) (use signature_not_excused [of cr b opts "fst s" "snd s"] s in \<open>auto simp: v\<close>)
  moreover have "rs = []" by (rule none) (use rung_not_excused [OF r] in \<open>auto simp: v\<close>)
  moreover have "observed_rejections reg b = []" by (rule none) (use scoped_not_excused(1) in \<open>auto simp: v\<close>)
  moreover have "relaxed_rejections reg b = []" by (rule none) (use scoped_not_excused(2) in \<open>auto simp: v\<close>)
  moreover have "fst (check_document cr reg b) = []" by (rule none) (use scoped_not_excused(3) in \<open>auto simp: v\<close>)
  moreover have "ind = (if claims_independent b then [reject ''independent-unverifiable''] else [])"
    using independent_audit [OF i assms(3)] excused by simp
  ultimately show ?thesis by (simp add: v)
qed

lemma name_of_blocked: "disposition_name d = ''blocked'' \<longleftrightarrow> d = Blocked"
  by (cases d) (simp_all add: disposition_name_def)

lemma blocked_total:
  assumes "cut_derivation c = Inr d"
  shows "count3 (cut_rows c d) ''blocked'' = int (dt_blocked (de_totals d))"
proof -
  have t: "de_totals d = foldl add_total no_totals (de_requirements d)"
    using assms by (auto simp: cut_derivation_def deriveRequirementDispositions_def Let_def ebind_Inr_iff)
  have "filter (\<lambda>r. r3_result r = ''blocked'') (cut_rows c d) =
      map (row_of_derived (ct_ledger c)) (filter (\<lambda>r. dr_disposition r = Blocked) (de_requirements d))"
    by (simp add: cut_rows_def filter_map comp_def row_of_derived_def name_of_blocked)
  then show ?thesis by (simp add: count3_def t totals_count no_totals_def disposition_count_def)
qed

text \<open>What a bundle written without a redaction holds.\<close>

lemma written_parts:
  assumes "emit_v3 cr pub schema c = Inr w" and "wr_redactedAt w = []" and "plain_cut c"
  obtains d relaxations pem where "cut_derivation c = Inr d" and "cut_relaxations c = Inr relaxations"
    and "key_text c (pa_signingKeyPath (ct_settings c)) ''OPENWOP_BUNDLE_SIGNING_KEY'' = Inr (Some pem)"
    and "b3_requirements (wr_bundle w) = cut_rows c d" and "b3_claimedProfiles (wr_bundle w) = claims_of c d relaxations"
    and "h3_relaxations (b3_host (wr_bundle w)) = (if relaxation_list relaxations = [] then None else relaxations)"
    and "d3_document (b3_discovery (wr_bundle w)) = Some (ct_document c)"
    and "verifyBundleV3 cr (ct_registry c) (wr_bundle w)
           \<lparr>op_hostPublicKeyPem = Some (pub pem), op_verifierPublicKeyPem = None\<rparr> = Inr (wr_verdict w)"
    and "\<forall>r \<in> set (v3_rejections (wr_verdict w)). rj3_kind r \<in> set excused_kinds"
proof -
  obtain sha d build pem i relaxations rung unsigned b b' where e: "cut_derivation c = Inr d" "cut_relaxations c = Inr relaxations"
    "key_text c (pa_signingKeyPath (ct_settings c)) ''OPENWOP_BUNDLE_SIGNING_KEY'' = Inr (Some pem)"
    "sealBundleV3 cr (draft_of c d sha build i relaxations rung) (evidenceSecretsFromEnv (ct_env c) [ct_apiKey c, pem] [i]) pem i =
      Inr (unsigned, b, [])"
    "countersigned cr c unsigned b = Inr b'" "audited cr schema c d (pub pem) b' [] = Inr w"
    using emitted [OF assms(1)] assms(2) by metis
  obtain wd s where b: "b = with_signature (draft_of c d sha build i relaxations rung) wd (Some s)"
    using untouched_seal [OF e(4) draft_plain [OF assms(3)]] by metis
  note w = audited_parts [OF e(6)]
  show ?thesis
    using countersigned_parts [OF e(5)] w
    by (intro that [OF e(1,2,3)]) (simp_all add: b draft_of_def Let_def)
qed

lemma verdict_parts:
  assumes "verifyBundleV3 cr reg b opts = Inr v"
  shows "v3_certifiedProfiles v = certified_of (v3_rejections v) (certified_claims reg b)"
    and "set (relaxed_rejections reg b) \<subseteq> set (v3_rejections v)"
  using assms by (auto simp: verifyBundleV3_def ebind_Inr_iff Let_def)

lemma find_in: "find P xs = Some x \<Longrightarrow> x \<in> set xs \<and> P x"
  by (auto simp: find_Some_iff)

lemma written_verdict:
  assumes "emit_v3 cr pub schema c = Inr w" and "wr_redactedAt w = []" and "plain_cut c"
  shows "v3_rejections (wr_verdict w) = (if claims_independent (wr_bundle w) then [reject ''independent-unverifiable''] else [])"
    and "v3_certifiedProfiles (wr_verdict w) =
      (if claims_independent (wr_bundle w) then [] else certified_claims (ct_registry c) (wr_bundle w))"
    and "relaxed_rejections (ct_registry c) (wr_bundle w) = []"
    and "claims_independent (wr_bundle w) \<longleftrightarrow>
      pa_evidenceTier (ct_settings c) = ''independent'' \<and> b3_claimedProfiles (wr_bundle w) \<noteq> []"
proof -
  obtain d relaxations pem where w: "cut_derivation c = Inr d" "b3_requirements (wr_bundle w) = cut_rows c d"
    "b3_claimedProfiles (wr_bundle w) = claims_of c d relaxations"
    "verifyBundleV3 cr (ct_registry c) (wr_bundle w)
       \<lparr>op_hostPublicKeyPem = Some (pub pem), op_verifierPublicKeyPem = None\<rparr> = Inr (wr_verdict w)"
    "\<forall>r \<in> set (v3_rejections (wr_verdict w)). rj3_kind r \<in> set excused_kinds"
    using written_parts [OF assms(1-3)] by metis
  have "\<not> (0 < count3 (b3_requirements (wr_bundle w)) ''blocked'' \<and> certified_claims (ct_registry c) (wr_bundle w) \<noteq> [])"
    by (auto simp: w(2) blocked_total [OF w(1)] certified_claims_def w(3) claims_of_def may_certify_def filter_empty_conv)
  from clean_audit [OF w(4,5) _ this] show
    clean: "v3_rejections (wr_verdict w) = (if claims_independent (wr_bundle w) then [reject ''independent-unverifiable''] else [])" by simp
  show "v3_certifiedProfiles (wr_verdict w) = (if claims_independent (wr_bundle w) then [] else certified_claims (ct_registry c) (wr_bundle w))"
    using verdict_parts(1) [OF w(4)] by (simp add: clean certified_of_def)
  have "r \<notin> set (relaxed_rejections (ct_registry c) (wr_bundle w))" for r
    using verdict_parts(2) [OF w(4)] w(5) scoped_not_excused(2) by blast
  then show "relaxed_rejections (ct_registry c) (wr_bundle w) = []" by (metis list.set_intros(1) neq_Nil_conv)
  show "claims_independent (wr_bundle w) \<longleftrightarrow>
      pa_evidenceTier (ct_settings c) = ''independent'' \<and> b3_claimedProfiles (wr_bundle w) \<noteq> []"
    by (auto simp: claims_independent_def w(3) claims_of_def filter_empty_conv)
qed

lemma marked_is_certified:
  "relaxed_rejections reg b = [] \<Longrightarrow> p \<in> set (certified_claims reg b) \<longleftrightarrow> claims_certified b p"
  by (auto simp: certified_claims_def claims_certified_def relaxed_rejections_def filter_empty_conv)

lemma written_is_clean:
  assumes "emit_v3 cr pub schema c = Inr w" and "wr_redactedAt w = []" and "plain_cut c"
    and "pa_evidenceTier (ct_settings c) \<noteq> ''independent''"
  shows "v3_rejections (wr_verdict w) = []"
    and "p \<in> set (v3_certifiedProfiles (wr_verdict w)) \<longleftrightarrow> claims_certified (wr_bundle w) p"
  using written_verdict [OF assms(1-3)] assms(4) marked_is_certified by simp_all

text \<open>
  Claim C5: a bundle that is written without a redaction says what its own verifier says. When it claims a profile at the
  independent tier, whose second key the emitter does not give its self-audit, the verdict has the one rejection
  \<open>independent-unverifiable\<close> and certifies nothing; otherwise the verdict under the key that signed it has no rejection
  of any kind, and the profiles it certifies are exactly those the bundle marks as certified. The served document and
  the evidence of the ledger are taken as objects without a repeated member or one named \<open>__proto__\<close>.
\<close>

theorem written_bundle_is_its_verdict:
  assumes "emit_v3 cr pub schema c = Inr w" and "wr_redactedAt w = []" and "plain_cut c"
  shows "v3_rejections (wr_verdict w) = (if claims_independent (wr_bundle w) then [reject ''independent-unverifiable''] else []) \<and>
    set (v3_certifiedProfiles (wr_verdict w)) =
      (if claims_independent (wr_bundle w) then {} else {p. claims_certified (wr_bundle w) p}) \<and>
    (claims_independent (wr_bundle w) \<longleftrightarrow>
      pa_evidenceTier (ct_settings c) = ''independent'' \<and> b3_claimedProfiles (wr_bundle w) \<noteq> [])"
  using written_verdict [OF assms] marked_is_certified by auto

lemma verdict_includes:
  assumes "verifyBundleV3 cr reg b opts = Inr v" and "check_signature cr b opts = Inr (srs, sv)"
  shows "set (record_rejections cr b) \<union> set srs \<union> set (observed_rejections reg b) \<union> set (relaxed_rejections reg b) \<union>
      set (fst (check_document cr reg b)) \<subseteq> set (v3_rejections v)"
  using assms by (auto simp: verifyBundleV3_def ebind_Inr_iff Let_def)

lemma none_excused: "(\<And>r. r \<in> set rs \<Longrightarrow> rj3_kind r \<notin> set excused_kinds) \<Longrightarrow> (\<And>r. r \<in> set rs \<Longrightarrow> rj3_kind r \<in> set excused_kinds) \<Longrightarrow> rs = []"
  by (cases rs) auto

definition bundle_stands :: "'k crypto \<Rightarrow> registry \<Rightarrow> bundle3 \<Rightarrow> string \<Rightarrow> bool" where
  "bundle_stands cr reg b key =
     (record_ok cr b \<and> (\<exists>sig. b3_signature b = Some sig \<and> attests cr b key (sg_sig sig)) \<and>
      (\<forall>doc. d3_document (b3_discovery b) = Some doc \<longrightarrow> document_digest_ok cr b doc) \<and>
      (\<forall>p. claims_certified b p \<longrightarrow> p \<notin> set (relaxed_profiles reg b) \<and> p \<notin> set (observed_relaxed reg b)))"

lemma written_stands:
  assumes "emit_v3 cr pub schema c = Inr w" and "\<And>k. pub k \<noteq> []"
  obtains pem where "key_text c (pa_signingKeyPath (ct_settings c)) ''OPENWOP_BUNDLE_SIGNING_KEY'' = Inr (Some pem)"
    and "bundle_stands cr (ct_registry c) (wr_bundle w) (pub pem)"
proof -
  let ?b = "wr_bundle w" and ?reg = "ct_registry c"
  obtain d pem b' where k: "key_text c (pa_signingKeyPath (ct_settings c)) ''OPENWOP_BUNDLE_SIGNING_KEY'' = Inr (Some pem)"
    and "audited cr schema c d (pub pem) b' (wr_redactedAt w) = Inr w"
    using emitted [OF assms(1)] by metis
  note a = audited_parts [OF this(2)]
  let ?opts = "\<lparr>op_hostPublicKeyPem = Some (pub pem), op_verifierPublicKeyPem = None\<rparr>"
  have v: "verifyBundleV3 cr ?reg ?b ?opts = Inr (wr_verdict w)" using a(1,2) by simp
  have excused: "r \<in> set (v3_rejections (wr_verdict w)) \<Longrightarrow> rj3_kind r \<in> set excused_kinds" for r
    using a(3) by blast
  obtain srs sv where s: "check_signature cr ?b ?opts = Inr (srs, sv)" using v by (auto simp: verifyBundleV3_def ebind_Inr_iff)
  have sub: "set (record_rejections cr ?b) \<union> set srs \<union> set (observed_rejections ?reg ?b) \<union> set (relaxed_rejections ?reg ?b) \<union>
      set (fst (check_document cr ?reg ?b)) \<subseteq> set (v3_rejections (wr_verdict w))"
    by (rule verdict_includes [OF v s])
  have e: "record_rejections cr ?b = []" "srs = []" "observed_rejections ?reg ?b = []" "relaxed_rejections ?reg ?b = []"
    "fst (check_document cr ?reg ?b) = []"
    by (rule none_excused; use record_not_excused signature_not_excused [OF s] scoped_not_excused excused sub in blast)+
  have key: "given_key (Some (pub pem)) = Some (pub pem)" using assms(2) [of pem] by (cases "pub pem") (auto simp: given_key_def)
  have "\<exists>sig. b3_signature ?b = Some sig \<and> attests cr ?b (pub pem) (sg_sig sig)"
    using check_signature_ok [OF s] e(2) key by (auto simp: signature_ok_def)
  moreover have "document_digest_ok cr ?b doc" if "d3_document (b3_discovery ?b) = Some doc" for doc
    using document_rejections [of cr ?reg ?b] e(5) that by (simp add: document_ok_def)
  moreover have "p \<notin> set (relaxed_profiles ?reg ?b) \<and> p \<notin> set (observed_relaxed ?reg ?b)" if p: "claims_certified ?b p" for p
    using claims_scoped(1,2) [of p ?reg ?b] e(3,4) p by auto
  ultimately show ?thesis using that [OF k] e(1) by (simp add: bundle_stands_def record_Nil)
qed

lemma countersigned_discovery: "countersigned cr c unsigned b = Inr b' \<Longrightarrow> b3_discovery b' = b3_discovery b"
  using countersigned_parts by blast

text \<open>The secrets of a run: those of the environment, the API key and the signing key, less the key's id.\<close>

definition run_secrets :: "cut \<Rightarrow> string list" where
  "run_secrets c =
     evidenceSecretsFromEnv (ct_env c)
       [ct_apiKey c, (case key_text c (pa_signingKeyPath (ct_settings c)) ''OPENWOP_BUNDLE_SIGNING_KEY'' of Inr (Some pem) \<Rightarrow> pem | _ \<Rightarrow> [])]
       [or_default (or_env c (pa_signingKeyId (ct_settings c)) ''OPENWOP_BUNDLE_SIGNING_KEY_ID'') []]"

text \<open>What is written of the discovery document, redacted or not.\<close>

lemma written_discovery:
  assumes "emit_v3 cr pub schema c = Inr w"
  obtains sha where "document_sha256 cr c = Inr sha"
    and "CHR 171 \<notin> set (d3_sha256 (b3_discovery (wr_bundle w))) \<Longrightarrow> d3_sha256 (b3_discovery (wr_bundle w)) = sha"
    and "d3_document (b3_discovery (wr_bundle w)) = None \<Longrightarrow> \<exists>t \<in> set (run_secrets c). has_sub t ''document''"
proof -
  obtain sha d build pem i relaxations rung unsigned b b' where e: "document_sha256 cr c = Inr sha"
    "key_text c (pa_signingKeyPath (ct_settings c)) ''OPENWOP_BUNDLE_SIGNING_KEY'' = Inr (Some pem)"
    "or_env c (pa_signingKeyId (ct_settings c)) ''OPENWOP_BUNDLE_SIGNING_KEY_ID'' = Some i"
    "sealBundleV3 cr (draft_of c d sha build i relaxations rung) (evidenceSecretsFromEnv (ct_env c) [ct_apiKey c, pem] [i]) pem i =
      Inr (unsigned, b, wr_redactedAt w)"
    "countersigned cr c unsigned b = Inr b'" "audited cr schema c d (pub pem) b' (wr_redactedAt w) = Inr w"
    using emitted [OF assms] by metis
  let ?draft = "draft_of c d sha build i relaxations rung"
  have secrets: "evidenceSecretsFromEnv (ct_env c) [ct_apiKey c, pem] [i] = run_secrets c"
    by (simp add: run_secrets_def e(2,3) or_default_def)
  obtain d' wd s where d': "read_draft (fst (scrubEvidence (\<lambda>s. cr_sha256 cr (units_of s)) (draft_json ?draft) (run_secrets c))) = Some d'"
    "b = with_signature d' wd (Some s)"
    using sealed [OF e(4)] unfolding secrets by metis
  have served: "d3_sha256 (b3_discovery ?draft) = sha" "d3_document (b3_discovery ?draft) = Some (ct_document c)"
    by (simp_all add: draft_of_def Let_def)
  have disc: "b3_discovery (wr_bundle w) = b3_discovery d'"
    using audited_parts(1) [OF e(6)] countersigned_discovery [OF e(5)] d'(2) by simp
  show ?thesis
    using that [OF e(1)] scrubbed_digest [OF d'(1)] scrubbed_document [OF d'(1) served(2)] unfolding disc served by blast
qed

text \<open>
  Claim C6: whatever was redacted, a bundle is written only when it stands: its rows, totals, digest and
  assertion count agree; its signature attests it under the key of the run; the document it holds has the SHA-256, over
  the canonical text, that the document the host served has, so a redaction inside the document stops the run, and it is the
  served document itself when nothing was redacted; it holds none only when the word \<open>document\<close> contains a
  secret of the run; and no profile a relaxation touches is marked as certified. A digest is taken to be written
  without the character that opens a redaction marker, and the public key of a private one to be non-empty.
\<close>

theorem written_bundle_stands:
  assumes "emit_v3 cr pub schema c = Inr w" and "\<And>k. pub k \<noteq> []" and "\<And>t. CHR 171 \<notin> set (cr_sha256 cr t)"
  shows "record_ok cr (wr_bundle w) \<and>
    (\<exists>sig pem. b3_signature (wr_bundle w) = Some sig \<and>
       key_text c (pa_signingKeyPath (ct_settings c)) ''OPENWOP_BUNDLE_SIGNING_KEY'' = Inr (Some pem) \<and>
       attests cr (wr_bundle w) (pub pem) (sg_sig sig)) \<and>
    (case d3_document (b3_discovery (wr_bundle w)) of
       Some doc \<Rightarrow>
         (\<exists>t served. canonicalJSON int_ops (json_jv (JObj doc)) = Inr t \<and>
            canonicalJSON int_ops (json_jv (JObj (ct_document c))) = Inr served \<and>
            cr_sha256 cr t = cr_sha256 cr served \<and> d3_sha256 (b3_discovery (wr_bundle w)) = cr_sha256 cr served)
     | None \<Rightarrow> \<exists>s \<in> set (run_secrets c). has_sub s ''document'') \<and>
    (wr_redactedAt w = [] \<and> plain_cut c \<longrightarrow> d3_document (b3_discovery (wr_bundle w)) = Some (ct_document c)) \<and>
    (\<forall>p. claims_certified (wr_bundle w) p \<longrightarrow>
       p \<notin> set (relaxed_profiles (ct_registry c) (wr_bundle w)) \<and> p \<notin> set (observed_relaxed (ct_registry c) (wr_bundle w)))"
proof (intro conjI)
  let ?b = "wr_bundle w"
  obtain pem where p: "key_text c (pa_signingKeyPath (ct_settings c)) ''OPENWOP_BUNDLE_SIGNING_KEY'' = Inr (Some pem)"
    and stands: "bundle_stands cr (ct_registry c) ?b (pub pem)"
    using written_stands [OF assms(1,2)] by metis
  obtain sha where sha: "document_sha256 cr c = Inr sha"
    "CHR 171 \<notin> set (d3_sha256 (b3_discovery ?b)) \<Longrightarrow> d3_sha256 (b3_discovery ?b) = sha"
    "d3_document (b3_discovery ?b) = None \<Longrightarrow> \<exists>t \<in> set (run_secrets c). has_sub t ''document''"
    using written_discovery [OF assms(1)] by metis
  show "record_ok cr ?b" "\<forall>p. claims_certified ?b p \<longrightarrow>
      p \<notin> set (relaxed_profiles (ct_registry c) ?b) \<and> p \<notin> set (observed_relaxed (ct_registry c) ?b)"
    "\<exists>sig pem. b3_signature ?b = Some sig \<and>
       key_text c (pa_signingKeyPath (ct_settings c)) ''OPENWOP_BUNDLE_SIGNING_KEY'' = Inr (Some pem) \<and> attests cr ?b (pub pem) (sg_sig sig)"
    using stands p by (auto simp: bundle_stands_def)
  show "wr_redactedAt w = [] \<and> plain_cut c \<longrightarrow> d3_document (b3_discovery ?b) = Some (ct_document c)"
    using written_parts [OF assms(1)] by metis
  obtain served where served: "canonicalJSON int_ops (json_jv (JObj (ct_document c))) = Inr served" "sha = cr_sha256 cr served"
    using sha(1) by (auto simp: document_sha256_def refused_def ebind_Inr_iff split: sum.splits)
  show "case d3_document (b3_discovery ?b) of
       Some doc \<Rightarrow>
         (\<exists>t served. canonicalJSON int_ops (json_jv (JObj doc)) = Inr t \<and>
            canonicalJSON int_ops (json_jv (JObj (ct_document c))) = Inr served \<and>
            cr_sha256 cr t = cr_sha256 cr served \<and> d3_sha256 (b3_discovery ?b) = cr_sha256 cr served)
     | None \<Rightarrow> \<exists>s \<in> set (run_secrets c). has_sub s ''document''"
  proof (cases "d3_document (b3_discovery ?b)")
    case (Some doc)
    then obtain t where t: "canonicalJSON int_ops (json_jv (JObj doc)) = Inr t" "cr_sha256 cr t = d3_sha256 (b3_discovery ?b)"
      using stands by (auto simp: bundle_stands_def document_digest_ok_def)
    with assms(3) [of t] sha(2) have "d3_sha256 (b3_discovery ?b) = sha" by simp
    with t served Some show ?thesis by auto
  qed (use sha(3) in simp)
qed

section \<open>What a certified profile rests on\<close>

lemma report_keys: "f \<in> fst ` set (scenarioStatesFromReport results) \<Longrightarrow> \<exists>r \<in> set results. map_option scenarioBasename (rf_name r) = Some f"
proof -
  have "f \<in> fst ` set (foldl (\<lambda>states r. case rf_name r of None \<Rightarrow> states
        | Some n \<Rightarrow> AList.update (scenarioBasename n) (report_status (rf_statuses r)) states) states results) \<Longrightarrow>
      f \<in> fst ` set states \<or> (\<exists>r \<in> set results. map_option scenarioBasename (rf_name r) = Some f)" for states
  proof (induction results arbitrary: states)
    case (Cons r results)
    show ?case
    proof (cases "rf_name r")
      case None
      with Cons show ?thesis by simp
    next
      case (Some n)
      with Cons.prems Cons.IH [of "AList.update (scenarioBasename n) (report_status (rf_statuses r)) states"]
      have "f \<in> insert (scenarioBasename n) (fst ` set states) \<or> (\<exists>r \<in> set results. map_option scenarioBasename (rf_name r) = Some f)"
        by (simp add: dom_update)
      with Some show ?thesis by auto
    qed
  qed simp
  from this [of "[]"] show "f \<in> fst ` set (scenarioStatesFromReport results) \<Longrightarrow>
      \<exists>r \<in> set results. map_option scenarioBasename (rf_name r) = Some f"
    by (simp add: scenarioStatesFromReport_def)
qed

text \<open>
  Claim C3: nothing is certified on silence, end to end: if a major-2 run with a ledger writes a bundle, then for
  every profile its verdict certifies the served document derives the profile, no relaxation touches it, no
  row is blocked, and the ledger has for every file of the profile's floor an entry that stands, and for one
  of them a pass with assertions.
\<close>

theorem certified_profile_is_witnessed:
  assumes "emit_v3 cr pub schema c = Inr w" and "wr_redactedAt w = []" and "plain_cut c"
    and "pa_evidenceTier (ct_settings c) \<noteq> ''independent''" and "ct_major c = 2" and "ct_ledger c \<noteq> []"
    and "\<forall>r \<in> set (ct_report c). \<forall>n. rf_name r = Some n \<longrightarrow> scenario_name (scenarioBasename n)"
    and "p \<in> set (v3_certifiedProfiles (wr_verdict w))"
  shows "v2ProfileDerivable (ct_registry c) (ct_document c) p \<and>
    p \<notin> set (relaxed_profiles (ct_registry c) (wr_bundle w)) \<and> p \<notin> set (observed_relaxed (ct_registry c) (wr_bundle w)) \<and>
    (\<forall>r \<in> set (b3_requirements (wr_bundle w)). r3_result r \<noteq> ''blocked'') \<and>
    (\<exists>files. map_of (ct_floors c) p = Some files \<and>
       (\<forall>f \<in> set files. \<exists>e \<in> set (ct_ledger c). le_requirementId e = requirementIdForScenario f \<and> entry_stands e) \<and>
       (\<exists>f \<in> set files. \<exists>e \<in> set (ct_ledger c). le_requirementId e = requirementIdForScenario f \<and> entry_witnesses e))"
proof -
  obtain d relaxations pem where w: "cut_derivation c = Inr d" "b3_claimedProfiles (wr_bundle w) = claims_of c d relaxations"
    "verifyBundleV3 cr (ct_registry c) (wr_bundle w)
       \<lparr>op_hostPublicKeyPem = Some (pub pem), op_verifierPublicKeyPem = None\<rparr> = Inr (wr_verdict w)"
    using written_parts [OF assms(1-3)] by metis
  have claimed: "p \<in> set (cut_claimed c)" and may: "may_certify c d relaxations p"
    using written_is_clean(2) [OF assms(1-4)] assms(8) by (auto simp: claims_certified_def w(2) claims_of_def)
  obtain v where v: "v \<in> set (de_verdicts d)" "dv_profile v = p" "dv_certifiable v"
    using may by (auto simp: may_certify_def verdict_for_def split: option.splits dest: find_in)
  have names: "\<forall>f \<in> fst ` set (cut_states c). scenario_name f"
    using assms(7) report_keys [of _ "ct_report c"] by (fastforce simp: cut_states_def)
  have "deriveRequirementDispositions (ct_collate c) (ct_floorFiles c) (Some (ct_floors c)) (cut_states c) (ct_ledger c)
       (cut_claimed c) (Some (ct_document c)) = Inr d"
    using w(1) assms(5) by (simp add: cut_derivation_def cut_v2floors_def)
  from major2_on_the_ledger [OF this v(1,3) assms(6) names] v(2) have floor:
    "\<exists>files. map_of (ct_floors c) p = Some files \<and>
       (\<forall>f \<in> set files. \<exists>e \<in> set (ct_ledger c). le_requirementId e = requirementIdForScenario f \<and> entry_stands e) \<and>
       (\<exists>f \<in> set files. \<exists>e \<in> set (ct_ledger c). le_requirementId e = requirementIdForScenario f \<and> entry_witnesses e)"
    by simp
  have "bundle_ok cr (ct_registry c) (wr_bundle w) \<lparr>op_hostPublicKeyPem = Some (pub pem), op_verifierPublicKeyPem = None\<rparr> \<and>
      profile_ok (ct_registry c) (wr_bundle w) p"
    using certified_iff [OF w(3)] assms(8) by blast
  moreover have "v2ProfileDerivable (ct_registry c) (ct_document c) p"
    using claimed assms(5)
    by (cases "v2ProfileIds (ct_registry c) (ct_document c)") (auto simp: cut_claimed_def claimedProfilesForV2_def v2ProfileDerivable_def)
  ultimately show ?thesis using floor by (auto simp: bundle_ok_def profile_ok_def)
qed

section \<open>A run that certifies\<close>

text \<open>A digest that is always the same keeps the example small; the signing scheme is the sample one.\<close>

definition flat_crypto :: "string crypto" where
  "flat_crypto = sample_crypto\<lparr>cr_sha256 := (\<lambda>u. ''d'')\<rparr>"

definition sample_cut :: cut where
  "sample_cut =
     \<lparr>ct_settings = (no_args None)\<lparr>pa_hostBuild := Some \<lparr>bd_kind = ''commit'', bd_id = ''abc''\<rparr>, pa_signingKeyId := Some ''k1''\<rparr>,
      ct_env = [(''OPENWOP_BUNDLE_SIGNING_KEY'', ''pem~pem~'')], ct_apiKey = ''hk~1'', ct_major = 2,
      ct_registry = Some [JObj [(''id'', JStr ''p'')]], ct_floors = [(''p'', [''v2-a.test.ts''])], ct_floorFiles = [''v2-a.test.ts''],
      ct_collate = (\<le>), ct_url = ''http://h'', ct_document = [(''protocolVersions'', JArr [JStr ''2.0''])],
      ct_report = [\<lparr>rf_name = Some ''/s/v2-a.test.ts'', rf_statuses = [''passed'']\<rparr>],
      ct_ledger = [pass_entry ''openwop.floor.v2-a'' 3], ct_read = (\<lambda>p. None), ct_parseRelaxations = (\<lambda>t. None),
      ct_version = ''2.50.0'', ct_lock = None, ct_now = ''2026-01-01''\<rparr>"

definition sample_derivation :: derivation where
  "sample_derivation =
     \<lparr>de_requirements = [\<lparr>dr_requirementId = ''openwop.floor.v2-a'', dr_scenarioId = ''v2-a.test.ts'', dr_disposition = Executed_pass,
        dr_detail = None, dr_assertionCount = Some 3\<rparr>],
      de_totals = \<lparr>dt_executedPass = 1, dt_executedFail = 0, dt_skipped = 0, dt_inapplicable = 0, dt_blocked = 0\<rparr>,
      de_verdicts = [\<lparr>dv_profile = ''p'', dv_unclassified = [], dv_blocking = [], dv_certifiable = True, dv_runtimeDerived = False,
        dv_held = True, dv_witnessedPasses = 1\<rparr>],
      de_rejectUnclassified = False, de_ledgerPresent = True\<rparr>"

lemma sample_cut_derivation: "cut_derivation sample_cut = Inr sample_derivation"
  by code_simp

lemma sample_cut_claimed: "cut_claimed sample_cut = [''p'']"
  by code_simp

definition sample_cut_row :: row3 where
  "sample_cut_row =
     \<lparr>r3_id = ''openwop.floor.v2-a'', r3_scenario = ''v2-a.test.ts'', r3_result = ''executed-pass'', r3_assertions = Some 3,
      r3_detail = None, r3_evidence = None\<rparr>"

lemma sample_cut_rows: "cut_rows sample_cut sample_derivation = [sample_cut_row]"
  by code_simp

definition sample_cut_draft :: draft3 where
  "sample_cut_draft =
     \<lparr>b3_bundleVersion = ''3'', b3_generatedAt = ''2026-01-01'',
      b3_suite = \<lparr>s3_name = ''@openwop/openwop-conformance'', s3_version = ''2.50.0'', s3_targetMajor = 2,
                  s3_specArtifactsVersion = ''repo-layout'', s3_stampSha256 = None\<rparr>,
      b3_host = \<lparr>h3_name = ''unknown-host'', h3_version = ''0.0.0'', h3_vendor = None, h3_build = \<lparr>bd_kind = ''commit'', bd_id = ''abc''\<rparr>,
                 h3_signingKeyId = Some ''k1'', h3_relaxations = None, h3_deployment = None\<rparr>,
      b3_discovery = \<lparr>d3_url = ''http://h'', d3_sha256 = ''d'', d3_protocolVersions = [''2.0''], d3_preferredVersion = ''2.0'',
                      d3_document = Some [(''protocolVersions'', JArr [JStr ''2.0''])]\<rparr>,
      b3_claimedProfiles = [\<lparr>p3_id = ''p'', p3_evidenceTier = ''self'', p3_witnessCount = 1, p3_certified = True\<rparr>],
      b3_totals = \<lparr>tt_executedPass = 1, tt_executedFail = 0, tt_skipped = 0, tt_inapplicable = 0, tt_blocked = 0\<rparr>,
      b3_requirements = [sample_cut_row], b3_assertionCount = 3, b3_detail = None, b3_durability = None, b3_verifierSignature = None\<rparr>"

lemma sample_cut_draft:
  "draft_of sample_cut sample_derivation ''d'' \<lparr>bd_kind = ''commit'', bd_id = ''abc''\<rparr> ''k1'' None (No_rung why) = sample_cut_draft"
proof -
  have "rung_json (No_rung why) = None" by (simp add: rung_json_def)
  moreover have "claims_of sample_cut sample_derivation None = b3_claimedProfiles sample_cut_draft" by code_simp
  ultimately show ?thesis
    unfolding draft_of_def Let_def sample_cut_rows
    by (simp add: sample_cut_draft_def) (simp add: sample_cut_def sample_derivation_def totals_of_def host_text_def host_vendor_def
        protocol_versions_def preferred_version_def js_get_def proto_member_def object_prototype_functions_def member_def
        relaxation_list_def assertions3_def sample_cut_row_def non_pass_of_def no_args_def)
qed

definition sample_secrets :: "string list" where
  "sample_secrets = evidenceSecretsFromEnv (ct_env sample_cut) [ct_apiKey sample_cut, ''pem~pem~''] [''k1'']"

lemma sample_nothing_redacted: "snd (scrubEvidence sha (draft_json sample_cut_draft) sample_secrets) = []"
proof -
  have "list_all (\<lambda>(p, s). \<not> string_hit (live_secrets sample_secrets) s) (json_strings ''$'' (draft_json sample_cut_draft))"
    by code_simp
  then show ?thesis by (auto simp: scrubEvidence_def Let_def filter_empty_conv list_all_iff)
qed

lemma flat_key_pair: "key_pair flat_crypto key key"
  by (auto simp: key_pair_def flat_crypto_def sample_crypto_def list_all_iff)

lemma flat_digest: "witnessDigest flat_crypto rows rel dep = Inr w \<Longrightarrow> w = ''d''"
  by (auto simp: witnessDigest_def flat_crypto_def ebind_Inr_iff)

lemma sample_cut_sealed:
  "\<exists>u s. sealBundleV3 flat_crypto sample_cut_draft sample_secrets ''pem~pem~'' ''k1'' = Inr (u, with_signature sample_cut_draft ''d'' (Some s), [])"
proof -
  let ?scrub = "scrubEvidence (\<lambda>s. cr_sha256 flat_crypto (units_of s)) (draft_json sample_cut_draft) sample_secrets"
  have "plain_json (draft_json sample_cut_draft)"
    unfolding sample_cut_draft [symmetric, of undefined] by (rule draft_plain) (simp add: plain_cut_def sample_cut_def pass_entry_def)
  from scrub_untouched [OF this sample_nothing_redacted] have scrub: "?scrub = (draft_json sample_cut_draft, [])"
    using sample_nothing_redacted by (metis prod.collapse)
  obtain w where w: "witnessDigest flat_crypto [sample_cut_row] None None = Inr w"
    using digest_exists [of "[sample_cut_row]" flat_crypto None None] by (auto simp: evidence_wf_def sample_cut_row_def)
  obtain p where p: "attestationPayload w sample_cut_draft = Inr p" using payload_exists by blast
  have d: "b3_requirements sample_cut_draft = [sample_cut_row]" "h3_relaxations (b3_host sample_cut_draft) = None"
    "h3_deployment (b3_host sample_cut_draft) = None"
    by (simp_all add: sample_cut_draft_def)
  have k: "cr_private flat_crypto key = Some key" "cr_keyType flat_crypto key = ''ed25519''" for key
    by (simp_all add: flat_crypto_def sample_crypto_def)
  from w p flat_digest [OF w] scrub show ?thesis
    by (auto simp: sealBundleV3_def read_draft_json signBundleV3_def refused_def d k)
qed

definition sample_key_options :: options3 where
  "sample_key_options = \<lparr>op_hostPublicKeyPem = Some ''pem~pem~'', op_verifierPublicKeyPem = None\<rparr>"

lemma sample_cut_document: "document_sha256 flat_crypto sample_cut = Inr ''d''"
proof -
  have "i_json int_ops (json_jv (JObj (ct_document sample_cut)))"
    by (rule i_json_jv) (simp add: sample_cut_def)
  then obtain t where "canonicalJSON int_ops (json_jv (JObj (ct_document sample_cut))) = Inr t"
    using int_numbers.canonical_succeeds by blast
  then show ?thesis by (simp add: document_sha256_def refused_def flat_crypto_def)
qed

lemma sample_cut_verifies:
  assumes "sealBundleV3 flat_crypto sample_cut_draft sample_secrets ''pem~pem~'' ''k1'' = Inr (u, b, [])"
    and "b = with_signature sample_cut_draft ''d'' (Some s)"
  shows "\<exists>v. verifyBundleV3 flat_crypto (ct_registry sample_cut) b sample_key_options = Inr v \<and> v3_rejections v = [] \<and>
    v3_signatureVerified v \<and> v3_derivabilityChecked v"
proof -
  let ?reg = "ct_registry sample_cut"
  have "cr_public flat_crypto pem = Some pem" for pem by (simp add: flat_crypto_def sample_crypto_def)
  then have "\<exists>x. check_signature flat_crypto b sample_key_options = Inr x"
    by (auto simp: check_signature_def check_attestation_def Let_def split: option.splits prod.splits)
  then obtain srs sv where sig: "check_signature flat_crypto b sample_key_options = Inr (srs, sv)" by auto
  have "signature_ok flat_crypto b sample_key_options"
    using sealed_signature(1) [OF flat_key_pair assms(1)] by (fastforce simp: sample_key_options_def given_key_def)
  then have srs: "srs = []" and sv: "sv"
    using check_signature_ok [OF sig] check_signature_verified [OF sig, of "''pem~pem~''"]
    by (simp_all add: sample_key_options_def given_key_def)
  have digest: "witnessDigest flat_crypto [sample_cut_row] None None = Inr ''d''"
    using sealed_signature(2) [OF flat_key_pair assms(1)] by (simp add: assms(2) sample_cut_draft_def)
  have rec: "record_rejections flat_crypto b = []"
    unfolding record_Nil record_ok_def Let_def using digest
    by (simp add: assms(2)) (simp add: sample_cut_draft_def sample_cut_row_def row_ok_def expected3_def count3_def)
  have ind: "check_independent flat_crypto b sample_key_options = Inr ([], False)"
    by (simp add: check_independent_def claims_independent_def assms(2)) (simp add: sample_cut_draft_def)
  have rung: "check_rung b = Inr []"
    by (simp add: check_rung_def checkRungClaim_def member_def assms(2)) (simp add: sample_cut_draft_def)
  have members: "b3_requirements b = [sample_cut_row]" "b3_claimedProfiles b = b3_claimedProfiles sample_cut_draft"
    "b3_host b = b3_host sample_cut_draft" "b3_suite b = b3_suite sample_cut_draft" "b3_discovery b = b3_discovery sample_cut_draft"
    by (simp_all add: assms(2)) (simp_all add: sample_cut_draft_def)
  have relaxed: "relaxed_profiles ?reg b = []" "observed_relaxed ?reg b = []"
    by (simp_all add: relaxed_profiles_def relaxations3_def observed_relaxed_def profilesDeniedByObservedRelaxation_def
        profilesRelaxedBy_def members Let_def) (simp_all add: sample_cut_draft_def sample_cut_row_def observed_obligations_def)
  obtain t where t: "canonicalJSON int_ops (json_jv (JObj (ct_document sample_cut))) = Inr t"
    using sample_cut_document by (auto simp: document_sha256_def refused_def ebind_Inr_iff split: sum.splits)
  have derives: "profileDerivable ?reg (ct_document sample_cut) ''p'' 2" by code_simp
  have none: "optedOutFromRows [sample_cut_row] = []" by (simp add: optedOutFromRows_def row_opt_outs_def sample_cut_row_def)
  have draft: "s3_targetMajor (b3_suite sample_cut_draft) = 2" "d3_document (b3_discovery sample_cut_draft) = Some (ct_document sample_cut)"
    "d3_sha256 (b3_discovery sample_cut_draft) = ''d''" "map p3_id (b3_claimedProfiles sample_cut_draft) = [''p'']"
    by (simp_all add: sample_cut_draft_def sample_cut_def)
  have "p3_id x = ''p''" if "x \<in> set (b3_claimedProfiles sample_cut_draft)" for x
    using draft(4) that by (metis imageI set_map list.set(1,2) singletonD)
  then have "derivability_rejections ?reg b (ct_document sample_cut) = []"
    using derives by (simp add: derivability_rejections_def target_major3_def members draft(1) none filter_empty_conv)
  moreover have "cr_sha256 flat_crypto t = ''d''" by (simp add: flat_crypto_def)
  moreover have "v2RegistryAvailable ?reg" by (simp add: v2RegistryAvailable_def sample_cut_def)
  ultimately have doc: "check_document flat_crypto ?reg b = ([], True)"
    using t by (simp add: check_document_def members draft(2,3) refusedAs_def del: canonicalJSON.simps json_jv.simps)
  have "count3 [sample_cut_row] ''blocked'' = 0" by (simp add: count3_def sample_cut_row_def)
  then show ?thesis
    using sig srs sv rec ind rung relaxed doc
    by (simp add: verifyBundleV3_def Let_def members observed_rejections_def relaxed_rejections_def)
qed

lemma sample_cut_written:
  assumes "pub ''pem~pem~'' = ''pem~pem~''"
  shows "\<exists>w. emit_v3 flat_crypto pub (\<lambda>b. True) sample_cut = Inr w \<and> wr_redactedAt w = [] \<and> claims_certified (wr_bundle w) ''p''"
proof -
  obtain u s where seal: "sealBundleV3 flat_crypto sample_cut_draft sample_secrets ''pem~pem~'' ''k1'' =
      Inr (u, with_signature sample_cut_draft ''d'' (Some s), [])"
    using sample_cut_sealed by blast
  obtain v where v: "verifyBundleV3 flat_crypto (ct_registry sample_cut) (with_signature sample_cut_draft ''d'' (Some s)) sample_key_options = Inr v"
    "v3_rejections v = []"
    using sample_cut_verifies [OF seal refl] by blast
  obtain why where rung: "deriveRung (evidence_rows [sample_cut_row]) = Inr (No_rung why)"
    by (auto simp: deriveRung_def evidence_rows_def single_instance_rows_def row_check_def by_id_def row_prefix_def sample_cut_row_def)
  have parts: "cut_build sample_cut = Some \<lparr>bd_kind = ''commit'', bd_id = ''abc''\<rparr>"
    "key_text sample_cut (pa_signingKeyPath (ct_settings sample_cut)) ''OPENWOP_BUNDLE_SIGNING_KEY'' = Inr (Some ''pem~pem~'')"
    "or_env sample_cut (pa_signingKeyId (ct_settings sample_cut)) ''OPENWOP_BUNDLE_SIGNING_KEY_ID'' = Some ''k1''"
    "cut_relaxations sample_cut = Inr None" "pa_evidenceTier (ct_settings sample_cut) = ''self''"
    by (simp_all add: cut_build_def key_text_def or_env_def cut_relaxations_def cut_env_def sample_cut_def no_args_def truthy_def Let_def)
  have "emit_v3 flat_crypto pub (\<lambda>b. True) sample_cut =
      Inr \<lparr>wr_bundle = with_signature sample_cut_draft ''d'' (Some s), wr_verdict = v, wr_redactedAt = [], wr_exit = cut_exit sample_cut sample_derivation\<rparr>"
    using seal v rung assms
    by (simp add: emit_v3_def Let_def sample_cut_document sample_cut_derivation parts truthy_def or_default_def sample_cut_rows
        sample_cut_draft sample_secrets_def countersigned_def audited_def sample_key_options_def)
  moreover have "claims_certified (with_signature sample_cut_draft ''d'' (Some s)) ''p''"
    by (simp add: claims_certified_def) (simp add: sample_cut_draft_def)
  ultimately show ?thesis by simp
qed

lemma sample_cut_facts:
  "plain_cut sample_cut" "pa_evidenceTier (ct_settings sample_cut) \<noteq> ''independent''" "ct_major sample_cut = 2"
  "ct_ledger sample_cut \<noteq> []"
  "\<forall>r \<in> set (ct_report sample_cut). \<forall>n. rf_name r = Some n \<longrightarrow> scenario_name (scenarioBasename n)"
proof -
  have "scenario_name (scenarioBasename ''/s/v2-a.test.ts'')" by code_simp
  then show "\<forall>r \<in> set (ct_report sample_cut). \<forall>n. rf_name r = Some n \<longrightarrow> scenario_name (scenarioBasename n)"
    by (simp add: sample_cut_def)
qed (simp_all add: plain_cut_def sample_cut_def pass_entry_def no_args_def)

theorem written_bundle_stands_witness:
  "\<exists>w. emit_v3 flat_crypto (\<lambda>k. if k = [] then ''k'' else k) (\<lambda>b. True) sample_cut = Inr w \<and> record_ok flat_crypto (wr_bundle w) \<and>
     d3_document (b3_discovery (wr_bundle w)) = Some (ct_document sample_cut)"
proof -
  obtain w where w: "emit_v3 flat_crypto (\<lambda>k. if k = [] then ''k'' else k) (\<lambda>b. True) sample_cut = Inr w" "wr_redactedAt w = []"
    using sample_cut_written [of "\<lambda>k. if k = [] then ''k'' else k"] by auto
  have "CHR 171 \<notin> set (cr_sha256 flat_crypto t)" for t by (simp add: flat_crypto_def)
  from written_bundle_stands [OF w(1) _ this] w sample_cut_facts(1) show ?thesis by auto
qed

theorem written_bundle_is_its_verdict_witness:
  "\<exists>w. emit_v3 flat_crypto id (\<lambda>b. True) sample_cut = Inr w \<and> v3_rejections (wr_verdict w) = [] \<and>
     ''p'' \<in> set (v3_certifiedProfiles (wr_verdict w))"
proof -
  obtain w where w: "emit_v3 flat_crypto id (\<lambda>b. True) sample_cut = Inr w" "wr_redactedAt w = []" "claims_certified (wr_bundle w) ''p''"
    using sample_cut_written [of id] by auto
  from written_bundle_is_its_verdict [OF w(1,2) sample_cut_facts(1)] w sample_cut_facts(2) show ?thesis by auto
qed

theorem certified_profile_is_witnessed_witness:
  "\<exists>w. emit_v3 flat_crypto id (\<lambda>b. True) sample_cut = Inr w \<and> ''p'' \<in> set (v3_certifiedProfiles (wr_verdict w)) \<and>
     (\<exists>files. map_of (ct_floors sample_cut) ''p'' = Some files \<and>
        (\<exists>f \<in> set files. \<exists>e \<in> set (ct_ledger sample_cut). le_requirementId e = requirementIdForScenario f \<and> entry_witnesses e))"
proof -
  obtain w where w: "emit_v3 flat_crypto id (\<lambda>b. True) sample_cut = Inr w" "wr_redactedAt w = []" "claims_certified (wr_bundle w) ''p''"
    using sample_cut_written [of id] by auto
  then have p: "''p'' \<in> set (v3_certifiedProfiles (wr_verdict w))"
    using written_is_clean(2) [OF w(1,2) sample_cut_facts(1,2)] by blast
  from certified_profile_is_witnessed [OF w(1,2) sample_cut_facts p] w(1) p show ?thesis by blast
qed

section \<open>Auditing a bundle somebody else cut\<close>

text \<open>
  \<open>--verify\<close>: the reading of a bundle from its text is a parameter. A key file that cannot be read and an
  error thrown by the verifier end the process with the exit of an unhandled rejection.
\<close>

datatype audit = No_bundle_file | Not_a_bundle | Crashed | Rejected | Coherent | Verified

definition audit_exit :: "audit \<Rightarrow> nat" where
  "audit_exit a = (case a of No_bundle_file \<Rightarrow> 3 | Not_a_bundle \<Rightarrow> 3 | Crashed \<Rightarrow> 1 | Rejected \<Rightarrow> 1 | Coherent \<Rightarrow> 2 | Verified \<Rightarrow> 0)"

text \<open>The text of a key file that was named, if one was; the outer option is a failed read.\<close>

definition named_key :: "(string \<Rightarrow> string option) \<Rightarrow> string option \<Rightarrow> string option option" where
  "named_key read path = (case path of None \<Rightarrow> Some None | Some p \<Rightarrow> map_option Some (read p))"

definition unverified :: "bundle3 \<Rightarrow> verdict3 \<Rightarrow> bool" where
  "unverified b v =
     (\<not> v3_signatureVerified v \<or> \<not> v3_derivabilityChecked v \<or> (claims_independent b \<and> \<not> v3_verifierSignatureVerified v))"

definition audit_command ::
  "'k crypto \<Rightarrow> registry \<Rightarrow> (string \<Rightarrow> string option) \<Rightarrow> (string \<Rightarrow> bundle3 option) \<Rightarrow> parse_state \<Rightarrow> string \<Rightarrow> audit" where
  "audit_command cr reg read bundle_of s path =
     (case read path of
        None \<Rightarrow> No_bundle_file
      | Some t \<Rightarrow>
          (case bundle_of t of
             None \<Rightarrow> Not_a_bundle
           | Some b \<Rightarrow>
               (case (named_key read (pa_verifyHostKeyPath s), named_key read (pa_verifierKeyPath s)) of
                  (Some hk, Some vk) \<Rightarrow>
                    (case verifyBundleV3 cr reg b \<lparr>op_hostPublicKeyPem = hk, op_verifierPublicKeyPem = vk\<rparr> of
                       Inl e \<Rightarrow> Crashed
                     | Inr v \<Rightarrow> if v3_rejections v \<noteq> [] then Rejected else if unverified b v then Coherent else Verified)
                | _ \<Rightarrow> Crashed)))"

lemma signature_attested:
  assumes "check_signature cr b opts = Inr (rs, v)" and "rs = []" and "v"
  shows "\<exists>sig pem. b3_signature b = Some sig \<and> given_key (op_hostPublicKeyPem opts) = Some pem \<and> attests cr b pem (sg_sig sig)"
  using assms check_attestation_ok
  by (fastforce simp: check_signature_def split: option.splits if_splits)

lemma document_checked:
  assumes "check_document cr reg b = ([], True)"
  shows "\<exists>doc. d3_document (b3_discovery b) = Some doc \<and> document_digest_ok cr b doc \<and>
    (\<forall>p. claims_certified b p \<longrightarrow> profileDerivable reg doc p (target_major3 b))"
  using assms
  by (auto simp: check_document_def refusedAs_def document_digest_ok_def derivability_rejections_def claims_certified_def
      filter_empty_conv ebind_Inr_iff split: option.splits sum.splits if_splits)

lemma clean_verdict:
  assumes "verifyBundleV3 cr reg b opts = Inr v" and "v3_rejections v = []" and "v3_signatureVerified v" and "v3_derivabilityChecked v"
  shows "record_ok cr b \<and> independent_ok cr b opts \<and>
    (\<exists>sig pem. b3_signature b = Some sig \<and> given_key (op_hostPublicKeyPem opts) = Some pem \<and> attests cr b pem (sg_sig sig)) \<and>
    (\<exists>doc. d3_document (b3_discovery b) = Some doc \<and> document_digest_ok cr b doc \<and>
       (\<forall>p. claims_certified b p \<longrightarrow> profileDerivable reg doc p (target_major3 b) \<and> p \<notin> set (relaxed_profiles reg b) \<and>
          p \<notin> set (observed_relaxed reg b) \<and> (\<forall>r \<in> set (b3_requirements b). r3_result r \<noteq> ''blocked'')))"
proof -
  obtain s where s: "check_signature cr b opts = Inr s" using assms(1) by (auto simp: verifyBundleV3_def ebind_Inr_iff)
  obtain i where i: "check_independent cr b opts = Inr i" using assms(1) s by (auto simp: verifyBundleV3_def ebind_Inr_iff)
  obtain rs where r: "check_rung b = Inr rs" using assms(1) s i by (auto simp: verifyBundleV3_def ebind_Inr_iff)
  have e: "record_rejections cr b = []" "fst s = []" "fst i = []" "observed_rejections reg b = []" "relaxed_rejections reg b = []"
    "\<not> (0 < count3 (b3_requirements b) ''blocked'' \<and> certified_claims reg b \<noteq> [])" "fst (check_document cr reg b) = []" "snd s"
    "snd (check_document cr reg b)"
    using assms s i r by (auto simp: verifyBundleV3_def Let_def)
  have doc: "check_document cr reg b = ([], True)" using e(7,9) by (metis (full_types) prod.collapse)
  have relaxed: "p \<notin> set (relaxed_profiles reg b) \<and> p \<notin> set (observed_relaxed reg b) \<and>
      (\<forall>r \<in> set (b3_requirements b). r3_result r \<noteq> ''blocked'')" if p: "claims_certified b p" for p
  proof -
    have "p \<notin> set (relaxed_profiles reg b)" using claims_scoped(2) [of p reg b] e(5) p by simp
    moreover have "p \<notin> set (observed_relaxed reg b)" using claims_scoped(1) [of p reg b] e(4) p calculation by simp
    moreover have "certified_claims reg b \<noteq> []" using claims_scoped(5) [of p reg b] p calculation(1) by auto
    ultimately show ?thesis using e(6) blocked_count [of "b3_requirements b" "''blocked''"] by blast
  qed
  from document_checked [OF doc] relaxed have "\<exists>doc. d3_document (b3_discovery b) = Some doc \<and> document_digest_ok cr b doc \<and>
       (\<forall>p. claims_certified b p \<longrightarrow> profileDerivable reg doc p (target_major3 b) \<and> p \<notin> set (relaxed_profiles reg b) \<and>
          p \<notin> set (observed_relaxed reg b) \<and> (\<forall>r \<in> set (b3_requirements b). r3_result r \<noteq> ''blocked''))"
    by blast
  moreover have "record_ok cr b" using e(1) by (simp add: record_Nil)
  moreover have "independent_ok cr b opts" using check_independent_ok [of cr b opts "fst i" "snd i"] i e(3) by (cases i) simp
  moreover have "\<exists>sig pem. b3_signature b = Some sig \<and> given_key (op_hostPublicKeyPem opts) = Some pem \<and> attests cr b pem (sg_sig sig)"
    using signature_attested [of cr b opts "fst s" "snd s"] s e(2,8) by (cases s) simp
  ultimately show ?thesis by blast
qed

text \<open>
  Claim C7: exit 0 of the audit means verified: a bundle was read and the auditor named a host key; the record
  stands, the signature attests the bundle under that key, an independent tier is attested by the verifier's
  key, the captured document is the attested one, and every profile the bundle marks as certified is derived
  from it, untouched by a relaxation and not certified over a blocked row.
\<close>

theorem exit_zero_is_verified:
  assumes "audit_exit (audit_command cr reg read bundle_of s path) = 0"
  shows "\<exists>t b pem vk sig doc. read path = Some t \<and> bundle_of t = Some b \<and> named_key read (pa_verifyHostKeyPath s) = Some (Some pem) \<and>
    named_key read (pa_verifierKeyPath s) = Some vk \<and> record_ok cr b \<and> b3_signature b = Some sig \<and> attests cr b pem (sg_sig sig) \<and>
    independent_ok cr b \<lparr>op_hostPublicKeyPem = Some pem, op_verifierPublicKeyPem = vk\<rparr> \<and>
    d3_document (b3_discovery b) = Some doc \<and> document_digest_ok cr b doc \<and>
    (\<forall>p. claims_certified b p \<longrightarrow> profileDerivable reg doc p (target_major3 b) \<and> p \<notin> set (relaxed_profiles reg b) \<and>
       p \<notin> set (observed_relaxed reg b) \<and> (\<forall>r \<in> set (b3_requirements b). r3_result r \<noteq> ''blocked''))"
proof -
  have "audit_command cr reg read bundle_of s path = Verified"
    using assms by (cases "audit_command cr reg read bundle_of s path") (simp_all add: audit_exit_def)
  then obtain t b hk vk v where a: "read path = Some t" "bundle_of t = Some b" "named_key read (pa_verifyHostKeyPath s) = Some hk"
    "named_key read (pa_verifierKeyPath s) = Some vk"
    "verifyBundleV3 cr reg b \<lparr>op_hostPublicKeyPem = hk, op_verifierPublicKeyPem = vk\<rparr> = Inr v" "v3_rejections v = []" "\<not> unverified b v"
    by (auto simp: audit_command_def split: option.splits sum.splits if_splits)
  then have "v3_signatureVerified v" "v3_derivabilityChecked v" by (auto simp: unverified_def)
  note facts = clean_verdict [OF a(5,6) this]
  then obtain sig pem where k: "b3_signature b = Some sig" "given_key hk = Some pem" "attests cr b pem (sg_sig sig)" by auto
  from k(2) have "hk = Some pem" by (auto simp: given_key_def split: option.splits list.splits)
  with facts a k show ?thesis by (intro exI [of _ t] exI [of _ b] exI [of _ pem] exI [of _ vk]) auto
qed

definition audit_settings :: parse_state where
  "audit_settings = (no_args None)\<lparr>pa_verifyHostKeyPath := Some ''host.pem''\<rparr>"

theorem exit_zero_is_verified_witness:
  "\<exists>b. audit_exit (audit_command flat_crypto (ct_registry sample_cut) (\<lambda>p. Some ''pem~pem~'') (\<lambda>t. Some b) audit_settings ''b.json'') = 0 \<and>
     record_ok flat_crypto b \<and> claims_certified b ''p''"
proof -
  obtain u s where seal: "sealBundleV3 flat_crypto sample_cut_draft sample_secrets ''pem~pem~'' ''k1'' =
      Inr (u, with_signature sample_cut_draft ''d'' (Some s), [])"
    using sample_cut_sealed by blast
  let ?b = "with_signature sample_cut_draft ''d'' (Some s)"
  obtain v where v: "verifyBundleV3 flat_crypto (ct_registry sample_cut) ?b sample_key_options = Inr v" "v3_rejections v = []"
    "v3_signatureVerified v" "v3_derivabilityChecked v"
    using sample_cut_verifies [OF seal refl] by blast
  have "claims_certified ?b ''p''" "\<not> claims_independent ?b"
    by (simp_all add: claims_certified_def claims_independent_def) (simp_all add: sample_cut_draft_def)
  moreover have exit: "audit_exit (audit_command flat_crypto (ct_registry sample_cut) (\<lambda>p. Some ''pem~pem~'') (\<lambda>t. Some ?b) audit_settings ''b.json'') = 0"
    using v calculation(2)
    by (simp add: audit_command_def named_key_def audit_settings_def no_args_def sample_key_options_def unverified_def audit_exit_def)
  ultimately show ?thesis using exit_zero_is_verified [OF exit] by auto
qed

end
