(* ===== verification/Protobuf.thy ===== *)
theory Protobuf
  imports Prelude "HOL-Library.Word"
begin

text \<open>
  The OTLP/protobuf decoder of the suite's collector (\<open>otlp-protobuf.ts\<close>). A reader is the record of
  its class, a throw a value of the error sum. The two value decoders call one another and recurse
  on sub-readers, which shrink; the message loops are one partial combinator whose value \<open>None\<close>
  would be a loop that never ends. Decoded text is a list of code points, a double its 64-bit pattern.
\<close>

unbundle bit_operations_syntax

type_synonym byte = "8 word"

section \<open>Numbers and text of the platform\<close>

text \<open>\<open>Number(n)\<close> of a non-negative bigint: 53 significant bits, ties to even.\<close>

fun bit_len :: "nat \<Rightarrow> nat" where
  "bit_len n = (if n = 0 then 0 else Suc (bit_len (n div 2)))"

declare bit_len.simps [simp del]

definition js_number :: "nat \<Rightarrow> nat" where
  "js_number n =
     (if n < 2 ^ 53 then n
      else
        let e = bit_len n - 53; q = n div 2 ^ e; left = n mod 2 ^ e; half = 2 ^ (e - 1) in
        (if half < left \<or> (left = half \<and> odd q) then Suc q else q) * 2 ^ e)"

text \<open>\<open>TextDecoder('utf-8')\<close>: one step of its decoder at a lead byte, then the loop.\<close>

type_synonym js_text = "nat list"

definition replacement :: nat where
  "replacement = 0xFFFD"

definition utf8_lead :: "nat \<Rightarrow> js_text \<times> nat \<times> nat \<times> nat \<times> nat" where
  "utf8_lead b =
     (if b < 0x80 then ([b], 0, 0x80, 0xBF, 0)
      else if 0xC2 \<le> b \<and> b \<le> 0xDF then ([], 1, 0x80, 0xBF, b mod 32)
      else if 0xE0 \<le> b \<and> b \<le> 0xEF
      then ([], 2, if b = 0xE0 then 0xA0 else 0x80, if b = 0xED then 0x9F else 0xBF, b mod 16)
      else if 0xF0 \<le> b \<and> b \<le> 0xF4
      then ([], 3, if b = 0xF0 then 0x90 else 0x80, if b = 0xF4 then 0x8F else 0xBF, b mod 8)
      else ([replacement], 0, 0x80, 0xBF, 0))"

fun utf8_go :: "nat \<Rightarrow> nat \<Rightarrow> nat \<Rightarrow> nat \<Rightarrow> nat list \<Rightarrow> js_text" where
  "utf8_go needed lower upper cp [] = (if needed = 0 then [] else [replacement])"
| "utf8_go needed lower upper cp (b # bs) =
     (if needed = 0
      then (case utf8_lead b of (out, n, lo, up, c) \<Rightarrow> out @ utf8_go n lo up c bs)
      else if b < lower \<or> upper < b
      then (case utf8_lead b of (out, n, lo, up, c) \<Rightarrow> replacement # out @ utf8_go n lo up c bs)
      else if needed = 1 then (cp * 64 + b mod 64) # utf8_go 0 0x80 0xBF 0 bs
      else utf8_go (needed - 1) 0x80 0xBF (cp * 64 + b mod 64) bs)"

definition text_decode :: "byte list \<Rightarrow> js_text" where
  "text_decode bs =
     (let ns = map unat bs in utf8_go 0 0x80 0xBF 0 (if take 3 ns = [0xEF, 0xBB, 0xBF] then drop 3 ns else ns))"

definition hex_digit :: "nat \<Rightarrow> char" where
  "hex_digit n = (if n < 10 then char_of (48 + n) else char_of (87 + n))"

definition hex_byte :: "byte \<Rightarrow> string" where
  "hex_byte b = [hex_digit (unat b div 16), hex_digit (unat b mod 16)]"

text \<open>\<open>DataView.getUint32(_, true)\<close> and the bits of \<open>getFloat64(_, true)\<close>.\<close>

definition le_value :: "byte list \<Rightarrow> nat" where
  "le_value bs = foldr (\<lambda>b v. unat b + 256 * v) bs 0"

section \<open>The reader\<close>

record pb_reader =
  pb_buf :: "byte list"
  pb_offset :: nat
  pb_end :: nat

datatype pb_error =
    Eof_in_varint | Varint_too_long | Unknown_wire_type nat
  | Len_overruns | Double_overruns | Fixed64_overruns | Message_overruns

definition wire_varint :: nat where "wire_varint = 0"

definition wire_i64 :: nat where "wire_i64 = 1"

definition wire_len :: nat where "wire_len = 2"

definition wire_i32 :: nat where "wire_i32 = 5"

definition new_reader :: "byte list \<Rightarrow> pb_reader" where
  "new_reader buf = \<lparr>pb_buf = buf, pb_offset = 0, pb_end = length buf\<rparr>"

definition hasMore :: "pb_reader \<Rightarrow> bool" where
  "hasMore r = (pb_offset r < pb_end r)"

definition advance :: "nat \<Rightarrow> pb_reader \<Rightarrow> pb_reader" where
  "advance n r = r\<lparr>pb_offset := pb_offset r + n\<rparr>"

fun varint_loop :: "nat \<Rightarrow> nat \<Rightarrow> nat \<Rightarrow> pb_reader \<Rightarrow> pb_error + nat \<times> pb_reader" where
  "varint_loop 0 shift result r = Inl Varint_too_long"
| "varint_loop (Suc k) shift result r =
     (if pb_end r \<le> pb_offset r then Inl Eof_in_varint
      else
        let b = pb_buf r ! pb_offset r; result' = result OR push_bit shift (unat (b AND 0x7F)) in
        if b AND 0x80 = 0 then Inr (result', advance 1 r) else varint_loop k (shift + 7) result' (advance 1 r))"

definition readVarint :: "pb_reader \<Rightarrow> pb_error + nat \<times> pb_reader" where
  "readVarint r = varint_loop 10 0 0 r"

definition readVarintNumber :: "pb_reader \<Rightarrow> pb_error + nat \<times> pb_reader" where
  "readVarintNumber r = ebind (readVarint r) (\<lambda>(n, r). Inr (js_number n, r))"

text \<open>\<open>t >>> 3\<close> works on the low 32 bits.\<close>

definition readTag :: "pb_reader \<Rightarrow> pb_error + (nat \<times> nat) \<times> pb_reader" where
  "readTag r = ebind (readVarintNumber r) (\<lambda>(t, r). Inr ((t mod 2 ^ 32 div 8, t mod 8), r))"

definition skip_field :: "nat \<Rightarrow> pb_reader \<Rightarrow> pb_error + pb_reader" where
  "skip_field wireType r =
     (if wireType = wire_varint then ebind (readVarint r) (\<lambda>(_, r). Inr r)
      else if wireType = wire_i64 then Inr (advance 8 r)
      else if wireType = wire_len then ebind (readVarintNumber r) (\<lambda>(n, r). Inr (advance n r))
      else if wireType = wire_i32 then Inr (advance 4 r)
      else Inl (Unknown_wire_type wireType))"

definition readLengthDelimited :: "pb_reader \<Rightarrow> pb_error + byte list \<times> pb_reader" where
  "readLengthDelimited r =
     ebind (readVarintNumber r) (\<lambda>(n, r).
       if pb_end r < pb_offset r + n then Inl Len_overruns
       else Inr (take n (drop (pb_offset r) (pb_buf r)), advance n r))"

definition readString :: "pb_reader \<Rightarrow> pb_error + js_text \<times> pb_reader" where
  "readString r = ebind (readLengthDelimited r) (\<lambda>(bs, r). Inr (text_decode bs, r))"

definition readBytesAsHex :: "pb_reader \<Rightarrow> pb_error + string \<times> pb_reader" where
  "readBytesAsHex r = ebind (readLengthDelimited r) (\<lambda>(bs, r). Inr (concat (map hex_byte bs), r))"

definition readDouble :: "pb_reader \<Rightarrow> pb_error + 64 word \<times> pb_reader" where
  "readDouble r =
     (if pb_end r < pb_offset r + 8 then Inl Double_overruns
      else Inr (word_of_nat (le_value (take 8 (drop (pb_offset r) (pb_buf r)))), advance 8 r))"

definition readFixed64Uint :: "pb_reader \<Rightarrow> pb_error + nat \<times> pb_reader" where
  "readFixed64Uint r =
     (if pb_end r < pb_offset r + 8 then Inl Fixed64_overruns
      else
        let lo = le_value (take 4 (drop (pb_offset r) (pb_buf r)));
            hi = le_value (take 4 (drop (pb_offset r + 4) (pb_buf r)))
        in Inr (push_bit 32 hi OR lo, advance 8 r))"

definition readFixed64Int :: "pb_reader \<Rightarrow> pb_error + int \<times> pb_reader" where
  "readFixed64Int r =
     ebind (readFixed64Uint r) (\<lambda>(u, r). Inr (if 0x8000000000000000 \<le> u then int u - 0x10000000000000000 else int u, r))"

definition readMessage :: "pb_reader \<Rightarrow> pb_error + pb_reader \<times> pb_reader" where
  "readMessage r =
     ebind (readVarintNumber r) (\<lambda>(n, r).
       if pb_end r < pb_offset r + n then Inl Message_overruns
       else Inr (r\<lparr>pb_end := pb_offset r + n\<rparr>, advance n r))"

section \<open>Readers only move forward\<close>

definition moved :: "pb_reader \<Rightarrow> pb_reader \<Rightarrow> bool" where
  "moved r r' = (pb_buf r' = pb_buf r \<and> pb_end r' = pb_end r \<and> pb_offset r \<le> pb_offset r')"

lemma moved_refl [simp]: "moved r r"
  by (simp add: moved_def)

lemma moved_advance [simp]: "moved r (advance n r)"
  by (simp add: moved_def advance_def)

lemma moved_trans: "moved a b \<Longrightarrow> moved b c \<Longrightarrow> moved a c"
  by (simp add: moved_def)

lemma varint_loop_moved: "varint_loop k s v r = Inr (n, r') \<Longrightarrow> moved r r' \<and> pb_offset r < pb_offset r'"
proof (induction k s v r rule: varint_loop.induct)
  case (2 k shift result r)
  then show ?case
    by (fastforce simp: Let_def advance_def moved_def split: if_splits)
qed simp

lemma readVarint_moved: "readVarint r = Inr (n, r') \<Longrightarrow> moved r r' \<and> pb_offset r < pb_offset r'"
  unfolding readVarint_def by (rule varint_loop_moved)

lemma readVarintNumber_moved: "readVarintNumber r = Inr (n, r') \<Longrightarrow> moved r r' \<and> pb_offset r < pb_offset r'"
  by (auto simp: readVarintNumber_def ebind_Inr_iff dest: readVarint_moved)

lemma readTag_moved: "readTag r = Inr (t, r') \<Longrightarrow> moved r r' \<and> pb_offset r < pb_offset r'"
  by (auto simp: readTag_def ebind_Inr_iff dest: readVarintNumber_moved)

lemma skip_field_moved: "skip_field w r = Inr r' \<Longrightarrow> moved r r'"
  by (auto simp: skip_field_def ebind_Inr_iff split: if_splits
      dest!: readVarint_moved readVarintNumber_moved intro: moved_trans)

lemma readLengthDelimited_moved: "readLengthDelimited r = Inr (bs, r') \<Longrightarrow> moved r r'"
  by (auto simp: readLengthDelimited_def ebind_Inr_iff split: if_splits dest!: readVarintNumber_moved intro: moved_trans)

lemma readString_moved: "readString r = Inr (s, r') \<Longrightarrow> moved r r'"
  by (auto simp: readString_def ebind_Inr_iff dest: readLengthDelimited_moved)

lemma readBytesAsHex_moved: "readBytesAsHex r = Inr (s, r') \<Longrightarrow> moved r r'"
  by (auto simp: readBytesAsHex_def ebind_Inr_iff dest: readLengthDelimited_moved)

lemma fixed_moved:
  "readDouble r = Inr (d, r') \<Longrightarrow> moved r r'"
  "readFixed64Uint r = Inr (u, r') \<Longrightarrow> moved r r'"
  "readFixed64Int r = Inr (i, r') \<Longrightarrow> moved r r'"
  by (auto simp: readDouble_def readFixed64Uint_def readFixed64Int_def ebind_Inr_iff Let_def split: if_splits)

text \<open>A sub-reader lies inside what its reader had left.\<close>

lemma readMessage_moved:
  assumes "readMessage r = Inr (sub, r')"
  shows "moved r r' \<and> pb_buf sub = pb_buf r \<and> pb_offset r \<le> pb_offset sub \<and> pb_end sub \<le> pb_end r \<and> pb_end sub = pb_offset r'"
  using assms by (fastforce simp: readMessage_def ebind_Inr_iff advance_def moved_def split: if_splits dest!: readVarintNumber_moved)

lemmas reader_moves = readTag_moved skip_field_moved readString_moved readBytesAsHex_moved fixed_moved readMessage_moved

definition left_over :: "pb_reader \<Rightarrow> nat" where
  "left_over r = pb_end r - pb_offset r"

lemma left_tag: "hasMore r \<Longrightarrow> readTag r = Inr (t, r1) \<Longrightarrow> left_over r1 < left_over r"
  by (auto simp: left_over_def hasMore_def moved_def dest: readTag_moved)

lemma left_moved: "moved r r' \<Longrightarrow> left_over r' \<le> left_over r"
  by (auto simp: left_over_def moved_def)

lemma left_message: "readMessage r = Inr (sub, r') \<Longrightarrow> left_over sub \<le> left_over r \<and> left_over r' \<le> left_over r"
  using readMessage_moved left_moved by (fastforce simp: left_over_def)

section \<open>Values\<close>

datatype any_value =
    String_value js_text
  | Bool_value bool
  | Int_value string
  | Double_value "64 word"
  | Array_value "any_value list"
  | Kvlist_value "(js_text \<times> any_value) list"
  | Bytes_value string
  | Empty_value

type_synonym key_value = "js_text \<times> any_value"

text \<open>
  \<open>decodeAnyValue\<close> with the two loops over a sub-reader, and the loop of \<open>decodeKeyValue\<close> with the
  key and the value read so far.
\<close>

function (sequential) decodeAnyValue :: "pb_reader \<Rightarrow> pb_error + any_value"
  and any_values :: "any_value list \<Rightarrow> pb_reader \<Rightarrow> pb_error + any_value list"
  and key_values :: "key_value list \<Rightarrow> pb_reader \<Rightarrow> pb_error + key_value list"
  and key_value_loop :: "js_text \<Rightarrow> any_value \<Rightarrow> pb_reader \<Rightarrow> pb_error + key_value"
where
  "decodeAnyValue r =
     (if \<not> hasMore r then Inr Empty_value
      else ebind (readTag r) (\<lambda>(t, r).
        if fst t = 1 then ebind (readString r) (\<lambda>(s, _). Inr (String_value s))
        else if fst t = 2 then ebind (readVarintNumber r) (\<lambda>(n, _). Inr (Bool_value (n \<noteq> 0)))
        else if fst t = 3 then ebind (readVarint r) (\<lambda>(n, _). Inr (Int_value (nat_digits n)))
        else if fst t = 4 then ebind (readDouble r) (\<lambda>(d, _). Inr (Double_value d))
        else if fst t = 5 then ebind (readMessage r) (\<lambda>(sub, _). ebind (any_values [] sub) (\<lambda>vs. Inr (Array_value vs)))
        else if fst t = 6 then ebind (readMessage r) (\<lambda>(sub, _). ebind (key_values [] sub) (\<lambda>vs. Inr (Kvlist_value vs)))
        else if fst t = 7 then ebind (readBytesAsHex r) (\<lambda>(h, _). Inr (Bytes_value h))
        else ebind (skip_field (snd t) r) decodeAnyValue))"
| "any_values acc r =
     (if \<not> hasMore r then Inr acc
      else ebind (readTag r) (\<lambda>(t, r).
        if fst t = 1 \<and> snd t = wire_len
        then ebind (readMessage r) (\<lambda>(sub, r). ebind (decodeAnyValue sub) (\<lambda>v. any_values (acc @ [v]) r))
        else ebind (skip_field (snd t) r) (any_values acc)))"
| "key_values acc r =
     (if \<not> hasMore r then Inr acc
      else ebind (readTag r) (\<lambda>(t, r).
        if fst t = 1 \<and> snd t = wire_len
        then ebind (readMessage r) (\<lambda>(sub, r). ebind (key_value_loop [] Empty_value sub) (\<lambda>v. key_values (acc @ [v]) r))
        else ebind (skip_field (snd t) r) (key_values acc)))"
| "key_value_loop key val r =
     (if \<not> hasMore r then Inr (key, val)
      else ebind (readTag r) (\<lambda>(t, r).
        if fst t = 1 \<and> snd t = wire_len then ebind (readString r) (\<lambda>(s, r). key_value_loop s val r)
        else if fst t = 2 \<and> snd t = wire_len
        then ebind (readMessage r) (\<lambda>(sub, r). ebind (decodeAnyValue sub) (\<lambda>v. key_value_loop key v r))
        else ebind (skip_field (snd t) r) (key_value_loop key val)))"
  by pat_completeness auto
termination
  by (relation "measure (case_sum (case_sum left_over (left_over \<circ> snd)) (case_sum (left_over \<circ> snd) (left_over \<circ> snd \<circ> snd)))")
    (auto dest!: left_tag left_message skip_field_moved [THEN left_moved] readString_moved [THEN left_moved])

declare decodeAnyValue.simps [simp del] any_values.simps [simp del] key_values.simps [simp del] key_value_loop.simps [simp del]

definition decodeKeyValue :: "pb_reader \<Rightarrow> pb_error + key_value" where
  "decodeKeyValue r = key_value_loop [] Empty_value r"

definition decodeAttributes :: "pb_reader \<Rightarrow> pb_error + key_value list" where
  "decodeAttributes r = ebind (decodeKeyValue r) (\<lambda>kv. Inr [kv])"

section \<open>Messages\<close>

text \<open>
  The loop every message decoder is: \<open>step\<close> is the body of the \<open>while\<close> after the tag was read, with
  what was decoded so far. \<open>None\<close> is a loop that never ends.
\<close>

type_synonym 'a pb_step = "nat \<times> nat \<Rightarrow> pb_reader \<Rightarrow> 'a \<Rightarrow> (pb_error + 'a \<times> pb_reader) option"

partial_function (option) pb_fields :: "'a pb_step \<Rightarrow> 'a \<Rightarrow> pb_reader \<Rightarrow> (pb_error + 'a) option" where
  "pb_fields step acc r =
     (if \<not> hasMore r then Some (Inr acc)
      else case readTag r of
        Inl e \<Rightarrow> Some (Inl e)
      | Inr tr \<Rightarrow>
          Option.bind (step (fst tr) (snd tr) acc) (\<lambda>x. case x of
            Inl e \<Rightarrow> Some (Inl e)
          | Inr ar \<Rightarrow> pb_fields step (fst ar) (snd ar)))"

definition value_field :: "(pb_reader \<Rightarrow> pb_error + 'b \<times> pb_reader) \<Rightarrow> ('b \<Rightarrow> 'a \<Rightarrow> 'a) \<Rightarrow> pb_reader \<Rightarrow> 'a \<Rightarrow> (pb_error + 'a \<times> pb_reader) option" where
  "value_field rd put r acc = Some (ebind (rd r) (\<lambda>(v, r). Inr (put v acc, r)))"

definition sub_field :: "(pb_reader \<Rightarrow> (pb_error + 'b) option) \<Rightarrow> ('b \<Rightarrow> 'a \<Rightarrow> 'a) \<Rightarrow> pb_reader \<Rightarrow> 'a \<Rightarrow> (pb_error + 'a \<times> pb_reader) option" where
  "sub_field dec put r acc =
     (case readMessage r of
        Inl e \<Rightarrow> Some (Inl e)
      | Inr (sub, r) \<Rightarrow> map_option (\<lambda>x. ebind x (\<lambda>v. Inr (put v acc, r))) (dec sub))"

definition other_field :: "nat \<Rightarrow> pb_reader \<Rightarrow> 'a \<Rightarrow> (pb_error + 'a \<times> pb_reader) option" where
  "other_field w r acc = Some (ebind (skip_field w r) (\<lambda>r. Inr (acc, r)))"

record resource = rs_attributes :: "key_value list"

record span =
  sp_traceId :: "string option"
  sp_spanId :: "string option"
  sp_parentSpanId :: "string option"
  sp_name :: "js_text option"
  sp_startTimeUnixNano :: "string option"
  sp_endTimeUnixNano :: "string option"
  sp_attributes :: "key_value list option"

record scope_spans = ss_spans :: "span list"

record resource_spans =
  rp_resource :: "resource option"
  rp_scopeSpans :: "scope_spans list"

record trace_request = tq_resourceSpans :: "resource_spans list"

definition plain :: "(pb_reader \<Rightarrow> pb_error + 'a) \<Rightarrow> pb_reader \<Rightarrow> (pb_error + 'a) option" where
  "plain dec r = Some (dec r)"

definition resource_step :: "key_value list pb_step" where
  "resource_step t r acc =
     (if fst t = 1 \<and> snd t = wire_len then sub_field (plain decodeAttributes) (\<lambda>kvs acc. acc @ kvs) r acc
      else other_field (snd t) r acc)"

definition decodeResource :: "pb_reader \<Rightarrow> (pb_error + resource) option" where
  "decodeResource r = map_option (\<lambda>x. ebind x (\<lambda>as. Inr \<lparr>rs_attributes = as\<rparr>)) (pb_fields resource_step [] r)"

definition empty_span :: span where
  "empty_span = \<lparr>sp_traceId = None, sp_spanId = None, sp_parentSpanId = None, sp_name = None,
     sp_startTimeUnixNano = None, sp_endTimeUnixNano = None, sp_attributes = None\<rparr>"

definition span_step :: "(span \<times> key_value list) pb_step" where
  "span_step t r acc =
     (let f = fst t in
      if f = 1 then value_field readBytesAsHex (\<lambda>h. apfst (sp_traceId_update (\<lambda>_. Some h))) r acc
      else if f = 2 then value_field readBytesAsHex (\<lambda>h. apfst (sp_spanId_update (\<lambda>_. Some h))) r acc
      else if f = 4
      then value_field readBytesAsHex (\<lambda>h. if h \<noteq> [] then apfst (sp_parentSpanId_update (\<lambda>_. Some h)) else id) r acc
      else if f = 5 then value_field readString (\<lambda>s. apfst (sp_name_update (\<lambda>_. Some s))) r acc
      else if f = 7 then value_field readFixed64Uint (\<lambda>n. apfst (sp_startTimeUnixNano_update (\<lambda>_. Some (nat_digits n)))) r acc
      else if f = 8 then value_field readFixed64Uint (\<lambda>n. apfst (sp_endTimeUnixNano_update (\<lambda>_. Some (nat_digits n)))) r acc
      else if f = 9 then sub_field (plain decodeAttributes) (\<lambda>kvs. apsnd (\<lambda>as. as @ kvs)) r acc
      else other_field (snd t) r acc)"

definition finish_span :: "span \<times> key_value list \<Rightarrow> span" where
  "finish_span a = (if snd a \<noteq> [] then (fst a)\<lparr>sp_attributes := Some (snd a)\<rparr> else fst a)"

definition decodeSpan :: "pb_reader \<Rightarrow> (pb_error + span) option" where
  "decodeSpan r = map_option (\<lambda>x. ebind x (\<lambda>a. Inr (finish_span a))) (pb_fields span_step (empty_span, []) r)"

definition scope_spans_step :: "span list pb_step" where
  "scope_spans_step t r acc =
     (if fst t = 2 \<and> snd t = wire_len then sub_field decodeSpan (\<lambda>s acc. acc @ [s]) r acc else other_field (snd t) r acc)"

definition decodeScopeSpans :: "pb_reader \<Rightarrow> (pb_error + scope_spans) option" where
  "decodeScopeSpans r = map_option (\<lambda>x. ebind x (\<lambda>ss. Inr \<lparr>ss_spans = ss\<rparr>)) (pb_fields scope_spans_step [] r)"

definition resource_spans_step :: "resource_spans pb_step" where
  "resource_spans_step t r acc =
     (if fst t = 1 \<and> snd t = wire_len then sub_field decodeResource (\<lambda>x. rp_resource_update (\<lambda>_. Some x)) r acc
      else if fst t = 2 \<and> snd t = wire_len then sub_field decodeScopeSpans (\<lambda>x. rp_scopeSpans_update (\<lambda>xs. xs @ [x])) r acc
      else other_field (snd t) r acc)"

definition decodeResourceSpans :: "pb_reader \<Rightarrow> (pb_error + resource_spans) option" where
  "decodeResourceSpans r = pb_fields resource_spans_step \<lparr>rp_resource = None, rp_scopeSpans = []\<rparr> r"

definition trace_step :: "resource_spans list pb_step" where
  "trace_step t r acc =
     (if fst t = 1 \<and> snd t = wire_len then sub_field decodeResourceSpans (\<lambda>x acc. acc @ [x]) r acc else other_field (snd t) r acc)"

definition decodeExportTraceServiceRequest :: "byte list \<Rightarrow> (pb_error + trace_request) option" where
  "decodeExportTraceServiceRequest buf =
     map_option (\<lambda>x. ebind x (\<lambda>xs. Inr \<lparr>tq_resourceSpans = xs\<rparr>)) (pb_fields trace_step [] (new_reader buf))"

record data_point =
  dp_attributes :: "key_value list option"
  dp_asDouble :: "64 word option"
  dp_asInt :: "string option"

record metric =
  mt_name :: "js_text option"
  mt_description :: "js_text option"
  mt_unit :: "js_text option"
  mt_gauge :: "data_point list option"
  mt_sum :: "data_point list option"
  mt_histogram :: "data_point list option"

record scope_metrics = sm_metrics :: "metric list"

record resource_metrics =
  rm_resource :: "resource option"
  rm_scopeMetrics :: "scope_metrics list"

record metrics_request = mq_resourceMetrics :: "resource_metrics list"

definition data_point_step :: "(data_point \<times> key_value list) pb_step" where
  "data_point_step t r acc =
     (let f = fst t in
      if f = 4 then value_field readDouble (\<lambda>d. apfst (dp_asDouble_update (\<lambda>_. Some d))) r acc
      else if f = 6 then value_field readFixed64Int (\<lambda>n. apfst (dp_asInt_update (\<lambda>_. Some (int_str n)))) r acc
      else if f = 7 then sub_field (plain decodeAttributes) (\<lambda>kvs. apsnd (\<lambda>as. as @ kvs)) r acc
      else other_field (snd t) r acc)"

definition decodeNumberDataPoint :: "pb_reader \<Rightarrow> (pb_error + data_point) option" where
  "decodeNumberDataPoint r =
     map_option (\<lambda>x. ebind x (\<lambda>a. Inr (if snd a \<noteq> [] then (fst a)\<lparr>dp_attributes := Some (snd a)\<rparr> else fst a)))
       (pb_fields data_point_step (\<lparr>dp_attributes = None, dp_asDouble = None, dp_asInt = None\<rparr>, []) r)"

definition container_step :: "data_point list pb_step" where
  "container_step t r acc =
     (if fst t = 1 \<and> snd t = wire_len then sub_field decodeNumberDataPoint (\<lambda>d acc. acc @ [d]) r acc
      else other_field (snd t) r acc)"

definition decodeDataPointContainer :: "pb_reader \<Rightarrow> (pb_error + data_point list) option" where
  "decodeDataPointContainer r = pb_fields container_step [] r"

definition metric_step :: "metric pb_step" where
  "metric_step t r acc =
     (let f = fst t in
      if f = 1 then value_field readString (\<lambda>s. mt_name_update (\<lambda>_. Some s)) r acc
      else if f = 2 then value_field readString (\<lambda>s. mt_description_update (\<lambda>_. Some s)) r acc
      else if f = 3 then value_field readString (\<lambda>s. mt_unit_update (\<lambda>_. Some s)) r acc
      else if f = 5 then sub_field decodeDataPointContainer (\<lambda>d. mt_gauge_update (\<lambda>_. Some d)) r acc
      else if f = 7 then sub_field decodeDataPointContainer (\<lambda>d. mt_sum_update (\<lambda>_. Some d)) r acc
      else if f = 9 then sub_field decodeDataPointContainer (\<lambda>d. mt_histogram_update (\<lambda>_. Some d)) r acc
      else other_field (snd t) r acc)"

definition decodeMetric :: "pb_reader \<Rightarrow> (pb_error + metric) option" where
  "decodeMetric r =
     pb_fields metric_step \<lparr>mt_name = None, mt_description = None, mt_unit = None, mt_gauge = None, mt_sum = None, mt_histogram = None\<rparr> r"

definition scope_metrics_step :: "metric list pb_step" where
  "scope_metrics_step t r acc =
     (if fst t = 2 \<and> snd t = wire_len then sub_field decodeMetric (\<lambda>m acc. acc @ [m]) r acc else other_field (snd t) r acc)"

definition decodeScopeMetrics :: "pb_reader \<Rightarrow> (pb_error + scope_metrics) option" where
  "decodeScopeMetrics r = map_option (\<lambda>x. ebind x (\<lambda>ms. Inr \<lparr>sm_metrics = ms\<rparr>)) (pb_fields scope_metrics_step [] r)"

definition resource_metrics_step :: "resource_metrics pb_step" where
  "resource_metrics_step t r acc =
     (if fst t = 1 \<and> snd t = wire_len then sub_field decodeResource (\<lambda>x. rm_resource_update (\<lambda>_. Some x)) r acc
      else if fst t = 2 \<and> snd t = wire_len then sub_field decodeScopeMetrics (\<lambda>x. rm_scopeMetrics_update (\<lambda>xs. xs @ [x])) r acc
      else other_field (snd t) r acc)"

definition decodeResourceMetrics :: "pb_reader \<Rightarrow> (pb_error + resource_metrics) option" where
  "decodeResourceMetrics r = pb_fields resource_metrics_step \<lparr>rm_resource = None, rm_scopeMetrics = []\<rparr> r"

definition metrics_step :: "resource_metrics list pb_step" where
  "metrics_step t r acc =
     (if fst t = 1 \<and> snd t = wire_len then sub_field decodeResourceMetrics (\<lambda>x acc. acc @ [x]) r acc
      else other_field (snd t) r acc)"

definition decodeExportMetricsServiceRequest :: "byte list \<Rightarrow> (pb_error + metrics_request) option" where
  "decodeExportMetricsServiceRequest buf =
     map_option (\<lambda>x. ebind x (\<lambda>xs. Inr \<lparr>mq_resourceMetrics = xs\<rparr>)) (pb_fields metrics_step [] (new_reader buf))"

section \<open>Every decoder returns\<close>

text \<open>What the loop asks of its body: it returns, and never moves the reader back.\<close>

locale pb_progress =
  fixes step :: "'a pb_step"
  assumes returns: "\<exists>x. step t r acc = Some x"
    and forward: "step t r acc = Some (Inr (acc', r')) \<Longrightarrow> moved r r'"
begin

lemma fields_return: "\<exists>x. pb_fields step acc r = Some x"
proof (induction "left_over r" arbitrary: acc r rule: less_induct)
  case less
  show ?case
  proof (cases "hasMore r")
    case True
    show ?thesis
    proof (cases "readTag r")
      case (Inr tr)
      obtain x where x: "step (fst tr) (snd tr) acc = Some x" using returns by blast
      show ?thesis
      proof (cases x)
        case (Inr ar)
        have "left_over (snd ar) \<le> left_over (snd tr)"
          using x Inr forward [of "fst tr" "snd tr" acc "fst ar" "snd ar"] left_moved by simp
        moreover have "left_over (snd tr) < left_over r"
          using left_tag [OF True, of "fst tr" "snd tr"] \<open>readTag r = Inr tr\<close> by simp
        ultimately have "\<exists>y. pb_fields step (fst ar) (snd ar) = Some y" by (intro less) simp
        then show ?thesis using True \<open>readTag r = Inr tr\<close> x Inr by (simp add: pb_fields.simps [of step acc r])
      qed (use True Inr x in \<open>simp add: pb_fields.simps [of step acc r]\<close>)
    qed (use True in \<open>simp add: pb_fields.simps [of step acc r]\<close>)
  qed (simp add: pb_fields.simps [of step acc r])
qed

end

text \<open>The three kinds of field meet it, a sub-message when its own decoder returns.\<close>

definition progresses :: "(pb_reader \<Rightarrow> 'a \<Rightarrow> (pb_error + 'a \<times> pb_reader) option) \<Rightarrow> bool" where
  "progresses f = (\<forall>r acc. (\<exists>x. f r acc = Some x) \<and> (\<forall>acc' r'. f r acc = Some (Inr (acc', r')) \<longrightarrow> moved r r'))"

lemma progresses_value: "(\<And>r v r'. rd r = Inr (v, r') \<Longrightarrow> moved r r') \<Longrightarrow> progresses (value_field rd put)"
  by (auto simp: progresses_def value_field_def ebind_Inr_iff)

lemma progresses_sub: "(\<And>r. \<exists>x. dec r = Some x) \<Longrightarrow> progresses (sub_field dec put)"
  by (fastforce simp: progresses_def sub_field_def ebind_Inr_iff dest: readMessage_moved split: sum.split)

lemma progresses_other: "progresses (other_field w)"
  by (auto simp: progresses_def other_field_def ebind_Inr_iff dest: skip_field_moved)

lemma progresses_if: "progresses f \<Longrightarrow> progresses g \<Longrightarrow> progresses (\<lambda>r acc. if b then f r acc else g r acc)"
  by (simp add: progresses_def)

lemma progress_locale:
  assumes "\<And>t. progresses (\<lambda>r acc. step t r acc)" shows "pb_progress step"
  using assms unfolding progresses_def by unfold_locales blast+

lemmas progress_rules = progresses_if progresses_sub progresses_other
  progresses_value [OF readBytesAsHex_moved] progresses_value [OF readString_moved]
  progresses_value [OF fixed_moved(1)] progresses_value [OF fixed_moved(2)] progresses_value [OF fixed_moved(3)]

lemma plain_returns: "\<exists>x. plain dec r = Some x"
  by (simp add: plain_def)

interpretation resource_loop: pb_progress resource_step
  by (rule progress_locale) (unfold resource_step_def Let_def, intro progress_rules plain_returns)

lemma decodeResource_returns: "\<exists>x. decodeResource r = Some x"
  using resource_loop.fields_return [of "[]" r] by (auto simp: decodeResource_def)

interpretation span_loop: pb_progress span_step
  by (rule progress_locale) (unfold span_step_def Let_def, intro progress_rules plain_returns)

lemma decodeSpan_returns: "\<exists>x. decodeSpan r = Some x"
  using span_loop.fields_return [of "(empty_span, [])" r] by (auto simp: decodeSpan_def)

interpretation scope_spans_loop: pb_progress scope_spans_step
  by (rule progress_locale) (unfold scope_spans_step_def Let_def, intro progress_rules decodeSpan_returns)

lemma decodeScopeSpans_returns: "\<exists>x. decodeScopeSpans r = Some x"
  using scope_spans_loop.fields_return [of "[]" r] by (auto simp: decodeScopeSpans_def)

interpretation resource_spans_loop: pb_progress resource_spans_step
  by (rule progress_locale)
    (unfold resource_spans_step_def Let_def, intro progress_rules decodeResource_returns decodeScopeSpans_returns)

lemma decodeResourceSpans_returns: "\<exists>x. decodeResourceSpans r = Some x"
  unfolding decodeResourceSpans_def by (rule resource_spans_loop.fields_return)

interpretation trace_loop: pb_progress trace_step
  by (rule progress_locale) (unfold trace_step_def Let_def, intro progress_rules decodeResourceSpans_returns)

interpretation data_point_loop: pb_progress data_point_step
  by (rule progress_locale) (unfold data_point_step_def Let_def, intro progress_rules plain_returns)

lemma decodeNumberDataPoint_returns: "\<exists>x. decodeNumberDataPoint r = Some x"
  using data_point_loop.fields_return [of "(\<lparr>dp_attributes = None, dp_asDouble = None, dp_asInt = None\<rparr>, [])" r]
  by (auto simp: decodeNumberDataPoint_def)

interpretation container_loop: pb_progress container_step
  by (rule progress_locale) (unfold container_step_def Let_def, intro progress_rules decodeNumberDataPoint_returns)

lemma decodeDataPointContainer_returns: "\<exists>x. decodeDataPointContainer r = Some x"
  unfolding decodeDataPointContainer_def by (rule container_loop.fields_return)

interpretation metric_loop: pb_progress metric_step
  by (rule progress_locale) (unfold metric_step_def Let_def, intro progress_rules decodeDataPointContainer_returns)

lemma decodeMetric_returns: "\<exists>x. decodeMetric r = Some x"
  unfolding decodeMetric_def by (rule metric_loop.fields_return)

interpretation scope_metrics_loop: pb_progress scope_metrics_step
  by (rule progress_locale) (unfold scope_metrics_step_def Let_def, intro progress_rules decodeMetric_returns)

lemma decodeScopeMetrics_returns: "\<exists>x. decodeScopeMetrics r = Some x"
  using scope_metrics_loop.fields_return [of "[]" r] by (auto simp: decodeScopeMetrics_def)

interpretation resource_metrics_loop: pb_progress resource_metrics_step
  by (rule progress_locale)
    (unfold resource_metrics_step_def Let_def, intro progress_rules decodeResource_returns decodeScopeMetrics_returns)

lemma decodeResourceMetrics_returns: "\<exists>x. decodeResourceMetrics r = Some x"
  unfolding decodeResourceMetrics_def by (rule resource_metrics_loop.fields_return)

interpretation metrics_loop: pb_progress metrics_step
  by (rule progress_locale) (unfold metrics_step_def Let_def, intro progress_rules decodeResourceMetrics_returns)

text \<open>
  Claim C40: whatever bytes a host posts, both decoders return: they give a request or throw one of
  the reader's errors. No length, tag or nesting makes a loop run for ever, although a skipped field
  may move the reader past the end of its message.
\<close>

theorem decoders_return:
  "(\<exists>x. decodeExportTraceServiceRequest buf = Some x) \<and> (\<exists>y. decodeExportMetricsServiceRequest buf = Some y)"
  using trace_loop.fields_return [of "[]" "new_reader buf"] metrics_loop.fields_return [of "[]" "new_reader buf"]
  by (auto simp: decodeExportTraceServiceRequest_def decodeExportMetricsServiceRequest_def)

end
