(* ===== verification/Protobuf_Wire.thy ===== *)
theory Protobuf_Wire
  imports Protobuf
begin

text \<open>
  The wire format as an encoder, and the decoder as its inverse: a reader is what is left of its
  buffer, every read of an encoded piece consumes exactly the piece.
\<close>

unbundle bit_operations_syntax

section \<open>What a reader has left\<close>

definition remaining :: "pb_reader \<Rightarrow> byte list" where
  "remaining r = take (left_over r) (drop (pb_offset r) (pb_buf r))"

definition pb_ok :: "pb_reader \<Rightarrow> bool" where
  "pb_ok r = (pb_end r \<le> length (pb_buf r))"

lemma advance_simps [simp]:
  "pb_buf (advance n r) = pb_buf r" "pb_end (advance n r) = pb_end r" "pb_offset (advance n r) = pb_offset r + n"
  "pb_ok (advance n r) = pb_ok r" "advance m (advance n r) = advance (n + m) r" "advance 0 r = r"
  by (simp_all add: advance_def pb_ok_def ac_simps)

lemma remaining_advance [simp]: "remaining (advance n r) = drop n (remaining r)"
  by (simp add: remaining_def left_over_def drop_take ac_simps)

lemma length_remaining: "pb_ok r \<Longrightarrow> length (remaining r) = left_over r"
  by (auto simp: remaining_def left_over_def pb_ok_def)

lemma hasMore_remaining: "pb_ok r \<Longrightarrow> hasMore r \<longleftrightarrow> remaining r \<noteq> []"
  unfolding hasMore_def by (metis left_over_def length_greater_0_conv length_remaining zero_less_diff)

lemma remaining_byte:
  assumes "pb_ok r" and "remaining r = b # bs"
  shows "pb_offset r < pb_end r" and "pb_buf r ! pb_offset r = b"
proof -
  show more: "pb_offset r < pb_end r" using assms hasMore_remaining by (auto simp: hasMore_def)
  have "hd (drop (pb_offset r) (pb_buf r)) = pb_buf r ! pb_offset r"
    using more assms(1) by (intro hd_drop_conv_nth) (simp add: pb_ok_def)
  then show "pb_buf r ! pb_offset r = b"
    using assms(2) more unfolding remaining_def left_over_def by (cases "drop (pb_offset r) (pb_buf r)"; cases "pb_end r - pb_offset r") auto
qed

lemma remaining_new [simp]: "remaining (new_reader buf) = buf" "pb_ok (new_reader buf)"
  by (simp_all add: remaining_def new_reader_def left_over_def pb_ok_def)

text \<open>A run of bytes read at the front.\<close>

lemma remaining_run:
  assumes "pb_ok r" and "remaining r = bs @ rest"
  shows "pb_offset r + length bs \<le> pb_end r \<or> bs = []" and "take (length bs) (drop (pb_offset r) (pb_buf r)) = bs"
proof -
  have "length bs \<le> left_over r" using assms length_remaining [of r] by simp
  then show "pb_offset r + length bs \<le> pb_end r \<or> bs = []" by (cases bs) (auto simp: left_over_def)
  have "take (length bs) (remaining r) = bs" using assms(2) by simp
  then show "take (length bs) (drop (pb_offset r) (pb_buf r)) = bs"
    using \<open>length bs \<le> left_over r\<close> by (simp add: remaining_def min_def)
qed

section \<open>Varints\<close>

fun varint :: "nat \<Rightarrow> byte list" where
  "varint n = (if n < 128 then [word_of_nat n] else word_of_nat (128 + n mod 128) # varint (n div 128))"

declare varint.simps [simp del]

lemma varint_nonempty [simp]: "varint n \<noteq> []"
  by (simp add: varint.simps)

lemma or_high: "v < 2 ^ s \<Longrightarrow> v OR push_bit s x = v + x * 2 ^ s" for v :: nat
proof -
  assume "v < 2 ^ s"
  then have "take_bit s v = v" by (simp add: take_bit_nat_eq_self_iff)
  then have "bit v n \<Longrightarrow> n < s" for n by (metis bit_take_bit_iff)
  then have "v AND push_bit s x = 0" by (intro bit_eqI) (simp add: bit_simps, metis leD)
  from disjunctive_add_eq_or [OF this] show ?thesis by (simp add: push_bit_eq_mult)
qed

lemma byte_bits:
  "list_all (\<lambda>n. unat ((word_of_nat n :: byte) AND 0x7F) = n \<and> (word_of_nat n :: byte) AND 0x80 = 0) [0..<128]"
  "list_all (\<lambda>n. unat ((word_of_nat (128 + n) :: byte) AND 0x7F) = n \<and> (word_of_nat (128 + n) :: byte) AND 0x80 \<noteq> 0) [0..<128]"
  by code_simp+

lemma byte_low: "n < 128 \<Longrightarrow> unat ((word_of_nat n :: byte) AND 0x7F) = n \<and> (word_of_nat n :: byte) AND 0x80 = 0"
proof -
  assume "n < 128"
  then have "n \<in> set [0..<128]" by simp
  with byte_bits(1) show ?thesis unfolding list_all_iff by blast
qed

lemma byte_high: "n < 128 \<Longrightarrow> unat ((word_of_nat (128 + n) :: byte) AND 0x7F) = n \<and> (word_of_nat (128 + n) :: byte) AND 0x80 \<noteq> 0"
proof -
  assume "n < 128"
  then have "n \<in> set [0..<128]" by simp
  with byte_bits(2) show ?thesis unfolding list_all_iff by blast
qed

lemma varint_loop_reads:
  assumes "0 < k" and "n < 128 ^ k" and "v < 2 ^ s" and "pb_ok r" and "remaining r = varint n @ rest"
  shows "varint_loop k s v r = Inr (v + n * 2 ^ s, advance (length (varint n)) r)"
  using assms
proof (induction k arbitrary: n v s r)
  case (Suc k)
  show ?case
  proof (cases "n < 128")
    case True
    then have v: "varint n = [word_of_nat n]" by (simp add: varint.simps)
    show ?thesis
      using Suc.prems remaining_byte [OF Suc.prems(4)] True unfolding v by (simp add: byte_low or_high)
  next
    case False
    define b :: byte where "b = word_of_nat (128 + n mod 128)"
    have v: "varint n = b # varint (n div 128)" using False by (simp add: varint.simps b_def)
    have b: "unat (b AND 0x7F) = n mod 128" "b AND 0x80 \<noteq> 0" using byte_high [of "n mod 128"] by (simp_all only: b_def) simp_all
    have k: "0 < k" using False Suc.prems(2) by (cases k) auto
    have n: "n div 128 < 128 ^ k" using Suc.prems(2) by (simp add: less_mult_imp_div_less mult.commute)
    have le: "v + n mod 128 * 2 ^ s < 2 ^ (s + 7)"
    proof -
      have "n mod 128 \<le> 127" by simp
      then have "n mod 128 * 2 ^ s \<le> 127 * 2 ^ s" by (rule mult_right_mono) simp
      then have "v + n mod 128 * 2 ^ s < 2 ^ s + 127 * 2 ^ s" using Suc.prems(3) by linarith
      also have "\<dots> = 2 ^ (s + 7)" by (simp add: power_add)
      finally show ?thesis .
    qed
    have "varint_loop k (s + 7) (v + n mod 128 * 2 ^ s) (advance 1 r) =
        Inr (v + n mod 128 * 2 ^ s + n div 128 * 2 ^ (s + 7), advance (length (varint (n div 128))) (advance 1 r))"
      by (rule Suc.IH [OF k n le]) (use Suc.prems(4,5) v in simp_all)
    moreover have "v + n mod 128 * 2 ^ s + n div 128 * 2 ^ (s + 7) = v + n * 2 ^ s"
    proof -
      have "n mod 128 * 2 ^ s + n div 128 * 2 ^ (s + 7) = (n mod 128 + n div 128 * 128) * 2 ^ s"
        unfolding distrib_right by (simp add: power_add)
      also have "n mod 128 + n div 128 * 128 = n" by simp
      finally show ?thesis by (simp only: add.assoc)
    qed
    ultimately show ?thesis
      using Suc.prems(3,5) remaining_byte [OF Suc.prems(4)] unfolding v by (simp add: b or_high Let_def)
  qed
qed simp

lemma readVarint_reads:
  assumes "n < 2 ^ 64" and "pb_ok r" and "remaining r = varint n @ rest"
  shows "readVarint r = Inr (n, advance (length (varint n)) r)"
  unfolding readVarint_def using varint_loop_reads [of 10 n 0 0 r rest] assms by simp

lemma readVarintNumber_reads:
  assumes "n < 2 ^ 53" and "pb_ok r" and "remaining r = varint n @ rest"
  shows "readVarintNumber r = Inr (n, advance (length (varint n)) r)"
  using readVarint_reads [of n r rest] assms by (simp add: readVarintNumber_def js_number_def)

section \<open>Tags, byte runs and fixed-width numbers\<close>

definition tag_bytes :: "nat \<Rightarrow> nat \<Rightarrow> byte list" where
  "tag_bytes f w = varint (f * 8 + w)"

definition len_bytes :: "byte list \<Rightarrow> byte list" where
  "len_bytes bs = varint (length bs) @ bs"

fun le_bytes :: "nat \<Rightarrow> nat \<Rightarrow> byte list" where
  "le_bytes 0 n = []"
| "le_bytes (Suc k) n = word_of_nat (n mod 256) # le_bytes k (n div 256)"

lemma tag_nonempty [simp]: "tag_bytes f w \<noteq> []"
  by (simp add: tag_bytes_def)

text \<open>A reader over a buffer a host can hold, and what is left of it.\<close>

definition reads :: "pb_reader \<Rightarrow> byte list \<Rightarrow> bool" where
  "reads r bs = (pb_ok r \<and> length (pb_buf r) < 2 ^ 53 \<and> remaining r = bs)"

lemma reads_advance: "reads r (bs @ rest) \<Longrightarrow> reads (advance (length bs) r) rest"
  by (simp add: reads_def)

lemma reads_more: "reads r bs \<Longrightarrow> hasMore r \<longleftrightarrow> bs \<noteq> []"
  by (simp add: reads_def hasMore_remaining)

lemma reads_length: "reads r bs \<Longrightarrow> length bs < 2 ^ 53"
  using length_remaining [of r] by (auto simp: reads_def left_over_def pb_ok_def)

lemma readTag_reads:
  assumes "f < 2 ^ 29" and "w < 8" and "reads r (tag_bytes f w @ rest)"
  shows "readTag r = Inr ((f, w), advance (length (tag_bytes f w)) r)"
proof -
  have n: "f * 8 + w < 2 ^ 32" using assms(1,2) by simp
  have "readVarintNumber r = Inr (f * 8 + w, advance (length (tag_bytes f w)) r)"
    using readVarintNumber_reads [of "f * 8 + w" r rest] n assms(3) by (simp add: reads_def tag_bytes_def)
  then show ?thesis using n assms(2) by (simp add: readTag_def)
qed

lemma len_number:
  assumes "reads r (len_bytes bs @ rest)"
  shows "readVarintNumber r = Inr (length bs, advance (length (varint (length bs))) r)"
    and "reads (advance (length (varint (length bs))) r) (bs @ rest)"
    and "pb_offset r + length (varint (length bs)) + length bs \<le> pb_end r"
    and "take (length bs) (drop (pb_offset r + length (varint (length bs))) (pb_buf r)) = bs"
proof -
  have b: "length bs < 2 ^ 53" using reads_length [OF assms] by (simp add: len_bytes_def)
  show "readVarintNumber r = Inr (length bs, advance (length (varint (length bs))) r)"
    using readVarintNumber_reads [OF b, of r "bs @ rest"] assms by (simp add: reads_def len_bytes_def)
  show r': "reads (advance (length (varint (length bs))) r) (bs @ rest)"
    using reads_advance [of r "varint (length bs)" "bs @ rest"] assms by (simp add: len_bytes_def)
  have "0 < length (varint (length bs))" by simp
  then show "pb_offset r + length (varint (length bs)) + length bs \<le> pb_end r"
    using remaining_run(1) [of r "varint (length bs) @ bs" rest] assms by (simp add: reads_def len_bytes_def)
  show "take (length bs) (drop (pb_offset r + length (varint (length bs))) (pb_buf r)) = bs"
    using remaining_run(2) [of "advance (length (varint (length bs))) r" bs rest] r' by (simp add: reads_def)
qed

lemma readLengthDelimited_reads:
  assumes "reads r (len_bytes bs @ rest)"
  shows "readLengthDelimited r = Inr (bs, advance (length (len_bytes bs)) r)"
  using len_number [OF assms] by (simp add: readLengthDelimited_def) (simp add: len_bytes_def)

lemma readMessage_reads:
  assumes "reads r (len_bytes bs @ rest)"
  shows "\<exists>sub. readMessage r = Inr (sub, advance (length (len_bytes bs)) r) \<and> reads sub bs"
proof -
  let ?n = "length (varint (length bs))"
  let ?sub = "(advance ?n r)\<lparr>pb_end := pb_offset r + ?n + length bs\<rparr>"
  have "readMessage r = Inr (?sub, advance (length (len_bytes bs)) r)"
    using len_number [OF assms] by (simp add: readMessage_def) (simp add: len_bytes_def)
  moreover have "reads ?sub bs"
    using len_number(3,4) [OF assms] assms by (simp add: reads_def pb_ok_def remaining_def left_over_def)
  ultimately show ?thesis by blast
qed

lemma le_bytes_length [simp]: "length (le_bytes k n) = k"
  by (induction k arbitrary: n) simp_all

lemma le_value_bytes: "le_value (le_bytes k n) = n mod 256 ^ k"
proof (induction k arbitrary: n)
  case (Suc k)
  have "unat (word_of_nat (n mod 256) :: byte) = n mod 256" by (simp add: unat_of_nat)
  then have "le_value (le_bytes (Suc k) n) = n mod 256 + 256 * (n div 256 mod 256 ^ k)"
    using Suc by (simp add: le_value_def)
  then show ?case by (simp add: mod_mult2_eq)
qed (simp add: le_value_def)

lemma le_bytes_split: "le_bytes (j + k) n = le_bytes j n @ le_bytes k (n div 256 ^ j)"
  by (induction j arbitrary: n) (simp_all add: div_mult2_eq)

lemma fixed_run:
  assumes "reads r (le_bytes 8 n @ rest)"
  shows "pb_offset r + 8 \<le> pb_end r" and "take 8 (drop (pb_offset r) (pb_buf r)) = le_bytes 8 n"
proof -
  have "le_bytes 8 n \<noteq> []" by (metis le_bytes_length length_0_conv zero_neq_numeral)
  then show "pb_offset r + 8 \<le> pb_end r" "take 8 (drop (pb_offset r) (pb_buf r)) = le_bytes 8 n"
    using remaining_run [of r "le_bytes 8 n" rest] assms by (auto simp: reads_def)
qed

lemma readDouble_reads:
  assumes "reads r (le_bytes 8 (unat d) @ rest)"
  shows "readDouble r = Inr (d, advance 8 r)"
proof -
  have "unat d < 256 ^ 8" using unsigned_less [of d] by simp
  then show ?thesis using fixed_run [OF assms] by (simp add: readDouble_def le_value_bytes)
qed

lemma readFixed64Uint_reads:
  assumes "n < 2 ^ 64" and "reads r (le_bytes 8 n @ rest)"
  shows "readFixed64Uint r = Inr (n, advance 8 r)"
proof -
  let ?bs = "drop (pb_offset r) (pb_buf r)"
  have bs: "take 8 ?bs = le_bytes 4 n @ le_bytes 4 (n div 256 ^ 4)"
    using fixed_run(2) [OF assms(2)] le_bytes_split [of 4 4 n] by simp
  have "take 4 (take 8 ?bs) = le_bytes 4 n" "take 4 (drop 4 (take 8 ?bs)) = le_bytes 4 (n div 256 ^ 4)"
    unfolding bs by simp_all
  then have lo: "take 4 ?bs = le_bytes 4 n" and hi: "take 4 (drop (pb_offset r + 4) (pb_buf r)) = le_bytes 4 (n div 256 ^ 4)"
    by (simp_all add: drop_take ac_simps)
  have "push_bit 32 (n div 2 ^ 32) OR n mod 2 ^ 32 = n mod 2 ^ 32 + n div 2 ^ 32 * 2 ^ 32"
    using or_high [of "n mod 2 ^ 32" 32 "n div 2 ^ 32"] by (simp add: or.commute)
  then have "push_bit 32 (n div 2 ^ 32) OR n mod 2 ^ 32 = n" by simp
  moreover have "n div 256 ^ 4 mod 256 ^ 4 = n div 2 ^ 32" using assms(1) by (simp add: less_mult_imp_div_less)
  ultimately show ?thesis
    using fixed_run(1) [OF assms(2)] by (simp add: readFixed64Uint_def lo hi le_value_bytes)
qed

section \<open>Text\<close>

definition utf8_units :: "nat \<Rightarrow> nat list" where
  "utf8_units c =
     (if c < 0x80 then [c]
      else if c < 0x800 then [0xC0 + c div 64, 0x80 + c mod 64]
      else if c < 0x10000 then [0xE0 + c div 4096, 0x80 + c div 64 mod 64, 0x80 + c mod 64]
      else [0xF0 + c div 262144, 0x80 + c div 4096 mod 64, 0x80 + c div 64 mod 64, 0x80 + c mod 64])"

definition scalar :: "nat \<Rightarrow> bool" where
  "scalar c = (c < 0x110000 \<and> \<not> (0xD800 \<le> c \<and> c \<le> 0xDFFF))"

definition utf8_bytes :: "js_text \<Rightarrow> byte list" where
  "utf8_bytes s = map word_of_nat (concat (map utf8_units s))"

text \<open>Text without a leading byte-order mark, which the platform's decoder strips.\<close>

definition text_ok :: "js_text \<Rightarrow> bool" where
  "text_ok s = (list_all scalar s \<and> (case s of [] \<Rightarrow> True | c # _ \<Rightarrow> c \<noteq> 0xFEFF))"

lemma utf8_units_byte: "c < 0x110000 \<Longrightarrow> n \<in> set (utf8_units c) \<Longrightarrow> n < 256"
  by (auto simp: utf8_units_def split: if_splits; presburger)

lemma lead_bits:
  fixes x :: nat
  shows "x < 32 \<Longrightarrow> (192 + x) mod 32 = x" "x < 16 \<Longrightarrow> (224 + x) mod 16 = x" "x < 8 \<Longrightarrow> (240 + x) mod 8 = x"
    "x < 64 \<Longrightarrow> (128 + x) mod 64 = x"
  using mod_mult_self3 [of 6 32 x] mod_mult_self3 [of 14 16 x] mod_mult_self3 [of 30 8 x] mod_mult_self3 [of 2 64 x]
  by simp_all

lemma utf8_go_units:
  assumes "scalar c" shows "utf8_go 0 0x80 0xBF 0 (utf8_units c @ ns) = c # utf8_go 0 0x80 0xBF 0 ns"
proof -
  define h where "h = c div 262144"
  define a where "a = c div 4096 mod 64"
  define b where "b = c div 64 mod 64"
  define d where "d = c mod 64"
  have c: "c = h * 262144 + a * 4096 + b * 64 + d"
  proof -
    have "64 * (c div 64) + c mod 64 = c" "64 * (c div 64 div 64) + c div 64 mod 64 = c div 64"
      "64 * (c div 4096 div 64) + c div 4096 mod 64 = c div 4096" by (rule mult_div_mod_eq)+
    moreover have "c div 64 div 64 = c div 4096" "c div 4096 div 64 = c div 262144" by (simp_all flip: div_mult2_eq)
    ultimately show ?thesis unfolding h_def a_def b_def d_def by linarith
  qed
  have lt: "a < 64" "b < 64" "d < 64" by (simp_all add: a_def b_def d_def)
  show ?thesis
  proof (cases "c < 0x80")
    case False
    show ?thesis
    proof (cases "c < 0x800")
      case True
      have "h = 0" "a = 0" using True c by linarith+
      then have b: "2 \<le> b" "b < 32" and e: "b * 64 + d = c" using True False c lt by linarith+
      have q: "c div 64 = b" using True by (simp add: b_def)
      have "(192 + b) mod 32 = b" "(128 + d) mod 64 = d" using b lt lead_bits by simp_all
      then show ?thesis
        using False True lt b e by (simp add: utf8_units_def utf8_lead_def q flip: d_def)
    next
      case big: False
      show ?thesis
      proof (cases "c < 0x10000")
        case True
        have "h = 0" "a < 16" using True c lt by linarith+
        then have e: "(a * 64 + b) * 64 + d = c" using c by (simp add: add_mult_distrib)
        have sc: "c < 0xD800 \<or> 0xDFFF < c" "c < 0x110000" using assms unfolding scalar_def by linarith+
        have "a = 0 \<Longrightarrow> 32 \<le> b" using big c lt \<open>h = 0\<close> by linarith
        moreover have "a = 13 \<Longrightarrow> b < 32" using sc(1) c lt \<open>h = 0\<close> by (elim disjE) linarith+
        moreover note \<open>a < 16\<close>
        ultimately have a: "a < 16" "a = 0 \<Longrightarrow> 32 \<le> b" "a = 13 \<Longrightarrow> b < 32" by blast+
        have q: "c div 4096 = a" using True by (simp add: a_def)
        have "(224 + a) mod 16 = a" "(128 + b) mod 64 = b" "(128 + d) mod 64 = d" using a lt lead_bits by simp_all
        then show ?thesis
          using False big True lt a e by (auto simp: utf8_units_def utf8_lead_def q simp flip: d_def b_def)
      next
        case astral: False
        have e: "((h * 64 + a) * 64 + b) * 64 + d = c" using c by (simp add: add_mult_distrib)
        have m: "c < 0x110000" using assms unfolding scalar_def by linarith
        have "h = 0 \<Longrightarrow> 16 \<le> a" using astral c lt by linarith
        moreover have "h = 4 \<Longrightarrow> a < 16" using m c lt by linarith
        moreover have "h < 5" using m c by linarith
        ultimately have h: "h < 5" "h = 0 \<Longrightarrow> 16 \<le> a" "h = 4 \<Longrightarrow> a < 16" by blast+
        have "(240 + h) mod 8 = h" "(128 + a) mod 64 = a" "(128 + b) mod 64 = b" "(128 + d) mod 64 = d" using h lt lead_bits by simp_all
        then show ?thesis
          using False big astral lt h e by (auto simp: utf8_units_def utf8_lead_def simp flip: d_def b_def a_def h_def)
      qed
    qed
  qed (simp add: utf8_units_def utf8_lead_def)
qed

lemma utf8_go_text: "list_all scalar s \<Longrightarrow> utf8_go 0 0x80 0xBF 0 (concat (map utf8_units s)) = s"
  by (induction s) (simp_all add: utf8_go_units)

lemma no_mark:
  assumes "c \<noteq> 0xFEFF" shows "take 3 (utf8_units c @ ns) \<noteq> [0xEF, 0xBB, 0xBF]"
proof
  assume m: "take 3 (utf8_units c @ ns) = [0xEF, 0xBB, 0xBF]"
  then have h: "hd (utf8_units c) = 0xEF" by (auto simp: utf8_units_def split: if_splits)
  show False
  proof (cases "c < 0x800")
    case True
    then have "c div 64 < 32" by simp
    with True h show False by (simp add: utf8_units_def split: if_splits)
  next
    case False
    then have "c < 0x10000" "c div 4096 = 15" using h by (simp_all add: utf8_units_def split: if_splits)
    moreover have "c div 64 mod 64 = 0x3B" "c mod 64 = 0x3F"
      using m False calculation unfolding utf8_units_def by auto
    moreover have "64 * (c div 64) + c mod 64 = c" "64 * (c div 64 div 64) + c div 64 mod 64 = c div 64" by (rule mult_div_mod_eq)+
    moreover have "c div 64 div 64 = c div 4096" by (simp flip: div_mult2_eq)
    ultimately have "c = 0xFEFF" by linarith
    with assms show False by simp
  qed
qed

lemma text_decode_bytes:
  assumes "text_ok s" shows "text_decode (utf8_bytes s) = s"
proof -
  let ?ns = "concat (map utf8_units s)"
  have "n < 256" if "n \<in> set ?ns" for n
    using that assms utf8_units_byte by (fastforce simp: text_ok_def scalar_def list_all_iff)
  then have "map unat (utf8_bytes s) = ?ns"
    unfolding utf8_bytes_def map_map by (intro map_idI) (simp add: unat_of_nat)
  moreover have "take 3 ?ns \<noteq> [0xEF, 0xBB, 0xBF]"
    using assms no_mark by (cases s) (auto simp: text_ok_def)
  moreover have "list_all scalar s" using assms by (simp add: text_ok_def)
  ultimately show ?thesis by (simp add: text_decode_def utf8_go_text)
qed

section \<open>Attribute values\<close>

text \<open>A protobuf value, its wire form and the OTLP/JSON value the collector expects for it.\<close>

datatype wire_value =
    W_string js_text
  | W_bool bool
  | W_int int
  | W_double "64 word"
  | W_array "wire_value list"
  | W_kvlist "(js_text \<times> wire_value) list"
  | W_bytes "byte list"

definition item :: "nat \<Rightarrow> byte list \<Rightarrow> byte list" where
  "item f bs = tag_bytes f wire_len @ len_bytes bs"

definition enc_pair :: "js_text \<times> byte list \<Rightarrow> byte list" where
  "enc_pair p = item 1 (utf8_bytes (fst p)) @ item 2 (snd p)"

primrec enc_value :: "wire_value \<Rightarrow> byte list" where
  "enc_value (W_string s) = item 1 (utf8_bytes s)"
| "enc_value (W_bool b) = tag_bytes 2 wire_varint @ varint (if b then 1 else 0)"
| "enc_value (W_int i) = tag_bytes 3 wire_varint @ varint (nat (i mod 2 ^ 64))"
| "enc_value (W_double d) = tag_bytes 4 wire_i64 @ le_bytes 8 (unat d)"
| "enc_value (W_array vs) = item 5 (concat (map (item 1) (map enc_value vs)))"
| "enc_value (W_kvlist kvs) = item 6 (concat (map (item 1 \<circ> enc_pair) (map (map_prod id enc_value) kvs)))"
| "enc_value (W_bytes bs) = item 7 bs"

primrec json_value :: "wire_value \<Rightarrow> any_value" where
  "json_value (W_string s) = String_value s"
| "json_value (W_bool b) = Bool_value b"
| "json_value (W_int i) = Int_value (int_str i)"
| "json_value (W_double d) = Double_value d"
| "json_value (W_array vs) = Array_value (map json_value vs)"
| "json_value (W_kvlist kvs) = Kvlist_value (map (map_prod id json_value) kvs)"
| "json_value (W_bytes bs) = Bytes_value (concat (map hex_byte bs))"

text \<open>The values the decoder gets right: no negative integer occurs.\<close>

primrec value_ok :: "wire_value \<Rightarrow> bool" where
  "value_ok (W_string s) = text_ok s"
| "value_ok (W_bool b) = True"
| "value_ok (W_int i) = (0 \<le> i \<and> i < 2 ^ 63)"
| "value_ok (W_double d) = True"
| "value_ok (W_array vs) = list_all id (map value_ok vs)"
| "value_ok (W_kvlist kvs) = list_all (\<lambda>p. text_ok (fst p) \<and> snd p) (map (map_prod id value_ok) kvs)"
| "value_ok (W_bytes bs) = True"

definition json_pair :: "js_text \<times> wire_value \<Rightarrow> key_value" where
  "json_pair p = (fst p, json_value (snd p))"

definition pair_ok :: "js_text \<times> wire_value \<Rightarrow> bool" where
  "pair_ok p = (text_ok (fst p) \<and> value_ok (snd p))"

definition wire_pair :: "js_text \<times> wire_value \<Rightarrow> byte list" where
  "wire_pair p = enc_pair (fst p, enc_value (snd p))"

text \<open>A length-delimited field, read by any of the three ways.\<close>

lemma item_reads:
  assumes "f < 2 ^ 29" and "reads r (item f bs @ rest)"
  shows "\<exists>r1 sub r2. hasMore r \<and> readTag r = Inr ((f, wire_len), r1) \<and> readMessage r1 = Inr (sub, r2) \<and> reads sub bs \<and>
           readLengthDelimited r1 = Inr (bs, r2) \<and> reads r2 rest"
proof -
  let ?t = "tag_bytes f wire_len"
  let ?r1 = "advance (length ?t) r"
  let ?r2 = "advance (length (len_bytes bs)) ?r1"
  have r: "reads r (?t @ len_bytes bs @ rest)" using assms(2) by (simp add: item_def)
  have r1: "reads ?r1 (len_bytes bs @ rest)" using reads_advance [OF r] .
  obtain sub where "readMessage ?r1 = Inr (sub, ?r2)" "reads sub bs"
    using readMessage_reads [OF r1] by blast
  moreover have "readTag r = Inr ((f, wire_len), ?r1)" using readTag_reads [OF assms(1) _ r] by (simp add: wire_len_def)
  moreover have "hasMore r" using reads_more [OF r] by simp
  moreover note readLengthDelimited_reads [OF r1] reads_advance [OF r1]
  ultimately show ?thesis by blast
qed

lemma small_field: "(1::nat) < 2 ^ 29" "(2::nat) < 2 ^ 29" "(4::nat) < 2 ^ 29" "(5::nat) < 2 ^ 29" "(6::nat) < 2 ^ 29" "(7::nat) < 2 ^ 29"
  "(9::nat) < 2 ^ 29"
  by simp_all

lemma string_item: "readLengthDelimited r = Inr (utf8_bytes s, r') \<Longrightarrow> text_ok s \<Longrightarrow> readString r = Inr (s, r')"
  by (simp add: readString_def text_decode_bytes)

lemma any_values_reads:
  assumes "\<And>v sub. v \<in> set vs \<Longrightarrow> reads sub (enc_value v) \<Longrightarrow> decodeAnyValue sub = Inr (json_value v)"
    and "reads r (concat (map (item 1) (map enc_value vs)))"
  shows "any_values acc r = Inr (acc @ map json_value vs)"
  using assms
proof (induction vs arbitrary: acc r)
  case Nil
  then show ?case by (simp add: any_values.simps [of acc r] reads_more)
next
  case (Cons v vs)
  have "reads r (item 1 (enc_value v) @ concat (map (item 1) (map enc_value vs)))" using Cons.prems(2) by simp
  from item_reads [OF small_field(1) this] obtain r1 sub r2 where i: "hasMore r" "readTag r = Inr ((1, wire_len), r1)"
      "readMessage r1 = Inr (sub, r2)" "reads sub (enc_value v)" "reads r2 (concat (map (item 1) (map enc_value vs)))" by blast
  have "decodeAnyValue sub = Inr (json_value v)" using Cons.prems(1) i(4) by simp
  moreover have "any_values (acc @ [json_value v]) r2 =
      Inr ((acc @ [json_value v]) @ map json_value vs)"
    by (rule Cons.IH [OF _ i(5)]) (use Cons.prems(1) in simp)
  ultimately show ?case using i(1-3) by (simp add: any_values.simps [of acc r])
qed

lemma pair_reads:
  assumes "text_ok k" and "\<And>sub. reads sub (enc_value v) \<Longrightarrow> decodeAnyValue sub = Inr (json_value v)"
    and "reads r (wire_pair (k, v))"
  shows "decodeKeyValue r = Inr (json_pair (k, v))"
proof -
  have "reads r (item 1 (utf8_bytes k) @ item 2 (enc_value v))" using assms(3) by (simp add: wire_pair_def enc_pair_def)
  from item_reads [OF small_field(1) this] obtain r1 r2 where i: "hasMore r" "readTag r = Inr ((1, wire_len), r1)"
      "readLengthDelimited r1 = Inr (utf8_bytes k, r2)" "reads r2 (item 2 (enc_value v))" by blast
  have "reads r2 (item 2 (enc_value v) @ [])" using i(4) by simp
  from item_reads [OF small_field(2) this] obtain r3 sub r4 where j: "hasMore r2" "readTag r2 = Inr ((2, wire_len), r3)"
      "readMessage r3 = Inr (sub, r4)" "reads sub (enc_value v)" "reads r4 []" by blast
  have "key_value_loop k (json_value v) r4 = Inr (k, json_value v)"
    using j(5) by (simp add: key_value_loop.simps [of k _ r4] reads_more)
  then have "key_value_loop k Empty_value r2 = Inr (k, json_value v)"
    using j(1-3) assms(2) [OF j(4)] by (simp add: key_value_loop.simps [of k _ r2])
  then show ?thesis
    using i(1,2) string_item [OF i(3) assms(1)]
    by (simp add: decodeKeyValue_def key_value_loop.simps [of "[]" _ r] json_pair_def)
qed

lemma key_values_reads:
  assumes "\<And>p sub. p \<in> set kvs \<Longrightarrow> reads sub (enc_value (snd p)) \<Longrightarrow> decodeAnyValue sub = Inr (json_value (snd p))"
    and "list_all (\<lambda>p. text_ok (fst p)) kvs" and "reads r (concat (map (item 1) (map wire_pair kvs)))"
  shows "key_values acc r = Inr (acc @ map json_pair kvs)"
  using assms
proof (induction kvs arbitrary: acc r)
  case Nil
  then show ?case by (simp add: key_values.simps [of acc r] reads_more)
next
  case (Cons p kvs)
  have "reads r (item 1 (wire_pair p) @ concat (map (item 1) (map wire_pair kvs)))" using Cons.prems(3) by simp
  from item_reads [OF small_field(1) this] obtain r1 sub r2 where i: "hasMore r" "readTag r = Inr ((1, wire_len), r1)"
      "readMessage r1 = Inr (sub, r2)" "reads sub (wire_pair p)" "reads r2 (concat (map (item 1) (map wire_pair kvs)))" by blast
  have "key_value_loop [] Empty_value sub = Inr (json_pair p)"
    using pair_reads [of "fst p" "snd p" sub] Cons.prems(1) [of p] Cons.prems(2) i(4) by (simp add: decodeKeyValue_def)
  moreover have "key_values (acc @ [json_pair p]) r2 =
      Inr ((acc @ [json_pair p]) @ map json_pair kvs)"
    by (rule Cons.IH [OF _ _ i(5)]) (use Cons.prems(1,2) in simp_all)
  ultimately show ?case using i(1-3) by (simp add: key_values.simps [of acc r])
qed

lemma tag_then:
  assumes "f < 2 ^ 29" and "w < 8" and "reads r (tag_bytes f w @ rest)"
  shows "\<exists>r1. hasMore r \<and> readTag r = Inr ((f, w), r1) \<and> reads r1 rest"
  using readTag_reads [OF assms] reads_advance [OF assms(3)] reads_more [OF assms(3)] by simp

lemma value_reads: "value_ok v \<Longrightarrow> reads r (enc_value v) \<Longrightarrow> decodeAnyValue r = Inr (json_value v)"
proof (induction v arbitrary: r)
  case (W_string s)
  then show ?case
    using item_reads [OF small_field(1), of r "utf8_bytes s" "[]"] string_item by (fastforce simp: decodeAnyValue.simps [of r])
next
  case (W_bool b)
  then obtain r1 where r1: "hasMore r" "readTag r = Inr ((2, wire_varint), r1)" "reads r1 (varint (if b then 1 else 0))"
    using tag_then [OF small_field(2), of wire_varint r] by (auto simp: wire_varint_def)
  have "readVarintNumber r1 = Inr (if b then 1 else 0, advance (length (varint (if b then 1 else 0))) r1)"
    using readVarintNumber_reads [of "if b then 1 else 0" r1 "[]"] r1(3) by (simp add: reads_def)
  then show ?case using r1(1,2) by (simp add: decodeAnyValue.simps [of r])
next
  case (W_int i)
  then have i: "nat (i mod 2 ^ 64) = nat i" "nat i < 2 ^ 64" by (simp_all add: nat_less_iff)
  obtain r1 where r1: "hasMore r" "readTag r = Inr ((3, wire_varint), r1)" "reads r1 (varint (nat i))"
    using tag_then [of 3 wire_varint r "varint (nat i)"] W_int.prems i(1) by (auto simp: wire_varint_def)
  have "readVarint r1 = Inr (nat i, advance (length (varint (nat i))) r1)"
    using readVarint_reads [OF i(2), of r1 "[]"] r1(3) by (simp add: reads_def)
  then show ?case using r1(1,2) W_int.prems(1) by (simp add: decodeAnyValue.simps [of r] int_str_def)
next
  case (W_double d)
  then obtain r1 where r1: "hasMore r" "readTag r = Inr ((4, wire_i64), r1)" "reads r1 (le_bytes 8 (unat d) @ [])"
    using tag_then [OF small_field(3), of wire_i64 r] by (auto simp: wire_i64_def)
  then show ?case using readDouble_reads [OF r1(3)] by (simp add: decodeAnyValue.simps [of r])
next
  case (W_array vs)
  let ?body = "concat (map (item 1) (map enc_value vs))"
  have "reads r (item 5 ?body @ [])" using W_array.prems(2) by simp
  from item_reads [OF small_field(4) this] obtain r1 sub r2 where i: "hasMore r" "readTag r = Inr ((5, wire_len), r1)"
      "readMessage r1 = Inr (sub, r2)" "reads sub ?body" by blast
  have "any_values [] sub = Inr ([] @ map json_value vs)"
    by (rule any_values_reads [OF _ i(4)]) (use W_array in \<open>simp add: list_all_iff\<close>)
  then show ?case using i(1-3) by (simp add: decodeAnyValue.simps [of r])
next
  case (W_kvlist kvs)
  let ?body = "concat (map (item 1) (map wire_pair kvs))"
  have pairs: "enc_pair \<circ> map_prod id enc_value = wire_pair" "map_prod id json_value = json_pair"
    by (auto simp: wire_pair_def json_pair_def fun_eq_iff)
  have "reads r (item 6 ?body @ [])" using W_kvlist.prems(2) pairs(1) by (simp add: comp_assoc)
  from item_reads [OF small_field(5) this] obtain r1 sub r2 where i: "hasMore r" "readTag r = Inr ((6, wire_len), r1)"
      "readMessage r1 = Inr (sub, r2)" "reads sub ?body" by blast
  have "key_values [] sub = Inr ([] @ map json_pair kvs)"
  proof (rule key_values_reads [OF _ _ i(4)])
    fix p s assume p: "p \<in> set kvs" and s: "reads s (enc_value (snd p))"
    have "snd p \<in> Basic_BNFs.snds p" by (cases p) simp
    moreover have "value_ok (snd p)" using W_kvlist.prems(1) p by (auto simp: list_all_iff)
    ultimately show "decodeAnyValue s = Inr (json_value (snd p))" using W_kvlist.IH [OF p] s by blast
  next
    show "list_all (\<lambda>p. text_ok (fst p)) kvs" using W_kvlist.prems(1) by (auto simp: list_all_iff)
  qed
  then show ?case using i(1-3) pairs(2) by (simp add: decodeAnyValue.simps [of r])
next
  case (W_bytes bs)
  then show ?case
    using item_reads [OF small_field(6), of r bs "[]"] by (fastforce simp: decodeAnyValue.simps [of r] readBytesAsHex_def)
qed

section \<open>Messages\<close>

text \<open>
  A piece of a message, read by one or more rounds of its loop, changes what was decoded by \<open>g\<close>.
\<close>

definition piece :: "'a pb_step \<Rightarrow> byte list \<Rightarrow> ('a \<Rightarrow> 'a) \<Rightarrow> bool" where
  "piece step bs g =
     (\<forall>r rest acc. reads r (bs @ rest) \<longrightarrow>
        (\<exists>r'. reads r' rest \<and> pb_fields step acc r = pb_fields step (g acc) r'))"

lemma piece_Nil: "piece step [] id"
  by (auto simp: piece_def)

lemma piece_append: "piece step bs g \<Longrightarrow> piece step cs h \<Longrightarrow> piece step (bs @ cs) (h \<circ> g)"
  unfolding piece_def by (metis append_assoc comp_apply)

lemma piece_concat: "(\<And>i. i \<in> set is \<Longrightarrow> piece step (enc i) (put i)) \<Longrightarrow> piece step (concat (map enc is)) (fold put is)"
  by (induction "is") (auto intro: piece_append piece_Nil)

lemma piece_all: "piece step bs g \<Longrightarrow> reads r bs \<Longrightarrow> pb_fields step acc r = Some (Inr (g acc))"
proof -
  assume p: "piece step bs g" and r: "reads r bs"
  have "reads r (bs @ [])" using r by simp
  then obtain r' where r': "reads r' []" "pb_fields step acc r = pb_fields step (g acc) r'" using p unfolding piece_def by blast
  then show ?thesis by (simp add: pb_fields.simps [of step _ r'] reads_more)
qed

lemma one_round:
  assumes "hasMore r" and "readTag r = Inr (t, r1)" and "step t r1 acc = Some (Inr (acc', r2))"
  shows "pb_fields step acc r = pb_fields step acc' r2"
  using assms by (simp add: pb_fields.simps [of step acc r])

text \<open>Pieces of one field each, by the kind of field.\<close>

lemma piece_sub:
  assumes "f < 2 ^ 29" and "\<And>r acc. step (f, wire_len) r acc = sub_field dec put r acc"
    and "\<And>sub. reads sub bs \<Longrightarrow> dec sub = Some (Inr v)"
  shows "piece step (item f bs) (put v)"
  unfolding piece_def
proof (intro allI impI)
  fix r rest acc assume "reads r (item f bs @ rest)"
  from item_reads [OF assms(1) this] obtain r1 sub r2 where i: "hasMore r" "readTag r = Inr ((f, wire_len), r1)"
      "readMessage r1 = Inr (sub, r2)" "reads sub bs" "reads r2 rest" by blast
  have "step (f, wire_len) r1 acc = Some (Inr (put v acc, r2))"
    unfolding assms(2) using i(3) assms(3) [OF i(4)] by (simp add: sub_field_def)
  from one_round [where step = step and acc = acc and acc' = "put v acc", OF i(1,2) this] i(5) show "\<exists>r'. reads r' rest \<and> pb_fields step acc r = pb_fields step (put v acc) r'" by blast
qed

lemma piece_len:
  assumes "f < 2 ^ 29" and "\<And>r acc. step (f, wire_len) r acc = value_field rd put r acc"
    and "\<And>r r'. readLengthDelimited r = Inr (bs, r') \<Longrightarrow> rd r = Inr (v, r')"
  shows "piece step (item f bs) (put v)"
  unfolding piece_def
proof (intro allI impI)
  fix r rest acc assume "reads r (item f bs @ rest)"
  from item_reads [OF assms(1) this] obtain r1 r2 where i: "hasMore r" "readTag r = Inr ((f, wire_len), r1)"
      "readLengthDelimited r1 = Inr (bs, r2)" "reads r2 rest" by blast
  have "step (f, wire_len) r1 acc = Some (Inr (put v acc, r2))"
    unfolding assms(2) using assms(3) [OF i(3)] by (simp add: value_field_def)
  from one_round [where step = step and acc = acc and acc' = "put v acc", OF i(1,2) this] i(4) show "\<exists>r'. reads r' rest \<and> pb_fields step acc r = pb_fields step (put v acc) r'" by blast
qed

lemma piece_fixed:
  assumes "f < 2 ^ 29" and "\<And>r acc. step (f, wire_i64) r acc = value_field rd put r acc"
    and "\<And>r rest. reads r (le_bytes 8 n @ rest) \<Longrightarrow> rd r = Inr (v, advance 8 r)"
  shows "piece step (tag_bytes f wire_i64 @ le_bytes 8 n) (put v)"
  unfolding piece_def
proof (intro allI impI)
  fix r rest acc assume "reads r ((tag_bytes f wire_i64 @ le_bytes 8 n) @ rest)"
  then obtain r1 where r1: "hasMore r" "readTag r = Inr ((f, wire_i64), r1)" "reads r1 (le_bytes 8 n @ rest)"
    using tag_then [OF assms(1), of wire_i64 r] by (auto simp: wire_i64_def)
  have "step (f, wire_i64) r1 acc = Some (Inr (put v acc, advance 8 r1))"
    unfolding assms(2) using assms(3) [OF r1(3)] by (simp add: value_field_def)
  moreover have "reads (advance 8 r1) rest" using reads_advance [OF r1(3)] by simp
  ultimately show "\<exists>r'. reads r' rest \<and> pb_fields step acc r = pb_fields step (put v acc) r'"
    using one_round [where step = step and acc = acc and acc' = "put v acc", OF r1(1,2)] by blast
qed

section \<open>A trace request\<close>

record wire_span =
  ws_traceId :: "byte list"
  ws_spanId :: "byte list"
  ws_parent :: "byte list"
  ws_name :: js_text
  ws_start :: nat
  ws_end :: nat
  ws_attributes :: "(js_text \<times> wire_value) list"

record wire_resource_spans =
  wr_attributes :: "(js_text \<times> wire_value) list"
  wr_scopes :: "wire_span list list"

definition fixed_field :: "nat \<Rightarrow> nat \<Rightarrow> byte list" where
  "fixed_field f n = tag_bytes f wire_i64 @ le_bytes 8 n"

definition enc_span :: "wire_span \<Rightarrow> byte list" where
  "enc_span s =
     item 1 (ws_traceId s) @ item 2 (ws_spanId s) @ item 4 (ws_parent s) @ item 5 (utf8_bytes (ws_name s)) @
     fixed_field 7 (ws_start s) @ fixed_field 8 (ws_end s) @ concat (map (\<lambda>p. item 9 (wire_pair p)) (ws_attributes s))"

definition enc_scope :: "wire_span list \<Rightarrow> byte list" where
  "enc_scope ss = concat (map (\<lambda>s. item 2 (enc_span s)) ss)"

definition enc_resource_spans :: "wire_resource_spans \<Rightarrow> byte list" where
  "enc_resource_spans x =
     item 1 (concat (map (\<lambda>p. item 1 (wire_pair p)) (wr_attributes x))) @ concat (map (\<lambda>ss. item 2 (enc_scope ss)) (wr_scopes x))"

definition enc_trace :: "wire_resource_spans list \<Rightarrow> byte list" where
  "enc_trace xs = concat (map (\<lambda>x. item 1 (enc_resource_spans x)) xs)"

definition hex_bytes :: "byte list \<Rightarrow> string" where
  "hex_bytes bs = concat (map hex_byte bs)"

definition json_span :: "wire_span \<Rightarrow> span" where
  "json_span s =
     \<lparr>sp_traceId = Some (hex_bytes (ws_traceId s)), sp_spanId = Some (hex_bytes (ws_spanId s)),
      sp_parentSpanId = (if ws_parent s = [] then None else Some (hex_bytes (ws_parent s))),
      sp_name = Some (ws_name s), sp_startTimeUnixNano = Some (nat_digits (ws_start s)),
      sp_endTimeUnixNano = Some (nat_digits (ws_end s)),
      sp_attributes = (if ws_attributes s = [] then None else Some (map json_pair (ws_attributes s)))\<rparr>"

definition json_resource_spans :: "wire_resource_spans \<Rightarrow> resource_spans" where
  "json_resource_spans x =
     \<lparr>rp_resource = Some \<lparr>rs_attributes = map json_pair (wr_attributes x)\<rparr>,
      rp_scopeSpans = map (\<lambda>ss. \<lparr>ss_spans = map json_span ss\<rparr>) (wr_scopes x)\<rparr>"

definition span_ok :: "wire_span \<Rightarrow> bool" where
  "span_ok s = (text_ok (ws_name s) \<and> ws_start s < 2 ^ 64 \<and> ws_end s < 2 ^ 64 \<and> list_all pair_ok (ws_attributes s))"

definition resource_spans_ok :: "wire_resource_spans \<Rightarrow> bool" where
  "resource_spans_ok x = (list_all pair_ok (wr_attributes x) \<and> list_all (list_all span_ok) (wr_scopes x))"

lemma attributes_reads: "pair_ok p \<Longrightarrow> reads r (wire_pair p) \<Longrightarrow> plain decodeAttributes r = Some (Inr [json_pair p])"
  using pair_reads [of "fst p" "snd p" r] value_reads by (simp add: plain_def decodeAttributes_def pair_ok_def)

lemma hex_read: "readLengthDelimited r = Inr (bs, r') \<Longrightarrow> readBytesAsHex r = Inr (hex_bytes bs, r')"
  by (simp add: readBytesAsHex_def hex_bytes_def)

lemma fold_append: "fold (\<lambda>x acc. acc @ [f x]) xs acc = acc @ map f xs"
  by (induction xs arbitrary: acc) simp_all

lemma resource_reads:
  assumes "list_all pair_ok ps" and "reads r (concat (map (\<lambda>p. item 1 (wire_pair p)) ps))"
  shows "decodeResource r = Some (Inr \<lparr>rs_attributes = map json_pair ps\<rparr>)"
proof -
  have "piece resource_step (item 1 (wire_pair p)) (\<lambda>acc. acc @ [json_pair p])" if "pair_ok p" for p
    by (rule piece_sub [OF small_field(1), where put = "\<lambda>kvs acc. acc @ kvs", OF _ attributes_reads [OF that]])
      (simp_all add: resource_step_def)
  then have "piece resource_step (concat (map (\<lambda>p. item 1 (wire_pair p)) ps)) (fold (\<lambda>p acc. acc @ [json_pair p]) ps)"
    using assms(1) by (intro piece_concat) (simp add: list_all_iff)
  from piece_all [OF this assms(2)] show ?thesis by (simp add: decodeResource_def fold_append)
qed

lemma span_attributes: "fold (\<lambda>p. apsnd (\<lambda>as. as @ [json_pair p])) ps (s, as) = (s, as @ map json_pair ps)"
  by (induction ps arbitrary: as) simp_all

lemma span_reads:
  assumes "span_ok s" and "reads r (enc_span s)"
  shows "decodeSpan r = Some (Inr (json_span s))"
proof -
  note steps = span_step_def Let_def wire_len_def wire_i64_def
  let ?attrs = "fold (\<lambda>p. apsnd (\<lambda>as. as @ [json_pair p])) (ws_attributes s) :: span \<times> key_value list \<Rightarrow> span \<times> key_value list"
  have trace: "piece span_step (item 1 (ws_traceId s)) (apfst (sp_traceId_update (\<lambda>_. Some (hex_bytes (ws_traceId s)))))"
    by (rule piece_len [OF small_field(1) _ hex_read]) (simp_all add: steps)
  have id: "piece span_step (item 2 (ws_spanId s)) (apfst (sp_spanId_update (\<lambda>_. Some (hex_bytes (ws_spanId s)))))"
    by (rule piece_len [OF small_field(2) _ hex_read]) (simp_all add: steps)
  have parent: "piece span_step (item 4 (ws_parent s))
      (if hex_bytes (ws_parent s) \<noteq> [] then apfst (sp_parentSpanId_update (\<lambda>_. Some (hex_bytes (ws_parent s)))) else id)"
    by (rule piece_len [OF small_field(3) _ hex_read]) (simp_all add: steps)
  have name: "piece span_step (item 5 (utf8_bytes (ws_name s))) (apfst (sp_name_update (\<lambda>_. Some (ws_name s))))"
    by (rule piece_len [OF small_field(4), where put = "\<lambda>v. apfst (sp_name_update (\<lambda>_. Some v))", OF _ string_item])
      (use assms(1) in \<open>simp_all add: steps span_ok_def\<close>)
  have start: "piece span_step (fixed_field 7 (ws_start s)) (apfst (sp_startTimeUnixNano_update (\<lambda>_. Some (nat_digits (ws_start s)))))"
    unfolding fixed_field_def
    by (rule piece_fixed [where put = "\<lambda>v. apfst (sp_startTimeUnixNano_update (\<lambda>_. Some (nat_digits v)))", OF _ _ readFixed64Uint_reads])
      (use assms(1) in \<open>simp_all add: steps span_ok_def\<close>)
  have finish: "piece span_step (fixed_field 8 (ws_end s)) (apfst (sp_endTimeUnixNano_update (\<lambda>_. Some (nat_digits (ws_end s)))))"
    unfolding fixed_field_def
    by (rule piece_fixed [where put = "\<lambda>v. apfst (sp_endTimeUnixNano_update (\<lambda>_. Some (nat_digits v)))", OF _ _ readFixed64Uint_reads])
      (use assms(1) in \<open>simp_all add: steps span_ok_def\<close>)
  have attr: "piece span_step (item 9 (wire_pair p)) (apsnd (\<lambda>as. as @ [json_pair p]))" if "pair_ok p" for p
    by (rule piece_sub [OF small_field(7), where put = "\<lambda>kvs. apsnd (\<lambda>as. as @ kvs)", OF _ attributes_reads [OF that]])
      (simp_all add: steps)
  then have attrs: "piece span_step (concat (map (\<lambda>p. item 9 (wire_pair p)) (ws_attributes s))) ?attrs"
    using assms(1) by (intro piece_concat) (simp add: span_ok_def list_all_iff)
  note whole = piece_append [OF trace piece_append [OF id piece_append [OF parent piece_append [OF name
    piece_append [OF start piece_append [OF finish attrs]]]]]]
  have "hex_bytes bs = [] \<longleftrightarrow> bs = []" for bs by (cases bs) (simp_all add: hex_bytes_def hex_byte_def)
  then show ?thesis
    using piece_all [OF whole assms(2) [unfolded enc_span_def], of "(empty_span, [])"]
    by (simp add: decodeSpan_def span_attributes finish_span_def json_span_def empty_span_def)
qed

lemma scope_reads:
  assumes "list_all span_ok ss" and "reads r (enc_scope ss)"
  shows "decodeScopeSpans r = Some (Inr \<lparr>ss_spans = map json_span ss\<rparr>)"
proof -
  have "piece scope_spans_step (item 2 (enc_span s)) (\<lambda>acc. acc @ [json_span s])" if "span_ok s" for s
    by (rule piece_sub [OF small_field(2), where put = "\<lambda>v acc. acc @ [v]", OF _ span_reads [OF that]]) (simp_all add: scope_spans_step_def)
  then have "piece scope_spans_step (enc_scope ss) (fold (\<lambda>s acc. acc @ [json_span s]) ss)"
    using assms(1) unfolding enc_scope_def by (intro piece_concat) (simp add: list_all_iff)
  from piece_all [OF this assms(2)] show ?thesis by (simp add: decodeScopeSpans_def fold_append)
qed

lemma scopes_fold: "fold (\<lambda>x. rp_scopeSpans_update (\<lambda>xs. xs @ [f x])) ys s = s\<lparr>rp_scopeSpans := rp_scopeSpans s @ map f ys\<rparr>"
  by (induction ys arbitrary: s) simp_all

lemma resource_spans_reads:
  assumes "resource_spans_ok x" and "reads r (enc_resource_spans x)"
  shows "decodeResourceSpans r = Some (Inr (json_resource_spans x))"
proof -
  have res: "piece resource_spans_step (item 1 (concat (map (\<lambda>p. item 1 (wire_pair p)) (wr_attributes x))))
      (rp_resource_update (\<lambda>_. Some \<lparr>rs_attributes = map json_pair (wr_attributes x)\<rparr>))"
    by (rule piece_sub [OF small_field(1), where put = "\<lambda>v. rp_resource_update (\<lambda>_. Some v)", OF _ resource_reads])
      (use assms(1) in \<open>simp_all add: resource_spans_step_def resource_spans_ok_def\<close>)
  have "piece resource_spans_step (item 2 (enc_scope ss)) (rp_scopeSpans_update (\<lambda>xs. xs @ [\<lparr>ss_spans = map json_span ss\<rparr>]))"
    if "list_all span_ok ss" for ss
    by (rule piece_sub [OF small_field(2), where put = "\<lambda>v. rp_scopeSpans_update (\<lambda>xs. xs @ [v])", OF _ scope_reads [OF that]])
      (simp_all add: resource_spans_step_def)
  then have scopes: "piece resource_spans_step (concat (map (\<lambda>ss. item 2 (enc_scope ss)) (wr_scopes x)))
      (fold (\<lambda>ss. rp_scopeSpans_update (\<lambda>xs. xs @ [\<lparr>ss_spans = map json_span ss\<rparr>])) (wr_scopes x))"
    using assms(1) by (intro piece_concat) (simp add: resource_spans_ok_def list_all_iff)
  show ?thesis
    using piece_all [OF piece_append [OF res scopes] assms(2) [unfolded enc_resource_spans_def]]
    by (simp add: decodeResourceSpans_def scopes_fold json_resource_spans_def)
qed

lemma trace_decoded:
  assumes "list_all resource_spans_ok xs" and "length (enc_trace xs) < 2 ^ 53"
  shows "decodeExportTraceServiceRequest (enc_trace xs) = Some (Inr \<lparr>tq_resourceSpans = map json_resource_spans xs\<rparr>)"
proof -
  have "piece trace_step (item 1 (enc_resource_spans x)) (\<lambda>acc. acc @ [json_resource_spans x])" if "resource_spans_ok x" for x
    by (rule piece_sub [OF small_field(1), where put = "\<lambda>v acc. acc @ [v]", OF _ resource_spans_reads [OF that]]) (simp_all add: trace_step_def)
  then have "piece trace_step (enc_trace xs) (fold (\<lambda>x acc. acc @ [json_resource_spans x]) xs)"
    using assms(1) unfolding enc_trace_def by (intro piece_concat) (simp add: list_all_iff)
  moreover have "reads (new_reader (enc_trace xs)) (enc_trace xs)"
    using assms(2) by (simp add: reads_def) (simp add: new_reader_def)
  ultimately show ?thesis
    using piece_all by (fastforce simp: decodeExportTraceServiceRequest_def fold_append)
qed

text \<open>
  Claim C23: decoding inverts encoding. The wire form of a trace request, with resource attributes,
  scopes and spans with identifiers, names, times and attributes of every kind nested to any depth,
  decodes to the OTLP/JSON object of that request, provided no attribute holds a negative integer, texts are
  Unicode scalar values without a leading byte order mark, numbers fit their width and the buffer is one a host can hold.
\<close>

theorem trace_round_trip:
  assumes "list_all resource_spans_ok xs" and "length (enc_trace xs) < 2 ^ 53"
  shows "decodeExportTraceServiceRequest (enc_trace xs) = Some (Inr \<lparr>tq_resourceSpans = map json_resource_spans xs\<rparr>)"
  using assms by (rule trace_decoded)

text \<open>
  A negative integer attribute is misread. Its wire form, the ten-byte varint of its
  two's complement, decodes to the decimal text of the value plus \<open>2 ^ 64\<close>.
\<close>

theorem negative_int_misread:
  assumes "i < 0" and "- (2 ^ 63) \<le> i" and "reads r (enc_value (W_int i))"
  shows "decodeAnyValue r = Inr (Int_value (nat_digits (nat (i + 2 ^ 64)))) \<and>
         decodeAnyValue r \<noteq> Inr (json_value (W_int i))"
proof -
  have "i mod 2 ^ 64 = i + 2 ^ 64" using assms(1,2) mod_pos_pos_trivial [of "i + 2 ^ 64" "2 ^ 64"] by simp
  then have n: "nat (i mod 2 ^ 64) = nat (i + 2 ^ 64)" "nat (i + 2 ^ 64) < 2 ^ 64" using assms(1) by (simp_all add: nat_less_iff)
  obtain r1 where r1: "hasMore r" "readTag r = Inr ((3, wire_varint), r1)" "reads r1 (varint (nat (i + 2 ^ 64)))"
    using tag_then [of 3 wire_varint r "varint (nat (i + 2 ^ 64))"] assms(3) n(1) by (auto simp: wire_varint_def)
  have "readVarint r1 = Inr (nat (i + 2 ^ 64), advance (length (varint (nat (i + 2 ^ 64)))) r1)"
    using readVarint_reads [OF n(2), of r1 "[]"] r1(3) by (simp add: reads_def)
  then have d: "decodeAnyValue r = Inr (Int_value (nat_digits (nat (i + 2 ^ 64))))"
    using r1(1,2) by (simp add: decodeAnyValue.simps [of r])
  have "CHR ''-'' \<notin> set (nat_digits k)" for k
    using nat_digits_digits [of k] by (auto simp: list_all_iff is_digit_def Let_def)
  moreover have "CHR ''-'' \<in> set (int_str i)" using assms(1) by (simp add: int_str_def)
  ultimately have "int_str i \<noteq> nat_digits (nat (i + 2 ^ 64))" by metis
  then show ?thesis using d by auto
qed

lemma lone_reader: "length bs < 2 ^ 53 \<Longrightarrow> reads (new_reader bs) bs"
  by (simp add: reads_def) (simp add: new_reader_def)

lemmas wire_sizes = varint.simps tag_bytes_def len_bytes_def item_def wire_varint_def wire_i64_def wire_len_def

theorem negative_int_misread_witness:
  "decodeAnyValue (new_reader (enc_value (W_int (- 1)))) = Inr (Int_value ''18446744073709551615'')"
proof -
  have "length (enc_value (W_int (- 1))) < 2 ^ 53" by (simp add: wire_sizes)
  then have "reads (new_reader (enc_value (W_int (- 1)))) (enc_value (W_int (- 1)))" by (rule lone_reader)
  moreover have "nat_digits (nat (- 1 + 2 ^ 64)) = ''18446744073709551615''"
    by (simp add: nat_digits.simps char_of_def bit_Suc_0_iff)
  ultimately show ?thesis
    using negative_int_misread [of "- 1" "new_reader (enc_value (W_int (- 1)))"] by simp
qed

text \<open>
  A request cut off inside a field the decoder does not know is accepted as complete. When
  fewer than the eight bytes of a trailing unknown fixed64 field are there, the decoder returns the
  request before it instead of one of the overrun errors every known field raises.
\<close>

theorem truncated_unknown_field_accepted:
  assumes "list_all resource_spans_ok xs" and "1 < f" and "f < 2 ^ 29"
    and "length (enc_trace xs @ tag_bytes f wire_i64 @ short) < 2 ^ 53" and "length short < 8"
  shows "decodeExportTraceServiceRequest (enc_trace xs @ tag_bytes f wire_i64 @ short) =
         Some (Inr \<lparr>tq_resourceSpans = map json_resource_spans xs\<rparr>)"
proof -
  have "piece trace_step (item 1 (enc_resource_spans x)) (\<lambda>acc. acc @ [json_resource_spans x])" if "resource_spans_ok x" for x
    by (rule piece_sub [OF small_field(1), where put = "\<lambda>v acc. acc @ [v]", OF _ resource_spans_reads [OF that]]) (simp_all add: trace_step_def)
  then have "piece trace_step (enc_trace xs) (fold (\<lambda>x acc. acc @ [json_resource_spans x]) xs)"
    using assms(1) unfolding enc_trace_def by (intro piece_concat) (simp add: list_all_iff)
  moreover have "reads (new_reader (enc_trace xs @ tag_bytes f wire_i64 @ short)) (enc_trace xs @ tag_bytes f wire_i64 @ short)"
    using assms(4) by (rule lone_reader)
  ultimately obtain r where r: "reads r (tag_bytes f wire_i64 @ short)"
      "pb_fields trace_step [] (new_reader (enc_trace xs @ tag_bytes f wire_i64 @ short)) =
       pb_fields trace_step (fold (\<lambda>x acc. acc @ [json_resource_spans x]) xs []) r"
    unfolding piece_def by blast
  obtain r1 where r1: "hasMore r" "readTag r = Inr ((f, wire_i64), r1)" "reads r1 short"
    using tag_then [OF assms(3) _ r(1)] by (auto simp: wire_i64_def)
  have "trace_step (f, wire_i64) r1 acc = Some (Inr (acc, advance 8 r1))" for acc
    using assms(2) by (simp add: trace_step_def other_field_def skip_field_def wire_i64_def wire_varint_def)
  then have "pb_fields trace_step acc r = pb_fields trace_step acc (advance 8 r1)" for acc
    using one_round [where step = trace_step and acc = acc and acc' = acc, OF r1(1,2)] by blast
  moreover have "\<not> hasMore (advance 8 r1)"
    using r1(3) assms(5) length_remaining [of r1] by (auto simp: reads_def hasMore_def left_over_def)
  ultimately show ?thesis
    using r(2) by (simp add: decodeExportTraceServiceRequest_def fold_append pb_fields.simps [of trace_step _ "advance 8 r1"])
qed

definition example_span :: wire_span where
  "example_span =
     \<lparr>ws_traceId = [0xAB], ws_spanId = [1], ws_parent = [], ws_name = [0x6E, 0x2713], ws_start = 300, ws_end = 2 ^ 63,
      ws_attributes = [([0x6B], W_array [W_int 7, W_kvlist [([0x61], W_bool True)], W_bytes [255]])]\<rparr>"

definition example_trace :: "wire_resource_spans list" where
  "example_trace = [\<lparr>wr_attributes = [([0x73], W_string [0x1F600])], wr_scopes = [[example_span]]\<rparr>]"

theorem trace_round_trip_witness:
  "decodeExportTraceServiceRequest (enc_trace example_trace) = Some (Inr \<lparr>tq_resourceSpans = map json_resource_spans example_trace\<rparr>)"
proof -
  have "list_all resource_spans_ok example_trace"
    by (simp add: example_trace_def example_span_def resource_spans_ok_def span_ok_def pair_ok_def text_ok_def scalar_def)
  moreover have "length (enc_trace example_trace) < 2 ^ 53"
    by (simp add: example_trace_def example_span_def enc_trace_def enc_resource_spans_def enc_scope_def enc_span_def fixed_field_def
        wire_pair_def enc_pair_def utf8_bytes_def utf8_units_def wire_sizes)
  ultimately show ?thesis by (rule trace_round_trip)
qed

theorem truncated_unknown_field_accepted_witness:
  "decodeExportTraceServiceRequest (enc_trace [] @ tag_bytes 2 wire_i64 @ [1, 2, 3]) = Some (Inr \<lparr>tq_resourceSpans = []\<rparr>)"
proof -
  have "length (enc_trace [] @ tag_bytes 2 wire_i64 @ [1, 2, 3]) < 2 ^ 53" by (simp add: enc_trace_def wire_sizes)
  then show ?thesis
    using truncated_unknown_field_accepted [of "[]" 2 "[1, 2, 3]"] by simp
qed

end
