(* ===== verification/Grpc.thy ===== *)
theory Grpc
  imports Protobuf_Wire
begin

text \<open>
  gRPC message framing (\<open>grpc-framing.ts\<close>): the five-byte prefix and the loop that takes a buffer
  apart. A declared length is the signed 32-bit value the code's bitwise or gives; the loop is a
  partial function, its value \<open>None\<close> being a loop that never ends, and its offset an integer, since a
  negative length moves it back.
\<close>

unbundle bit_operations_syntax

section \<open>Framing\<close>

datatype frame_error =
    Header_truncated int int
  | Compressed int "byte option"
  | Payload_truncated int int int

definition length_word :: "nat \<Rightarrow> 32 word" where
  "length_word n = word_of_nat n"

definition frameMessage :: "byte list \<Rightarrow> byte list" where
  "frameMessage payload =
     (let n = length_word (length payload) in
      [0, ucast (drop_bit 24 n AND 0xFF), ucast (drop_bit 16 n AND 0xFF), ucast (drop_bit 8 n AND 0xFF), ucast (n AND 0xFF)] @ payload)"

text \<open>\<open>buf[i]\<close>, undefined outside the buffer, and \<open>subarray\<close>, whose negative end counts from the end.\<close>

definition byte_at :: "byte list \<Rightarrow> int \<Rightarrow> byte option" where
  "byte_at buf i = (if 0 \<le> i \<and> i < int (length buf) then Some (buf ! nat i) else None)"

definition subarray :: "byte list \<Rightarrow> int \<Rightarrow> int \<Rightarrow> byte list" where
  "subarray buf s e =
     (let n = int (length buf);
          s' = (if s < 0 then max (n + s) 0 else min s n);
          e' = (if e < 0 then max (n + e) 0 else min e n)
      in take (nat (e' - s')) (drop (nat s') buf))"

definition declared_length :: "byte \<Rightarrow> byte \<Rightarrow> byte \<Rightarrow> byte \<Rightarrow> int" where
  "declared_length a b c d =
     sint (push_bit 24 (ucast a) OR push_bit 16 (ucast b) OR push_bit 8 (ucast c) OR ucast d :: 32 word)"

definition header_length :: "byte list \<Rightarrow> int \<Rightarrow> int" where
  "header_length buf i =
     (case (byte_at buf (i + 1), byte_at buf (i + 2), byte_at buf (i + 3), byte_at buf (i + 4)) of
        (Some a, Some b, Some c, Some d) \<Rightarrow> declared_length a b c d
      | _ \<Rightarrow> 0)"

partial_function (option) unframe_loop :: "byte list \<Rightarrow> int \<Rightarrow> byte list list \<Rightarrow> (frame_error + byte list list) option" where
  "unframe_loop buf i out =
     (if int (length buf) \<le> i then Some (Inr out)
      else if int (length buf) < i + 5 then Some (Inl (Header_truncated i (int (length buf) - i)))
      else if byte_at buf i \<noteq> Some 0 then Some (Inl (Compressed i (byte_at buf i)))
      else
        let len = header_length buf i; payloadEnd = i + 5 + len in
        if int (length buf) < payloadEnd then Some (Inl (Payload_truncated len (i + 1) (int (length buf) - (i + 5))))
        else unframe_loop buf payloadEnd (out @ [subarray buf (i + 5) payloadEnd]))"

definition unframeMessages :: "byte list \<Rightarrow> (frame_error + byte list list) option" where
  "unframeMessages buf = unframe_loop buf 0 []"

section \<open>The header\<close>

lemma header_word:
  fixes n :: "32 word"
  shows "push_bit 24 (ucast (ucast (drop_bit 24 n AND 0xFF) :: byte)) OR push_bit 16 (ucast (ucast (drop_bit 16 n AND 0xFF) :: byte)) OR
    push_bit 8 (ucast (ucast (drop_bit 8 n AND 0xFF) :: byte)) OR ucast (ucast (n AND 0xFF) :: byte) = n" (is "?w = n")
proof (rule bit_word_eqI)
  have ff: "(0xFF :: 32 word) = mask 8" by (simp add: mask_eq_exp_minus_1)
  fix k assume "k < LENGTH(32)"
  then consider "k < 8" | "8 \<le> k" "k < 16" | "16 \<le> k" "k < 24" | "24 \<le> k" "k < 32" by fastforce
  then show "bit ?w k = bit n k"
    unfolding ff by cases (auto simp: bit_simps)
qed

lemma framed_length:
  assumes "n < 2 ^ 31"
  shows "declared_length (ucast (drop_bit 24 (length_word n) AND 0xFF)) (ucast (drop_bit 16 (length_word n) AND 0xFF))
           (ucast (drop_bit 8 (length_word n) AND 0xFF)) (ucast (length_word n AND 0xFF)) = int n"
proof -
  have "sint (length_word n) = int n"
    using assms by (simp add: length_word_def signed_of_nat signed_take_bit_int_eq_self)
  then show ?thesis by (simp add: declared_length_def header_word)
qed

text \<open>And back: the four bytes of a header are those of the word they make.\<close>

lemma word_header:
  fixes a b c d :: byte
  defines "w \<equiv> push_bit 24 (ucast a) OR push_bit 16 (ucast b) OR push_bit 8 (ucast c) OR ucast d :: 32 word"
  shows "ucast (drop_bit 24 w AND 0xFF) = a" "ucast (drop_bit 16 w AND 0xFF) = b" "ucast (drop_bit 8 w AND 0xFF) = c" "ucast (w AND 0xFF) = d"
proof -
  have ff: "(0xFF :: 32 word) = mask 8" by (simp add: mask_eq_exp_minus_1)
  have high: "\<not> bit x k" if "8 \<le> k" for x :: byte and k
    using that bit_imp_le_length [of x k] by auto
  show "ucast (drop_bit 24 w AND 0xFF) = a" unfolding w_def ff by (rule bit_word_eqI) (auto simp: bit_simps high)
  show "ucast (drop_bit 16 w AND 0xFF) = b" unfolding w_def ff by (rule bit_word_eqI) (auto simp: bit_simps high)
  show "ucast (drop_bit 8 w AND 0xFF) = c" unfolding w_def ff by (rule bit_word_eqI) (auto simp: bit_simps high)
  show "ucast (w AND 0xFF) = d" unfolding w_def ff by (rule bit_word_eqI) (auto simp: bit_simps high)
qed

section \<open>Frames of a buffer\<close>

lemma byte_at_nth: "n < length buf \<Longrightarrow> byte_at buf (int n) = Some (buf ! n)"
  by (simp add: byte_at_def)

lemma header_at:
  assumes "buf = pre @ f # a # b # c # d # rest"
  shows "byte_at buf (int (length pre)) = Some f" and "header_length buf (int (length pre)) = declared_length a b c d"
proof -
  have "byte_at buf (int (length pre) + int k) = Some ((f # a # b # c # d # rest) ! k)" if "k < 5" for k
    using that byte_at_nth [of "length pre + k" buf] by (simp add: assms nth_append)
  from this [of 0] this [of 1] this [of 2] this [of 3] this [of 4]
  show "byte_at buf (int (length pre)) = Some f" and "header_length buf (int (length pre)) = declared_length a b c d"
    by (simp_all add: header_length_def)
qed

lemma subarray_inside:
  "s + n \<le> length buf \<Longrightarrow> subarray buf (int s) (int s + int n) = take n (drop s buf)"
  by (simp add: subarray_def Let_def min_def)

text \<open>One round on a frame that is all there.\<close>

lemma frame_round:
  assumes "buf = pre @ 0 # a # b # c # d # rest" and "declared_length a b c d = int n" and "n \<le> length rest"
  shows "unframe_loop buf (int (length pre)) out = unframe_loop buf (int (length pre) + 5 + int n) (out @ [take n rest])"
proof -
  have "subarray buf (int (length pre) + 5) (int (length pre) + 5 + int n) = take n rest"
    using subarray_inside [of "length pre + 5" n buf] assms(1,3) by simp
  then show ?thesis
    using header_at [OF assms(1)] assms by (subst unframe_loop.simps) (simp add: Let_def)
qed

lemma framed_round:
  assumes "length p < 2 ^ 31" and "buf = pre @ frameMessage p @ rest"
  shows "unframe_loop buf (int (length pre)) out = unframe_loop buf (int (length (pre @ frameMessage p))) (out @ [p])"
proof -
  obtain a b c d where f: "frameMessage p = 0 # a # b # c # d # p" and n: "declared_length a b c d = int (length p)"
    using framed_length [OF assms(1)] by (simp add: frameMessage_def Let_def)
  show ?thesis
    using frame_round [of buf pre a b c d "p @ rest" "length p" out] n assms(2) f by (simp add: algebra_simps)
qed

lemma framed_rounds:
  assumes "list_all (\<lambda>p. length p < 2 ^ 31) ps" and "buf = pre @ concat (map frameMessage ps) @ rest"
  shows "unframe_loop buf (int (length pre)) out = unframe_loop buf (int (length (pre @ concat (map frameMessage ps)))) (out @ ps)"
  using assms
proof (induction ps arbitrary: pre out)
  case (Cons p ps)
  have "unframe_loop buf (int (length pre)) out = unframe_loop buf (int (length (pre @ frameMessage p))) (out @ [p])"
    using framed_round [of p buf pre "concat (map frameMessage ps) @ rest" out] Cons.prems by simp
  also have "\<dots> = unframe_loop buf (int (length ((pre @ frameMessage p) @ concat (map frameMessage ps)))) ((out @ [p]) @ ps)"
    by (rule Cons.IH) (use Cons.prems in simp_all)
  finally show ?case by simp
qed simp

text \<open>
  Unframing inverts framing. The messages of a stream, each shorter than two gigabytes,
  come back in order from the concatenation of their frames.
\<close>

theorem frames_round_trip:
  assumes "list_all (\<lambda>p. length p < 2 ^ 31) ps"
  shows "unframeMessages (concat (map frameMessage ps)) = Some (Inr ps)"
  using framed_rounds [OF assms, of "concat (map frameMessage ps)" "[]" "[]" "[]"]
  by (simp add: unframeMessages_def unframe_loop.simps [of _ "int (length (concat (map frameMessage ps)))"])

theorem frames_round_trip_witness: "unframeMessages (concat (map frameMessage [[1, 2], [], [0]])) = Some (Inr [[1, 2], [], [0]])"
  by (rule frames_round_trip) simp

lemma stuck_round:
  assumes "unframe_loop buf i out = Some y"
  shows "\<not> (i + 5 \<le> int (length buf) \<and> byte_at buf i = Some 0 \<and> header_length buf i = - 5)"
  by (rule unframe_loop.raw_induct [where P = "\<lambda>buf i out y. \<not> (i + 5 \<le> int (length buf) \<and> byte_at buf i = Some 0 \<and> header_length buf i = - 5)",
        OF _ assms]) (auto simp: Let_def split: if_splits)

text \<open>
  A hostile length hangs the collector. After any well-framed messages, a frame header that
  declares \<open>0xFFFFFFFB\<close> bytes is read as a length of minus five: the offset stays where it is and the
  loop never ends, although the buffer is cut off inside the frame, which the code means to refuse.
\<close>

theorem negative_length_hangs:
  assumes "list_all (\<lambda>p. length p < 2 ^ 31) ps"
  shows "unframeMessages (concat (map frameMessage ps) @ [0, 0xFF, 0xFF, 0xFF, 0xFB] @ rest) = None"
proof -
  let ?pre = "concat (map frameMessage ps)" and ?buf = "concat (map frameMessage ps) @ [0, 0xFF, 0xFF, 0xFF, 0xFB] @ rest"
  have "declared_length 0xFF 0xFF 0xFF 0xFB = - 5" by code_simp
  then have "byte_at ?buf (int (length ?pre)) = Some 0" "header_length ?buf (int (length ?pre)) = - 5"
    using header_at [of ?buf ?pre 0 "0xFF" "0xFF" "0xFF" "0xFB" rest] by simp_all
  then have "unframe_loop ?buf (int (length ?pre)) ps = None"
    using stuck_round [of ?buf "int (length ?pre)" ps] by (cases "unframe_loop ?buf (int (length ?pre)) ps") auto
  then show ?thesis
    using framed_rounds [OF assms, of ?buf "[]" "[0, 0xFF, 0xFF, 0xFF, 0xFB] @ rest" "[]"] by (simp add: unframeMessages_def)
qed

theorem negative_length_hangs_witness: "unframeMessages (concat (map frameMessage [[7]]) @ [0, 0xFF, 0xFF, 0xFF, 0xFB] @ []) = None"
  by (rule negative_length_hangs) simp

section \<open>Buffers without such a length\<close>

definition lengths_ok :: "byte list \<Rightarrow> bool" where
  "lengths_ok buf = list_all (\<lambda>k. byte_at buf (int k) \<noteq> Some 0 \<or> 0 \<le> header_length buf (int k)) [0..<length buf]"

lemma split_at_header:
  assumes "k + 5 \<le> length buf"
  obtains f a b c d where "buf = take k buf @ f # a # b # c # d # drop (k + 5) buf"
proof -
  have "drop k buf = buf ! k # buf ! (k + 1) # buf ! (k + 2) # buf ! (k + 3) # buf ! (k + 4) # drop (k + 5) buf"
    using assms by (simp add: Cons_nth_drop_Suc eval_nat_numeral)
  then show thesis using that append_take_drop_id [of k buf] by metis
qed

lemma frame_of_header:
  assumes "declared_length a b c d = int n" and "n \<le> length rest"
  shows "0 # a # b # c # d # take n rest = frameMessage (take n rest)"
proof -
  let ?w = "push_bit 24 (ucast a) OR push_bit 16 (ucast b) OR push_bit 8 (ucast c) OR ucast d :: 32 word"
  have "sint ?w = int n" using assms(1) by (simp add: declared_length_def)
  then have "word_of_int (sint ?w) = (word_of_int (int n) :: 32 word)" by simp
  then have "length_word n = ?w" unfolding length_word_def of_int_sint by simp
  then show ?thesis using assms(2) word_header [of a b c d] by (simp add: frameMessage_def)
qed

lemma unframe_parts:
  assumes "lengths_ok buf"
  shows "\<exists>x. unframe_loop buf (int k) out = Some x \<and>
           (\<forall>ps. x = Inr ps \<longrightarrow> k \<le> length buf \<longrightarrow> (\<exists>qs. ps = out @ qs \<and> drop k buf = concat (map frameMessage qs)))"
proof (induction "length buf - k" arbitrary: k out rule: less_induct)
  case less
  show ?case
  proof (cases "k + 5 \<le> length buf \<and> byte_at buf (int k) = Some 0")
    case True
    then obtain f a b c d where s: "buf = take k buf @ f # a # b # c # d # drop (k + 5) buf" by (blast elim: split_at_header)
    have k: "length (take k buf) = k" and k5: "k + 5 \<le> length buf" using True by simp_all
    have f: "f = 0" and l: "header_length buf (int k) = declared_length a b c d"
      using header_at [OF s] True unfolding k by simp_all
    have "0 \<le> declared_length a b c d" using assms True l unfolding lengths_ok_def list_all_iff by force
    then obtain n where n: "declared_length a b c d = int n" by (metis nonneg_int_cases)
    let ?rest = "drop (k + 5) buf"
    show ?thesis
    proof (cases "n \<le> length ?rest")
      case True
      have step: "unframe_loop buf (int k) out = unframe_loop buf (int (k + 5 + n)) (out @ [take n ?rest])"
        using frame_round [of buf "take k buf" a b c d ?rest n out] s f n True unfolding k by (simp add: algebra_simps)
      have le: "k + 5 + n \<le> length buf" using True k5 by simp
      have less_k: "length buf - (k + 5 + n) < length buf - k" using k5 by linarith
      then obtain x where x: "unframe_loop buf (int (k + 5 + n)) (out @ [take n ?rest]) = Some x"
          "\<forall>ps. x = Inr ps \<longrightarrow> (\<exists>qs. ps = (out @ [take n ?rest]) @ qs \<and> drop (k + 5 + n) buf = concat (map frameMessage qs))"
        using less [of "k + 5 + n" "out @ [take n ?rest]", OF less_k] le by blast
      have front: "drop k buf = frameMessage (take n ?rest) @ drop (k + 5 + n) buf"
      proof -
        have "drop k buf = 0 # a # b # c # d # ?rest" using s f k by (metis append_eq_conv_conj)
        also have "\<dots> = (0 # a # b # c # d # take n ?rest) @ drop n ?rest" unfolding append_Cons append_take_drop_id ..
        also have "drop n ?rest = drop (k + 5 + n) buf" by (simp add: ac_simps)
        finally show ?thesis unfolding frame_of_header [OF n True] .
      qed
      have "\<exists>qs. ps = out @ qs \<and> drop k buf = concat (map frameMessage qs)" if p: "x = Inr ps" for ps
      proof -
        obtain qs where "ps = (out @ [take n ?rest]) @ qs" "drop (k + 5 + n) buf = concat (map frameMessage qs)"
          using x(2) p by blast
        then have "ps = out @ (take n ?rest # qs) \<and> drop k buf = concat (map frameMessage (take n ?rest # qs))"
          using front by simp
        then show ?thesis by blast
      qed
      then show ?thesis unfolding step x(1) by blast
    next
      case False
      then have "int (length buf) < int k + 5 + int n" using True by simp
      then show ?thesis using True l n by (subst unframe_loop.simps) (simp add: Let_def)
    qed
  next
    case False
    then show ?thesis by (subst unframe_loop.simps) (auto simp: Let_def)
  qed
qed

text \<open>
  On every buffer none of whose headers has the top bit of its length set, unframing
  returns, and it gives messages only when the buffer is their frames one after the other;
  otherwise it throws.
\<close>

theorem unframing_returns:
  assumes "lengths_ok buf"
  shows "\<exists>x. unframeMessages buf = Some x \<and> (\<forall>ps. x = Inr ps \<longrightarrow> buf = concat (map frameMessage ps))"
  using unframe_parts [OF assms, of 0 "[]"] by (auto simp: unframeMessages_def)

theorem unframing_returns_witness: "\<exists>x. unframeMessages [0, 0, 0, 0, 9, 1] = Some x"
proof -
  have "lengths_ok [0, 0, 0, 0, 9, 1]" by code_simp
  from unframing_returns [OF this] show ?thesis by blast
qed

end
