(* ===== verification/Collector.thy ===== *)
theory Collector
  imports Jcs Grpc "HOL-Library.Sublist"
begin

text \<open>
  The collector of exported telemetry (\<open>otel-collector.ts\<close>): the reading of attribute values, the two
  ingest loops over a payload and the HTTP and gRPC request handlers over the captured spans and
  metrics. A payload is a value of the language, read from JSON text or built by the protobuf decoder;
  a member read of \<open>null\<close>, a loop over a value that is not iterable and \<open>String\<close> of an object without a
  primitive form raise \<open>Type_error\<close>, and what was captured before the fault stays captured. Text is
  a list of UTF-16 code units.
\<close>

section \<open>Values of the language\<close>

text \<open>What is done with numbers beyond printing them: \<open>Number(text)\<close>, the double of a bit pattern, truthiness.\<close>

record 'n otel_ops = "'n number_ops" +
  oo_Number :: "units \<Rightarrow> 'n"
  oo_bits :: "64 word \<Rightarrow> 'n"
  oo_truthy :: "'n \<Rightarrow> bool"

datatype js_fault = Type_error

text \<open>\<open>v.k\<close>; no name read here belongs to a built-in prototype of a string, a number or an array.\<close>

definition own :: "(units \<times> 'n jv) list \<Rightarrow> string \<Rightarrow> 'n jv option" where
  "own es k = map_of es (units_of k)"

definition read_member :: "'n jv \<Rightarrow> string \<Rightarrow> js_fault + 'n jv option" where
  "read_member v k = (case v of V_null \<Rightarrow> Inl Type_error | V_obj es \<Rightarrow> Inr (own es k) | _ \<Rightarrow> Inr None)"

text \<open>\<open>x ?? d\<close>, and \<open>!x\<close>.\<close>

definition nullish :: "'n jv option \<Rightarrow> 'n jv \<Rightarrow> 'n jv" where
  "nullish x d = (case x of None \<Rightarrow> d | Some V_null \<Rightarrow> d | Some v \<Rightarrow> v)"

definition js_truthiness :: "'n otel_ops \<Rightarrow> 'n jv \<Rightarrow> bool" where
  "js_truthiness ops v =
     (case v of V_null \<Rightarrow> False | V_bool b \<Rightarrow> b | V_num n \<Rightarrow> oo_truthy ops n | V_str s \<Rightarrow> s \<noteq> [] | _ \<Rightarrow> True)"

text \<open>\<open>for (const x of v)\<close>: an array gives its elements, a string its code points.\<close>

fun code_points :: "units \<Rightarrow> units list" where
  "code_points (h # l # us) =
     (if 0xD800 \<le> h \<and> h \<le> 0xDBFF \<and> 0xDC00 \<le> l \<and> l \<le> 0xDFFF then [h, l] # code_points us else [h] # code_points (l # us))"
| "code_points [u] = [[u]]"
| "code_points [] = []"

definition iterate :: "'n jv \<Rightarrow> js_fault + 'n jv list" where
  "iterate v = (case v of V_arr vs \<Rightarrow> Inr vs | V_str s \<Rightarrow> Inr (map V_str (code_points s)) | _ \<Rightarrow> Inl Type_error)"

text \<open>\<open>String(v)\<close>: an object of a payload has no callable member, so an own \<open>toString\<close> leaves it without text.\<close>

fun jv_string :: "'n otel_ops \<Rightarrow> 'n jv \<Rightarrow> js_fault + units" where
  "jv_string ops V_null = Inr (units_of ''null'')"
| "jv_string ops (V_bool b) = Inr (units_of (if b then ''true'' else ''false''))"
| "jv_string ops (V_num n) = Inr (no_string ops n)"
| "jv_string ops (V_str s) = Inr s"
| "jv_string ops (V_arr vs) =
     ebind (emap (\<lambda>v. case v of V_null \<Rightarrow> Inr [] | _ \<Rightarrow> jv_string ops v) vs) (\<lambda>ts. Inr (comma_join ts))"
| "jv_string ops (V_obj es) = (if own es ''toString'' \<noteq> None then Inl Type_error else Inr (units_of ''[object Object]''))"
| "jv_string ops (V_other t) = Inr (units_of t)"

section \<open>Attributes\<close>

datatype 'n attr = At_null | At_bool bool | At_num 'n | At_str units | At_arr "'n attr list"

type_synonym 'n attr_map = "(units \<times> 'n attr) list"

definition scalar_attr :: "'n otel_ops \<Rightarrow> (units \<times> 'n jv) list \<Rightarrow> 'n attr option" where
  "scalar_attr ops es =
     (case own es ''stringValue'' of Some (V_str s) \<Rightarrow> Some (At_str s)
      | _ \<Rightarrow> (case own es ''intValue'' of Some (V_str s) \<Rightarrow> Some (At_num (oo_Number ops s))
      | Some (V_num n) \<Rightarrow> Some (At_num n)
      | _ \<Rightarrow> (case own es ''doubleValue'' of Some (V_num n) \<Rightarrow> Some (At_num n)
      | _ \<Rightarrow> (case own es ''boolValue'' of Some (V_bool b) \<Rightarrow> Some (At_bool b)
      | _ \<Rightarrow> None))))"

text \<open>
  The elements of \<open>arrayValue\<close>, when there is one to map: \<open>values\<close> of an array is the method of that
  name, and only an array has \<open>map\<close>.
\<close>

definition attr_items :: "(units \<times> 'n jv) list \<Rightarrow> (js_fault + 'n jv list) option" where
  "attr_items es =
     (case own es ''arrayValue'' of
        Some (V_obj fs) \<Rightarrow> Some (case nullish (own fs ''values'') (V_arr []) of V_arr vs \<Rightarrow> Inr vs | _ \<Rightarrow> Inl Type_error)
      | Some (V_arr vs) \<Rightarrow> Some (Inl Type_error)
      | _ \<Rightarrow> None)"

lemma own_size: "own es k = Some v \<Longrightarrow> size v < size (V_obj es)"
proof -
  assume "own es k = Some v"
  then have "(units_of k, v) \<in> set es" by (simp add: own_def map_of_SomeD)
  then have "size v < size_list (size_prod (\<lambda>_. 0) size) es" by (induction es) auto
  then show ?thesis by simp
qed

lemma attr_items_size: "attr_items es = Some (Inr vs) \<Longrightarrow> v \<in> set vs \<Longrightarrow> size v < size (V_obj es)"
proof -
  assume items: "attr_items es = Some (Inr vs)" and v: "v \<in> set vs"
  from items obtain fs where fs: "own es ''arrayValue'' = Some (V_obj fs)"
    and vs: "nullish (own fs ''values'') (V_arr []) = V_arr vs"
    by (auto simp: attr_items_def split: option.splits jv.splits)
  from vs v have "own fs ''values'' = Some (V_arr vs)"
    by (auto simp: nullish_def split: option.splits jv.splits)
  from own_size [OF this] own_size [OF fs] have "size (V_arr vs) < size (V_obj es)" by linarith
  moreover from v have "size v < size (V_arr vs)" by (induction vs) auto
  ultimately show ?thesis by linarith
qed

function decodeAttrValue :: "'n otel_ops \<Rightarrow> 'n jv \<Rightarrow> js_fault + 'n attr" where
  "decodeAttrValue ops v =
     (case v of
        V_obj es \<Rightarrow>
          (case scalar_attr ops es of
             Some a \<Rightarrow> Inr a
           | None \<Rightarrow>
               (case attr_items es of
                  None \<Rightarrow> Inr At_null
                | Some (Inl e) \<Rightarrow> Inl e
                | Some (Inr vs) \<Rightarrow> ebind (emap (decodeAttrValue ops) vs) (\<lambda>as. Inr (At_arr as))))
      | _ \<Rightarrow> Inr At_null)"
  by pat_completeness auto
termination
  by (relation "measure (\<lambda>(ops, v). size v)") (auto dest: attr_items_size)

declare decodeAttrValue.simps [simp del]

definition attr_entry :: "'n otel_ops \<Rightarrow> 'n jv \<Rightarrow> 'n attr_map \<Rightarrow> js_fault + 'n attr_map" where
  "attr_entry ops a out =
     ebind (read_member a ''key'') (\<lambda>k. case k of
       Some (V_str key) \<Rightarrow>
         ebind (read_member a ''value'') (\<lambda>v.
         ebind (case v of None \<Rightarrow> Inr At_null | Some v \<Rightarrow> decodeAttrValue ops v) (\<lambda>x.
         Inr (AList.update key x out)))
     | _ \<Rightarrow> Inr out)"

primrec attr_entries :: "'n otel_ops \<Rightarrow> 'n jv list \<Rightarrow> 'n attr_map \<Rightarrow> js_fault + 'n attr_map" where
  "attr_entries ops [] out = Inr out"
| "attr_entries ops (a # as) out = ebind (attr_entry ops a out) (attr_entries ops as)"

definition decodeAttributes_map :: "'n otel_ops \<Rightarrow> 'n jv option \<Rightarrow> js_fault + 'n attr_map" where
  "decodeAttributes_map ops attrs =
     (case attrs of None \<Rightarrow> Inr []
      | Some v \<Rightarrow> if js_truthiness ops v then ebind (iterate v) (\<lambda>as. attr_entries ops as []) else Inr [])"

section \<open>Ingest\<close>

record 'n captured_span =
  cap_traceId :: units
  cap_spanId :: units
  cap_parentSpanId :: "units option"
  cap_name :: units
  cap_startTimeUnixNano :: units
  cap_endTimeUnixNano :: units
  cap_attributes :: "'n attr_map"
  cap_resourceAttributes :: "'n attr_map"

datatype metric_kind = K_sum | K_gauge | K_histogram

record 'n captured_metric =
  cam_name :: units
  cam_description :: "units option"
  cam_unit :: "units option"
  cam_kind :: metric_kind
  cam_attributes :: "'n attr_map"
  cam_value :: "'n option"

text \<open>A loop that pushes: what it pushed, and the fault that ended it.\<close>

type_synonym 'a pushed = "'a list \<times> js_fault option"

definition and_then :: "'a pushed \<Rightarrow> 'a pushed \<Rightarrow> 'a pushed" where
  "and_then x y = (case snd x of Some e \<Rightarrow> x | None \<Rightarrow> (fst x @ fst y, snd y))"

primrec for_each :: "('x \<Rightarrow> 'a pushed) \<Rightarrow> 'x list \<Rightarrow> 'a pushed" where
  "for_each f [] = ([], None)"
| "for_each f (x # xs) = and_then (f x) (for_each f xs)"

definition attempt :: "js_fault + 'b \<Rightarrow> ('b \<Rightarrow> 'a pushed) \<Rightarrow> 'a pushed" where
  "attempt x f = (case x of Inl e \<Rightarrow> ([], Some e) | Inr b \<Rightarrow> f b)"

definition list_member :: "'n jv \<Rightarrow> string \<Rightarrow> js_fault + 'n jv list" where
  "list_member v k = ebind (read_member v k) (\<lambda>x. iterate (nullish x (V_arr [])))"

definition text_member :: "'n otel_ops \<Rightarrow> 'n jv \<Rightarrow> string \<Rightarrow> string \<Rightarrow> js_fault + units" where
  "text_member ops v k d = ebind (read_member v k) (\<lambda>x. jv_string ops (nullish x (V_str (units_of d))))"

definition parent_member :: "'n otel_ops \<Rightarrow> 'n jv \<Rightarrow> js_fault + units option" where
  "parent_member ops v =
     ebind (read_member v ''parentSpanId'') (\<lambda>x. case x of
       Some p \<Rightarrow> if js_truthiness ops p then ebind (jv_string ops p) (\<lambda>s. Inr (Some s)) else Inr None
     | None \<Rightarrow> Inr None)"

definition read_span :: "'n otel_ops \<Rightarrow> 'n attr_map \<Rightarrow> 'n jv \<Rightarrow> js_fault + 'n captured_span" where
  "read_span ops res sp =
     ebind (text_member ops sp ''traceId'' '''') (\<lambda>tr.
     ebind (text_member ops sp ''spanId'' '''') (\<lambda>id.
     ebind (parent_member ops sp) (\<lambda>parent.
     ebind (text_member ops sp ''name'' '''') (\<lambda>name.
     ebind (text_member ops sp ''startTimeUnixNano'' ''0'') (\<lambda>start.
     ebind (text_member ops sp ''endTimeUnixNano'' ''0'') (\<lambda>finish.
     ebind (read_member sp ''attributes'') (\<lambda>as.
     ebind (decodeAttributes_map ops as) (\<lambda>attrs.
     Inr \<lparr>cap_traceId = tr, cap_spanId = id, cap_parentSpanId = parent, cap_name = name,
       cap_startTimeUnixNano = start, cap_endTimeUnixNano = finish, cap_attributes = attrs,
       cap_resourceAttributes = res\<rparr>))))))))"

definition push_span :: "'n otel_ops \<Rightarrow> 'n attr_map \<Rightarrow> 'n jv \<Rightarrow> 'n captured_span pushed" where
  "push_span ops res sp = attempt (read_span ops res sp) (\<lambda>s. ([s], None))"

definition resource_attributes :: "'n otel_ops \<Rightarrow> 'n jv \<Rightarrow> js_fault + 'n attr_map" where
  "resource_attributes ops r =
     ebind (read_member r ''resource'') (\<lambda>x. ebind (read_member (nullish x (V_obj [])) ''attributes'') (decodeAttributes_map ops))"

definition push_resource :: "'n otel_ops \<Rightarrow> 'n jv \<Rightarrow> 'n captured_span pushed" where
  "push_resource ops r =
     attempt (resource_attributes ops r) (\<lambda>res.
     attempt (list_member r ''scopeSpans'') (\<lambda>ss.
     for_each (\<lambda>s. attempt (list_member s ''spans'') (for_each (push_span ops res))) ss))"

definition pushed_spans :: "'n otel_ops \<Rightarrow> 'n jv \<Rightarrow> 'n captured_span pushed" where
  "pushed_spans ops payload = attempt (list_member payload ''resourceSpans'') (for_each (push_resource ops))"

text \<open>\<open>slot?.dataPoints?.length\<close> and \<open>slot.dataPoints[0]\<close>: \<open>None\<close> is the \<open>continue\<close>, the inner \<open>None\<close> an undefined first point.\<close>

definition first_point :: "'n otel_ops \<Rightarrow> 'n jv option \<Rightarrow> 'n jv option option" where
  "first_point ops slot =
     (case slot of
        Some (V_obj es) \<Rightarrow>
          (case own es ''dataPoints'' of
             Some (V_arr (d # ds)) \<Rightarrow> Some (Some d)
           | Some (V_str (u # us)) \<Rightarrow> Some (Some (V_str [u]))
           | Some (V_obj fs) \<Rightarrow>
               (case own fs ''length'' of Some l \<Rightarrow> if js_truthiness ops l then Some (own fs ''0'') else None | None \<Rightarrow> None)
           | _ \<Rightarrow> None)
      | _ \<Rightarrow> None)"

definition point_value :: "'n otel_ops \<Rightarrow> (string \<Rightarrow> 'n jv option) \<Rightarrow> 'n option" where
  "point_value ops get =
     (case get ''asDouble'' of Some (V_num n) \<Rightarrow> Some n
      | _ \<Rightarrow> (case get ''asInt'' of Some (V_str s) \<Rightarrow> Some (oo_Number ops s) | Some (V_num n) \<Rightarrow> Some n | _ \<Rightarrow> None))"

definition read_point :: "'n otel_ops \<Rightarrow> 'n jv option \<Rightarrow> js_fault + 'n attr_map \<times> 'n option" where
  "read_point ops d =
     (case d of None \<Rightarrow> Inl Type_error
      | Some v \<Rightarrow>
          ebind (read_member v ''attributes'') (\<lambda>as.
          ebind (decodeAttributes_map ops as) (\<lambda>attrs.
          Inr (attrs, point_value ops (\<lambda>k. case read_member v k of Inr x \<Rightarrow> x | Inl e \<Rightarrow> None)))))"

primrec metric_point :: "'n otel_ops \<Rightarrow> 'n jv \<Rightarrow> (string \<times> metric_kind) list \<Rightarrow> js_fault + (metric_kind \<times> 'n attr_map \<times> 'n option) option" where
  "metric_point ops m [] = Inr None"
| "metric_point ops m (k # ks) =
     ebind (read_member m (fst k)) (\<lambda>slot. case first_point ops slot of
       None \<Rightarrow> metric_point ops m ks
     | Some d \<Rightarrow> ebind (read_point ops d) (\<lambda>p. Inr (Some (snd k, p))))"

definition metric_kinds :: "(string \<times> metric_kind) list" where
  "metric_kinds = [(''sum'', K_sum), (''gauge'', K_gauge), (''histogram'', K_histogram)]"

definition if_string :: "'n jv \<Rightarrow> string \<Rightarrow> js_fault + units option" where
  "if_string v k = ebind (read_member v k) (\<lambda>x. Inr (case x of Some (V_str s) \<Rightarrow> Some s | _ \<Rightarrow> None))"

definition push_metric :: "'n otel_ops \<Rightarrow> 'n jv \<Rightarrow> 'n captured_metric pushed" where
  "push_metric ops m =
     attempt (metric_point ops m metric_kinds) (\<lambda>dp. case dp of
       None \<Rightarrow> ([], None)
     | Some (kind, as, v) \<Rightarrow>
         attempt (text_member ops m ''name'' '''') (\<lambda>name.
         attempt (if_string m ''description'') (\<lambda>descr.
         attempt (if_string m ''unit'') (\<lambda>un.
         ([\<lparr>cam_name = name, cam_description = descr, cam_unit = un, cam_kind = kind, cam_attributes = as, cam_value = v\<rparr>], None)))))"

definition pushed_metrics :: "'n otel_ops \<Rightarrow> 'n jv \<Rightarrow> 'n captured_metric pushed" where
  "pushed_metrics ops payload =
     attempt (list_member payload ''resourceMetrics'') (for_each (\<lambda>r.
     attempt (list_member r ''scopeMetrics'') (for_each (\<lambda>s.
     attempt (list_member s ''metrics'') (for_each (push_metric ops))))))"

section \<open>The collector\<close>

record 'n collector =
  col_spans :: "'n captured_span list"
  col_metrics :: "'n captured_metric list"

definition new_collector :: "'n collector" where
  "new_collector = \<lparr>col_spans = [], col_metrics = []\<rparr>"

definition collector_reset :: "'n collector \<Rightarrow> 'n collector" where
  "collector_reset st = st\<lparr>col_spans := [], col_metrics := []\<rparr>"

definition ingestTraces :: "'n otel_ops \<Rightarrow> 'n jv \<Rightarrow> 'n collector \<Rightarrow> 'n collector \<times> js_fault option" where
  "ingestTraces ops payload st =
     (let p = pushed_spans ops payload in (st\<lparr>col_spans := col_spans st @ fst p\<rparr>, snd p))"

definition ingestMetrics :: "'n otel_ops \<Rightarrow> 'n jv \<Rightarrow> 'n collector \<Rightarrow> 'n collector \<times> js_fault option" where
  "ingestMetrics ops payload st =
     (let p = pushed_metrics ops payload in (st\<lparr>col_metrics := col_metrics st @ fst p\<rparr>, snd p))"

definition spansByName :: "units \<Rightarrow> 'n collector \<Rightarrow> 'n captured_span list" where
  "spansByName name st = filter (\<lambda>s. cap_name s = name) (col_spans st)"

text \<open>\<open>===\<close> against a string, the only values the suite asks for.\<close>

definition spansWithAttribute :: "units \<Rightarrow> units \<Rightarrow> 'n collector \<Rightarrow> 'n captured_span list" where
  "spansWithAttribute key v st =
     filter (\<lambda>s. case map_of (cap_attributes s) key of Some (At_str t) \<Rightarrow> t = v | _ \<Rightarrow> False) (col_spans st)"

definition metricByName :: "units \<Rightarrow> 'n collector \<Rightarrow> 'n captured_metric option" where
  "metricByName name st = List.find (\<lambda>m. cam_name m = name) (col_metrics st)"

section \<open>What the protobuf decoder hands over\<close>

text \<open>A code point as UTF-16.\<close>

definition utf16_point :: "nat \<Rightarrow> units" where
  "utf16_point c = (if c < 0x10000 then [c] else [0xD800 + (c - 0x10000) div 0x400, 0xDC00 + (c - 0x10000) mod 0x400])"

definition utf16 :: "js_text \<Rightarrow> units" where
  "utf16 s = concat (map utf16_point s)"

definition obj :: "(string \<times> 'n jv) list \<Rightarrow> 'n jv" where
  "obj es = V_obj (map (\<lambda>(k, v). (units_of k, v)) es)"

definition opt :: "string \<Rightarrow> ('a \<Rightarrow> 'n jv) \<Rightarrow> 'a option \<Rightarrow> (string \<times> 'n jv) list" where
  "opt k f x = (case x of None \<Rightarrow> [] | Some v \<Rightarrow> [(k, f v)])"

definition str_jv :: "string \<Rightarrow> 'n jv" where
  "str_jv s = V_str (units_of s)"

definition text_jv :: "js_text \<Rightarrow> 'n jv" where
  "text_jv s = V_str (utf16 s)"

primrec any_jv :: "'n otel_ops \<Rightarrow> any_value \<Rightarrow> 'n jv" where
  "any_jv ops (String_value s) = obj [(''stringValue'', text_jv s)]"
| "any_jv ops (Int_value s) = obj [(''intValue'', str_jv s)]"
| "any_jv ops (Double_value d) = obj [(''doubleValue'', V_num (oo_bits ops d))]"
| "any_jv ops (Bool_value b) = obj [(''boolValue'', V_bool b)]"
| "any_jv ops (Array_value vs) = obj [(''arrayValue'', obj [(''values'', V_arr (map (any_jv ops) vs))])]"
| "any_jv ops (Kvlist_value kvs) =
     obj [(''kvlistValue'', obj [(''values'',
       V_arr (map (\<lambda>p. obj [(''key'', text_jv (fst p)), (''value'', snd p)]) (map (map_prod id (any_jv ops)) kvs)))])]"
| "any_jv ops (Bytes_value s) = obj [(''bytesValue'', str_jv s)]"
| "any_jv ops Empty_value = obj []"

definition key_value_jv :: "'n otel_ops \<Rightarrow> key_value \<Rightarrow> 'n jv" where
  "key_value_jv ops kv = obj [(''key'', text_jv (fst kv)), (''value'', any_jv ops (snd kv))]"

definition attributes_jv :: "'n otel_ops \<Rightarrow> key_value list \<Rightarrow> 'n jv" where
  "attributes_jv ops kvs = V_arr (map (key_value_jv ops) kvs)"

definition span_jv :: "'n otel_ops \<Rightarrow> span \<Rightarrow> 'n jv" where
  "span_jv ops s =
     obj (opt ''traceId'' str_jv (sp_traceId s) @ opt ''spanId'' str_jv (sp_spanId s) @
       opt ''parentSpanId'' str_jv (sp_parentSpanId s) @ opt ''name'' text_jv (sp_name s) @
       opt ''startTimeUnixNano'' str_jv (sp_startTimeUnixNano s) @ opt ''endTimeUnixNano'' str_jv (sp_endTimeUnixNano s) @
       opt ''attributes'' (attributes_jv ops) (sp_attributes s))"

definition resource_jv :: "'n otel_ops \<Rightarrow> resource \<Rightarrow> 'n jv" where
  "resource_jv ops r = obj [(''attributes'', attributes_jv ops (rs_attributes r))]"

definition resource_spans_jv :: "'n otel_ops \<Rightarrow> resource_spans \<Rightarrow> 'n jv" where
  "resource_spans_jv ops r =
     obj (opt ''resource'' (resource_jv ops) (rp_resource r) @
       [(''scopeSpans'', V_arr (map (\<lambda>s. obj [(''spans'', V_arr (map (span_jv ops) (ss_spans s)))]) (rp_scopeSpans r)))])"

definition trace_jv :: "'n otel_ops \<Rightarrow> trace_request \<Rightarrow> 'n jv" where
  "trace_jv ops q = obj [(''resourceSpans'', V_arr (map (resource_spans_jv ops) (tq_resourceSpans q)))]"

definition data_point_jv :: "'n otel_ops \<Rightarrow> data_point \<Rightarrow> 'n jv" where
  "data_point_jv ops d =
     obj (opt ''attributes'' (attributes_jv ops) (dp_attributes d) @
       opt ''asDouble'' (\<lambda>b. V_num (oo_bits ops b)) (dp_asDouble d) @ opt ''asInt'' str_jv (dp_asInt d))"

definition points_jv :: "'n otel_ops \<Rightarrow> data_point list \<Rightarrow> 'n jv" where
  "points_jv ops ds = obj [(''dataPoints'', V_arr (map (data_point_jv ops) ds))]"

definition metric_jv :: "'n otel_ops \<Rightarrow> metric \<Rightarrow> 'n jv" where
  "metric_jv ops m =
     obj (opt ''name'' text_jv (mt_name m) @ opt ''description'' text_jv (mt_description m) @ opt ''unit'' text_jv (mt_unit m) @
       opt ''gauge'' (points_jv ops) (mt_gauge m) @ opt ''sum'' (points_jv ops) (mt_sum m) @
       opt ''histogram'' (points_jv ops) (mt_histogram m))"

definition resource_metrics_jv :: "'n otel_ops \<Rightarrow> resource_metrics \<Rightarrow> 'n jv" where
  "resource_metrics_jv ops r =
     obj (opt ''resource'' (resource_jv ops) (rm_resource r) @
       [(''scopeMetrics'', V_arr (map (\<lambda>s. obj [(''metrics'', V_arr (map (metric_jv ops) (sm_metrics s)))]) (rm_scopeMetrics r)))])"

definition metrics_jv :: "'n otel_ops \<Rightarrow> metrics_request \<Rightarrow> 'n jv" where
  "metrics_jv ops q = obj [(''resourceMetrics'', V_arr (map (resource_metrics_jv ops) (mq_resourceMetrics q)))]"

section \<open>The request handlers\<close>

record http_post =
  hp_method :: string
  hp_url :: "string option"
  hp_contentType :: "string option"
  hp_chunks :: "byte list list"

text \<open>A status with the \<open>error\<close> of its body, or no answer: the handler's promise was rejected.\<close>

datatype http_answer = Answered nat string | Unanswered

definition max_body_bytes :: nat where
  "max_body_bytes = 16 * 1024 * 1024"

primrec over_limit :: "nat \<Rightarrow> byte list list \<Rightarrow> bool" where
  "over_limit received [] = False"
| "over_limit received (c # cs) = (max_body_bytes < received + length c \<or> over_limit (received + length c) cs)"

text \<open>
  The route that wins, and the ingest of a payload on it; \<open>None\<close> is a decoder that never ends.
  \<open>parse\<close> is \<open>JSON.parse(body.toString('utf8'))\<close>.
\<close>

datatype route = Traces | Metrics | Other_route

definition http_route :: "string option \<Rightarrow> route" where
  "http_route url =
     (case url of None \<Rightarrow> Other_route
      | Some u \<Rightarrow> if has_sub ''/v1/traces'' u then Traces else if has_sub ''/v1/metrics'' u then Metrics else Other_route)"

definition decode_route :: "'n otel_ops \<Rightarrow> route \<Rightarrow> byte list \<Rightarrow> (pb_error + 'n jv) option" where
  "decode_route ops rt buf =
     (case rt of
        Traces \<Rightarrow> map_option (map_sum id (trace_jv ops)) (decodeExportTraceServiceRequest buf)
      | Metrics \<Rightarrow> map_option (map_sum id (metrics_jv ops)) (decodeExportMetricsServiceRequest buf)
      | Other_route \<Rightarrow> Some (Inr (V_obj [])))"

definition ingest :: "'n otel_ops \<Rightarrow> route \<Rightarrow> 'n jv \<Rightarrow> 'n collector \<Rightarrow> 'n collector \<times> js_fault option" where
  "ingest ops rt payload st =
     (case rt of Traces \<Rightarrow> ingestTraces ops payload st | Metrics \<Rightarrow> ingestMetrics ops payload st | Other_route \<Rightarrow> (st, None))"

definition finish_post :: "'n collector \<times> js_fault option \<Rightarrow> http_answer \<times> 'n collector" where
  "finish_post r = (case snd r of None \<Rightarrow> (Answered 200 '''', fst r) | Some e \<Rightarrow> (Unanswered, fst r))"

definition handle_http :: "'n otel_ops \<Rightarrow> (byte list \<Rightarrow> 'n jv option) \<Rightarrow> http_post \<Rightarrow> 'n collector \<Rightarrow> (http_answer \<times> 'n collector) option" where
  "handle_http ops parse rq st =
     (if hp_method rq \<noteq> ''POST'' then Some (Answered 405 '''', st)
      else if over_limit 0 (hp_chunks rq) then Some (Answered 413 ''payload_too_large'', st)
      else
        let body = concat (hp_chunks rq);
            contentType = map ascii_lower (case hp_contentType rq of None \<Rightarrow> [] | Some t \<Rightarrow> t);
            rt = http_route (hp_url rq) in
        if has_sub ''application/x-protobuf'' contentType \<or> has_sub ''application/protobuf'' contentType
        then (if rt = Other_route then Some (Answered 200 '''', st)
              else map_option (\<lambda>x. case x of
                     Inl e \<Rightarrow> (Answered 400 ''invalid_protobuf'', st)
                   | Inr payload \<Rightarrow> finish_post (ingest ops rt payload st)) (decode_route ops rt body))
        else if has_sub ''application/json'' contentType \<or> contentType = []
        then (case (if body = [] then Some (V_obj []) else parse body) of
                None \<Rightarrow> Some (Answered 400 ''invalid_json'', st)
              | Some payload \<Rightarrow> Some (finish_post (ingest ops rt payload st)))
        else Some (Answered 415 ''unsupported_media_type'', st))"

record grpc_call =
  gc_path :: string
  gc_method :: string
  gc_contentType :: string
  gc_chunks :: "byte list list"

text \<open>The answer is the \<open>grpc-status\<close>: 0, \<open>INVALID_ARGUMENT\<close> (3) or \<open>RESOURCE_EXHAUSTED\<close> (8).\<close>

definition grpc_route :: "string \<Rightarrow> route" where
  "grpc_route path =
     (if ends_with ''TraceService/Export'' path then Traces
      else if ends_with ''MetricsService/Export'' path then Metrics else Other_route)"

primrec grpc_frames :: "'n otel_ops \<Rightarrow> route \<Rightarrow> byte list list \<Rightarrow> 'n collector \<Rightarrow> (nat \<times> 'n collector) option" where
  "grpc_frames ops rt [] st = Some (0, st)"
| "grpc_frames ops rt (f # fs) st =
     (case decode_route ops rt f of
        None \<Rightarrow> None
      | Some (Inl e) \<Rightarrow> Some (3, st)
      | Some (Inr payload) \<Rightarrow>
          (case ingest ops rt payload st of
             (st', None) \<Rightarrow> grpc_frames ops rt fs st'
           | (st', Some e) \<Rightarrow> Some (3, st')))"

definition handle_grpc :: "'n otel_ops \<Rightarrow> grpc_call \<Rightarrow> 'n collector \<Rightarrow> (nat \<times> 'n collector) option" where
  "handle_grpc ops rq st =
     (if gc_method rq \<noteq> ''POST'' \<or> \<not> starts_with ''application/grpc'' (map ascii_lower (gc_contentType rq)) then Some (3, st)
      else if over_limit 0 (gc_chunks rq) then Some (8, st)
      else
        (case unframeMessages (concat (gc_chunks rq)) of
           None \<Rightarrow> None
         | Some (Inl e) \<Rightarrow> Some (3, st)
         | Some (Inr frames) \<Rightarrow>
             if grpc_route (gc_path rq) = Other_route then Some (0, st)
             else grpc_frames ops (grpc_route (gc_path rq)) frames st))"

section \<open>Waiting for the spans of a run\<close>

text \<open>
  \<open>waitForRunSpans\<close> over what it sees at each turn of its loop: the clock and the collector then.
  \<open>end_state\<close> is the collector at the read after the loop.
\<close>

definition run_id_key :: units where
  "run_id_key = units_of ''openwop.run_id''"

fun waitForRunSpans :: "units \<Rightarrow> nat \<Rightarrow> nat \<Rightarrow> (nat \<times> 'n collector) list \<Rightarrow> 'n collector \<Rightarrow> 'n captured_span list" where
  "waitForRunSpans runId minCount deadline [] end_state = spansWithAttribute run_id_key runId end_state"
| "waitForRunSpans runId minCount deadline ((t, st) # turns) end_state =
     (if t < deadline
      then (let matching = spansWithAttribute run_id_key runId st in
            if minCount \<le> length matching then matching
            else waitForRunSpans runId minCount deadline turns end_state)
      else spansWithAttribute run_id_key runId st)"

section \<open>What reaches the collector from a protobuf payload\<close>

lemma units_of_inj [simp]: "units_of a = units_of b \<longleftrightarrow> a = b"
  by (simp add: units_of_def inj_map_eq_map inj_def)

lemma own_obj [simp]: "own (map (\<lambda>(k, v). (units_of k, v)) es) k = map_of es k"
  by (induction es) (auto simp: own_def)

lemma read_member_obj [simp]: "read_member (obj es) k = Inr (map_of es k)"
  by (simp add: read_member_def obj_def)

lemma map_of_opt [simp]: "map_of (opt k f x) = (case x of None \<Rightarrow> Map.empty | Some v \<Rightarrow> [k \<mapsto> f v])"
  by (auto simp: opt_def split: option.splits)

lemma nullish_simps [simp]:
  "nullish None d = d" "nullish (Some (V_arr vs)) d = V_arr vs" "nullish (Some (V_str s)) d = V_str s"
  "nullish (Some (V_obj es)) d = V_obj es" "nullish (Some (obj fs)) d = obj fs"
  by (simp_all add: nullish_def obj_def)

lemma iterate_arr [simp]: "iterate (V_arr vs) = Inr vs"
  by (simp add: iterate_def)

lemma truthiness_arr [simp]: "js_truthiness ops (V_arr vs)"
  by (simp add: js_truthiness_def)

lemma emap_all: "(\<And>x. x \<in> set xs \<Longrightarrow> f x = Inr (g x)) \<Longrightarrow> emap f xs = Inr (map g xs)"
  by (induction xs) auto

text \<open>The attribute a wire value becomes: a list of pairs and a byte string are lost.\<close>

primrec attr_of :: "'n otel_ops \<Rightarrow> wire_value \<Rightarrow> 'n attr" where
  "attr_of ops (W_string s) = At_str (utf16 s)"
| "attr_of ops (W_bool b) = At_bool b"
| "attr_of ops (W_int i) = At_num (oo_Number ops (units_of (int_str i)))"
| "attr_of ops (W_double d) = At_num (oo_bits ops d)"
| "attr_of ops (W_array vs) = At_arr (map (attr_of ops) vs)"
| "attr_of ops (W_kvlist kvs) = At_null"
| "attr_of ops (W_bytes bs) = At_null"

lemma decode_any: "decodeAttrValue ops (any_jv ops (json_value v)) = Inr (attr_of ops v)"
proof (induction v)
  case (W_array vs)
  then have "emap (decodeAttrValue ops) (map (any_jv ops) (map json_value vs)) = Inr (map (attr_of ops) vs)"
    by (induction vs) auto
  then show ?case by (simp add: decodeAttrValue.simps [of ops "V_obj es" for es] obj_def own_def scalar_attr_def attr_items_def del: map_map)
qed (simp_all add: decodeAttrValue.simps [of ops "V_obj es" for es] obj_def own_def scalar_attr_def attr_items_def text_jv_def str_jv_def)

definition attr_map_of :: "'n otel_ops \<Rightarrow> (js_text \<times> wire_value) list \<Rightarrow> 'n attr_map" where
  "attr_map_of ops ps = fold (\<lambda>p. AList.update (utf16 (fst p)) (attr_of ops (snd p))) ps []"

lemma entry_of_pair: "attr_entry ops (key_value_jv ops (json_pair p)) out = Inr (AList.update (utf16 (fst p)) (attr_of ops (snd p)) out)"
  by (simp add: attr_entry_def key_value_jv_def json_pair_def text_jv_def decode_any)

lemma entries_of_pairs:
  "attr_entries ops (map (key_value_jv ops) (map json_pair ps)) out = Inr (fold (\<lambda>p. AList.update (utf16 (fst p)) (attr_of ops (snd p))) ps out)"
  by (induction ps arbitrary: out) (simp_all add: entry_of_pair)

lemma attributes_of_pairs:
  "decodeAttributes_map ops (Some (attributes_jv ops (map json_pair ps))) = Inr (attr_map_of ops ps)"
  using entries_of_pairs [of ops ps "[]"] by (simp add: decodeAttributes_map_def attributes_jv_def attr_map_of_def)

definition captured_of :: "'n otel_ops \<Rightarrow> 'n attr_map \<Rightarrow> wire_span \<Rightarrow> 'n captured_span" where
  "captured_of ops res s =
     \<lparr>cap_traceId = units_of (hex_bytes (ws_traceId s)), cap_spanId = units_of (hex_bytes (ws_spanId s)),
      cap_parentSpanId = (if ws_parent s = [] then None else Some (units_of (hex_bytes (ws_parent s)))),
      cap_name = utf16 (ws_name s), cap_startTimeUnixNano = units_of (nat_digits (ws_start s)),
      cap_endTimeUnixNano = units_of (nat_digits (ws_end s)),
      cap_attributes = attr_map_of ops (ws_attributes s), cap_resourceAttributes = res\<rparr>"

definition captured_spans_of :: "'n otel_ops \<Rightarrow> wire_resource_spans list \<Rightarrow> 'n captured_span list" where
  "captured_spans_of ops xs =
     concat (map (\<lambda>x. map (captured_of ops (attr_map_of ops (wr_attributes x))) (concat (wr_scopes x))) xs)"

lemma hex_bytes_empty [simp]: "hex_bytes bs = [] \<longleftrightarrow> bs = []"
  by (cases bs) (simp_all add: hex_bytes_def hex_byte_def)

lemma units_of_empty [simp]: "units_of s = [] \<longleftrightarrow> s = []"
  by (simp add: units_of_def)

lemma span_of_wire: "read_span ops res (span_jv ops (json_span s)) = Inr (captured_of ops res s)"
proof -
  have "decodeAttributes_map ops (map_option (attributes_jv ops) (sp_attributes (json_span s))) = Inr (attr_map_of ops (ws_attributes s))"
    by (simp add: json_span_def attributes_of_pairs [simplified]) (simp add: decodeAttributes_map_def attr_map_of_def)
  then show ?thesis
    by (simp add: read_span_def span_jv_def text_member_def parent_member_def json_span_def str_jv_def text_jv_def js_truthiness_def
        captured_of_def split: if_splits)
qed

lemma for_each_all: "(\<And>x. x \<in> set xs \<Longrightarrow> f x = (g x, None)) \<Longrightarrow> for_each f xs = (concat (map g xs), None)"
  by (induction xs) (auto simp: and_then_def)

lemma attempt_Inr [simp]: "attempt (Inr x) f = f x"
  by (simp add: attempt_def)

lemma spans_of_wire: "for_each (push_span ops res) (map (span_jv ops) (map json_span ss)) = (map (captured_of ops res) ss, None)"
  by (induction ss) (simp_all add: and_then_def push_span_def span_of_wire)

lemma resource_of_wire:
  "push_resource ops (resource_spans_jv ops (json_resource_spans x)) =
     (map (captured_of ops (attr_map_of ops (wr_attributes x))) (concat (wr_scopes x)), None)"
proof -
  let ?res = "attr_map_of ops (wr_attributes x)"
  have "resource_attributes ops (resource_spans_jv ops (json_resource_spans x)) = Inr ?res"
    by (simp add: resource_attributes_def resource_spans_jv_def json_resource_spans_def resource_jv_def attributes_of_pairs [simplified])
  moreover have "list_member (resource_spans_jv ops (json_resource_spans x)) ''scopeSpans'' =
      Inr (map (\<lambda>ss. obj [(''spans'', V_arr (map (span_jv ops) (map json_span ss)))]) (wr_scopes x))"
    by (simp add: list_member_def resource_spans_jv_def json_resource_spans_def comp_def)
  moreover have "for_each (\<lambda>s. attempt (list_member s ''spans'') (for_each (push_span ops ?res)))
      (map (\<lambda>ss. obj [(''spans'', V_arr (map (span_jv ops) (map json_span ss)))]) sss) =
      (map (captured_of ops ?res) (concat sss), None)" for sss
    by (induction sss) (simp_all add: and_then_def list_member_def spans_of_wire del: map_map)
  ultimately show ?thesis by (simp add: push_resource_def)
qed

lemma trace_of_wire: "pushed_spans ops (trace_jv ops \<lparr>tq_resourceSpans = map json_resource_spans xs\<rparr>) = (captured_spans_of ops xs, None)"
proof -
  have "for_each (push_resource ops) (map (resource_spans_jv ops) (map json_resource_spans xs)) = (captured_spans_of ops xs, None)"
    by (induction xs) (simp_all add: and_then_def resource_of_wire captured_spans_of_def)
  then show ?thesis by (simp add: pushed_spans_def list_member_def trace_jv_def)
qed

section \<open>Both transports capture what was shipped\<close>

text \<open>The chunk-wise check is the check of the whole length.\<close>

lemma over_limit_total: "n \<le> max_body_bytes \<Longrightarrow> over_limit n cs \<longleftrightarrow> max_body_bytes < n + length (concat cs)"
proof (induction cs arbitrary: n)
  case (Cons c cs)
  show ?case
  proof (cases "n + length c \<le> max_body_bytes")
    case True
    from Cons.IH [OF this] True show ?thesis by (simp add: add.assoc)
  qed simp
qed simp

lemma within_limit: "length (concat cs) \<le> max_body_bytes \<Longrightarrow> \<not> over_limit 0 cs"
  by (simp add: over_limit_total)

lemma decoded_trace:
  assumes "list_all resource_spans_ok xs" and "length (enc_trace xs) \<le> max_body_bytes"
  shows "decode_route ops Traces (enc_trace xs) = Some (Inr (trace_jv ops \<lparr>tq_resourceSpans = map json_resource_spans xs\<rparr>))"
  using trace_decoded [OF assms(1)] assms(2) by (simp add: decode_route_def max_body_bytes_def)

lemma ingest_trace:
  "ingest ops Traces (trace_jv ops \<lparr>tq_resourceSpans = map json_resource_spans xs\<rparr>) st =
     (st\<lparr>col_spans := col_spans st @ captured_spans_of ops xs\<rparr>, None)"
  by (simp add: ingest_def ingestTraces_def trace_of_wire Let_def)

lemma single_frame: "length p < 2 ^ 31 \<Longrightarrow> unframeMessages (frameMessage p) = Some (Inr [p])"
  using frames_round_trip [of "[p]"] by simp

lemma grpc_captures:
  assumes "list_all resource_spans_ok xs" and "length (enc_trace xs) + 5 \<le> max_body_bytes"
    and "concat frames = frameMessage (enc_trace xs)" and "starts_with ''application/grpc'' (map ascii_lower ct)"
  shows "handle_grpc ops \<lparr>gc_path = ''/opentelemetry.proto.collector.trace.v1.TraceService/Export'', gc_method = ''POST'',
           gc_contentType = ct, gc_chunks = frames\<rparr> st =
         Some (0, st\<lparr>col_spans := col_spans st @ captured_spans_of ops xs\<rparr>)"
proof -
  have "\<not> over_limit 0 frames"
    using assms(2,3) by (auto intro!: within_limit simp: frameMessage_def Let_def)
  moreover have "grpc_route ''/opentelemetry.proto.collector.trace.v1.TraceService/Export'' = Traces" by code_simp
  moreover have "decode_route ops Traces (enc_trace xs) = Some (Inr (trace_jv ops \<lparr>tq_resourceSpans = map json_resource_spans xs\<rparr>))"
    using assms(1,2) by (intro decoded_trace) simp_all
  moreover have "length (enc_trace xs) < 2 ^ 31" using assms(2) by (simp add: max_body_bytes_def)
  ultimately show ?thesis
    by (simp add: handle_grpc_def assms(3,4) single_frame ingest_trace del: list.map)
qed

lemma http_captures:
  assumes "list_all resource_spans_ok xs" and "length (enc_trace xs) \<le> max_body_bytes" and "concat chunks = enc_trace xs"
  shows "handle_http ops parse \<lparr>hp_method = ''POST'', hp_url = Some ''/v1/traces'',
           hp_contentType = Some ''application/x-protobuf'', hp_chunks = chunks\<rparr> st =
         Some (Answered 200 '''', st\<lparr>col_spans := col_spans st @ captured_spans_of ops xs\<rparr>)"
proof -
  have "has_sub ''application/x-protobuf'' (map ascii_lower ''application/x-protobuf'')"
    "http_route (Some ''/v1/traces'') = Traces" by code_simp+
  then show ?thesis
    by (simp add: handle_http_def within_limit assms(2,3) decoded_trace [OF assms(1,2)] ingest_trace finish_post_def del: list.map)
qed

text \<open>
  The collector captures what a host ships, whichever transport it uses: a trace export
  within the size limit, however it is cut into chunks, posted as protobuf over HTTP or as one gRPC
  message, is answered with success and appends exactly the spans of the export, in order, with the
  attributes of each span and of its resource.
\<close>

theorem transports_capture_alike:
  assumes "list_all resource_spans_ok xs" and "length (enc_trace xs) + 5 \<le> max_body_bytes"
    and "concat chunks = enc_trace xs" and "concat frames = frameMessage (enc_trace xs)"
  shows "handle_http ops parse \<lparr>hp_method = ''POST'', hp_url = Some ''/v1/traces'',
           hp_contentType = Some ''application/x-protobuf'', hp_chunks = chunks\<rparr> st =
         Some (Answered 200 '''', st\<lparr>col_spans := col_spans st @ captured_spans_of ops xs\<rparr>) \<and>
         handle_grpc ops \<lparr>gc_path = ''/opentelemetry.proto.collector.trace.v1.TraceService/Export'', gc_method = ''POST'',
           gc_contentType = ''application/grpc+proto'', gc_chunks = frames\<rparr> st =
         Some (0, st\<lparr>col_spans := col_spans st @ captured_spans_of ops xs\<rparr>)"
proof
  have "starts_with ''application/grpc'' (map ascii_lower ''application/grpc+proto'')" by code_simp
  then show "handle_grpc ops \<lparr>gc_path = ''/opentelemetry.proto.collector.trace.v1.TraceService/Export'', gc_method = ''POST'',
           gc_contentType = ''application/grpc+proto'', gc_chunks = frames\<rparr> st =
         Some (0, st\<lparr>col_spans := col_spans st @ captured_spans_of ops xs\<rparr>)"
    by (rule grpc_captures [OF assms(1,2,4)])
qed (use assms in \<open>simp add: http_captures\<close>)

section \<open>What a request can do to the collector\<close>

lemma decode_route_returns: "\<exists>x. decode_route ops rt buf = Some x"
  using trace_loop.fields_return [of "[]" "new_reader buf"] metrics_loop.fields_return [of "[]" "new_reader buf"]
  by (cases rt) (auto simp: decode_route_def decodeExportTraceServiceRequest_def decodeExportMetricsServiceRequest_def)

definition grown :: "'n collector \<Rightarrow> 'n collector \<Rightarrow> bool" where
  "grown st st' = (prefix (col_spans st) (col_spans st') \<and> prefix (col_metrics st) (col_metrics st'))"

lemma grown_refl [simp]: "grown st st"
  by (simp add: grown_def)

lemma grown_trans: "grown a b \<Longrightarrow> grown b c \<Longrightarrow> grown a c"
  by (auto simp: grown_def intro: prefix_order.trans)

lemma ingest_grows: "grown st (fst (ingest ops rt payload st))"
  by (cases rt) (simp_all add: ingest_def ingestTraces_def ingestMetrics_def Let_def grown_def)

lemma finish_post_grows: "grown st (snd (finish_post (ingest ops rt payload st)))"
  using ingest_grows [of st ops rt payload] by (simp add: finish_post_def split: option.splits)

lemma finish_post_status: "finish_post r = (Answered n e, st') \<Longrightarrow> n = 200"
  by (auto simp: finish_post_def split: option.splits)

text \<open>
  Every HTTP request that arrives comes to an end, captured telemetry is only ever added
  to, and a request answered with anything but 200 leaves the collector as it was.
\<close>

theorem refused_post_captures_nothing:
  "\<exists>answer st'. handle_http ops parse rq st = Some (answer, st') \<and> grown st st' \<and>
     (st' = st \<or> answer = Unanswered \<or> answer = Answered 200 '''')"
proof -
  have posted: "\<exists>answer st'. Some (finish_post (ingest ops rt payload st)) = Some (answer, st') \<and> grown st st' \<and>
      (st' = st \<or> answer = Unanswered \<or> answer = Answered 200 '''')" for rt payload
    using ingest_grows [of st ops rt payload] by (auto simp: finish_post_def split: option.splits)
  obtain x where "decode_route ops (http_route (hp_url rq)) (concat (hp_chunks rq)) = Some x"
    using decode_route_returns by blast
  then show ?thesis
    using posted by (auto simp: handle_http_def Let_def split: option.splits sum.splits)
qed

text \<open>
  An export of several gRPC messages is not all or nothing: the messages before the one that does not
  decode stay captured although the call is refused, so a host that sends the export again doubles them.
\<close>

theorem refused_call_keeps_spans:
  assumes "decode_route ops Traces bad = Some (Inl e)" and "list_all resource_spans_ok xs"
    and "length (frameMessage (enc_trace xs)) + length (frameMessage bad) \<le> max_body_bytes"
    and "concat frames = frameMessage (enc_trace xs) @ frameMessage bad"
  shows "handle_grpc ops \<lparr>gc_path = ''/opentelemetry.proto.collector.trace.v1.TraceService/Export'', gc_method = ''POST'',
           gc_contentType = ''application/grpc'', gc_chunks = frames\<rparr> st =
         Some (3, st\<lparr>col_spans := col_spans st @ captured_spans_of ops xs\<rparr>)"
proof -
  have fits: "\<not> over_limit 0 frames" using assms(3,4) by (intro within_limit) simp
  have sizes: "length (enc_trace xs) \<le> max_body_bytes" "length bad \<le> max_body_bytes"
    using assms(3) by (simp_all add: frameMessage_def Let_def)
  then have "unframeMessages (frameMessage (enc_trace xs) @ frameMessage bad) = Some (Inr [enc_trace xs, bad])"
    using frames_round_trip [of "[enc_trace xs, bad]"] by (simp add: max_body_bytes_def)
  moreover have "starts_with ''application/grpc'' (map ascii_lower ''application/grpc'')"
    "grpc_route ''/opentelemetry.proto.collector.trace.v1.TraceService/Export'' = Traces" by code_simp+
  ultimately show ?thesis
    by (simp add: handle_grpc_def fits assms(4) decoded_trace [OF assms(2) sizes(1)] ingest_trace assms(1) del: list.map)
qed

text \<open>
  A body that parses and is not an object can end the handler with a fault nobody catches: posting the
  JSON text \<open>null\<close> is never answered.
\<close>

theorem null_payload_unanswered:
  assumes "parse body = Some V_null" and "body \<noteq> []" and "length body \<le> max_body_bytes"
  shows "handle_http ops parse \<lparr>hp_method = ''POST'', hp_url = Some ''/v1/traces'', hp_contentType = Some ''application/json'',
           hp_chunks = [body]\<rparr> st = Some (Unanswered, st)"
proof -
  have "\<not> over_limit 0 [body]" using assms(3) by (simp add: over_limit_total)
  moreover have "\<not> has_sub ''application/x-protobuf'' (map ascii_lower ''application/json'')"
    "\<not> has_sub ''application/protobuf'' (map ascii_lower ''application/json'')"
    "has_sub ''application/json'' (map ascii_lower ''application/json'')" "http_route (Some ''/v1/traces'') = Traces"
    by code_simp+
  moreover have "ingest ops Traces V_null st = (st, Some Type_error)"
    by (simp add: ingest_def ingestTraces_def pushed_spans_def list_member_def read_member_def attempt_def)
  ultimately show ?thesis using assms(1,2) by (simp add: handle_http_def finish_post_def del: list.map)
qed

section \<open>Examples\<close>

definition int_otel :: "int otel_ops" where
  "int_otel = \<lparr>no_finite = no_finite int_ops, no_negZero = no_negZero int_ops, no_string = no_string int_ops,
     no_number = no_number int_ops, oo_Number = (\<lambda>s. foldl (\<lambda>n u. n * 10 + int u - 48) 0 s), oo_bits = uint, oo_truthy = (\<lambda>n. n \<noteq> 0)\<rparr>"

lemma example_trace_ok: "list_all resource_spans_ok example_trace"
  by (simp add: example_trace_def example_span_def resource_spans_ok_def span_ok_def pair_ok_def text_ok_def scalar_def)

lemma example_trace_length: "length (enc_trace example_trace) \<le> 200"
  by (simp add: example_trace_def example_span_def enc_trace_def enc_resource_spans_def enc_scope_def enc_span_def fixed_field_def
      wire_pair_def enc_pair_def utf8_bytes_def utf8_units_def wire_sizes)

theorem transports_capture_alike_witness:
  "handle_http int_otel (\<lambda>_. None) \<lparr>hp_method = ''POST'', hp_url = Some ''/v1/traces'',
     hp_contentType = Some ''application/x-protobuf'', hp_chunks = [enc_trace example_trace]\<rparr> new_collector =
   Some (Answered 200 '''', new_collector\<lparr>col_spans := col_spans new_collector @ captured_spans_of int_otel example_trace\<rparr>)"
proof -
  have "length (enc_trace example_trace) + 5 \<le> max_body_bytes"
    using example_trace_length by (simp add: max_body_bytes_def)
  from transports_capture_alike [OF example_trace_ok this, where ops = int_otel and st = new_collector
      and chunks = "[enc_trace example_trace]" and frames = "[frameMessage (enc_trace example_trace)]"]
  show ?thesis by simp
qed

theorem refused_call_keeps_spans_witness:
  "handle_grpc int_otel \<lparr>gc_path = ''/opentelemetry.proto.collector.trace.v1.TraceService/Export'', gc_method = ''POST'',
     gc_contentType = ''application/grpc'', gc_chunks = [frameMessage (enc_trace example_trace), frameMessage [128]]\<rparr> new_collector =
   Some (3, new_collector\<lparr>col_spans := col_spans new_collector @ captured_spans_of int_otel example_trace\<rparr>)"
proof -
  have more: "hasMore (new_reader [128])" by (simp add: hasMore_def new_reader_def)
  have "readVarint r = varint_loop (Suc (Suc 8)) 0 0 r" for r by (simp add: readVarint_def)
  then have "readVarint (new_reader [128]) = Inl Eof_in_varint"
    by (simp only: varint_loop.simps) (simp add: new_reader_def advance_def)
  then have "readTag (new_reader [128]) = Inl Eof_in_varint" by (simp add: readTag_def readVarintNumber_def)
  with more have bad: "decode_route int_otel Traces [128] = Some (Inl Eof_in_varint)"
    by (simp add: decode_route_def decodeExportTraceServiceRequest_def pb_fields.simps [of trace_step _ "new_reader [128]"])
  have "length (frameMessage (enc_trace example_trace)) + length (frameMessage [128]) \<le> max_body_bytes"
    using example_trace_length by (simp add: max_body_bytes_def frameMessage_def Let_def)
  from refused_call_keeps_spans [OF bad example_trace_ok this, where st = new_collector] show ?thesis by simp
qed

theorem null_payload_unanswered_witness:
  "handle_http int_otel (\<lambda>_. Some V_null) \<lparr>hp_method = ''POST'', hp_url = Some ''/v1/traces'', hp_contentType = Some ''application/json'',
     hp_chunks = [[110, 117, 108, 108]]\<rparr> new_collector = Some (Unanswered, new_collector)"
  by (rule null_payload_unanswered) (simp_all add: max_body_bytes_def)

end
