(* ===== verification/Canary_Scan.thy ===== *)
theory Canary_Scan
  imports Collector
begin

text \<open>
  The leak scan over captured telemetry (\<open>findCanaryLeakage\<close> of \<open>otel-collector.ts\<close>): where it looks, what
  it reports, and what a host can ship that it does not see.
\<close>

section \<open>The scan\<close>

fun includes_units :: "units \<Rightarrow> units \<Rightarrow> bool" where
  "includes_units [] c = (c = [])"
| "includes_units (u # us) c = (take (length c) (u # us) = c \<or> includes_units us c)"

text \<open>\<open>s.trim() === ''\<close>: the white space and line terminators of the language.\<close>

definition unit_space :: "nat \<Rightarrow> bool" where
  "unit_space u =
     (u \<in> {9, 10, 11, 12, 13, 0x20, 0xA0, 0x1680, 0x2028, 0x2029, 0x202F, 0x205F, 0x3000, 0xFEFF} \<or> (0x2000 \<le> u \<and> u \<le> 0x200A))"

definition blank :: "units \<Rightarrow> bool" where
  "blank c = list_all unit_space c"

text \<open>\<open>JSON.stringify\<close> of an attribute: a lone surrogate is escaped, a number that is not finite is \<open>null\<close>.\<close>

definition surrogate_escape :: "nat \<Rightarrow> units" where
  "surrogate_escape u = [0x5C, 0x75, hex_unit (u div 0x1000), hex_unit (u div 0x100 mod 16), hex_unit (u div 16 mod 16), hex_unit (u mod 16)]"

definition quote_unit :: "nat \<Rightarrow> units" where
  "quote_unit u = (if 0xD800 \<le> u \<and> u \<le> 0xDFFF then surrogate_escape u else escape_unit u)"

fun quote_units :: "units \<Rightarrow> units" where
  "quote_units (h # l # us) =
     (if 0xD800 \<le> h \<and> h \<le> 0xDBFF \<and> 0xDC00 \<le> l \<and> l \<le> 0xDFFF then h # l # quote_units us
      else quote_unit h @ quote_units (l # us))"
| "quote_units [u] = quote_unit u"
| "quote_units [] = []"

primrec attr_text :: "'n otel_ops \<Rightarrow> 'n attr \<Rightarrow> units" where
  "attr_text ops At_null = units_of ''null''"
| "attr_text ops (At_bool b) = units_of (if b then ''true'' else ''false'')"
| "attr_text ops (At_num n) =
     (if \<not> no_finite ops n then units_of ''null'' else if no_negZero ops n then units_of ''0'' else no_string ops n)"
| "attr_text ops (At_str s) = 0x22 # quote_units s @ [0x22]"
| "attr_text ops (At_arr as) = 0x5B # comma_join (map (attr_text ops) as) @ [0x5D]"

definition contains :: "'n otel_ops \<Rightarrow> units \<Rightarrow> 'n attr \<Rightarrow> units option" where
  "contains ops canary v =
     (let s = (case v of At_str s \<Rightarrow> s | _ \<Rightarrow> attr_text ops v) in if includes_units s canary then Some s else None)"

datatype surface = Span_name | Span_attribute | Span_resourceAttribute | Metric_attribute

record canary_leak =
  lk_surface :: surface
  lk_emitterName :: units
  lk_key :: "units option"
  lk_value :: units

definition surface_text :: "surface \<Rightarrow> string" where
  "surface_text s =
     (case s of Span_name \<Rightarrow> ''span.name'' | Span_attribute \<Rightarrow> ''span.attribute''
      | Span_resourceAttribute \<Rightarrow> ''span.resourceAttribute'' | Metric_attribute \<Rightarrow> ''metric.attribute'')"

definition bars :: "units list \<Rightarrow> units" where
  "bars parts = (case parts of [] \<Rightarrow> [] | p # ps \<Rightarrow> p @ concat (map (Cons 0x7C) ps))"

text \<open>A hit with its deduplication key; the resource key leaves the emitter out.\<close>

definition dedup_key :: "canary_leak \<Rightarrow> units" where
  "dedup_key l =
     (case (lk_surface l, lk_key l) of
        (Span_name, _) \<Rightarrow> bars [units_of (surface_text Span_name), lk_value l]
      | (Span_resourceAttribute, Some k) \<Rightarrow> bars [units_of (surface_text Span_resourceAttribute), k, lk_value l]
      | (s, Some k) \<Rightarrow> bars [units_of (surface_text s), lk_emitterName l, k, lk_value l]
      | (s, None) \<Rightarrow> [])"

definition match_attr :: "'n otel_ops \<Rightarrow> units \<Rightarrow> units \<times> 'n attr \<Rightarrow> units option" where
  "match_attr ops canary kv =
     (case contains ops canary (snd kv) of Some m \<Rightarrow> Some m
      | None \<Rightarrow> if includes_units (fst kv) canary then Some (fst kv) else None)"

definition attr_leaks :: "'n otel_ops \<Rightarrow> units \<Rightarrow> surface \<Rightarrow> units \<Rightarrow> 'n attr_map \<Rightarrow> canary_leak list" where
  "attr_leaks ops canary sf name as =
     concat (map (\<lambda>kv. case match_attr ops canary kv of None \<Rightarrow> []
       | Some m \<Rightarrow> [\<lparr>lk_surface = sf, lk_emitterName = name, lk_key = Some (fst kv), lk_value = m\<rparr>]) as)"

definition span_leaks :: "'n otel_ops \<Rightarrow> units \<Rightarrow> 'n captured_span \<Rightarrow> canary_leak list" where
  "span_leaks ops canary sp =
     (if includes_units (cap_name sp) canary
      then [\<lparr>lk_surface = Span_name, lk_emitterName = cap_name sp, lk_key = None, lk_value = cap_name sp\<rparr>] else []) @
     attr_leaks ops canary Span_attribute (cap_name sp) (cap_attributes sp) @
     attr_leaks ops canary Span_resourceAttribute (cap_name sp) (cap_resourceAttributes sp)"

definition metric_leaks :: "'n otel_ops \<Rightarrow> units \<Rightarrow> 'n captured_metric \<Rightarrow> canary_leak list" where
  "metric_leaks ops canary m = attr_leaks ops canary Metric_attribute (cam_name m) (cam_attributes m)"

text \<open>\<open>record\<close>, over the keys seen and the hits so far.\<close>

definition record_leak :: "canary_leak \<Rightarrow> units list \<times> canary_leak list \<Rightarrow> units list \<times> canary_leak list" where
  "record_leak l acc =
     (if dedup_key l \<in> set (fst acc) then acc else (dedup_key l # fst acc, snd acc @ [l]))"

definition findCanaryLeakage :: "'n otel_ops \<Rightarrow> units \<Rightarrow> 'n collector \<Rightarrow> canary_leak list" where
  "findCanaryLeakage ops canary st =
     (if blank canary then []
      else snd (fold record_leak
        (concat (map (span_leaks ops canary) (col_spans st)) @ concat (map (metric_leaks ops canary) (col_metrics st))) ([], [])))"

section \<open>What is reported\<close>

lemma includes_units_iff: "includes_units s c \<longleftrightarrow> (\<exists>a b. s = a @ c @ b)"
proof (induction s)
  case (Cons u us)
  have "take (length c) (u # us) = c \<longleftrightarrow> (\<exists>b. u # us = c @ b)"
    by (metis append_eq_conv_conj append_take_drop_id)
  moreover have "(\<exists>a b. u # us = a @ c @ b) \<longleftrightarrow> (\<exists>b. u # us = c @ b) \<or> (\<exists>a b. us = a @ c @ b)"
    by (auto simp: Cons_eq_append_conv)
  ultimately show ?case using Cons by simp
qed simp

lemma fold_record:
  assumes "fold record_leak ls (ks, hits) = (ks', hits')" and "set ks = dedup_key ` set hits" and "distinct (map dedup_key hits)"
  shows "set ks' = dedup_key ` set hits' \<and> distinct (map dedup_key hits') \<and> set hits \<subseteq> set hits' \<and> set hits' \<subseteq> set hits \<union> set ls \<and>
    dedup_key ` set hits' = dedup_key ` (set hits \<union> set ls)"
  using assms
proof (induction ls arbitrary: ks hits)
  case (Cons l ls)
  show ?case
  proof (cases "dedup_key l \<in> set ks")
    case True
    then have "record_leak l (ks, hits) = (ks, hits)" by (simp add: record_leak_def)
    with Cons.prems(1) have "fold record_leak ls (ks, hits) = (ks', hits')" by simp
    from Cons.IH [OF this Cons.prems(2,3)] True Cons.prems(2) show ?thesis by (auto simp: image_Un insert_absorb)
  next
    case False
    then have "record_leak l (ks, hits) = (dedup_key l # ks, hits @ [l])" by (simp add: record_leak_def)
    with Cons.prems(1) have "fold record_leak ls (dedup_key l # ks, hits @ [l]) = (ks', hits')" by simp
    from Cons.IH [OF this] False Cons.prems(2,3) show ?thesis by auto
  qed
qed auto

definition candidates :: "'n otel_ops \<Rightarrow> units \<Rightarrow> 'n collector \<Rightarrow> canary_leak list" where
  "candidates ops canary st =
     concat (map (span_leaks ops canary) (col_spans st)) @ concat (map (metric_leaks ops canary) (col_metrics st))"

lemma scan_reports:
  assumes "\<not> blank canary"
  shows "set (findCanaryLeakage ops canary st) \<subseteq> set (candidates ops canary st)"
    and "dedup_key ` set (findCanaryLeakage ops canary st) = dedup_key ` set (candidates ops canary st)"
    and "distinct (map dedup_key (findCanaryLeakage ops canary st))"
proof -
  obtain ks hits where f: "fold record_leak (candidates ops canary st) ([], []) = (ks, hits)" by fastforce
  from fold_record [OF f] show "set (findCanaryLeakage ops canary st) \<subseteq> set (candidates ops canary st)"
    "dedup_key ` set (findCanaryLeakage ops canary st) = dedup_key ` set (candidates ops canary st)"
    "distinct (map dedup_key (findCanaryLeakage ops canary st))"
    using assms f by (simp_all add: findCanaryLeakage_def candidates_def)
qed

lemma scan_empty_iff: "\<not> blank canary \<Longrightarrow> findCanaryLeakage ops canary st = [] \<longleftrightarrow> candidates ops canary st = []"
  using scan_reports(2) [of canary ops st] by (metis image_is_empty set_empty)

text \<open>The text an attribute value is searched in.\<close>

definition searched_text :: "'n otel_ops \<Rightarrow> 'n attr \<Rightarrow> units" where
  "searched_text ops v = (case v of At_str s \<Rightarrow> s | _ \<Rightarrow> attr_text ops v)"

lemma match_attr_iff:
  "match_attr ops c (k, v) = None \<longleftrightarrow> \<not> includes_units (searched_text ops v) c \<and> \<not> includes_units k c"
  by (auto simp: match_attr_def contains_def searched_text_def Let_def split: option.splits)

lemma attr_leaks_empty:
  "attr_leaks ops c sf name as = [] \<longleftrightarrow> (\<forall>(k, v) \<in> set as. \<not> includes_units (searched_text ops v) c \<and> \<not> includes_units k c)"
  by (auto simp: attr_leaks_def match_attr_iff [symmetric] split: option.splits)

definition mentions :: "'n otel_ops \<Rightarrow> units \<Rightarrow> 'n attr_map \<Rightarrow> bool" where
  "mentions ops c as = (\<exists>(k, v) \<in> set as. \<exists>a b. k = a @ c @ b \<or> searched_text ops v = a @ c @ b)"

lemma attr_leaks_mentions: "attr_leaks ops c sf name as = [] \<longleftrightarrow> \<not> mentions ops c as"
  unfolding attr_leaks_empty mentions_def includes_units_iff by blast

text \<open>
  The leak scan is a decision procedure: for a canary that is not blank it reports nothing
  exactly when the canary occurs in no captured span's name and in no key and no value of an
  attribute of a span, of its resource or of a metric's first data point.
\<close>

theorem leak_scan_decides:
  "findCanaryLeakage ops canary st = [] \<longleftrightarrow>
     blank canary \<or>
     ((\<forall>s \<in> set (col_spans st). (\<nexists>a b. cap_name s = a @ canary @ b) \<and>
         \<not> mentions ops canary (cap_attributes s) \<and> \<not> mentions ops canary (cap_resourceAttributes s)) \<and>
      (\<forall>m \<in> set (col_metrics st). \<not> mentions ops canary (cam_attributes m)))"
proof (cases "blank canary")
  case False
  have "span_leaks ops canary s = [] \<longleftrightarrow> (\<nexists>a b. cap_name s = a @ canary @ b) \<and>
      \<not> mentions ops canary (cap_attributes s) \<and> \<not> mentions ops canary (cap_resourceAttributes s)" for s
    by (simp add: span_leaks_def attr_leaks_mentions includes_units_iff)
  then show ?thesis using False by (simp add: scan_empty_iff candidates_def metric_leaks_def attr_leaks_mentions)
qed (simp add: findCanaryLeakage_def)
section \<open>From the wire to the report\<close>

lemma utf16_append [simp]: "utf16 (s @ t) = utf16 s @ utf16 t"
  by (simp add: utf16_def)

definition occurs :: "'a list \<Rightarrow> 'a list \<Rightarrow> bool" where
  "occurs c s = (\<exists>a b. s = a @ c @ b)"

lemma occurs_utf16: "occurs c s \<Longrightarrow> occurs (utf16 c) (utf16 s)"
  unfolding occurs_def by (metis utf16_append)

lemma occurs_context: "occurs c s \<Longrightarrow> occurs c (x @ s @ y)"
  unfolding occurs_def by (metis append.assoc)

text \<open>A character \<open>JSON.stringify\<close> prints as it is.\<close>

definition printed_plain :: "nat \<Rightarrow> bool" where
  "printed_plain u = (0x20 \<le> u \<and> u \<noteq> 0x22 \<and> u \<noteq> 0x5C \<and> scalar u)"

lemma quote_point: "scalar c \<Longrightarrow> quote_units (utf16_point c @ us) = (if c < 0x10000 then quote_unit c else utf16_point c) @ quote_units us"
proof (cases "c < 0x10000")
  case True
  assume "scalar c"
  with True show ?thesis by (cases us) (auto simp: utf16_point_def scalar_def)
next
  case False
  assume "scalar c"
  then have "c - 0x10000 < 0x100000" by (auto simp: scalar_def)
  then have "(c - 0x10000) div 0x400 < 0x400" by (simp add: less_mult_imp_div_less)
  moreover have "(c - 0x10000) mod 0x400 < 0x400" by simp
  ultimately have "0xD800 + (c - 0x10000) div 0x400 \<le> 0xDBFF" "0xDC00 + (c - 0x10000) mod 0x400 \<le> 0xDFFF" by linarith+
  with False show ?thesis by (simp only: utf16_point_def) simp
qed

lemma quote_units_append:
  "list_all scalar s \<Longrightarrow> quote_units (utf16 s @ us) = quote_units (utf16 s) @ quote_units us"
proof (induction s)
  case (Cons c s)
  then show ?case
    using quote_point [of c "utf16 s @ us"] quote_point [of c "utf16 s"] by (simp add: utf16_def)
qed (simp add: utf16_def)

lemma quote_plain: "list_all printed_plain c \<Longrightarrow> quote_units (utf16 c) = utf16 c"
proof (induction c)
  case (Cons u c)
  then have "quote_units (utf16_point u @ utf16 c) = utf16_point u @ utf16 c"
    using quote_point [of u "utf16 c"]
    by (auto simp: printed_plain_def quote_unit_def escape_unit_def utf16_point_def scalar_def)
  then show ?case by (simp add: utf16_def)
qed (simp add: utf16_def)

lemma occurs_quoted:
  assumes "list_all printed_plain c" and "list_all scalar s" and "occurs c s"
  shows "occurs (utf16 c) (quote_units (utf16 s))"
proof -
  obtain a b where s: "s = a @ c @ b" using assms(3) by (auto simp: occurs_def)
  have "list_all scalar c" using assms(2) s by simp
  then have "quote_units (utf16 s) = quote_units (utf16 a) @ utf16 c @ quote_units (utf16 b)"
    using assms(1,2) s by (simp add: quote_units_append quote_plain)
  then show ?thesis by (auto simp: occurs_def)
qed

text \<open>The string values a scan can see: strings, and strings inside arrays.\<close>

primrec exposes :: "js_text \<Rightarrow> wire_value \<Rightarrow> bool" where
  "exposes c (W_string s) = occurs c s"
| "exposes c (W_bool b) = False"
| "exposes c (W_int i) = False"
| "exposes c (W_double d) = False"
| "exposes c (W_array vs) = list_ex id (map (exposes c) vs)"
| "exposes c (W_kvlist kvs) = False"
| "exposes c (W_bytes bs) = False"

lemma occurs_concat: "t \<in> set ts \<Longrightarrow> occurs t (concat (map (Cons 0x2C) ts))"
proof (induction ts)
  case (Cons u ts)
  then consider "t = u" | "occurs t (concat (map (Cons 0x2C) ts))" by auto
  then show ?case
  proof cases
    case 1
    have "occurs t t" unfolding occurs_def by (rule exI [of _ "[]"], rule exI [of _ "[]"]) simp
    from occurs_context [OF this, of "[0x2C]"] show ?thesis using 1 by simp
  next
    case 2
    from occurs_context [OF this, of "0x2C # u" "[]"] show ?thesis by simp
  qed
qed simp

lemma comma_join_part: "t \<in> set ts \<Longrightarrow> \<exists>x y. comma_join ts = x @ t @ y"
proof (cases ts)
  case (Cons u us)
  assume "t \<in> set ts"
  then consider "t = u" | "occurs t (concat (map (Cons 0x2C) us))" using Cons occurs_concat by auto
  then show ?thesis
  proof cases
    case 1
    then have "comma_join ts = [] @ t @ concat (map (Cons 0x2C) us)" using Cons by (simp add: comma_join_def)
    then show ?thesis by blast
  next
    case 2
    from occurs_context [OF this, of u "[]"] show ?thesis using Cons by (simp add: comma_join_def occurs_def)
  qed
qed simp

lemma exposed_text:
  assumes "list_all printed_plain c" and "value_ok v" and "exposes c v"
  shows "occurs (utf16 c) (attr_text ops (attr_of ops v))"
  using assms(2,3)
proof (induction v)
  case (W_string s)
  then have "list_all scalar s" by (simp add: text_ok_def)
  with W_string have "occurs (utf16 c) (quote_units (utf16 s))" using assms(1) by (simp add: occurs_quoted)
  then show ?case using occurs_context [of _ _ "[0x22]" "[0x22]"] by simp
next
  case (W_array vs)
  then obtain v where v: "v \<in> set vs" "value_ok v" "exposes c v" by (auto simp: list_all_iff list_ex_iff)
  with W_array have "occurs (utf16 c) (attr_text ops (attr_of ops v))" by blast
  moreover have "attr_text ops (attr_of ops v) \<in> set (map (attr_text ops) (map (attr_of ops) vs))" using v(1) by simp
  ultimately have "occurs (utf16 c) (comma_join (map (attr_text ops) (map (attr_of ops) vs)))"
    using comma_join_part occurs_context by metis
  then show ?case using occurs_context [of _ _ "[0x5B]" "[0x5D]"] by simp
qed simp_all

lemma exposed_searched:
  assumes "list_all printed_plain c" and "value_ok v" and "exposes c v"
  shows "occurs (utf16 c) (searched_text ops (attr_of ops v))"
  using exposed_text [OF assms, of ops] assms(3) occurs_utf16 by (cases v) (auto simp: searched_text_def)

text \<open>A list of attributes that carries a text in sight: in a key, or in a value under a key of its own.\<close>

definition carries :: "js_text \<Rightarrow> (js_text \<times> wire_value) list \<Rightarrow> bool" where
  "carries c ps =
     ((\<exists>p \<in> set ps. occurs c (fst p)) \<or> (distinct (map (utf16 \<circ> fst) ps) \<and> (\<exists>p \<in> set ps. exposes c (snd p))))"

definition shipped_leak :: "js_text \<Rightarrow> wire_resource_spans list \<Rightarrow> bool" where
  "shipped_leak c xs =
     (\<exists>x \<in> set xs. \<exists>s \<in> set (concat (wr_scopes x)).
        occurs c (ws_name s) \<or> carries c (ws_attributes s) \<or> carries c (wr_attributes x))"

lemma attr_map_keys: "fst ` set (attr_map_of ops ps) = utf16 ` fst ` set ps"
proof -
  have "fst ` set (fold (\<lambda>p. AList.update (utf16 (fst p)) (attr_of ops (snd p))) ps m) = fst ` set m \<union> utf16 ` fst ` set ps" for m
    by (induction ps arbitrary: m) (auto simp: dom_update)
  from this [of "[]"] show ?thesis by (simp add: attr_map_of_def)
qed

lemma attr_map_distinct:
  assumes "distinct (map (utf16 \<circ> fst) ps)"
  shows "attr_map_of ops ps = map (\<lambda>p. (utf16 (fst p), attr_of ops (snd p))) ps"
proof -
  have "fold (\<lambda>p. AList.update (utf16 (fst p)) (attr_of ops (snd p))) ps m = m @ map (\<lambda>p. (utf16 (fst p), attr_of ops (snd p))) ps"
    if "distinct (map (utf16 \<circ> fst) ps)" "fst ` set m \<inter> utf16 ` fst ` set ps = {}" for m
    using that
  proof (induction ps arbitrary: m)
    case (Cons p ps)
    then have "AList.update (utf16 (fst p)) (attr_of ops (snd p)) m = m @ [(utf16 (fst p), attr_of ops (snd p))]"
      by (intro update_fresh) auto
    moreover have "fst ` set (m @ [(utf16 (fst p), attr_of ops (snd p))]) \<inter> utf16 ` fst ` set ps = {}"
      using Cons.prems by force
    ultimately show ?case using Cons by simp
  qed simp
  from this [of "[]"] assms show ?thesis by (simp add: attr_map_of_def)
qed

lemma mentions_occurs: "mentions ops c as \<longleftrightarrow> (\<exists>(k, v) \<in> set as. occurs c k \<or> occurs c (searched_text ops v))"
  unfolding mentions_def occurs_def by blast

lemma carried_mentioned:
  assumes "list_all printed_plain c" and "list_all pair_ok ps" and "carries c ps"
  shows "mentions ops (utf16 c) (attr_map_of ops ps)"
proof -
  consider p where "p \<in> set ps" "occurs c (fst p)"
    | p where "distinct (map (utf16 \<circ> fst) ps)" "p \<in> set ps" "exposes c (snd p)"
    using assms(3) by (auto simp: carries_def)
  then show ?thesis
  proof cases
    case 1
    then have "utf16 (fst p) \<in> fst ` set (attr_map_of ops ps)" by (simp add: attr_map_keys)
    with occurs_utf16 [OF 1(2)] show ?thesis by (fastforce simp: mentions_occurs)
  next
    case 2
    then have "occurs (utf16 c) (searched_text ops (attr_of ops (snd p)))"
      using assms(1,2) by (intro exposed_searched) (auto simp: list_all_iff pair_ok_def)
    with 2 show ?thesis by (force simp: mentions_occurs attr_map_distinct)
  qed
qed

lemma leak_captured:
  assumes "list_all printed_plain c" and "list_all resource_spans_ok xs" and "shipped_leak c xs" and "\<not> blank (utf16 c)"
  shows "findCanaryLeakage ops (utf16 c) (st\<lparr>col_spans := col_spans st @ captured_spans_of ops xs\<rparr>) \<noteq> []"
proof -
  obtain x s where x: "x \<in> set xs" "s \<in> set (concat (wr_scopes x))"
    and leak: "occurs c (ws_name s) \<or> carries c (ws_attributes s) \<or> carries c (wr_attributes x)"
    using assms(3) by (auto simp: shipped_leak_def)
  let ?s = "captured_of ops (attr_map_of ops (wr_attributes x)) s"
  have "?s \<in> set (captured_spans_of ops xs)" using x by (auto simp: captured_spans_of_def)
  moreover have "list_all pair_ok (ws_attributes s)" "list_all pair_ok (wr_attributes x)"
    using x assms(2) by (auto simp: list_all_iff resource_spans_ok_def span_ok_def)
  then have "occurs (utf16 c) (cap_name ?s) \<or> mentions ops (utf16 c) (cap_attributes ?s) \<or> mentions ops (utf16 c) (cap_resourceAttributes ?s)"
    using leak carried_mentioned [OF assms(1)] occurs_utf16 by (auto simp: captured_of_def)
  ultimately show ?thesis
    using assms(4) unfolding scan_empty_iff [OF assms(4)]
    by (auto simp: candidates_def span_leaks_def attr_leaks_mentions includes_units_iff occurs_def)
qed

text \<open>
  Claim C9: a leak that is shipped is reported. Whenever a host exports a span whose name, an
  attribute key or a string value (its own or its resource's, at any depth of arrays) contains a canary
  of printable characters, the collector answers success over gRPC however the bytes are cut, and the
  scan of what it captured names at least one leak.
\<close>

theorem shipped_leak_reported:
  assumes "list_all printed_plain c" and "\<not> blank (utf16 c)" and "shipped_leak c xs"
    and "list_all resource_spans_ok xs" and "length (enc_trace xs) + 5 \<le> max_body_bytes"
    and "concat frames = frameMessage (enc_trace xs)"
  shows "\<exists>st'. handle_grpc ops \<lparr>gc_path = ''/opentelemetry.proto.collector.trace.v1.TraceService/Export'', gc_method = ''POST'',
           gc_contentType = ''application/grpc'', gc_chunks = frames\<rparr> st = Some (0, st') \<and>
         findCanaryLeakage ops (utf16 c) st' \<noteq> []"
proof -
  have "starts_with ''application/grpc'' (map ascii_lower ''application/grpc'')" by code_simp
  from grpc_captures [OF assms(4-6) this] leak_captured [OF assms(1,4,3,2)] show ?thesis by blast
qed

text \<open>The values the reader does not know.\<close>

definition unread :: "wire_value \<Rightarrow> bool" where
  "unread v = (case v of W_kvlist kvs \<Rightarrow> True | W_bytes bs \<Rightarrow> True | _ \<Rightarrow> False)"

definition unread_span :: "js_text \<Rightarrow> wire_span \<Rightarrow> bool" where
  "unread_span c s = (\<not> occurs (utf16 c) (utf16 (ws_name s)) \<and> list_all (\<lambda>p. \<not> occurs (utf16 c) (utf16 (fst p)) \<and> unread (snd p)) (ws_attributes s))"

lemma unread_not_mentioned:
  assumes "list_all (\<lambda>p. \<not> occurs c (utf16 (fst p)) \<and> unread (snd p)) ps" and "\<not> occurs c (units_of ''null'')"
  shows "\<not> mentions ops c (attr_map_of ops ps)"
proof -
  have "\<forall>(k, v) \<in> set (fold (\<lambda>p. AList.update (utf16 (fst p)) (attr_of ops (snd p))) ps m). \<not> occurs c k \<and> v = At_null"
    if "\<forall>(k, v) \<in> set m. \<not> occurs c k \<and> v = At_null" for m
    using assms(1) that
  proof (induction ps arbitrary: m)
    case (Cons p ps)
    have "attr_of ops (snd p) = At_null" using Cons.prems(1) by (auto simp: unread_def split: wire_value.splits)
    moreover have "set (AList.update k v m) \<subseteq> insert (k, v) (set m)" for k and v :: "'a attr" by (induction m) auto
    ultimately have "\<forall>(k, v) \<in> set (AList.update (utf16 (fst p)) (attr_of ops (snd p)) m). \<not> occurs c k \<and> v = At_null"
      using Cons.prems by fastforce
    with Cons show ?case by simp
  qed simp
  from this [of "[]"] have "\<forall>(k, v) \<in> set (attr_map_of ops ps). \<not> occurs c k \<and> v = At_null" by (simp add: attr_map_of_def)
  then show ?thesis using assms(2) by (fastforce simp: mentions_occurs searched_text_def)
qed

text \<open>
  A value the reader does not know hides what it holds: when every attribute is a list of
  pairs or a byte string, no canary inside one is reported, whatever was shipped.
\<close>

theorem unread_leak_missed:
  assumes "list_all (\<lambda>x. list_all (\<lambda>p. \<not> occurs (utf16 c) (utf16 (fst p)) \<and> unread (snd p)) (wr_attributes x) \<and>
      list_all (unread_span c) (concat (wr_scopes x))) xs"
    and "\<not> occurs (utf16 c) (units_of ''null'')"
  shows "findCanaryLeakage ops (utf16 c) (new_collector\<lparr>col_spans := captured_spans_of ops xs\<rparr>) = []"
proof -
  have "(\<nexists>a b. cap_name s = a @ utf16 c @ b) \<and> \<not> mentions ops (utf16 c) (cap_attributes s) \<and> \<not> mentions ops (utf16 c) (cap_resourceAttributes s)"
    if "s \<in> set (captured_spans_of ops xs)" for s
  proof -
    obtain x ws where "x \<in> set xs" "ws \<in> set (concat (wr_scopes x))" and s: "s = captured_of ops (attr_map_of ops (wr_attributes x)) ws"
      using \<open>s \<in> set (captured_spans_of ops xs)\<close> by (auto simp: captured_spans_of_def)
    then have "unread_span c ws" "list_all (\<lambda>p. \<not> occurs (utf16 c) (utf16 (fst p)) \<and> unread (snd p)) (wr_attributes x)"
      using assms(1) by (auto simp: list_all_iff)
    then show ?thesis
      using unread_not_mentioned [OF _ assms(2), where ops = ops] by (simp add: s captured_of_def unread_span_def occurs_def)
  qed
  then have "candidates ops (utf16 c) (new_collector\<lparr>col_spans := captured_spans_of ops xs\<rparr>) = []"
    by (auto simp: candidates_def new_collector_def span_leaks_def attr_leaks_mentions includes_units_iff)
  then show ?thesis by (cases "blank (utf16 c)") (simp add: findCanaryLeakage_def, simp add: scan_empty_iff)
qed

section \<open>Examples\<close>

definition leaky_span :: wire_span where
  "leaky_span = \<lparr>ws_traceId = [1], ws_spanId = [2], ws_parent = [], ws_name = [0x6E], ws_start = 1, ws_end = 2,
     ws_attributes = [([0x61], W_array [W_int 7, W_string [0x78, 0x73, 0x6B, 0x79]])]\<rparr>"

definition leaky_trace :: "wire_resource_spans list" where
  "leaky_trace = [\<lparr>wr_attributes = [], wr_scopes = [[leaky_span]]\<rparr>]"

lemma leaky_trace_facts:
  "list_all resource_spans_ok leaky_trace" "length (enc_trace leaky_trace) \<le> 200" "shipped_leak [0x73, 0x6B] leaky_trace"
proof -
  show "list_all resource_spans_ok leaky_trace"
    by (simp add: leaky_trace_def leaky_span_def resource_spans_ok_def span_ok_def pair_ok_def text_ok_def scalar_def)
  show "length (enc_trace leaky_trace) \<le> 200"
    by (simp add: leaky_trace_def leaky_span_def enc_trace_def enc_resource_spans_def enc_scope_def enc_span_def fixed_field_def
      wire_pair_def enc_pair_def utf8_bytes_def utf8_units_def wire_sizes)
  have "occurs [0x73, 0x6B] ([0x78] @ [0x73, 0x6B] @ [0x79 :: nat])" unfolding occurs_def by blast
  then show "shipped_leak [0x73, 0x6B] leaky_trace"
    by (simp add: shipped_leak_def leaky_trace_def leaky_span_def carries_def)
qed

theorem shipped_leak_reported_witness:
  "\<exists>st'. handle_grpc int_otel \<lparr>gc_path = ''/opentelemetry.proto.collector.trace.v1.TraceService/Export'', gc_method = ''POST'',
     gc_contentType = ''application/grpc'', gc_chunks = [frameMessage (enc_trace leaky_trace)]\<rparr> new_collector = Some (0, st') \<and>
   findCanaryLeakage int_otel (utf16 [0x73, 0x6B]) st' \<noteq> []"
proof (rule shipped_leak_reported [OF _ _ leaky_trace_facts(3,1)])
  show "list_all printed_plain [0x73, 0x6B]" by (simp add: printed_plain_def scalar_def)
  show "\<not> blank (utf16 [0x73, 0x6B])" by (simp add: blank_def unit_space_def utf16_def utf16_point_def)
  show "length (enc_trace leaky_trace) + 5 \<le> max_body_bytes" using leaky_trace_facts(2) by (simp add: max_body_bytes_def)
qed simp

definition hidden_trace :: "wire_resource_spans list" where
  "hidden_trace = [\<lparr>wr_attributes = [], wr_scopes = [[leaky_span\<lparr>ws_attributes := [([0x61], W_kvlist [([0x61], W_string [0x73, 0x6B])])]\<rparr>]]\<rparr>]"

theorem unread_leak_missed_witness:
  "findCanaryLeakage int_otel (utf16 [0x73, 0x6B]) (new_collector\<lparr>col_spans := captured_spans_of int_otel hidden_trace\<rparr>) = []"
  by (rule unread_leak_missed)
    (simp_all add: hidden_trace_def leaky_span_def unread_span_def unread_def occurs_def utf16_def utf16_point_def units_of_def Cons_eq_append_conv)

theorem leak_scan_decides_witness:
  "\<not> (\<forall>s \<in> set (col_spans (new_collector\<lparr>col_spans := captured_spans_of int_otel leaky_trace\<rparr>)).
       (\<nexists>a b. cap_name s = a @ [0x6E] @ b) \<and> \<not> mentions int_otel [0x6E] (cap_attributes s) \<and> \<not> mentions int_otel [0x6E] (cap_resourceAttributes s))"
proof -
  have "findCanaryLeakage int_otel [0x6E] (new_collector\<lparr>col_spans := captured_spans_of int_otel leaky_trace\<rparr>) \<noteq> []"
    by (simp add: findCanaryLeakage_def blank_def unit_space_def new_collector_def captured_spans_of_def leaky_trace_def leaky_span_def
        captured_of_def span_leaks_def utf16_def utf16_point_def attr_map_of_def attr_leaks_def record_leak_def match_attr_def contains_def
        Let_def quote_unit_def escape_unit_def comma_join_def int_otel_def int_ops_def units_of_def int_str_def)
  then show ?thesis
    unfolding leak_scan_decides by (simp add: new_collector_def)
qed

end
