(* ===== verification/Recorder.thy ===== *)
theory Recorder
  imports Disposition
begin

text \<open>
  The recording hooks of a suite worker (\<open>setup.ts\<close>, with the two note channels of
  \<open>row-observation.ts\<close> and \<open>durability-evidence.ts\<close>): what happens before and after every test and
  after every file. The module-level maps of the hooks, the ledger, the soft-skip notes and the
  explicit-id state are one record. What vitest hands a hook (the task, its result, the assertion
  count) is an argument; a hook's \<open>try ... catch {}\<close> around the ledger is \<open>record_quietly\<close>.
\<close>

section \<open>Data\<close>

record registry_record =
  rr_file :: string
  rr_title :: string
  rr_explicitId :: "string option"

record recorder_env =
  re_writable :: "string \<Rightarrow> bool"
  re_sink :: "string option"
  re_targetMajor :: nat
  re_scenarioMajors :: "(string \<times> nat list) list"
  re_registry :: "registry_record list"
  re_corpusGate :: bool
  re_coherence :: "string list"
  re_floorFiles :: "string list"

record recorder_state =
  rc_states :: "(string \<times> test_state list) list"
  rc_assertions :: "(string \<times> nat) list"
  rc_failures :: "(string \<times> test_failure list) list"
  rc_recorded :: "(string \<times> string list) list"
  rc_ledgerMarks :: "(string \<times> nat) list"
  rc_allocators :: "(string \<times> (string \<times> nat) list) list"
  rc_itMarks :: "(string \<times> nat) list"
  rc_itSoftSkipMarks :: "(string \<times> nat) list"
  rc_ledger :: ledger_state
  rc_skips :: skip_state
  rc_ids :: it_state
  rc_evidence :: "jobject option"
  rc_observation :: "string option"

record test_task =
  tk_id :: string
  tk_name :: string
  tk_filepath :: "string option"
  tk_filename :: "string option"
  tk_state :: "string option"
  tk_error :: "string option"
  tk_calls :: nat

definition get_or :: "(string \<times> 'a) list \<Rightarrow> string \<Rightarrow> 'a \<Rightarrow> 'a" where
  "get_or m k d = (case map_of m k of None \<Rightarrow> d | Some v \<Rightarrow> v)"

definition fileOf :: "string option \<Rightarrow> string option \<Rightarrow> string option" where
  "fileOf filepath filename =
     (case (case filepath of Some p \<Rightarrow> Some p | None \<Rightarrow> filename) of
        None \<Rightarrow> None
      | Some f \<Rightarrow> if f = [] then None else Some (path_basename f))"

definition task_file :: "test_task \<Rightarrow> string option" where
  "task_file t = fileOf (tk_filepath t) (tk_filename t)"

text \<open>The explicit ids of \<open>requirements.json\<close>; of two records with one key the later counts.\<close>

definition registry_key :: "string \<Rightarrow> string \<Rightarrow> string" where
  "registry_key file' title = file' @ CHR 0x00 # title"

definition registry_map :: "registry_record list \<Rightarrow> (string \<times> string) list" where
  "registry_map records =
     foldl (\<lambda>m r. case rr_explicitId r of
                  Some i \<Rightarrow> if starts_with ''openwop.requirement.'' i then AList.update (registry_key (rr_file r) (rr_title r)) i m else m
                | None \<Rightarrow> m) [] records"

definition registeredExplicitId :: "registry_record list \<Rightarrow> string \<Rightarrow> string \<Rightarrow> string option" where
  "registeredExplicitId records file' title = map_of (registry_map records) (registry_key file' title)"

text \<open>A task of the runner; \<open>tn_test\<close> holds the id of a test, and the walk is in document order.\<close>

datatype task_node = Task_node (tn_test: "string option") (tn_name: string) (tn_state: "string option")
  (tn_messages: "string option list") (tn_tasks: "task_node list")

definition first_message :: "string option list \<Rightarrow> string option" where
  "first_message ms = (case ms of m # _ \<Rightarrow> m | [] \<Rightarrow> None)"

fun finishedTests :: "task_node \<Rightarrow> finished_test list" where
  "finishedTests (Task_node i n s ms ts) =
     (case i of Some k \<Rightarrow> [\<lparr>ft_id = k, ft_name = n, ft_state = s, ft_message = first_message ms\<rparr>] | None \<Rightarrow> []) @
     concat (map finishedTests ts)"

text \<open>\<open>/[\\/]src[\\/](scenarios|coherence)[\\/]/.test(filepath)\<close>\<close>

definition in_scenarios :: "string \<Rightarrow> bool" where
  "in_scenarios p =
     (\<exists>a \<in> set [CHR ''/'', CHR 0x5C]. \<exists>b \<in> set [CHR ''/'', CHR 0x5C]. \<exists>c \<in> set [CHR ''/'', CHR 0x5C].
      \<exists>d \<in> set [''scenarios'', ''coherence'']. has_sub (a # ''src'' @ b # d @ [c]) p)"

definition state_of :: "string option \<Rightarrow> test_state" where
  "state_of s = (if s = Some ''pass'' then Test_pass else if s = Some ''fail'' then Test_fail else Test_skip)"

section \<open>Notes that ride on a row\<close>

definition observation_prefix :: string where
  "observation_prefix = ''observed: ''"

text \<open>The separator is the code's, its middle dot being code unit 183.\<close>

definition dot_sep :: string where
  "dot_sep = '' '' @ [CHR 183] @ '' ''"

definition noteObservation :: "string \<Rightarrow> recorder_state \<Rightarrow> recorder_state" where
  "noteObservation txt st =
     (let t = js_trim txt in
      if t = [] then st
      else st\<lparr>rc_observation := Some (case rc_observation st of None \<Rightarrow> t | Some p \<Rightarrow> p @ dot_sep @ t)\<rparr>)"

definition takeNotedObservation :: "recorder_state \<Rightarrow> string option \<times> recorder_state" where
  "takeNotedObservation st = (rc_observation st, st\<lparr>rc_observation := None\<rparr>)"

definition attachObservation :: "string option \<Rightarrow> string option \<Rightarrow> string option" where
  "attachObservation detail observation =
     (case observation of
        None \<Rightarrow> detail
      | Some n \<Rightarrow>
          if js_trim n = [] then detail
          else if js_trim (or_default detail []) = [] then Some (observation_prefix @ n)
          else Some (or_default detail [] @ dot_sep @ observation_prefix @ n))" 

definition noteEvidence :: "jobject \<Rightarrow> recorder_state \<Rightarrow> recorder_state" where
  "noteEvidence ev st =
     st\<lparr>rc_evidence := Some (js_assign ((case rc_evidence st of None \<Rightarrow> [] | Some p \<Rightarrow> p) @ ev))\<rparr>"

definition takeNotedEvidence :: "recorder_state \<Rightarrow> jobject option \<times> recorder_state" where
  "takeNotedEvidence st = (rc_evidence st, st\<lparr>rc_evidence := None\<rparr>)"

section \<open>Before a test\<close>

definition record_quietly ::
  "recorder_env \<Rightarrow> string \<Rightarrow> disposition \<Rightarrow> string option \<Rightarrow> extras \<Rightarrow> recorder_state \<Rightarrow> recorder_state" where
  "record_quietly env i d detail ex st =
     (case recordRequirement (re_writable env) (re_sink env) i d detail ex (rc_ledger st) of
        Inl e \<Rightarrow> st
      | Inr l \<Rightarrow> st\<lparr>rc_ledger := l\<rparr>)"

definition lane_detail :: "nat list \<Rightarrow> nat \<Rightarrow> string" where
  "lane_detail majors lane =
     ''registered for target major '' @ join ''/'' (map nat_digits majors) @ '' and this lane runs at major '' @ nat_digits lane @
     '' (OPENWOP_TARGET_MAJOR) : the probe would go out under a contract the scenario's gate does not use; select files with --target-major or set the variable''"

text \<open>The lane check; true when it skips the test.\<close>

definition lane_check :: "recorder_env \<Rightarrow> string option \<Rightarrow> recorder_state \<Rightarrow> bool \<times> recorder_state" where
  "lane_check env testPath st =
     (case currentFile testPath of
        None \<Rightarrow> (False, st)
      | Some file \<Rightarrow>
          (case map_of (re_scenarioMajors env) file of
             None \<Rightarrow> (False, st)
           | Some majors \<Rightarrow>
               if re_targetMajor env \<in> set majors then (False, st)
               else
                 let detail = lane_detail majors (re_targetMajor env);
                     st = record_quietly env ''openwop.family.lane-target-major'' Inapplicable (Some detail)
                            (no_extras\<lparr>ex_scenarioFile := Some file\<rparr>) st
                 in (True, st\<lparr>rc_skips := softSkip testPath Note_inapplicable detail (rc_skips st)\<rparr>)))"

definition before_all :: "string option \<Rightarrow> recorder_state \<Rightarrow> recorder_state" where
  "before_all file st =
     (case file of
        None \<Rightarrow> st
      | Some f \<Rightarrow>
          if map_of (rc_ledgerMarks st) f = None
          then st\<lparr>rc_ledgerMarks := AList.update f (journalLength (rc_ledger st)) (rc_ledgerMarks st)\<rparr> else st)"

definition before_each :: "test_task \<Rightarrow> recorder_state \<Rightarrow> recorder_state" where
  "before_each t st =
     (case task_file t of
        None \<Rightarrow> st
      | Some f \<Rightarrow>
          st\<lparr>rc_itMarks := AList.update f (journalLength (rc_ledger st)) (rc_itMarks st),
             rc_itSoftSkipMarks := AList.update f (softSkipMark (rc_skips st)) (rc_itSoftSkipMarks st),
             rc_ids := snd (takeExplicitRequirementId (rc_ids st))\<rparr>)"

section \<open>After a test\<close>

definition add_member :: "string \<Rightarrow> string list \<Rightarrow> string list" where
  "add_member x xs = (if x \<in> set xs then xs else xs @ [x])"

definition collect_test :: "test_task \<Rightarrow> string \<Rightarrow> recorder_state \<Rightarrow> recorder_state" where
  "collect_test t file st =
     st\<lparr>rc_ledgerMarks := (if map_of (rc_ledgerMarks st) file = None then AList.update file 0 (rc_ledgerMarks st) else rc_ledgerMarks st),
        rc_recorded := AList.update file (add_member (tk_id t) (get_or (rc_recorded st) file [])) (rc_recorded st),
        rc_states := AList.update file (get_or (rc_states st) file [] @ [state_of (tk_state t)]) (rc_states st),
        rc_failures :=
          (if tk_state t = Some ''fail''
           then AList.update file (get_or (rc_failures st) file [] @ [\<lparr>tf_name = tk_name t, tf_message = tk_error t\<rparr>]) (rc_failures st)
           else rc_failures st),
        rc_assertions := AList.update file (get_or (rc_assertions st) file 0 + tk_calls t) (rc_assertions st)\<rparr>"

definition it_id :: "recorder_env \<Rightarrow> test_task \<Rightarrow> string \<Rightarrow> recorder_state \<Rightarrow> string \<times> recorder_state" where
  "it_id env t file st =
     (let (taken, ids) = takeExplicitRequirementId (rc_ids st);
          explicit = (case taken of Some i \<Rightarrow> Some i | None \<Rightarrow> registeredExplicitId (re_registry env) file (tk_name t));
          seen = get_or (rc_allocators st) file []
      in case explicit of
           Some i \<Rightarrow> (i, st\<lparr>rc_ids := ids, rc_allocators := AList.update file seen (rc_allocators st)\<rparr>)
         | None \<Rightarrow>
             let (i, ids') = allocate file (tk_name t) (ids\<lparr>it_seen := seen\<rparr>)
             in (i, st\<lparr>rc_ids := ids, rc_allocators := AList.update file (it_seen ids') (rc_allocators st)\<rparr>))"

definition window_gate :: "ledger_entry list \<Rightarrow> (gate_reason \<times> string option) option" where
  "window_gate since =
     (case List.find (\<lambda>e. le_disposition e = Inapplicable) since of
        Some e \<Rightarrow> Some (Gate_inapplicable, le_detail e)
      | None \<Rightarrow>
          (case List.find (\<lambda>e. le_disposition e = Skipped) since of
             Some e \<Rightarrow> Some (Gate_skipped, le_detail e)
           | None \<Rightarrow> None))"

definition coherence_file :: "recorder_env \<Rightarrow> string \<Rightarrow> bool" where
  "coherence_file env file = (\<not> re_corpusGate env \<and> (file \<in> set (re_coherence env) \<or> fileStem file \<in> set (re_coherence env)))"

definition resolve_it :: "recorder_env \<Rightarrow> test_task \<Rightarrow> string \<Rightarrow> recorder_state \<Rightarrow> disposition \<times> string option" where
  "resolve_it env t file st =
     (if coherence_file env file then (Inapplicable, Some spec_coherence_detail)
      else
        resolveItRecord (state_of (tk_state t)) (tk_calls t)
          (window_gate (journalSince (get_or (rc_itMarks st) file 0) (rc_ledger st)))
          (softSkipDispositionSince (rc_skips st) file (get_or (rc_itSoftSkipMarks st) file 0))
          (tk_error t) (re_targetMajor env = 2) (Some (tk_name t)))"

definition record_it :: "recorder_env \<Rightarrow> test_task \<Rightarrow> string \<Rightarrow> recorder_state \<Rightarrow> recorder_state" where
  "record_it env t file st =
     (let (i, st) = it_id env t file st;
          (d, detail) = resolve_it env t file st;
          (observation, st) = takeNotedObservation st;
          (evidence, st) = takeNotedEvidence st
      in record_quietly env i d (attachObservation detail observation)
           \<lparr>ex_assertionCount = Some (int (tk_calls t)), ex_scenarioFile = Some file,
            ex_evidence = map_option JObj evidence, ex_fold = True\<rparr> st)"

definition after_each :: "recorder_env \<Rightarrow> test_task \<Rightarrow> recorder_state \<Rightarrow> recorder_state" where
  "after_each env t st =
     (case task_file t of
        None \<Rightarrow> st
      | Some file \<Rightarrow>
          let st = collect_test t file st in
          if \<not> ends_with ''.test.ts'' file then st
          else if \<not> in_scenarios (or_default (tk_filepath t) [])
          then snd (takeNotedObservation (st\<lparr>rc_ids := snd (takeExplicitRequirementId (rc_ids st))\<rparr>))
          else record_it env t file st)"

section \<open>After a file\<close>

definition file_gate :: "ledger_entry list \<Rightarrow> gate_reason option" where
  "file_gate since =
     (if \<exists>e \<in> set since. le_disposition e = Inapplicable then Some Gate_inapplicable
      else if \<exists>e \<in> set since. le_disposition e = Skipped then Some Gate_skipped else None)"

definition resolve_file :: "recorder_env \<Rightarrow> string \<Rightarrow> finished_test list \<Rightarrow> recorder_state \<Rightarrow> disposition \<times> string option" where
  "resolve_file env file finished st =
     (let (hiddenStates, hiddenFailures) = unrecordedTests finished (get_or (rc_recorded st) file [])
      in resolveFileRecord (re_coherence env) (re_corpusGate env)
           (get_or (rc_states st) file [] @ hiddenStates)
           (file_gate (journalSince (get_or (rc_ledgerMarks st) file 0) (rc_ledger st)))
           (get_or (rc_assertions st) file 0) (softSkipDisposition (rc_skips st) file) (Some file)
           (get_or (rc_failures st) file [] @ hiddenFailures))"

definition forget_file :: "string \<Rightarrow> recorder_state \<Rightarrow> recorder_state" where
  "forget_file file st =
     st\<lparr>rc_states := AList.delete file (rc_states st), rc_assertions := AList.delete file (rc_assertions st),
        rc_failures := AList.delete file (rc_failures st), rc_recorded := AList.delete file (rc_recorded st),
        rc_ledgerMarks := AList.delete file (rc_ledgerMarks st), rc_allocators := AList.delete file (rc_allocators st),
        rc_itMarks := AList.delete file (rc_itMarks st)\<rparr>"

definition after_all :: "recorder_env \<Rightarrow> string option \<Rightarrow> task_node \<Rightarrow> recorder_state \<Rightarrow> recorder_state" where
  "after_all env file suite st =
     (case file of
        None \<Rightarrow> st
      | Some f \<Rightarrow>
          if \<not> ends_with ''.test.ts'' f then st
          else
            let (d, detail) = resolve_file env f (finishedTests suite) st; i = requirementIdForFile (re_floorFiles env) f;
                st = (if hasRequirement (rc_ledger st) i then st
                      else record_quietly env i d detail
                             \<lparr>ex_assertionCount = Some (int (get_or (rc_assertions st) f 0)), ex_scenarioFile = Some f,
                              ex_evidence = None, ex_fold = False\<rparr> st)
            in forget_file f st)"

section \<open>A worker\<close>

text \<open>
  What the body of a test does to the recorder, and a worker's run as a list of hook calls. The ledger's own
  tests also empty the ledger and the notes, record to a scratch path they put in the environment, and
  suspend and restore the sink; another worker of the run appends its rows to the same file.
\<close>

datatype recorder_event =
    Before_all "string option"
  | Before_each test_task
  | Body_skip "string option \<times> skip_call"
  | Body_record string disposition "string option" extras
  | Body_req string string string
  | Body_evidence jobject
  | Body_observe string
  | Body_scratch "string option" string disposition "string option" extras
  | Body_reset
  | Body_forget
  | Body_suspend
  | Body_restore
  | Other_worker string ledger_entry
  | Lane_check "string option"
  | After_each test_task
  | After_all "string option" task_node

definition other_row :: "recorder_env \<Rightarrow> string \<Rightarrow> ledger_entry \<Rightarrow> ledger_state \<Rightarrow> ledger_state" where
  "other_row env path e l = l\<lparr>ls_files := append_line (re_writable env) path (Parsed (entry_json e)) (ls_files l)\<rparr>"

definition recorder_step :: "recorder_env \<Rightarrow> bool \<Rightarrow> recorder_state \<Rightarrow> recorder_event \<Rightarrow> recorder_state" where
  "recorder_step env strict st e =
     (case e of
        Before_all f \<Rightarrow> before_all f st
      | Before_each t \<Rightarrow> before_each t st
      | Body_skip c \<Rightarrow> st\<lparr>rc_skips := run_call strict (rc_skips st) c\<rparr>
      | Body_record i d detail ex \<Rightarrow> record_quietly env i d detail ex st
      | Body_req i sec r \<Rightarrow> st\<lparr>rc_ids := snd (req None None i sec r (rc_ids st))\<rparr>
      | Body_evidence ev \<Rightarrow> noteEvidence ev st
      | Body_observe s \<Rightarrow> noteObservation s st
      | Body_scratch p i d detail ex \<Rightarrow> record_quietly (env\<lparr>re_sink := p\<rparr>) i d detail ex st
      | Body_reset \<Rightarrow> st\<lparr>rc_ledger := resetLedger (rc_ledger st)\<rparr>
      | Body_forget \<Rightarrow> st\<lparr>rc_skips := resetSoftSkips (rc_skips st)\<rparr>
      | Body_suspend \<Rightarrow> st\<lparr>rc_ledger := suspendSinkForFixtures (re_sink env) (rc_ledger st)\<rparr>
      | Body_restore \<Rightarrow> st\<lparr>rc_ledger := restoreSink (rc_ledger st)\<rparr>
      | Other_worker path row \<Rightarrow> st\<lparr>rc_ledger := other_row env path row (rc_ledger st)\<rparr>
      | Lane_check p \<Rightarrow> snd (lane_check env p st)
      | After_each t \<Rightarrow> after_each env t st
      | After_all f suite \<Rightarrow> after_all env f suite st)"

section \<open>The ledger through the hooks\<close>

text \<open>A successful record sets the row of one requirement to the worse of its old and new disposition.\<close>

lemma recorded_row:
  assumes "recordRequirement w s i d detail ex l = Inr l'"
  shows "hasRequirement l' j \<longleftrightarrow> j = i \<or> hasRequirement l j"
    and "dispositionOf l' j =
      (if j = i then (if hasRequirement l i then min (dispositionOf l i) d else d) else dispositionOf l j)"
proof -
  obtain e where e: "ls_ledger l' = AList.update i e (ls_ledger l)"
      "le_disposition e = (if hasRequirement l i then min (dispositionOf l i) d else d)"
    using assms
    by (auto simp: recordRequirement_def Let_def hasRequirement_def dispositionOf_def make_entry_def
        split: option.splits if_splits)
  show "hasRequirement l' j \<longleftrightarrow> j = i \<or> hasRequirement l j"
    using e by (simp add: hasRequirement_def update_conv')
  show "dispositionOf l' j = (if j = i then (if hasRequirement l i then min (dispositionOf l i) d else d) else dispositionOf l j)"
    using e by (simp add: dispositionOf_def update_conv')
qed

lemma record_succeeds:
  assumes "has_reason d detail" and "ex_fold ex \<or> \<not> hasRequirement l i"
  shows "\<exists>l'. recordRequirement w s i d detail ex l = Inr l'"
  using assms by (cases "map_of (ls_ledger l) i") (simp_all add: recordRequirement_def Let_def hasRequirement_def)

text \<open>One ledger extends another: no row is lost and none becomes more certifiable.\<close>

definition worsened :: "ledger_state \<Rightarrow> ledger_state \<Rightarrow> bool" where
  "worsened l l' = (\<forall>i. hasRequirement l i \<longrightarrow> hasRequirement l' i \<and> dispositionOf l' i \<le> dispositionOf l i)"

lemma worsened_refl [intro, simp]: "worsened l l"
  by (simp add: worsened_def)

lemma worsened_trans: "worsened a b \<Longrightarrow> worsened b c \<Longrightarrow> worsened a c"
  unfolding worsened_def by (meson order_trans)

lemma worsened_recorded: "recordRequirement w s i d detail ex l = Inr l' \<Longrightarrow> worsened l l'"
  by (simp add: worsened_def recorded_row)

lemma worsened_quietly [simp]: "worsened (rc_ledger st) (rc_ledger (record_quietly env i d detail ex st))"
  by (auto simp: record_quietly_def split: sum.split intro: worsened_recorded)

lemma quietly_row:
  assumes "has_reason d detail" and "ex_fold ex \<or> \<not> hasRequirement (rc_ledger st) i"
  shows "hasRequirement (rc_ledger (record_quietly env i d detail ex st)) j \<longleftrightarrow> j = i \<or> hasRequirement (rc_ledger st) j"
    and "dispositionOf (rc_ledger (record_quietly env i d detail ex st)) j =
      (if j = i then (if hasRequirement (rc_ledger st) i then min (dispositionOf (rc_ledger st) i) d else d)
       else dispositionOf (rc_ledger st) j)"
proof -
  obtain l' where "recordRequirement (re_writable env) (re_sink env) i d detail ex (rc_ledger st) = Inr l'"
    using record_succeeds [OF assms] by blast
  then show "hasRequirement (rc_ledger (record_quietly env i d detail ex st)) j \<longleftrightarrow> j = i \<or> hasRequirement (rc_ledger st) j"
    and "dispositionOf (rc_ledger (record_quietly env i d detail ex st)) j =
      (if j = i then (if hasRequirement (rc_ledger st) i then min (dispositionOf (rc_ledger st) i) d else d)
       else dispositionOf (rc_ledger st) j)"
    by (simp_all add: record_quietly_def recorded_row)
qed

lemma quietly_pass:
  assumes "dispositionOf (rc_ledger (record_quietly env i d detail ex st)) j = Executed_pass"
    and "dispositionOf (rc_ledger st) j \<noteq> Executed_pass"
  shows "j = i \<and> d = Executed_pass"
proof (cases "recordRequirement (re_writable env) (re_sink env) i d detail ex (rc_ledger st)")
  case (Inr l')
  with assms show ?thesis
    by (simp add: record_quietly_def recorded_row min_def split: if_splits)
qed (use assms in \<open>simp add: record_quietly_def\<close>)

lemma hooks_keep_ledger [simp]:
  "rc_ledger (before_all f st) = rc_ledger st"
  "rc_ledger (before_each t st) = rc_ledger st"
  "rc_ledger (collect_test t file' st) = rc_ledger st"
  "rc_ledger (forget_file file' st) = rc_ledger st"
  "rc_ledger (noteEvidence ev st) = rc_ledger st"
  "rc_ledger (noteObservation s st) = rc_ledger st"
  "rc_ledger (snd (takeNotedObservation st)) = rc_ledger st"
  by (simp_all add: before_all_def before_each_def collect_test_def forget_file_def noteEvidence_def noteObservation_def
      takeNotedObservation_def Let_def split: option.split)

text \<open>Minting the id of a row touches neither the ledger nor anything the row's disposition is read from.\<close>

lemma it_id_frame:
  "rc_ledger (snd (it_id env t file' st)) = rc_ledger st"
  "rc_skips (snd (it_id env t file' st)) = rc_skips st"
  "rc_itMarks (snd (it_id env t file' st)) = rc_itMarks st"
  "rc_itSoftSkipMarks (snd (it_id env t file' st)) = rc_itSoftSkipMarks st"
  by (simp_all add: it_id_def Let_def split: prod.split option.split)

lemma resolve_it_frame: "resolve_it env t file' (snd (it_id env t file' st)) = resolve_it env t file' st"
  by (simp add: resolve_it_def it_id_frame)

definition it_observation :: "recorder_env \<Rightarrow> test_task \<Rightarrow> string \<Rightarrow> recorder_state \<Rightarrow> string option" where
  "it_observation env t file' st = fst (takeNotedObservation (snd (it_id env t file' st)))"

lemma record_it_ledger:
  "\<exists>ex. ex_fold ex \<and> rc_ledger (record_it env t file' st) =
     rc_ledger (record_quietly env (fst (it_id env t file' st)) (fst (resolve_it env t file' st))
       (attachObservation (snd (resolve_it env t file' st)) (it_observation env t file' st)) ex st)"
proof -
  have same: "rc_ledger (record_quietly env i d detail ex st1) = rc_ledger (record_quietly env i d detail ex st2)"
    if "rc_ledger st1 = rc_ledger st2" for i d detail ex and st1 st2 :: recorder_state
    using that by (simp add: record_quietly_def split: sum.split)
  show ?thesis
    unfolding record_it_def Let_def it_observation_def takeNotedObservation_def takeNotedEvidence_def
    by (cases "it_id env t file' st"; cases "resolve_it env t file' st")
      (use it_id_frame(1) [of env t file' st] resolve_it_frame [of env t file' st] in
        \<open>auto intro!: exI [of _ "\<lparr>ex_assertionCount = Some (int (tk_calls t)), ex_scenarioFile = Some file',
            ex_evidence = map_option JObj (rc_evidence (snd (it_id env t file' st))), ex_fold = True\<rparr>"] same\<close>)
qed

lemma collect_frame:
  "it_id env t file' (collect_test t' g st) = (fst (it_id env t file' st), snd (it_id env t file' (collect_test t' g st)))"
  "resolve_it env t file' (collect_test t' g st) = resolve_it env t file' st"
  by (simp_all add: it_id_def resolve_it_def collect_test_def Let_def split: prod.split option.split)

lemma after_each_ledger:
  assumes "task_file t = Some file'" and "ends_with ''.test.ts'' file'" and "in_scenarios (or_default (tk_filepath t) [])"
  shows "after_each env t st = record_it env t file' (collect_test t file' st)"
  using assms by (simp add: after_each_def Let_def)

lemma after_each_other:
  assumes "\<not> (\<exists>f. task_file t = Some f \<and> ends_with ''.test.ts'' f \<and> in_scenarios (or_default (tk_filepath t) []))"
  shows "rc_ledger (after_each env t st) = rc_ledger st"
  using assms by (cases "task_file t") (simp_all add: after_each_def Let_def takeNotedObservation_def)

section \<open>Rows only get worse\<close>

lemma worsened_each: "worsened (rc_ledger st) (rc_ledger (after_each env t st))"
proof (cases "task_file t")
  case (Some f)
  show ?thesis
  proof (cases "ends_with ''.test.ts'' f \<and> in_scenarios (or_default (tk_filepath t) [])")
    case True
    obtain ex where "rc_ledger (after_each env t st) = rc_ledger (record_quietly env (fst (it_id env t f (collect_test t f st)))
        (fst (resolve_it env t f (collect_test t f st)))
        (attachObservation (snd (resolve_it env t f (collect_test t f st))) (it_observation env t f (collect_test t f st)))
        ex (collect_test t f st))"
      using record_it_ledger after_each_ledger [OF Some] True by metis
    then show ?thesis using worsened_quietly hooks_keep_ledger(3) by metis
  qed (use Some after_each_other in simp)
qed (simp add: after_each_other)

lemma worsened_all: "worsened (rc_ledger st) (rc_ledger (after_all env f suite st))"
  by (simp add: after_all_def Let_def split: option.split prod.split)

lemma worsened_lane: "worsened (rc_ledger st) (rc_ledger (snd (lane_check env p st)))"
  by (simp add: lane_check_def Let_def split: option.split)

text \<open>What happens to the rows outside the hooks, apart from a reset.\<close>

lemma worsened_other [simp]:
  "worsened l (suspendSinkForFixtures p l)" "worsened l (restoreSink l)" "worsened l (other_row env path e l)"
  by (simp_all add: worsened_def hasRequirement_def dispositionOf_def suspendSinkForFixtures_def restoreSink_def other_row_def)

lemma worsened_step: "e \<noteq> Body_reset \<Longrightarrow> worsened (rc_ledger st) (rc_ledger (recorder_step env strict st e))"
  by (cases e) (simp_all add: recorder_step_def worsened_each worsened_all worsened_lane)

lemma worsened_run: "Body_reset \<notin> set es \<Longrightarrow> worsened (rc_ledger st) (rc_ledger (foldl (recorder_step env strict) st es))"
proof (induction es arbitrary: st)
  case (Cons e es)
  then have "e \<noteq> Body_reset" and "Body_reset \<notin> set es" by auto
  then show ?case using worsened_trans [OF worsened_step Cons.IH] by simp
qed simp

section \<open>The sink only grows\<close>

text \<open>One ledger's file extends another's by rows; the path need not be the worker's own sink.\<close>

definition sink_grows :: "string \<Rightarrow> ledger_state \<Rightarrow> ledger_state \<Rightarrow> bool" where
  "sink_grows path l l' = (\<exists>rows. file_lines l' path = file_lines l path @ map (Parsed \<circ> entry_json) rows)"

lemma grows_same: "ls_files l' = ls_files l \<Longrightarrow> sink_grows path l l'"
  unfolding sink_grows_def by (intro exI [of _ "[]"]) (simp add: file_lines_def)

lemma grows_refl [intro, simp]: "sink_grows path l l"
  by (rule grows_same) simp

lemma grows_trans: "sink_grows path a b \<Longrightarrow> sink_grows path b c \<Longrightarrow> sink_grows path a c"
  unfolding sink_grows_def by (metis append.assoc map_append)

lemma grows_append:
  assumes "ls_files l' = append_line w p (Parsed (entry_json e)) (ls_files l)" shows "sink_grows path l l'"
proof (cases "w p \<and> p = path")
  case True
  with assms show ?thesis
    unfolding sink_grows_def by (intro exI [of _ "[e]"]) (auto simp: file_lines_def append_line_def)
next
  case False
  with assms show ?thesis
    unfolding sink_grows_def by (intro exI [of _ "[]"]) (auto simp: file_lines_def append_line_def)
qed

lemma grows_sink: "ls_files l' = ls_files (sink_entry w s e l1) \<Longrightarrow> ls_files l1 = ls_files l \<Longrightarrow> sink_grows path l l'"
  by (cases s) (auto simp: sink_entry_def intro: grows_same grows_append split: if_splits)

lemma grows_recorded: "recordRequirement w s i d detail ex l = Inr l' \<Longrightarrow> sink_grows path l l'"
  by (auto simp: recordRequirement_def Let_def split: option.splits if_splits intro: grows_sink)

lemma grows_quietly [simp]: "sink_grows path (rc_ledger st) (rc_ledger (record_quietly env i d detail ex st))"
  by (auto simp: record_quietly_def split: sum.split intro: grows_recorded)

lemma grows_each: "sink_grows path (rc_ledger st) (rc_ledger (after_each env t st))"
proof (cases "\<exists>f. task_file t = Some f \<and> ends_with ''.test.ts'' f \<and> in_scenarios (or_default (tk_filepath t) [])")
  case True
  then obtain f where f: "task_file t = Some f" "ends_with ''.test.ts'' f" "in_scenarios (or_default (tk_filepath t) [])" by blast
  then show ?thesis
    using record_it_ledger [of env t f "collect_test t f st"] grows_quietly hooks_keep_ledger(3) after_each_ledger [OF f] by metis
qed (simp add: after_each_other)

lemma grows_hooks:
  "sink_grows path (rc_ledger st) (rc_ledger (after_all env f suite st))"
  "sink_grows path (rc_ledger st) (rc_ledger (snd (lane_check env p st)))"
  by (simp_all add: after_all_def lane_check_def Let_def split: option.split prod.split)

lemma grows_other [simp]:
  "sink_grows path l (suspendSinkForFixtures p l)" "sink_grows path l (restoreSink l)" "sink_grows path l (resetLedger l)"
  by (simp_all add: grows_same suspendSinkForFixtures_def restoreSink_def resetLedger_def)

lemma grows_other_row [simp]: "sink_grows path l (other_row env q e l)"
  by (rule grows_append [of _ "re_writable env" q e]) (simp add: other_row_def)

lemma grows_step: "sink_grows path (rc_ledger st) (rc_ledger (recorder_step env strict st e))"
  by (cases e) (simp_all add: recorder_step_def grows_each grows_hooks)

lemma grows_run: "sink_grows path (rc_ledger st) (rc_ledger (foldl (recorder_step env strict) st es))"
  by (induction es arbitrary: st) (auto intro: grows_trans grows_step)

text \<open>
  Claim C22: through any sequence of hook calls and of whatever tests do in between, short of emptying the ledger,
  a requirement that has a row keeps one and its disposition never becomes more certifiable; in particular an
  \<open>executed-fail\<close> is final. Not even a test that empties the ledger takes a row out of a sink file: through any
  sequence of calls, resets and the rows of other workers among them, the file keeps its lines and gains rows only.
\<close>

theorem rows_only_get_worse:
  assumes "hasRequirement (rc_ledger st) i" and "Body_reset \<notin> set es"
  shows "hasRequirement (rc_ledger (foldl (recorder_step env strict) st es)) i \<and>
         dispositionOf (rc_ledger (foldl (recorder_step env strict) st es)) i \<le> dispositionOf (rc_ledger st) i \<and>
         (dispositionOf (rc_ledger st) i = Executed_fail \<longrightarrow>
            dispositionOf (rc_ledger (foldl (recorder_step env strict) st es)) i = Executed_fail) \<and>
         (\<exists>rows. file_lines (rc_ledger (foldl (recorder_step env strict) st any)) path =
            file_lines (rc_ledger st) path @ map (Parsed \<circ> entry_json) rows)"
proof -
  have least: "d \<le> Executed_fail \<Longrightarrow> d = Executed_fail" for d
    by (cases d) (simp_all add: less_eq_disposition_def certifiability_rank_def)
  have "sink_grows path (rc_ledger st) (rc_ledger (foldl (recorder_step env strict) st any))" by (rule grows_run)
  then show ?thesis
    using worsened_run [OF assms(2), of st env strict] assms(1) least unfolding sink_grows_def worsened_def by metis
qed

section \<open>A failed test convicts its requirement\<close>

lemma spoken_append: "spoken s \<Longrightarrow> spoken (s @ t)"
proof -
  assume "spoken s"
  then have "dropWhile js_space s \<noteq> []" unfolding spoken_def js_trim_def by (metis dropWhile.simps(1) rev.simps(1))
  then obtain c where "c \<in> set s" "\<not> js_space c" unfolding dropWhile_eq_Nil_conv by blast
  then show "spoken (s @ t)" by (intro spokenI [of c]) simp_all
qed

lemma attach_spoken: "spoken s \<Longrightarrow> option_all spoken (attachObservation (Some s) observation)"
  by (cases observation) (simp_all add: attachObservation_def option_all_def or_default_def spoken_def spoken_append [unfolded spoken_def])

lemma attach_reason:
  assumes "has_reason d detail" shows "has_reason d (attachObservation detail observation)"
  using assms attach_spoken unfolding has_reason_spoken by (cases detail) (auto simp: option_all_def)

lemma failed_disposition:
  assumes "tk_state t = Some ''fail''" and "\<not> transport_loss (tk_calls t) (tk_error t)" and "\<not> coherence_file env f"
  shows "fst (resolve_it env t f st) = Executed_fail \<and> has_reason Executed_fail (snd (resolve_it env t f st))"
  using assms by (simp add: resolve_it_def state_of_def resolveItRecord_def Let_def has_reason_spoken option_all_def spoken_head letters)

text \<open>The row such a test leaves in the sink.\<close>

lemma quietly_sunk:
  assumes "has_reason d detail" and "ex_fold ex \<or> \<not> hasRequirement (rc_ledger st) i"
    and "re_sink env = Some path" and "re_writable env path" and "path \<noteq> []" and "ls_suspendedSink (rc_ledger st) \<noteq> Some path"
  shows "\<exists>e. le_requirementId e = i \<and>
      le_disposition e = (if hasRequirement (rc_ledger st) i then min (dispositionOf (rc_ledger st) i) d else d) \<and>
      file_lines (rc_ledger (record_quietly env i d detail ex st)) path = file_lines (rc_ledger st) path @ [Parsed (entry_json e)]"
proof -
  obtain l' where l: "recordRequirement (re_writable env) (re_sink env) i d detail ex (rc_ledger st) = Inr l'"
    using record_succeeds [OF assms(1,2)] by blast
  obtain e l1 where e: "l' = sink_entry (re_writable env) (Some path) e l1" "le_requirementId e = i"
      "le_disposition e = (if hasRequirement (rc_ledger st) i then min (dispositionOf (rc_ledger st) i) d else d)"
      "ls_files l1 = ls_files (rc_ledger st)" "ls_suspendedSink l1 = ls_suspendedSink (rc_ledger st)"
    using l unfolding assms(3)
    by (auto simp: recordRequirement_def Let_def hasRequirement_def dispositionOf_def make_entry_def split: option.splits if_splits)
  have "file_lines l' path = file_lines (rc_ledger st) path @ [Parsed (entry_json e)]"
    using assms(4-6) e(4,5) by (simp add: e(1) sink_entry_lines) (simp add: file_lines_def)
  with e(2,3) l show ?thesis by (auto simp: record_quietly_def)
qed

lemma ledger_rows_append: "ledger_rows (xs @ ys) = ledger_rows xs @ ledger_rows ys"
  by (simp add: ledger_rows_def map_filter_def)

lemma ledger_rows_written: "ledger_rows (map (Parsed \<circ> entry_json) es) = es"
  by (induction es) (simp_all add: ledger_rows_def map_filter_simps entry_of_written)

text \<open>A file that could be read is still read when rows were appended.\<close>

lemma reads_on:
  assumes "readLedgerFile collate (Some ls) = Inr rs"
  shows "\<exists>rs'. readLedgerFile collate (Some (ls @ map (Parsed \<circ> entry_json) es)) = Inr rs'"
proof -
  obtain vs where "emap entry_of_line ls = Inr vs" using assms by (auto simp: readLedgerFile_def ebind_Inr_iff)
  then have "emap entry_of_line (ls @ map (Parsed \<circ> entry_json) es) = Inr (vs @ map Some es)"
    using emap_written [of es] unfolding emap_Inr_iff by (rule list_all2_appendI)
  then show ?thesis by (simp add: readLedgerFile_def del: map_map)
qed

text \<open>One row that says \<open>executed-fail\<close> settles what the reader returns for its requirement.\<close>

lemma failure_is_read:
  assumes "readLedgerFile collate (Some ls) = Inr rs" and "e \<in> set (ledger_rows ls)" and "le_disposition e = Executed_fail"
  shows "\<exists>r \<in> set rs. le_requirementId r = le_requirementId e \<and> le_disposition r = Executed_fail"
proof -
  note settled = reader_settles_on_worst [OF assms(1)]
  have "le_requirementId e \<in> le_requirementId ` set rs" using settled assms(2) by simp
  then obtain r where r: "r \<in> set rs" "le_requirementId r = le_requirementId e" by auto
  let ?D = "le_disposition ` {x \<in> set (ledger_rows ls). le_requirementId x = le_requirementId r}"
  have "Executed_fail \<in> ?D" using assms(2,3) r(2) by force
  then have "Min ?D \<le> Executed_fail" by (intro Min_le) simp_all
  then have "Min ?D = Executed_fail"
    by (cases "Min ?D") (simp_all add: less_eq_disposition_def certifiability_rank_def)
  moreover have "le_disposition r = Min ?D" using settled r(1) by simp
  ultimately show ?thesis using r by (intro bexI [of _ r]) simp_all
qed

text \<open>
  Claim C16: a scenario test that failed, of a file that is not a coherence scenario and not for want of any response,
  leaves the requirement it witnesses \<open>executed-fail\<close> in the ledger, whatever was recorded for that requirement before
  and whatever notes the test wrote; and so it stays whatever runs in the worker afterwards, short of a test that empties
  the ledger. In a sink that can be written, is not suspended when the test ends and could be read before, it stays
  even then: whatever follows, resets and the rows of other workers included, the file is read and the row the reader
  returns for the requirement says \<open>executed-fail\<close>.
\<close>

theorem failed_test_convicts:
  assumes "task_file t = Some f" and "ends_with ''.test.ts'' f" and "in_scenarios (or_default (tk_filepath t) [])"
    and "tk_state t = Some ''fail''" and "\<not> transport_loss (tk_calls t) (tk_error t)" and "\<not> coherence_file env f"
  shows "(Body_reset \<notin> set es \<longrightarrow>
           dispositionOf (rc_ledger (foldl (recorder_step env strict) (after_each env t st) es)) (fst (it_id env t f st)) = Executed_fail) \<and>
         (re_sink env = Some path \<and> re_writable env path \<and> path \<noteq> [] \<and> ls_suspendedSink (rc_ledger st) \<noteq> Some path \<and>
          readLedgerFile collate (Some (file_lines (rc_ledger st) path)) = Inr before \<longrightarrow>
           (\<exists>rows. readLedgerFile collate (Some (file_lines (rc_ledger (foldl (recorder_step env strict) (after_each env t st) es)) path)) = Inr rows \<and>
              (\<exists>r \<in> set rows. le_requirementId r = fst (it_id env t f st) \<and> le_disposition r = Executed_fail)))"
proof -
  let ?st = "collect_test t f st" and ?i = "fst (it_id env t f st)"
  let ?final = "rc_ledger (foldl (recorder_step env strict) (after_each env t st) es)"
  have i: "fst (it_id env t f ?st) = ?i" by (metis collect_frame(1) fst_conv)
  obtain ex where ex: "ex_fold ex" and l: "rc_ledger (after_each env t st) = rc_ledger (record_quietly env ?i
        (fst (resolve_it env t f ?st)) (attachObservation (snd (resolve_it env t f ?st)) (it_observation env t f ?st)) ex ?st)"
    using record_it_ledger [of env t f ?st] after_each_ledger [OF assms(1-3), of env st] unfolding i by metis
  have d: "fst (resolve_it env t f ?st) = Executed_fail"
      and r: "has_reason Executed_fail (attachObservation (snd (resolve_it env t f ?st)) (it_observation env t f ?st))"
    using failed_disposition [OF assms(4-6), of ?st] attach_reason by simp_all
  have least: "min e Executed_fail = Executed_fail" "x \<le> Executed_fail \<Longrightarrow> x = Executed_fail" for e x
    by (cases e) (simp_all add: min_def less_eq_disposition_def certifiability_rank_def, cases x, simp_all)
  have now: "hasRequirement (rc_ledger (after_each env t st)) ?i \<and> dispositionOf (rc_ledger (after_each env t st)) ?i = Executed_fail"
    unfolding l d using quietly_row [OF r, of ex ?st ?i env] ex least(1) by simp
  have "dispositionOf ?final ?i = Executed_fail" if "Body_reset \<notin> set es"
  proof (rule least(2))
    show "dispositionOf ?final ?i \<le> Executed_fail"
      using worsened_run [OF that, of "after_each env t st" env strict] now by (simp add: worsened_def) metis
  qed
  moreover have "\<exists>rows. readLedgerFile collate (Some (file_lines ?final path)) = Inr rows \<and>
      (\<exists>r \<in> set rows. le_requirementId r = ?i \<and> le_disposition r = Executed_fail)"
    if sink: "re_sink env = Some path" "re_writable env path" "path \<noteq> []" "ls_suspendedSink (rc_ledger st) \<noteq> Some path"
      and read: "readLedgerFile collate (Some (file_lines (rc_ledger st) path)) = Inr before"
  proof -
    obtain e where e: "le_requirementId e = ?i" "le_disposition e = Executed_fail"
        "file_lines (rc_ledger (after_each env t st)) path = file_lines (rc_ledger st) path @ map (Parsed \<circ> entry_json) [e]"
      using quietly_sunk [OF r, of ex ?st ?i env path] ex sink least(1) unfolding l d by auto
    obtain more where "file_lines ?final path = file_lines (rc_ledger st) path @ map (Parsed \<circ> entry_json) (e # more)"
      using grows_run [of path "after_each env t st" env strict es] e(3) by (auto simp: sink_grows_def)
    then show ?thesis
      using reads_on [OF read, of "e # more"] failure_is_read [where e = e and ls = "file_lines ?final path"] e(1,2)
      by (auto simp: ledger_rows_append ledger_rows_written simp del: list.map)
  qed
  ultimately show ?thesis by blast
qed

definition self_recorded :: "recorder_event \<Rightarrow> bool" where
  "self_recorded e = (case e of Body_record i d detail ex \<Rightarrow> True | Body_scratch p i d detail ex \<Rightarrow> True | _ \<Rightarrow> False)"

lemma each_pass:
  assumes "dispositionOf (rc_ledger (after_each env t st)) i = Executed_pass" and "dispositionOf (rc_ledger st) i \<noteq> Executed_pass"
  shows "(\<exists>f. task_file t = Some f \<and> i = fst (it_id env t f st)) \<and> tk_state t = Some ''pass'' \<and> 0 < tk_calls t"
proof (cases "task_file t")
  case (Some f)
  show ?thesis
  proof (cases "ends_with ''.test.ts'' f \<and> in_scenarios (or_default (tk_filepath t) [])")
    case True
    let ?st = "collect_test t f st"
    have i: "fst (it_id env t f ?st) = fst (it_id env t f st)" by (metis collect_frame(1) fst_conv)
    obtain ex where "rc_ledger (after_each env t st) = rc_ledger (record_quietly env (fst (it_id env t f st))
        (fst (resolve_it env t f ?st)) (attachObservation (snd (resolve_it env t f ?st)) (it_observation env t f ?st)) ex ?st)"
      using record_it_ledger [of env t f ?st] after_each_ledger [OF Some, of env st] True unfolding i by metis
    then have "i = fst (it_id env t f st) \<and> fst (resolve_it env t f ?st) = Executed_pass"
      using quietly_pass assms hooks_keep_ledger(3) by metis
    then show ?thesis
      using Some by (auto simp: resolve_it_def it_pass_iff state_of_def split: if_splits)
  qed (use Some assms after_each_other in simp)
qed (use assms after_each_other in simp)

lemma hidden_states:
  "set (fst (unrecordedTests ts ids)) \<subseteq> {Test_pass, Test_fail} \<and>
   (Test_fail \<in> set (fst (unrecordedTests ts ids)) \<longleftrightarrow> (\<exists>t \<in> set ts. ft_id t \<notin> set ids \<and> ft_state t = Some ''fail''))"
  by (induction ts) (auto simp: Let_def split: prod.split)

lemma resolve_file_pass:
  assumes "fst (resolve_file env f ts st) = Executed_pass"
  shows "0 < get_or (rc_assertions st) f 0 \<and> Test_fail \<notin> set (get_or (rc_states st) f [])"
  using assms by (auto simp: resolve_file_def Let_def file_record_pass_iff split: prod.splits)

lemma all_pass:
  assumes "dispositionOf (rc_ledger (after_all env file' suite st)) i = Executed_pass"
    and "dispositionOf (rc_ledger st) i \<noteq> Executed_pass"
  shows "\<exists>f. file' = Some f \<and> i = requirementIdForFile (re_floorFiles env) f \<and> 0 < get_or (rc_assertions st) f 0 \<and>
           Test_fail \<notin> set (get_or (rc_states st) f [])"
proof (cases file')
  case (Some f)
  obtain d detail where r: "resolve_file env f (finishedTests suite) st = (d, detail)" by fastforce
  have "ends_with ''.test.ts'' f \<and> \<not> hasRequirement (rc_ledger st) (requirementIdForFile (re_floorFiles env) f)"
    using assms Some r by (auto simp: after_all_def Let_def split: if_splits)
  then have "i = requirementIdForFile (re_floorFiles env) f \<and> d = Executed_pass"
    using assms Some r quietly_pass by (auto simp: after_all_def Let_def)
  then show ?thesis using Some r resolve_file_pass by (metis fst_conv)
qed (use assms in \<open>simp add: after_all_def\<close>)

lemma lane_pass:
  "dispositionOf (rc_ledger (snd (lane_check env p st))) i = Executed_pass \<Longrightarrow> dispositionOf (rc_ledger st) i = Executed_pass"
  by (rule ccontr) (auto simp: lane_check_def Let_def split: option.splits if_splits dest: quietly_pass)

lemma rows_elsewhere:
  "dispositionOf (resetLedger l) i = Blocked" "dispositionOf (suspendSinkForFixtures p l) i = dispositionOf l i"
  "dispositionOf (restoreSink l) i = dispositionOf l i" "dispositionOf (other_row env path e l) i = dispositionOf l i"
  by (simp_all add: dispositionOf_def resetLedger_def suspendSinkForFixtures_def restoreSink_def other_row_def)

text \<open>
  No hook invents a pass. When a step of the worker that is not a test recording its own
  disposition makes a requirement \<open>executed-pass\<close>, either a test has just passed after at least one
  assertion and that is its requirement, or a file has just ended with at least one assertion and no
  failed test and that is the file's requirement.
\<close>

theorem new_pass_is_earned:
  assumes "dispositionOf (rc_ledger (recorder_step env strict st e)) i = Executed_pass"
    and "dispositionOf (rc_ledger st) i \<noteq> Executed_pass" and "\<not> self_recorded e"
  shows "(\<exists>t f. e = After_each t \<and> task_file t = Some f \<and> i = fst (it_id env t f st) \<and> tk_state t = Some ''pass'' \<and> 0 < tk_calls t) \<or>
         (\<exists>f suite. e = After_all (Some f) suite \<and> i = requirementIdForFile (re_floorFiles env) f \<and>
            0 < get_or (rc_assertions st) f 0 \<and> Test_fail \<notin> set (get_or (rc_states st) f []))"
proof (cases e)
  case (After_each t)
  then show ?thesis using each_pass assms by (simp add: recorder_step_def)
next
  case (After_all f suite)
  then show ?thesis using all_pass assms by (fastforce simp: recorder_step_def)
next
  case (Lane_check p)
  then show ?thesis using assms lane_pass by (simp add: recorder_step_def)
qed (use assms in \<open>simp_all add: recorder_step_def self_recorded_def rows_elsewhere\<close>)

section \<open>The row of a file\<close>

text \<open>
  When a test file ends its requirement has a row: the one a test of it recorded, untouched,
  or else what the hooks resolve from its tests, provided the reasons its tests noted are not blank.
  The hooks then forget the file.
\<close>

theorem file_ends_with_row:
  assumes "ends_with ''.test.ts'' f" and "noted_spoken (softSkipDisposition (rc_skips st) f)"
  shows "hasRequirement (rc_ledger (after_all env (Some f) suite st)) (requirementIdForFile (re_floorFiles env) f) \<and>
         dispositionOf (rc_ledger (after_all env (Some f) suite st)) (requirementIdForFile (re_floorFiles env) f) =
           (if hasRequirement (rc_ledger st) (requirementIdForFile (re_floorFiles env) f)
            then dispositionOf (rc_ledger st) (requirementIdForFile (re_floorFiles env) f)
            else fst (resolve_file env f (finishedTests suite) st)) \<and>
         map_of (rc_states (after_all env (Some f) suite st)) f = None \<and>
         map_of (rc_recorded (after_all env (Some f) suite st)) f = None"
proof -
  obtain d detail where r: "resolve_file env f (finishedTests suite) st = (d, detail)" by fastforce
  have reason: "has_reason d detail"
    using r file_record_reason [OF assms(2)] by (auto simp: resolve_file_def Let_def split: prod.splits) (metis fst_conv snd_conv)
  show ?thesis
    using assms r quietly_row [OF reason] by (simp add: after_all_def Let_def forget_file_def delete_conv)
qed

lemma failed_file:
  assumes "Test_fail \<in> set states" and "0 < k"
  shows "fst (resolveFileRecord coherence corpusGate states gateReason k noted f failures) = Executed_fail"
proof -
  have "0 < failed_count states" using assms(1) by (auto simp: failed_count_def filter_empty_conv)
  then have "fst (fileDisposition states gateReason (Some k) failures) = Executed_fail"
    using assms(2) by (simp add: fileDisposition_def Let_def)
  moreover have "\<not> list_all (\<lambda>s. s = Test_skip) states" using assms(1) by (auto simp: list_all_iff)
  ultimately show ?thesis
    using assms(2) by (cases "fileDisposition states gateReason (Some k) failures"; cases noted) (auto simp: resolveFileRecord_def Let_def)
qed

text \<open>
  A failure cannot hide from the file's row. A test of the file that the runner reports as
  failed, though its \<open>afterEach\<close> never ran and the hooks never counted it, makes the file resolve to
  \<open>executed-fail\<close> as soon as the file made an assertion.
\<close>

theorem hidden_failure_convicts_file:
  assumes "t \<in> set (finishedTests suite)" and "ft_state t = Some ''fail''"
    and "ft_id t \<notin> set (get_or (rc_recorded st) f [])" and "0 < get_or (rc_assertions st) f 0"
  shows "fst (resolve_file env f (finishedTests suite) st) = Executed_fail"
proof -
  have "Test_fail \<in> set (fst (unrecordedTests (finishedTests suite) (get_or (rc_recorded st) f [])))"
    using hidden_states assms(1-3) by blast
  then show ?thesis
    using failed_file assms(4) by (auto simp: resolve_file_def Let_def split: prod.split)
qed

text \<open>
  The noted reasons of a silent file do not decide its row. When no test failed, no
  assertion was made and the ledger's journal holds an \<open>inapplicable\<close> row written since the file
  began, which the row of a single leg is, the file resolves to \<open>inapplicable\<close>, even where the worst
  of its notes is \<open>blocked\<close>.
\<close>

theorem inapplicable_leg_decides_file:
  assumes "\<exists>e \<in> set (journalSince (get_or (rc_ledgerMarks st) f 0) (rc_ledger st)). le_disposition e = Inapplicable"
    and "get_or (rc_assertions st) f 0 = 0"
    and "Test_fail \<notin> set (get_or (rc_states st) f [] @ fst (unrecordedTests ts (get_or (rc_recorded st) f [])))"
  shows "fst (resolve_file env f ts st) = Inapplicable"
proof -
  obtain hs hf where h: "unrecordedTests ts (get_or (rc_recorded st) f []) = (hs, hf)" by fastforce
  have none: "failed_count (get_or (rc_states st) f [] @ hs) = 0"
    using assms(3) h by (auto simp: failed_count_def filter_empty_conv)
  have g: "file_gate (journalSince (get_or (rc_ledgerMarks st) f 0) (rc_ledger st)) = Some Gate_inapplicable"
    using assms(1) by (simp add: file_gate_def)
  have d: "fst (fileDisposition (get_or (rc_states st) f [] @ hs) (Some Gate_inapplicable) (Some 0) fs) = Inapplicable" for fs
    using none by (simp add: fileDisposition_def Let_def)
  show ?thesis
    using d [of "get_or (rc_failures st) f [] @ hf"]
    by (cases "fileDisposition (get_or (rc_states st) f [] @ hs) (Some Gate_inapplicable) (Some 0) (get_or (rc_failures st) f [] @ hf)";
        cases "softSkipDisposition (rc_skips st) f")
      (simp_all add: resolve_file_def h g assms(2) resolveFileRecord_def split: option.splits)
qed

section \<open>Example runs\<close>

definition example_env :: recorder_env where
  "example_env = \<lparr>re_writable = \<lambda>p. True, re_sink = None, re_targetMajor = 2, re_scenarioMajors = [(''old.test.ts'', [1])],
     re_registry = [], re_corpusGate = False, re_coherence = [], re_floorFiles = []\<rparr>"

definition fresh_worker :: recorder_state where
  "fresh_worker = \<lparr>rc_states = [], rc_assertions = [], rc_failures = [], rc_recorded = [], rc_ledgerMarks = [],
     rc_allocators = [], rc_itMarks = [], rc_itSoftSkipMarks = [], rc_ledger = empty_ledger,
     rc_skips = \<lparr>sk_notes = [], sk_seq = 0\<rparr>, rc_ids = \<lparr>it_seen = [], it_explicit = None, it_claimed = []\<rparr>,
     rc_evidence = None, rc_observation = None\<rparr>"

definition example_test :: "string \<Rightarrow> string option \<Rightarrow> string option \<Rightarrow> nat \<Rightarrow> test_task" where
  "example_test title s err n =
     \<lparr>tk_id = title, tk_name = title, tk_filepath = Some ''/src/scenarios/a.test.ts'', tk_filename = None,
      tk_state = s, tk_error = err, tk_calls = n\<rparr>"

text \<open>Two legs that return early, the first noting \<open>inapplicable\<close>, the second \<open>blocked\<close>.\<close>

definition silent_run :: recorder_state where
  "silent_run = foldl (recorder_step example_env False) fresh_worker
     (concat (map (\<lambda>(n, k). [Before_each (example_test n (Some ''pass'') None 0),
        Body_skip (Some ''/src/scenarios/a.test.ts'', Call_softSkip k ''why''),
        After_each (example_test n (Some ''pass'') None 0)]) [(''one'', Note_inapplicable), (''two'', Note_blocked)]))"

definition leg_one :: test_task where "leg_one = example_test ''one'' (Some ''pass'') None 1"

definition leg_bad :: test_task where "leg_bad = example_test ''one'' (Some ''fail'') (Some ''boom'') 1"

theorem rows_only_get_worse_witness:
  "hasRequirement (rc_ledger silent_run) ''openwop.it.a.two'' \<and>
   dispositionOf (rc_ledger (foldl (recorder_step example_env False) silent_run [Before_each leg_one, After_each leg_one])) ''openwop.it.a.two'' \<le> Blocked"
proof -
  have h: "hasRequirement (rc_ledger silent_run) ''openwop.it.a.two''" by code_simp
  have b: "dispositionOf (rc_ledger silent_run) ''openwop.it.a.two'' = Blocked" by code_simp
  show ?thesis
    using rows_only_get_worse [OF h, of "[Before_each leg_one, After_each leg_one]" example_env False "[Body_reset]" "''l''"]
      h
    unfolding b by simp
qed

definition sink_env :: recorder_env where
  "sink_env = example_env\<lparr>re_sink := Some ''l''\<rparr>"

theorem failed_test_convicts_witness:
  "dispositionOf (rc_ledger (foldl (recorder_step sink_env False) (after_each sink_env leg_bad silent_run)
     [Body_record ''openwop.it.a.one~2'' Executed_pass None no_extras])) ''openwop.it.a.one~2'' = Executed_fail \<and>
   (\<exists>rows. readLedgerFile (\<lambda>a b. True) (Some (file_lines (rc_ledger (foldl (recorder_step sink_env False)
       (after_each sink_env leg_bad silent_run) [Body_reset, Body_record ''openwop.it.a.one~2'' Executed_pass None no_extras])) ''l'')) = Inr rows \<and>
     (\<exists>r \<in> set rows. le_requirementId r = ''openwop.it.a.one~2'' \<and> le_disposition r = Executed_fail))"
proof -
  let ?pass = "Body_record ''openwop.it.a.one~2'' Executed_pass None no_extras"
  have "task_file leg_bad = Some ''a.test.ts''" "ends_with ''.test.ts'' ''a.test.ts''"
    "in_scenarios (or_default (tk_filepath leg_bad) [])" "tk_state leg_bad = Some ''fail''"
    "\<not> transport_loss (tk_calls leg_bad) (tk_error leg_bad)" "\<not> coherence_file sink_env ''a.test.ts''" by code_simp+
  note convicts = failed_test_convicts [OF this, where st = silent_run and strict = False and path = "''l''" and collate = "\<lambda>a b. True"]
  have i: "fst (it_id sink_env leg_bad ''a.test.ts'' silent_run) = ''openwop.it.a.one~2''" by code_simp
  have "re_sink sink_env = Some ''l''" "re_writable sink_env ''l''" by (simp_all add: sink_env_def example_env_def)
  moreover have "ls_suspendedSink (rc_ledger silent_run) = None" by code_simp
  moreover have "file_lines (rc_ledger silent_run) ''l'' = []" by code_simp
  moreover have "readLedgerFile (\<lambda>a b. True) (Some []) = Inr []" by (simp add: readLedgerFile_def merge_ledger_def)
  ultimately show ?thesis
    using convicts [of "[?pass]", unfolded i] convicts [of "[Body_reset, ?pass]" "[]", unfolded i] by simp
qed

theorem new_pass_is_earned_witness:
  "tk_state leg_one = Some ''pass'' \<and> 0 < tk_calls leg_one \<and>
   dispositionOf (rc_ledger (recorder_step example_env False fresh_worker (After_each leg_one))) ''openwop.it.a.one'' = Executed_pass"
proof -
  have p: "dispositionOf (rc_ledger (recorder_step example_env False fresh_worker (After_each leg_one))) ''openwop.it.a.one'' = Executed_pass"
    "dispositionOf (rc_ledger fresh_worker) ''openwop.it.a.one'' \<noteq> Executed_pass" "\<not> self_recorded (After_each leg_one)" by code_simp+
  from new_pass_is_earned [OF this] p(1) show ?thesis by auto
qed

theorem file_ends_with_row_witness:
  "dispositionOf (rc_ledger (after_all example_env (Some ''a.test.ts'') (Task_node None ''a'' None [] []) silent_run)) ''openwop.scenario.a'' =
   Inapplicable"
proof -
  have pre: "ends_with ''.test.ts'' ''a.test.ts''" "noted_spoken (softSkipDisposition (rc_skips silent_run) ''a.test.ts'')" by code_simp+
  have i: "requirementIdForFile (re_floorFiles example_env) ''a.test.ts'' = ''openwop.scenario.a''" by code_simp
  have "\<not> hasRequirement (rc_ledger silent_run) ''openwop.scenario.a''" by code_simp
  moreover have "fst (resolve_file example_env ''a.test.ts'' (finishedTests (Task_node None ''a'' None [] [])) silent_run) = Inapplicable"
    by code_simp
  ultimately show ?thesis
    using file_ends_with_row [OF pre, of example_env "Task_node None ''a'' None [] []"] unfolding i by simp
qed

theorem hidden_failure_convicts_file_witness:
  "fst (resolve_file example_env ''a.test.ts''
     (finishedTests (Task_node None ''a'' None [] [Task_node (Some ''9'') ''hidden'' (Some ''fail'') [] []]))
     (after_each example_env leg_one fresh_worker)) = Executed_fail"
proof -
  let ?suite = "Task_node None ''a'' None [] [Task_node (Some ''9'') ''hidden'' (Some ''fail'') [] []]"
  let ?t = "\<lparr>ft_id = ''9'', ft_name = ''hidden'', ft_state = Some ''fail'', ft_message = None\<rparr>"
  have "?t \<in> set (finishedTests ?suite)" "ft_state ?t = Some ''fail''"
    "ft_id ?t \<notin> set (get_or (rc_recorded (after_each example_env leg_one fresh_worker)) ''a.test.ts'' [])"
    "0 < get_or (rc_assertions (after_each example_env leg_one fresh_worker)) ''a.test.ts'' 0" by code_simp+
  from hidden_failure_convicts_file [OF this] show ?thesis .
qed

theorem inapplicable_leg_decides_file_witness:
  "map_option nd_kind (softSkipDisposition (rc_skips silent_run) ''a.test.ts'') = Some Note_blocked \<and>
   fst (resolve_file example_env ''a.test.ts'' [] silent_run) = Inapplicable"
proof -
  have k: "map_option nd_kind (softSkipDisposition (rc_skips silent_run) ''a.test.ts'') = Some Note_blocked" by code_simp
  have "\<exists>e \<in> set (journalSince (get_or (rc_ledgerMarks silent_run) ''a.test.ts'' 0) (rc_ledger silent_run)). le_disposition e = Inapplicable"
    "get_or (rc_assertions silent_run) ''a.test.ts'' 0 = 0"
    "Test_fail \<notin> set (get_or (rc_states silent_run) ''a.test.ts'' [] @
       fst (unrecordedTests [] (get_or (rc_recorded silent_run) ''a.test.ts'' [])))" by code_simp+
  from inapplicable_leg_decides_file [OF this] k show ?thesis by blast
qed

end
