(* ===== verification/Chain_Expansion.thy ===== *)
theory Chain_Expansion
  imports Json
begin

text \<open>
  The base expansion of a workflow-chain pack (\<open>workflow-chain-expansion.ts\<close>, the mirrored
  core): the data of a chain, \<open>{{params.x}}\<close> substitution, edge-endpoint rewriting, the
  per-expansion prefix and \<open>expandChain\<close>. The other expansion passes build on this theory.
\<close>

section \<open>Data\<close>

text \<open>\<open>position\<close>, \<open>condition\<close> and \<open>outputs\<close> are carried opaquely.\<close>

datatype trigger_rule = All_success | Any_success | All_complete | None_failed | Any_failed

datatype sub_chain_ref = SiblingRef string | ExternalRef string string string

record produced_variable =
  pv_name :: string
  pv_producedBy :: string
  pv_type :: string
  pv_description :: "string option"

record fragment_node =
  fn_id :: string
  fn_typeId :: string
  fn_name :: "string option"
  fn_position :: "json option"
  fn_config :: "jobject option"
  fn_inputs :: "jobject option"

record fragment_edge =
  fe_from :: string
  fe_to :: string
  fe_condition :: "json option"
  fe_triggerRule :: "trigger_rule option"

record 'n workflow_chain =
  wc_chainId :: string
  wc_version :: string
  wc_label :: string
  wc_description :: string
  wc_parameters :: jobject
  wc_nodes :: "'n list"
  wc_edges :: "fragment_edge list option"
  wc_outputs :: "json option"
  wc_capabilities :: "string list option"
  wc_subChains :: "sub_chain_ref list option"
  wc_producedVariables :: "produced_variable list option"

record expansion_context =
  ec_expansionId :: string
  ec_params :: jobject
  ec_resolvable :: "string \<Rightarrow> bool"

record expanded_node =
  xn_id :: string
  xn_typeId :: string
  xn_name :: "string option"
  xn_position :: "json option"
  xn_config :: "jobject option"
  xn_inputs :: "jobject option"
  xn_capabilities :: "string list option"

record 'n expanded_fragment =
  xf_nodes :: "'n list"
  xf_edges :: "fragment_edge list"
  xf_idMap :: "(string \<times> string) list"

text \<open>The error classes of the file, one constructor each, with the fields they carry.\<close>

datatype chain_error =
    ChainUnresolvableTypeId string string
  | ChainIrreversibleWithCompensation string string
  | ChainCompensationPolicyConflict string
  | SensitiveParamNotDeferrable string string
  | SubChainUnresolved string string
  | SubChainCycle string string
  | SubChainDepthExceeded string nat
  | VariableUndeclared string string
  | ProducedVarProducerUnknown string string string

section \<open>Parameter tokens\<close>

text \<open>The identifier grammar of \<open>PARAM_PATTERN\<close>.\<close>

definition ident_start :: "char \<Rightarrow> bool" where
  "ident_start c = (is_lower c \<or> is_upper c \<or> c = CHR ''_'')"

definition ident_char :: "char \<Rightarrow> bool" where
  "ident_char c = (is_alnum c \<or> c = CHR ''_'')"

definition param_open :: string where
  "param_open = ''{{params.''"

definition param_token :: "string \<Rightarrow> string" where
  "param_token n = param_open @ n @ ''}}''"

definition is_ident :: "string \<Rightarrow> bool" where
  "is_ident n = (case n of [] \<Rightarrow> False | c # cs \<Rightarrow> ident_start c \<and> list_all ident_char cs)"

text \<open>
  \<open>PARAM_PATTERN\<close> anchored at the start of \<open>s\<close>: the name and the text after the token. The
  name is the maximal identifier, because a shorter one cannot be followed by \<open>}}\<close>.
\<close>

definition match_param :: "string \<Rightarrow> (string \<times> string) option" where
  "match_param s =
     (if starts_with param_open s then
        (case drop (length param_open) s of
           [] \<Rightarrow> None
         | c # cs \<Rightarrow>
             (if ident_start c \<and> starts_with ''}}'' (dropWhile ident_char cs)
              then Some (c # takeWhile ident_char cs, drop 2 (dropWhile ident_char cs))
              else None))
      else None)"

text \<open>\<open>WHOLE_VALUE_PATTERN\<close>: the string is one token and nothing else.\<close>

definition match_whole :: "string \<Rightarrow> string option" where
  "match_whole s = (case match_param s of Some (n, []) \<Rightarrow> Some n | _ \<Rightarrow> None)"

lemma match_param_Some:
  assumes "match_param s = Some (n, r)"
  shows "s = param_token n @ r" and "is_ident n"
proof -
  from assms obtain c cs where
    d: "drop (length param_open) s = c # cs" and p: "starts_with param_open s"
    and c: "ident_start c" and q: "starts_with ''}}'' (dropWhile ident_char cs)"
    and n: "n = c # takeWhile ident_char cs" and r: "r = drop 2 (dropWhile ident_char cs)"
    by (auto simp: match_param_def split: if_splits list.splits)
  have "dropWhile ident_char cs = ''}}'' @ r"
    using q r by (auto simp: starts_with_iff)
  then have "cs = takeWhile ident_char cs @ ''}}'' @ r"
    by (metis takeWhile_dropWhile_id)
  moreover have "s = param_open @ c # cs"
    using d p by (metis append_take_drop_id starts_with_def)
  ultimately show "s = param_token n @ r"
    by (simp add: n param_token_def)
  show "is_ident n"
    using c by (auto simp: n is_ident_def list_all_iff dest: set_takeWhileD)
qed

lemma match_param_shorter: "match_param s = Some (n, r) \<Longrightarrow> length r < length s"
  by (drule match_param_Some(1)) (simp add: param_token_def param_open_def)

lemma match_param_token [simp]: "is_ident n \<Longrightarrow> match_param (param_token n @ r) = Some (n, r)"
proof -
  assume n: "is_ident n"
  then obtain c cs where c: "n = c # cs" "ident_start c" "list_all ident_char cs"
    by (auto simp: is_ident_def split: list.splits)
  have t: "takeWhile ident_char (cs @ ''}}'' @ r) = cs"
    using c(3) by (induction cs) (auto simp: ident_char_def is_alnum_def is_digit_def is_lower_def is_upper_def)
  have d: "dropWhile ident_char (cs @ ''}}'' @ r) = ''}}'' @ r"
    using c(3) by (induction cs) (auto simp: ident_char_def is_alnum_def is_digit_def is_lower_def is_upper_def)
  have *: "param_token n @ r = param_open @ c # (cs @ ''}}'' @ r)"
    by (simp add: param_token_def c(1))
  show ?thesis
    unfolding * match_param_def
    using c t d by (simp add: starts_with_def)
qed

lemma match_param_Nil [simp]: "match_param [] = None"
  by (simp add: match_param_def param_open_def starts_with_def)

text \<open>A global replace over the string, left to right, never rescanning what it wrote.\<close>

function replace_params :: "(string \<Rightarrow> string) \<Rightarrow> string \<Rightarrow> string" where
  "replace_params f s =
     (case match_param s of
        Some (n, r) \<Rightarrow> f n @ replace_params f r
      | None \<Rightarrow> (case s of [] \<Rightarrow> [] | c # cs \<Rightarrow> c # replace_params f cs))"
  by pat_completeness auto
termination
  by (relation "measure (\<lambda>(f, s). length s)") (auto dest: match_param_shorter)

declare replace_params.simps [simp del]

lemma replace_params_Nil [simp]: "replace_params f [] = []"
  by (simp add: replace_params.simps)

lemma replace_params_token:
  "is_ident n \<Longrightarrow> replace_params f (param_token n @ r) = f n @ replace_params f r"
  by (subst replace_params.simps) simp

lemma replace_params_char:
  "match_param (c # cs) = None \<Longrightarrow> replace_params f (c # cs) = c # replace_params f cs"
  by (subst replace_params.simps) simp

text \<open>The tokens of a string, in order: what the global pattern visits.\<close>

function param_names :: "string \<Rightarrow> string list" where
  "param_names s =
     (case match_param s of
        Some (n, r) \<Rightarrow> n # param_names r
      | None \<Rightarrow> (case s of [] \<Rightarrow> [] | c # cs \<Rightarrow> param_names cs))"
  by pat_completeness auto
termination
  by (relation "measure length") (auto dest: match_param_shorter)

declare param_names.simps [simp del]

lemma replace_params_cong:
  "(\<And>n. n \<in> set (param_names s) \<Longrightarrow> f n = g n) \<Longrightarrow> replace_params f s = replace_params g s"
proof (induction s rule: param_names.induct)
  case (1 s)
  show ?case
  proof (cases "match_param s")
    case None
    then show ?thesis
      using 1 by (subst (1 2) replace_params.simps) (auto simp: param_names.simps [of s] split: list.splits)
  next
    case (Some a)
    obtain n r where a: "a = (n, r)" by (cases a)
    have "replace_params f r = replace_params g r"
      using 1(2) [OF Some a [symmetric]] 1(3) Some a by (simp add: param_names.simps [of s])
    moreover have "f n = g n"
      using 1(3) Some a by (simp add: param_names.simps [of s])
    ultimately show ?thesis
      using Some a by (simp add: replace_params.simps [of _ s])
  qed
qed

lemma replace_params_id: "param_names s = [] \<Longrightarrow> replace_params f s = s"
proof (induction s rule: param_names.induct)
  case (1 s)
  then show ?case
    by (subst replace_params.simps) (auto simp: param_names.simps [of s] split: list.splits option.splits)
qed


section \<open>Substitution\<close>

definition param_text :: "jobject \<Rightarrow> string \<Rightarrow> string" where
  "param_text ps n = (case js_get ps n of None \<Rightarrow> [] | Some v \<Rightarrow> js_string v)"

definition param_value :: "jobject \<Rightarrow> string \<Rightarrow> json" where
  "param_value ps n = (case js_get ps n of None \<Rightarrow> JStr [] | Some v \<Rightarrow> v)"

fun substitute :: "jobject \<Rightarrow> json \<Rightarrow> json" where
  "substitute ps (JStr s) =
     (case match_whole s of
        Some n \<Rightarrow> param_value ps n
      | None \<Rightarrow> JStr (replace_params (param_text ps) s))"
| "substitute ps (JArr xs) = JArr (map (substitute ps) xs)"
| "substitute ps (JObj es) = JObj (js_assign (map (\<lambda>(k, v). (k, substitute ps v)) es))"
| "substitute ps v = v"

definition substitute_object :: "jobject \<Rightarrow> jobject \<Rightarrow> jobject" where
  "substitute_object ps es = js_assign (map (\<lambda>(k, v). (k, substitute ps v)) es)"

section \<open>Edge endpoints and the prefix\<close>

definition node_part :: "string \<Rightarrow> string" where
  "node_part ref = takeWhile (\<lambda>c. c \<noteq> CHR ''.'') ref"

definition port_part :: "string \<Rightarrow> string" where
  "port_part ref = dropWhile (\<lambda>c. c \<noteq> CHR ''.'') ref"

definition rewriteEdgeRef :: "string \<Rightarrow> string list \<Rightarrow> string \<Rightarrow> string" where
  "rewriteEdgeRef ref fragmentNodeIds prefix' =
     (if node_part ref \<in> set fragmentNodeIds
      then prefix' @ node_part ref @ port_part ref
      else ref)"

definition undot :: "string \<Rightarrow> string" where
  "undot s = map (\<lambda>c. if c = CHR ''.'' then CHR ''_'' else c) s"

definition computePrefix :: "string \<Rightarrow> string \<Rightarrow> string" where
  "computePrefix chainId expansionId = undot chainId @ ''_'' @ expansionId @ ''_''"

definition id_map :: "string \<Rightarrow> string list \<Rightarrow> (string \<times> string) list" where
  "id_map prefix' ids = map (\<lambda>i. (i, prefix' @ i)) (uniq ids)"

definition rewrite_edge :: "string list \<Rightarrow> string \<Rightarrow> fragment_edge \<Rightarrow> fragment_edge" where
  "rewrite_edge ids prefix' e =
     \<lparr>fe_from = rewriteEdgeRef (fe_from e) ids prefix',
      fe_to = rewriteEdgeRef (fe_to e) ids prefix',
      fe_condition = fe_condition e,
      fe_triggerRule = fe_triggerRule e\<rparr>"

text \<open>Capabilities reach a node only when the chain's array is present and not empty.\<close>

definition propagated_capabilities :: "('n, 'z) workflow_chain_scheme \<Rightarrow> string list option" where
  "propagated_capabilities chain =
     (case wc_capabilities chain of None \<Rightarrow> None | Some cs \<Rightarrow> if cs = [] then None else Some cs)"

section \<open>\<open>expandChain\<close>\<close>

definition check_type_ids ::
  "(string \<Rightarrow> bool) \<Rightarrow> ('x fragment_node_scheme, 'z) workflow_chain_scheme \<Rightarrow> chain_error option" where
  "check_type_ids resolvable chain =
     first_error (\<lambda>n. if resolvable (fn_typeId n) then None
                       else Some (ChainUnresolvableTypeId (fn_typeId n) (wc_chainId chain)))
       (wc_nodes chain)"

definition expand_node ::
  "jobject \<Rightarrow> string \<Rightarrow> string list option \<Rightarrow> 'x fragment_node_scheme \<Rightarrow> expanded_node" where
  "expand_node ps prefix' caps n =
     \<lparr>xn_id = prefix' @ fn_id n,
      xn_typeId = fn_typeId n,
      xn_name = fn_name n,
      xn_position = fn_position n,
      xn_config = map_option (substitute_object ps) (fn_config n),
      xn_inputs = map_option (substitute_object ps) (fn_inputs n),
      xn_capabilities = caps\<rparr>"

definition expandChain ::
  "('x fragment_node_scheme, 'z) workflow_chain_scheme \<Rightarrow> expansion_context \<Rightarrow>
   chain_error + expanded_node expanded_fragment" where
  "expandChain chain ctx =
     (case check_type_ids (ec_resolvable ctx) chain of
        Some e \<Rightarrow> Inl e
      | None \<Rightarrow>
          let prefix' = computePrefix (wc_chainId chain) (ec_expansionId ctx);
              ids = map fn_id (wc_nodes chain)
          in Inr \<lparr>xf_nodes = map (expand_node (ec_params ctx) prefix' (propagated_capabilities chain)) (wc_nodes chain),
                  xf_edges = map (rewrite_edge ids prefix') (case wc_edges chain of None \<Rightarrow> [] | Some es \<Rightarrow> es),
                  xf_idMap = id_map prefix' ids\<rparr>)"


section \<open>Facts about substitution\<close>

text \<open>The tokens anywhere in a value (member keys are never substituted).\<close>

fun json_tokens :: "json \<Rightarrow> string list" where
  "json_tokens (JStr s) = param_names s"
| "json_tokens (JArr xs) = concat (map json_tokens xs)"
| "json_tokens (JObj es) = concat (map (\<lambda>(k, v). json_tokens v) es)"
| "json_tokens v = []"

text \<open>No object of the value has an own \<open>__proto__\<close> member.\<close>

fun no_proto_keys :: "json \<Rightarrow> bool" where
  "no_proto_keys (JArr xs) = (\<forall>x \<in> set xs. no_proto_keys x)"
| "no_proto_keys (JObj es) = (''__proto__'' \<notin> fst ` set es \<and> (\<forall>(k, v) \<in> set es. no_proto_keys v))"
| "no_proto_keys v = True"

lemma match_whole_names: "match_whole s = Some n \<Longrightarrow> param_names s = [n]"
  by (auto simp: match_whole_def param_names.simps [of s] param_names.simps [of "[]"]
      split: option.splits list.splits)

lemma match_whole_Some: "match_whole s = Some n \<longleftrightarrow> is_ident n \<and> s = param_token n"
proof
  assume "match_whole s = Some n"
  then have "match_param s = Some (n, [])"
    by (auto simp: match_whole_def split: option.splits list.splits)
  from match_param_Some [OF this] show "is_ident n \<and> s = param_token n" by simp
next
  assume "is_ident n \<and> s = param_token n"
  then show "match_whole s = Some n"
    using match_param_token [of n "[]"] by (simp add: match_whole_def)
qed

lemma map_fst_entries: "map fst (map (\<lambda>(k, v). (k, f v)) es) = map fst es"
  by (induction es) auto

lemma fst_set_entries: "fst ` set (map (\<lambda>(k, v). (k, f v)) es) = fst ` set es"
  by (induction es) auto

lemma substitute_cong_tokens:
  "(\<And>n. n \<in> set (json_tokens v) \<Longrightarrow> js_get ps n = js_get qs n) \<Longrightarrow> substitute ps v = substitute qs v"
proof (induction v rule: json_induct)
  case (Str s)
  show ?case
  proof (cases "match_whole s")
    case None
    have "replace_params (param_text ps) s = replace_params (param_text qs) s"
      using Str by (intro replace_params_cong) (simp add: param_text_def)
    with None show ?thesis by simp
  next
    case (Some n)
    with Str [of n] match_whole_names [OF Some] show ?thesis
      by (simp add: param_value_def)
  qed
next
  case (Arr xs)
  then show ?case by auto
next
  case (Obj es)
  have "substitute ps w = substitute qs w" if "(k, w) \<in> set es" for k w
    using Obj(1) [OF that] Obj(2) that by force
  then have "map (\<lambda>(k, v). (k, substitute ps v)) es = map (\<lambda>(k, v). (k, substitute qs v)) es"
    by (intro map_cong refl) auto
  then show ?case by (simp only: substitute.simps)
qed simp_all

lemma substitute_no_tokens:
  "wf_json v \<Longrightarrow> no_proto_keys v \<Longrightarrow> json_tokens v = [] \<Longrightarrow> substitute ps v = v"
proof (induction v rule: json_induct)
  case (Str s)
  then show ?case
    by (auto simp: replace_params_id split: option.splits dest: match_whole_names)
next
  case (Arr xs)
  then show ?case by (auto intro!: map_idI)
next
  case (Obj es)
  have "substitute ps w = w" if "(k, w) \<in> set es" for k w
    using Obj(1) [OF that] Obj(2-) that by fastforce
  then have "map (\<lambda>(k, v). (k, substitute ps v)) es = es"
    by (intro map_idI) auto
  with Obj(2-) show ?case by (simp add: js_assign_plain)
qed simp_all

text \<open>The text a global replace produces, over the decomposition of the source into tokens.\<close>

function text_segments :: "string \<Rightarrow> (char + string) list" where
  "text_segments s =
     (case match_param s of
        Some (n, r) \<Rightarrow> Inr n # text_segments r
      | None \<Rightarrow> (case s of [] \<Rightarrow> [] | c # cs \<Rightarrow> Inl c # text_segments cs))"
  by pat_completeness auto
termination
  by (relation "measure length") (auto dest: match_param_shorter)

declare text_segments.simps [simp del]

definition render_segments :: "(string \<Rightarrow> string) \<Rightarrow> (char + string) list \<Rightarrow> string" where
  "render_segments f = concat \<circ> map (case_sum (\<lambda>c. [c]) f)"

lemma render_segments_source: "render_segments param_token (text_segments s) = s"
proof (induction s rule: text_segments.induct)
  case (1 s)
  then show ?case
    by (subst text_segments.simps)
      (auto simp: render_segments_def split: option.splits list.splits dest: match_param_Some(1))
qed

lemma render_segments_replace: "render_segments f (text_segments s) = replace_params f s"
proof (induction s rule: text_segments.induct)
  case (1 s)
  then show ?case
    by (subst text_segments.simps, subst replace_params.simps)
      (auto simp: render_segments_def split: option.splits list.splits)
qed

section \<open>Facts about identifiers and edges\<close>

lemma undot_no_dot: "CHR ''.'' \<notin> set (undot s)"
  by (auto simp: undot_def)

lemma computePrefix_no_dot: "CHR ''.'' \<notin> set e \<Longrightarrow> CHR ''.'' \<notin> set (computePrefix c e)"
  using undot_no_dot [of c] by (auto simp: computePrefix_def)

lemma node_part_port_part: "node_part ref @ port_part ref = ref"
  by (simp add: node_part_def port_part_def)

lemma takeWhile_prefix: "x \<notin> set p \<Longrightarrow> takeWhile (\<lambda>c. c \<noteq> x) (p @ s) = p @ takeWhile (\<lambda>c. c \<noteq> x) s"
  by (induction p) auto

lemma dropWhile_prefix: "x \<notin> set p \<Longrightarrow> dropWhile (\<lambda>c. c \<noteq> x) (p @ s) = dropWhile (\<lambda>c. c \<noteq> x) s"
  by (induction p) auto

lemma node_part_prefix: "CHR ''.'' \<notin> set p \<Longrightarrow> node_part (p @ r) = p @ node_part r"
  unfolding node_part_def by (rule takeWhile_prefix)

lemma port_part_prefix: "CHR ''.'' \<notin> set p \<Longrightarrow> port_part (p @ r) = port_part r"
  unfolding port_part_def by (rule dropWhile_prefix)

lemma rewriteEdgeRef_known: "node_part ref \<in> set ids \<Longrightarrow> rewriteEdgeRef ref ids p = p @ ref"
  by (simp add: rewriteEdgeRef_def node_part_port_part)

lemma rewriteEdgeRef_parts:
  assumes "CHR ''.'' \<notin> set p" and "node_part ref \<in> set ids"
  shows "node_part (rewriteEdgeRef ref ids p) = p @ node_part ref"
    and "port_part (rewriteEdgeRef ref ids p) = port_part ref"
  by (simp_all only: rewriteEdgeRef_known [OF assms(2)] node_part_prefix [OF assms(1)]
      port_part_prefix [OF assms(1)])

lemma rewriteEdgeRef_foreign: "node_part ref \<notin> set ids \<Longrightarrow> rewriteEdgeRef ref ids p = ref"
  by (simp add: rewriteEdgeRef_def)

definition fragment_edges :: "('n, 'z) workflow_chain_scheme \<Rightarrow> fragment_edge list" where
  "fragment_edges chain = (case wc_edges chain of None \<Rightarrow> [] | Some es \<Rightarrow> es)"

lemma expandChain_Inr:
  "expandChain chain ctx = Inr f \<longleftrightarrow>
     (\<forall>n \<in> set (wc_nodes chain). ec_resolvable ctx (fn_typeId n)) \<and>
     f = \<lparr>xf_nodes = map (expand_node (ec_params ctx) (computePrefix (wc_chainId chain) (ec_expansionId ctx))
                         (propagated_capabilities chain)) (wc_nodes chain),
         xf_edges = map (rewrite_edge (map fn_id (wc_nodes chain))
                         (computePrefix (wc_chainId chain) (ec_expansionId ctx))) (fragment_edges chain),
         xf_idMap = id_map (computePrefix (wc_chainId chain) (ec_expansionId ctx)) (map fn_id (wc_nodes chain))\<rparr>"
proof (cases "check_type_ids (ec_resolvable ctx) chain")
  case None
  then have "\<forall>n \<in> set (wc_nodes chain). ec_resolvable ctx (fn_typeId n)"
    by (auto simp: check_type_ids_def first_error_None_iff split: if_splits)
  with None show ?thesis
    by (auto simp: expandChain_def fragment_edges_def Let_def)
next
  case (Some e)
  then obtain n where "n \<in> set (wc_nodes chain)" "\<not> ec_resolvable ctx (fn_typeId n)"
    by (auto simp: check_type_ids_def dest!: first_error_Some_in split: if_splits)
  with Some show ?thesis by (auto simp: expandChain_def)
qed

lemma expandChain_nodes:
  "expandChain chain ctx = Inr f \<Longrightarrow>
   xf_nodes f = map (expand_node (ec_params ctx) (computePrefix (wc_chainId chain) (ec_expansionId ctx))
                       (propagated_capabilities chain)) (wc_nodes chain)"
  by (simp add: expandChain_Inr)

lemma expandChain_node_ids:
  "expandChain chain ctx = Inr f \<Longrightarrow>
   map xn_id (xf_nodes f) =
   map (\<lambda>n. computePrefix (wc_chainId chain) (ec_expansionId ctx) @ fn_id n) (wc_nodes chain)"
  by (simp add: expandChain_nodes expand_node_def comp_def)


lemma expandChain_total:
  "\<forall>n \<in> set (wc_nodes chain). ec_resolvable ctx (fn_typeId n) \<Longrightarrow> \<exists>f. expandChain chain ctx = Inr f"
  by (simp add: expandChain_Inr)

section \<open>A sample chain\<close>

text \<open>Used by the witnesses of the properties about chains.\<close>

definition sample_node :: "string \<Rightarrow> jobject \<Rightarrow> fragment_node" where
  "sample_node i cfg =
     \<lparr>fn_id = i, fn_typeId = ''core.noop'', fn_name = None, fn_position = None, fn_config = Some cfg, fn_inputs = None\<rparr>"

definition sample_edge :: "string \<Rightarrow> string \<Rightarrow> fragment_edge" where
  "sample_edge a b = \<lparr>fe_from = a, fe_to = b, fe_condition = None, fe_triggerRule = Some All_success\<rparr>"

definition sample_chain_of :: "string \<Rightarrow> 'n list \<Rightarrow> fragment_edge list \<Rightarrow> sub_chain_ref list \<Rightarrow> 'n workflow_chain" where
  "sample_chain_of i ns es subs =
     \<lparr>wc_chainId = i, wc_version = ''1.0.0'', wc_label = ''Sample'', wc_description = [], wc_parameters = [],
      wc_nodes = ns, wc_edges = Some es, wc_outputs = None, wc_capabilities = Some [''streamable''],
      wc_subChains = Some subs, wc_producedVariables = None\<rparr>"

definition sample_chain :: "fragment_node workflow_chain" where
  "sample_chain = sample_chain_of ''acme.demo''
     [sample_node ''draft'' [(''prompt'', JStr ''{{params.topic}}'')], sample_node ''review'' []]
     [sample_edge ''draft.out'' ''review''] []"

definition sample_ctx :: "string \<Rightarrow> expansion_context" where
  "sample_ctx e = \<lparr>ec_expansionId = e, ec_params = [(''topic'', JStr ''cats'')], ec_resolvable = (\<lambda>t. starts_with ''core.'' t)\<rparr>"

lemma sample_chain_expands: "\<exists>f. expandChain sample_chain (sample_ctx e) = Inr f"
  by (rule expandChain_total)
    (simp add: sample_chain_def sample_chain_of_def sample_node_def sample_ctx_def starts_with_def)

section \<open>Properties of the base expansion\<close>

lemma append_eq_same_length: "length a = length b \<Longrightarrow> a @ c = b @ d \<longleftrightarrow> a = b \<and> c = d"
  by (rule append_eq_append_conv) simp

lemma computePrefix_eq_iff:
  "length e1 = length e2 \<Longrightarrow>
   computePrefix c e1 @ a = computePrefix c e2 @ b \<longleftrightarrow> e1 = e2 \<and> a = b"
  by (simp add: computePrefix_def append_eq_same_length)

text \<open>
  Expanding one chain twice with two different expansion ids of the same length (the
  code suggests four hex digits) gives fragments with no node id in common, and a fragment whose
  node ids are distinct keeps them distinct.
\<close>

theorem expansions_disjoint:
  assumes "expandChain chain c1 = Inr f1" and "expandChain chain c2 = Inr f2"
    and "length (ec_expansionId c1) = length (ec_expansionId c2)"
    and "ec_expansionId c1 \<noteq> ec_expansionId c2"
    and "distinct (map fn_id (wc_nodes chain))"
  shows "set (map xn_id (xf_nodes f1)) \<inter> set (map xn_id (xf_nodes f2)) = {} \<and>
         distinct (map xn_id (xf_nodes f1))"
proof
  show "set (map xn_id (xf_nodes f1)) \<inter> set (map xn_id (xf_nodes f2)) = {}"
    unfolding expandChain_node_ids [OF assms(1)] expandChain_node_ids [OF assms(2)]
    using assms(3,4) by (auto simp: computePrefix_eq_iff)
  show "distinct (map xn_id (xf_nodes f1))"
    unfolding expandChain_node_ids [OF assms(1)]
    using assms(5) by (auto simp: distinct_map inj_on_def)
qed

theorem expansions_disjoint_witness:
  "\<exists>f1 f2. expandChain sample_chain (sample_ctx ''a1f0'') = Inr f1 \<and>
     expandChain sample_chain (sample_ctx ''b2e9'') = Inr f2 \<and>
     set (map xn_id (xf_nodes f1)) \<inter> set (map xn_id (xf_nodes f2)) = {} \<and>
     distinct (map xn_id (xf_nodes f1))"
proof -
  obtain f1 f2 where f: "expandChain sample_chain (sample_ctx ''a1f0'') = Inr f1"
      "expandChain sample_chain (sample_ctx ''b2e9'') = Inr f2"
    using sample_chain_expands by blast
  have "distinct (map fn_id (wc_nodes sample_chain))"
    by (simp add: sample_chain_def sample_chain_of_def sample_node_def)
  with f expansions_disjoint [OF f] show ?thesis by (simp add: sample_ctx_def)
qed

text \<open>
  If every edge endpoint of the fragment names a fragment node (with or without a
  port) and the expansion id has no dot, every endpoint of the expanded edges names an expanded
  node, and the number and the port of every endpoint, the condition and the trigger rule are
  those of the source.
\<close>

theorem expanded_edges_closed:
  assumes "expandChain chain ctx = Inr f"
    and "CHR ''.'' \<notin> set (ec_expansionId ctx)"
    and "\<forall>e \<in> set (fragment_edges chain).
           node_part (fe_from e) \<in> set (map fn_id (wc_nodes chain)) \<and>
           node_part (fe_to e) \<in> set (map fn_id (wc_nodes chain))"
  shows "(\<forall>e \<in> set (xf_edges f).
           node_part (fe_from e) \<in> set (map xn_id (xf_nodes f)) \<and>
           node_part (fe_to e) \<in> set (map xn_id (xf_nodes f))) \<and>
         map (\<lambda>e. (port_part (fe_from e), port_part (fe_to e), fe_condition e, fe_triggerRule e)) (xf_edges f) =
         map (\<lambda>e. (port_part (fe_from e), port_part (fe_to e), fe_condition e, fe_triggerRule e)) (fragment_edges chain)"
proof -
  let ?p = "computePrefix (wc_chainId chain) (ec_expansionId ctx)"
  let ?ids = "map fn_id (wc_nodes chain)"
  have p: "CHR ''.'' \<notin> set ?p" by (rule computePrefix_no_dot [OF assms(2)])
  have edges: "xf_edges f = map (rewrite_edge ?ids ?p) (fragment_edges chain)"
    using assms(1) by (simp add: expandChain_Inr)
  have ids: "set (map xn_id (xf_nodes f)) = (\<lambda>i. ?p @ i) ` set ?ids"
    unfolding expandChain_node_ids [OF assms(1)] by auto
  note parts = rewriteEdgeRef_parts [OF p]
  have "\<forall>e \<in> set (xf_edges f).
           node_part (fe_from e) \<in> set (map xn_id (xf_nodes f)) \<and>
           node_part (fe_to e) \<in> set (map xn_id (xf_nodes f))"
  proof
    fix e
    assume "e \<in> set (xf_edges f)"
    then obtain d where d: "d \<in> set (fragment_edges chain)" and e: "e = rewrite_edge ?ids ?p d"
      unfolding edges by auto
    from d assms(3) have "node_part (fe_from d) \<in> set ?ids" and "node_part (fe_to d) \<in> set ?ids"
      by blast+
    then show "node_part (fe_from e) \<in> set (map xn_id (xf_nodes f)) \<and>
          node_part (fe_to e) \<in> set (map xn_id (xf_nodes f))"
      unfolding ids e rewrite_edge_def fragment_edge.simps by (simp only: parts(1)) blast
  qed
  moreover have "map (\<lambda>e. (port_part (fe_from e), port_part (fe_to e), fe_condition e, fe_triggerRule e)) (xf_edges f) =
        map (\<lambda>e. (port_part (fe_from e), port_part (fe_to e), fe_condition e, fe_triggerRule e)) (fragment_edges chain)"
    unfolding edges using assms(3) by (simp add: rewrite_edge_def parts)
  ultimately show ?thesis by blast
qed

theorem expanded_edges_closed_witness:
  "\<exists>f. expandChain sample_chain (sample_ctx ''a1f0'') = Inr f \<and>
     (\<forall>e \<in> set (xf_edges f). node_part (fe_from e) \<in> set (map xn_id (xf_nodes f)))"
proof -
  obtain f where f: "expandChain sample_chain (sample_ctx ''a1f0'') = Inr f"
    using sample_chain_expands by blast
  have "\<forall>e \<in> set (fragment_edges sample_chain).
           node_part (fe_from e) \<in> set (map fn_id (wc_nodes sample_chain)) \<and>
           node_part (fe_to e) \<in> set (map fn_id (wc_nodes sample_chain))"
    by (simp add: fragment_edges_def sample_chain_def sample_chain_of_def sample_node_def sample_edge_def node_part_def)
  moreover have "CHR ''.'' \<notin> set (ec_expansionId (sample_ctx ''a1f0''))" by (simp add: sample_ctx_def)
  ultimately show ?thesis using f expanded_edges_closed [OF f] by blast
qed

text \<open>
  A value without tokens (and without an own \<open>__proto__\<close> member) passes through
  substitution unchanged, whatever the parameters; and substitution reads only the parameters
  the value's tokens name.
\<close>

theorem substitution_frame:
  "(wf_json v \<and> no_proto_keys v \<and> json_tokens v = [] \<longrightarrow> substitute ps v = v) \<and>
   ((\<forall>n \<in> set (json_tokens w). js_get ps n = js_get qs n) \<longrightarrow> substitute ps w = substitute qs w)"
  by (auto intro: substitute_no_tokens substitute_cong_tokens)

theorem substitution_frame_witness:
  "substitute [(''topic'', JNum 3)] (JObj [(''a'', JStr ''plain''), (''b'', JArr [JNum 1])]) =
     JObj [(''a'', JStr ''plain''), (''b'', JArr [JNum 1])] \<and>
   substitute [(''topic'', JNum 3), (''x'', JNull)] (JArr [JStr ''{{params.topic}}'']) =
     substitute [(''topic'', JNum 3)] (JArr [JStr ''{{params.topic}}''])"
proof
  have "wf_json (JObj [(''a'', JStr ''plain''), (''b'', JArr [JNum 1])]) \<and>
      no_proto_keys (JObj [(''a'', JStr ''plain''), (''b'', JArr [JNum 1])]) \<and>
      json_tokens (JObj [(''a'', JStr ''plain''), (''b'', JArr [JNum 1])]) = []"
    by code_simp
  then show "substitute [(''topic'', JNum 3)] (JObj [(''a'', JStr ''plain''), (''b'', JArr [JNum 1])]) =
     JObj [(''a'', JStr ''plain''), (''b'', JArr [JNum 1])]"
    using substitution_frame by blast
  have "\<forall>n \<in> set (json_tokens (JArr [JStr ''{{params.topic}}''])).
      js_get [(''topic'', JNum 3), (''x'', JNull)] n = js_get [(''topic'', JNum 3)] n"
    by code_simp
  then show "substitute [(''topic'', JNum 3), (''x'', JNull)] (JArr [JStr ''{{params.topic}}'']) =
     substitute [(''topic'', JNum 3)] (JArr [JStr ''{{params.topic}}''])"
    using substitution_frame by blast
qed

lemma not_one_token:
  "\<nexists>n. segs = [Inr n] \<Longrightarrow> (case segs of [Inr n] \<Rightarrow> g n | xs \<Rightarrow> h xs) = h segs"
  by (auto split: list.splits sum.splits)

text \<open>
  A string decomposes into literal characters and tokens; a string that is exactly one
  token becomes the raw typed value of its parameter, and any other string becomes its literal
  characters with each token replaced by the parameter's text, in one pass that never rescans
  a replacement.
\<close>

theorem substitution_by_segments:
  "render_segments param_token (text_segments s) = s \<and>
   substitute ps (JStr s) =
     (case text_segments s of
        [Inr n] \<Rightarrow> param_value ps n
      | segs \<Rightarrow> JStr (render_segments (param_text ps) segs))"
proof (cases "match_whole s")
  case None
  then have "\<nexists>n. text_segments s = [Inr n]"
    by (auto simp: match_whole_def text_segments.simps [of s] text_segments.simps [of "_ # _"]
        split: option.splits list.splits)
  then have "(case text_segments s of [Inr n] \<Rightarrow> param_value ps n
       | segs \<Rightarrow> JStr (render_segments (param_text ps) segs)) =
     JStr (render_segments (param_text ps) (text_segments s))"
    by (rule not_one_token)
  with None render_segments_source [of s] show ?thesis
    by (simp add: render_segments_replace)
next
  case (Some n)
  then have "text_segments s = [Inr n]"
    by (auto simp: match_whole_def text_segments.simps [of s] text_segments.simps [of "[]"]
        split: option.splits list.splits)
  with Some show ?thesis
    using render_segments_source [of s] by simp
qed

text \<open>
  An undeclared parameter named like a member of \<open>Object.prototype\<close> is not replaced by
  the empty string: the plain read \<open>params[name]\<close> finds the inherited function, which a whole-value
  token puts in the node and an embedded token prints. Any other undeclared name gives the empty string.
\<close>

theorem undeclared_parameter:
  "substitute [] (JStr ''{{params.constructor}}'') = JNative ''Object'' \<and>
   substitute [] (JStr ''a {{params.toString}}'') = JStr ''a function toString() { [native code] }'' \<and>
   (proto_member n = None \<and> n \<notin> fst ` set ps \<longrightarrow> param_value ps n = JStr [] \<and> param_text ps n = [])"
proof -
  have "match_whole ''{{params.constructor}}'' = Some ''constructor''" by code_simp
  moreover have "match_whole ''a {{params.toString}}'' = None" by code_simp
  moreover have "replace_params (param_text []) ''a {{params.toString}}'' =
      ''a function toString() { [native code] }''" by code_simp
  moreover have "param_value [] ''constructor'' = JNative ''Object''" by code_simp
  moreover have "proto_member n = None \<and> n \<notin> fst ` set ps \<longrightarrow> param_value ps n = JStr [] \<and> param_text ps n = []"
    by (simp add: param_value_def param_text_def js_get_plain map_of_eq_None_iff [THEN iffD2])
  ultimately show ?thesis by simp
qed

theorem undeclared_parameter_witness:
  "proto_member ''topic'' = None \<and> param_value [] ''topic'' = JStr [] \<and> param_text [] ''topic'' = []"
proof -
  have "proto_member ''topic'' = None" by code_simp
  then show ?thesis using undeclared_parameter [of "''topic''" "[]"] by simp
qed

end
