(* ===== verification/Json_Print.thy ===== *)
theory Json_Print
  imports Json "HOL-Library.List_Lexorder" "HOL-Library.Char_ord"
begin

text \<open>
  Printing JSON: the compact form with the members in the order they have (\<open>print_json\<close>), the
  form with sorted keys the code calls \<open>canonicalJson\<close>, and the theorem that the second decides
  deep equality: two values print alike exactly when they are equal up to the order of members.
\<close>

fun prim_text :: "json \<Rightarrow> string" where
  "prim_text JNull = ''null''"
| "prim_text (JBool b) = (if b then ''true'' else ''false'')"
| "prim_text (JNum n) = int_str n"
| "prim_text (JStr s) = stringify_string s"
| "prim_text v = ''undefined''"

fun print_json :: "json \<Rightarrow> string" where
  "print_json (JArr xs) = ''['' @ join '','' (map print_json xs) @ '']''"
| "print_json (JObj es) =
     ''{'' @ join '','' (map (\<lambda>(k, v). stringify_string k @ '':'' @ print_json v) es) @ ''}''"
| "print_json v = prim_text v"

text \<open>\<open>Object.keys(o).sort()\<close>: code-unit order, which is the order of \<open>char\<close>.\<close>

fun canonicalJson :: "json \<Rightarrow> string" where
  "canonicalJson (JArr xs) = ''['' @ join '','' (map canonicalJson xs) @ '']''"
| "canonicalJson (JObj es) =
     ''{'' @ join '','' (map (\<lambda>(k, t). stringify_string k @ '':'' @ t)
        (sort_key fst (map (\<lambda>(k, v). (k, canonicalJson v)) es))) @ ''}''"
| "canonicalJson v = prim_text v"

fun norm_json :: "json \<Rightarrow> json" where
  "norm_json (JArr xs) = JArr (map norm_json xs)"
| "norm_json (JObj es) = JObj (sort_key fst (map (\<lambda>(k, v). (k, norm_json v)) es))"
| "norm_json v = v"

text \<open>Deep equality up to the order of members.\<close>

fun deep_equal :: "json \<Rightarrow> json \<Rightarrow> bool" where
  "deep_equal (JArr xs) w = (case w of JArr ys \<Rightarrow> list_all2 deep_equal xs ys | _ \<Rightarrow> False)"
| "deep_equal (JObj es) w =
     (case w of JObj fs \<Rightarrow>
        fst ` set es = fst ` set fs \<and>
        (\<forall>(k, v) \<in> set es. case map_of fs k of None \<Rightarrow> False | Some u \<Rightarrow> deep_equal v u)
      | _ \<Rightarrow> False)"
| "deep_equal v w = (v = w)"

section \<open>The printed form of a value is its normal form's\<close>

lemma sort_key_map_snd:
  "map (\<lambda>(k, v). (k, f v)) (sort_key fst es) = sort_key fst (map (\<lambda>(k, v). (k, f v)) es)"
proof -
  have ins: "map (\<lambda>(k, v). (k, f v)) (insort_key fst p es) =
      insort_key fst (case p of (k, v) \<Rightarrow> (k, f v)) (map (\<lambda>(k, v). (k, f v)) es)" for p es
    by (induction es) (auto split: prod.splits)
  show ?thesis
    by (induction es) (auto simp: ins)
qed

lemma map_entries_comp: "map (\<lambda>(k, t). g k t) (map (\<lambda>(k, v). (k, f v)) es) = map (\<lambda>(k, v). g k (f v)) es"
  by (induction es) auto

lemma canonicalJson_print: "canonicalJson v = print_json (norm_json v)"
proof (induction v rule: json_induct)
  case (Arr xs)
  then have "map canonicalJson xs = map print_json (map norm_json xs)" by simp
  then show ?case by (simp only: canonicalJson.simps norm_json.simps print_json.simps)
next
  case (Obj es)
  have "map (\<lambda>(k, v). (k, canonicalJson v)) es = map (\<lambda>(k, v). (k, print_json v)) (map (\<lambda>(k, v). (k, norm_json v)) es)"
    using Obj by (auto intro!: map_cong)
  then have "sort_key fst (map (\<lambda>(k, v). (k, canonicalJson v)) es) =
      map (\<lambda>(k, v). (k, print_json v)) (sort_key fst (map (\<lambda>(k, v). (k, norm_json v)) es))"
    by (simp only: sort_key_map_snd)
  then show ?case
    by (simp only: canonicalJson.simps norm_json.simps print_json.simps map_entries_comp)
qed simp_all

section \<open>Printing is injective\<close>

text \<open>A printed value is followed by the end, a comma or a closing bracket.\<close>

definition delim :: "string \<Rightarrow> bool" where
  "delim r = (r = [] \<or> hd r \<in> {CHR '','', CHR '']'', CHR ''}''})"

lemma delim_simps [simp]:
  "delim []" "delim (CHR '','' # r)" "delim (CHR '']'' # r)" "delim (CHR ''}'' # r)"
  by (simp_all add: delim_def)

lemma digits_append_unique:
  assumes "list_all P xs" "list_all P ys" "r = [] \<or> \<not> P (hd r)" "s = [] \<or> \<not> P (hd s)"
    and "xs @ r = ys @ s"
  shows "xs = ys \<and> r = s"
proof -
  have "takeWhile P (zs @ t) = zs" if "list_all P zs" "t = [] \<or> \<not> P (hd t)" for zs t
    using that by (induction zs) (auto split: list.splits simp: takeWhile_eq_Nil_iff)
  with assms have "xs = ys" by metis
  with assms(5) show ?thesis by simp
qed

lemma delim_not_digit: "delim r \<Longrightarrow> r = [] \<or> \<not> is_digit (hd r)"
  by (auto simp: delim_def is_digit_def)

lemma digit_not_minus: "is_digit c \<Longrightarrow> c \<noteq> CHR ''-''"
  by (auto simp: is_digit_def)

lemma int_str_shape: "int_str i = (if i < 0 then ''-'' else []) @ nat_digits (nat \<bar>i\<bar>)"
  by (simp add: int_str_def)

lemma nat_digits_Cons: "\<exists>c cs. nat_digits n = c # cs \<and> is_digit c"
  using nat_digits_nonempty [of n] nat_digits_digits [of n] by (cases "nat_digits n") auto

lemma int_str_inj:
  assumes "delim r" "delim s" "int_str i @ r = int_str j @ s"
  shows "i = j \<and> r = s"
proof -
  obtain c cs where c: "nat_digits (nat \<bar>i\<bar>) = c # cs" "is_digit c" using nat_digits_Cons by blast
  obtain d ds where d: "nat_digits (nat \<bar>j\<bar>) = d # ds" "is_digit d" using nat_digits_Cons by blast
  have sgn: "i < 0 \<longleftrightarrow> j < 0"
    using assms(3) c d by (auto simp: int_str_shape dest: digit_not_minus split: if_splits)
  with assms(3) have "nat_digits (nat \<bar>i\<bar>) @ r = nat_digits (nat \<bar>j\<bar>) @ s"
    by (simp add: int_str_shape split: if_splits)
  then have "nat_digits (nat \<bar>i\<bar>) = nat_digits (nat \<bar>j\<bar>) \<and> r = s"
    using assms(1,2) by (intro digits_append_unique [where P = is_digit])
      (auto simp: nat_digits_digits dest: delim_not_digit)
  then have "nat \<bar>i\<bar> = nat \<bar>j\<bar>" "r = s" by (auto dest: nat_digits_inj)
  with sgn show ?thesis by auto
qed

text \<open>String literals: a decoder for one escaped character shows the escapes are a prefix code.\<close>

definition hex_value :: "char \<Rightarrow> nat" where
  "hex_value c = (let n = of_char c :: nat in if n < 58 then n - 48 else n - 87)"

definition unescape_one :: "string \<Rightarrow> (char \<times> string) option" where
  "unescape_one s =
     (case s of
        [] \<Rightarrow> None
      | c # cs \<Rightarrow>
          if c \<noteq> CHR 92 then Some (c, cs)
          else (case cs of
            [] \<Rightarrow> None
          | e # t \<Rightarrow>
              if e = CHR ''b'' then Some (CHR 8, t)
              else if e = CHR ''f'' then Some (CHR 12, t)
              else if e = CHR ''n'' then Some (CHR 10, t)
              else if e = CHR ''r'' then Some (CHR 13, t)
              else if e = CHR ''t'' then Some (CHR 9, t)
              else if e = CHR ''u'' then Some (char_of (16 * hex_value (t ! 2) + hex_value (t ! 3)), drop 4 t)
              else Some (e, t)))"

lemma hex_value_digit [simp]: "n < 16 \<Longrightarrow> hex_value (hex_digit n) = n"
  by (auto simp: hex_value_def hex_digit_def Let_def)

lemma of_char_eq_char: "of_char c = (n :: nat) \<Longrightarrow> c = char_of n"
  by (metis char_of_char)

lemma char_codes:
  "char_of (34 :: nat) = CHR 34" "char_of (92 :: nat) = CHR 92" "char_of (8 :: nat) = CHR 8"
  "char_of (12 :: nat) = CHR 12" "char_of (10 :: nat) = CHR 10" "char_of (13 :: nat) = CHR 13"
  "char_of (9 :: nat) = CHR 9"
  by code_simp+

lemma unescape_escape: "unescape_one (escape_char c @ s) = Some (c, s)"
proof -
  define n where "n = (of_char c :: nat)"
  have c: "c = char_of n" by (simp add: n_def)
  have lt: "n < 256" by (simp add: n_def)
  consider "n = 34" | "n = 92" | "n = 8" | "n = 12" | "n = 10" | "n = 13" | "n = 9"
    | "n < 32" "n \<notin> {8, 9, 10, 12, 13}" | "32 \<le> n" "n \<noteq> 34" "n \<noteq> 92"
    by force
  then show ?thesis
  proof cases
    case 8
    then have "escape_char c = [CHR 92, CHR ''u'', CHR ''0'', CHR ''0'', hex_digit (n div 16), hex_digit (n mod 16)]"
      by (auto simp: escape_char_def n_def Let_def)
    moreover have "n div 16 < 16" using 8 by auto
    ultimately show ?thesis by (simp add: unescape_one_def c)
  next
    case 9
    then have "escape_char c = [c]" by (auto simp: escape_char_def n_def Let_def)
    moreover have "c \<noteq> CHR 92" using 9 by (auto simp: n_def)
    ultimately show ?thesis by (simp add: unescape_one_def)
  qed (auto simp: escape_char_def unescape_one_def Let_def c char_codes)
qed

lemma escape_char_inj: "escape_char c @ x = escape_char d @ y \<Longrightarrow> c = d \<and> x = y"
  by (metis unescape_escape option.inject prod.inject)

lemma escape_char_not_quote: "\<exists>e es. escape_char c = e # es \<and> e \<noteq> CHR 34"
  by (auto simp: escape_char_def Let_def)

lemma escaped_inj:
  "concat (map escape_char a) @ CHR 34 # r = concat (map escape_char b) @ CHR 34 # s \<Longrightarrow> a = b \<and> r = s"
proof (induction a arbitrary: b)
  case Nil
  then show ?case
    using escape_char_not_quote by (cases b) (auto, metis append_Cons list.inject)
next
  case (Cons c a)
  show ?case
  proof (cases b)
    case Nil
    with Cons.prems escape_char_not_quote [of c] show ?thesis by auto
  next
    case (Cons d b')
    with Cons.prems have "escape_char c @ (concat (map escape_char a) @ CHR 34 # r) =
        escape_char d @ (concat (map escape_char b') @ CHR 34 # s)" by simp
    from escape_char_inj [OF this] Cons.IH [of b'] Cons show ?thesis by simp
  qed
qed

lemma stringify_string_inj: "stringify_string a @ r = stringify_string b @ s \<Longrightarrow> a = b \<and> r = s"
  using escaped_inj [of a r b s] by (simp add: stringify_string_def)

section \<open>Whole values\<close>

fun no_native :: "json \<Rightarrow> bool" where
  "no_native (JArr xs) = (\<forall>x \<in> set xs. no_native x)"
| "no_native (JObj es) = (\<forall>(k, v) \<in> set es. no_native v)"
| "no_native (JNative n) = False"
| "no_native v = True"

text \<open>The first character tells which kind of value follows.\<close>

definition kind_of_char :: "char \<Rightarrow> nat" where
  "kind_of_char c =
     (if c = CHR ''n'' then 0 else if c = CHR ''t'' then 1 else if c = CHR ''f'' then 2
      else if c = CHR 34 then 3 else if c = CHR ''['' then 4 else if c = CHR ''{'' then 5 else 6)"

fun kind_of :: "json \<Rightarrow> nat" where
  "kind_of JNull = 0"
| "kind_of (JBool b) = (if b then 1 else 2)"
| "kind_of (JNum n) = 6"
| "kind_of (JStr s) = 3"
| "kind_of (JArr xs) = 4"
| "kind_of (JObj es) = 5"
| "kind_of (JNative n) = 7"

lemma digit_kind: "is_digit c \<Longrightarrow> kind_of_char c = 6"
  by (auto simp: kind_of_char_def is_digit_def)

lemma print_json_first:
  "no_native v \<Longrightarrow> \<exists>c cs. print_json v = c # cs \<and> kind_of_char c = kind_of v \<and> c \<noteq> CHR '']'' \<and> c \<noteq> CHR ''}''"
proof (cases v)
  case (JNum n)
  obtain c cs where c: "nat_digits (nat \<bar>n\<bar>) = c # cs" "is_digit c" using nat_digits_Cons by blast
  then have "c \<noteq> CHR '']''" "c \<noteq> CHR ''}''" by (auto simp: is_digit_def)
  with c digit_kind show ?thesis
    using JNum by (cases "n < 0") (auto simp: int_str_shape kind_of_char_def)
qed (auto simp: kind_of_char_def stringify_string_def)

text \<open>A bracketed list of self-delimiting elements determines its elements.\<close>

lemma join_Cons: "join d (x # xs) = x @ (if xs = [] then [] else d @ join d xs)"
  by (cases xs) auto

lemma join_close_inj:
  assumes cl: "cl = CHR '']'' \<or> cl = CHR ''}''"
    and inj: "\<And>x y r s. x \<in> set xs \<Longrightarrow> y \<in> set ys \<Longrightarrow> delim r \<Longrightarrow> delim s \<Longrightarrow> p x @ r = p y @ s \<Longrightarrow> x = y \<and> r = s"
    and ne: "\<And>x. x \<in> set xs \<union> set ys \<Longrightarrow> \<exists>c cs. p x = c # cs \<and> c \<noteq> cl"
    and eq: "join '','' (map p xs) @ cl # r = join '','' (map p ys) @ cl # s"
  shows "xs = ys \<and> r = s"
  using inj ne eq
proof (induction xs arbitrary: ys)
  case Nil
  show ?case
  proof (cases ys)
    case (Cons y ys')
    with Nil.prems(2) [of y] Nil.prems(3) show ?thesis by (auto simp: join_Cons)
  qed (use Nil in simp)
next
  case (Cons x xs)
  show ?case
  proof (cases ys)
    case Nil
    with Cons.prems(2) [of x] Cons.prems(3) show ?thesis by (auto simp: join_Cons)
  next
    case ys: (Cons y ys')
    define R where "R = (if xs = [] then cl # r else '','' @ join '','' (map p xs) @ cl # r)"
    define S where "S = (if ys' = [] then cl # s else '','' @ join '','' (map p ys') @ cl # s)"
    have "p x @ R = p y @ S"
      using Cons.prems(3) ys by (auto simp: R_def S_def join_Cons split: if_splits)
    moreover have "delim R" "delim S" using cl by (auto simp: R_def S_def)
    ultimately have xy: "x = y" "R = S" using Cons.prems(1) [of x y R S] ys by auto
    have cl': "cl \<noteq> CHR '',''" using cl by auto
    show ?thesis
    proof (cases "xs = []"; cases "ys' = []")
      assume "xs \<noteq> []" "ys' \<noteq> []"
      with xy have e: "join '','' (map p xs) @ cl # r = join '','' (map p ys') @ cl # s"
        by (simp add: R_def S_def)
      have n: "\<exists>c cs. p z = c # cs \<and> c \<noteq> cl" if "z \<in> set xs \<union> set ys'" for z
        using Cons.prems(2) that ys by auto
      have i: "u = v \<and> r = s" if "u \<in> set xs" "v \<in> set ys'" "delim r" "delim s" "p u @ r = p v @ s" for u v r s
        using Cons.prems(1) [of u v r s] that ys by auto
      have "xs = ys' \<and> r = s" by (rule Cons.IH [OF i n e])
      with xy ys show ?thesis by simp
    qed (use xy cl' ys in \<open>auto simp: R_def S_def\<close>)
  qed
qed

lemma print_json_inj:
  "no_native a \<Longrightarrow> no_native b \<Longrightarrow> delim r \<Longrightarrow> delim s \<Longrightarrow> print_json a @ r = print_json b @ s \<Longrightarrow> a = b \<and> r = s"
proof (induction a arbitrary: b r s rule: json_induct)
  case (Num n)
  from print_json_first [OF Num(1)] print_json_first [OF Num(2)] Num(5) have "kind_of (JNum n) = kind_of b" by auto
  then obtain m where "b = JNum m" by (cases b) (auto split: if_splits)
  with Num int_str_inj [of r s n m] show ?case by simp
next
  case (Str t)
  from print_json_first [OF Str(1)] print_json_first [OF Str(2)] Str(5) have "kind_of (JStr t) = kind_of b" by auto
  then obtain u where "b = JStr u" by (cases b) (auto split: if_splits)
  with Str stringify_string_inj [of t r u s] show ?case by simp
next
  case (Arr xs)
  from print_json_first [OF Arr(2)] print_json_first [OF Arr(3)] Arr(6) have "kind_of (JArr xs) = kind_of b" by auto
  then obtain ys where b: "b = JArr ys" by (cases b) (auto split: if_splits)
  have "xs = ys \<and> r = s"
  proof (rule join_close_inj [where cl = "CHR '']''" and p = print_json])
    show "\<exists>c cs. print_json x = c # cs \<and> c \<noteq> CHR '']''" if "x \<in> set xs \<union> set ys" for x
      using print_json_first [of x] that Arr(2,3) b by auto
    show "join '','' (map print_json xs) @ CHR '']'' # r = join '','' (map print_json ys) @ CHR '']'' # s"
      using Arr(6) b by simp
  qed (use Arr b in auto)
  with b show ?case by simp
next
  case (Obj es)
  from print_json_first [OF Obj(2)] print_json_first [OF Obj(3)] Obj(6) have "kind_of (JObj es) = kind_of b" by auto
  then obtain fs where b: "b = JObj fs" by (cases b) (auto split: if_splits)
  let ?p = "\<lambda>(k, v). stringify_string k @ '':'' @ print_json v"
  have "es = fs \<and> r = s"
  proof (rule join_close_inj [where cl = "CHR ''}''" and p = ?p])
    fix x y r s
    assume x: "x \<in> set es" and y: "y \<in> set fs" and d: "delim r" "delim s" and eq: "?p x @ r = ?p y @ s"
    obtain k v where kv: "x = (k, v)" by (cases x)
    obtain l w where lw: "y = (l, w)" by (cases y)
    from eq have "stringify_string k @ ('':'' @ print_json v @ r) = stringify_string l @ ('':'' @ print_json w @ s)"
      by (simp add: kv lw)
    then have "k = l" and "print_json v @ r = print_json w @ s"
      by (auto dest: stringify_string_inj)
    moreover have "no_native v" "no_native w" using Obj(2,3) x y kv lw b by auto
    ultimately show "x = y \<and> r = s" using Obj(1) [of k v w r s] x kv lw d by auto
  next
    show "\<exists>c cs. ?p x = c # cs \<and> c \<noteq> CHR ''}''" if "x \<in> set es \<union> set fs" for x
      by (cases x) (auto simp: stringify_string_def)
    show "join '','' (map ?p es) @ CHR ''}'' # r = join '','' (map ?p fs) @ CHR ''}'' # s"
      using Obj(6) b by simp
  qed simp
  with b show ?case by simp
next
  case Null
  from print_json_first [OF Null(1)] print_json_first [OF Null(2)] Null(5) have "kind_of JNull = kind_of b" by auto
  then have "b = JNull" by (cases b) (auto split: if_splits)
  with Null show ?case by simp
next
  case (Bool c)
  from print_json_first [OF Bool(1)] print_json_first [OF Bool(2)] Bool(5) have "kind_of (JBool c) = kind_of b" by auto
  then have "b = JBool c" by (cases b) (auto split: if_splits)
  with Bool show ?case by simp
qed simp

lemma set_sort_entries: "set (sort_key fst (map (\<lambda>(k, v). (k, f v)) es)) = (\<lambda>(k, v). (k, f v)) ` set es"
  by simp

lemma no_native_norm: "wf_json v \<Longrightarrow> no_native (norm_json v)"
  by (induction v rule: json_induct) (auto split: prod.splits)

lemma sort_entries_eq_iff:
  fixes xs ys :: "(string \<times> 'v) list"
  assumes "distinct (map fst xs)" and "distinct (map fst ys)"
  shows "sort_key fst xs = sort_key fst ys \<longleftrightarrow> set xs = set ys"
proof
  assume "sort_key fst xs = sort_key fst ys"
  then show "set xs = set ys" by (metis set_sort)
next
  assume eq: "set xs = set ys"
  have d: "distinct (map fst (sort_key fst zs))" if "distinct (map fst zs)" for zs :: "(string \<times> 'v) list"
    using that by (simp add: distinct_map)
  show "sort_key fst xs = sort_key fst ys"
  proof (rule map_sorted_distinct_set_unique [where f = fst])
    show "inj_on fst (set (sort_key fst xs) \<union> set (sort_key fst ys))"
      using assms(1) eq by (simp add: distinct_map)
  qed (use assms eq d in auto)
qed

lemma entries_eq_iff:
  assumes d: "distinct (map fst es)" "distinct (map fst fs)"
  shows "(\<lambda>(k, v). (k, f v)) ` set es = (\<lambda>(k, v). (k, f v)) ` set fs \<longleftrightarrow>
         fst ` set es = fst ` set fs \<and>
         (\<forall>(k, v) \<in> set es. case map_of fs k of None \<Rightarrow> False | Some u \<Rightarrow> f v = f u)"
    (is "?I es = ?I fs \<longleftrightarrow> ?keys \<and> ?vals")
proof
  assume eq: "?I es = ?I fs"
  have "fst ` ?I es = fst ` set es" "fst ` ?I fs = fst ` set fs"
    by (simp_all add: image_image case_prod_beta)
  with eq have "?keys" by metis
  moreover have "?vals"
  proof clarify
    fix k v
    assume "(k, v) \<in> set es"
    then have "(k, f v) \<in> ?I fs" unfolding eq [symmetric] by auto
    then obtain u where u: "(k, u) \<in> set fs" "f u = f v" by auto
    from map_of_is_SomeI [OF d(2) u(1)] have "map_of fs k = Some u" .
    with u(2) show "case map_of fs k of None \<Rightarrow> False | Some u \<Rightarrow> f v = f u" by simp
  qed
  ultimately show "?keys \<and> ?vals" ..
next
  assume *: "?keys \<and> ?vals"
  show "?I es = ?I fs"
  proof (intro equalityI subsetI)
    fix p assume "p \<in> ?I es"
    then obtain k v where kv: "(k, v) \<in> set es" "p = (k, f v)" by auto
    with * obtain u where u: "map_of fs k = Some u" "f v = f u" by (fastforce split: option.splits)
    from map_of_SomeD [OF u(1)] have "(k, f u) \<in> ?I fs" by force
    with kv u show "p \<in> ?I fs" by simp
  next
    fix p assume "p \<in> ?I fs"
    then obtain k u where ku: "(k, u) \<in> set fs" "p = (k, f u)" by auto
    then have "k \<in> fst ` set es" using * by force
    then obtain v where v: "(k, v) \<in> set es" by auto
    from map_of_is_SomeI [OF d(2) ku(1)] * v have "f v = f u" by fastforce
    with v ku show "p \<in> ?I es" by force
  qed
qed

lemma norm_json_eq_iff: "wf_json a \<Longrightarrow> wf_json b \<Longrightarrow> norm_json a = norm_json b \<longleftrightarrow> deep_equal a b"
proof (induction a arbitrary: b rule: json_induct)
  case (Arr xs)
  show ?case
  proof (cases b)
    case (JArr ys)
    have "map norm_json xs = map norm_json ys \<longleftrightarrow> list_all2 deep_equal xs ys"
      using Arr JArr by (auto simp: list_eq_iff_nth_eq list_all2_conv_all_nth)
    with JArr show ?thesis by simp
  qed auto
next
  case (Obj es)
  show ?case
  proof (cases b)
    case (JObj fs)
    have d: "distinct (map fst es)" "distinct (map fst fs)" using Obj(2,3) JObj by auto
    have "norm_json (JObj es) = norm_json b \<longleftrightarrow>
        (\<lambda>(k, v). (k, norm_json v)) ` set es = (\<lambda>(k, v). (k, norm_json v)) ` set fs"
      using sort_entries_eq_iff [of "map (\<lambda>(k, v). (k, norm_json v)) es" "map (\<lambda>(k, v). (k, norm_json v)) fs"] d JObj
      by (simp add: comp_def case_prod_beta)
    also have "\<dots> \<longleftrightarrow> fst ` set es = fst ` set fs \<and>
         (\<forall>(k, v) \<in> set es. case map_of fs k of None \<Rightarrow> False | Some u \<Rightarrow> norm_json v = norm_json u)"
      by (rule entries_eq_iff [OF d])
    also have "\<dots> \<longleftrightarrow> deep_equal (JObj es) b"
    proof -
      have "norm_json v = norm_json u \<longleftrightarrow> deep_equal v u"
        if "(k, v) \<in> set es" "map_of fs k = Some u" for k v u
      proof -
        have "wf_json v" using Obj(2) that(1) by auto
        moreover have "wf_json u" using Obj(3) map_of_SomeD [OF that(2)] JObj by auto
        ultimately show ?thesis by (rule Obj(1) [OF that(1)])
      qed
      then have "(\<forall>(k, v) \<in> set es. case map_of fs k of None \<Rightarrow> False | Some u \<Rightarrow> norm_json v = norm_json u) \<longleftrightarrow>
          (\<forall>(k, v) \<in> set es. case map_of fs k of None \<Rightarrow> False | Some u \<Rightarrow> deep_equal v u)"
        by (intro ball_cong refl) (auto split: option.splits)
      with JObj show ?thesis by simp
    qed
    finally show ?thesis .
  qed auto
next
  case Null
  show ?case by (cases b) auto
next
  case (Bool c)
  show ?case by (cases b) auto
next
  case (Num n)
  show ?case by (cases b) auto
next
  case (Str t)
  show ?case by (cases b) auto
qed simp

lemma canonicalJson_equal_iff:
  assumes "wf_json a" and "wf_json b"
  shows "canonicalJson a = canonicalJson b \<longleftrightarrow> deep_equal a b"
proof -
  have "canonicalJson a = canonicalJson b \<longleftrightarrow> print_json (norm_json a) = print_json (norm_json b)"
    by (simp add: canonicalJson_print)
  also have "\<dots> \<longleftrightarrow> norm_json a = norm_json b"
    using print_json_inj [of "norm_json a" "norm_json b" "[]" "[]"] no_native_norm assms by auto
  also have "\<dots> \<longleftrightarrow> deep_equal a b" by (rule norm_json_eq_iff [OF assms])
  finally show ?thesis .
qed

text \<open>
  Claim C30: \<open>canonicalJson\<close>, the comparison the compensation pass refuses a policy on, decides deep
  equality: two JSON values print to the same text exactly when they are equal up to the order of
  members, at every depth.
\<close>

theorem canonicalJson_decides:
  assumes "wf_json a" and "wf_json b"
  shows "canonicalJson a = canonicalJson b \<longleftrightarrow> deep_equal a b"
  by (rule canonicalJson_equal_iff [OF assms])

theorem canonicalJson_decides_witness:
  "wf_json (JObj [(''b'', JNum 1), (''a'', JArr [JNull])]) \<and>
   canonicalJson (JObj [(''b'', JNum 1), (''a'', JArr [JNull])]) =
   canonicalJson (JObj [(''a'', JArr [JNull]), (''b'', JNum 1)]) \<and>
   canonicalJson (JArr [JNum 1]) \<noteq> canonicalJson (JArr [JNum 1, JNum 1])"
proof -
  have "deep_equal (JObj [(''b'', JNum 1), (''a'', JArr [JNull])]) (JObj [(''a'', JArr [JNull]), (''b'', JNum 1)])"
    and "\<not> deep_equal (JArr [JNum 1]) (JArr [JNum 1, JNum 1])"
    by auto
  then show ?thesis by (simp del: canonicalJson.simps deep_equal.simps add: canonicalJson_decides)
qed

end
