(* ===== verification/Chain_Compensation.thy ===== *)
theory Chain_Compensation
  imports Chain_Expansion Json_Print
begin

text \<open>
  The compensation pass of chain expansion (\<open>workflow-chain-expansion.ts\<close>, the mirrored
  compensation region): the inverse action a fragment node declares and the chain-level policy,
  carried through expansion by \<open>carryCompensation\<close> and \<open>expandChainWithCompensation\<close>.
\<close>

section \<open>Data\<close>

record retry_policy =
  rp_maxAttempts :: "int option"
  rp_backoffMs :: "int option"

record node_compensation =
  nc_nodeTypeId :: string
  nc_inputMapping :: "jobject option"
  nc_retry :: "retry_policy option"
  nc_requiresApproval :: "bool option"

record compensation_policy =
  cp_profileVersion :: "string option"
  cp_orderingModel :: "string option"
  cp_triggers :: "string list"
  cp_retry :: "retry_policy option"
  cp_timeoutMs :: "int option"
  cp_exhaustedDisposition :: "string option"
  cp_approvalScope :: "string option"
  cp_onParentCancel :: "string option"

record compensating_node = fragment_node +
  cn_compensation :: "node_compensation option"
  cn_irreversibleEffect :: "bool option"

record 'n compensating_chain = "'n workflow_chain" +
  wc_compensation :: "compensation_policy option"

record carried_node = expanded_node +
  xn_compensation :: "node_compensation option"
  xn_irreversibleEffect :: "bool option"

record carried_compensation =
  cr_nodes :: "carried_node list"
  cr_settingsCompensation :: "compensation_policy option"

record 'n compensated_fragment = "'n expanded_fragment" +
  xf_settingsCompensation :: "compensation_policy option"

definition retry_json :: "retry_policy \<Rightarrow> json" where
  "retry_json r = JObj (member_of ''maxAttempts'' JNum (rp_maxAttempts r) @ member_of ''backoffMs'' JNum (rp_backoffMs r))"

definition policy_json :: "compensation_policy \<Rightarrow> json" where
  "policy_json p = JObj
     (member_of ''profileVersion'' JStr (cp_profileVersion p) @
      member_of ''orderingModel'' JStr (cp_orderingModel p) @
      [(''triggers'', JArr (map JStr (cp_triggers p)))] @
      member_of ''retry'' retry_json (cp_retry p) @
      member_of ''timeoutMs'' JNum (cp_timeoutMs p) @
      member_of ''exhaustedDisposition'' JStr (cp_exhaustedDisposition p) @
      member_of ''approvalScope'' JStr (cp_approvalScope p) @
      member_of ''onParentCancel'' JStr (cp_onParentCancel p))"

section \<open>References inside \<open>inputMapping\<close>\<close>

text \<open>
  The pattern is \<open>(${ nodes. | \b nodes.) id .\<close> with a lazy \<open>id\<close>: its first character may be
  anything of the class, and it stops before the first dot after that. \<open>prev\<close> is the
  character before the position, for the word boundary.
\<close>

definition word_char :: "char \<Rightarrow> bool" where
  "word_char c = (is_alnum c \<or> c = CHR ''_'')"

definition ref_id_char :: "char \<Rightarrow> bool" where
  "ref_id_char c = (is_alnum c \<or> c \<in> {CHR ''_'', CHR ''.'', CHR ''-''})"

definition nodes_dot :: string where
  "nodes_dot = ''nodes.''"

definition match_lead :: "char option \<Rightarrow> string \<Rightarrow> (string \<times> string) option" where
  "match_lead prev s =
     (let inner = drop 2 s; gap = takeWhile js_space inner; body = dropWhile js_space inner in
      if starts_with ''${'' s \<and> starts_with nodes_dot body
      then Some (''${'' @ gap @ nodes_dot, drop (length nodes_dot) body)
      else if starts_with nodes_dot s \<and> (case prev of None \<Rightarrow> True | Some p \<Rightarrow> \<not> word_char p)
      then Some (nodes_dot, drop (length nodes_dot) s)
      else None)"

definition match_ref_id :: "string \<Rightarrow> (string \<times> string) option" where
  "match_ref_id s =
     (case s of
        [] \<Rightarrow> None
      | c # cs \<Rightarrow>
          let i = takeWhile (\<lambda>d. ref_id_char d \<and> d \<noteq> CHR ''.'') cs; r = dropWhile (\<lambda>d. ref_id_char d \<and> d \<noteq> CHR ''.'') cs in
          if ref_id_char c \<and> starts_with ''.'' r then Some (c # i, drop 1 r) else None)"

definition match_node_ref :: "char option \<Rightarrow> string \<Rightarrow> (string \<times> string \<times> string) option" where
  "match_node_ref prev s =
     (case match_lead prev s of
        None \<Rightarrow> None
      | Some (lead, t) \<Rightarrow> (case match_ref_id t of None \<Rightarrow> None | Some (i, r) \<Rightarrow> Some (lead, i, r)))"

lemma match_lead_Some: "match_lead prev s = Some (lead, t) \<Longrightarrow> s = lead @ t \<and> lead \<noteq> []"
proof -
  assume "match_lead prev s = Some (lead, t)"
  then consider
      "starts_with ''${'' s" "starts_with nodes_dot (dropWhile js_space (drop 2 s))"
      "lead = ''${'' @ takeWhile js_space (drop 2 s) @ nodes_dot" "t = drop (length nodes_dot) (dropWhile js_space (drop 2 s))"
    | "starts_with nodes_dot s" "lead = nodes_dot" "t = drop (length nodes_dot) s"
    by (auto simp: match_lead_def Let_def split: if_splits)
  then show ?thesis
  proof cases
    case 1
    have "nodes_dot @ t = dropWhile js_space (drop 2 s)"
      using 1(2,4) by (auto simp: starts_with_iff)
    then have "takeWhile js_space (drop 2 s) @ nodes_dot @ t = drop 2 s"
      by (simp add: takeWhile_dropWhile_id)
    moreover have "s = ''${'' @ drop 2 s" using 1(1) by (auto simp: starts_with_iff)
    ultimately show ?thesis using 1(3) by simp
  next
    case 2
    then show ?thesis by (auto simp: starts_with_iff nodes_dot_def)
  qed
qed

lemma match_ref_id_Some: "match_ref_id s = Some (i, r) \<Longrightarrow> s = i @ ''.'' @ r"
proof -
  assume "match_ref_id s = Some (i, r)"
  then obtain c cs where s: "s = c # cs"
    and i: "i = c # takeWhile (\<lambda>d. ref_id_char d \<and> d \<noteq> CHR ''.'') cs"
    and r: "r = drop 1 (dropWhile (\<lambda>d. ref_id_char d \<and> d \<noteq> CHR ''.'') cs)"
    and d: "starts_with ''.'' (dropWhile (\<lambda>d. ref_id_char d \<and> d \<noteq> CHR ''.'') cs)"
    by (auto simp: match_ref_id_def Let_def split: list.splits if_splits)
  have "''.'' @ r = dropWhile (\<lambda>d. ref_id_char d \<and> d \<noteq> CHR ''.'') cs"
    using d r by (auto simp: starts_with_iff)
  then have "takeWhile (\<lambda>d. ref_id_char d \<and> d \<noteq> CHR ''.'') cs @ ''.'' @ r = cs"
    by (simp add: takeWhile_dropWhile_id)
  with s i show ?thesis by simp
qed

lemma match_node_ref_Some:
  "match_node_ref prev s = Some (lead, i, r) \<Longrightarrow> s = lead @ i @ ''.'' @ r \<and> length r < length s"
  by (auto simp: match_node_ref_def split: option.splits dest!: match_lead_Some match_ref_id_Some)

function rewrite_refs :: "string list \<Rightarrow> string \<Rightarrow> char option \<Rightarrow> string \<Rightarrow> string" where
  "rewrite_refs ids prefix' prev s =
     (case match_node_ref prev s of
        Some (lead, i, r) \<Rightarrow>
          (if i \<in> set ids then lead @ prefix' @ i @ ''.'' else lead @ i @ ''.'') @
          rewrite_refs ids prefix' (Some (CHR ''.'')) r
      | None \<Rightarrow> (case s of [] \<Rightarrow> [] | c # cs \<Rightarrow> c # rewrite_refs ids prefix' (Some c) cs))"
  by pat_completeness auto
termination
  by (relation "measure (\<lambda>(ids, p, prev, s). length s)") (auto dest: match_node_ref_Some)

declare rewrite_refs.simps [simp del]

fun rewriteInputMappingRefs :: "string list \<Rightarrow> string \<Rightarrow> json \<Rightarrow> json" where
  "rewriteInputMappingRefs ids p (JStr s) = JStr (rewrite_refs ids p None s)"
| "rewriteInputMappingRefs ids p (JArr xs) = JArr (map (rewriteInputMappingRefs ids p) xs)"
| "rewriteInputMappingRefs ids p (JObj es) =
     JObj (js_assign (map (\<lambda>(k, v). (k, rewriteInputMappingRefs ids p v)) es))"
| "rewriteInputMappingRefs ids p v = v"

definition rewrite_mapping :: "string list \<Rightarrow> string \<Rightarrow> jobject \<Rightarrow> jobject" where
  "rewrite_mapping ids p es = js_assign (map (\<lambda>(k, v). (k, rewriteInputMappingRefs ids p v)) es)"

section \<open>\<open>carryCompensation\<close>\<close>

text \<open>Step 3b with the contradiction check of 6c, node by node.\<close>

definition check_compensation ::
  "(string \<Rightarrow> bool) \<Rightarrow> (compensating_node, 'z) workflow_chain_scheme \<Rightarrow> chain_error option" where
  "check_compensation resolvable chain =
     first_error (\<lambda>n.
       if cn_irreversibleEffect n = Some True \<and> cn_compensation n \<noteq> None
       then Some (ChainIrreversibleWithCompensation (fn_id n) (wc_chainId chain))
       else (case cn_compensation n of
               None \<Rightarrow> None
             | Some c \<Rightarrow> if resolvable (nc_nodeTypeId c) then None
                         else Some (ChainUnresolvableTypeId (nc_nodeTypeId c) (wc_chainId chain))))
       (wc_nodes chain)"

definition original_id :: "string \<Rightarrow> string \<Rightarrow> string" where
  "original_id prefix' i = (if starts_with prefix' i then drop (length prefix') i else i)"

text \<open>\<open>new Map(nodes.map(n => [n.id, n]))\<close>: the last of two equal ids wins.\<close>

definition by_original_id :: "'x fragment_node_scheme list \<Rightarrow> string \<Rightarrow> 'x fragment_node_scheme option" where
  "by_original_id ns = map_of (rev (map (\<lambda>n. (fn_id n, n)) ns))"

definition carry_node_compensation :: "jobject \<Rightarrow> string list \<Rightarrow> string \<Rightarrow> node_compensation \<Rightarrow> node_compensation" where
  "carry_node_compensation ps ids prefix' c =
     \<lparr>nc_nodeTypeId = nc_nodeTypeId c,
      nc_inputMapping = map_option (\<lambda>m. rewrite_mapping ids prefix' (substitute_object ps m)) (nc_inputMapping c),
      nc_retry = nc_retry c,
      nc_requiresApproval = nc_requiresApproval c\<rparr>"

definition extend_node :: "expanded_node \<Rightarrow> node_compensation option \<Rightarrow> bool option \<Rightarrow> carried_node" where
  "extend_node en c irr =
     \<lparr>xn_id = xn_id en, xn_typeId = xn_typeId en, xn_name = xn_name en, xn_position = xn_position en,
      xn_config = xn_config en, xn_inputs = xn_inputs en, xn_capabilities = xn_capabilities en,
      xn_compensation = c, xn_irreversibleEffect = irr\<rparr>"

definition carry_node ::
  "jobject \<Rightarrow> string list \<Rightarrow> string \<Rightarrow> (string \<Rightarrow> compensating_node option) \<Rightarrow> expanded_node \<Rightarrow> carried_node" where
  "carry_node ps ids prefix' byId en =
     (case byId (original_id prefix' (xn_id en)) of
        None \<Rightarrow> extend_node en None None
      | Some src \<Rightarrow>
          if cn_irreversibleEffect src = Some True then extend_node en None (Some True)
          else extend_node en (map_option (carry_node_compensation ps ids prefix') (cn_compensation src)) None)"

text \<open>Step 9b: a policy is copied, kept or refused, never merged.\<close>

definition settings_compensation ::
  "string \<Rightarrow> compensation_policy option \<Rightarrow> compensation_policy option \<Rightarrow> chain_error + compensation_policy option" where
  "settings_compensation chainId chainPolicy parentPolicy =
     (case chainPolicy of
        None \<Rightarrow> Inr parentPolicy
      | Some c \<Rightarrow>
          (case parentPolicy of
             None \<Rightarrow> Inr (Some c)
           | Some p \<Rightarrow>
               if canonicalJson (policy_json p) \<noteq> canonicalJson (policy_json c)
               then Inl (ChainCompensationPolicyConflict chainId)
               else Inr (Some p)))"

definition carryCompensation ::
  "compensating_node compensating_chain \<Rightarrow> expanded_node expanded_fragment \<Rightarrow> expansion_context \<Rightarrow>
   compensation_policy option \<Rightarrow> chain_error + carried_compensation" where
  "carryCompensation chain expanded ctx parent =
     (let prefix' = computePrefix (wc_chainId chain) (ec_expansionId ctx);
          ids = map fn_id (wc_nodes chain);
          byId = by_original_id (wc_nodes chain)
      in case check_compensation (ec_resolvable ctx) chain of
           Some e \<Rightarrow> Inl e
         | None \<Rightarrow>
             let nodes = map (carry_node (ec_params ctx) ids prefix' byId) (xf_nodes expanded)
             in ebind (settings_compensation (wc_chainId chain) (wc_compensation chain) parent)
                  (\<lambda>s. Inr \<lparr>cr_nodes = nodes, cr_settingsCompensation = s\<rparr>))"

definition expandChainWithCompensation ::
  "compensating_node compensating_chain \<Rightarrow> expansion_context \<Rightarrow> compensation_policy option \<Rightarrow>
   chain_error + carried_node compensated_fragment" where
  "expandChainWithCompensation chain ctx parent =
     ebind (expandChain chain ctx) (\<lambda>expanded.
     ebind (carryCompensation chain expanded ctx parent) (\<lambda>carried.
       Inr \<lparr>xf_nodes = cr_nodes carried, xf_edges = xf_edges expanded, xf_idMap = xf_idMap expanded,
            xf_settingsCompensation = cr_settingsCompensation carried\<rparr>))"


section \<open>The policy comparison\<close>

lemma wf_retry_json: "wf_json (retry_json r)"
  unfolding retry_json_def by (intro wf_member_Cons key_notin_member) simp_all

lemma wf_policy_json: "wf_json (policy_json p)"
  unfolding policy_json_def by (intro wf_member_Cons key_notin_member wf_retry_json) simp_all

lemma deep_equal_member:
  assumes "deep_equal (JObj es) (JObj fs)" and "distinct (map fst es)"
  shows "rel_option deep_equal (map_of es k) (map_of fs k)"
proof (cases "map_of es k")
  case None
  then have "map_of fs k = None"
    using assms(1) by (simp add: map_of_eq_None_iff)
  with None show ?thesis by simp
next
  case (Some v)
  then have "(k, v) \<in> set es" by (rule map_of_SomeD)
  with assms(1) Some show ?thesis by (fastforce split: option.splits)
qed

lemma deep_equal_prims [simp]:
  "deep_equal (JStr a) w \<longleftrightarrow> w = JStr a"
  "deep_equal (JNum i) w \<longleftrightarrow> w = JNum i"
  by auto

lemma rel_option_prims:
  "rel_option deep_equal (map_option JStr x) (map_option JStr y) \<Longrightarrow> x = y"
  "rel_option deep_equal (map_option JNum i) (map_option JNum j) \<Longrightarrow> i = j"
  by (cases x; cases y; simp) (cases i; cases j; simp)

lemma deep_equal_strings: "deep_equal (JArr (map JStr xs)) (JArr (map JStr ys)) \<Longrightarrow> xs = ys"
  by (auto simp: list_all2_conv_all_nth list_eq_iff_nth_eq)

lemma deep_equal_retry: "deep_equal (retry_json a) (retry_json b) \<Longrightarrow> a = b"
proof -
  assume *: "deep_equal (retry_json a) (retry_json b)"
  have w: "distinct (map fst es)" if "retry_json a = JObj es" for es
    using wf_retry_json [of a] that by simp
  note m = deep_equal_member [OF * [unfolded retry_json_def] w [OF retry_json_def]]
  have "rp_maxAttempts a = rp_maxAttempts b" using m [of "''maxAttempts''"] by (simp add: member_reads rel_option_prims del: map_of_append append_Cons append_Nil)
  moreover have "rp_backoffMs a = rp_backoffMs b" using m [of "''backoffMs''"] by (simp add: member_reads rel_option_prims del: map_of_append append_Cons append_Nil)
  ultimately show "a = b" by simp
qed

lemma deep_equal_policy: "deep_equal (policy_json p) (policy_json q) \<Longrightarrow> p = q"
proof -
  assume *: "deep_equal (policy_json p) (policy_json q)"
  have w: "distinct (map fst es)" if "policy_json p = JObj es" for es
    using wf_policy_json [of p] that by simp
  note m = deep_equal_member [OF * [unfolded policy_json_def] w [OF policy_json_def]]
  have "cp_profileVersion p = cp_profileVersion q" using m [of "''profileVersion''"] by (simp add: member_reads rel_option_prims del: map_of_append append_Cons append_Nil)
  moreover have "cp_orderingModel p = cp_orderingModel q" using m [of "''orderingModel''"] by (simp add: member_reads rel_option_prims del: map_of_append append_Cons append_Nil)
  moreover have "cp_triggers p = cp_triggers q"
    using m [of "''triggers''"] deep_equal_strings [of "cp_triggers p" "cp_triggers q"]
    by (simp add: member_reads del: deep_equal.simps map_of_append append_Cons append_Nil)
  moreover have "rel_option deep_equal (map_option retry_json (cp_retry p)) (map_option retry_json (cp_retry q))"
    using m [of "''retry''"] by (simp add: member_reads del: deep_equal.simps map_of_append append_Cons append_Nil)
  then have "cp_retry p = cp_retry q"
    by (cases "cp_retry p"; cases "cp_retry q"; simp add: deep_equal_retry)
  moreover have "cp_timeoutMs p = cp_timeoutMs q" using m [of "''timeoutMs''"] by (simp add: member_reads rel_option_prims del: map_of_append append_Cons append_Nil)
  moreover have "cp_exhaustedDisposition p = cp_exhaustedDisposition q"
    using m [of "''exhaustedDisposition''"] by (simp add: member_reads rel_option_prims del: map_of_append append_Cons append_Nil)
  moreover have "cp_approvalScope p = cp_approvalScope q" using m [of "''approvalScope''"] by (simp add: member_reads rel_option_prims del: map_of_append append_Cons append_Nil)
  moreover have "cp_onParentCancel p = cp_onParentCancel q" using m [of "''onParentCancel''"] by (simp add: member_reads rel_option_prims del: map_of_append append_Cons append_Nil)
  ultimately show "p = q" by simp
qed

lemma deep_equal_policy_refl: "deep_equal (policy_json p) (policy_json p)"
  using canonicalJson_equal_iff [OF wf_policy_json wf_policy_json, of p p] by simp

lemma canonical_policy_iff: "canonicalJson (policy_json p) = canonicalJson (policy_json q) \<longleftrightarrow> p = q"
  using canonicalJson_equal_iff [OF wf_policy_json wf_policy_json, of p q] deep_equal_policy by blast


section \<open>What the pass returns\<close>

lemma check_compensation_None:
  "check_compensation resolvable chain = None \<longleftrightarrow>
     (\<forall>n \<in> set (wc_nodes chain).
        \<not> (cn_irreversibleEffect n = Some True \<and> cn_compensation n \<noteq> None) \<and>
        (\<forall>c. cn_compensation n = Some c \<longrightarrow> resolvable (nc_nodeTypeId c)))"
  unfolding check_compensation_def first_error_None_iff
  by (intro ball_cong refl) (auto split: if_splits option.splits)

lemma settings_compensation_cases:
  "settings_compensation i c p =
     (if c \<noteq> None \<and> p \<noteq> None \<and> c \<noteq> p then Inl (ChainCompensationPolicyConflict i)
      else Inr (if c = None then p else c))"
  by (auto simp: settings_compensation_def canonical_policy_iff split: option.splits)

lemma carryCompensation_Inr:
  "carryCompensation chain e ctx parent = Inr r \<longleftrightarrow>
     check_compensation (ec_resolvable ctx) chain = None \<and>
     \<not> (wc_compensation chain \<noteq> None \<and> parent \<noteq> None \<and> wc_compensation chain \<noteq> parent) \<and>
     r = \<lparr>cr_nodes = map (carry_node (ec_params ctx) (map fn_id (wc_nodes chain))
              (computePrefix (wc_chainId chain) (ec_expansionId ctx)) (by_original_id (wc_nodes chain))) (xf_nodes e),
          cr_settingsCompensation = (if wc_compensation chain = None then parent else wc_compensation chain)\<rparr>"
  by (auto simp: carryCompensation_def settings_compensation_cases Let_def split: option.splits)

lemma original_id_prefix [simp]: "original_id p (p @ i) = i"
  by (simp add: original_id_def)

lemma by_original_id_distinct:
  "distinct (map fn_id ns) \<Longrightarrow> n \<in> set ns \<Longrightarrow> by_original_id ns (fn_id n) = Some n"
  unfolding by_original_id_def by (rule map_of_is_SomeI) (auto simp: comp_def simp flip: rev_map)

text \<open>What carrying one node promises.\<close>

definition carried_faithfully :: "(string \<Rightarrow> bool) \<Rightarrow> compensating_node \<Rightarrow> carried_node \<Rightarrow> bool" where
  "carried_faithfully resolvable src out =
     (xn_typeId out = fn_typeId src \<and>
      xn_irreversibleEffect out = (if cn_irreversibleEffect src = Some True then Some True else None) \<and>
      (xn_compensation out = None \<longleftrightarrow> cn_compensation src = None) \<and>
      \<not> (xn_compensation out \<noteq> None \<and> xn_irreversibleEffect out \<noteq> None) \<and>
      (\<forall>c c'. cn_compensation src = Some c \<longrightarrow> xn_compensation out = Some c' \<longrightarrow>
         nc_nodeTypeId c' = nc_nodeTypeId c \<and> resolvable (nc_nodeTypeId c') \<and>
         nc_retry c' = nc_retry c \<and> nc_requiresApproval c' = nc_requiresApproval c \<and>
         (nc_inputMapping c' = None \<longleftrightarrow> nc_inputMapping c = None)))"

lemma carry_node_faithful:
  assumes "check_compensation resolvable chain = None" and "distinct (map fn_id (wc_nodes chain))"
    and "n \<in> set (wc_nodes chain)"
  shows "carried_faithfully resolvable n
           (carry_node ps ids p (by_original_id (wc_nodes chain)) (expand_node ps p caps n))"
proof -
  have "by_original_id (wc_nodes chain) (fn_id n) = Some n"
    using assms(2,3) by (rule by_original_id_distinct)
  moreover have "\<not> (cn_irreversibleEffect n = Some True \<and> cn_compensation n \<noteq> None)"
    and "\<And>c. cn_compensation n = Some c \<Longrightarrow> resolvable (nc_nodeTypeId c)"
    using assms(1,3) by (auto simp: check_compensation_None)
  ultimately show ?thesis
    by (auto simp: carried_faithfully_def carry_node_def extend_node_def expand_node_def carry_node_compensation_def)
qed

lemma expandChainWithCompensation_Inr:
  "expandChainWithCompensation chain ctx parent = Inr f \<longleftrightarrow>
     (\<exists>e r. expandChain chain ctx = Inr e \<and> carryCompensation chain e ctx parent = Inr r \<and>
        f = \<lparr>xf_nodes = cr_nodes r, xf_edges = xf_edges e, xf_idMap = xf_idMap e,
             xf_settingsCompensation = cr_settingsCompensation r\<rparr>)"
  by (auto simp: expandChainWithCompensation_def ebind_Inr_iff)

section \<open>References in mappings\<close>

lemma match_node_ref_has: "match_node_ref prev s = Some (lead, i, r) \<Longrightarrow> has_sub nodes_dot s"
proof -
  assume m: "match_node_ref prev s = Some (lead, i, r)"
  then obtain t where "match_lead prev s = Some (lead, t)"
    by (auto simp: match_node_ref_def split: option.splits)
  then have "(\<exists>g. lead = ''${'' @ g @ nodes_dot) \<or> lead = nodes_dot"
    by (auto simp: match_lead_def Let_def split: if_splits)
  moreover have "s = lead @ i @ ''.'' @ r" using match_node_ref_Some [OF m] by simp
  ultimately obtain a b where "s = a @ nodes_dot @ b"
    by (metis append.assoc append_Nil)
  then show "has_sub nodes_dot s" by (auto simp: has_sub_iff)
qed

lemma has_sub_tl: "has_sub p cs \<Longrightarrow> has_sub p (c # cs)"
  unfolding has_sub_iff by (metis append_Cons)

lemma rewrite_refs_none: "\<not> has_sub nodes_dot s \<Longrightarrow> rewrite_refs ids p prev s = s"
proof (induction s arbitrary: prev)
  case Nil
  then show ?case
    using match_node_ref_has [of prev "[]"] by (subst rewrite_refs.simps) (auto split: option.splits)
next
  case (Cons c cs)
  then have "match_node_ref prev (c # cs) = None"
    using match_node_ref_has [of prev "c # cs"] by (cases "match_node_ref prev (c # cs)") auto
  moreover have "\<not> has_sub nodes_dot cs" using Cons.prems has_sub_tl by blast
  ultimately show ?case using Cons.IH by (subst rewrite_refs.simps) simp
qed

definition plain_id :: "string \<Rightarrow> bool" where
  "plain_id i = (i \<noteq> [] \<and> list_all (\<lambda>c. ref_id_char c \<and> c \<noteq> CHR ''.'') i)"

lemma match_ref_id_plain: "plain_id i \<Longrightarrow> match_ref_id (i @ CHR ''.'' # r) = Some (i, r)"
proof -
  assume "plain_id i"
  then obtain c cs where i: "i = c # cs" "ref_id_char c" "list_all (\<lambda>c. ref_id_char c \<and> c \<noteq> CHR ''.'') cs"
    by (cases i) (auto simp: plain_id_def)
  have "takeWhile (\<lambda>d. ref_id_char d \<and> d \<noteq> CHR ''.'') (cs @ CHR ''.'' # r) = cs"
    and "dropWhile (\<lambda>d. ref_id_char d \<and> d \<noteq> CHR ''.'') (cs @ CHR ''.'' # r) = CHR ''.'' # r"
    using i(3) by (induction cs) auto
  with i(1,2) show ?thesis by (simp add: match_ref_id_def Let_def starts_with_def)
qed

lemma rewrite_refs_template:
  assumes "plain_id i"
  shows "rewrite_refs ids p prev (''${nodes.'' @ i @ CHR ''.'' # r) =
           ''${nodes.'' @ (if i \<in> set ids then p else []) @ i @ CHR ''.'' # rewrite_refs ids p (Some (CHR ''.'')) r"
proof -
  have "match_lead prev (''${nodes.'' @ i @ CHR ''.'' # r) = Some (''${nodes.'', i @ CHR ''.'' # r)"
    by (simp add: match_lead_def Let_def starts_with_def nodes_dot_def js_space_def)
  with match_ref_id_plain [OF assms] have
    "match_node_ref prev (''${nodes.'' @ i @ CHR ''.'' # r) = Some (''${nodes.'', i, r)"
    by (simp add: match_node_ref_def)
  then show ?thesis by (subst rewrite_refs.simps) simp
qed


section \<open>A sample with a compensation\<close>

definition sample_compensation :: node_compensation where
  "sample_compensation =
     \<lparr>nc_nodeTypeId = ''core.undo'', nc_inputMapping = Some [(''id'', JStr ''${nodes.charge.out}'')],
      nc_retry = None, nc_requiresApproval = Some True\<rparr>"

definition sample_policy :: "string \<Rightarrow> compensation_policy" where
  "sample_policy v =
     \<lparr>cp_profileVersion = Some v, cp_orderingModel = None, cp_triggers = [''node-failure''], cp_retry = None,
      cp_timeoutMs = Some 1000, cp_exhaustedDisposition = None, cp_approvalScope = None, cp_onParentCancel = None\<rparr>"

definition sample_compensating_node :: "string \<Rightarrow> node_compensation option \<Rightarrow> compensating_node" where
  "sample_compensating_node i c =
     \<lparr>fn_id = i, fn_typeId = ''core.noop'', fn_name = None, fn_position = None, fn_config = None, fn_inputs = None,
      cn_compensation = c, cn_irreversibleEffect = None\<rparr>"

definition sample_compensating_chain :: "compensating_node compensating_chain" where
  "sample_compensating_chain =
     \<lparr>wc_chainId = ''acme.pay'', wc_version = ''1.0.0'', wc_label = ''Pay'', wc_description = [], wc_parameters = [],
      wc_nodes = [sample_compensating_node ''charge'' (Some sample_compensation), sample_compensating_node ''mail'' None],
      wc_edges = None, wc_outputs = None, wc_capabilities = None, wc_subChains = None, wc_producedVariables = None,
      wc_compensation = Some (sample_policy ''1'')\<rparr>"

lemma sample_compensating_chain_ok:
  "check_compensation (ec_resolvable (sample_ctx e)) sample_compensating_chain = None"
  "\<exists>f. expandChain sample_compensating_chain (sample_ctx e) = Inr f"
  by (auto simp: check_compensation_None expandChain_Inr sample_compensating_chain_def sample_compensating_node_def
      sample_compensation_def sample_ctx_def starts_with_def)

section \<open>Properties of the compensation pass\<close>

text \<open>
  Once the nodes are accepted, expansion fails exactly when the chain and the parent
  both carry a policy and the two differ; otherwise it returns, and the policy it settles on is
  the chain's when the chain has one and the parent's otherwise: never a mixture of the two.
\<close>

theorem policy_never_merged:
  assumes "expandChain chain ctx = Inr e" and "check_compensation (ec_resolvable ctx) chain = None"
  shows "if wc_compensation chain \<noteq> None \<and> parent \<noteq> None \<and> wc_compensation chain \<noteq> parent
         then expandChainWithCompensation chain ctx parent = Inl (ChainCompensationPolicyConflict (wc_chainId chain))
         else \<exists>f. expandChainWithCompensation chain ctx parent = Inr f \<and>
                xf_settingsCompensation f = (if wc_compensation chain = None then parent else wc_compensation chain)"
  using assms by (simp add: expandChainWithCompensation_def carryCompensation_def settings_compensation_cases Let_def)

theorem policy_never_merged_witness:
  "expandChainWithCompensation sample_compensating_chain (sample_ctx ''a1f0'') (Some (sample_policy ''2'')) =
     Inl (ChainCompensationPolicyConflict ''acme.pay'') \<and>
   (\<exists>f. expandChainWithCompensation sample_compensating_chain (sample_ctx ''a1f0'') None = Inr f \<and>
     xf_settingsCompensation f = Some (sample_policy ''1''))"
proof -
  obtain e where e: "expandChain sample_compensating_chain (sample_ctx ''a1f0'') = Inr e"
    using sample_compensating_chain_ok by blast
  note p = policy_never_merged [OF e sample_compensating_chain_ok(1)]
  have c: "wc_compensation sample_compensating_chain = Some (sample_policy ''1'')"
    "wc_chainId sample_compensating_chain = ''acme.pay''" "sample_policy ''1'' \<noteq> sample_policy ''2''"
    by (simp_all add: sample_compensating_chain_def sample_policy_def)
  show ?thesis using p [of "Some (sample_policy ''2'')"] p [of None] c by simp
qed

text \<open>
  When the fragment's node ids are distinct, the result has one node per fragment node,
  in order, each carried faithfully: the same type, a compensation exactly where the source
  declares one, its inverse type resolvable and unchanged with its retry and approval settings,
  the irreversible flag exactly where declared, and never both.
\<close>

theorem compensation_carried:
  assumes "expandChainWithCompensation chain ctx parent = Inr f" and "distinct (map fn_id (wc_nodes chain))"
  shows "list_all2 (carried_faithfully (ec_resolvable ctx)) (wc_nodes chain) (xf_nodes f)"
proof -
  from assms(1) obtain e r where
    e: "expandChain chain ctx = Inr e" and r: "carryCompensation chain e ctx parent = Inr r"
    and f: "xf_nodes f = cr_nodes r"
    by (auto simp: expandChainWithCompensation_Inr)
  have "check_compensation (ec_resolvable ctx) chain = None"
    using r by (simp add: carryCompensation_Inr)
  note faithful = carry_node_faithful [OF this assms(2)]
  show ?thesis
    using r faithful
    by (auto simp: f carryCompensation_Inr expandChain_nodes [OF e] list_all2_map2 comp_def
        intro!: list.rel_refl_strong)
qed

theorem compensation_carried_witness:
  "\<exists>f. expandChainWithCompensation sample_compensating_chain (sample_ctx ''a1f0'') None = Inr f \<and>
     list_all2 (carried_faithfully (ec_resolvable (sample_ctx ''a1f0''))) (wc_nodes sample_compensating_chain) (xf_nodes f)"
proof -
  obtain e where e: "expandChain sample_compensating_chain (sample_ctx ''a1f0'') = Inr e"
    using sample_compensating_chain_ok by blast
  then obtain f where f: "expandChainWithCompensation sample_compensating_chain (sample_ctx ''a1f0'') None = Inr f"
    using sample_compensating_chain_ok(1)
    by (simp add: expandChainWithCompensation_def carryCompensation_def settings_compensation_cases Let_def)
  moreover have "distinct (map fn_id (wc_nodes sample_compensating_chain))"
    by (simp add: sample_compensating_chain_def sample_compensating_node_def)
  ultimately show ?thesis using compensation_carried by blast
qed

text \<open>
  In an input mapping, a template reference to a fragment node is prefixed and one to any
  other node is kept, with its path; a string without \<open>nodes.\<close> is kept whatever the fragment's ids,
  so a bare \<open>id.port\<close> reference, which the function's comment lists, is not rewritten.
\<close>

theorem mapping_references:
  "(plain_id i \<longrightarrow>
      rewriteInputMappingRefs ids p (JStr (''${nodes.'' @ i @ CHR ''.'' # r)) =
      JStr (''${nodes.'' @ (if i \<in> set ids then p else []) @ i @ CHR ''.'' # rewrite_refs ids p (Some (CHR ''.'')) r)) \<and>
   (\<not> has_sub nodes_dot s \<longrightarrow> rewriteInputMappingRefs ids p (JStr s) = JStr s)"
  by (intro conjI impI; simp only: rewriteInputMappingRefs.simps; intro arg_cong [where f = JStr])
    (rule rewrite_refs_template rewrite_refs_none, assumption)+

theorem mapping_references_witness:
  "rewriteInputMappingRefs [''charge''] ''pre_'' (JStr (''${nodes.'' @ ''charge'' @ CHR ''.'' # ''out}'')) =
     JStr (''${nodes.'' @ ''pre_'' @ ''charge'' @ CHR ''.'' # rewrite_refs [''charge''] ''pre_'' (Some (CHR ''.'')) ''out}'') \<and>
   rewriteInputMappingRefs [''charge''] ''pre_'' (JStr ''charge.out'') = JStr ''charge.out''"
proof -
  have "plain_id ''charge''" "\<not> has_sub nodes_dot ''charge.out''" "''charge'' \<in> set [''charge'']"
    by code_simp+
  then show ?thesis
    using mapping_references [of "''charge''" "[''charge'']" "''pre_''" "''out}''" "''charge.out''"]
    by (simp only: simp_thms if_True)
qed

end
