(* ===== verification/Chain_Deferred.thy ===== *)
theory Chain_Deferred
  imports Chain_Expansion
begin

text \<open>
  Deferred expansion (\<open>expandChainDeferred\<close> of \<open>workflow-chain-expansion.ts\<close>): parameter tokens
  become runtime bindings. The pattern is a global \<open>RegExp\<close> shared by the whole module, so its
  \<open>lastIndex\<close> is state: \<open>test\<close> and \<open>exec\<close> search from it and move it, \<open>replace\<close> resets it, and it
  outlives a throw. It is threaded through the definitions as \<open>ds_last\<close>.
\<close>

section \<open>The global pattern\<close>

function next_param :: "nat \<Rightarrow> string \<Rightarrow> (string \<times> nat) option" where
  "next_param pos s =
     (case match_param s of
        Some (n, r) \<Rightarrow> Some (n, pos + (length s - length r))
      | None \<Rightarrow> (case s of [] \<Rightarrow> None | c # cs \<Rightarrow> next_param (Suc pos) cs))"
  by pat_completeness auto
termination by (relation "measure (\<lambda>(p, s). length s)") auto

declare next_param.simps [simp del]

text \<open>\<open>exec\<close> from \<open>lastIndex\<close>: the name matched, and \<open>lastIndex\<close> afterwards. \<open>test\<close> is the same call.\<close>

definition exec_param :: "nat \<Rightarrow> string \<Rightarrow> string option \<times> nat" where
  "exec_param li s =
     (if length s < li then (None, 0)
      else case next_param li (drop li s) of None \<Rightarrow> (None, 0) | Some (n, e) \<Rightarrow> (Some n, e))"

lemma next_param_bounds: "next_param pos s = Some (n, e) \<Longrightarrow> pos < e \<and> e \<le> pos + length s"
proof (induction pos s rule: next_param.induct)
  case (1 pos s)
  show ?case
  proof (cases "match_param s")
    case None
    then show ?thesis
      using 1 by (force simp: next_param.simps [of pos s] dest: Suc_lessD split: list.splits)
  next
    case (Some a)
    obtain m r where a: "a = (m, r)" by (cases a)
    with Some match_param_shorter have "length r < length s" by blast
    with Some a 1(2) show ?thesis by (auto simp: next_param.simps [of pos s])
  qed
qed

lemma exec_param_bounds: "exec_param li s = (Some n, e) \<Longrightarrow> li < e \<and> e \<le> length s"
  by (auto simp: exec_param_def split: if_splits option.splits dest!: next_param_bounds)

text \<open>\<open>while ((m = PARAM_PATTERN.exec(v)) !== null) if (isSensitive(m[1])) throw ...\<close>\<close>

function scan_sensitive :: "(string \<Rightarrow> bool) \<Rightarrow> nat \<Rightarrow> string \<Rightarrow> string option \<times> nat" where
  "scan_sensitive sens li s =
     (case exec_param li s of
        (None, l) \<Rightarrow> (None, l)
      | (Some n, e) \<Rightarrow> if sens n then (Some n, e) else scan_sensitive sens e s)"
  by pat_completeness auto
termination
  by (relation "measure (\<lambda>(f, li, s). length s - li)") (auto dest!: exec_param_bounds sym [of "(_, _)"])

declare scan_sensitive.simps [simp del]

lemma next_param_names:
  "(case next_param pos s of
      None \<Rightarrow> param_names s = []
    | Some (n, e) \<Rightarrow> param_names s = n # param_names (drop (e - pos) s))"
proof (induction pos s rule: next_param.induct)
  case (1 pos s)
  show ?case
  proof (cases "match_param s")
    case None
    show ?thesis
    proof (cases s)
      case Nil
      with None show ?thesis by (simp add: next_param.simps param_names.simps)
    next
      case (Cons c cs)
      have ih: "case next_param (Suc pos) cs of None \<Rightarrow> param_names cs = []
          | Some (n, e) \<Rightarrow> param_names cs = n # param_names (drop (e - Suc pos) cs)"
        by (rule 1 [OF None Cons])
      have names: "param_names s = param_names cs"
        using None Cons by (simp add: param_names.simps [of "c # cs"])
      have step: "next_param pos s = next_param (Suc pos) cs"
        using None Cons by (simp add: next_param.simps [of pos "c # cs"])
      show ?thesis
      proof (cases "next_param (Suc pos) cs")
        case None
        with ih names step show ?thesis by simp
      next
        case (Some a)
        obtain n e where a: "a = (n, e)" by (cases a)
        have "Suc pos < e" using next_param_bounds [of "Suc pos" cs n e] Some a by simp
        then have "drop (e - pos) s = drop (e - Suc pos) cs"
          using Cons by (simp add: drop_Cons' Suc_diff_Suc)
        with ih names step Some a show ?thesis by simp
      qed
    qed
  next
    case (Some a)
    obtain n r where a: "a = (n, r)" by (cases a)
    from match_param_Some(1) [of s n r] Some a have s: "s = param_token n @ r" by simp
    then have "drop (length s - length r) s = r" by simp
    with Some a show ?thesis by (simp add: next_param.simps [of pos s] param_names.simps [of s])
  qed
qed

lemma exec_param_names:
  assumes "li \<le> length s"
  shows "exec_param li s = (None, 0) \<and> param_names (drop li s) = [] \<or>
         (\<exists>n e. exec_param li s = (Some n, e) \<and> li < e \<and> e \<le> length s \<and>
            param_names (drop li s) = n # param_names (drop e s))"
proof (cases "next_param li (drop li s)")
  case None
  with assms next_param_names [where pos = li and s = "drop li s"] show ?thesis by (simp add: exec_param_def)
next
  case (Some a)
  obtain n e where a: "a = (n, e)" by (cases a)
  have b: "li < e" "e \<le> length s"
    using next_param_bounds [of li "drop li s" n e] Some a assms by simp_all
  then have "e - li + li = e" by simp
  with assms next_param_names [where pos = li and s = "drop li s"] Some a b show ?thesis
    by (simp add: exec_param_def drop_drop)
qed

text \<open>From index 0 the loop finds the first sensitive token of the string, if there is one.\<close>

lemma scan_sensitive_find:
  "li \<le> length s \<Longrightarrow>
   fst (scan_sensitive sens li s) = find sens (param_names (drop li s)) \<and>
   (fst (scan_sensitive sens li s) = None \<longrightarrow> snd (scan_sensitive sens li s) = 0)"
proof (induction sens li s rule: scan_sensitive.induct)
  case (1 sens li s)
  show ?case
  proof (cases "exec_param li s = (None, 0)")
    case True
    with exec_param_names [OF 1(2)] show ?thesis by (simp add: scan_sensitive.simps [of sens li s])
  next
    case False
    then obtain n e where e: "exec_param li s = (Some n, e)" "e \<le> length s"
      "param_names (drop li s) = n # param_names (drop e s)"
      using exec_param_names [OF 1(2)] by blast
    show ?thesis
    proof (cases "sens n")
      case True
      with e show ?thesis by (simp add: scan_sensitive.simps [of sens li s])
    next
      case False
      have "fst (scan_sensitive sens e s) = find sens (param_names (drop e s)) \<and>
          (fst (scan_sensitive sens e s) = None \<longrightarrow> snd (scan_sensitive sens e s) = 0)"
        using 1(1) [OF e(1) [symmetric] refl False] e(2) by simp
      with e False show ?thesis by (simp add: scan_sensitive.simps [of sens li s])
    qed
  qed
qed

section \<open>Data\<close>

record param_schema =
  ps_type :: "string option"
  ps_description :: "string option"
  ps_sensitive :: "bool option"

record deferred_context =
  dc_expansionId :: string
  dc_params :: jobject
  dc_schema :: "(string \<times> param_schema) list"
  dc_resolvable :: "string \<Rightarrow> bool"
  dc_promptVariableSource :: bool
  dc_secretsSupported :: bool

datatype prompt_source = FromVariable | FromSecret

record materialized_variable =
  mv_name :: string
  mv_type :: string
  mv_description :: "string option"
  mv_defaultValue :: "json option"

record deferred_fragment = "expanded_node expanded_fragment" +
  df_variables :: "materialized_variable list"
  df_promptVariables :: "(string \<times> prompt_source) list"
  df_configurableSchema :: "(string \<times> string) list"

text \<open>
  The state of one expansion: the pattern's index, \<open>usedParams\<close> in insertion order and the
  \<open>promptVariables\<close> map. An operation returns its result or error with the state it leaves.
\<close>

record deferral =
  ds_last :: nat
  ds_used :: "string list"
  ds_prompts :: "(string \<times> prompt_source) list"

type_synonym 'a deferred = "deferral \<Rightarrow> (chain_error + 'a) \<times> deferral"

definition dbind :: "'a deferred \<Rightarrow> ('a \<Rightarrow> 'b deferred) \<Rightarrow> 'b deferred" where
  "dbind m f = (\<lambda>st. case m st of (Inl e, st') \<Rightarrow> (Inl e, st') | (Inr a, st') \<Rightarrow> f a st')"

definition dreturn :: "'a \<Rightarrow> 'a deferred" where
  "dreturn a = (\<lambda>st. (Inr a, st))"

fun dmap :: "('a \<Rightarrow> 'b deferred) \<Rightarrow> 'a list \<Rightarrow> 'b list deferred" where
  "dmap f [] = dreturn []"
| "dmap f (x # xs) = dbind (f x) (\<lambda>y. dbind (dmap f xs) (\<lambda>ys. dreturn (y # ys)))"

definition isSensitive :: "deferred_context \<Rightarrow> string \<Rightarrow> bool" where
  "isSensitive ctx n = (case map_of (dc_schema ctx) n of None \<Rightarrow> False | Some p \<Rightarrow> ps_sensitive p = Some True)"

definition typeOf :: "deferred_context \<Rightarrow> string \<Rightarrow> string" where
  "typeOf ctx n =
     (case map_of (dc_schema ctx) n of
        None \<Rightarrow> ''string''
      | Some p \<Rightarrow> (case ps_type p of None \<Rightarrow> ''string'' | Some t \<Rightarrow> t))"

definition set_add :: "'a \<Rightarrow> 'a list \<Rightarrow> 'a list" where
  "set_add x xs = (if x \<in> set xs then xs else xs @ [x])"

section \<open>Rewriting\<close>

definition prompt_slot :: "string \<Rightarrow> string" where
  "prompt_slot n = ''{{'' @ n @ ''}}''"

text \<open>The replacer's effects, one token after another.\<close>

fun bind_prompts :: "deferred_context \<Rightarrow> string list \<Rightarrow> unit deferred" where
  "bind_prompts ctx [] st = (Inr (), st)"
| "bind_prompts ctx (n # ns) st =
     (let st1 = st\<lparr>ds_used := set_add n (ds_used st)\<rparr> in
      if isSensitive ctx n then
        if dc_secretsSupported ctx
        then bind_prompts ctx ns (st1\<lparr>ds_prompts := AList.update n FromSecret (ds_prompts st1)\<rparr>)
        else (Inl (SensitiveParamNotDeferrable n ''host lacks capabilities.secrets support''), st1)
      else bind_prompts ctx ns (st1\<lparr>ds_prompts := AList.update n FromVariable (ds_prompts st1)\<rparr>))"

definition rewritePrompt :: "deferred_context \<Rightarrow> string \<Rightarrow> string option deferred" where
  "rewritePrompt ctx text =
     (if \<not> dc_promptVariableSource ctx then dreturn None
      else (\<lambda>st. dbind (bind_prompts ctx (param_names text))
                   (\<lambda>_. dreturn (Some (replace_params prompt_slot text))) (st\<lparr>ds_last := 0\<rparr>)))"

definition prompt_config_fields :: "string list" where
  "prompt_config_fields = [''systemPrompt'', ''userPrompt'']"

text \<open>The non-prompt branch both rewriters share: reset, test, reset, scan, substitute.\<close>

definition rewrite_embedded :: "deferred_context \<Rightarrow> string \<Rightarrow> json \<Rightarrow> json deferred" where
  "rewrite_embedded ctx why v st =
     (case v of
        JStr s \<Rightarrow>
          (case exec_param 0 s of
             (None, l) \<Rightarrow> (Inr (substitute (dc_params ctx) v), st\<lparr>ds_last := l\<rparr>)
           | (Some _, _) \<Rightarrow>
               (case scan_sensitive (isSensitive ctx) 0 s of
                  (Some n, l) \<Rightarrow> (Inl (SensitiveParamNotDeferrable n why), st\<lparr>ds_last := l\<rparr>)
                | (None, l) \<Rightarrow> (Inr (substitute (dc_params ctx) v), st\<lparr>ds_last := l\<rparr>)))
      | _ \<Rightarrow> (Inr (substitute (dc_params ctx) v), st\<lparr>ds_last := 0\<rparr>))"

definition config_why :: "string \<Rightarrow> string" where
  "config_why k = ''embedded non-prompt config field '' @ [CHR 39] @ k @ [CHR 39]"

definition rewrite_config_field :: "deferred_context \<Rightarrow> string \<times> json \<Rightarrow> (string \<times> json) deferred" where
  "rewrite_config_field ctx kv st =
     (let (k, v) = kv; embedded = dbind (rewrite_embedded ctx (config_why k) v) (\<lambda>w. dreturn (k, w)) in
      case v of
        JStr s \<Rightarrow>
          (if k \<in> set prompt_config_fields then
             (case exec_param (ds_last st) s of
                (Some _, _) \<Rightarrow>
                  dbind (rewritePrompt ctx s)
                    (\<lambda>r. dreturn (k, case r of None \<Rightarrow> substitute (dc_params ctx) v | Some t \<Rightarrow> JStr t))
                    (st\<lparr>ds_last := 0\<rparr>)
              | (None, l) \<Rightarrow> embedded (st\<lparr>ds_last := l\<rparr>))
           else embedded st)
      | _ \<Rightarrow> embedded st)"

definition rewriteConfig :: "deferred_context \<Rightarrow> jobject \<Rightarrow> jobject deferred" where
  "rewriteConfig ctx es = dbind (dmap (rewrite_config_field ctx) es) (\<lambda>out. dreturn (js_assign out))"

definition variable_port :: "string \<Rightarrow> json" where
  "variable_port n = JObj [(''source'', JStr ''variable''), (''variable'', JStr n)]"

definition input_why :: "string \<Rightarrow> string" where
  "input_why k = ''embedded non-prompt input '' @ [CHR 39] @ k @ [CHR 39]"

definition rewrite_input_field :: "deferred_context \<Rightarrow> string \<times> json \<Rightarrow> (string \<times> json) deferred" where
  "rewrite_input_field ctx kv st =
     (let (k, v) = kv in
      case (case v of JStr s \<Rightarrow> match_whole s | _ \<Rightarrow> None) of
        Some n \<Rightarrow>
          (if isSensitive ctx n
           then (Inl (SensitiveParamNotDeferrable n (''whole-value node input '' @ [CHR 39] @ k @ [CHR 39])), st)
           else (Inr (k, variable_port n), st\<lparr>ds_used := set_add n (ds_used st)\<rparr>))
      | None \<Rightarrow> dbind (rewrite_embedded ctx (input_why k) v) (\<lambda>w. dreturn (k, w)) st)"

definition rewriteInputs :: "deferred_context \<Rightarrow> jobject \<Rightarrow> jobject deferred" where
  "rewriteInputs ctx es = dbind (dmap (rewrite_input_field ctx) es) (\<lambda>out. dreturn (js_assign out))"

definition dopt :: "('a \<Rightarrow> 'b deferred) \<Rightarrow> 'a option \<Rightarrow> 'b option deferred" where
  "dopt f x = (case x of None \<Rightarrow> dreturn None | Some a \<Rightarrow> dbind (f a) (\<lambda>b. dreturn (Some b)))"

definition defer_node ::
  "deferred_context \<Rightarrow> string \<Rightarrow> string list option \<Rightarrow> 'x fragment_node_scheme \<Rightarrow> expanded_node deferred" where
  "defer_node ctx prefix' caps n =
     dbind (dopt (rewriteConfig ctx) (fn_config n)) (\<lambda>cfg.
     dbind (dopt (rewriteInputs ctx) (fn_inputs n)) (\<lambda>ins.
       dreturn \<lparr>xn_id = prefix' @ fn_id n, xn_typeId = fn_typeId n, xn_name = fn_name n,
                xn_position = fn_position n, xn_config = cfg, xn_inputs = ins, xn_capabilities = caps\<rparr>))"

section \<open>\<open>expandChainDeferred\<close>\<close>

definition materialize :: "deferred_context \<Rightarrow> string \<Rightarrow> materialized_variable" where
  "materialize ctx n =
     \<lparr>mv_name = n, mv_type = typeOf ctx n,
      mv_description = (case map_of (dc_schema ctx) n of None \<Rightarrow> None | Some p \<Rightarrow> ps_description p),
      mv_defaultValue = js_get (dc_params ctx) n\<rparr>"

definition configurable_schema :: "deferred_context \<Rightarrow> string list \<Rightarrow> (string \<times> string) list" where
  "configurable_schema ctx used =
     foldl (\<lambda>out n. if n = ''__proto__'' then out else AList.update n (typeOf ctx n) out) [] used"

definition expandChainDeferred ::
  "nat \<Rightarrow> ('x fragment_node_scheme, 'z) workflow_chain_scheme \<Rightarrow> deferred_context \<Rightarrow>
   (chain_error + deferred_fragment) \<times> nat" where
  "expandChainDeferred li chain ctx =
     (case check_type_ids (dc_resolvable ctx) chain of
        Some e \<Rightarrow> (Inl e, li)
      | None \<Rightarrow>
          let prefix' = computePrefix (wc_chainId chain) (dc_expansionId ctx);
              ids = map fn_id (wc_nodes chain)
          in case dmap (defer_node ctx prefix' (propagated_capabilities chain)) (wc_nodes chain)
                    \<lparr>ds_last = li, ds_used = [], ds_prompts = []\<rparr> of
               (Inl e, st) \<Rightarrow> (Inl e, ds_last st)
             | (Inr nodes, st) \<Rightarrow>
                 (Inr \<lparr>xf_nodes = nodes,
                       xf_edges = map (rewrite_edge ids prefix') (case wc_edges chain of None \<Rightarrow> [] | Some es \<Rightarrow> es),
                       xf_idMap = id_map prefix' ids,
                       df_variables = map (materialize ctx) (filter (\<lambda>n. \<not> isSensitive ctx n) (ds_used st)),
                       df_promptVariables = ds_prompts st,
                       df_configurableSchema = configurable_schema ctx (ds_used st)\<rparr>,
                  ds_last st))"

section \<open>The runs of an expansion\<close>

lemma dbind_Inr: "dbind m f st = (Inr b, st') \<longleftrightarrow> (\<exists>a s1. m st = (Inr a, s1) \<and> f a s1 = (Inr b, st'))"
  by (auto simp: dbind_def split: prod.splits sum.splits)

lemma dmap_Inr:
  "dmap f xs st = (Inr ys, st') \<Longrightarrow> list_all2 (\<lambda>x y. \<exists>s s'. f x s = (Inr y, s')) xs ys"
proof (induction xs arbitrary: ys st)
  case Nil
  then show ?case by (simp add: dreturn_def)
next
  case (Cons x xs)
  then obtain y s1 zs s2 where *: "f x st = (Inr y, s1)" "dmap f xs s1 = (Inr zs, s2)" "ys = y # zs" "s2 = st'"
    by (auto simp: dbind_Inr dreturn_def)
  with Cons.IH show ?case by blast
qed

lemma dmap_cong: "(\<And>x. x \<in> set xs \<Longrightarrow> f x = g x) \<Longrightarrow> dmap f xs = dmap g xs"
  by (induction xs) auto

text \<open>A run keeps a state property whether it returns or throws.\<close>

definition keeps :: "(deferral \<Rightarrow> bool) \<Rightarrow> 'a deferred \<Rightarrow> bool" where
  "keeps P m = (\<forall>st. P st \<longrightarrow> P (snd (m st)))"

lemma keeps_dreturn [inv_intros]: "keeps P (dreturn a)"
  by (simp add: keeps_def dreturn_def)

lemma keeps_dbind [inv_intros]: "keeps P m \<Longrightarrow> (\<And>a. keeps P (f a)) \<Longrightarrow> keeps P (dbind m f)"
proof -
  assume m: "keeps P m" and f: "\<And>a. keeps P (f a)"
  have "P (snd (dbind m f st))" if "P st" for st
  proof -
    obtain r s1 where r: "m st = (r, s1)" by (cases "m st")
    with m that have "P s1" by (auto simp: keeps_def dest: spec [of _ st])
    with r f show ?thesis by (cases r) (auto simp: dbind_def keeps_def)
  qed
  then show ?thesis by (simp add: keeps_def)
qed

lemma keeps_dmap [inv_intros]: "(\<And>x. keeps P (f x)) \<Longrightarrow> keeps P (dmap f xs)"
  by (induction xs) (auto intro!: inv_intros)

lemma keeps_dopt [inv_intros]: "(\<And>x. keeps P (f x)) \<Longrightarrow> keeps P (dopt f x)"
  by (auto simp: dopt_def intro!: inv_intros split: option.splits)

text \<open>What the two collections hold at every moment.\<close>

definition deferral_ok :: "deferred_context \<Rightarrow> deferral \<Rightarrow> bool" where
  "deferral_ok ctx st =
     (distinct (ds_used st) \<and>
      (\<forall>(n, src) \<in> set (ds_prompts st).
         n \<in> set (ds_used st) \<and>
         (if isSensitive ctx n then src = FromSecret \<and> dc_secretsSupported ctx else src = FromVariable)))"

lemma set_add_simps [simp]:
  "set (set_add x xs) = insert x (set xs)"
  "distinct (set_add x xs) \<longleftrightarrow> distinct xs"
  by (auto simp: set_add_def)

lemma set_update_subset: "set (AList.update k v m) \<subseteq> insert (k, v) (set m)"
  by (induction m) auto

lemma deferral_ok_last [simp]: "deferral_ok ctx (st\<lparr>ds_last := l\<rparr>) = deferral_ok ctx st"
  by (simp add: deferral_ok_def)

lemma deferral_ok_used: "deferral_ok ctx st \<Longrightarrow> deferral_ok ctx (st\<lparr>ds_used := set_add n (ds_used st)\<rparr>)"
  by (auto simp: deferral_ok_def)

lemma deferral_ok_bind:
  assumes "deferral_ok ctx st" and "if isSensitive ctx n then src = FromSecret \<and> dc_secretsSupported ctx else src = FromVariable"
  shows "deferral_ok ctx (st\<lparr>ds_used := set_add n (ds_used st), ds_prompts := AList.update n src (ds_prompts st)\<rparr>)"
  using assms set_update_subset [of n src "ds_prompts st"]
  by (force simp: deferral_ok_def)

lemma bind_prompts_ok: "keeps (deferral_ok ctx) (bind_prompts ctx ns)"
proof -
  have "deferral_ok ctx st \<Longrightarrow> deferral_ok ctx (snd (bind_prompts ctx ns st))" for st
  proof (induction ns arbitrary: st)
    case (Cons n ns)
    have *: "deferral_ok ctx (snd (bind_prompts ctx ns
        (st\<lparr>ds_used := set_add n (ds_used st), ds_prompts := AList.update n src (ds_prompts st)\<rparr>)))"
      if "if isSensitive ctx n then src = FromSecret \<and> dc_secretsSupported ctx else src = FromVariable" for src
      by (rule Cons.IH [OF deferral_ok_bind [OF Cons.prems that]])
    show ?case
      using * [of FromSecret] * [of FromVariable] deferral_ok_used [OF Cons.prems] by (simp add: Let_def)
  qed simp
  then show ?thesis by (simp add: keeps_def)
qed

lemma keeps_at: "keeps (deferral_ok ctx) m \<Longrightarrow> keeps (deferral_ok ctx) (\<lambda>st. m (st\<lparr>ds_last := l\<rparr>))"
  by (simp add: keeps_def)

lemma rewritePrompt_ok: "keeps (deferral_ok ctx) (rewritePrompt ctx t)"
  unfolding rewritePrompt_def
  by (auto intro!: inv_intros bind_prompts_ok keeps_at split: if_splits)

lemma rewrite_embedded_ok: "keeps (deferral_ok ctx) (rewrite_embedded ctx why v)"
  by (auto simp: keeps_def rewrite_embedded_def split: json.splits prod.splits option.splits)

lemma keeps_step: "keeps P m \<Longrightarrow> P st \<Longrightarrow> m st = (r, st') \<Longrightarrow> P st'"
  by (auto simp: keeps_def dest: spec [of _ st])

lemma rewrite_config_field_ok: "keeps (deferral_ok ctx) (rewrite_config_field ctx kv)"
proof -
  obtain k v where kv: "kv = (k, v)" by (cases kv)
  have e: "keeps (deferral_ok ctx) (dbind (rewrite_embedded ctx (config_why k) v) (\<lambda>w. dreturn (k, w)))"
    by (intro inv_intros rewrite_embedded_ok)
  have r: "keeps (deferral_ok ctx) (dbind (rewritePrompt ctx s) (\<lambda>r. dreturn (k, g r)))" for s and g :: "string option \<Rightarrow> json"
    by (intro inv_intros rewritePrompt_ok)
  show ?thesis
    unfolding keeps_def kv rewrite_config_field_def
    using e r by (auto simp: keeps_def Let_def split: json.splits prod.splits option.splits)
qed

lemma rewrite_input_field_ok: "keeps (deferral_ok ctx) (rewrite_input_field ctx kv)"
proof -
  obtain k v where kv: "kv = (k, v)" by (cases kv)
  have e: "keeps (deferral_ok ctx) (dbind (rewrite_embedded ctx (input_why k) v) (\<lambda>w. dreturn (k, w)))"
    by (intro inv_intros rewrite_embedded_ok)
  show ?thesis
    unfolding keeps_def kv rewrite_input_field_def
    using e by (auto simp: keeps_def Let_def deferral_ok_used split: option.splits)
qed

lemma defer_node_ok: "keeps (deferral_ok ctx) (defer_node ctx p caps n)"
  unfolding defer_node_def rewriteConfig_def rewriteInputs_def
  by (intro inv_intros rewrite_config_field_ok rewrite_input_field_ok)

lemma expandChainDeferred_Inr:
  "expandChainDeferred li chain ctx = (Inr f, l) \<longleftrightarrow>
     check_type_ids (dc_resolvable ctx) chain = None \<and>
     (\<exists>nodes st.
        dmap (defer_node ctx (computePrefix (wc_chainId chain) (dc_expansionId ctx)) (propagated_capabilities chain))
          (wc_nodes chain) \<lparr>ds_last = li, ds_used = [], ds_prompts = []\<rparr> = (Inr nodes, st) \<and>
        l = ds_last st \<and>
        f = \<lparr>xf_nodes = nodes,
             xf_edges = map (rewrite_edge (map fn_id (wc_nodes chain))
                          (computePrefix (wc_chainId chain) (dc_expansionId ctx))) (fragment_edges chain),
             xf_idMap = id_map (computePrefix (wc_chainId chain) (dc_expansionId ctx)) (map fn_id (wc_nodes chain)),
             df_variables = map (materialize ctx) (filter (\<lambda>n. \<not> isSensitive ctx n) (ds_used st)),
             df_promptVariables = ds_prompts st,
             df_configurableSchema = configurable_schema ctx (ds_used st)\<rparr>)"
  by (auto simp: expandChainDeferred_def fragment_edges_def Let_def split: option.splits prod.splits sum.splits)

definition base_context :: "deferred_context \<Rightarrow> expansion_context" where
  "base_context ctx = \<lparr>ec_expansionId = dc_expansionId ctx, ec_params = dc_params ctx, ec_resolvable = dc_resolvable ctx\<rparr>"

definition node_frame :: "('z) expanded_node_scheme \<Rightarrow> string \<times> string \<times> string option \<times> json option \<times> string list option \<times> bool \<times> bool" where
  "node_frame n = (xn_id n, xn_typeId n, xn_name n, xn_position n, xn_capabilities n, xn_config n = None, xn_inputs n = None)"

lemma dopt_Inr: "dopt f x st = (Inr y, st') \<Longrightarrow> (y = None) = (x = None)"
  by (auto simp: dopt_def dreturn_def dbind_Inr split: option.splits)

lemma defer_node_frame:
  "defer_node ctx p caps n st = (Inr y, st') \<Longrightarrow> node_frame (expand_node ps p caps n) = node_frame y"
  by (auto simp: defer_node_def dbind_Inr dreturn_def node_frame_def expand_node_def dest!: dopt_Inr)

section \<open>Non-interference\<close>

definition nested_clean :: "deferred_context \<Rightarrow> json \<Rightarrow> bool" where
  "nested_clean ctx v = (case v of JStr s \<Rightarrow> True | _ \<Rightarrow> list_all (\<lambda>n. \<not> isSensitive ctx n) (json_tokens v))"

definition field_values :: "'x fragment_node_scheme \<Rightarrow> json list" where
  "field_values n = map snd ((case fn_config n of None \<Rightarrow> [] | Some es \<Rightarrow> es) @ (case fn_inputs n of None \<Rightarrow> [] | Some es \<Rightarrow> es))"

lemma isSensitive_params [simp]: "isSensitive (ctx\<lparr>dc_params := ps\<rparr>) = isSensitive ctx"
  by (auto simp: isSensitive_def fun_eq_iff)

lemma typeOf_params [simp]: "typeOf (ctx\<lparr>dc_params := ps\<rparr>) = typeOf ctx"
  by (auto simp: typeOf_def fun_eq_iff)

lemma bind_prompts_params: "bind_prompts (ctx\<lparr>dc_params := ps\<rparr>) ns st = bind_prompts ctx ns st"
  by (induction ns arbitrary: st) (auto simp: Let_def)

lemma rewritePrompt_params: "rewritePrompt (ctx\<lparr>dc_params := ps\<rparr>) t = rewritePrompt ctx t"
  by (auto simp: rewritePrompt_def bind_prompts_params fun_eq_iff dbind_def)

lemma rewritePrompt_some: "dc_promptVariableSource ctx \<Longrightarrow> rewritePrompt ctx t st = (Inr r, st') \<Longrightarrow> r \<noteq> None"
  by (auto simp: rewritePrompt_def dbind_Inr dreturn_def)

lemma rewrite_embedded_params:
  assumes agree: "\<And>n. \<not> isSensitive ctx n \<Longrightarrow> js_get p n = js_get q n" and "nested_clean ctx v"
  shows "rewrite_embedded (ctx\<lparr>dc_params := p\<rparr>) why v = rewrite_embedded (ctx\<lparr>dc_params := q\<rparr>) why v"
proof (cases "\<exists>s. v = JStr s")
  case False
  then have "substitute p v = substitute q v"
    using assms by (intro substitute_cong_tokens) (auto simp: nested_clean_def list_all_iff split: json.splits)
  with False show ?thesis by (auto simp: rewrite_embedded_def fun_eq_iff split: json.splits)
next
  case True
  then obtain s where v: "v = JStr s" by blast
  have names: "fst (scan_sensitive (isSensitive ctx) 0 s) = find (isSensitive ctx) (param_names s)"
    using scan_sensitive_find [of 0 s] by simp
  show ?thesis
  proof (cases "find (isSensitive ctx) (param_names s)")
    case None
    then have "substitute p v = substitute q v"
      using agree by (intro substitute_cong_tokens) (auto simp: v find_None_iff)
    then show ?thesis by (auto simp: v rewrite_embedded_def fun_eq_iff split: prod.splits option.splits)
  next
    case (Some n)
    then have "exec_param 0 s \<noteq> (None, 0)"
      using exec_param_names [of 0 s] by auto
    then obtain m l where "exec_param 0 s = (Some m, l)"
      using exec_param_names [of 0 s] by auto
    with Some names show ?thesis by (auto simp: v rewrite_embedded_def fun_eq_iff split: prod.splits)
  qed
qed

lemma dbind_cong2: "m = m' \<Longrightarrow> (\<And>st a st'. m' st = (Inr a, st') \<Longrightarrow> f a = g a) \<Longrightarrow> dbind m f = dbind m' g"
  by (auto simp: dbind_def fun_eq_iff split: prod.splits sum.splits)

lemma rewrite_config_field_params:
  assumes agree: "\<And>n. \<not> isSensitive ctx n \<Longrightarrow> js_get p n = js_get q n" and "nested_clean ctx (snd kv)"
    and pvs: "dc_promptVariableSource ctx"
  shows "rewrite_config_field (ctx\<lparr>dc_params := p\<rparr>) kv = rewrite_config_field (ctx\<lparr>dc_params := q\<rparr>) kv"
proof -
  obtain k v where kv: "kv = (k, v)" by (cases kv)
  have e: "rewrite_embedded (ctx\<lparr>dc_params := p\<rparr>) w v = rewrite_embedded (ctx\<lparr>dc_params := q\<rparr>) w v" for w
    using assms(1,2) by (intro rewrite_embedded_params) (auto simp: kv)
  have r: "dbind (rewritePrompt (ctx\<lparr>dc_params := p\<rparr>) s)
             (\<lambda>r. dreturn (k, case r of None \<Rightarrow> substitute p v | Some t \<Rightarrow> JStr t)) =
           dbind (rewritePrompt (ctx\<lparr>dc_params := q\<rparr>) s)
             (\<lambda>r. dreturn (k, case r of None \<Rightarrow> substitute q v | Some t \<Rightarrow> JStr t))" for s
    unfolding rewritePrompt_params
    by (rule dbind_cong2) (auto dest!: rewritePrompt_some [OF pvs])
  show ?thesis
    unfolding rewrite_config_field_def fun_eq_iff
    using r e
    by (auto simp: kv Let_def simp del: substitute.simps cong: option.case_cong split: json.split prod.split option.split_asm)
qed

lemma rewrite_input_field_params:
  assumes agree: "\<And>n. \<not> isSensitive ctx n \<Longrightarrow> js_get p n = js_get q n" and "nested_clean ctx (snd kv)"
  shows "rewrite_input_field (ctx\<lparr>dc_params := p\<rparr>) kv = rewrite_input_field (ctx\<lparr>dc_params := q\<rparr>) kv"
proof -
  obtain k v where kv: "kv = (k, v)" by (cases kv)
  have e: "rewrite_embedded (ctx\<lparr>dc_params := p\<rparr>) w v = rewrite_embedded (ctx\<lparr>dc_params := q\<rparr>) w v" for w
    using assms by (intro rewrite_embedded_params) (auto simp: kv)
  show ?thesis
    by (rule ext) (simp add: rewrite_input_field_def kv Let_def e split: option.split)
qed

lemma defer_node_params:
  assumes agree: "\<And>n. \<not> isSensitive ctx n \<Longrightarrow> js_get p n = js_get q n"
    and clean: "\<forall>v \<in> set (field_values node). nested_clean ctx v"
    and pvs: "dc_promptVariableSource ctx"
  shows "defer_node (ctx\<lparr>dc_params := p\<rparr>) pre caps node = defer_node (ctx\<lparr>dc_params := q\<rparr>) pre caps node"
proof -
  have "dopt (rewriteConfig (ctx\<lparr>dc_params := p\<rparr>)) (fn_config node) = dopt (rewriteConfig (ctx\<lparr>dc_params := q\<rparr>)) (fn_config node)"
  proof (cases "fn_config node")
    case (Some es)
    then have "nested_clean ctx (snd kv)" if "kv \<in> set es" for kv
      using clean that by (auto simp: field_values_def)
    then have "dmap (rewrite_config_field (ctx\<lparr>dc_params := p\<rparr>)) es = dmap (rewrite_config_field (ctx\<lparr>dc_params := q\<rparr>)) es"
      by (intro dmap_cong rewrite_config_field_params agree pvs)
    with Some show ?thesis by (simp add: dopt_def rewriteConfig_def)
  qed (simp add: dopt_def)
  moreover have "dopt (rewriteInputs (ctx\<lparr>dc_params := p\<rparr>)) (fn_inputs node) = dopt (rewriteInputs (ctx\<lparr>dc_params := q\<rparr>)) (fn_inputs node)"
  proof (cases "fn_inputs node")
    case (Some es)
    then have "nested_clean ctx (snd kv)" if "kv \<in> set es" for kv
      using clean that by (auto simp: field_values_def)
    then have "dmap (rewrite_input_field (ctx\<lparr>dc_params := p\<rparr>)) es = dmap (rewrite_input_field (ctx\<lparr>dc_params := q\<rparr>)) es"
      by (intro dmap_cong rewrite_input_field_params agree)
    with Some show ?thesis by (simp add: dopt_def rewriteInputs_def)
  qed (simp add: dopt_def)
  ultimately show ?thesis by (simp add: defer_node_def)
qed

section \<open>Samples\<close>

definition deferred_chain :: "jobject \<Rightarrow> jobject \<Rightarrow> fragment_node workflow_chain" where
  "deferred_chain cfg ins =
     sample_chain_of ''acme.demo'' [(sample_node ''draft'' cfg)\<lparr>fn_inputs := Some ins\<rparr>] [] []"

definition deferred_ctx :: "bool \<Rightarrow> string \<Rightarrow> deferred_context" where
  "deferred_ctx prompts secret =
     \<lparr>dc_expansionId = ''a1f0'', dc_params = [(''topic'', JStr ''cats''), (''key'', JStr secret)],
      dc_schema = [(''key'', \<lparr>ps_type = Some ''string'', ps_description = None, ps_sensitive = Some True\<rparr>)],
      dc_resolvable = starts_with ''core.'', dc_promptVariableSource = prompts, dc_secretsSupported = True\<rparr>"

definition config_of :: "(chain_error + deferred_fragment) \<times> nat \<Rightarrow> jobject list" where
  "config_of r = (case fst r of Inl _ \<Rightarrow> [] | Inr f \<Rightarrow> map (\<lambda>n. case xn_config n of None \<Rightarrow> [] | Some c \<Rightarrow> c) (xf_nodes f))"

definition sample_deferred :: "fragment_node workflow_chain" where
  "sample_deferred = deferred_chain [(''userPrompt'', JStr ''On {{params.topic}} with {{params.key}}'')]
                       [(''about'', JStr ''{{params.topic}}'')]"

lemma sample_deferred_runs: "(case fst (expandChainDeferred 0 sample_deferred (deferred_ctx True ''s3cret'')) of Inl _ \<Rightarrow> False | Inr _ \<Rightarrow> True)"
  by code_simp

lemma sample_deferred_Inr: "\<exists>f l. expandChainDeferred 0 sample_deferred (deferred_ctx True ''s3cret'') = (Inr f, l)"
  using sample_deferred_runs
  by (cases "expandChainDeferred 0 sample_deferred (deferred_ctx True ''s3cret'')") (auto split: sum.splits)

section \<open>Properties of deferred expansion\<close>

text \<open>
  Whatever the index the shared pattern was left at, a deferred expansion that succeeds
  has the nodes (ids, types, names, positions, capabilities, presence of config and inputs), the
  edges and the id map that the ordinary expansion of the same chain gives; only the values inside
  config and inputs differ.
\<close>

theorem deferred_agrees_with_base:
  assumes "expandChainDeferred li chain ctx = (Inr f, l)"
  shows "\<exists>g. expandChain chain (base_context ctx) = Inr g \<and>
           map node_frame (xf_nodes g) = map node_frame (xf_nodes f) \<and>
           xf_edges g = xf_edges f \<and> xf_idMap g = xf_idMap f"
proof -
  let ?p = "computePrefix (wc_chainId chain) (dc_expansionId ctx)"
  let ?caps = "propagated_capabilities chain"
  from assms obtain nodes st where
    check: "check_type_ids (dc_resolvable ctx) chain = None"
    and run: "dmap (defer_node ctx ?p ?caps) (wc_nodes chain) \<lparr>ds_last = li, ds_used = [], ds_prompts = []\<rparr> = (Inr nodes, st)"
    and f: "xf_nodes f = nodes" "xf_edges f = map (rewrite_edge (map fn_id (wc_nodes chain)) ?p) (fragment_edges chain)"
      "xf_idMap f = id_map ?p (map fn_id (wc_nodes chain))"
    by (auto simp: expandChainDeferred_Inr)
  have "\<forall>n \<in> set (wc_nodes chain). ec_resolvable (base_context ctx) (fn_typeId n)"
    using check by (auto simp: check_type_ids_def first_error_None_iff base_context_def split: if_splits)
  then obtain g where g: "expandChain chain (base_context ctx) = Inr g"
    using expandChain_total by blast
  have "list_all2 (\<lambda>n y. node_frame (expand_node (dc_params ctx) ?p ?caps n) = node_frame y) (wc_nodes chain) nodes"
    using dmap_Inr [OF run] by (rule list_all2_mono) (auto dest: defer_node_frame)
  then have "map node_frame (map (expand_node (dc_params ctx) ?p ?caps) (wc_nodes chain)) = map node_frame nodes"
    by (simp add: list_all2_conv_all_nth list_eq_iff_nth_eq)
  with g f show ?thesis by (auto simp: expandChain_Inr base_context_def)
qed

theorem deferred_agrees_with_base_witness:
  "\<exists>f l g. expandChainDeferred 0 sample_deferred (deferred_ctx True ''s3cret'') = (Inr f, l) \<and>
     expandChain sample_deferred (base_context (deferred_ctx True ''s3cret'')) = Inr g \<and>
     map node_frame (xf_nodes g) = map node_frame (xf_nodes f)"
  using sample_deferred_Inr deferred_agrees_with_base by blast

text \<open>
  A sensitive parameter never becomes a materialized variable (so its value is never a
  default), variable names are distinct, and every prompt binding takes a sensitive parameter from
  a secret, on a host that supports secrets, and any other from a variable.
\<close>

theorem sensitive_never_materialized:
  assumes "expandChainDeferred li chain ctx = (Inr f, l)"
  shows "distinct (map mv_name (df_variables f)) \<and>
         (\<forall>v \<in> set (df_variables f). \<not> isSensitive ctx (mv_name v)) \<and>
         (\<forall>(n, src) \<in> set (df_promptVariables f).
            if isSensitive ctx n then src = FromSecret \<and> dc_secretsSupported ctx
            else src = FromVariable \<and> n \<in> mv_name ` set (df_variables f))"
proof -
  from assms obtain nodes st where
    run: "dmap (defer_node ctx (computePrefix (wc_chainId chain) (dc_expansionId ctx)) (propagated_capabilities chain))
            (wc_nodes chain) \<lparr>ds_last = li, ds_used = [], ds_prompts = []\<rparr> = (Inr nodes, st)"
    and f: "df_variables f = map (materialize ctx) (filter (\<lambda>n. \<not> isSensitive ctx n) (ds_used st))"
      "df_promptVariables f = ds_prompts st"
    by (auto simp: expandChainDeferred_Inr)
  have "deferral_ok ctx \<lparr>ds_last = li, ds_used = [], ds_prompts = []\<rparr>" by (simp add: deferral_ok_def)
  from keeps_step [OF keeps_dmap [OF defer_node_ok] this run] have ok: "deferral_ok ctx st" .
  have names: "map mv_name (df_variables f) = filter (\<lambda>n. \<not> isSensitive ctx n) (ds_used st)"
    by (simp add: f(1) materialize_def comp_def)
  then have "mv_name ` set (df_variables f) = {n \<in> set (ds_used st). \<not> isSensitive ctx n}"
    by (metis set_filter set_map)
  then show ?thesis
    using ok unfolding names f(2) by (fastforce simp: deferral_ok_def)
qed

theorem sensitive_never_materialized_witness:
  "\<exists>f l. expandChainDeferred 0 sample_deferred (deferred_ctx True ''s3cret'') = (Inr f, l) \<and>
     (\<forall>v \<in> set (df_variables f). \<not> isSensitive (deferred_ctx True ''s3cret'') (mv_name v))"
  using sample_deferred_Inr sensitive_never_materialized by blast

text \<open>
  Claim C1: on a host whose prompts take variables, the outcome of a deferred expansion (the
  fragment or the error, and the pattern's index) does not depend on the values of the sensitive
  parameters, provided the nested objects and arrays of the config and inputs hold no token of one.
\<close>

theorem secrets_do_not_flow:
  assumes "dc_promptVariableSource ctx"
    and "\<And>n. \<not> isSensitive ctx n \<Longrightarrow> js_get p n = js_get q n"
    and "\<forall>node \<in> set (wc_nodes chain). \<forall>v \<in> set (field_values node). nested_clean ctx v"
  shows "expandChainDeferred li chain (ctx\<lparr>dc_params := p\<rparr>) = expandChainDeferred li chain (ctx\<lparr>dc_params := q\<rparr>)"
proof -
  have nodes: "dmap (defer_node (ctx\<lparr>dc_params := p\<rparr>) pre caps) (wc_nodes chain) =
      dmap (defer_node (ctx\<lparr>dc_params := q\<rparr>) pre caps) (wc_nodes chain)" for pre caps
    using assms by (intro dmap_cong defer_node_params) auto
  have "materialize (ctx\<lparr>dc_params := p\<rparr>) n = materialize (ctx\<lparr>dc_params := q\<rparr>) n" if "\<not> isSensitive ctx n" for n
    using assms(2) [OF that] by (simp add: materialize_def)
  moreover have "configurable_schema (ctx\<lparr>dc_params := p\<rparr>) ns = configurable_schema (ctx\<lparr>dc_params := q\<rparr>) ns" for ns
    by (simp add: configurable_schema_def cong: if_cong)
  ultimately show ?thesis
    using nodes by (simp add: expandChainDeferred_def Let_def split: option.split prod.split sum.split)
qed

theorem secrets_do_not_flow_witness:
  "expandChainDeferred 0 sample_deferred ((deferred_ctx True ''a'')\<lparr>dc_params := [(''topic'', JNull), (''key'', JStr ''a'')]\<rparr>) =
   expandChainDeferred 0 sample_deferred ((deferred_ctx True ''a'')\<lparr>dc_params := [(''topic'', JNull), (''key'', JStr ''b'')]\<rparr>)"
proof (rule secrets_do_not_flow)
  show "dc_promptVariableSource (deferred_ctx True ''a'')" by (simp add: deferred_ctx_def)
  show "js_get [(''topic'', JNull), (''key'', JStr ''a'')] n = js_get [(''topic'', JNull), (''key'', JStr ''b'')] n"
    if "\<not> isSensitive (deferred_ctx True ''a'') n" for n
    using that by (auto simp: isSensitive_def deferred_ctx_def js_get_def split: if_splits)
  show "\<forall>node \<in> set (wc_nodes sample_deferred). \<forall>v \<in> set (field_values node). nested_clean (deferred_ctx True ''a'') v"
    by code_simp
qed

text \<open>
  Outside those conditions a secret does flow into the persisted fragment: through a token
  in a nested config object, and through a prompt field on a host whose prompts take no variables.
\<close>

theorem secret_leaks:
  "config_of (expandChainDeferred 0 (deferred_chain [(''auth'', JObj [(''token'', JStr ''{{params.key}}'')])] [])
     (deferred_ctx True ''s3cret'')) = [[(''auth'', JObj [(''token'', JStr ''s3cret'')])]] \<and>
   config_of (expandChainDeferred 0 (deferred_chain [(''userPrompt'', JStr ''use {{params.key}}'')] [])
     (deferred_ctx False ''s3cret'')) = [[(''userPrompt'', JStr ''use s3cret'')]]"
  by (intro conjI; code_simp)

text \<open>
  The shared pattern's index outlives a refusal: after an expansion that throws on an
  embedded sensitive token, the next expansion of a chain that would have been deferred tests its
  prompt from the stale index, misses the token, and freezes the parameter's value in the prompt.
\<close>

theorem stale_index_changes_next_expansion:
  "(let good = deferred_chain [(''userPrompt'', JStr ''{{params.topic}}!'')] [];
        bad = deferred_chain [(''note'', JStr ''xx {{params.key}}'')] [];
        ctx = deferred_ctx True ''s3cret'';
        left = snd (expandChainDeferred 0 bad ctx)
    in config_of (expandChainDeferred 0 good ctx) = [[(''userPrompt'', JStr ''{{topic}}!'')]] \<and>
       config_of (expandChainDeferred left good ctx) = [[(''userPrompt'', JStr ''cats!'')]])"
  by code_simp

end
