(* ===== verification/Chain_Tree.thy ===== *)
theory Chain_Tree
  imports Chain_Expansion
begin

text \<open>
  Sub-chains and produced variables (\<open>expandChainTree\<close>, \<open>emitProducedVariables\<close> and
  \<open>validateVariableReads\<close> of \<open>workflow-chain-expansion.ts\<close>). The depth-first walk keeps two things:
  the set of chains on the stack, which a throw abandons with the whole walk and is therefore an
  argument, and the map of registered children, which is threaded.
\<close>

section \<open>Child ids\<close>

definition default_max_sub_chain_depth :: nat where
  "default_max_sub_chain_depth = 8"

definition refChainId :: "sub_chain_ref \<Rightarrow> string" where
  "refChainId r = (case r of SiblingRef s \<Rightarrow> s | ExternalRef p c v \<Rightarrow> c)"

definition slug_char :: "char \<Rightarrow> char" where
  "slug_char c = (if is_alnum c \<or> c = CHR ''-'' then c else CHR ''_'')"

text \<open>Both replacements at once: unsafe characters, then dots, become underscores; an underscore stays.\<close>

definition slug :: "string \<Rightarrow> string" where
  "slug = map slug_char"

definition mintChildWorkflowId :: "string \<Rightarrow> string \<Rightarrow> string \<Rightarrow> string" where
  "mintChildWorkflowId tenantId childChainId version =
     ''wfc_'' @ slug tenantId @ ''__'' @ slug childChainId @ ''__'' @ slug version"

section \<open>The walk\<close>

type_synonym plain_chain = "fragment_node workflow_chain"
type_synonym plain_fragment = "expanded_node expanded_fragment"

record co_registered_child =
  cc_childWorkflowId :: string
  cc_chainId :: string
  cc_fragment :: plain_fragment

type_synonym child_map = "(string \<times> co_registered_child) list"

record co_expansion_context =
  co_parentExpansionId :: string
  co_tenantId :: string
  co_params :: jobject
  co_resolvable :: "string \<Rightarrow> bool"
  co_siblings :: "(string \<times> plain_chain) list"
  co_maxDepth :: "nat option"

record chain_tree =
  ct_parent :: plain_fragment
  ct_children :: "co_registered_child list"

definition string_ref :: "jobject option \<Rightarrow> string option" where
  "string_ref cfg =
     (case cfg of
        None \<Rightarrow> None
      | Some es \<Rightarrow> (case js_get es ''subChainRef'' of Some (JStr s) \<Rightarrow> Some s | _ \<Rightarrow> None))"

definition subChainRefsInNodes :: "plain_chain \<Rightarrow> string list" where
  "subChainRefsInNodes chain = uniq (List.map_filter (\<lambda>n. string_ref (fn_config n)) (wc_nodes chain))"

definition declared_refs :: "plain_chain \<Rightarrow> string list" where
  "declared_refs chain = (case wc_subChains chain of None \<Rightarrow> [] | Some rs \<Rightarrow> map refChainId rs)"

definition maxDepth :: "co_expansion_context \<Rightarrow> nat" where
  "maxDepth ctx = (case co_maxDepth ctx of None \<Rightarrow> default_max_sub_chain_depth | Some d \<Rightarrow> d)"

definition child_id :: "co_expansion_context \<Rightarrow> string \<Rightarrow> plain_chain \<Rightarrow> string" where
  "child_id ctx ref sibling = mintChildWorkflowId (co_tenantId ctx) ref (wc_version sibling)"

text \<open>The loop over the references, given the recursive call.\<close>

fun register_children ::
  "(plain_chain \<Rightarrow> child_map \<Rightarrow> chain_error + plain_fragment \<times> child_map) \<Rightarrow>
   co_expansion_context \<Rightarrow> plain_chain \<Rightarrow> string list \<Rightarrow> child_map \<Rightarrow> chain_error + child_map" where
  "register_children rec ctx chain [] children = Inr children"
| "register_children rec ctx chain (ref # refs) children =
     (if ref \<notin> set (declared_refs chain) then Inl (SubChainUnresolved ref (wc_chainId chain))
      else case map_of (co_siblings ctx) ref of
        None \<Rightarrow> Inl (SubChainUnresolved ref (wc_chainId chain))
      | Some sibling \<Rightarrow>
          (let i = child_id ctx ref sibling in
           if map_of children i \<noteq> None then register_children rec ctx chain refs children
           else ebind (rec sibling children) (\<lambda>(fragment, children').
                  register_children rec ctx chain refs
                    (AList.update i \<lparr>cc_childWorkflowId = i, cc_chainId = ref, cc_fragment = fragment\<rparr> children'))))"

definition expansion_id :: "co_expansion_context \<Rightarrow> string \<Rightarrow> plain_chain \<Rightarrow> string" where
  "expansion_id ctx rootId chain =
     (if wc_chainId chain = rootId then co_parentExpansionId ctx
      else co_parentExpansionId ctx @ ''_'' @ undot (wc_chainId chain))"

definition rewrite_ref :: "co_expansion_context \<Rightarrow> expanded_node \<Rightarrow> expanded_node" where
  "rewrite_ref ctx n =
     (case string_ref (xn_config n) of
        None \<Rightarrow> n
      | Some ref \<Rightarrow>
          let version = (case map_of (co_siblings ctx) ref of None \<Rightarrow> ''0.0.0'' | Some s \<Rightarrow> wc_version s);
              rest = (case xn_config n of None \<Rightarrow> [] | Some es \<Rightarrow> filter (\<lambda>(k, v). k \<noteq> ''subChainRef'') es)
          in n\<lparr>xn_config := Some (AList.update ''workflowId''
                 (JStr (mintChildWorkflowId (co_tenantId ctx) ref version)) rest)\<rparr>)"

text \<open>
  \<open>expandOne\<close>: the first argument is how many levels are left, \<open>maxDepth + 1 - depth\<close>, so that zero
  is exactly \<open>depth > maxDepth\<close>.
\<close>

fun expandOne ::
  "nat \<Rightarrow> co_expansion_context \<Rightarrow> string \<Rightarrow> string list \<Rightarrow> plain_chain \<Rightarrow> child_map \<Rightarrow>
   chain_error + plain_fragment \<times> child_map" where
  "expandOne 0 ctx rootId onStack chain children =
     Inl (SubChainDepthExceeded (wc_chainId chain) (maxDepth ctx))"
| "expandOne (Suc left) ctx rootId onStack chain children =
     (if wc_chainId chain \<in> set onStack then Inl (SubChainCycle (wc_chainId chain) ''chain transitively composes itself'')
      else ebind (register_children (expandOne left ctx rootId (wc_chainId chain # onStack)) ctx chain
                    (subChainRefsInNodes chain) children) (\<lambda>children'.
           ebind (expandChain chain \<lparr>ec_expansionId = expansion_id ctx rootId chain, ec_params = co_params ctx,
                                     ec_resolvable = co_resolvable ctx\<rparr>) (\<lambda>fragment.
             Inr (fragment\<lparr>xf_nodes := map (rewrite_ref ctx) (xf_nodes fragment)\<rparr>, children'))))"

definition expandChainTree :: "plain_chain \<Rightarrow> co_expansion_context \<Rightarrow> chain_error + chain_tree" where
  "expandChainTree root ctx =
     ebind (expandOne (Suc (maxDepth ctx)) ctx (wc_chainId root) [] root []) (\<lambda>(parent, children).
       Inr \<lparr>ct_parent = parent, ct_children = map snd children\<rparr>)"

section \<open>Produced variables\<close>

definition emitProducedVariables :: "('n, 'z) workflow_chain_scheme \<Rightarrow> (string \<times> string) list" where
  "emitProducedVariables chain =
     (case wc_producedVariables chain of None \<Rightarrow> [] | Some ps \<Rightarrow> map (\<lambda>p. (pv_name p, pv_type p)) ps)"

definition variable_name :: "jobject \<Rightarrow> string option" where
  "variable_name es =
     (if js_get es ''type'' = Some (JStr ''variable'')
      then (case js_get es ''variableName'' of Some (JStr n) \<Rightarrow> Some n | _ \<Rightarrow> None) else None)"

fun collectVariableReads :: "json \<Rightarrow> string list" where
  "collectVariableReads (JArr xs) = concat (map collectVariableReads xs)"
| "collectVariableReads (JObj es) =
     (case variable_name es of None \<Rightarrow> [] | Some n \<Rightarrow> [n]) @ concat (map (\<lambda>(k, v). collectVariableReads v) es)"
| "collectVariableReads v = []"

definition produced :: "('n, 'z) workflow_chain_scheme \<Rightarrow> produced_variable list" where
  "produced chain = (case wc_producedVariables chain of None \<Rightarrow> [] | Some ps \<Rightarrow> ps)"

definition object_keys :: "json \<Rightarrow> string list" where
  "object_keys v =
     (case v of
        JObj es \<Rightarrow> map fst es
      | JArr xs \<Rightarrow> map nat_digits [0..<length xs]
      | JStr s \<Rightarrow> map nat_digits [0..<length s]
      | _ \<Rightarrow> [])"

definition param_property_names :: "jobject \<Rightarrow> string list" where
  "param_property_names ps = (case js_get ps ''properties'' of None \<Rightarrow> [] | Some v \<Rightarrow> object_keys v)"

definition node_reads :: "'x fragment_node_scheme \<Rightarrow> string list" where
  "node_reads n =
     (case fn_inputs n of None \<Rightarrow> [] | Some es \<Rightarrow> collectVariableReads (JObj es)) @
     (case fn_config n of None \<Rightarrow> [] | Some es \<Rightarrow> collectVariableReads (JObj es))"

definition validateVariableReads ::
  "('x fragment_node_scheme, 'z) workflow_chain_scheme \<Rightarrow> string list \<Rightarrow> chain_error option" where
  "validateVariableReads chain materialized =
     (case first_error (\<lambda>p. if pv_producedBy p \<in> set (map fn_id (wc_nodes chain)) then None
              else Some (ProducedVarProducerUnknown (pv_name p) (pv_producedBy p) (wc_chainId chain))) (produced chain) of
        Some e \<Rightarrow> Some e
      | None \<Rightarrow>
          (case first_error (\<lambda>p. if pv_name p \<in> set (materialized @ param_property_names (wc_parameters chain))
                  then Some (VariableUndeclared (pv_name p) (wc_chainId chain)) else None) (produced chain) of
             Some e \<Rightarrow> Some e
           | None \<Rightarrow>
               first_error (\<lambda>n. if n \<in> set (materialized @ map pv_name (produced chain)) then None
                   else Some (VariableUndeclared n (wc_chainId chain)))
                 (uniq (concat (map node_reads (wc_nodes chain))))))"

section \<open>What registering keeps\<close>

text \<open>
  A run registers its children in an order in which every child comes after the children its own
  references mint: no reference dangles and no cycle is left.
\<close>

definition minted :: "co_expansion_context \<Rightarrow> string \<Rightarrow> string \<Rightarrow> bool" where
  "minted ctx ref i = (\<exists>s. map_of (co_siblings ctx) ref = Some s \<and> i = mintChildWorkflowId (co_tenantId ctx) ref (wc_version s))"

lemma minted_iff: "minted ctx ref i \<longleftrightarrow> (\<exists>s. map_of (co_siblings ctx) ref = Some s \<and> i = child_id ctx ref s)"
  by (simp add: minted_def child_id_def)

fun in_order :: "co_expansion_context \<Rightarrow> string set \<Rightarrow> co_registered_child list \<Rightarrow> bool" where
  "in_order ctx seen [] = True"
| "in_order ctx seen (c # cs) =
     (cc_childWorkflowId c \<notin> seen \<and>
      (\<exists>s. map_of (co_siblings ctx) (cc_chainId c) = Some s \<and>
           cc_childWorkflowId c = mintChildWorkflowId (co_tenantId ctx) (cc_chainId c) (wc_version s) \<and>
           (\<forall>r \<in> set (subChainRefsInNodes s). \<exists>i \<in> seen. minted ctx r i)) \<and>
      in_order ctx (insert (cc_childWorkflowId c) seen) cs)"

lemma in_order_append:
  "in_order ctx seen (xs @ ys) \<longleftrightarrow>
   in_order ctx seen xs \<and> in_order ctx (seen \<union> cc_childWorkflowId ` set xs) ys"
  by (induction xs arbitrary: seen) auto

lemma in_order_distinct: "in_order ctx seen cs \<Longrightarrow> distinct (map cc_childWorkflowId cs) \<and> cc_childWorkflowId ` set cs \<inter> seen = {}"
  by (induction cs arbitrary: seen) (auto dest!: meta_spec)

definition keyed :: "child_map \<Rightarrow> bool" where
  "keyed m = (\<forall>(k, c) \<in> set m. k = cc_childWorkflowId c)"

definition map_ok :: "co_expansion_context \<Rightarrow> child_map \<Rightarrow> bool" where
  "map_ok ctx m = (keyed m \<and> in_order ctx {} (map snd m))"

lemma keyed_ids: "keyed m \<Longrightarrow> cc_childWorkflowId ` set (map snd m) = fst ` set m"
  by (force simp: keyed_def image_iff)

lemma map_ok_extend:
  assumes "map_ok ctx m" and fresh: "i \<notin> fst ` set m" and "map_of (co_siblings ctx) ref = Some s"
    and "i = child_id ctx ref s" and "\<forall>r \<in> set (subChainRefsInNodes s). \<exists>j \<in> fst ` set m. minted ctx r j"
  shows "map_ok ctx (AList.update i \<lparr>cc_childWorkflowId = i, cc_chainId = ref, cc_fragment = f\<rparr> m)"
proof -
  have k: "keyed m" and o: "in_order ctx {} (map snd m)" using assms(1) by (auto simp: map_ok_def)
  have "in_order ctx {} (map snd m @ [\<lparr>cc_childWorkflowId = i, cc_chainId = ref, cc_fragment = f\<rparr>])"
    unfolding in_order_append keyed_ids [OF k] using o assms(3-5) fresh by (auto simp: child_id_def)
  moreover have "keyed (m @ [(i, \<lparr>cc_childWorkflowId = i, cc_chainId = ref, cc_fragment = f\<rparr>)])"
    using k by (auto simp: keyed_def)
  ultimately show ?thesis by (simp add: update_fresh [OF fresh] map_ok_def)
qed

text \<open>
  The siblings are keyed by their own chain id and no two of them mint one child id. Then a chain on
  the stack cannot be registered below its own call, which is what lets the map only grow.
\<close>

definition plain_siblings :: "co_expansion_context \<Rightarrow> bool" where
  "plain_siblings ctx =
     (\<forall>(k, s) \<in> set (co_siblings ctx). wc_chainId s = k \<and>
        (\<forall>(k', s') \<in> set (co_siblings ctx). child_id ctx k s = child_id ctx k' s' \<longrightarrow> k = k'))"

lemma plain_siblings_own: "plain_siblings ctx \<Longrightarrow> map_of (co_siblings ctx) k = Some s \<Longrightarrow> wc_chainId s = k"
  by (auto simp: plain_siblings_def dest!: map_of_SomeD)

lemma plain_siblings_minted: "plain_siblings ctx \<Longrightarrow> minted ctx r i \<Longrightarrow> minted ctx r' i \<Longrightarrow> r = r'"
  by (fastforce simp: plain_siblings_def minted_iff dest!: map_of_SomeD)

definition frozen :: "co_expansion_context \<Rightarrow> string list \<Rightarrow> child_map \<Rightarrow> child_map \<Rightarrow> bool" where
  "frozen ctx stack m m' = (\<forall>r \<in> set stack. \<forall>i \<in> fst ` set m'. minted ctx r i \<longrightarrow> i \<in> fst ` set m)"

definition covers :: "co_expansion_context \<Rightarrow> string list \<Rightarrow> child_map \<Rightarrow> bool" where
  "covers ctx refs m = (\<forall>r \<in> set refs. \<exists>i \<in> fst ` set m. minted ctx r i)"

lemma covers_mono: "covers ctx refs m \<Longrightarrow> fst ` set m \<subseteq> fst ` set m' \<Longrightarrow> covers ctx refs m'"
  unfolding covers_def by blast

lemma covers_append: "covers ctx (rs @ qs) m \<longleftrightarrow> covers ctx rs m \<and> covers ctx qs m"
  unfolding covers_def by auto

text \<open>What a call on a chain promises: the map stays in order, grows, and holds every id the chain mints.\<close>

definition walk_ok :: "co_expansion_context \<Rightarrow> string list \<Rightarrow> string list \<Rightarrow> child_map \<Rightarrow> child_map \<Rightarrow> bool" where
  "walk_ok ctx stack refs m m' =
     (map_ok ctx m' \<and> fst ` set m \<subseteq> fst ` set m' \<and> frozen ctx stack m m' \<and>
      covers ctx refs m')"

definition good_call ::
  "co_expansion_context \<Rightarrow> string list \<Rightarrow> (plain_chain \<Rightarrow> child_map \<Rightarrow> chain_error + plain_fragment \<times> child_map) \<Rightarrow> bool" where
  "good_call ctx stack rec =
     (\<forall>s m f m'. map_ok ctx m \<longrightarrow> rec s m = Inr (f, m') \<longrightarrow>
        wc_chainId s \<notin> set stack \<and> walk_ok ctx (wc_chainId s # stack) (subChainRefsInNodes s) m m')"

lemma frozen_trans: "frozen ctx stack m m1 \<Longrightarrow> frozen ctx stack m1 m2 \<Longrightarrow> frozen ctx stack m m2"
  unfolding frozen_def by blast

lemma walk_ok_trans:
  "walk_ok ctx stack rs m m1 \<Longrightarrow> walk_ok ctx stack qs m1 m2 \<Longrightarrow> walk_ok ctx stack (rs @ qs) m m2"
  using frozen_trans [of ctx stack m m1 m2] covers_mono [of ctx rs m1 m2]
  by (auto simp: walk_ok_def covers_append)

lemma register_children_ok:
  assumes "good_call ctx stack rec" and plain: "plain_siblings ctx"
  shows "map_ok ctx m \<Longrightarrow> register_children rec ctx chain refs m = Inr m' \<Longrightarrow> walk_ok ctx stack refs m m'"
proof (induction refs arbitrary: m)
  case Nil
  then show ?case by (auto simp: walk_ok_def frozen_def covers_def)
next
  case (Cons ref refs)
  then obtain s where s: "map_of (co_siblings ctx) ref = Some s"
    by (auto split: if_splits option.splits)
  let ?i = "child_id ctx ref s"
  have i: "minted ctx ref ?i" using s by (auto simp: minted_iff)
  show ?case
  proof (cases "map_of m ?i")
    case (Some c)
    with Cons.prems s have "register_children rec ctx chain refs m = Inr m'"
      by (simp add: Let_def split: if_splits)
    from Cons.IH [OF Cons.prems(1) this] have "walk_ok ctx stack refs m m'" .
    moreover have "walk_ok ctx stack [ref] m m"
      using Some i Cons.prems(1) by (force simp: walk_ok_def frozen_def covers_def dest: map_of_SomeD)
    ultimately show ?thesis using walk_ok_trans [of ctx stack "[ref]"] by fastforce
  next
    case None
    then have absent: "?i \<notin> fst ` set m" by (simp add: map_of_eq_None_iff)
    from Cons.prems s None obtain f m1 where rec: "rec s m = Inr (f, m1)"
      and rest: "register_children rec ctx chain refs
            (AList.update ?i \<lparr>cc_childWorkflowId = ?i, cc_chainId = ref, cc_fragment = f\<rparr> m1) = Inr m'"
      by (auto simp: Let_def ebind_Inr_iff split: if_splits)
    have own: "wc_chainId s = ref" by (rule plain_siblings_own [OF plain s])
    from assms(1) Cons.prems(1) rec have nots: "ref \<notin> set stack"
      and w: "walk_ok ctx (ref # stack) (subChainRefsInNodes s) m m1"
      unfolding good_call_def using own by blast+
    have fresh: "?i \<notin> fst ` set m1"
      using w i absent unfolding walk_ok_def frozen_def list.set(2) by blast
    let ?m2 = "AList.update ?i \<lparr>cc_childWorkflowId = ?i, cc_chainId = ref, cc_fragment = f\<rparr> m1"
    have ok2: "map_ok ctx ?m2"
      using w by (intro map_ok_extend [OF _ fresh s]) (auto simp: walk_ok_def covers_def)
    have dom: "fst ` set ?m2 = insert ?i (fst ` set m1)"
      by (simp add: dom_update)
    have "frozen ctx stack m ?m2"
      unfolding frozen_def dom
    proof (intro ballI impI)
      fix r j
      assume r: "r \<in> set stack" and j: "j \<in> insert ?i (fst ` set m1)" and mr: "minted ctx r j"
      have "j \<noteq> ?i" using plain_siblings_minted [OF plain i] mr r nots by blast
      with j r mr w show "j \<in> fst ` set m"
        unfolding walk_ok_def frozen_def list.set(2) by blast
    qed
    then have "walk_ok ctx stack [ref] m ?m2"
      using ok2 w i by (auto simp: walk_ok_def covers_def dom)
    moreover from Cons.IH [OF ok2 rest] have "walk_ok ctx stack refs ?m2 m'" .
    ultimately show ?thesis using walk_ok_trans [of ctx stack "[ref]"] by fastforce
  qed
qed

lemma expandOne_ok: "plain_siblings ctx \<Longrightarrow> good_call ctx stack (expandOne left ctx rootId stack)"
proof (induction left arbitrary: stack)
  case 0
  then show ?case by (simp add: good_call_def)
next
  case (Suc left)
  show ?case
    unfolding good_call_def
  proof (intro allI impI)
    fix s m f m'
    assume ok: "map_ok ctx m" and run: "expandOne (Suc left) ctx rootId stack s m = Inr (f, m')"
    from run have "wc_chainId s \<notin> set stack"
      and "register_children (expandOne left ctx rootId (wc_chainId s # stack)) ctx s (subChainRefsInNodes s) m = Inr m'"
      by (auto simp: ebind_Inr_iff split: if_splits)
    with register_children_ok [OF Suc.IH [OF Suc.prems] Suc.prems ok]
    show "wc_chainId s \<notin> set stack \<and> walk_ok ctx (wc_chainId s # stack) (subChainRefsInNodes s) m m'"
      by blast
  qed
qed

section \<open>Reads in a value\<close>

text \<open>The bindings anywhere in a value, as a relation.\<close>

inductive reads_variable :: "json \<Rightarrow> string \<Rightarrow> bool" where
  read_here: "variable_name es = Some n \<Longrightarrow> reads_variable (JObj es) n"
| read_member: "(k, v) \<in> set es \<Longrightarrow> reads_variable v n \<Longrightarrow> reads_variable (JObj es) n"
| read_element: "v \<in> set xs \<Longrightarrow> reads_variable v n \<Longrightarrow> reads_variable (JArr xs) n"

inductive_simps reads_variable_simps:
  "reads_variable (JObj es) n"
  "reads_variable (JArr xs) n"
  "reads_variable JNull n"
  "reads_variable (JBool b) n"
  "reads_variable (JNum i) n"
  "reads_variable (JStr s) n"
  "reads_variable (JNative s) n"

lemma collectVariableReads_iff: "n \<in> set (collectVariableReads v) \<longleftrightarrow> reads_variable v n"
proof (induction v rule: json_induct)
  case (Obj es)
  have "(\<exists>k w. (k, w) \<in> set es \<and> n \<in> set (collectVariableReads w)) \<longleftrightarrow>
      (\<exists>k w. (k, w) \<in> set es \<and> reads_variable w n)"
    using Obj by blast
  then show ?case by (fastforce simp: reads_variable_simps split: option.splits)
qed (auto simp: reads_variable_simps)

definition node_binds :: "'x fragment_node_scheme \<Rightarrow> string \<Rightarrow> bool" where
  "node_binds node n =
     ((\<exists>es. fn_inputs node = Some es \<and> reads_variable (JObj es) n) \<or>
      (\<exists>es. fn_config node = Some es \<and> reads_variable (JObj es) n))"

lemma node_reads_iff: "n \<in> set (node_reads node) \<longleftrightarrow> node_binds node n"
  by (cases "fn_inputs node"; cases "fn_config node")
    (auto simp: node_reads_def node_binds_def collectVariableReads_iff simp del: collectVariableReads.simps)

section \<open>Samples\<close>

definition tree_chain :: "string \<Rightarrow> string list \<Rightarrow> plain_chain" where
  "tree_chain i refs =
     sample_chain_of i (map (\<lambda>r. sample_node r [(''subChainRef'', JStr r)]) refs) [] (map SiblingRef refs)"

definition tree_ctx :: "plain_chain list \<Rightarrow> co_expansion_context" where
  "tree_ctx cs =
     \<lparr>co_parentExpansionId = ''a1f0'', co_tenantId = ''acme'', co_params = [], co_resolvable = starts_with ''core.'',
      co_siblings = map (\<lambda>c. (wc_chainId c, c)) cs, co_maxDepth = None\<rparr>"

definition sample_tree_ctx :: co_expansion_context where
  "sample_tree_ctx = tree_ctx [tree_chain ''leaf'' [], tree_chain ''mid'' [''leaf'']]"

definition child_ids :: "chain_error + chain_tree \<Rightarrow> string list" where
  "child_ids r = (case r of Inl _ \<Rightarrow> [] | Inr t \<Rightarrow> map cc_childWorkflowId (ct_children t))"

definition dispatched :: "chain_error + chain_tree \<Rightarrow> json option list" where
  "dispatched r = (case r of Inl _ \<Rightarrow> [] | Inr t \<Rightarrow>
     map (\<lambda>n. case xn_config n of None \<Rightarrow> None | Some es \<Rightarrow> js_get es ''workflowId'') (xf_nodes (ct_parent t)))"

lemma sample_tree_runs:
  "child_ids (expandChainTree (tree_chain ''root'' [''mid'', ''leaf'']) sample_tree_ctx) =
     [''wfc_acme__leaf__1_0_0'', ''wfc_acme__mid__1_0_0'']"
  by code_simp

lemma sample_tree_Inr: "\<exists>t. expandChainTree (tree_chain ''root'' [''mid'', ''leaf'']) sample_tree_ctx = Inr t"
  using sample_tree_runs by (cases "expandChainTree (tree_chain ''root'' [''mid'', ''leaf'']) sample_tree_ctx") (auto simp: child_ids_def)

lemma sample_plain_siblings: "plain_siblings sample_tree_ctx"
  by code_simp

section \<open>Properties of co-expansion\<close>

text \<open>
  What a rewritten node is: it dispatches the id minted for this tenant, the chain it referred to and
  the version of that sibling (\<open>0.0.0\<close> when there is none), its reference is gone, and all else is as it was.
\<close>

definition ref_version :: "co_expansion_context \<Rightarrow> string \<Rightarrow> string" where
  "ref_version ctx ref = (case map_of (co_siblings ctx) ref of None \<Rightarrow> ''0.0.0'' | Some s \<Rightarrow> wc_version s)"

definition dispatch_of :: "co_expansion_context \<Rightarrow> expanded_node \<Rightarrow> expanded_node \<Rightarrow> bool" where
  "dispatch_of ctx n0 n =
     (case string_ref (xn_config n0) of
        None \<Rightarrow> n = n0
      | Some ref \<Rightarrow>
          (\<exists>es0 es. xn_config n0 = Some es0 \<and> n = n0\<lparr>xn_config := Some es\<rparr> \<and>
             js_get es ''workflowId'' = Some (JStr (mintChildWorkflowId (co_tenantId ctx) ref (ref_version ctx ref))) \<and>
             js_get es ''subChainRef'' = None \<and>
             (\<forall>k. k \<notin> {''workflowId'', ''subChainRef''} \<longrightarrow> js_get es k = js_get es0 k)))"

lemma rewrite_dispatches: "dispatch_of ctx n (rewrite_ref ctx n)"
proof (cases "string_ref (xn_config n)")
  case None
  then show ?thesis by (simp add: dispatch_of_def rewrite_ref_def)
next
  case (Some r)
  then obtain es where es: "xn_config n = Some es" by (auto simp: string_ref_def split: option.splits)
  have lookup: "map_of (filter (\<lambda>(k, v). k \<noteq> ''subChainRef'') es) k = (if k = ''subChainRef'' then None else map_of es k)" for k
    by (induction es) auto
  let ?new = "AList.update ''workflowId'' (JStr (mintChildWorkflowId (co_tenantId ctx) r (ref_version ctx r))) (filter (\<lambda>(k, v). k \<noteq> ''subChainRef'') es)"
  have "proto_member ''subChainRef'' = None" by code_simp
  then have "js_get ?new ''subChainRef'' = None" "\<forall>k. k \<notin> {''workflowId'', ''subChainRef''} \<longrightarrow> js_get ?new k = js_get es k"
    "js_get ?new ''workflowId'' = Some (JStr (mintChildWorkflowId (co_tenantId ctx) r (ref_version ctx r)))"
    by (simp_all add: js_get_def update_conv' lookup)
  moreover have "rewrite_ref ctx n = n\<lparr>xn_config := Some ?new\<rparr>" using Some es by (simp add: rewrite_ref_def ref_version_def Let_def)
  ultimately show ?thesis unfolding dispatch_of_def Some option.case using es by blast
qed

definition tree_expansion :: "co_expansion_context \<Rightarrow> string \<Rightarrow> plain_chain \<Rightarrow> plain_fragment \<Rightarrow> bool" where
  "tree_expansion ctx rootId s f =
     (\<exists>f0. expandChain s \<lparr>ec_expansionId = expansion_id ctx rootId s, ec_params = co_params ctx, ec_resolvable = co_resolvable ctx\<rparr> = Inr f0 \<and>
        xf_edges f = xf_edges f0 \<and> xf_idMap f = xf_idMap f0 \<and> list_all2 (dispatch_of ctx) (xf_nodes f0) (xf_nodes f))"

definition child_expansion :: "co_expansion_context \<Rightarrow> string \<Rightarrow> co_registered_child \<Rightarrow> bool" where
  "child_expansion ctx rootId c =
     (\<exists>s. map_of (co_siblings ctx) (cc_chainId c) = Some s \<and> tree_expansion ctx rootId s (cc_fragment c))"

lemma expandOne_expansion: "expandOne left ctx rootId stack s m = Inr (f, m') \<Longrightarrow> tree_expansion ctx rootId s f"
  by (cases left)
    (auto simp: tree_expansion_def ebind_Inr_iff list_all2_conv_all_nth rewrite_dispatches split: if_splits)

lemma update_set: "set (AList.update k v m) \<subseteq> insert (k, v) (set m)"
  by (induction m) auto

lemma register_children_expansions:
  assumes rec: "\<And>s m f m'. rec s m = Inr (f, m') \<Longrightarrow> list_all (child_expansion ctx rootId) (map snd m) \<Longrightarrow>
      tree_expansion ctx rootId s f \<and> list_all (child_expansion ctx rootId) (map snd m')"
  shows "register_children rec ctx chain refs m = Inr m' \<Longrightarrow> list_all (child_expansion ctx rootId) (map snd m) \<Longrightarrow>
    list_all (child_expansion ctx rootId) (map snd m')"
proof (induction refs arbitrary: m)
  case (Cons ref refs)
  then obtain s where s: "map_of (co_siblings ctx) ref = Some s" by (auto split: if_splits option.splits)
  let ?i = "child_id ctx ref s"
  show ?case
  proof (cases "map_of m ?i")
    case (Some c)
    with Cons s show ?thesis by (simp add: Let_def split: if_splits)
  next
    case None
    with Cons.prems(1) s obtain f m1 where r: "rec s m = Inr (f, m1)"
      and rest: "register_children rec ctx chain refs
            (AList.update ?i \<lparr>cc_childWorkflowId = ?i, cc_chainId = ref, cc_fragment = f\<rparr> m1) = Inr m'"
      by (auto simp: Let_def ebind_Inr_iff split: if_splits)
    note new = rec [OF r Cons.prems(2)]
    have "list_all (child_expansion ctx rootId) (map snd (AList.update ?i \<lparr>cc_childWorkflowId = ?i, cc_chainId = ref, cc_fragment = f\<rparr> m1))"
      using new s update_set by (fastforce simp: list_all_iff child_expansion_def)
    from Cons.IH [OF rest this] show ?thesis .
  qed
qed simp

lemma expandOne_expansions:
  "expandOne left ctx rootId stack s m = Inr (f, m') \<Longrightarrow> list_all (child_expansion ctx rootId) (map snd m) \<Longrightarrow>
   list_all (child_expansion ctx rootId) (map snd m')"
proof (induction left arbitrary: stack s m f m')
  case (Suc left)
  from Suc.prems(1) have "register_children (expandOne left ctx rootId (wc_chainId s # stack)) ctx s (subChainRefsInNodes s) m = Inr m'"
    by (auto simp: ebind_Inr_iff split: if_splits)
  from register_children_expansions [OF _ this Suc.prems(2)] show ?case
    using Suc.IH expandOne_expansion by blast
qed simp

text \<open>
  Claim C18: when the siblings are keyed by their own ids and mint distinct child ids, a successful
  co-expansion registers its children with distinct ids, each under the id minted for its chain and
  each after every child its own references mint, so the compose graph has no cycle; every
  reference of the root has its child; and the parent, like every child, is the expansion of its chain in which each
  node that held a reference now dispatches the id minted for the tenant, that chain and that chain's version, and is
  otherwise unchanged.
\<close>

theorem tree_children_in_order:
  assumes "expandChainTree root ctx = Inr t" and "plain_siblings ctx"
  shows "in_order ctx {} (ct_children t) \<and> distinct (map cc_childWorkflowId (ct_children t)) \<and>
         (\<forall>r \<in> set (subChainRefsInNodes root). \<exists>c \<in> set (ct_children t). minted ctx r (cc_childWorkflowId c)) \<and>
         tree_expansion ctx (wc_chainId root) root (ct_parent t) \<and>
         (\<forall>c \<in> set (ct_children t). child_expansion ctx (wc_chainId root) c)"
proof -
  from assms(1) obtain f m where run: "expandOne (Suc (maxDepth ctx)) ctx (wc_chainId root) [] root [] = Inr (f, m)"
    and t: "t = \<lparr>ct_parent = f, ct_children = map snd m\<rparr>"
    by (auto simp: expandChainTree_def ebind_Inr_iff simp del: expandOne.simps)
  have "map_ok ctx []" by (simp add: map_ok_def keyed_def)
  with expandOne_ok [OF assms(2)] run
  have w: "walk_ok ctx [wc_chainId root] (subChainRefsInNodes root) [] m"
    unfolding good_call_def by blast
  then have ok: "map_ok ctx m" and cov: "covers ctx (subChainRefsInNodes root) m"
    by (auto simp: walk_ok_def)
  have order: "in_order ctx {} (map snd m)" and keys: "cc_childWorkflowId ` set (map snd m) = fst ` set m"
    using ok keyed_ids by (auto simp: map_ok_def)
  have refs: "\<forall>r \<in> set (subChainRefsInNodes root). \<exists>i \<in> cc_childWorkflowId ` set (map snd m). minted ctx r i"
    using cov unfolding covers_def keys by blast
  have "list_all (child_expansion ctx (wc_chainId root)) (map snd m)" using expandOne_expansions [OF run] by simp
  with order refs in_order_distinct [OF order] expandOne_expansion [OF run] show ?thesis by (auto simp: t list_all_iff)
qed

theorem tree_children_in_order_witness:
  "\<exists>t. expandChainTree (tree_chain ''root'' [''mid'', ''leaf'']) sample_tree_ctx = Inr t \<and>
     in_order sample_tree_ctx {} (ct_children t) \<and>
     tree_expansion sample_tree_ctx ''root'' (tree_chain ''root'' [''mid'', ''leaf'']) (ct_parent t) \<and>
     dispatched (Inr t) = [Some (JStr ''wfc_acme__mid__1_0_0''), Some (JStr ''wfc_acme__leaf__1_0_0'')]"
proof -
  let ?root = "tree_chain ''root'' [''mid'', ''leaf'']"
  obtain t where t: "expandChainTree ?root sample_tree_ctx = Inr t" using sample_tree_Inr by blast
  have "dispatched (expandChainTree ?root sample_tree_ctx) = [Some (JStr ''wfc_acme__mid__1_0_0''), Some (JStr ''wfc_acme__leaf__1_0_0'')]"
    by code_simp
  then have d: "dispatched (Inr t) = [Some (JStr ''wfc_acme__mid__1_0_0''), Some (JStr ''wfc_acme__leaf__1_0_0'')]" by (simp only: t)
  have "wc_chainId ?root = ''root''" by code_simp
  with t d tree_children_in_order [OF t sample_plain_siblings] show ?thesis by (intro exI [of _ t]) simp
qed

lemma slug_clean: "list_all (\<lambda>c. is_alnum c \<or> c = CHR ''-'') s \<Longrightarrow> slug s = s \<and> CHR ''_'' \<notin> set s"
  by (induction s) (auto simp: slug_def slug_char_def is_alnum_def is_digit_def is_lower_def is_upper_def)

lemma underscore_split:
  "CHR ''_'' \<notin> set a \<Longrightarrow> CHR ''_'' \<notin> set b \<Longrightarrow>
   a @ ''__'' @ x = b @ ''__'' @ y \<longleftrightarrow> a = b \<and> x = y"
proof (induction a arbitrary: b)
  case Nil
  then show ?case by (cases b) auto
next
  case (Cons c a)
  then show ?case by (cases b) auto
qed

text \<open>
  On tenant, chain and version names of letters, digits and hyphens the minted child id
  determines all three.
\<close>

theorem child_ids_injective:
  "(\<forall>s \<in> {t, c, v, t', c', v'}. list_all (\<lambda>c. is_alnum c \<or> c = CHR ''-'') s) \<longrightarrow>
   mintChildWorkflowId t c v = mintChildWorkflowId t' c' v' \<longrightarrow> t = t' \<and> c = c' \<and> v = v'"
proof (intro impI)
  assume clean: "\<forall>s \<in> {t, c, v, t', c', v'}. list_all (\<lambda>c. is_alnum c \<or> c = CHR ''-'') s"
    and eq: "mintChildWorkflowId t c v = mintChildWorkflowId t' c' v'"
  note s = slug_clean [OF clean [THEN bspec]]
  have "t @ ''__'' @ c @ ''__'' @ v = t' @ ''__'' @ c' @ ''__'' @ v'"
    using eq s by (simp add: mintChildWorkflowId_def)
  then have "t = t' \<and> c @ ''__'' @ v = c' @ ''__'' @ v'"
    using s by (subst (asm) underscore_split) auto
  moreover have "c @ ''__'' @ v = c' @ ''__'' @ v' \<longleftrightarrow> c = c' \<and> v = v'"
    using s by (intro underscore_split) auto
  ultimately show "t = t' \<and> c = c' \<and> v = v'" by blast
qed

theorem child_ids_injective_witness:
  "mintChildWorkflowId ''t1'' ''c'' ''1'' \<noteq> mintChildWorkflowId ''t1'' ''c2'' ''1''"
proof -
  have "\<forall>s \<in> {''t1'', ''c'', ''1'', ''t1'', ''c2'', ''1''}. list_all (\<lambda>c. is_alnum c \<or> c = CHR ''-'') s"
    by code_simp
  with child_ids_injective [of "''t1''" "''c''" "''1''" "''t1''" "''c2''" "''1''"] show ?thesis by blast
qed

text \<open>
  A dot and an underscore mint alike: two tenants can share a child id, and a parent that
  composes \<open>a.b\<close> and \<open>a_b\<close> registers only one child and dispatches it from both nodes.
\<close>

theorem child_ids_collide:
  "mintChildWorkflowId ''acme.eu'' ''batch'' ''1'' = mintChildWorkflowId ''acme_eu'' ''batch'' ''1'' \<and>
   (let r = expandChainTree (tree_chain ''root'' [''a.b'', ''a_b'']) (tree_ctx [tree_chain ''a.b'' [], tree_chain ''a_b'' []])
    in child_ids r = [''wfc_acme__a_b__1_0_0''] \<and>
       dispatched r = [Some (JStr ''wfc_acme__a_b__1_0_0''), Some (JStr ''wfc_acme__a_b__1_0_0'')])"
  by (intro conjI; code_simp)

text \<open>
  A chain passes the read check exactly when every produced variable has a producer in
  the fragment and a name no parameter has, and every variable binding anywhere in the inputs or
  the config of a node reads a produced variable or a materialized parameter.
\<close>

theorem reads_closed_world:
  "validateVariableReads chain materialized = None \<longleftrightarrow>
     (\<forall>p \<in> set (produced chain). pv_producedBy p \<in> set (map fn_id (wc_nodes chain)) \<and>
        pv_name p \<notin> set materialized \<and> pv_name p \<notin> set (param_property_names (wc_parameters chain))) \<and>
     (\<forall>node \<in> set (wc_nodes chain). \<forall>n. node_binds node n \<longrightarrow>
        n \<in> set materialized \<or> n \<in> pv_name ` set (produced chain))"
proof -
  have reads: "(\<forall>n \<in> set (uniq (concat (map node_reads (wc_nodes chain)))).
        n \<in> set (materialized @ map pv_name (produced chain))) \<longleftrightarrow>
      (\<forall>node \<in> set (wc_nodes chain). \<forall>n. node_binds node n \<longrightarrow>
        n \<in> set materialized \<or> n \<in> pv_name ` set (produced chain))"
    by (auto simp flip: node_reads_iff)
  have ifs: "(if b then None else Some e) = None \<longleftrightarrow> b" "(if b then Some e else None) = None \<longleftrightarrow> \<not> b" for b and e :: chain_error
    by simp_all
  show ?thesis
    unfolding validateVariableReads_def reads [symmetric]
    by (simp only: option.case_eq_if first_error_None_iff ifs if_split simp_thms) (auto simp: first_error_None_iff)
qed

theorem reads_closed_world_witness:
  "validateVariableReads (sample_chain\<lparr>wc_producedVariables := Some [\<lparr>pv_name = ''out'', pv_producedBy = ''draft'', pv_type = ''string'', pv_description = None\<rparr>]\<rparr>) [] = None \<longleftrightarrow>
   (\<forall>node \<in> set (wc_nodes sample_chain). \<forall>n. node_binds node n \<longrightarrow> n = ''out'')"
  by (subst reads_closed_world) (simp add: produced_def sample_chain_def sample_chain_of_def sample_node_def param_property_names_def js_get_def proto_member_def object_prototype_functions_def)

end
