(* ===== verification/Trajectory.thy ===== *)
theory Trajectory
  imports Json_Print "HOL-Library.Sublist"
begin

text \<open>
  The reference grader of eval trajectories (\<open>eval-trajectory.ts\<close>): equality and inclusion of JSON
  values, the four match modes and the maximum one-to-one matching by augmenting paths. The depth of an
  augmenting search is bounded by fuel, the number of observed calls, which is shown to be enough: None is
  never the result. The exact fraction of \<open>pass@k\<close> is modelled, its conversion to a double is not.
\<close>

section \<open>Data\<close>

datatype args_match = Args_ignore | Args_exact | Args_subset

datatype match_mode = Match_exact | Match_in_order | Match_any_order | Match_subset

record expected_call =
  ec_tool :: string
  ec_args :: "json option"
  ec_argsMatch :: "args_match option"

record observed_call =
  oc_tool :: string
  oc_inputs :: "json option"

record trajectory_spec =
  ts_match :: match_mode
  ts_calls :: "expected_call list"
  ts_forbidden :: "string list option"

record trajectory_grade =
  tg_mode :: match_mode
  tg_matched :: bool
  tg_expectedCount :: nat
  tg_observedCount :: nat
  tg_matchedCount :: nat
  tg_forbiddenCount :: nat

section \<open>Comparing values\<close>

text \<open>\<open>k in b\<close> and \<open>b[k]\<close> see the members \<open>b\<close> inherits.\<close>

function json_equal :: "json \<Rightarrow> json \<Rightarrow> bool" where
  "json_equal (JArr xs) b = (case b of JArr ys \<Rightarrow> length xs = length ys \<and> list_all (\<lambda>(x, y). json_equal x y) (zip xs ys) | _ \<Rightarrow> False)"
| "json_equal (JObj es) b =
     (case b of
        JObj fs \<Rightarrow> length es = length fs \<and>
          list_all (\<lambda>(k, v). case js_get fs k of None \<Rightarrow> False | Some w \<Rightarrow> json_equal v w) es
      | _ \<Rightarrow> False)"
| "json_equal JNull b = (b = JNull)"
| "json_equal (JBool x) b = (b = JBool x)"
| "json_equal (JNum n) b = (b = JNum n)"
| "json_equal (JStr s) b = (b = JStr s)"
| "json_equal (JNative s) b = (b = JNative s)"
  by pat_completeness auto

termination
  by (relation "measure (\<lambda>(a, b). size a)")
    (auto dest!: set_zip_leftD simp: entry_size less_Suc_eq_le size_list_estimation')

fun json_subset :: "json \<Rightarrow> json option \<Rightarrow> bool" where
  "json_subset (JObj es) actual =
     (case actual of
        Some (JObj fs) \<Rightarrow> list_all (\<lambda>(k, v). js_in k fs \<and> json_subset v (js_get fs k)) es
      | _ \<Rightarrow> False)"
| "json_subset v actual = (case actual of None \<Rightarrow> False | Some w \<Rightarrow> json_equal v w)"

definition callMatches :: "expected_call \<Rightarrow> observed_call \<Rightarrow> bool" where
  "callMatches e o' =
     (ec_tool e = oc_tool o' \<and>
      (case (ec_argsMatch e, ec_args e) of
         (None, _) \<Rightarrow> True
       | (Some Args_ignore, _) \<Rightarrow> True
       | (_, None) \<Rightarrow> True
       | (Some Args_exact, Some a) \<Rightarrow> (case oc_inputs o' of None \<Rightarrow> False | Some w \<Rightarrow> json_equal a w)
       | (Some Args_subset, Some a) \<Rightarrow> json_subset a (oc_inputs o')))"

section \<open>The matching\<close>

type_synonym search = "nat option list \<times> bool list"

text \<open>\<open>augment(i, seen)\<close>, the loop over the observed calls that are left.\<close>

fun augment :: "nat \<Rightarrow> (nat \<Rightarrow> nat \<Rightarrow> bool) \<Rightarrow> nat \<Rightarrow> nat \<Rightarrow> nat list \<Rightarrow> search \<Rightarrow> (bool \<times> search) option" where
  "augment fuel adj n i [] st = Some (False, st)"
| "augment fuel adj n i (j # js) (owner, seen) =
     (if seen ! j \<or> \<not> adj i j then augment fuel adj n i js (owner, seen)
      else case owner ! j of
        None \<Rightarrow> Some (True, owner[j := Some i], seen[j := True])
      | Some k \<Rightarrow>
          (case fuel of
             0 \<Rightarrow> None
           | Suc f \<Rightarrow>
               (case augment f adj n k [0..<n] (owner, seen[j := True]) of
                  None \<Rightarrow> None
                | Some (True, owner', seen') \<Rightarrow> Some (True, owner'[j := Some i], seen')
                | Some (False, owner', seen') \<Rightarrow> augment fuel adj n i js (owner', seen'))))"

fun match_from :: "(nat \<Rightarrow> nat \<Rightarrow> bool) \<Rightarrow> nat \<Rightarrow> nat list \<Rightarrow> nat option list \<times> nat \<Rightarrow> (nat option list \<times> nat) option" where
  "match_from adj n [] st = Some st"
| "match_from adj n (i # is) (owner, count) =
     (case augment n adj n i [0..<n] (owner, replicate n False) of
        None \<Rightarrow> None
      | Some (b, owner', seen) \<Rightarrow> match_from adj n is (owner', if b then Suc count else count))"

definition adjacent :: "expected_call list \<Rightarrow> observed_call list \<Rightarrow> nat \<Rightarrow> nat \<Rightarrow> bool" where
  "adjacent es os i j = callMatches (es ! i) (os ! j)"

definition maxMatching :: "expected_call list \<Rightarrow> observed_call list \<Rightarrow> nat option" where
  "maxMatching es os =
     map_option snd (match_from (adjacent es os) (length os) [0..<length es] (replicate (length os) None, 0))"

section \<open>Grading\<close>

fun inOrder :: "expected_call list \<Rightarrow> observed_call list \<Rightarrow> bool" where
  "inOrder [] os = True"
| "inOrder (e # es) os =
     (case dropWhile (\<lambda>x. \<not> callMatches e x) os of [] \<Rightarrow> False | x # rest \<Rightarrow> inOrder es rest)"

definition gradeTrajectory :: "trajectory_spec \<Rightarrow> observed_call list \<Rightarrow> trajectory_grade option" where
  "gradeTrajectory s os =
     (let calls = ts_calls s;
          forbidden = (case ts_forbidden s of None \<Rightarrow> [] | Some fs \<Rightarrow> fs);
          forbiddenCount = length (filter (\<lambda>x. oc_tool x \<in> set forbidden) os)
      in case maxMatching calls os of
           None \<Rightarrow> None
         | Some matchedCount \<Rightarrow>
             (let modeOk =
                (case ts_match s of
                   Match_exact \<Rightarrow> length os = length calls \<and> list_all (\<lambda>(e, x). callMatches e x) (zip calls os)
                 | Match_in_order \<Rightarrow> inOrder calls os
                 | Match_any_order \<Rightarrow> matchedCount = length calls
                 | Match_subset \<Rightarrow> list_all (\<lambda>x. list_ex (\<lambda>e. callMatches e x) calls) os)
              in Some \<lparr>tg_mode = ts_match s, tg_matched = (modeOk \<and> forbiddenCount = 0), tg_expectedCount = length calls,
                       tg_observedCount = length os, tg_matchedCount = matchedCount, tg_forbiddenCount = forbiddenCount\<rparr>))"

text \<open>The telescoped fraction of \<open>C(a, k) / C(b, k)\<close>: None is the thrown range error.\<close>

definition binomRatio :: "int \<Rightarrow> int \<Rightarrow> int \<Rightarrow> (int \<times> int) option" where
  "binomRatio a b k =
     (if k < 0 \<or> b < k then None
      else if a < k then Some (0, 1)
      else Some (foldl (\<lambda>(num, den) i. (num * (a - int i), den * (b - int i))) (1, 1) [0..<nat k]))"

section \<open>Augmenting keeps a matching\<close>

text \<open>What is matched at the positions \<open>D\<close>, and that nothing is matched twice there.\<close>

definition matched_at :: "nat set \<Rightarrow> nat option list \<Rightarrow> nat set" where
  "matched_at D owner = {k. \<exists>j \<in> D. owner ! j = Some k}"

definition once_at :: "nat set \<Rightarrow> nat option list \<Rightarrow> bool" where
  "once_at D owner = (\<forall>j \<in> D. \<forall>j' \<in> D. \<forall>k. owner ! j = Some k \<longrightarrow> owner ! j' = Some k \<longrightarrow> j = j')"

definition unseen :: "nat \<Rightarrow> bool list \<Rightarrow> nat set" where
  "unseen n seen = {j. j < n \<and> \<not> seen ! j}"

definition edges_at :: "(nat \<Rightarrow> nat \<Rightarrow> bool) \<Rightarrow> nat \<Rightarrow> nat option list \<Rightarrow> bool" where
  "edges_at adj n owner = (\<forall>j < n. \<forall>k. owner ! j = Some k \<longrightarrow> adj k j)"

text \<open>\<open>i\<close> got a place among \<open>D\<close>: everybody placed there still is, and nothing else moved.\<close>

definition placed :: "nat set \<Rightarrow> nat \<Rightarrow> nat option list \<Rightarrow> nat option list \<Rightarrow> bool" where
  "placed D i owner owner' =
     ((\<forall>j. j \<notin> D \<longrightarrow> owner' ! j = owner ! j) \<and>
      (once_at D owner \<and> i \<notin> matched_at D owner \<longrightarrow> matched_at D owner' = insert i (matched_at D owner) \<and> once_at D owner'))"

lemma matched_atI: "j \<in> D \<Longrightarrow> owner ! j = Some k \<Longrightarrow> k \<in> matched_at D owner"
  by (auto simp: matched_at_def)

lemma matched_split: "matched_at (A \<union> B) w = matched_at A w \<union> matched_at B w"
  by (auto simp: matched_at_def)

lemma matched_cong: "(\<And>j. j \<in> D \<Longrightarrow> w ! j = v ! j) \<Longrightarrow> matched_at D w = matched_at D v"
  by (auto simp: matched_at_def)

lemma once_cong: "(\<And>j. j \<in> D \<Longrightarrow> w ! j = v ! j) \<Longrightarrow> once_at D w \<longleftrightarrow> once_at D v"
  by (simp add: once_at_def)

text \<open>Two parts hold different callers: nothing is matched twice in the union.\<close>

lemma once_split:
  assumes "A \<inter> B = {}"
  shows "once_at (A \<union> B) w \<longleftrightarrow> once_at A w \<and> once_at B w \<and> matched_at A w \<inter> matched_at B w = {}"
proof
  assume o: "once_at (A \<union> B) w"
  have "j = j'" if "j \<in> A" "j' \<in> B" "w ! j = Some k" "w ! j' = Some k" for j j' k
    using o that unfolding once_at_def by blast
  with assms have "matched_at A w \<inter> matched_at B w = {}" unfolding matched_at_def by blast
  with o show "once_at A w \<and> once_at B w \<and> matched_at A w \<inter> matched_at B w = {}" by (simp add: once_at_def)
next
  assume o: "once_at A w \<and> once_at B w \<and> matched_at A w \<inter> matched_at B w = {}"
  then have "\<not> (j \<in> A \<and> j' \<in> B \<and> w ! j = Some k \<and> w ! j' = Some k)" for j j' k by (auto simp: matched_at_def)
  with o show "once_at (A \<union> B) w" unfolding once_at_def by blast
qed

lemma matched_one: "matched_at {j} w = (case w ! j of None \<Rightarrow> {} | Some k \<Rightarrow> {k})"
  by (auto simp: matched_at_def split: option.splits)

lemma once_one: "once_at {j} w"
  by (simp add: once_at_def)

lemma finite_unseen [simp]: "finite (unseen n seen)"
  by (simp add: unseen_def)

lemma unseen_mark: "j < length seen \<Longrightarrow> unseen n (seen[j := True]) = unseen n seen - {j}"
  by (auto simp: unseen_def nth_list_update)

text \<open>The step both successes share: position \<open>j\<close> is given to \<open>i\<close>, the others of \<open>D\<close> are settled.\<close>

lemma placed_step:
  assumes j: "j \<in> D" "j < length owner'" and out: "\<And>j'. j' \<notin> D \<Longrightarrow> owner' ! j' = owner ! j'"
    and rest: "once_at D owner \<Longrightarrow> matched_at (D - {j}) owner' = matched_at D owner \<and> once_at (D - {j}) owner'"
  shows "placed D i owner (owner'[j := Some i])"
proof -
  let ?w = "owner'[j := Some i]"
  have D: "D = {j} \<union> (D - {j})" using j(1) by blast
  have same: "\<And>j'. j' \<in> D - {j} \<Longrightarrow> ?w ! j' = owner' ! j'" by simp
  have "matched_at D ?w = insert i (matched_at D owner) \<and> once_at D ?w"
    if o: "once_at D owner" "i \<notin> matched_at D owner"
  proof -
    have m: "matched_at (D - {j}) ?w = matched_at D owner" "once_at (D - {j}) ?w"
      using rest [OF o(1)] matched_cong [of "D - {j}", OF same] once_cong [of "D - {j}", OF same] by simp_all
    have "matched_at D ?w = matched_at {j} ?w \<union> matched_at (D - {j}) ?w" using D matched_split by metis
    moreover have "once_at D ?w"
      using once_split [of "{j}" "D - {j}" ?w] D m o(2) j(2) once_one by (simp add: matched_one)
    ultimately show ?thesis using m(1) j(2) by (simp add: matched_one)
  qed
  moreover have "?w ! j' = owner ! j'" if "j' \<notin> D" for j'
  proof -
    have "j' \<noteq> j" using that j(1) by blast
    with out [OF that] show ?thesis by simp
  qed
  ultimately show ?thesis by (simp add: placed_def)
qed

lemma placed_here:
  assumes "j \<in> D" and "j < length owner" and "owner ! j = None"
  shows "placed D i owner (owner[j := Some i])"
proof (rule placed_step [OF assms(1,2)])
  have "D = {j} \<union> (D - {j})" using assms(1) by blast
  then have "matched_at D owner = matched_at {j} owner \<union> matched_at (D - {j}) owner" using matched_split by metis
  then show "once_at D owner \<Longrightarrow> matched_at (D - {j}) owner = matched_at D owner \<and> once_at (D - {j}) owner"
    using assms(3) by (simp add: matched_one once_at_def)
qed simp

lemma placed_through:
  assumes "j \<in> D" and "j < length owner" and "owner ! j = Some k" and "placed (D - {j}) k owner owner'"
    and "length owner' = length owner"
  shows "placed D i owner (owner'[j := Some i])"
proof (rule placed_step)
  assume o: "once_at D owner"
  have D: "D = {j} \<union> (D - {j})" using assms(1) by blast
  then have "once_at (D - {j}) owner" "k \<notin> matched_at (D - {j}) owner"
    using once_split [of "{j}" "D - {j}" owner] o assms(3) by (simp_all add: matched_one)
  with assms(4) have "matched_at (D - {j}) owner' = insert k (matched_at (D - {j}) owner)" "once_at (D - {j}) owner'"
    by (simp_all add: placed_def)
  moreover have "matched_at D owner = matched_at {j} owner \<union> matched_at (D - {j}) owner" using D matched_split by metis
  ultimately show "matched_at (D - {j}) owner' = matched_at D owner \<and> once_at (D - {j}) owner'"
    using assms(3) by (simp add: matched_one)
qed (use assms in \<open>auto simp: placed_def\<close>)

lemma placed_mono:
  assumes "placed D' i owner owner'" and "D' \<subseteq> D"
  shows "placed D i owner owner'"
proof -
  have out: "owner' ! j = owner ! j" if "j \<notin> D'" for j using assms(1) that by (simp add: placed_def)
  have D: "D = D' \<union> (D - D')" using assms(2) by blast
  have rest: "matched_at (D - D') owner' = matched_at (D - D') owner" "once_at (D - D') owner' = once_at (D - D') owner"
    using out by (auto intro!: matched_cong once_cong)
  have "matched_at D owner' = insert i (matched_at D owner) \<and> once_at D owner'"
    if o: "once_at D owner" "i \<notin> matched_at D owner"
  proof -
    have parts: "once_at D' owner" "once_at (D - D') owner" "matched_at D' owner \<inter> matched_at (D - D') owner = {}"
      using once_split [of D' "D - D'" owner] D o(1) by auto
    have i: "i \<notin> matched_at D' owner" "i \<notin> matched_at (D - D') owner" using o(2) D matched_split by (metis UnCI)+
    have m: "matched_at D' owner' = insert i (matched_at D' owner)" "once_at D' owner'"
      using assms(1) parts(1) i(1) by (simp_all add: placed_def)
    have "once_at (D' \<union> (D - D')) owner'" using once_split [of D' "D - D'" owner'] m rest parts i(2) by auto
    moreover have "matched_at D owner' = matched_at D' owner' \<union> matched_at (D - D') owner'"
      "matched_at D owner = matched_at D' owner \<union> matched_at (D - D') owner" using D matched_split by metis+
    ultimately show ?thesis using m(1) rest(1) D by auto
  qed
  with out assms(2) show ?thesis by (auto simp: placed_def)
qed

section \<open>The search\<close>

text \<open>Positions all taken, by callers whose neighbours are all among them.\<close>

definition closed_under :: "(nat \<Rightarrow> nat \<Rightarrow> bool) \<Rightarrow> nat \<Rightarrow> nat option list \<Rightarrow> nat set \<Rightarrow> bool" where
  "closed_under adj n owner U =
     (\<forall>j \<in> U. \<exists>k. owner ! j = Some k \<and> (\<forall>j' < n. adj k j' \<longrightarrow> j' \<in> U))"

text \<open>What a search that ends at \<open>(b, owner', seen')\<close> has done.\<close>

definition searched ::
  "(nat \<Rightarrow> nat \<Rightarrow> bool) \<Rightarrow> nat \<Rightarrow> nat \<Rightarrow> nat list \<Rightarrow> search \<Rightarrow> bool \<Rightarrow> search \<Rightarrow> bool" where
  "searched adj n i js st b st' =
     (length (fst st') = n \<and> length (snd st') = n \<and> unseen n (snd st') \<subseteq> unseen n (snd st) \<and>
      (if b then placed (unseen n (snd st)) i (fst st) (fst st') \<and> (edges_at adj n (fst st) \<longrightarrow> edges_at adj n (fst st'))
       else fst st' = fst st \<and> (\<forall>j \<in> set js. adj i j \<longrightarrow> snd st' ! j) \<and>
         (\<forall>j \<in> unseen n (snd st) - unseen n (snd st'). \<exists>k. fst st ! j = Some k \<and> (\<forall>j' < n. adj k j' \<longrightarrow> snd st' ! j'))))"

lemma edges_mark: "edges_at adj n owner \<Longrightarrow> adj i j \<Longrightarrow> edges_at adj n (owner[j := Some i])"
  unfolding edges_at_def by (metis nth_list_update_eq nth_list_update_neq list_update_beyond not_le option.inject)

lemma search_done:
  assumes "length owner = n" and "length seen = n" and "set js \<subseteq> {..<n}" and "card (unseen n seen) \<le> fuel"
  shows "\<exists>b st'. augment fuel adj n i js (owner, seen) = Some (b, st') \<and> searched adj n i js (owner, seen) b st'"
  using assms
proof (induction fuel adj n i js "(owner, seen)" arbitrary: owner seen rule: augment.induct)
  case (1 fuel adj n i)
  then show ?case by (intro exI [of _ False] exI [of _ "(owner, seen)"]) (simp add: searched_def)
next
  case (2 fuel adj n i j js owner seen)
  have j: "j < n" using "2.prems"(3) by simp
  have js: "set js \<subseteq> {..<n}" using "2.prems"(3) by simp
  show ?case
  proof (cases "seen ! j \<or> \<not> adj i j")
    case True
    obtain b st' where skip: "augment fuel adj n i js (owner, seen) = Some (b, st')" "searched adj n i js (owner, seen) b st'"
      using "2.hyps"(1) [OF True "2.prems"(1,2) js "2.prems"(4)] by blast
    have "adj i j \<Longrightarrow> \<not> b \<Longrightarrow> snd st' ! j"
      using skip(2) True j by (auto simp: searched_def unseen_def)
    with skip True show ?thesis by (intro exI [of _ b] exI [of _ st']) (cases b, auto simp: searched_def)
  next
    case False
    let ?seen = "seen[j := True]"
    have mem: "j \<in> unseen n seen" using False j by (simp add: unseen_def)
    have mark: "unseen n ?seen = unseen n seen - {j}" using j "2.prems"(2) by (simp add: unseen_mark)
    show ?thesis
    proof (cases "owner ! j")
      case None
      have "placed (unseen n seen) i owner (owner[j := Some i])" using mem None "2.prems"(1) j by (intro placed_here) auto
      then show ?thesis using False None "2.prems" mark
        by (auto simp: searched_def edges_at_def nth_list_update)
    next
      case (Some k)
      have "0 < card (unseen n seen)" using mem by (auto simp: card_gt_0_iff)
      then obtain f where f: "fuel = Suc f" using "2.prems"(4) by (cases fuel) auto
      have less: "card (unseen n ?seen) \<le> f" using mark mem "2.prems"(4) f by simp
      obtain b st' where sub: "augment f adj n k [0..<n] (owner, ?seen) = Some (b, st')"
        "searched adj n k [0..<n] (owner, ?seen) b st'"
        using "2.hyps"(2) [OF False Some f "2.prems"(1) _ _ less] "2.prems"(2) by fastforce
      obtain owner' seen' where st': "st' = (owner', seen')" by (cases st')
      note spec = sub(2) [unfolded searched_def st' fst_conv snd_conv]
      show ?thesis
      proof (cases b)
        case True
        have "placed (unseen n seen) i owner (owner'[j := Some i])"
          using spec True mark mem Some "2.prems"(1) j by (intro placed_through [of j _ owner k]) auto
        moreover have "edges_at adj n owner \<Longrightarrow> edges_at adj n (owner'[j := Some i])"
          using spec True False by (simp add: edges_mark)
        moreover have "augment fuel adj n i (j # js) (owner, seen) = Some (True, owner'[j := Some i], seen')"
          using False Some f sub(1) st' True by simp
        moreover have "unseen n seen' \<subseteq> unseen n seen" "length owner' = n" "length seen' = n"
          using spec mark by auto
        ultimately show ?thesis by (intro exI [of _ True] exI [of _ "(owner'[j := Some i], seen')"]) (simp add: searched_def)
      next
        case no: False
        then have own: "owner' = owner" "length seen' = n" "unseen n seen' \<subseteq> unseen n seen - {j}"
          using spec mark by auto
        have less': "card (unseen n seen') \<le> fuel"
          using card_mono [OF finite_Diff [OF finite_unseen] own(3)] "2.prems"(4) card_Diff1_le [of "unseen n seen" j] by linarith
        have "\<exists>c st2. augment fuel adj n i js (owner', seen') = Some (c, st2) \<and> searched adj n i js (owner', seen') c st2"
          by (rule "2.hyps"(3) [OF False Some f sub(1) [unfolded st']]) (use no own js less' "2.prems"(1) in simp_all)
        then obtain c st2 where rest: "augment fuel adj n i js (owner, seen') = Some (c, st2)"
          "searched adj n i js (owner, seen') c st2"
          using own(1) by blast
        have "augment fuel adj n i (j # js) (owner, seen) = Some (c, st2)"
          using False Some f sub(1) st' no rest(1) own(1) by simp
        moreover have "searched adj n i (j # js) (owner, seen) c st2"
        proof (cases c)
          case True
          then show ?thesis using rest(2) own(3) placed_mono [of "unseen n seen'" i owner "fst st2" "unseen n seen"]
            by (auto simp: searched_def)
        next
          case noo: False
          note spec2 = rest(2) [unfolded searched_def fst_conv snd_conv]
          have sub_seen: "unseen n (snd st2) \<subseteq> unseen n seen'" using spec2 by simp
          then have mono: "seen' ! j' \<Longrightarrow> j' < n \<Longrightarrow> snd st2 ! j'" for j' by (auto simp: unseen_def)
          have "j \<notin> unseen n seen'" using own(3) by blast
          then have seen_j: "snd st2 ! j" using sub_seen j by (auto simp: unseen_def)
          have "\<exists>k. owner ! j' = Some k \<and> (\<forall>l < n. adj k l \<longrightarrow> snd st2 ! l)"
            if p: "j' \<in> unseen n seen - unseen n (snd st2)" for j'
          proof -
            consider "j' = j" | "j' \<in> unseen n ?seen - unseen n seen'" | "j' \<in> unseen n seen' - unseen n (snd st2)"
              using p unfolding mark by blast
            then show ?thesis
            proof cases
              case 1
              have "\<forall>l < n. adj k l \<longrightarrow> seen' ! l" using spec no by simp
              then show ?thesis using 1 Some mono by auto
            next
              case 2
              have "\<forall>x \<in> unseen n ?seen - unseen n seen'. \<exists>k. owner ! x = Some k \<and> (\<forall>l < n. adj k l \<longrightarrow> seen' ! l)"
                using spec no by simp
              with 2 have "\<exists>k. owner ! j' = Some k \<and> (\<forall>l < n. adj k l \<longrightarrow> seen' ! l)" by (rule_tac bspec)
              then show ?thesis using mono by blast
            next
              case 3
              then show ?thesis using spec2 noo by simp
            qed
          qed
          then show ?thesis using spec2 noo sub_seen own(3) seen_j by (auto simp: searched_def)
        qed
        ultimately show ?thesis by blast
      qed
    qed
  qed
qed

section \<open>A closed set is never entered\<close>

definition has_owners :: "(nat \<Rightarrow> nat \<Rightarrow> bool) \<Rightarrow> nat \<Rightarrow> nat \<Rightarrow> nat list \<Rightarrow> nat set \<Rightarrow> nat option list \<Rightarrow> bool \<Rightarrow> nat option list \<Rightarrow> bool" where
  "has_owners adj n i js U owner b owner' =
     ((\<forall>j \<in> U. owner' ! j = owner ! j) \<and> (b \<longrightarrow> (\<exists>j \<in> set js. adj i j \<and> j \<notin> U)) \<and> (\<not> b \<longrightarrow> owner' = owner))"

lemma closed_cong: "(\<And>j. j \<in> U \<Longrightarrow> w ! j = v ! j) \<Longrightarrow> closed_under adj n w U \<longleftrightarrow> closed_under adj n v U"
  by (simp add: closed_under_def)

lemma closed_apart:
  assumes "closed_under adj n owner U" and "augment fuel adj n i js (owner, seen) = Some (b, owner', seen')"
  shows "has_owners adj n i js U owner b owner'"
  using assms
proof (induction fuel adj n i js "(owner, seen)" arbitrary: owner seen b owner' seen' rule: augment.induct)
  case (1 fuel adj n i)
  then show ?case by (simp add: has_owners_def)
next
  case (2 fuel adj n i j js owner seen)
  show ?case
  proof (cases "seen ! j \<or> \<not> adj i j")
    case True
    with "2.hyps"(1) [OF True "2.prems"(1)] "2.prems"(2) show ?thesis by (auto simp: has_owners_def)
  next
    case False
    note go = False
    show ?thesis
    proof (cases "owner ! j")
      case None
      then have "j \<notin> U" using "2.prems"(1) by (auto simp: closed_under_def)
      then have "\<forall>j' \<in> U. owner[j := Some i] ! j' = owner ! j'" by (metis nth_list_update_neq)
      with None go "2.prems"(2) \<open>j \<notin> U\<close> show ?thesis by (auto simp: has_owners_def)
    next
      case (Some k)
      with go "2.prems"(2) obtain f where f: "fuel = Suc f" by (cases fuel) auto
      with go Some "2.prems"(2) obtain c w s where sub: "augment f adj n k [0..<n] (owner, seen[j := True]) = Some (c, w, s)"
        by (auto split: option.splits)
      have ih: "has_owners adj n k [0..<n] U owner c w" using "2.hyps"(2) [OF go Some f "2.prems"(1) sub] .
      show ?thesis
      proof (cases c)
        case True
        have "j \<notin> U"
        proof
          assume "j \<in> U"
          then have "\<forall>j' < n. adj k j' \<longrightarrow> j' \<in> U" using "2.prems"(1) Some by (auto simp: closed_under_def)
          with ih True show False by (auto simp: has_owners_def)
        qed
        have "b \<and> owner' = w[j := Some i]" using "2.prems"(2) go Some f sub True by simp
        moreover have "\<forall>j' \<in> U. w[j := Some i] ! j' = owner ! j'"
          using ih \<open>j \<notin> U\<close> by (metis has_owners_def nth_list_update_neq)
        ultimately show ?thesis using \<open>j \<notin> U\<close> go by (auto simp: has_owners_def)
      next
        case no: False
        have w: "w = owner" using ih no by (simp add: has_owners_def)
        have "augment fuel adj n i js (w, s) = Some (b, owner', seen')" using "2.prems"(2) go Some f sub no by simp
        then have "has_owners adj n i js U w b owner'"
          using "2.hyps"(3) [OF go Some f sub _ refl] no w "2.prems"(1) by simp
        then show ?thesis using w by (auto simp: has_owners_def)
      qed
    qed
  qed
qed

section \<open>The loop\<close>

text \<open>A matching of the calls of \<open>P\<close>, and a closed set that holds the neighbours of the unmatched ones.\<close>

definition best :: "(nat \<Rightarrow> nat \<Rightarrow> bool) \<Rightarrow> nat \<Rightarrow> nat set \<Rightarrow> nat option list \<times> nat \<Rightarrow> nat set \<Rightarrow> bool" where
  "best adj n P st U =
     (length (fst st) = n \<and> edges_at adj n (fst st) \<and> once_at {..<n} (fst st) \<and> matched_at {..<n} (fst st) \<subseteq> P \<and>
      card (matched_at {..<n} (fst st)) = snd st \<and> U \<subseteq> {..<n} \<and> closed_under adj n (fst st) U \<and>
      (\<forall>i \<in> P - matched_at {..<n} (fst st). \<forall>j < n. adj i j \<longrightarrow> j \<in> U))"

lemma unseen_fresh [simp]: "unseen n (replicate n False) = {..<n}"
  by (auto simp: unseen_def)

lemma best_gain:
  assumes "best adj n P (owner, c) U" and "i \<notin> P" and "finite P"
    and "searched adj n i [0..<n] (owner, replicate n False) True (owner', seen)" and "\<forall>j \<in> U. owner' ! j = owner ! j"
  shows "best adj n (insert i P) (owner', Suc c) U"
proof -
  have b: "once_at {..<n} owner" "i \<notin> matched_at {..<n} owner" "finite (matched_at {..<n} owner)"
    using assms(1-3) by (auto simp: best_def intro: finite_subset)
  then have "matched_at {..<n} owner' = insert i (matched_at {..<n} owner)" "once_at {..<n} owner'"
    using assms(4) by (simp_all add: searched_def placed_def)
  moreover have "closed_under adj n owner' U"
    using assms(1) closed_cong [of U owner' owner adj n] assms(5) by (simp add: best_def)
  ultimately show ?thesis using assms(1,2,4) b by (auto simp: best_def searched_def)
qed

lemma best_fail:
  assumes "best adj n P (owner, c) U"
    and "searched adj n i [0..<n] (owner, replicate n False) False (owner', seen)"
  shows "best adj n (insert i P) (owner', c) (U \<union> {j. j < n \<and> seen ! j})"
proof -
  have s: "owner' = owner" "\<forall>j < n. adj i j \<longrightarrow> seen ! j"
    "\<forall>j \<in> {..<n} - unseen n seen. \<exists>k. owner ! j = Some k \<and> (\<forall>j' < n. adj k j' \<longrightarrow> seen ! j')"
    using assms(2) by (auto simp: searched_def)
  have "closed_under adj n owner {j. j < n \<and> seen ! j}"
    unfolding closed_under_def
  proof
    fix j assume "j \<in> {j. j < n \<and> seen ! j}"
    then have "j \<in> {..<n} - unseen n seen" by (simp add: unseen_def)
    with s(3) have "\<exists>k. owner ! j = Some k \<and> (\<forall>j' < n. adj k j' \<longrightarrow> seen ! j')" by (rule bspec)
    then show "\<exists>k. owner ! j = Some k \<and> (\<forall>j' < n. adj k j' \<longrightarrow> j' \<in> {j. j < n \<and> seen ! j})" by auto
  qed
  moreover have "closed_under adj n owner U" using assms(1) by (simp add: best_def)
  ultimately have "closed_under adj n owner (U \<union> {j. j < n \<and> seen ! j})" unfolding closed_under_def by blast
  then show ?thesis using assms(1) s(1,2) by (auto simp: best_def)
qed

lemma best_from:
  assumes "best adj n P st U" and "finite P" and "distinct is" and "set is \<inter> P = {}"
  shows "\<exists>st' U'. match_from adj n is st = Some st' \<and> best adj n (P \<union> set is) st' U'"
  using assms
proof (induction adj n "is" st arbitrary: P U rule: match_from.induct)
  case (1 adj n st)
  then show ?case by auto
next
  case (2 adj n i "is" owner c)
  have len: "length owner = n" using "2.prems"(1) by (simp add: best_def)
  obtain b owner' seen where s: "augment n adj n i [0..<n] (owner, replicate n False) = Some (b, owner', seen)"
    "searched adj n i [0..<n] (owner, replicate n False) b (owner', seen)"
    using search_done [of owner n "replicate n False" "[0..<n]" n adj i] len by (auto simp: atLeast0LessThan)
  have "has_owners adj n i [0..<n] U owner b owner'"
    using closed_apart [OF _ s(1)] "2.prems"(1) by (simp add: best_def)
  then have keep: "\<forall>j \<in> U. owner' ! j = owner ! j" by (simp add: has_owners_def)
  have "\<exists>U'. best adj n (insert i P) (owner', if b then Suc c else c) U'"
  proof (cases b)
    case True
    with best_gain [OF "2.prems"(1) _ "2.prems"(2)] s(2) keep "2.prems"(4) show ?thesis by auto
  next
    case False
    with best_fail [OF "2.prems"(1)] s(2) show ?thesis by auto
  qed
  then obtain U' where U': "best adj n (insert i P) (owner', if b then Suc c else c) U'" ..
  have "\<exists>st' U'. match_from adj n is (owner', if b then Suc c else c) = Some st' \<and> best adj n (insert i P \<union> set is) st' U'"
    using "2.IH" [OF s(1) refl refl U'] "2.prems" by auto
  then show ?case using s(1) by simp
qed

section \<open>The count is the largest matching\<close>

definition is_matching :: "(nat \<Rightarrow> nat \<Rightarrow> bool) \<Rightarrow> nat \<Rightarrow> nat \<Rightarrow> (nat \<times> nat) set \<Rightarrow> bool" where
  "is_matching adj m n M =
     (M \<subseteq> {..<m} \<times> {..<n} \<and> (\<forall>p \<in> M. adj (fst p) (snd p)) \<and> inj_on fst M \<and> inj_on snd M)"

lemma matching_finite: "is_matching adj m n M \<Longrightarrow> finite M"
  by (auto simp: is_matching_def intro: finite_subset)

lemma card_matched:
  assumes "once_at D owner" and "finite D" and "\<forall>j \<in> D. owner ! j \<noteq> None"
  shows "card (matched_at D owner) = card D"
proof -
  have "matched_at D owner = (\<lambda>j. the (owner ! j)) ` D"
    unfolding matched_at_def
  proof (intro set_eqI iffI)
    fix k assume "k \<in> (\<lambda>j. the (owner ! j)) ` D"
    then show "k \<in> {k. \<exists>j\<in>D. owner ! j = Some k}" using assms(3) by auto
  qed force
  moreover have "inj_on (\<lambda>j. the (owner ! j)) D"
    using assms(1,3) unfolding inj_on_def once_at_def by (metis option.collapse)
  ultimately show ?thesis by (simp add: card_image)
qed

lemma once_subset: "once_at D owner \<Longrightarrow> D' \<subseteq> D \<Longrightarrow> once_at D' owner"
  by (auto simp: once_at_def)

text \<open>The callers with all their neighbours in \<open>U\<close>, the owners of \<open>U\<close> and the unmatched among them.\<close>

lemma best_is_largest:
  assumes b: "best adj n {..<m} (owner, c) U" and M: "is_matching adj m n M"
  shows "card M \<le> c"
proof -
  define A where "A = {i. i < m \<and> (\<forall>j < n. adj i j \<longrightarrow> j \<in> U)}"
  let ?in = "{p \<in> M. fst p \<in> A}" and ?own = "matched_at U owner" and ?all = "matched_at {..<n} owner"
  have fin: "finite U" "finite M" "finite ?all" using b matching_finite [OF M] by (auto simp: best_def intro: finite_subset)
  have own: "?own \<subseteq> A" "?own \<subseteq> ?all"
    using b by (fastforce simp: A_def best_def closed_under_def matched_at_def)+
  have taken: "\<forall>j \<in> U. owner ! j \<noteq> None" using b by (auto simp: best_def closed_under_def)
  have "once_at U owner" using b once_subset by (auto simp: best_def)
  with taken fin(1) have cU: "card ?own = card U" by (intro card_matched)
  have "card ?in \<le> card U"
  proof (rule card_inj_on_le [of snd])
    show "inj_on snd ?in" using M by (auto simp: is_matching_def inj_on_def)
    show "snd ` ?in \<subseteq> U" using M by (fastforce simp: is_matching_def A_def)
  qed (rule fin(1))
  moreover have "card (M - ?in) \<le> card ({..<m} - A)"
  proof (rule card_inj_on_le [of fst])
    show "inj_on fst (M - ?in)" using M by (auto simp: is_matching_def inj_on_def)
    show "fst ` (M - ?in) \<subseteq> {..<m} - A" using M by (auto simp: is_matching_def)
  qed simp
  moreover have "card M = card ?in + card (M - ?in)"
    using card_Un_disjoint [of ?in "M - ?in"] fin(2) by (simp add: Un_absorb1)
  moreover have "card (?own \<union> ({..<m} - A)) = card ?own + card ({..<m} - A)"
    using own fin by (intro card_Un_disjoint) (auto intro: finite_subset)
  moreover have "{..<m} - A \<subseteq> ?all" using b by (auto simp: best_def A_def)
  then have "card (?own \<union> ({..<m} - A)) \<le> card ?all" using own(2) fin(3) by (intro card_mono) auto
  moreover have "card ?all = c" using b by (simp add: best_def)
  ultimately show ?thesis using cU by linarith
qed

lemma best_is_matching:
  assumes b: "best adj n {..<m} (owner, c) U"
  shows "\<exists>M. is_matching adj m n M \<and> card M = c"
proof -
  let ?D = "{j. j < n \<and> owner ! j \<noteq> None}"
  let ?M = "(\<lambda>j. (the (owner ! j), j)) ` ?D"
  have in_all: "k < m" if "j < n" "owner ! j = Some k" for j k
  proof -
    have "k \<in> matched_at {..<n} owner" using that by (auto simp: matched_at_def)
    with b show ?thesis by (auto simp: best_def)
  qed
  have "fst ` ?M = matched_at {..<n} owner" by (auto simp: matched_at_def image_def)
  moreover have inj: "inj_on fst ?M"
  proof (rule inj_onI)
    fix p q assume "p \<in> ?M" "q \<in> ?M" "fst p = fst q"
    then obtain j j' k where "p = (k, j)" "q = (k, j')" "j < n" "j' < n" "owner ! j = Some k" "owner ! j' = Some k" by auto
    then show "p = q" using b by (auto simp: best_def once_at_def)
  qed
  ultimately have "card ?M = c" using b card_image [OF inj] by (simp add: best_def)
  moreover have "is_matching adj m n ?M"
    unfolding is_matching_def using inj b in_all by (auto simp: best_def edges_at_def inj_on_def)
  ultimately show ?thesis by blast
qed

lemma maxMatching_best:
  "\<exists>owner c U. maxMatching es os = Some c \<and> best (adjacent es os) (length os) {..<length es} (owner, c) U"
proof -
  have "best (adjacent es os) (length os) {} (replicate (length os) None, 0) {}"
    by (auto simp: best_def edges_at_def once_at_def matched_at_def closed_under_def)
  then show ?thesis
    using best_from [of "adjacent es os" "length os" "{}" "(replicate (length os) None, 0)" "{}" "[0..<length es]"]
    by (auto simp: maxMatching_def atLeast0LessThan)
qed

lemma count_is_largest:
  "\<exists>c. maxMatching es os = Some c \<and>
     (\<exists>M. is_matching (adjacent es os) (length es) (length os) M \<and> card M = c) \<and>
     (\<forall>M. is_matching (adjacent es os) (length es) (length os) M \<longrightarrow> card M \<le> c)"
  using maxMatching_best best_is_largest best_is_matching by (metis (no_types, lifting))

text \<open>
  Claim C8: the matched count is the size of a largest one-to-one matching of expected calls to observed
  calls they match; the search always returns.
\<close>

theorem matched_count_is_maximum:
  "maxMatching es os = Some (Max (card ` {M. is_matching (adjacent es os) (length es) (length os) M}))"
proof -
  let ?all = "{M. is_matching (adjacent es os) (length es) (length os) M}"
  obtain c where c: "maxMatching es os = Some c" "\<exists>M \<in> ?all. card M = c" "\<forall>M \<in> ?all. card M \<le> c"
    using count_is_largest [of es os] by blast
  have "?all \<subseteq> Pow ({..<length es} \<times> {..<length os})" by (auto simp: is_matching_def)
  then have "finite (card ` ?all)" by (intro finite_imageI) (auto intro: finite_subset)
  then have "Max (card ` ?all) = c" using c(2,3) by (intro Max_eqI) auto
  with c(1) show ?thesis by simp
qed

section \<open>What a match mode accepts\<close>

definition all_assigned :: "expected_call list \<Rightarrow> observed_call list \<Rightarrow> bool" where
  "all_assigned es os =
     (\<exists>f. inj_on f {..<length es} \<and> (\<forall>i < length es. f i < length os \<and> callMatches (es ! i) (os ! f i)))"

fun accepts_mode :: "match_mode \<Rightarrow> expected_call list \<Rightarrow> observed_call list \<Rightarrow> bool" where
  "accepts_mode Match_exact es os = list_all2 callMatches es os"
| "accepts_mode Match_in_order es os = (\<exists>ys. subseq ys os \<and> list_all2 callMatches es ys)"
| "accepts_mode Match_any_order es os = all_assigned es os"
| "accepts_mode Match_subset es os = (\<forall>x \<in> set os. \<exists>e \<in> set es. callMatches e x)"

lemma inOrder_iff: "inOrder es os \<longleftrightarrow> (\<exists>ys. subseq ys os \<and> list_all2 callMatches es ys)"
proof (induction es os rule: inOrder.induct)
  case (2 e es os)
  let ?miss = "\<lambda>x. \<not> callMatches e x"
  have tail: "(\<exists>ys. subseq ys os \<and> list_all2 callMatches (e # es) ys) \<longleftrightarrow>
      (\<exists>ys. subseq ys (dropWhile ?miss os) \<and> list_all2 callMatches (e # es) ys)"
    by (induction os) (auto simp: list_all2_Cons1 elim: subseq_Cons2_iff [THEN iffD1] split: if_splits)
  show ?case
  proof (cases "dropWhile ?miss os")
    case Nil
    with tail show ?thesis by (simp only: inOrder.simps Nil list.case) (auto simp: list_all2_Cons1 dest: list_emb_Nil2)
  next
    case (Cons x rest)
    have hit: "callMatches e x" using hd_dropWhile [of ?miss os] Cons by simp
    have "(\<exists>ys. subseq ys (x # rest) \<and> list_all2 callMatches (e # es) ys) \<longleftrightarrow>
        (\<exists>ys. subseq ys rest \<and> list_all2 callMatches es ys)"
    proof
      assume "\<exists>ys. subseq ys (x # rest) \<and> list_all2 callMatches (e # es) ys"
      then obtain y ys where "subseq (y # ys) (x # rest)" "list_all2 callMatches es ys" by (auto simp: list_all2_Cons1)
      then show "\<exists>ys. subseq ys rest \<and> list_all2 callMatches es ys"
        by (metis subseq_Cons' subseq_Cons2_iff)
    next
      assume "\<exists>ys. subseq ys rest \<and> list_all2 callMatches es ys"
      then obtain ys where "subseq (x # ys) (x # rest)" "list_all2 callMatches (e # es) (x # ys)" using hit by auto
      then show "\<exists>ys. subseq ys (x # rest) \<and> list_all2 callMatches (e # es) ys" by blast
    qed
    with "2.IH" [OF Cons] tail Cons show ?thesis by simp
  qed
qed simp

lemma all_assigned_iff:
  "all_assigned es os \<longleftrightarrow> (\<exists>M. is_matching (adjacent es os) (length es) (length os) M \<and> card M = length es)"
proof
  assume "all_assigned es os"
  then obtain f where f: "inj_on f {..<length es}" "\<forall>i < length es. f i < length os \<and> callMatches (es ! i) (os ! f i)"
    by (auto simp: all_assigned_def)
  let ?M = "(\<lambda>i. (i, f i)) ` {..<length es}"
  have "is_matching (adjacent es os) (length es) (length os) ?M"
    using f by (auto simp: is_matching_def adjacent_def inj_on_def)
  moreover have "card ?M = length es" by (simp add: card_image inj_on_def)
  ultimately show "\<exists>M. is_matching (adjacent es os) (length es) (length os) M \<and> card M = length es" by blast
next
  assume "\<exists>M. is_matching (adjacent es os) (length es) (length os) M \<and> card M = length es"
  then obtain M where M: "is_matching (adjacent es os) (length es) (length os) M" "card M = length es" by blast
  have "card (fst ` M) = length es" using M by (simp add: is_matching_def card_image)
  moreover have "fst ` M \<subseteq> {..<length es}" using M(1) by (auto simp: is_matching_def)
  ultimately have all: "fst ` M = {..<length es}" by (intro card_subset_eq) simp_all
  have "\<exists>j. (i, j) \<in> M" if "i < length es" for i
  proof -
    have "i \<in> fst ` M" using that all by simp
    then show ?thesis by auto
  qed
  then obtain f where f: "\<forall>i < length es. (i, f i) \<in> M" by metis
  have "inj_on f {..<length es}"
  proof (rule inj_onI)
    fix i i' assume "i \<in> {..<length es}" "i' \<in> {..<length es}" "f i = f i'"
    with f have "(i, f i) \<in> M" "(i', f i) \<in> M" by auto
    with M(1) show "i = i'" unfolding is_matching_def inj_on_def by fastforce
  qed
  with f M(1) show "all_assigned es os"
    unfolding all_assigned_def is_matching_def adjacent_def by (intro exI [of _ f]) fastforce
qed

lemma any_order_iff:
  assumes "maxMatching es os = Some c"
  shows "c = length es \<longleftrightarrow> all_assigned es os"
proof -
  have bound: "card M \<le> length es" if "is_matching (adjacent es os) (length es) (length os) M" for M
  proof -
    have "fst ` M \<subseteq> {..<length es}" using that by (auto simp: is_matching_def)
    then have "card (fst ` M) \<le> length es" using card_mono [of "{..<length es}" "fst ` M"] by simp
    then show ?thesis using that by (simp add: is_matching_def card_image)
  qed
  show ?thesis unfolding all_assigned_iff using count_is_largest [of es os] assms bound
    by (metis le_antisym option.inject)
qed

text \<open>
  Grading always returns, and a trajectory is matched exactly when its mode accepts the calls
  (pairwise; as a subsequence; by an injective assignment; each observed call expected) and no forbidden
  tool was called.
\<close>

theorem grade_is_declared_mode:
  "\<exists>g. gradeTrajectory s os = Some g \<and>
     tg_matched g = (accepts_mode (ts_match s) (ts_calls s) os \<and>
       (case ts_forbidden s of None \<Rightarrow> True | Some fs \<Rightarrow> oc_tool ` set os \<inter> set fs = {}))"
proof -
  obtain c where c: "maxMatching (ts_calls s) os = Some c" using count_is_largest by blast
  have none: "length (filter (\<lambda>x. oc_tool x \<in> set (case ts_forbidden s of None \<Rightarrow> [] | Some fs \<Rightarrow> fs)) os) = 0 \<longleftrightarrow>
      (case ts_forbidden s of None \<Rightarrow> True | Some fs \<Rightarrow> oc_tool ` set os \<inter> set fs = {})"
    by (auto simp: filter_empty_conv split: option.splits)
  have exact: "length os = length (ts_calls s) \<and> list_all (\<lambda>(e, x). callMatches e x) (zip (ts_calls s) os) \<longleftrightarrow>
      list_all2 callMatches (ts_calls s) os"
    by (auto simp: list_all2_iff list_all_iff)
  show ?thesis
    unfolding gradeTrajectory_def Let_def c option.case none ex_simps simp_thms option.inject
    by (cases "ts_match s") (simp_all only: trajectory_grade.select_convs match_mode.case accepts_mode.simps exact [unfolded list_all_iff]
      inOrder_iff any_order_iff [OF c] list_all_iff list_ex_iff ex_simps simp_thms)
qed

section \<open>The exact fraction\<close>

lemma ratio_loop:
  assumes "k \<le> a" and "k \<le> b"
  shows "\<exists>num den. foldl (\<lambda>(num, den) i. (num * (int a - int i), den * (int b - int i))) (1, 1) [0..<k] = (num, den) \<and>
     num = int (fact k * (a choose k)) \<and> den = int (fact k * (b choose k))"
  using assms
proof (induction k)
  case (Suc k)
  have step: "(int a - int k) * int (fact k * (a choose k)) = int (fact (Suc k) * (a choose Suc k))" if "k \<le> a" for a
  proof -
    have "(a - k) * (a choose k) = Suc k * (a choose Suc k)" by (simp only: binomial_absorption binomial_absorb_comp)
    then have "(a - k) * (fact k * (a choose k)) = fact (Suc k) * (a choose Suc k)" by (metis fact_Suc mult.assoc mult.commute of_nat_id)
    then show ?thesis using that by (metis of_nat_diff of_nat_mult)
  qed
  from Suc show ?case using step [of a] step [of b] by (auto simp: mult.commute)
qed simp

text \<open>
  The fraction is refused exactly outside \<open>0..b\<close> and otherwise is \<open>C(a, k) / C(b, k)\<close>, with a
  positive denominator.
\<close>

theorem ratio_of_binomials:
  "case binomRatio (int a) (int b) k of
     None \<Rightarrow> k < 0 \<or> int b < k
   | Some (num, den) \<Rightarrow> 0 \<le> k \<and> k \<le> int b \<and> 0 < den \<and> num * int (b choose nat k) = int (a choose nat k) * den"
proof (cases "0 \<le> k \<and> k \<le> int a \<and> k \<le> int b")
  case True
  then show ?thesis using ratio_loop [of "nat k" a b] zero_less_binomial [of "nat k" b]
    by (auto simp: binomRatio_def)
next
  case False
  then show ?thesis by (auto simp: binomRatio_def)
qed

text \<open>Equality sees what an object inherits: these two differ as JSON values.\<close>

lemma proto_key_equal: "json_equal (JObj [(''__proto__'', JObj [])]) (JObj [(''x'', JNull)])"
  by (simp add: js_get_def proto_member_def object_prototype_functions_def)

end
