(* ===== verification/Scoped_Receiver.thy ===== *)
theory Scoped_Receiver
  imports Webhook_Modal
begin

text \<open>
  Receivers that share a pinned port (\<open>scoped-receiver.ts\<close>) and the routing of one public front to many
  of them (\<open>front-mux.ts\<close>). Routing is a function of the registry and the request's URL; starting, binding,
  waiting and closing interleave, so they are the steps of a relation on the shared state, one step for
  each stretch of code between two awaits. The path of a URL (\<open>parse_path\<close>) is a parameter.
\<close>

section \<open>Routing behind a front\<close>

definition FRONT_MUX_PREFIX :: string where
  "FRONT_MUX_PREFIX = ''/fx/''"

definition pinnedPort :: "process_env \<Rightarrow> string \<Rightarrow> int" where
  "pinnedPort penv portEnv =
     (case js_integer (case penv portEnv of None \<Rightarrow> [] | Some s \<Rightarrow> s) of
        Some n \<Rightarrow> if 0 < n \<and> n < 65536 then n else 0
      | None \<Rightarrow> 0)"

definition frontPath :: "process_env \<Rightarrow> (string \<Rightarrow> string option) \<Rightarrow> string \<Rightarrow> string" where
  "frontPath penv parse_path frontEnv =
     (let raw = trimmed (penv frontEnv) in
      if raw = [] then [] else case parse_path raw of None \<Rightarrow> [] | Some p \<Rightarrow> strip_slashes p)"

definition withoutPath :: "string \<Rightarrow> string \<Rightarrow> string" where
  "withoutPath pre url =
     (if pre = [] then url
      else if url = pre then ''/''
      else if starts_with (pre @ ''/'') url \<or> starts_with (pre @ ''?'') url
        then (let rest = drop (length pre) url in if starts_with ''?'' rest then CHR ''/'' # rest else rest)
      else url)"

definition withoutFrontPath :: "process_env \<Rightarrow> (string \<Rightarrow> string option) \<Rightarrow> string \<Rightarrow> string \<Rightarrow> string" where
  "withoutFrontPath penv parse_path frontEnv url = withoutPath (frontPath penv parse_path frontEnv) url"

text \<open>\<open>routeFronted\<close>: the URL left in the request, and who handles it.\<close>

datatype routed = Not_fronted string | No_such_nonce string | Dispatched string string

type_synonym mux_registry = "(string \<times> string) list"

definition registerBehindFront :: "string \<Rightarrow> string \<Rightarrow> mux_registry \<Rightarrow> mux_registry" where
  "registerBehindFront frontEnv nonce m = List.insert (frontEnv, nonce) m"

definition unregisterBehindFront :: "string \<Rightarrow> string \<Rightarrow> mux_registry \<Rightarrow> mux_registry" where
  "unregisterBehindFront frontEnv nonce m = filter (\<lambda>e. e \<noteq> (frontEnv, nonce)) m"

definition route_url :: "mux_registry \<Rightarrow> string \<Rightarrow> string \<Rightarrow> routed" where
  "route_url m frontEnv url =
     (if \<not> starts_with FRONT_MUX_PREFIX url then Not_fronted url
      else let rest = drop (length FRONT_MUX_PREFIX) url;
               nonce = takeWhile (\<lambda>c. c \<noteq> CHR ''/'' \<and> c \<noteq> CHR ''?'') rest;
               tail = dropWhile (\<lambda>c. c \<noteq> CHR ''/'' \<and> c \<noteq> CHR ''?'') rest
           in if (frontEnv, nonce) \<notin> set m then No_such_nonce url
              else Dispatched nonce (if starts_with ''/'' tail then tail else CHR ''/'' # tail))"

definition routeFronted :: "process_env \<Rightarrow> (string \<Rightarrow> string option) \<Rightarrow> mux_registry \<Rightarrow> string \<Rightarrow> string option \<Rightarrow> routed" where
  "routeFronted penv parse_path m frontEnv url =
     route_url m frontEnv (withoutFrontPath penv parse_path frontEnv (case url of None \<Rightarrow> ''/'' | Some u \<Rightarrow> u))"

definition frontedEndpoint ::
  "process_env \<Rightarrow> (string \<Rightarrow> (string \<times> string) option) \<Rightarrow> string \<Rightarrow> string \<Rightarrow> string \<Rightarrow> int \<Rightarrow> string \<Rightarrow> front_error + string" where
  "frontedEndpoint penv parse_url frontEnv portEnv localUrl boundPort nonce =
     ebind (resolvePublicFront penv parse_url frontEnv localUrl) (\<lambda>f.
       if \<not> fr_tunnelled f then Inr localUrl
       else let base = strip_slashes (fr_url f)
            in Inr (if boundPort = pinnedPort penv portEnv then base else base @ FRONT_MUX_PREFIX @ nonce))"

section \<open>The shared listener's handler\<close>

definition WEBHOOK_FRONT_ENV :: string where
  "WEBHOOK_FRONT_ENV = ''OPENWOP_WEBHOOK_RECEIVER_URL''"

record mux_member =
  mm_nonce :: string
  mm_foreign :: nat

definition count_foreign :: "string \<Rightarrow> mux_member \<Rightarrow> mux_member" where
  "count_foreign path m =
     (if starts_with (FRONT_MUX_PREFIX @ mm_nonce m) path then m else m\<lparr>mm_foreign := mm_foreign m + 1\<rparr>)"

definition handlerFor ::
  "process_env \<Rightarrow> (string \<Rightarrow> string option) \<Rightarrow> mux_registry \<Rightarrow> string option \<Rightarrow> mux_member list \<Rightarrow> routed \<times> mux_member list" where
  "handlerFor penv parse_path m url members =
     (let path = withoutFrontPath penv parse_path WEBHOOK_FRONT_ENV (case url of None \<Rightarrow> ''/'' | Some u \<Rightarrow> u)
      in (routeFronted penv parse_path m WEBHOOK_FRONT_ENV url, map (count_foreign path) members))"

definition scopedUrl :: "process_env \<Rightarrow> (string \<Rightarrow> (string \<times> string) option) \<Rightarrow> string \<Rightarrow> string \<Rightarrow> front_error + front" where
  "scopedUrl penv parse_url origin nonce =
     ebind (resolvePublicFront penv parse_url WEBHOOK_FRONT_ENV origin) (\<lambda>f.
       Inr (f\<lparr>fr_url := strip_slashes (fr_url f) @ FRONT_MUX_PREFIX @ nonce\<rparr>))"

definition absenceIsUnmeasured :: "mux_member \<Rightarrow> bool" where
  "absenceIsUnmeasured m = (0 < mm_foreign m)"

section \<open>Starting and closing receivers\<close>

text \<open>
  Entries of \<open>sharedByPort\<close> are numbered in the order they are made. A receiver is idle, waiting for the
  entry's listener, serving, done, or left with its claim because the front was refused after the wait.
\<close>

datatype bind_status = Binding | Bound | Bind_failed

datatype phase = Idle | Waiting nat | Serving nat | Done | Abandoned nat

record scoped_state =
  sd_byPort :: "string \<Rightarrow> nat option"
  sd_key :: "nat \<Rightarrow> string"
  sd_refs :: "nat \<Rightarrow> int"
  sd_listening :: "nat \<Rightarrow> bind_status"
  sd_open :: "nat set"
  sd_next :: nat
  sd_phase :: "nat \<Rightarrow> phase"

definition scoped_start :: scoped_state where
  "scoped_start =
     \<lparr>sd_byPort = (\<lambda>_. None), sd_key = (\<lambda>_. []), sd_refs = (\<lambda>_. 0), sd_listening = (\<lambda>_. Binding), sd_open = {}, sd_next = 0,
      sd_phase = (\<lambda>_. Idle)\<rparr>"

definition join_entry :: "nat \<Rightarrow> nat \<Rightarrow> scoped_state \<Rightarrow> scoped_state" where
  "join_entry r e s = s\<lparr>sd_refs := (sd_refs s)(e := sd_refs s e + 1), sd_phase := (sd_phase s)(r := Waiting e)\<rparr>"

definition new_entry :: "nat \<Rightarrow> string \<Rightarrow> scoped_state \<Rightarrow> scoped_state" where
  "new_entry r key s =
     (let e = sd_next s in
      s\<lparr>sd_byPort := (sd_byPort s)(key := Some e), sd_key := (sd_key s)(e := key), sd_refs := (sd_refs s)(e := 1),
        sd_listening := (sd_listening s)(e := Binding), sd_next := e + 1, sd_phase := (sd_phase s)(r := Waiting e)\<rparr>)"

definition drop_entry :: "nat \<Rightarrow> scoped_state \<Rightarrow> string \<Rightarrow> nat option" where
  "drop_entry e s = (\<lambda>k. if k = sd_key s e \<and> sd_byPort s k = Some e then None else sd_byPort s k)"

definition close_receiver :: "nat \<Rightarrow> nat \<Rightarrow> scoped_state \<Rightarrow> scoped_state" where
  "close_receiver r e s =
     (let refs = sd_refs s e - 1;
          s' = s\<lparr>sd_refs := (sd_refs s)(e := refs), sd_phase := (sd_phase s)(r := Done)\<rparr>
      in if 0 < refs then s' else s'\<lparr>sd_byPort := drop_entry e s, sd_open := sd_open s - {e}\<rparr>)"

inductive scoped_step :: "scoped_state \<Rightarrow> scoped_state \<Rightarrow> bool" where
  start_join: "sd_phase s r = Idle \<Longrightarrow> sd_byPort s key = Some e \<Longrightarrow> scoped_step s (join_entry r e s)"
| start_new: "sd_phase s r = Idle \<Longrightarrow> sd_byPort s key = None \<Longrightarrow> scoped_step s (new_entry r key s)"
| bound: "e < sd_next s \<Longrightarrow> sd_listening s e = Binding \<Longrightarrow> (\<forall>e' \<in> sd_open s. sd_key s e' \<noteq> sd_key s e) \<Longrightarrow>
    scoped_step s (s\<lparr>sd_listening := (sd_listening s)(e := Bound), sd_open := insert e (sd_open s)\<rparr>)"
| bind_fails: "e < sd_next s \<Longrightarrow> sd_listening s e = Binding \<Longrightarrow>
    scoped_step s (s\<lparr>sd_listening := (sd_listening s)(e := Bind_failed)\<rparr>)"
| forget_failed: "e < sd_next s \<Longrightarrow> sd_listening s e = Bind_failed \<Longrightarrow> scoped_step s (s\<lparr>sd_byPort := drop_entry e s\<rparr>)"
| resume: "sd_phase s r = Waiting e \<Longrightarrow> sd_listening s e = Bound \<Longrightarrow>
    scoped_step s (s\<lparr>sd_phase := (sd_phase s)(r := Serving e)\<rparr>)"
| front_refused: "sd_phase s r = Waiting e \<Longrightarrow> sd_listening s e = Bound \<Longrightarrow>
    scoped_step s (s\<lparr>sd_phase := (sd_phase s)(r := Abandoned e)\<rparr>)"
| resume_failed: "sd_phase s r = Waiting e \<Longrightarrow> sd_listening s e = Bind_failed \<Longrightarrow>
    scoped_step s (s\<lparr>sd_refs := (sd_refs s)(e := sd_refs s e - 1), sd_phase := (sd_phase s)(r := Done)\<rparr>)"
| close_serving: "sd_phase s r = Serving e \<Longrightarrow> scoped_step s (close_receiver r e s)"

inductive scoped_reachable :: "scoped_state \<Rightarrow> bool" where
  initial: "scoped_reachable scoped_start"
| step: "scoped_reachable s \<Longrightarrow> scoped_step s s' \<Longrightarrow> scoped_reachable s'"

section \<open>Claims and listeners\<close>

fun claims :: "phase \<Rightarrow> nat option" where
  "claims (Waiting e) = Some e"
| "claims (Serving e) = Some e"
| "claims (Abandoned e) = Some e"
| "claims Idle = None"
| "claims Done = None"

definition claimants :: "(nat \<Rightarrow> phase) \<Rightarrow> nat \<Rightarrow> nat set" where
  "claimants f e = {r. claims (f r) = Some e}"

lemma claimants_upd:
  "claimants (f(r := p)) e = (if claims p = Some e then insert r (claimants f e) else claimants f e - {r})"
  by (auto simp: claimants_def)

lemma claimants_mem: "r \<in> claimants f e \<longleftrightarrow> claims (f r) = Some e"
  by (simp add: claimants_def)

text \<open>A count is the number of its claimants; a receiver past its wait has a bound listener.\<close>

definition counted_inv :: "scoped_state \<Rightarrow> bool" where
  "counted_inv s =
     (finite {r. sd_phase s r \<noteq> Idle} \<and> (\<forall>e. sd_refs s e = int (card (claimants (sd_phase s) e))) \<and>
      (\<forall>r e. claims (sd_phase s r) = Some e \<longrightarrow> e < sd_next s) \<and>
      (\<forall>r e. sd_phase s r = Serving e \<or> sd_phase s r = Abandoned e \<longrightarrow> sd_listening s e = Bound))"

text \<open>An entry found by its port is claimed unless its bind failed; one being bound or open is found by its port.\<close>

definition listed_inv :: "scoped_state \<Rightarrow> bool" where
  "listed_inv s =
     ((\<forall>k e. sd_byPort s k = Some e \<longrightarrow> e < sd_next s \<and> sd_key s e = k \<and> (sd_listening s e = Bind_failed \<or> 0 < sd_refs s e)) \<and>
      (\<forall>e. e < sd_next s \<and> sd_listening s e = Binding \<longrightarrow> sd_byPort s (sd_key s e) = Some e) \<and>
      (\<forall>e. e \<in> sd_open s \<longrightarrow> e < sd_next s \<and> sd_byPort s (sd_key s e) = Some e \<and> sd_listening s e = Bound) \<and>
      (\<forall>e. e < sd_next s \<and> sd_listening s e = Bound \<and> 0 < sd_refs s e \<longrightarrow> e \<in> sd_open s))"

lemma finite_claimants: "finite {r. f r \<noteq> Idle} \<Longrightarrow> finite (claimants f e)"
  by (rule finite_subset [of _ "{r. f r \<noteq> Idle}"]) (auto simp: claimants_def)

lemma phase_finite: "finite {r. f r \<noteq> Idle} \<Longrightarrow> finite {r'. (f(r := p)) r' \<noteq> Idle}"
  by (rule finite_subset [of _ "insert r {r. f r \<noteq> Idle}"]) auto

lemma card_claim:
  assumes "finite {r. f r \<noteq> Idle}"
  shows "int (card (claimants (f(r := p)) e)) =
     int (card (claimants f e)) + (if claims p = Some e then 1 else 0) - (if claims (f r) = Some e then 1 else 0)"
proof -
  have fin: "finite (claimants f e)" using finite_claimants [OF assms] .
  show ?thesis
  proof (cases "r \<in> claimants f e")
    case True
    then have "0 < card (claimants f e)" using fin by (auto simp: card_gt_0_iff)
    with True fin show ?thesis by (auto simp: claimants_upd claimants_mem insert_absorb)
  next
    case False
    with fin show ?thesis by (auto simp: claimants_upd claimants_mem)
  qed
qed

lemma counted_initial: "counted_inv scoped_start"
  by (simp add: counted_inv_def scoped_start_def claimants_def)

lemma listed_initial: "listed_inv scoped_start"
  by (simp add: listed_inv_def scoped_start_def)

lemma counted_refs:
  assumes "counted_inv s"
  shows "finite {x. ((sd_phase s)(r := p)) x \<noteq> Idle}"
    and "sd_refs s e + (if claims p = Some e then 1 else 0) - (if claims (sd_phase s r) = Some e then 1 else 0) =
      int (card (claimants ((sd_phase s)(r := p)) e))"
  using assms phase_finite [of "sd_phase s" r p] card_claim [of "sd_phase s" r p e] by (simp_all add: counted_inv_def)

text \<open>One receiver changes its phase and the counts follow.\<close>

lemma counted_phase:
  assumes "counted_inv s" and "sd_phase s' = (sd_phase s)(r := p)" and "sd_next s \<le> sd_next s'"
    and "\<And>e. sd_refs s' e = sd_refs s e + (if claims p = Some e then 1 else 0) - (if claims (sd_phase s r) = Some e then 1 else 0)"
    and "\<And>e. claims p = Some e \<Longrightarrow> e < sd_next s'"
    and "\<And>e. p = Serving e \<or> p = Abandoned e \<Longrightarrow> sd_listening s' e = Bound"
    and "\<And>e. e < sd_next s \<Longrightarrow> sd_listening s e = Bound \<Longrightarrow> sd_listening s' e = Bound"
  shows "counted_inv s'"
proof -
  have c: "\<And>r e. claims (sd_phase s r) = Some e \<Longrightarrow> e < sd_next s"
    "\<And>r e. sd_phase s r = Serving e \<or> sd_phase s r = Abandoned e \<Longrightarrow> sd_listening s e = Bound"
    using assms(1) by (auto simp: counted_inv_def)
  have "claims (sd_phase s' r') = Some e \<Longrightarrow> e < sd_next s'" for r' e
    using c(1) [of r' e] assms(2,3,5) by (auto split: if_splits)
  moreover have "sd_phase s' r' = Serving e \<or> sd_phase s' r' = Abandoned e \<Longrightarrow> sd_listening s' e = Bound" for r' e
    using c(1) [of r' e] c(2) [of r' e] assms(2,6,7) by (auto split: if_splits)
  ultimately show ?thesis
    unfolding counted_inv_def assms(4) unfolding assms(2)
    using counted_refs(1) [OF assms(1), where r = r and p = p] counted_refs(2) [OF assms(1), where r = r and p = p]
    by blast
qed

lemma listedD:
  assumes "listed_inv s"
  shows "sd_byPort s k = Some e \<Longrightarrow> e < sd_next s" and "sd_byPort s k = Some e \<Longrightarrow> sd_key s e = k"
    and "sd_byPort s k = Some e \<Longrightarrow> sd_listening s e = Bind_failed \<or> 0 < sd_refs s e"
    and "e < sd_next s \<Longrightarrow> sd_listening s e = Binding \<Longrightarrow> sd_byPort s (sd_key s e) = Some e"
    and "e \<in> sd_open s \<Longrightarrow> e < sd_next s" and "e \<in> sd_open s \<Longrightarrow> sd_byPort s (sd_key s e) = Some e"
    and "e \<in> sd_open s \<Longrightarrow> sd_listening s e = Bound"
    and "e < sd_next s \<Longrightarrow> sd_listening s e = Bound \<Longrightarrow> 0 < sd_refs s e \<Longrightarrow> e \<in> sd_open s"
  using assms unfolding listed_inv_def by blast+

lemma countedD:
  assumes "counted_inv s"
  shows "claims (sd_phase s r) = Some e \<Longrightarrow> e < sd_next s" and "claims (sd_phase s r) = Some e \<Longrightarrow> 0 < sd_refs s e"
    and "sd_phase s r = Serving e \<or> sd_phase s r = Abandoned e \<Longrightarrow> sd_listening s e = Bound"
    and "sd_next s \<le> e \<Longrightarrow> sd_refs s e = 0"
proof -
  have fin: "finite (claimants (sd_phase s) e)" and refs: "sd_refs s e = int (card (claimants (sd_phase s) e))"
    using assms finite_claimants by (auto simp: counted_inv_def)
  show "claims (sd_phase s r) = Some e \<Longrightarrow> 0 < sd_refs s e" using fin refs by (auto simp: card_gt_0_iff claimants_def)
  show low: "claims (sd_phase s r) = Some e \<Longrightarrow> e < sd_next s" for r using assms unfolding counted_inv_def by blast
  show "sd_phase s r = Serving e \<or> sd_phase s r = Abandoned e \<Longrightarrow> sd_listening s e = Bound" using assms unfolding counted_inv_def by blast
  show "sd_next s \<le> e \<Longrightarrow> sd_refs s e = 0"
  proof -
    assume "sd_next s \<le> e"
    with low have "claimants (sd_phase s) e = {}" by (fastforce simp: claimants_def)
    with refs show ?thesis by simp
  qed
qed

lemma counted_step:
  assumes "scoped_step s s'" and "counted_inv s" and "listed_inv s"
  shows "counted_inv s'"
  using assms
proof (induction rule: scoped_step.induct)
  case (start_join s r key e)
  then show ?case using listedD(1) [OF start_join.prems(2) start_join.hyps(2)]
    by - (rule counted_phase [of s _ r "Waiting e"], simp_all add: join_entry_def)
next
  case (start_new s r key)
  then show ?case using countedD(4) [OF start_new.prems(1), of "sd_next s"]
    by - (rule counted_phase [of s _ r "Waiting (sd_next s)"], simp_all add: new_entry_def Let_def)
next
  case (bound e s)
  then show ?case by (auto simp: counted_inv_def)
next
  case (bind_fails e s)
  then show ?case by (auto simp: counted_inv_def)
next
  case (forget_failed e s)
  then show ?case by (simp add: counted_inv_def)
next
  case (resume s r e)
  then show ?case using countedD(1) [OF resume.prems(1), of r e] by - (rule counted_phase [of s _ r "Serving e"], simp_all)
next
  case (front_refused s r e)
  then show ?case using countedD(1) [OF front_refused.prems(1), of r e] by - (rule counted_phase [of s _ r "Abandoned e"], simp_all)
next
  case (resume_failed s r e)
  then show ?case by - (rule counted_phase [of s _ r Done], simp_all)
next
  case (close_serving s r e)
  then show ?case by - (rule counted_phase [of s _ r Done], simp_all add: close_receiver_def Let_def)
qed

lemma listedI:
  assumes "\<And>k e. sd_byPort s k = Some e \<Longrightarrow> e < sd_next s \<and> sd_key s e = k \<and> (sd_listening s e = Bind_failed \<or> 0 < sd_refs s e)"
    and "\<And>e. e < sd_next s \<Longrightarrow> sd_listening s e = Binding \<Longrightarrow> sd_byPort s (sd_key s e) = Some e"
    and "\<And>e. e \<in> sd_open s \<Longrightarrow> e < sd_next s \<and> sd_byPort s (sd_key s e) = Some e \<and> sd_listening s e = Bound"
    and "\<And>e. e < sd_next s \<Longrightarrow> sd_listening s e = Bound \<Longrightarrow> 0 < sd_refs s e \<Longrightarrow> e \<in> sd_open s"
  shows "listed_inv s"
  using assms unfolding listed_inv_def by blast

lemma listed_phase: "listed_inv (s\<lparr>sd_phase := f\<rparr>) \<longleftrightarrow> listed_inv s"
  by (simp add: listed_inv_def)

lemma listed_step:
  assumes "scoped_step s s'" and "counted_inv s" and "listed_inv s"
  shows "listed_inv s'"
  using assms
proof (induction rule: scoped_step.induct)
  case (start_join s r key e)
  note L = listedD [OF start_join.prems(2)]
  show ?case using start_join.hyps(2)
    by (intro listedI) (auto simp: join_entry_def split: if_splits dest: L(1,2,3,5,7) intro: L(4,6,8))
next
  case (start_new s r key)
  note L = listedD [OF start_new.prems(2)]
  show ?case using start_new.hyps(2)
    by (intro listedI) (auto simp: new_entry_def Let_def less_Suc_eq split: if_splits dest: L(1,2,3,4,5,6,7) intro: L(4,6,8))
next
  case (bound e s)
  note L = listedD [OF bound.prems(2)]
  show ?case using bound.hyps
    by (intro listedI) (auto split: if_splits dest: L(1,2,3,5,7) intro: L(4,6,8))
next
  case (bind_fails e s)
  note L = listedD [OF bind_fails.prems(2)]
  show ?case using bind_fails.hyps
    by (intro listedI) (auto split: if_splits dest: L(1,2,3,5,7) intro: L(4,6,8))
next
  case (forget_failed e s)
  note L = listedD [OF forget_failed.prems(2)]
  have keep: "drop_entry e s (sd_key s x) = Some x" if "sd_byPort s (sd_key s x) = Some x" "sd_listening s x \<noteq> Bind_failed" for x
    using that forget_failed.hyps(2) by (auto simp: drop_entry_def)
  have less: "drop_entry e s k = Some x \<Longrightarrow> sd_byPort s k = Some x" for k x by (simp add: drop_entry_def split: if_splits)
  show ?case
  proof (rule listedI)
    fix k x assume "sd_byPort (s\<lparr>sd_byPort := drop_entry e s\<rparr>) k = Some x"
    then have "sd_byPort s k = Some x" using less by simp
    with L(1-3) [of k x] show "x < sd_next (s\<lparr>sd_byPort := drop_entry e s\<rparr>) \<and> sd_key (s\<lparr>sd_byPort := drop_entry e s\<rparr>) x = k \<and>
        (sd_listening (s\<lparr>sd_byPort := drop_entry e s\<rparr>) x = Bind_failed \<or> 0 < sd_refs (s\<lparr>sd_byPort := drop_entry e s\<rparr>) x)" by simp
  next
    fix x assume "x < sd_next (s\<lparr>sd_byPort := drop_entry e s\<rparr>)" "sd_listening (s\<lparr>sd_byPort := drop_entry e s\<rparr>) x = Binding"
    then show "sd_byPort (s\<lparr>sd_byPort := drop_entry e s\<rparr>) (sd_key (s\<lparr>sd_byPort := drop_entry e s\<rparr>) x) = Some x"
      using keep [of x] L(4) [of x] by simp
  next
    fix x assume "x \<in> sd_open (s\<lparr>sd_byPort := drop_entry e s\<rparr>)"
    then show "x < sd_next (s\<lparr>sd_byPort := drop_entry e s\<rparr>) \<and>
        sd_byPort (s\<lparr>sd_byPort := drop_entry e s\<rparr>) (sd_key (s\<lparr>sd_byPort := drop_entry e s\<rparr>) x) = Some x \<and>
        sd_listening (s\<lparr>sd_byPort := drop_entry e s\<rparr>) x = Bound"
      using keep [of x] L(5-7) [of x] by simp
  qed (simp, blast intro: L(8))
next
  case (resume s r e)
  then show ?case by (simp add: listed_phase)
next
  case (front_refused s r e)
  then show ?case by (simp add: listed_phase)
next
  case (resume_failed s r e)
  note L = listedD [OF resume_failed.prems(2)]
  show ?case using resume_failed.hyps
    by (intro listedI) (auto split: if_splits dest: L(1,2,3,5,7) intro: L(4,6,8))
next
  case (close_serving s r e)
  note L = listedD [OF close_serving.prems(2)]
  have "e \<in> sd_open s"
    using L(8) countedD(1-3) [OF close_serving.prems(1), of r e] close_serving.hyps by simp
  then show ?case using countedD(3) [OF close_serving.prems(1), of r e] close_serving.hyps
    by (intro listedI) (auto simp: close_receiver_def drop_entry_def Let_def split: if_splits dest: L(1,2,3,4,5,6,7) intro: L(4,6,8))
qed

lemma reachable_inv: "scoped_reachable s \<Longrightarrow> counted_inv s \<and> listed_inv s"
  by (induction rule: scoped_reachable.induct) (auto intro: counted_initial listed_initial counted_step listed_step)

lemma claim_open:
  assumes "counted_inv s" and "listed_inv s" and "claims (sd_phase s r) = Some e" and "sd_listening s e = Bound"
  shows "e \<in> sd_open s"
  using listedD(8) [OF assms(2)] countedD(1,2) [OF assms(1,3)] assms(4) by blast

text \<open>
  Claim C10: however starts, binds, waits and closes interleave, the listener of a receiver that serves, or
  whose bind has settled while it still waits, is open: no closing sibling shuts it. A listener is open only
  while it is claimed.
\<close>

theorem listener_outlives_claims:
  assumes "scoped_reachable s" and "sd_phase s r = Serving e \<or> sd_phase s r = Waiting e \<and> sd_listening s e = Bound"
  shows "e \<in> sd_open s \<and> sd_refs s e = int (card (claimants (sd_phase s) e)) \<and> 0 < sd_refs s e"
proof -
  have inv: "counted_inv s" "listed_inv s" using reachable_inv [OF assms(1)] by auto
  have c: "claims (sd_phase s r) = Some e" "sd_listening s e = Bound" using assms(2) countedD(3) [OF inv(1), of r e] by auto
  then show ?thesis using claim_open [OF inv c] countedD(2) [OF inv(1) c(1)] inv(1) unfolding counted_inv_def by blast
qed

definition one_serving :: scoped_state where
  "one_serving =
     (let s = new_entry 0 ''127.0.0.1:9000'' scoped_start;
          s = s\<lparr>sd_listening := (sd_listening s)(0 := Bound), sd_open := insert 0 (sd_open s)\<rparr>
      in s\<lparr>sd_phase := (sd_phase s)(0 := Serving 0)\<rparr>)"

lemma one_serving_reachable: "scoped_reachable one_serving"
proof -
  let ?a = "new_entry 0 ''127.0.0.1:9000'' scoped_start"
  let ?b = "?a\<lparr>sd_listening := (sd_listening ?a)(0 := Bound), sd_open := insert 0 (sd_open ?a)\<rparr>"
  have "scoped_step scoped_start ?a" by (rule scoped_step.start_new) (simp_all add: scoped_start_def)
  then have "scoped_reachable ?a" using scoped_reachable.intros by blast
  moreover have "scoped_step ?a ?b" by (rule scoped_step.bound) (simp_all add: new_entry_def scoped_start_def Let_def)
  ultimately have "scoped_reachable ?b" using scoped_reachable.step by blast
  moreover have "scoped_step ?b (?b\<lparr>sd_phase := (sd_phase ?b)(0 := Serving 0)\<rparr>)"
    by (rule scoped_step.resume) (simp_all add: new_entry_def scoped_start_def Let_def)
  ultimately show ?thesis unfolding one_serving_def Let_def using scoped_reachable.step by blast
qed

theorem listener_outlives_claims_witness: "0 \<in> sd_open one_serving \<and> 0 < sd_refs one_serving 0"
  using listener_outlives_claims [OF one_serving_reachable, of 0 0] by (simp add: one_serving_def Let_def)

text \<open>
  Two listeners of this process that are open or being bound never share an address, so a bind
  never finds its port held by a sibling.
\<close>

theorem one_listener_per_port:
  assumes "scoped_reachable s" and "e \<in> sd_open s \<or> e < sd_next s \<and> sd_listening s e = Binding"
    and "e' \<in> sd_open s \<or> e' < sd_next s \<and> sd_listening s e' = Binding" and "sd_key s e = sd_key s e'"
  shows "e = e'"
proof -
  have inv: "listed_inv s" using reachable_inv [OF assms(1)] by simp
  have "sd_byPort s (sd_key s e) = Some e" using assms(2) listedD(4,6) [OF inv, of e] by blast
  moreover have "sd_byPort s (sd_key s e') = Some e'" using assms(3) listedD(4,6) [OF inv, of e'] by blast
  ultimately show ?thesis using assms(4) by (metis option.inject)
qed

theorem one_listener_per_port_witness: "(0 :: nat) = 0 \<and> 0 \<in> sd_open one_serving"
  using one_listener_per_port [OF one_serving_reachable, of 0 0] by (simp add: one_serving_def Let_def)

text \<open>
  Claim C39: a receiver that waits for a listener whose bind has not failed can always come to serve.
\<close>

theorem waiting_can_serve:
  assumes "scoped_reachable s" and "sd_phase s r = Waiting e" and "sd_listening s e \<noteq> Bind_failed"
  shows "\<exists>s'. scoped_step\<^sup>*\<^sup>* s s' \<and> sd_phase s' r = Serving e"
proof -
  have inv: "counted_inv s" "listed_inv s" using reachable_inv [OF assms(1)] by auto
  have e: "e < sd_next s" using countedD(1) [OF inv(1), of r e] assms(2) by simp
  have go: "\<exists>s'. scoped_step t s' \<and> sd_phase s' r = Serving e" if "sd_phase t r = Waiting e" "sd_listening t e = Bound" for t
    using scoped_step.resume [OF that] by (intro exI [of _ "t\<lparr>sd_phase := (sd_phase t)(r := Serving e)\<rparr>"]) simp
  show ?thesis
  proof (cases "sd_listening s e")
    case Binding
    have "sd_key s e' \<noteq> sd_key s e" if "e' \<in> sd_open s" for e'
    proof
      assume "sd_key s e' = sd_key s e"
      then have "e' = e" using listedD(4) [OF inv(2) e Binding] listedD(6) [OF inv(2) that] by simp
      with listedD(7) [OF inv(2) that] Binding show False by simp
    qed
    then have "scoped_step s (s\<lparr>sd_listening := (sd_listening s)(e := Bound), sd_open := insert e (sd_open s)\<rparr>)"
      using scoped_step.bound [OF e Binding] by blast
    moreover obtain s' where "scoped_step (s\<lparr>sd_listening := (sd_listening s)(e := Bound), sd_open := insert e (sd_open s)\<rparr>) s'"
      "sd_phase s' r = Serving e"
      using go [of "s\<lparr>sd_listening := (sd_listening s)(e := Bound), sd_open := insert e (sd_open s)\<rparr>"] assms(2) by auto
    ultimately show ?thesis by (meson converse_rtranclp_into_rtranclp r_into_rtranclp)
  next
    case Bound
    then show ?thesis using go [OF assms(2)] by blast
  qed (use assms(3) in simp)
qed

theorem waiting_can_serve_witness:
  "\<exists>s'. scoped_step\<^sup>*\<^sup>* (new_entry 3 ''0.0.0.0:9000'' scoped_start) s' \<and> sd_phase s' 3 = Serving 0"
proof (rule waiting_can_serve)
  have "scoped_step scoped_start (new_entry 3 ''0.0.0.0:9000'' scoped_start)"
    by (rule scoped_step.start_new) (simp_all add: scoped_start_def)
  then show "scoped_reachable (new_entry 3 ''0.0.0.0:9000'' scoped_start)" using scoped_reachable.intros by blast
qed (simp_all add: new_entry_def scoped_start_def Let_def)

lemma abandoned_step: "scoped_step s s' \<Longrightarrow> sd_phase s r = Abandoned e \<Longrightarrow> sd_phase s' r = Abandoned e"
  by (induction rule: scoped_step.induct) (auto simp: join_entry_def new_entry_def close_receiver_def Let_def)

text \<open>
  A receiver whose public front is refused after its listener was bound never gives its claim
  back: whatever happens later, the listener stays open.
\<close>

theorem refused_front_leaks_listener:
  assumes "scoped_reachable s" and "sd_phase s r = Abandoned e" and "scoped_step\<^sup>*\<^sup>* s s'"
  shows "e \<in> sd_open s'"
proof -
  have "scoped_reachable s' \<and> sd_phase s' r = Abandoned e"
    using assms(3) by (induction rule: rtranclp_induct) (use assms(1,2) abandoned_step scoped_reachable.step in blast)+
  then show ?thesis
    using claim_open [of s' r e] reachable_inv [of s'] countedD(3) [of s' r e] by auto
qed

definition one_abandoned :: scoped_state where
  "one_abandoned =
     (let s = new_entry 0 ''127.0.0.1:9000'' scoped_start;
          s = s\<lparr>sd_listening := (sd_listening s)(0 := Bound), sd_open := insert 0 (sd_open s)\<rparr>
      in s\<lparr>sd_phase := (sd_phase s)(0 := Abandoned 0)\<rparr>)"

theorem refused_front_leaks_listener_witness: "0 \<in> sd_open one_abandoned"
proof (rule refused_front_leaks_listener [where r = 0])
  let ?a = "new_entry 0 ''127.0.0.1:9000'' scoped_start"
  let ?b = "?a\<lparr>sd_listening := (sd_listening ?a)(0 := Bound), sd_open := insert 0 (sd_open ?a)\<rparr>"
  have "scoped_step scoped_start ?a" by (rule scoped_step.start_new) (simp_all add: scoped_start_def)
  then have "scoped_reachable ?a" using scoped_reachable.intros by blast
  moreover have "scoped_step ?a ?b" by (rule scoped_step.bound) (simp_all add: new_entry_def scoped_start_def Let_def)
  ultimately have "scoped_reachable ?b" using scoped_reachable.step by blast
  moreover have "scoped_step ?b (?b\<lparr>sd_phase := (sd_phase ?b)(0 := Abandoned 0)\<rparr>)"
    by (rule scoped_step.front_refused) (simp_all add: new_entry_def scoped_start_def Let_def)
  ultimately show "scoped_reachable one_abandoned" unfolding one_abandoned_def Let_def using scoped_reachable.step by blast
qed (simp_all add: one_abandoned_def Let_def)

section \<open>A request reaches its addressee\<close>

lemma route_mux:
  assumes "CHR ''/'' \<notin> set nonce" and "CHR ''?'' \<notin> set nonce" and "tail = [] \<or> hd tail = CHR ''/'' \<or> hd tail = CHR ''?''"
  shows "route_url m frontEnv (FRONT_MUX_PREFIX @ nonce @ tail) =
     (if (frontEnv, nonce) \<in> set m then Dispatched nonce (if starts_with ''/'' tail then tail else CHR ''/'' # tail)
      else No_such_nonce (FRONT_MUX_PREFIX @ nonce @ tail))"
proof -
  let ?P = "\<lambda>c. c \<noteq> CHR ''/'' \<and> c \<noteq> CHR ''?''"
  have all: "\<forall>c \<in> set nonce. ?P c" using assms(1,2) by auto
  have "takeWhile ?P tail = []" "dropWhile ?P tail = tail" using assms(3) by (cases tail; auto)+
  then have "takeWhile ?P (nonce @ tail) = nonce" "dropWhile ?P (nonce @ tail) = tail" using all by (simp_all add: takeWhile_append2 dropWhile_append2)
  then show ?thesis by (simp add: route_url_def starts_with_append Let_def)
qed

lemma front_stripped: "withoutPath pre (pre @ FRONT_MUX_PREFIX @ u) = FRONT_MUX_PREFIX @ u"
  by (cases "pre = []") (auto simp: withoutPath_def FRONT_MUX_PREFIX_def starts_with_iff Let_def)

text \<open>
  A request to a nonce behind the front, whatever path the front itself has, is dispatched to that
  nonce with the rest of its path when the nonce is registered, and is otherwise answered as unknown: it
  never reaches another receiver.
\<close>

theorem request_reaches_addressee:
  assumes "CHR ''/'' \<notin> set nonce" and "CHR ''?'' \<notin> set nonce" and "tail = [] \<or> hd tail = CHR ''/'' \<or> hd tail = CHR ''?''"
  shows "routeFronted penv parse_path m frontEnv (Some (frontPath penv parse_path frontEnv @ FRONT_MUX_PREFIX @ nonce @ tail)) =
     (if (frontEnv, nonce) \<in> set m then Dispatched nonce (if starts_with ''/'' tail then tail else CHR ''/'' # tail)
      else No_such_nonce (FRONT_MUX_PREFIX @ nonce @ tail))"
  using route_mux [OF assms] by (simp add: routeFronted_def withoutFrontPath_def front_stripped)

theorem request_reaches_addressee_witness:
  "routeFronted (\<lambda>_. Some ''https://t.example/hook/'') (\<lambda>_. Some ''/hook/'') [(''F'', ''ab'')] ''F''
     (Some (frontPath (\<lambda>_. Some ''https://t.example/hook/'') (\<lambda>_. Some ''/hook/'') ''F'' @ FRONT_MUX_PREFIX @ ''ab'' @ ''/x'')) =
   Dispatched ''ab'' ''/x''"
  using request_reaches_addressee [of "''ab''" "''/x''" "\<lambda>_. Some ''https://t.example/hook/''" "\<lambda>_. Some ''/hook/''" "[(''F'', ''ab'')]" "''F''"]
  by (simp add: starts_with_def)

text \<open>
  A request dispatched to a nonce is foreign to every other receiver on the listener and to no
  receiver of that nonce.
\<close>

theorem dispatched_is_foreign_to_others:
  assumes "fst (handlerFor penv parse_path m url members) = Dispatched nonce u"
    and "list_all (\<lambda>x. length (mm_nonce x) = length nonce) members"
  shows "snd (handlerFor penv parse_path m url members) =
     map (\<lambda>x. if mm_nonce x = nonce then x else x\<lparr>mm_foreign := mm_foreign x + 1\<rparr>) members"
proof -
  let ?path = "withoutFrontPath penv parse_path WEBHOOK_FRONT_ENV (case url of None \<Rightarrow> ''/'' | Some u \<Rightarrow> u)"
  have r: "route_url m WEBHOOK_FRONT_ENV ?path = Dispatched nonce u"
    using assms(1) by (simp add: handlerFor_def routeFronted_def Let_def)
  then have fx: "starts_with FRONT_MUX_PREFIX ?path" by (auto simp: route_url_def split: if_splits)
  then obtain rest where rest: "?path = FRONT_MUX_PREFIX @ rest" using starts_with_iff by blast
  with r have nonce: "nonce = takeWhile (\<lambda>c. c \<noteq> CHR ''/'' \<and> c \<noteq> CHR ''?'') rest"
    by (simp add: route_url_def starts_with_append Let_def split: if_splits)
  then obtain t where t: "rest = nonce @ t" using takeWhile_dropWhile_id by metis
  have "starts_with (FRONT_MUX_PREFIX @ mm_nonce x) ?path \<longleftrightarrow> mm_nonce x = nonce" if "x \<in> set members" for x
    using assms(2) that by (auto simp: rest t starts_with_iff list_all_iff)
  then show ?thesis by (auto simp: handlerFor_def count_foreign_def Let_def)
qed

theorem dispatched_is_foreign_to_others_witness:
  "snd (handlerFor (\<lambda>_. None) (\<lambda>_. None) [(WEBHOOK_FRONT_ENV, ''ab'')] (Some ''/fx/ab/x'')
     [\<lparr>mm_nonce = ''ab'', mm_foreign = 0\<rparr>, \<lparr>mm_nonce = ''cd'', mm_foreign = 0\<rparr>]) =
   [\<lparr>mm_nonce = ''ab'', mm_foreign = 0\<rparr>, \<lparr>mm_nonce = ''cd'', mm_foreign = 1\<rparr>]"
  using dispatched_is_foreign_to_others [of "\<lambda>_. None" "\<lambda>_. None" "[(WEBHOOK_FRONT_ENV, ''ab'')]" "Some ''/fx/ab/x''"
      "[\<lparr>mm_nonce = ''ab'', mm_foreign = 0\<rparr>, \<lparr>mm_nonce = ''cd'', mm_foreign = 0\<rparr>]" "''ab''" "''/x''"]
  by (simp add: handlerFor_def routeFronted_def route_url_def withoutFrontPath_def frontPath_def withoutPath_def trimmed_def
      FRONT_MUX_PREFIX_def starts_with_def Let_def)

end
