(* ===== verification/OAuth_Double.thy ===== *)
theory OAuth_Double
  imports Webhook_Modal
begin

text \<open>
  The suite's OAuth authorization server (\<open>oauth-as-double.ts\<close>): metadata, the authorization endpoint and the
  token endpoint as one request handler on the state the closure keeps, and the runs of the server as a step
  relation over requests and the switches a scenario sets. Random tokens are arguments of a request, fresh in
  a run; SHA-256 in base64url (\<open>s256\<close>), the URL and form parsers and \<open>JSON.parse\<close> are parameters.
\<close>

section \<open>State\<close>

type_synonym as_params = "(string \<times> string) list"

record code_record =
  cr_clientId :: string
  cr_redirectUri :: string
  cr_challenge :: "string option"
  cr_method :: "string option"
  cr_resource :: "string option"
  cr_used :: bool
  cr_scope :: string

record token_request =
  tk_grantType :: string
  tk_params :: as_params
  tk_at :: int
  tk_status :: nat
  tk_refused :: "string option"

record authorize_request =
  az_params :: as_params
  az_at :: int

record as_state =
  as_issuer :: string
  as_codes :: "(string \<times> code_record) list"
  as_refresh :: "string list"
  as_tokenRequests :: "token_request list"
  as_authorizeRequests :: "authorize_request list"
  as_metadataHits :: "string list"
  as_issParameterSupported :: bool
  as_codeChallengeMethods :: "string list option"
  as_metadataOverride :: jobject
  as_refreshRevoked :: bool

definition as_start :: "string \<Rightarrow> as_state" where
  "as_start issuer =
     \<lparr>as_issuer = issuer, as_codes = [], as_refresh = [], as_tokenRequests = [], as_authorizeRequests = [], as_metadataHits = [],
      as_issParameterSupported = True, as_codeChallengeMethods = Some [''S256''], as_metadataOverride = [], as_refreshRevoked = False\<rparr>"

section \<open>Requests\<close>

record as_request =
  ar_method :: string
  ar_path :: string
  ar_query :: as_params
  ar_body :: string
  ar_contentType :: "string option"
  ar_at :: int
  ar_code :: string
  ar_refresh :: string
  ar_access :: string

record as_parsers =
  ap_json :: "string \<Rightarrow> json option"
  ap_form :: "string \<Rightarrow> as_params"
  ap_url :: "string \<Rightarrow> bool"
  ap_s256 :: "string \<Rightarrow> string"

text \<open>A 302 names the redirect URI and the query members set on it; a thrown error answers nothing.\<close>

datatype as_response =
    As_json nat json
  | As_redirect string as_params
  | As_throws

text \<open>\<open>Object.fromEntries\<close>: the last of several values is read.\<close>

definition param :: "as_params \<Rightarrow> string \<Rightarrow> string option" where
  "param ps k = map_of (rev ps) k"

definition param_or_empty :: "as_params \<Rightarrow> string \<Rightarrow> string" where
  "param_or_empty ps k = (case param ps k of None \<Rightarrow> [] | Some v \<Rightarrow> v)"

definition indexed :: "'a list \<Rightarrow> (string \<times> 'a) list" where
  "indexed xs = map (\<lambda>i. (nat_digits i, xs ! i)) [0..<length xs]"

text \<open>\<open>Object.entries\<close> of a parsed body; of \<open>null\<close> it throws, which is caught.\<close>

definition json_entries :: "json \<Rightarrow> as_params" where
  "json_entries v =
     (case v of
        JObj es \<Rightarrow> map (\<lambda>(k, w). (k, js_string w)) es
      | JArr xs \<Rightarrow> map (\<lambda>(k, w). (k, js_string w)) (indexed xs)
      | JStr s \<Rightarrow> map (\<lambda>(k, c). (k, [c])) (indexed s)
      | _ \<Rightarrow> [])"

definition formOf :: "as_parsers \<Rightarrow> string \<Rightarrow> string option \<Rightarrow> as_params" where
  "formOf ap body contentType =
     (if (case contentType of None \<Rightarrow> False | Some t \<Rightarrow> has_sub ''json'' (map ascii_lower t))
      then (case ap_json ap body of None \<Rightarrow> [] | Some v \<Rightarrow> json_entries v)
      else ap_form ap body)"

section \<open>The handler\<close>

definition as_metadata :: "as_state \<Rightarrow> json" where
  "as_metadata s =
     JObj (AList.updates (map fst (as_metadataOverride s)) (map snd (as_metadataOverride s))
       ([(''issuer'', JStr (as_issuer s)),
         (''authorization_endpoint'', JStr (as_issuer s @ ''/authorize'')),
         (''token_endpoint'', JStr (as_issuer s @ ''/token'')),
         (''response_types_supported'', JArr [JStr ''code'']),
         (''grant_types_supported'', JArr [JStr ''authorization_code'', JStr ''refresh_token'']),
         (''authorization_response_iss_parameter_supported'', JBool (as_issParameterSupported s))] @
        (case as_codeChallengeMethods s of None \<Rightarrow> []
         | Some ms \<Rightarrow> [(''code_challenge_methods_supported'', JArr (map JStr ms))])))"

definition oauth_error :: "string \<Rightarrow> as_response" where
  "oauth_error e = As_json 400 (JObj [(''error'', JStr e)])"

definition new_code :: "as_params \<Rightarrow> string \<Rightarrow> code_record" where
  "new_code ps redirectUri =
     \<lparr>cr_clientId = param_or_empty ps ''client_id'', cr_redirectUri = redirectUri, cr_challenge = param ps ''code_challenge'',
      cr_method = param ps ''code_challenge_method'', cr_resource = param ps ''resource'', cr_used = False,
      cr_scope = param_or_empty ps ''scope''\<rparr>"

definition authorize :: "as_parsers \<Rightarrow> as_request \<Rightarrow> as_state \<Rightarrow> as_response \<times> as_state" where
  "authorize ap r s =
     (let ps = ar_query r;
          s1 = s\<lparr>as_authorizeRequests := as_authorizeRequests s @ [\<lparr>az_params = ps, az_at = ar_at r\<rparr>]\<rparr>
      in case param ps ''redirect_uri'' of
           None \<Rightarrow> (oauth_error ''invalid_request'', s1)
         | Some redirectUri \<Rightarrow>
             if param ps ''response_type'' \<noteq> Some ''code'' then (oauth_error ''invalid_request'', s1)
             else let s2 = s1\<lparr>as_codes := AList.update (ar_code r) (new_code ps redirectUri) (as_codes s1)\<rparr>
                  in if \<not> ap_url ap redirectUri then (As_throws, s2)
                     else (As_redirect redirectUri
                             ([(''code'', ar_code r)] @
                              (case param ps ''state'' of None \<Rightarrow> [] | Some st \<Rightarrow> [(''state'', st)]) @
                              [(''iss'', as_issuer s)]), s2))"

definition record_token :: "as_request \<Rightarrow> as_params \<Rightarrow> nat \<Rightarrow> string option \<Rightarrow> as_state \<Rightarrow> as_state" where
  "record_token r ps status refused s =
     s\<lparr>as_tokenRequests := as_tokenRequests s @
        [\<lparr>tk_grantType = param_or_empty ps ''grant_type'', tk_params = ps, tk_at = ar_at r, tk_status = status, tk_refused = refused\<rparr>]\<rparr>"

definition verifier_ok :: "as_parsers \<Rightarrow> code_record \<Rightarrow> as_params \<Rightarrow> bool" where
  "verifier_ok ap c ps =
     (case cr_challenge c of
        None \<Rightarrow> True
      | Some ch \<Rightarrow>
          (let verifier = param_or_empty ps ''code_verifier''
           in if cr_method c = Some ''S256'' then ap_s256 ap verifier = ch else verifier = ch))"

definition token_answer :: "as_request \<Rightarrow> jobject \<Rightarrow> as_response" where
  "token_answer r extra =
     As_json 200 (JObj ([(''access_token'', JStr (ar_access r)), (''token_type'', JStr ''Bearer''), (''expires_in'', JNum 3600)] @ extra))"

definition exchange_code :: "as_parsers \<Rightarrow> as_request \<Rightarrow> as_params \<Rightarrow> as_state \<Rightarrow> as_response \<times> as_state" where
  "exchange_code ap r ps s =
     (let code = param_or_empty ps ''code''
      in case map_of (as_codes s) code of
           None \<Rightarrow> (oauth_error ''invalid_grant'', record_token r ps 400 (Some ''unknown or used code'') s)
         | Some c \<Rightarrow>
             if cr_used c then (oauth_error ''invalid_grant'', record_token r ps 400 (Some ''unknown or used code'') s)
             else let s1 = s\<lparr>as_codes := AList.update code (c\<lparr>cr_used := True\<rparr>) (as_codes s)\<rparr>
                  in if param ps ''redirect_uri'' \<noteq> Some (cr_redirectUri c)
                     then (oauth_error ''invalid_grant'', record_token r ps 400 (Some ''redirect_uri mismatch'') s1)
                     else if \<not> verifier_ok ap c ps
                     then (oauth_error ''invalid_grant'', record_token r ps 400 (Some ''PKCE verifier does not match'') s1)
                     else (token_answer r [(''refresh_token'', JStr (ar_refresh r)), (''scope'', JStr (cr_scope c))],
                           record_token r ps 200 None (s1\<lparr>as_refresh := List.insert (ar_refresh r) (as_refresh s1)\<rparr>)))"

definition token_endpoint :: "as_parsers \<Rightarrow> as_request \<Rightarrow> as_state \<Rightarrow> as_response \<times> as_state" where
  "token_endpoint ap r s =
     (let ps = formOf ap (ar_body r) (ar_contentType r);
          grantType = param_or_empty ps ''grant_type''
      in if grantType = ''authorization_code'' then exchange_code ap r ps s
         else if grantType = ''refresh_token'' then
           (if as_refreshRevoked s \<or> param_or_empty ps ''refresh_token'' \<notin> set (as_refresh s)
            then (oauth_error ''invalid_grant'', record_token r ps 400 (Some ''refresh token revoked'') s)
            else (token_answer r [], record_token r ps 200 None s))
         else (oauth_error ''unsupported_grant_type'', record_token r ps 400 (Some ''unsupported grant'') s))"

definition is_token_request :: "as_request \<Rightarrow> bool" where
  "is_token_request r = (ar_method r = ''POST'' \<and> ar_path r = ''/token'')"

definition as_handle :: "as_parsers \<Rightarrow> as_request \<Rightarrow> as_state \<Rightarrow> as_response \<times> as_state" where
  "as_handle ap r s =
     (if ar_method r = ''GET'' \<and> starts_with ''/.well-known/oauth-authorization-server'' (ar_path r)
      then (As_json 200 (as_metadata s), s\<lparr>as_metadataHits := as_metadataHits s @ [ar_path r]\<rparr>)
      else if ar_method r = ''GET'' \<and> ar_path r = ''/authorize'' then authorize ap r s
      else if is_token_request r then token_endpoint ap r s
      else (As_json 404 (JObj [(''error'', JStr ''not_found'')]), s))"

definition codeExchanges :: "as_state \<Rightarrow> token_request list" where
  "codeExchanges s = filter (\<lambda>t. tk_grantType t = ''authorization_code'') (as_tokenRequests s)"

section \<open>Runs\<close>

text \<open>A request with fresh tokens, or a scenario turning a switch.\<close>

inductive as_step :: "as_parsers \<Rightarrow> as_state \<Rightarrow> as_state \<Rightarrow> bool" for ap where
  request: "ar_code r \<notin> fst ` set (as_codes s) \<Longrightarrow> ar_refresh r \<notin> set (as_refresh s) \<Longrightarrow> as_step ap s (snd (as_handle ap r s))"
| switch: "as_step ap s (s\<lparr>as_issParameterSupported := a, as_codeChallengeMethods := m, as_metadataOverride := ov, as_refreshRevoked := v\<rparr>)"

inductive as_reachable :: "as_parsers \<Rightarrow> string \<Rightarrow> as_state \<Rightarrow> bool" for ap issuer where
  start: "as_reachable ap issuer (as_start issuer)"
| step: "as_reachable ap issuer s \<Longrightarrow> as_step ap s s' \<Longrightarrow> as_reachable ap issuer s'"

section \<open>A code is exchanged at most once\<close>

definition exchanged :: "string \<Rightarrow> token_request \<Rightarrow> bool" where
  "exchanged code t = (tk_grantType t = ''authorization_code'' \<and> tk_status t = 200 \<and> param_or_empty (tk_params t) ''code'' = code)"

definition redeemed :: "string \<Rightarrow> as_state \<Rightarrow> nat" where
  "redeemed code s = length (filter (exchanged code) (as_tokenRequests s))"

text \<open>Only used codes were redeemed, and once.\<close>

definition single_use :: "as_state \<Rightarrow> bool" where
  "single_use s =
     (\<forall>code. redeemed code s \<le> (case map_of (as_codes s) code of None \<Rightarrow> 0 | Some c \<Rightarrow> if cr_used c then 1 else 0))"

lemma redeemed_record:
  "redeemed code (record_token r ps status refused s) =
     redeemed code s + (if param_or_empty ps ''grant_type'' = ''authorization_code'' \<and> status = 200 \<and> param_or_empty ps ''code'' = code then 1 else 0)"
  by (simp add: redeemed_def record_token_def exchanged_def)

lemma record_codes [simp]: "as_codes (record_token r ps status refused s) = as_codes s"
  by (simp add: record_token_def)

lemma redeemed_codes [simp]:
  "redeemed code (s\<lparr>as_codes := cs\<rparr>) = redeemed code s" "redeemed code (s\<lparr>as_refresh := rs\<rparr>) = redeemed code s"
  "redeemed code (s\<lparr>as_authorizeRequests := zs\<rparr>) = redeemed code s" "redeemed code (s\<lparr>as_metadataHits := ms\<rparr>) = redeemed code s"
  by (simp_all add: redeemed_def)

lemma single_useI:
  "(\<And>code. redeemed code s \<le> (case map_of (as_codes s) code of None \<Rightarrow> 0 | Some c \<Rightarrow> if cr_used c then 1 else 0)) \<Longrightarrow> single_use s"
  by (simp add: single_use_def)

lemma single_useD:
  "single_use s \<Longrightarrow> redeemed code s \<le> (case map_of (as_codes s) code of None \<Rightarrow> 0 | Some c \<Rightarrow> if cr_used c then 1 else 0)"
  by (simp add: single_use_def)

lemma exchange_single_use:
  assumes "single_use s" and "param_or_empty ps ''grant_type'' = ''authorization_code''"
  shows "single_use (snd (exchange_code ap r ps s))"
proof (rule single_useI)
  fix code
  let ?c = "param_or_empty ps ''code''"
  note old = single_useD [OF assms(1), of code] and own = single_useD [OF assms(1), of ?c]
  show "redeemed code (snd (exchange_code ap r ps s)) \<le>
      (case map_of (as_codes (snd (exchange_code ap r ps s))) code of None \<Rightarrow> 0 | Some c \<Rightarrow> if cr_used c then 1 else 0)"
    using old own assms(2)
    by (cases "code = ?c") (auto simp: exchange_code_def Let_def redeemed_record split: option.splits if_splits)
qed

lemma authorize_single_use:
  assumes "single_use s" and "ar_code r \<notin> fst ` set (as_codes s)"
  shows "single_use (snd (authorize ap r s))"
proof (rule single_useI)
  fix code
  have "map_of (as_codes s) (ar_code r) = None" using assms(2) by (simp add: map_of_eq_None_iff)
  then have "redeemed (ar_code r) s = 0" using single_useD [OF assms(1), of "ar_code r"] by simp
  then show "redeemed code (snd (authorize ap r s)) \<le>
      (case map_of (as_codes (snd (authorize ap r s))) code of None \<Rightarrow> 0 | Some c \<Rightarrow> if cr_used c then 1 else 0)"
    using single_useD [OF assms(1), of code] by (auto simp: authorize_def new_code_def Let_def split: option.splits if_splits)
qed

lemma handle_single_use:
  assumes "single_use s" and "ar_code r \<notin> fst ` set (as_codes s)"
  shows "single_use (snd (as_handle ap r s))"
proof -
  have "single_use (snd (token_endpoint ap r s))"
  proof (cases "param_or_empty (formOf ap (ar_body r) (ar_contentType r)) ''grant_type'' = ''authorization_code''")
    case True
    then show ?thesis using exchange_single_use [OF assms(1)] by (simp add: token_endpoint_def Let_def)
  next
    case False
    then show ?thesis using single_useD [OF assms(1)]
      by (intro single_useI) (auto simp: token_endpoint_def Let_def redeemed_record)
  qed
  moreover have "single_use (s\<lparr>as_metadataHits := as_metadataHits s @ [ar_path r]\<rparr>)"
    using single_useD [OF assms(1)] by (intro single_useI) simp
  ultimately show ?thesis using assms authorize_single_use [OF assms] by (simp add: as_handle_def)
qed

lemma reachable_single_use: "as_reachable ap issuer s \<Longrightarrow> single_use s"
proof (induction rule: as_reachable.induct)
  case start
  show ?case by (simp add: single_use_def as_start_def redeemed_def)
next
  case (step s s')
  from step(2,3) show ?case
  proof (induction rule: as_step.induct)
    case (request r s)
    then show ?case using handle_single_use by blast
  next
    case (switch s a m ov v)
    then show ?case by (simp add: single_use_def redeemed_def)
  qed
qed

text \<open>
  Claim C14: whatever requests the server gets, in whatever order, an authorization code is exchanged
  successfully at most once.
\<close>

theorem code_redeemed_once:
  assumes "as_reachable ap issuer s"
  shows "length (filter (exchanged code) (as_tokenRequests s)) \<le> 1"
proof -
  have "redeemed code s \<le> 1"
    using single_useD [OF reachable_single_use [OF assms], of code] by (auto split: option.splits if_splits)
  then show ?thesis by (simp add: redeemed_def)
qed

section \<open>A success is justified\<close>

definition justified :: "as_parsers \<Rightarrow> as_state \<Rightarrow> token_request \<Rightarrow> bool" where
  "justified ap s t =
     (tk_status t \<noteq> 200 \<or>
      (if tk_grantType t = ''authorization_code''
       then (case map_of (as_codes s) (param_or_empty (tk_params t) ''code'') of
               None \<Rightarrow> False
             | Some c \<Rightarrow> cr_used c \<and> param (tk_params t) ''redirect_uri'' = Some (cr_redirectUri c) \<and> verifier_ok ap c (tk_params t))
       else tk_grantType t = ''refresh_token'' \<and> param_or_empty (tk_params t) ''refresh_token'' \<in> set (as_refresh s)))"

text \<open>Codes keep what they were issued for; refresh tokens are kept.\<close>

definition grows :: "as_state \<Rightarrow> as_state \<Rightarrow> bool" where
  "grows s s' =
     (set (as_refresh s) \<subseteq> set (as_refresh s') \<and>
      (\<forall>code c. map_of (as_codes s) code = Some c \<and> cr_used c \<longrightarrow> map_of (as_codes s') code = Some c))"

lemma justified_grows: "grows s s' \<Longrightarrow> justified ap s t \<Longrightarrow> justified ap s' t"
  by (auto simp: justified_def grows_def split: option.splits if_splits)

lemma verifier_used [simp]: "verifier_ok ap (c\<lparr>cr_used := u\<rparr>) ps = verifier_ok ap c ps"
  by (simp add: verifier_ok_def Let_def split: option.splits)

lemma token_grows: "grows s (snd (token_endpoint ap r s))"
  by (auto simp: grows_def token_endpoint_def exchange_code_def record_token_def Let_def split: option.splits)

lemma handle_grows:
  assumes "ar_code r \<notin> fst ` set (as_codes s)"
  shows "grows s (snd (as_handle ap r s))"
proof -
  have none: "map_of (as_codes s) (ar_code r) = None" using assms by (simp add: map_of_eq_None_iff)
  have "grows s (snd (authorize ap r s))"
    using none by (auto simp: grows_def authorize_def Let_def split: option.splits)
  then show ?thesis using token_grows by (simp add: as_handle_def grows_def)
qed

text \<open>A token request adds the one entry it is recorded as; every other request adds none.\<close>

lemma exchange_recorded:
  assumes "param_or_empty ps ''grant_type'' = ''authorization_code''"
  shows "\<exists>t. as_tokenRequests (snd (exchange_code ap r ps s)) = as_tokenRequests s @ [t] \<and> justified ap (snd (exchange_code ap r ps s)) t"
proof (cases "map_of (as_codes s) (param_or_empty ps ''code'')")
  case None
  then show ?thesis by (simp add: exchange_code_def record_token_def justified_def Let_def)
next
  case (Some c)
  then show ?thesis using assms by (simp add: exchange_code_def record_token_def justified_def Let_def)
qed

lemma token_recorded:
  "\<exists>t. as_tokenRequests (snd (token_endpoint ap r s)) = as_tokenRequests s @ [t] \<and> justified ap (snd (token_endpoint ap r s)) t"
proof (cases "param_or_empty (formOf ap (ar_body r) (ar_contentType r)) ''grant_type'' = ''authorization_code''")
  case True
  then show ?thesis using exchange_recorded [OF True] by (simp add: token_endpoint_def Let_def)
next
  case False
  then show ?thesis by (simp add: token_endpoint_def record_token_def justified_def Let_def)
qed

lemma handle_recorded:
  "\<exists>ts. as_tokenRequests (snd (as_handle ap r s)) = as_tokenRequests s @ ts \<and> list_all (justified ap (snd (as_handle ap r s))) ts \<and>
     length ts = (if is_token_request r then 1 else 0)"
proof (cases "is_token_request r")
  case True
  then have "as_handle ap r s = token_endpoint ap r s" by (simp add: as_handle_def is_token_request_def)
  with True show ?thesis using token_recorded [of ap r s] by (auto intro: exI [of _ "[t]" for t])
next
  case False
  then show ?thesis by (auto simp: as_handle_def authorize_def Let_def split: option.splits)
qed

lemma handle_justified:
  assumes "list_all (justified ap s) (as_tokenRequests s)" and "ar_code r \<notin> fst ` set (as_codes s)"
  shows "list_all (justified ap (snd (as_handle ap r s))) (as_tokenRequests (snd (as_handle ap r s)))"
  using handle_recorded [of ap r s] handle_grows [OF assms(2), of ap] assms(1) justified_grows
  by (auto simp: list_all_iff)

lemma justified_switch:
  "justified ap (s\<lparr>as_issParameterSupported := a, as_codeChallengeMethods := m, as_metadataOverride := ov, as_refreshRevoked := v\<rparr>) t =
     justified ap s t"
  by (simp add: justified_def)

lemma reachable_justified: "as_reachable ap issuer s \<Longrightarrow> list_all (justified ap s) (as_tokenRequests s)"
proof (induction rule: as_reachable.induct)
  case start
  show ?case by (simp add: as_start_def)
next
  case (step s s')
  from step(2,3) show ?case
  proof (induction rule: as_step.induct)
    case (request r s)
    then show ?case using handle_justified by blast
  next
    case (switch s a m ov v)
    then show ?case by (simp add: justified_switch list_all_iff)
  qed
qed

text \<open>
  Every token request the server answered successfully is justified: a code exchange named an
  issued code, with the redirect URI it was issued for and a verifier that matches its challenge, and a
  refresh named a token the server issued.
\<close>

theorem successes_justified:
  assumes "as_reachable ap issuer s"
  shows "list_all (justified ap s) (as_tokenRequests s)"
  using reachable_justified [OF assms] .

text \<open>
  The counter the suite reads is exact: after any requests it holds one entry for each POST to the
  token endpoint and none for anything else.
\<close>

theorem token_requests_counted:
  "length (as_tokenRequests (fold (\<lambda>r s. snd (as_handle ap r s)) rs s)) = length (as_tokenRequests s) + length (filter is_token_request rs)"
proof (induction rs arbitrary: s)
  case (Cons r rs)
  obtain ts where "as_tokenRequests (snd (as_handle ap r s)) = as_tokenRequests s @ ts" "length ts = (if is_token_request r then 1 else 0)"
    using handle_recorded [of ap r s] by blast
  with Cons show ?case by simp
qed simp

section \<open>An attempt uses the code up\<close>

lemma exchange_uses:
  assumes "map_of (as_codes s) (param_or_empty ps ''code'') = Some c"
  shows "\<exists>c'. map_of (as_codes (snd (exchange_code ap r ps s))) (param_or_empty ps ''code'') = Some c' \<and> cr_used c'"
  using assms by (auto simp: exchange_code_def Let_def)

text \<open>
  Any attempt to exchange an issued code, successful or refused for its redirect URI or verifier,
  uses the code up: the next attempt is refused and answers no token.
\<close>

theorem attempt_burns_code:
  assumes "map_of (as_codes s) (param_or_empty ps ''code'') = Some c" and "param_or_empty ps' ''code'' = param_or_empty ps ''code''"
  shows "fst (exchange_code ap r' ps' (snd (exchange_code ap r ps s))) = oauth_error ''invalid_grant''"
  using exchange_uses [OF assms(1), of ap r] assms(2)
  by (auto simp: exchange_code_def [of ap r' ps'] Let_def)

section \<open>Sample runs\<close>

definition sample_parsers :: as_parsers where
  "sample_parsers = \<lparr>ap_json = (\<lambda>_. None), ap_form = (\<lambda>b. [(''grant_type'', ''authorization_code''), (''code'', ''code-1''), (''redirect_uri'', b)]),
     ap_url = (\<lambda>u. u = ''https://h/cb''), ap_s256 = rev\<rparr>"

definition sample_as_request :: "string \<Rightarrow> string \<Rightarrow> as_params \<Rightarrow> string \<Rightarrow> string \<Rightarrow> as_request" where
  "sample_as_request method path query body code =
     \<lparr>ar_method = method, ar_path = path, ar_query = query, ar_body = body, ar_contentType = None, ar_at = 0,
      ar_code = code, ar_refresh = ''rt-1'', ar_access = ''at-1''\<rparr>"

definition authorized :: as_state where
  "authorized = snd (as_handle sample_parsers
     (sample_as_request ''GET'' ''/authorize'' [(''response_type'', ''code''), (''redirect_uri'', ''https://h/cb'')] [] ''code-1'') (as_start ''https://as''))"

lemmas as_evaluation =
  sample_parsers_def sample_as_request_def as_handle_def is_token_request_def authorize_def token_endpoint_def exchange_code_def record_token_def
  formOf_def param_def param_or_empty_def new_code_def verifier_ok_def as_start_def authorized_def starts_with_def

lemma authorized_code: "map_of (as_codes authorized) ''code-1'' \<noteq> None"
  by (simp add: as_evaluation Let_def)

lemma authorized_reachable: "as_reachable sample_parsers ''https://as'' authorized"
  unfolding authorized_def
  by (rule as_reachable.step [OF as_reachable.start as_step.request]) (simp_all add: as_start_def)

definition redeemed_once :: as_state where
  "redeemed_once = snd (as_handle sample_parsers (sample_as_request ''POST'' ''/token'' [] ''https://h/cb'' ''code-2'') authorized)"

lemma redeemed_once_reachable: "as_reachable sample_parsers ''https://as'' redeemed_once"
  unfolding redeemed_once_def
  by (rule as_reachable.step [OF authorized_reachable as_step.request]) (simp_all add: as_evaluation Let_def)

lemma redeemed_once_requests: "map tk_status (as_tokenRequests redeemed_once) = [200]"
  by (simp add: redeemed_once_def as_evaluation Let_def)

theorem code_redeemed_once_witness:
  "length (filter (exchanged ''code-1'') (as_tokenRequests redeemed_once)) \<le> 1 \<and> map tk_status (as_tokenRequests redeemed_once) = [200]"
  using code_redeemed_once [OF redeemed_once_reachable, of "''code-1''"] redeemed_once_requests by simp

theorem successes_justified_witness:
  "list_all (justified sample_parsers redeemed_once) (as_tokenRequests redeemed_once) \<and>
   map tk_status (as_tokenRequests redeemed_once) = [200]"
  using successes_justified [OF redeemed_once_reachable] redeemed_once_requests by simp

theorem attempt_burns_code_witness:
  "fst (exchange_code sample_parsers (sample_as_request ''POST'' ''/token'' [] [] ''code-2'') [(''code'', ''code-1''), (''redirect_uri'', ''https://h/cb'')]
     (snd (exchange_code sample_parsers (sample_as_request ''POST'' ''/token'' [] [] ''code-2'') [(''code'', ''code-1'')] authorized))) =
   oauth_error ''invalid_grant''"
proof -
  obtain c where "map_of (as_codes authorized) ''code-1'' = Some c" using authorized_code by auto
  then show ?thesis by (intro attempt_burns_code) (simp_all add: param_or_empty_def param_def)
qed

lemma token_answers: "fst (token_endpoint ap r s) \<noteq> As_throws"
  by (simp add: token_endpoint_def exchange_code_def oauth_error_def token_answer_def Let_def split: option.splits)

text \<open>
  The handler fails to answer exactly for an authorization request whose redirect URI is not an
  absolute URL, and it has issued the code by then.
\<close>

theorem unparsed_redirect_unanswered:
  "fst (as_handle ap r s) = As_throws \<longleftrightarrow>
     ar_method r = ''GET'' \<and> ar_path r = ''/authorize'' \<and> param (ar_query r) ''response_type'' = Some ''code'' \<and>
     (case param (ar_query r) ''redirect_uri'' of
        None \<Rightarrow> False
      | Some u \<Rightarrow> \<not> ap_url ap u \<and> map_of (as_codes (snd (as_handle ap r s))) (ar_code r) = Some (new_code (ar_query r) u))"
proof (cases "ar_method r = ''GET'' \<and> ar_path r = ''/authorize''")
  case True
  then have "as_handle ap r s = authorize ap r s" by (simp add: as_handle_def starts_with_def)
  with True show ?thesis by (auto simp: authorize_def oauth_error_def Let_def split: option.splits)
next
  case False
  then show ?thesis using token_answers [of ap r s] by (auto simp: as_handle_def)
qed

end
