(* ===== verification/Sse.thy ===== *)
theory Sse
  imports Prelude "HOL-Library.Sublist"
begin

text \<open>
  The event-stream parser of \<open>subscribe\<close> (\<open>sse.ts\<close>): the buffer, the pending event and the events are the
  state, a chunk of decoded text is one step, the end of the stream (closed, timed out or aborted) the last
  one. Requests, timers and the UTF-8 decoder are outside; a chunk is the text the decoder returned.
\<close>

section \<open>The parser\<close>

record sse_event =
  se_event :: string
  se_data :: string
  se_id :: "string option"

record sse_state =
  ss_buffer :: string
  ss_pendingEvent :: string
  ss_pendingData :: "string list"
  ss_pendingId :: "string option"
  ss_events :: "sse_event list"

definition sse_start :: sse_state where
  "sse_start = \<lparr>ss_buffer = [], ss_pendingEvent = ''message'', ss_pendingData = [], ss_pendingId = None, ss_events = []\<rparr>"

abbreviation newline :: char where
  "newline \<equiv> CHR 10"

definition flushEvent :: "sse_state \<Rightarrow> sse_state" where
  "flushEvent st =
     (if ss_pendingData st = [] then st\<lparr>ss_pendingEvent := ''message'', ss_pendingId := None\<rparr>
      else st\<lparr>ss_events := ss_events st @
               [\<lparr>se_event = ss_pendingEvent st, se_data = join [newline] (ss_pendingData st), se_id = ss_pendingId st\<rparr>],
              ss_pendingEvent := ''message'', ss_pendingData := [], ss_pendingId := None\<rparr>)"

text \<open>\<open>replace(/\r$/, '')\<close>.\<close>

definition drop_cr :: "string \<Rightarrow> string" where
  "drop_cr s = (if s \<noteq> [] \<and> last s = CHR 13 then butlast s else s)"

definition sse_line :: "string \<Rightarrow> sse_state \<Rightarrow> sse_state" where
  "sse_line line st =
     (let rawLine = drop_cr line in
      if rawLine = [] then flushEvent st
      else if starts_with '':'' rawLine then st
      else let colon = index_of '':'' rawLine;
               field = (case colon of None \<Rightarrow> rawLine | Some i \<Rightarrow> take i rawLine);
               valueRaw = (case colon of None \<Rightarrow> [] | Some i \<Rightarrow> drop (i + 1) rawLine);
               fieldValue = (if starts_with '' '' valueRaw then tl valueRaw else valueRaw)
           in if field = ''event'' then st\<lparr>ss_pendingEvent := fieldValue\<rparr>
              else if field = ''data'' then st\<lparr>ss_pendingData := ss_pendingData st @ [fieldValue]\<rparr>
              else if field = ''id'' then st\<lparr>ss_pendingId := Some fieldValue\<rparr>
              else st)"

lemma sse_line_buffer [simp]: "ss_buffer (sse_line l st) = ss_buffer st"
  by (simp add: sse_line_def flushEvent_def Let_def)

lemma index_less: "index_of [c] s = Some i \<Longrightarrow> i < length s"
proof -
  assume "index_of [c] s = Some i"
  then have "starts_with [c] (drop i s)" using index_of_Some by blast
  then have "drop i s \<noteq> []" by (auto simp: starts_with_def)
  then show ?thesis by simp
qed

text \<open>The loop over the complete lines of the buffer.\<close>

function drain :: "sse_state \<Rightarrow> sse_state" where
  "drain st =
     (case index_of [newline] (ss_buffer st) of
        None \<Rightarrow> st
      | Some i \<Rightarrow> drain (sse_line (take i (ss_buffer st)) (st\<lparr>ss_buffer := drop (i + 1) (ss_buffer st)\<rparr>)))"
  by pat_completeness auto

termination
  by (relation "measure (\<lambda>st. length (ss_buffer st))") (auto dest: index_less)

declare drain.simps [simp del]

definition sse_feed :: "sse_state \<Rightarrow> string \<Rightarrow> sse_state" where
  "sse_feed st chunk = drain (st\<lparr>ss_buffer := ss_buffer st @ chunk\<rparr>)"

definition sse_parse :: "string list \<Rightarrow> sse_event list" where
  "sse_parse chunks = ss_events (flushEvent (foldl sse_feed sse_start chunks))"

section \<open>Lines\<close>

lemma index_of_char: "index_of [d] s = (if d \<in> set s then Some (length (takeWhile (\<lambda>c. c \<noteq> d) s)) else None)"
  by (induction s) (auto simp: starts_with_def)

lemma split_first: "d \<in> set s \<Longrightarrow>
   split_char d s = takeWhile (\<lambda>c. c \<noteq> d) s # split_char d (drop (length (takeWhile (\<lambda>c. c \<noteq> d) s) + 1) s)"
proof -
  assume "d \<in> set s"
  then obtain a b where s: "s = a @ d # b" "d \<notin> set a" by (meson split_list_first)
  then have t: "takeWhile (\<lambda>c. c \<noteq> d) s = a" by (simp add: takeWhile_first)
  show ?thesis unfolding t using s by (simp add: split_char_append split_char_single)
qed

lemma sse_line_set_buffer: "sse_line l (st\<lparr>ss_buffer := b\<rparr>) = (sse_line l st)\<lparr>ss_buffer := b\<rparr>"
  by (simp add: sse_line_def flushEvent_def Let_def)

lemma drain_lines:
  "drain st = fold sse_line (butlast (split_char newline (ss_buffer st))) (st\<lparr>ss_buffer := last (split_char newline (ss_buffer st))\<rparr>)"
proof (induction st rule: drain.induct)
  case (1 st)
  show ?case
  proof (cases "newline \<in> set (ss_buffer st)")
    case False
    then show ?thesis by (subst drain.simps) (simp add: index_of_char split_char_single)
  next
    case True
    let ?i = "length (takeWhile (\<lambda>c. c \<noteq> newline) (ss_buffer st))"
    have i: "index_of [newline] (ss_buffer st) = Some ?i" using True by (simp add: index_of_char)
    have t: "take ?i (ss_buffer st) = takeWhile (\<lambda>c. c \<noteq> newline) (ss_buffer st)" by (rule takeWhile_eq_take [symmetric])
    show ?thesis
      using "1.IH" [OF i] i split_first [OF True]
      by (subst drain.simps) (simp add: t sse_line_set_buffer)
  qed
qed

lemma split_extend:
  "split_char d (s @ t) = butlast (split_char d s) @ split_char d (last (split_char d s) @ t)"
proof (induction s)
  case (Cons c s)
  obtain w ws where w: "split_char d s = w # ws" by (cases "split_char d s") auto
  show ?case
  proof (cases "c = d")
    case False
    show ?thesis
    proof (cases ws)
      case Nil
      with Cons w False show ?thesis by simp
    next
      case (Cons v vs)
      with Cons.IH w False show ?thesis by simp
    qed
  qed (use Cons w in simp)
qed simp

lemma fold_line_buffer: "fold sse_line ls (st\<lparr>ss_buffer := b\<rparr>) = (fold sse_line ls st)\<lparr>ss_buffer := b\<rparr>"
  by (induction ls arbitrary: st) (simp_all add: sse_line_set_buffer)

lemma drain_buffer: "ss_buffer (drain st) = last (split_char newline (ss_buffer st))"
  by (simp add: drain_lines fold_line_buffer)

text \<open>Feeding two chunks is feeding them joined.\<close>

lemma feed_feed: "sse_feed (sse_feed st a) b = sse_feed st (a @ b)"
proof -
  let ?buf = "ss_buffer st @ a"
  have "split_char newline (?buf @ b) = butlast (split_char newline ?buf) @ split_char newline (last (split_char newline ?buf) @ b)"
    by (rule split_extend)
  then show ?thesis
    by (simp add: sse_feed_def drain_lines fold_line_buffer butlast_append)
qed

lemma feed_all: "foldl sse_feed (sse_feed st a) chunks = sse_feed st (a @ concat chunks)"
  by (induction chunks arbitrary: a) (simp_all add: feed_feed)

lemma feed_nothing: "sse_feed sse_start [] = sse_start"
  by (simp add: sse_feed_def drain_lines sse_start_def)

lemma parse_concat: "foldl sse_feed sse_start chunks = sse_feed sse_start (concat chunks)"
  using feed_all [of sse_start "[]" chunks] by (simp add: feed_nothing)

text \<open>
  The events read from a stream do not depend on how its text was cut into chunks, be it inside a
  line, a field or a line ending.
\<close>

theorem chunking_irrelevant: "sse_parse chunks = sse_parse [concat chunks]"
  by (simp add: sse_parse_def parse_concat)

section \<open>Reading an encoded stream\<close>

text \<open>Comment lines, then one event, as a server writes it.\<close>

definition event_lines :: "string list \<times> sse_event \<Rightarrow> string list" where
  "event_lines ce =
     (case ce of (comments, e) \<Rightarrow>
        map (\<lambda>c. CHR '':'' # c) comments @ [''event: '' @ se_event e] @
        map (\<lambda>l. ''data: '' @ l) (split_char newline (se_data e)) @
        (case se_id e of None \<Rightarrow> [] | Some i \<Rightarrow> [''id: '' @ i]) @ [[]])"

definition sse_text :: "(string list \<times> sse_event) list \<Rightarrow> string" where
  "sse_text ces = concat (map (\<lambda>l. l @ [newline]) (concat (map event_lines ces)))"

text \<open>A value that fits on one line.\<close>

definition one_line :: "string \<Rightarrow> bool" where
  "one_line s = (newline \<notin> set s \<and> (s = [] \<or> last s \<noteq> CHR 13))"

definition writable_event :: "string list \<times> sse_event \<Rightarrow> bool" where
  "writable_event ce =
     (list_all one_line (fst ce) \<and> one_line (se_event (snd ce)) \<and> list_all one_line (split_char newline (se_data (snd ce))) \<and>
      (case se_id (snd ce) of None \<Rightarrow> True | Some i \<Rightarrow> one_line i))"

lemma split_lines: "list_all (\<lambda>l. newline \<notin> set l) ls \<Longrightarrow> split_char newline (concat (map (\<lambda>l. l @ [newline]) ls)) = ls @ [[]]"
  by (induction ls) (simp_all add: split_char_append split_char_single)

lemma field_line:
  assumes "one_line v" and "CHR '':'' \<notin> set name" and "name \<noteq> []"
  shows "drop_cr (name @ '': '' @ v) = name @ '': '' @ v" and "index_of '':'' (name @ '': '' @ v) = Some (length name)"
    and "\<not> starts_with '':'' (name @ '': '' @ v)"
  using assms by (auto simp: drop_cr_def one_line_def index_of_char takeWhile_first starts_with_def neq_Nil_conv)

lemma sse_line_fields:
  assumes "one_line v"
  shows "sse_line (''event: '' @ v) st = st\<lparr>ss_pendingEvent := v\<rparr>"
    and "sse_line (''data: '' @ v) st = st\<lparr>ss_pendingData := ss_pendingData st @ [v]\<rparr>"
    and "sse_line (''id: '' @ v) st = st\<lparr>ss_pendingId := Some v\<rparr>"
  using field_line [OF assms, of "''event''"] field_line [OF assms, of "''data''"] field_line [OF assms, of "''id''"]
  by (simp_all add: sse_line_def Let_def starts_with_def)

lemma comment_ignored: "one_line c \<Longrightarrow> sse_line (CHR '':'' # c) st = st"
  by (simp add: sse_line_def drop_cr_def one_line_def starts_with_def Let_def)

lemma fold_comments: "list_all one_line cs \<Longrightarrow> fold sse_line (map (\<lambda>c. CHR '':'' # c) cs) st = st"
  by (induction cs) (simp_all add: comment_ignored)

lemma fold_data:
  "list_all one_line ls \<Longrightarrow> fold sse_line (map (\<lambda>l. ''data: '' @ l) ls) st = st\<lparr>ss_pendingData := ss_pendingData st @ ls\<rparr>"
proof (induction ls arbitrary: st)
  case (Cons l ls)
  then have "sse_line (''data: '' @ l) st = st\<lparr>ss_pendingData := ss_pendingData st @ [l]\<rparr>" using sse_line_fields(2) by simp
  with Cons show ?case by (simp del: append_Cons)
qed simp

definition idle :: "sse_state \<Rightarrow> bool" where
  "idle st = (ss_pendingEvent st = ''message'' \<and> ss_pendingData st = [] \<and> ss_pendingId st = None)"

lemma fold_event:
  assumes "writable_event ce" and "idle st"
  shows "fold sse_line (event_lines ce) st = st\<lparr>ss_events := ss_events st @ [snd ce]\<rparr>"
proof -
  obtain cs e where ce: "ce = (cs, e)" by (cases ce)
  have w: "list_all one_line cs" "one_line (se_event e)" "list_all one_line (split_char newline (se_data e))"
    "case se_id e of None \<Rightarrow> True | Some i \<Rightarrow> one_line i" using assms(1) by (simp_all add: writable_event_def ce)
  let ?st = "st\<lparr>ss_pendingEvent := se_event e, ss_pendingData := split_char newline (se_data e)\<rparr>"
  have "fold sse_line (map (\<lambda>c. CHR '':'' # c) cs @ [''event: '' @ se_event e] @ map (\<lambda>l. ''data: '' @ l) (split_char newline (se_data e))) st = ?st"
    using assms(2) by (simp add: fold_comments [OF w(1)] sse_line_fields(1) [OF w(2)] fold_data [OF w(3)] idle_def del: append_Cons)
  moreover have "fold sse_line (case se_id e of None \<Rightarrow> [] | Some i \<Rightarrow> [''id: '' @ i]) ?st = ?st\<lparr>ss_pendingId := se_id e\<rparr>"
    using w(4) assms(2) by (cases "se_id e") (simp_all add: idle_def sse_line_fields(3) del: append_Cons)
  moreover have "sse_line [] (?st\<lparr>ss_pendingId := se_id e\<rparr>) = st\<lparr>ss_events := ss_events st @ [e]\<rparr>"
    using assms(2) by (simp add: sse_line_def drop_cr_def flushEvent_def join_split_char idle_def)
  ultimately show ?thesis by (simp add: ce event_lines_def del: append_Cons)
qed

lemma fold_events:
  "list_all writable_event ces \<Longrightarrow> idle st \<Longrightarrow>
   fold sse_line (concat (map event_lines ces)) st = st\<lparr>ss_events := ss_events st @ map snd ces\<rparr>"
proof (induction ces arbitrary: st)
  case (Cons ce ces)
  have "idle (st\<lparr>ss_events := ss_events st @ [snd ce]\<rparr>)" using Cons.prems(2) by (simp add: idle_def)
  with Cons.IH [OF _ this] Cons.prems fold_event [of ce st] show ?case by simp
qed simp

lemma event_lines_single: "writable_event ce \<Longrightarrow> list_all (\<lambda>l. newline \<notin> set l) (event_lines ce)"
  by (auto simp: event_lines_def writable_event_def one_line_def list_all_iff split: option.splits prod.splits)

text \<open>
  A stream written from any events, with comments between them, is read back as those events
  (type, data over several lines and id), however the text is cut into chunks.
\<close>

theorem stream_round_trip:
  assumes "list_all writable_event ces" and "concat chunks = sse_text ces"
  shows "sse_parse chunks = map snd ces"
proof -
  let ?lines = "concat (map event_lines ces)"
  have "list_all (\<lambda>l. newline \<notin> set l) ?lines" using assms(1) event_lines_single by (auto simp: list_all_iff)
  then have "split_char newline (concat chunks) = ?lines @ [[]]" unfolding assms(2) sse_text_def by (rule split_lines)
  then have "sse_feed sse_start (concat chunks) = fold sse_line ?lines sse_start"
    by (simp add: sse_feed_def drain_lines sse_start_def)
  also have "\<dots> = sse_start\<lparr>ss_events := map snd ces\<rparr>"
    using fold_events [OF assms(1), of sse_start] by (simp add: idle_def sse_start_def)
  finally show ?thesis unfolding sse_parse_def parse_concat by (simp only: flushEvent_def) (simp add: sse_start_def)
qed

theorem stream_round_trip_witness:
  "sse_parse [sse_text [([''ka''], \<lparr>se_event = ''done'', se_data = ''a'', se_id = Some ''7''\<rparr>)]] = [\<lparr>se_event = ''done'', se_data = ''a'', se_id = Some ''7''\<rparr>]"
  using stream_round_trip [of "[([''ka''], \<lparr>se_event = ''done'', se_data = ''a'', se_id = Some ''7''\<rparr>)]"
      "[sse_text [([''ka''], \<lparr>se_event = ''done'', se_data = ''a'', se_id = Some ''7''\<rparr>)]]"]
  by (simp add: writable_event_def one_line_def)

section \<open>A stream that is cut\<close>

lemma line_events: "prefix (ss_events st) (ss_events (sse_line l st))"
  by (simp add: sse_line_def flushEvent_def Let_def)

lemma fold_line_events: "prefix (ss_events st) (ss_events (fold sse_line ls st))"
proof (induction ls arbitrary: st)
  case (Cons l ls)
  then show ?case using line_events [of st l] by (auto intro: prefix_order.trans)
qed simp

lemma feed_events: "prefix (ss_events st) (ss_events (sse_feed st c))"
  using fold_line_events [of "st\<lparr>ss_buffer := last (split_char newline (ss_buffer st @ c))\<rparr>"] by (simp add: sse_feed_def drain_lines)

lemma flush_events: "\<exists>es. ss_events (flushEvent st) = ss_events st @ es \<and> length es \<le> 1"
  by (simp add: flushEvent_def)

text \<open>
  When a stream ends early (a timeout, an abort, a dropped connection), what is reported are events
  of the whole stream in order, followed by at most one event that may be incomplete.
\<close>

theorem cut_stream_is_prefix:
  "\<exists>es. sse_parse [a] = ss_events (sse_feed sse_start a) @ es \<and> length es \<le> 1 \<and>
     prefix (ss_events (sse_feed sse_start a)) (sse_parse [a @ b])"
proof -
  obtain es where "ss_events (flushEvent (sse_feed sse_start a)) = ss_events (sse_feed sse_start a) @ es" "length es \<le> 1"
    using flush_events by blast
  moreover have "prefix (ss_events (sse_feed sse_start a)) (ss_events (sse_feed sse_start (a @ b)))"
    using feed_events [of "sse_feed sse_start a" b] by (simp add: feed_feed)
  moreover have "prefix (ss_events (sse_feed sse_start (a @ b))) (sse_parse [a @ b])"
    by (auto simp: sse_parse_def flushEvent_def)
  ultimately show ?thesis by (auto simp: sse_parse_def intro: prefix_order.trans)
qed

text \<open>The extra event is reported as complete: here one of two data lines had arrived, and part of the second.\<close>

lemma cut_event_reported:
  "sse_parse [''data: a'' @ [newline] @ ''da''] = [\<lparr>se_event = ''message'', se_data = ''a'', se_id = None\<rparr>]"
  by (simp add: sse_parse_def sse_feed_def drain_lines sse_start_def sse_line_def drop_cr_def starts_with_def flushEvent_def index_of_char Let_def)

end
