(* ===== verification/Run_List.thy ===== *)
theory Run_List
  imports Json
begin

text \<open>
  The bounded walk over the pages of \<open>GET /runs\<close> (\<open>run-list-walk.ts\<close>). Fetching a page is a function of the
  cursor; a thrown error (a null entry in a page's runs) is None. The loop counter is explicit.
\<close>

section \<open>The walk\<close>

record run_page =
  pg_runs :: "json option"
  pg_nextCursor :: "json option"

record walk_result =
  wr_ids :: "string list"
  wr_pages :: "run_page list"
  wr_foundAll :: bool
  wr_reason :: "string option"

record walk_state =
  wk_ids :: "string list"
  wk_pages :: "run_page list"
  wk_cursor :: "string option"
  wk_tailLeft :: "int option"

text \<open>\<open>r.runId\<close> of an entry: None where \<open>r\<close> is null, which throws.\<close>

definition entry_id :: "json \<Rightarrow> string option option" where
  "entry_id v =
     (case v of
        JNull \<Rightarrow> None
      | JObj es \<Rightarrow> Some (case js_get es ''runId'' of Some (JStr s) \<Rightarrow> Some s | _ \<Rightarrow> None)
      | _ \<Rightarrow> Some None)"

definition page_entries :: "run_page \<Rightarrow> json list" where
  "page_entries p = (case pg_runs p of Some (JArr xs) \<Rightarrow> xs | _ \<Rightarrow> [])"

definition page_ids :: "run_page \<Rightarrow> string list option" where
  "page_ids p =
     (if list_ex (\<lambda>v. entry_id v = None) (page_entries p) then None
      else Some (List.map_filter (\<lambda>v. case entry_id v of None \<Rightarrow> None | Some i \<Rightarrow> i) (page_entries p)))"

definition next_cursor :: "run_page \<Rightarrow> string option" where
  "next_cursor p = (case pg_nextCursor p of Some (JStr c) \<Rightarrow> Some c | _ \<Rightarrow> None)"

definition found_all :: "string list \<Rightarrow> string list \<Rightarrow> bool" where
  "found_all want ids = list_all (\<lambda>w. w \<in> set ids) want"

definition finished :: "string list \<Rightarrow> walk_state \<Rightarrow> string option \<Rightarrow> walk_result" where
  "finished want st reason =
     \<lparr>wr_ids = wk_ids st, wr_pages = wk_pages st, wr_foundAll = found_all want (wk_ids st), wr_reason = reason\<rparr>"

text \<open>The loop: the iterations that are left, their number so far, the state.\<close>

fun walk_from ::
  "(string option \<Rightarrow> string + run_page) \<Rightarrow> string list \<Rightarrow> nat \<Rightarrow> nat \<Rightarrow> nat \<Rightarrow> nat \<Rightarrow> walk_state \<Rightarrow> walk_result option" where
  "walk_from fetch want tailPages maxPages 0 i st = Some (finished want st None)"
| "walk_from fetch want tailPages maxPages (Suc left) i st =
     (if wk_tailLeft st = None \<and> maxPages \<le> i
      then Some \<lparr>wr_ids = wk_ids st, wr_pages = wk_pages st, wr_foundAll = False,
                 wr_reason = Some (''the wanted id(s) did not appear within '' @ nat_digits maxPages @ '' page(s)'')\<rparr>
      else case fetch (wk_cursor st) of
          Inl reason \<Rightarrow> Some (finished want st (Some reason))
        | Inr page \<Rightarrow>
            (case page_ids page of
               None \<Rightarrow> None
             | Some more_ids \<Rightarrow>
                 (let ids = wk_ids st @ more_ids;
                      tailLeft = (case wk_tailLeft st of
                                    None \<Rightarrow> if found_all want ids then Some (int tailPages) else None
                                  | Some t \<Rightarrow> Some (t - 1));
                      st' = \<lparr>wk_ids = ids, wk_pages = wk_pages st @ [page], wk_cursor = wk_cursor st, wk_tailLeft = tailLeft\<rparr>
                  in case next_cursor page of
                       None \<Rightarrow> Some (finished want st' None)
                     | Some c \<Rightarrow>
                         if (case tailLeft of None \<Rightarrow> False | Some t \<Rightarrow> t \<le> 0) then Some (finished want st' None)
                         else walk_from fetch want tailPages maxPages left (Suc i) (st'\<lparr>wk_cursor := Some c\<rparr>))))"

definition walkRunList ::
  "(string option \<Rightarrow> string + run_page) \<Rightarrow> string list \<Rightarrow> nat option \<Rightarrow> nat option \<Rightarrow> walk_result option" where
  "walkRunList fetch want tailPages maxPages =
     (let tp = (case tailPages of None \<Rightarrow> 2 | Some t \<Rightarrow> t); mp = (case maxPages of None \<Rightarrow> 50 | Some m \<Rightarrow> m)
      in walk_from fetch want tp mp (mp + tp) 0 \<lparr>wk_ids = [], wk_pages = [], wk_cursor = None, wk_tailLeft = None\<rparr>)"

section \<open>Bounds\<close>

lemma walk_page_bound:
  "walk_from fetch want tp mp left i st = Some r \<Longrightarrow> length (wr_pages r) \<le> length (wk_pages st) + left"
proof (induction fetch want tp mp left i st rule: walk_from.induct)
  case (2 fetch want tp mp left i st)
  then show ?case
    by (fastforce simp: finished_def Let_def split: if_splits sum.splits option.splits)
qed (auto simp: finished_def)

declare walk_from.simps [simp del]

text \<open>
  However many runs the host holds and whatever cursors it mints, the walk ends after at most
  \<open>maxPages + tailPages\<close> pages.
\<close>

theorem walk_is_bounded:
  "case walkRunList fetch want tailPages maxPages of
     None \<Rightarrow> True
   | Some r \<Rightarrow> length (wr_pages r) \<le> (case maxPages of None \<Rightarrow> 50 | Some m \<Rightarrow> m) + (case tailPages of None \<Rightarrow> 2 | Some t \<Rightarrow> t)"
proof (cases "walkRunList fetch want tailPages maxPages")
  case (Some r)
  then show ?thesis using walk_page_bound unfolding walkRunList_def Let_def by fastforce
qed simp

section \<open>What the walk reports\<close>

definition ids_of :: "run_page list \<Rightarrow> string list" where
  "ids_of ps = concat (map (\<lambda>p. case page_ids p of None \<Rightarrow> [] | Some xs \<Rightarrow> xs) ps)"

lemma ids_of_simps [simp]:
  "ids_of [] = []" "ids_of (p # ps) = (case page_ids p of None \<Rightarrow> [] | Some xs \<Rightarrow> xs) @ ids_of ps" "ids_of (ps @ qs) = ids_of ps @ ids_of qs"
  by (simp_all add: ids_of_def)

definition sound_walk :: "string list \<Rightarrow> nat \<Rightarrow> walk_state \<Rightarrow> bool" where
  "sound_walk want i st =
     (wk_ids st = ids_of (wk_pages st) \<and> (wk_tailLeft st = None \<longrightarrow> i = 0 \<and> wk_ids st = [] \<or> \<not> found_all want (wk_ids st)))"

lemma walk_sound:
  "walk_from fetch want tp mp left i st = Some r \<Longrightarrow> sound_walk want i st \<Longrightarrow> want \<noteq> [] \<Longrightarrow>
   wr_ids r = ids_of (wr_pages r) \<and> wr_foundAll r = found_all want (wr_ids r)"
proof (induction fetch want tp mp left i st rule: walk_from.induct)
  case (1 fetch want tp mp i st)
  then show ?case by (auto simp: finished_def sound_walk_def walk_from.simps)
next
  case (2 fetch want tp mp left i st)
  show ?case
  proof (cases "wk_tailLeft st = None \<and> mp \<le> i")
    case True
    with "2.prems" have "\<not> found_all want (wk_ids st)"
      by (cases want) (auto simp: sound_walk_def found_all_def)
    with True "2.prems" show ?thesis by (auto simp: sound_walk_def walk_from.simps)
  next
    case False
    show ?thesis
    proof (cases "fetch (wk_cursor st)")
      case (Inl reason)
      with False "2.prems" show ?thesis by (auto simp: finished_def sound_walk_def walk_from.simps)
    next
      case (Inr page)
      then obtain new where new: "page_ids page = Some new" using False "2.prems"(1) by (auto simp: walk_from.simps split: option.splits)
      let ?ids = "wk_ids st @ new"
      let ?tail = "case wk_tailLeft st of None \<Rightarrow> if found_all want ?ids then Some (int tp) else None | Some t \<Rightarrow> Some (t - 1)"
      let ?st = "\<lparr>wk_ids = ?ids, wk_pages = wk_pages st @ [page], wk_cursor = wk_cursor st, wk_tailLeft = ?tail\<rparr>"
      have sound: "sound_walk want (Suc i) (?st\<lparr>wk_cursor := c\<rparr>)" for c
        using "2.prems"(2) new by (auto simp: sound_walk_def split: option.splits)
      then have done_here: "wr_ids (finished want ?st rs) = ids_of (wr_pages (finished want ?st rs)) \<and>
          wr_foundAll (finished want ?st rs) = found_all want (wr_ids (finished want ?st rs))" for rs
        by (simp add: finished_def sound_walk_def)
      show ?thesis
      proof (cases "next_cursor page")
        case None
        with False Inr new "2.prems"(1) done_here [of None] show ?thesis by (auto simp: Let_def walk_from.simps)
      next
        case (Some c)
        show ?thesis
        proof (cases "case ?tail of None \<Rightarrow> False | Some t \<Rightarrow> t \<le> 0")
          case True
          with False Inr new Some "2.prems"(1) done_here [of None] show ?thesis by (auto simp: Let_def walk_from.simps)
        next
          case no: False
          have "walk_from fetch want tp mp left (Suc i) (?st\<lparr>wk_cursor := Some c\<rparr>) = Some r"
            using "2.prems"(1) False Inr new Some no by (simp add: Let_def walk_from.simps)
          then show ?thesis
            using "2.IH" [OF False Inr new refl refl refl Some no _ sound "2.prems"(3)] by blast
        qed
      qed
    qed
  qed
qed

lemma walk_reports:
  assumes "walkRunList fetch want tailPages maxPages = Some r" and "want \<noteq> []"
  shows "wr_ids r = ids_of (wr_pages r) \<and> wr_foundAll r = found_all want (wr_ids r)"
proof -
  have "sound_walk want 0 \<lparr>wk_ids = [], wk_pages = [], wk_cursor = None, wk_tailLeft = None\<rparr>" by (simp add: sound_walk_def)
  with assms walk_sound show ?thesis unfolding walkRunList_def Let_def by blast
qed

section \<open>A run on an early page is found\<close>

text \<open>The host serves these pages, each naming the next by its cursor.\<close>

fun serves :: "(string option \<Rightarrow> string + run_page) \<Rightarrow> string option \<Rightarrow> run_page list \<Rightarrow> bool" where
  "serves fetch c [] = False"
| "serves fetch c [p] = (fetch c = Inr p \<and> next_cursor p = None)"
| "serves fetch c (p # q # ps) =
     (fetch c = Inr p \<and> (case next_cursor p of None \<Rightarrow> False | Some d \<Rightarrow> serves fetch (Some d) (q # ps)))"

lemma found_more: "found_all want ids \<Longrightarrow> found_all want (ids @ more_ids)"
  by (auto simp: found_all_def list_all_iff)

lemma walk_finds:
  assumes "serves fetch (wk_cursor st) ps" and "list_all (\<lambda>p. page_ids p \<noteq> None) ps" and "1 \<le> mp" and "left + i = mp + tp"
    and "wk_tailLeft st = None \<Longrightarrow> i \<le> mp \<and> found_all want (wk_ids st @ ids_of (take (mp - i) ps)) \<and>
      (i = 0 \<or> \<not> found_all want (wk_ids st))"
    and "wk_tailLeft st \<noteq> None \<Longrightarrow> found_all want (wk_ids st)"
  shows "\<exists>r. walk_from fetch want tp mp left i st = Some r \<and> wr_foundAll r \<and> wr_reason r = None"
  using assms
proof (induction left arbitrary: i st ps)
  case 0
  then show ?case by (cases "wk_tailLeft st") (auto simp: walk_from.simps finished_def)
next
  case (Suc left)
  obtain p qs where ps: "ps = p # qs" using Suc.prems(1) by (cases ps) auto
  have p: "fetch (wk_cursor st) = Inr p" using Suc.prems(1) ps by (cases qs) auto
  obtain new where new: "page_ids p = Some new" using Suc.prems(2) ps by auto
  have early: "\<not> (wk_tailLeft st = None \<and> mp \<le> i)" using Suc.prems(3,5) by auto
  let ?ids = "wk_ids st @ new"
  let ?tail = "case wk_tailLeft st of None \<Rightarrow> if found_all want ?ids then Some (int tp) else None | Some t \<Rightarrow> Some (t - 1)"
  let ?st = "\<lparr>wk_ids = ?ids, wk_pages = wk_pages st @ [p], wk_cursor = wk_cursor st, wk_tailLeft = ?tail\<rparr>"
  have kept: "?tail \<noteq> None \<Longrightarrow> found_all want ?ids"
    using Suc.prems(6) found_more by (auto split: option.splits if_splits)
  have open_tail: "Suc i \<le> mp \<and> found_all want (?ids @ ids_of (take (mp - Suc i) qs)) \<and> \<not> found_all want ?ids"
    if t: "?tail = None"
  proof -
    have n: "wk_tailLeft st = None" "\<not> found_all want ?ids" using t by (auto split: option.splits if_splits)
    then have "Suc i \<le> mp" using early by simp
    then have "take (mp - i) ps = p # take (mp - Suc i) qs" by (simp add: ps Suc_diff_Suc [symmetric] take_Cons')
    with Suc.prems(5) [OF n(1)] n(2) new \<open>Suc i \<le> mp\<close> show ?thesis by simp
  qed
  show ?case
  proof (cases "next_cursor p")
    case None
    then have "qs = []" using Suc.prems(1) ps by (cases qs) auto
    then have "found_all want ?ids" using kept open_tail by (cases "?tail") auto
    with early p new None show ?thesis by (simp add: walk_from.simps finished_def Let_def)
  next
    case (Some c)
    then have rest: "serves fetch (Some c) qs" using Suc.prems(1) ps by (cases qs) auto
    show ?thesis
    proof (cases "case ?tail of None \<Rightarrow> False | Some t \<Rightarrow> t \<le> 0")
      case True
      then have "found_all want ?ids" using kept by (cases "?tail") auto
      with early p new Some True show ?thesis by (simp add: walk_from.simps finished_def Let_def)
    next
      case False
      have "\<exists>r. walk_from fetch want tp mp left (Suc i) (?st\<lparr>wk_cursor := Some c\<rparr>) = Some r \<and> wr_foundAll r \<and> wr_reason r = None"
      proof (rule Suc.IH)
        show "serves fetch (wk_cursor (?st\<lparr>wk_cursor := Some c\<rparr>)) qs" using rest by simp
        show "list_all (\<lambda>p. page_ids p \<noteq> None) qs" using Suc.prems(2) ps by simp
      qed (use Suc.prems(3,4) kept open_tail in \<open>simp_all del: option.simps(4,5)\<close>)
      with early p new Some False show ?thesis by (simp add: walk_from.simps Let_def)
    qed
  qed
qed

text \<open>
  When the wanted runs are on the first \<open>maxPages\<close> pages of the list, however long the history
  behind them is, the walk finds them all, with no reason to stop early, and reports the ids of exactly the
  pages it fetched.
\<close>

theorem walk_finds_wanted:
  assumes "serves fetch None ps" and "list_all (\<lambda>p. page_ids p \<noteq> None) ps" and "1 \<le> m" and "want \<noteq> []"
    and "found_all want (ids_of (take m ps))"
  shows "\<exists>r. walkRunList fetch want tailPages (Some m) = Some r \<and> wr_foundAll r \<and> wr_reason r = None \<and>
     wr_ids r = ids_of (wr_pages r) \<and> found_all want (wr_ids r)"
proof -
  let ?st = "\<lparr>wk_ids = [], wk_pages = [], wk_cursor = None, wk_tailLeft = None\<rparr>"
  obtain r where "walk_from fetch want (case tailPages of None \<Rightarrow> 2 | Some t \<Rightarrow> t) m (m + (case tailPages of None \<Rightarrow> 2 | Some t \<Rightarrow> t)) 0 ?st = Some r"
    "wr_foundAll r" "wr_reason r = None"
    using walk_finds [where st = ?st and i = 0 and left = "m + (case tailPages of None \<Rightarrow> 2 | Some t \<Rightarrow> t)" and mp = m and want = want and fetch = fetch and ps = ps
        and tp = "case tailPages of None \<Rightarrow> 2 | Some t \<Rightarrow> t"] assms
    by auto
  then have r: "walkRunList fetch want tailPages (Some m) = Some r" "wr_foundAll r" "wr_reason r = None"
    by (simp_all add: walkRunList_def Let_def)
  with walk_reports [OF r(1) assms(4)] show ?thesis by blast
qed

definition sample_page :: run_page where
  "sample_page = \<lparr>pg_runs = Some (JArr [JObj [(''runId'', JStr ''r1'')]]), pg_nextCursor = None\<rparr>"

theorem walk_finds_wanted_witness:
  "\<exists>r. walkRunList (\<lambda>_. Inr sample_page) [''r1''] None (Some 50) = Some r \<and> wr_foundAll r \<and> wr_reason r = None \<and>
     wr_ids r = ids_of (wr_pages r) \<and> found_all [''r1''] (wr_ids r)"
  by (rule walk_finds_wanted [of _ "[sample_page]"])
    (simp_all add: sample_page_def next_cursor_def page_ids_def page_entries_def entry_id_def js_get_def found_all_def List.map_filter_def)

end
