(* ===== verification/Context_Budget.thy ===== *)
theory Context_Budget
  imports Json
begin

text \<open>
  The transcript-window checker (\<open>context-budget.ts\<close>): reading a seam's answer and checking one iteration's
  window against the advertised cap and the run's event log. Violations are values instead of sentences. A
  code point is one of the code units below 256 the model has.
\<close>

section \<open>Data\<close>

record window_entry =
  we_eventId :: string
  we_rendered :: string

record summarized_range =
  sr_summaryRef :: string
  sr_replacedTurns :: "string list"

record transcript_window =
  tw_tokenCounter :: string
  tw_tokenCount :: int
  tw_eventIds :: "string list"
  tw_summarizedRanges :: "summarized_range list"
  tw_entries :: "window_entry list option"

record log_event =
  le_eventId :: string
  le_type :: string
  le_sequence :: int
  le_nodeId :: "string option"
  le_payload :: jobject

record budget_cap =
  bc_transcriptTokenBudget :: int
  bc_tokenCounter :: string

datatype violation =
    Counter_differs
  | Over_budget
  | Repeated_id
  | No_entries
  | Wrong_sum
  | Unknown_event string
  | Unknown_summary string
  | Unknown_entry string
  | Unlisted_summary string
  | Verbatim_differs
  | Out_of_order
  | After_decision string
  | Dropped_event string

record window_verdict =
  wv_violations :: "violation list"
  wv_pressure :: bool
  wv_measured :: bool

section \<open>Reading a window\<close>

definition string_member :: "jobject \<Rightarrow> string \<Rightarrow> string option" where
  "string_member es k = (case js_get es k of Some (JStr s) \<Rightarrow> Some s | _ \<Rightarrow> None)"

definition stringArrayOf :: "json option \<Rightarrow> string list option" where
  "stringArrayOf v =
     (case v of
        Some (JArr xs) \<Rightarrow> those (map (\<lambda>x. case x of JStr s \<Rightarrow> Some s | _ \<Rightarrow> None) xs)
      | _ \<Rightarrow> None)"

definition parse_range :: "json \<Rightarrow> summarized_range option" where
  "parse_range r =
     (case r of
        JObj es \<Rightarrow>
          (case (string_member es ''summaryRef'', stringArrayOf (js_get es ''replacedTurns'')) of
             (Some ref, Some turns) \<Rightarrow> Some \<lparr>sr_summaryRef = ref, sr_replacedTurns = turns\<rparr>
           | _ \<Rightarrow> None)
      | _ \<Rightarrow> None)"

definition parse_entry :: "json \<Rightarrow> window_entry option" where
  "parse_entry e =
     (case e of
        JObj es \<Rightarrow>
          (case (string_member es ''eventId'', string_member es ''rendered'') of
             (Some i, Some t) \<Rightarrow> Some \<lparr>we_eventId = i, we_rendered = t\<rparr>
           | _ \<Rightarrow> None)
      | _ \<Rightarrow> None)"

definition parse_list :: "(json \<Rightarrow> 'a option) \<Rightarrow> json \<Rightarrow> 'a list option" where
  "parse_list f v = (case v of JArr xs \<Rightarrow> those (map f xs) | _ \<Rightarrow> None)"

definition parseTranscriptWindow :: "json option \<Rightarrow> transcript_window option" where
  "parseTranscriptWindow v =
     (case v of
        Some (JObj es) \<Rightarrow>
          (case (string_member es ''tokenCounter'', js_get es ''tokenCount'', stringArrayOf (js_get es ''eventIds'')) of
             (Some counter, Some (JNum count), Some ids) \<Rightarrow>
               (case (case js_get es ''summarizedRanges'' of None \<Rightarrow> Some [] | Some r \<Rightarrow> parse_list parse_range r) of
                  None \<Rightarrow> None
                | Some ranges \<Rightarrow>
                    (case js_get es ''entries'' of
                       None \<Rightarrow> Some \<lparr>tw_tokenCounter = counter, tw_tokenCount = count, tw_eventIds = ids,
                                     tw_summarizedRanges = ranges, tw_entries = None\<rparr>
                     | Some raw \<Rightarrow>
                         (case parse_list parse_entry raw of
                            None \<Rightarrow> None
                          | Some entries \<Rightarrow> Some \<lparr>tw_tokenCounter = counter, tw_tokenCount = count, tw_eventIds = ids,
                                     tw_summarizedRanges = ranges, tw_entries = Some entries\<rparr>)))
           | _ \<Rightarrow> None)
      | _ \<Rightarrow> None)"

section \<open>Checking a window\<close>

definition charCount :: "string \<Rightarrow> int" where
  "charCount s = int (length s)"

definition eligibilityKey :: "log_event \<Rightarrow> string" where
  "eligibilityKey e = le_type e @ [CHR 0x00] @ (case le_nodeId e of None \<Rightarrow> [] | Some n \<Rightarrow> n)"

definition is_summary :: "log_event \<Rightarrow> bool" where
  "is_summary e = (le_type e = ''context.summarized'')"

definition by_event_id :: "log_event list \<Rightarrow> string \<Rightarrow> log_event option" where
  "by_event_id log = map_of (rev (map (\<lambda>e. (le_eventId e, e)) log))"

text \<open>The rules that need no event log.\<close>

definition seam_violations :: "transcript_window \<Rightarrow> budget_cap \<Rightarrow> violation list" where
  "seam_violations w cap =
     (if tw_tokenCounter w \<noteq> bc_tokenCounter cap then [Counter_differs] else []) @
     (if bc_transcriptTokenBudget cap < tw_tokenCount w then [Over_budget] else []) @
     (if \<not> distinct (tw_eventIds w) then [Repeated_id] else []) @
     (if bc_tokenCounter cap = ''chars''
      then (case tw_entries w of
              None \<Rightarrow> [No_entries]
            | Some es \<Rightarrow> if sum_list (map (\<lambda>e. charCount (we_rendered e)) es) \<noteq> tw_tokenCount w then [Wrong_sum] else [])
      else [])"

definition ids_violations :: "transcript_window \<Rightarrow> log_event list \<Rightarrow> violation list" where
  "ids_violations w log =
     map Unknown_event (filter (\<lambda>i. by_event_id log i = None) (tw_eventIds w)) @
     map (\<lambda>r. Unknown_summary (sr_summaryRef r))
       (filter (\<lambda>r. \<not> list_ex (\<lambda>e. is_summary e \<and> js_get (le_payload e) ''summaryRef'' = Some (JStr (sr_summaryRef r))) log)
         (tw_summarizedRanges w))"

definition entry_violations :: "transcript_window \<Rightarrow> log_event list \<Rightarrow> window_entry \<Rightarrow> violation list" where
  "entry_violations w log e =
     (case by_event_id log (we_eventId e) of
        None \<Rightarrow> [Unknown_entry (we_eventId e)]
      | Some ev \<Rightarrow>
          if is_summary ev \<and>
             \<not> list_ex (\<lambda>r. js_get (le_payload ev) ''summaryRef'' = Some (JStr (sr_summaryRef r))) (tw_summarizedRanges w)
          then [Unlisted_summary (we_eventId e)] else [])"

definition verbatim_ids :: "log_event list \<Rightarrow> window_entry list \<Rightarrow> string list" where
  "verbatim_ids log es =
     map we_eventId (filter (\<lambda>e. case by_event_id log (we_eventId e) of None \<Rightarrow> False | Some ev \<Rightarrow> \<not> is_summary ev) es)"

definition entries_violations :: "transcript_window \<Rightarrow> log_event list \<Rightarrow> violation list" where
  "entries_violations w log =
     (case tw_entries w of
        None \<Rightarrow> []
      | Some es \<Rightarrow>
          concat (map (entry_violations w log) es) @
          (if join [CHR 0x00] (verbatim_ids log es) \<noteq> join [CHR 0x00] (tw_eventIds w) then [Verbatim_differs] else []))"

definition fed_events :: "transcript_window \<Rightarrow> log_event list \<Rightarrow> log_event list" where
  "fed_events w log = List.map_filter (by_event_id log) (tw_eventIds w)"

text \<open>The sequence of the iteration's own decision: None is infinity.\<close>

definition decision_cutoff :: "int \<Rightarrow> log_event list \<Rightarrow> int option" where
  "decision_cutoff iteration log =
     map_option le_sequence
       (List.find (\<lambda>e. le_type e = ''runOrchestrator.decided'' \<and> js_get (le_payload e) ''iteration'' = Some (JNum iteration)) log)"

definition increasing :: "int list \<Rightarrow> bool" where
  "increasing xs = list_all (\<lambda>(a, b). a < b) (zip xs (tl xs))"

definition order_violations :: "log_event list \<Rightarrow> int option \<Rightarrow> violation list" where
  "order_violations fed cutoff =
     (if \<not> increasing (map le_sequence fed) then [Out_of_order] else []) @
     map (\<lambda>e. After_decision (le_eventId e)) (filter (\<lambda>e. case cutoff of None \<Rightarrow> False | Some c \<Rightarrow> c \<le> le_sequence e) fed)"

definition eligible :: "log_event list \<Rightarrow> log_event \<Rightarrow> bool" where
  "eligible fed e = (eligibilityKey e \<in> set (map eligibilityKey fed) \<and> le_eventId e \<notin> set (map le_eventId fed))"

definition tail_violations :: "transcript_window \<Rightarrow> log_event list \<Rightarrow> log_event list \<Rightarrow> int option \<Rightarrow> violation list" where
  "tail_violations w log fed cutoff =
     (let seqs = map le_sequence fed; minFed = Min (set seqs);
          maxBound = (case cutoff of Some c \<Rightarrow> c | None \<Rightarrow> Max (set seqs) + 1);
          replaced = concat (map sr_replacedTurns (tw_summarizedRanges w))
      in map (\<lambda>e. Dropped_event (le_eventId e))
           (filter (\<lambda>e. eligible fed e \<and> minFed < le_sequence e \<and> le_sequence e < maxBound \<and> le_eventId e \<notin> set replaced) log))"

definition checkTranscriptWindow :: "int \<Rightarrow> transcript_window \<Rightarrow> budget_cap \<Rightarrow> log_event list option \<Rightarrow> window_verdict" where
  "checkTranscriptWindow iteration w cap log' =
     (case log' of
        None \<Rightarrow> \<lparr>wv_violations = seam_violations w cap, wv_pressure = False, wv_measured = False\<rparr>
      | Some log \<Rightarrow>
          (let before = seam_violations w cap @ ids_violations w log @ entries_violations w log;
               fed = fed_events w log; cutoff = decision_cutoff iteration log; summarized = (tw_summarizedRanges w \<noteq> [])
           in if fed = [] then \<lparr>wv_violations = before, wv_pressure = summarized, wv_measured = True\<rparr>
              else \<lparr>wv_violations = before @ order_violations fed cutoff @ tail_violations w log fed cutoff,
                    wv_pressure = (summarized \<or> list_ex (\<lambda>e. eligible fed e \<and> le_sequence e < Min (set (map le_sequence fed))) log),
                    wv_measured = True\<rparr>))"

definition summaryTexts :: "transcript_window \<Rightarrow> log_event list \<Rightarrow> string list" where
  "summaryTexts w log =
     (case tw_entries w of
        None \<Rightarrow> []
      | Some es \<Rightarrow> map we_rendered (filter (\<lambda>e. we_eventId e \<in> set (map le_eventId (filter is_summary log))) es))"

definition summarizationDeclared :: "json option \<Rightarrow> nat \<Rightarrow> bool" where
  "summarizationDeclared contextBudget major =
     (case contextBudget of
        Some (JObj es) \<Rightarrow>
          (case js_get es ''summarization'' of
             Some (JObj s) \<Rightarrow> (major = 2 \<or> js_get s ''supported'' = Some (JBool True))
           | _ \<Rightarrow> False)
      | _ \<Rightarrow> False)"

section \<open>A clean window is a recent tail\<close>

lemma increasing_sorted: "increasing (map f xs) \<longleftrightarrow> sorted_wrt (\<lambda>a b. f a < f b) xs"
proof (induction xs)
  case (Cons x xs)
  have tail: "increasing (map f (x # xs)) \<longleftrightarrow> (case xs of [] \<Rightarrow> True | y # _ \<Rightarrow> f x < f y) \<and> increasing (map f xs)"
    by (cases xs) (simp_all add: increasing_def)
  show ?case
  proof (cases xs)
    case Nil
    then show ?thesis by (simp add: increasing_def)
  next
    case (Cons y ys)
    have "(\<forall>z \<in> set xs. f x < f z) \<longleftrightarrow> f x < f y" if "sorted_wrt (\<lambda>a b. f a < f b) xs"
      using that Cons by auto
    with tail Cons.IH Cons show ?thesis by auto
  qed
qed (simp add: increasing_def)

text \<open>Events in log order, each before the next.\<close>

lemma ordered_unique:
  assumes "sorted_wrt (\<lambda>a b. f a < (f b :: int)) xs" and "sorted_wrt (\<lambda>a b. f a < f b) ys" and "set xs = set ys"
  shows "xs = ys"
  using assms
proof (induction xs arbitrary: ys)
  case (Cons x xs)
  then obtain y ys' where ys: "ys = y # ys'" by (cases ys) auto
  have "x \<in> set ys" "y \<in> set (x # xs)" using Cons.prems(3) ys by auto
  then have "x = y" using Cons.prems(1,2) ys by fastforce
  moreover have "x \<notin> set xs" "y \<notin> set ys'" using Cons.prems(1,2) ys by auto
  then have "set xs = set ys'" using Cons.prems(3) ys \<open>x = y\<close> by auto
  ultimately show ?case using Cons.IH [of ys'] Cons.prems(1,2) ys by simp
qed simp

lemma ordered_inj: "sorted_wrt (\<lambda>a b. f a < (f b :: int)) xs \<Longrightarrow> x \<in> set xs \<Longrightarrow> y \<in> set xs \<Longrightarrow> f x = f y \<Longrightarrow> x = y"
  by (induction xs) auto

lemma filter_suffix:
  assumes "sorted_wrt (\<lambda>a b. f a < (f b :: int)) xs"
  shows "\<exists>n. filter (\<lambda>e. m \<le> f e) xs = drop n xs"
  using assms
proof (induction xs)
  case (Cons x xs)
  show ?case
  proof (cases "m \<le> f x")
    case True
    then have "filter (\<lambda>e. m \<le> f e) xs = xs" using Cons.prems by (intro filter_True) fastforce
    with True show ?thesis by (intro exI [of _ 0]) simp
  next
    case False
    obtain n where "filter (\<lambda>e. m \<le> f e) xs = drop n xs" using Cons by auto
    with False show ?thesis by (intro exI [of _ "Suc n"]) simp
  qed
qed simp

lemma by_event_id_Some: "by_event_id log i = Some e \<Longrightarrow> e \<in> set log \<and> le_eventId e = i"
  by (auto simp: by_event_id_def dest!: map_of_SomeD)

lemma fed_known:
  assumes "filter (\<lambda>i. by_event_id log i = None) (tw_eventIds w) = []"
  shows "map le_eventId (fed_events w log) = tw_eventIds w" and "set (fed_events w log) \<subseteq> set log"
proof -
  have "map le_eventId (List.map_filter (by_event_id log) is) = is \<and> set (List.map_filter (by_event_id log) is) \<subseteq> set log"
    if "filter (\<lambda>i. by_event_id log i = None) is = []" for "is"
    using that by (induction "is") (auto simp: List.map_filter_simps dest: by_event_id_Some split: if_splits option.splits)
  from this [OF assms] show "map le_eventId (fed_events w log) = tw_eventIds w" "set (fed_events w log) \<subseteq> set log"
    by (simp_all add: fed_events_def)
qed

text \<open>Every event before the decision that shares type and node with one fed, oldest first.\<close>

definition eligible_before :: "log_event list \<Rightarrow> log_event list \<Rightarrow> int \<Rightarrow> log_event list" where
  "eligible_before log fed cutoff =
     filter (\<lambda>e. eligibilityKey e \<in> set (map eligibilityKey fed) \<and> le_sequence e < cutoff) log"

lemma fed_is_tail:
  assumes log: "sorted_wrt (\<lambda>a b. le_sequence a < le_sequence b) log" and sub: "set fed \<subseteq> set log" and ids: "distinct (map le_eventId log)"
    and fed: "fed \<noteq> []" and none: "order_violations fed (Some c) = []" "tail_violations w log fed (Some c) = []" "tw_summarizedRanges w = []"
  shows "\<exists>n. fed = drop n (eligible_before log fed c)"
proof -
  let ?E = "eligible_before log fed c"
  let ?m = "Min (set (map le_sequence fed))"
  have inc: "sorted_wrt (\<lambda>a b. le_sequence a < le_sequence b) fed"
    using none(1) by (simp add: order_violations_def increasing_sorted split: if_splits)
  have before: "\<forall>e \<in> set fed. le_sequence e < c" using none(1) by (auto simp: order_violations_def filter_empty_conv)
  have E: "sorted_wrt (\<lambda>a b. le_sequence a < le_sequence b) ?E" using log by (simp add: eligible_before_def sorted_wrt_filter)
  have "set fed = set (filter (\<lambda>e. ?m \<le> le_sequence e) ?E)"
  proof (intro set_eqI iffI)
    fix e assume e: "e \<in> set fed"
    then have "?m \<le> le_sequence e" by (intro Min_le) auto
    with e before sub show "e \<in> set (filter (\<lambda>e. ?m \<le> le_sequence e) ?E)" by (auto simp: eligible_before_def)
  next
    fix e assume e: "e \<in> set (filter (\<lambda>e. ?m \<le> le_sequence e) ?E)"
    have "?m \<in> set (map le_sequence fed)" using fed by (intro Min_in) simp_all
    then obtain o' where o': "o' \<in> set fed" "le_sequence o' = ?m" by (metis (no_types, lifting) image_iff list.set_map)
    have in_log: "e \<in> set log" "eligibilityKey e \<in> set (map eligibilityKey fed)" "le_sequence e < c" "?m \<le> le_sequence e"
      using e by (auto simp: eligible_before_def)
    show "e \<in> set fed"
    proof (rule ccontr)
      assume out: "e \<notin> set fed"
      have "le_eventId e \<notin> set (map le_eventId fed)"
      proof
        assume "le_eventId e \<in> set (map le_eventId fed)"
        then obtain x where "x \<in> set fed" "le_eventId x = le_eventId e" by auto
        with sub ids in_log(1) have "x = e" unfolding distinct_map by (blast dest: inj_onD)
        with \<open>x \<in> set fed\<close> out show False by simp
      qed
      moreover have "?m < le_sequence e"
      proof -
        have "le_sequence e \<noteq> ?m"
        proof
          assume "le_sequence e = ?m"
          then have "le_sequence e = le_sequence o'" by (simp only: o'(2))
          moreover have "o' \<in> set log" using o'(1) sub by blast
          ultimately have "e = o'" using ordered_inj [OF log in_log(1)] by blast
          with o'(1) out show False by blast
        qed
        with in_log(4) show ?thesis by linarith
      qed
      ultimately show False
        using none(2,3) in_log by (auto simp: tail_violations_def eligible_def Let_def filter_empty_conv)
    qed
  qed
  then have "fed = filter (\<lambda>e. ?m \<le> le_sequence e) ?E"
    using ordered_unique [OF inc] E by (simp add: sorted_wrt_filter)
  then show ?thesis using filter_suffix [OF E] by metis
qed

text \<open>
  Claim C29: a window that breaks no rule, over a log in order with the iteration's decision in it and no
  summarized range, was fed exactly a suffix of the eligible events before the decision, within the budget:
  nothing newer was dropped for something older.
\<close>

theorem clean_window_is_recent_tail:
  assumes "wv_violations (checkTranscriptWindow iteration w cap (Some log)) = []"
    and "sorted_wrt (\<lambda>a b. le_sequence a < le_sequence b) log" and "distinct (map le_eventId log)"
    and "decision_cutoff iteration log = Some c" and "tw_eventIds w \<noteq> []" and "tw_summarizedRanges w = []"
  shows "(\<exists>n. tw_eventIds w = map le_eventId (drop n (eligible_before log (fed_events w log) c))) \<and>
     tw_tokenCount w \<le> bc_transcriptTokenBudget cap"
proof -
  have ids: "ids_violations w log = []" and seam: "seam_violations w cap = []"
    using assms(1) by (auto simp: checkTranscriptWindow_def Let_def split: if_splits)
  have known: "filter (\<lambda>i. by_event_id log i = None) (tw_eventIds w) = []" using ids by (simp add: ids_violations_def)
  note fed = fed_known [OF known]
  have "fed_events w log \<noteq> []" using fed(1) assms(5) by auto
  moreover from this have "order_violations (fed_events w log) (Some c) = []" "tail_violations w log (fed_events w log) (Some c) = []"
    using assms(1,4) by (auto simp: checkTranscriptWindow_def Let_def)
  ultimately have "\<exists>n. fed_events w log = drop n (eligible_before log (fed_events w log) c)"
    using fed_is_tail [OF assms(2) fed(2) assms(3)] assms(6) by blast
  then obtain n where "fed_events w log = drop n (eligible_before log (fed_events w log) c)" ..
  then have "tw_eventIds w = map le_eventId (drop n (eligible_before log (fed_events w log) c))" using fed(1) by metis
  moreover have "tw_tokenCount w \<le> bc_transcriptTokenBudget cap" using seam by (auto simp: seam_violations_def split: if_splits)
  ultimately show ?thesis by blast
qed

definition sample_log :: "log_event list" where
  "sample_log =
     [\<lparr>le_eventId = ''e1'', le_type = ''m'', le_sequence = 1, le_nodeId = None, le_payload = []\<rparr>,
      \<lparr>le_eventId = ''e2'', le_type = ''m'', le_sequence = 2, le_nodeId = None, le_payload = []\<rparr>,
      \<lparr>le_eventId = ''e3'', le_type = ''runOrchestrator.decided'', le_sequence = 3, le_nodeId = None, le_payload = [(''iteration'', JNum 1)]\<rparr>]"

definition sample_window :: transcript_window where
  "sample_window =
     \<lparr>tw_tokenCounter = ''chars'', tw_tokenCount = 2, tw_eventIds = [''e2''], tw_summarizedRanges = [],
      tw_entries = Some [\<lparr>we_eventId = ''e2'', we_rendered = ''hi''\<rparr>]\<rparr>"

theorem clean_window_is_recent_tail_witness:
  "\<exists>n. tw_eventIds sample_window = map le_eventId (drop n (eligible_before sample_log (fed_events sample_window sample_log) 3))"
proof -
  have "wv_violations (checkTranscriptWindow 1 sample_window \<lparr>bc_transcriptTokenBudget = 5, bc_tokenCounter = ''chars''\<rparr> (Some sample_log)) = []"
    by (simp add: checkTranscriptWindow_def sample_window_def sample_log_def seam_violations_def ids_violations_def entries_violations_def
        entry_violations_def verbatim_ids_def fed_events_def by_event_id_def decision_cutoff_def order_violations_def tail_violations_def
        increasing_def eligible_def eligibilityKey_def is_summary_def charCount_def js_get_def List.map_filter_simps Let_def)
  from clean_window_is_recent_tail [OF this] show ?thesis
    by (simp add: sample_log_def sample_window_def decision_cutoff_def js_get_def)
qed

text \<open>
  Without an event log no rule that needs one is reported broken and the window is marked
  unmeasured, never under pressure.
\<close>

theorem no_log_unmeasured:
  "\<not> wv_measured (checkTranscriptWindow iteration w cap None) \<and> \<not> wv_pressure (checkTranscriptWindow iteration w cap None) \<and>
   list_all (\<lambda>v. v \<in> {Counter_differs, Over_budget, Repeated_id, No_entries, Wrong_sum})
     (wv_violations (checkTranscriptWindow iteration w cap None))"
  by (auto simp: checkTranscriptWindow_def seam_violations_def list_all_iff split: option.splits if_splits)

end
