(* ===== verification/Bound_Id.thy ===== *)
theory Bound_Id
  imports Collector
begin

text \<open>
  The projection of a tenant-bound id to one path segment and back (\<open>bound-id.ts\<close>). Text is a list of UTF-16
  code units; \<open>TextEncoder\<close> and \<open>TextDecoder\<close> are modelled by the encoder and the decoder of UTF-8 the
  telemetry theories define.
\<close>

section \<open>The platform's encoders\<close>

text \<open>The code points of a text, a lone surrogate becoming the replacement character.\<close>

fun scalars_of :: "units \<Rightarrow> js_text" where
  "scalars_of (h # l # us) =
     (if 0xD800 \<le> h \<and> h \<le> 0xDBFF \<and> 0xDC00 \<le> l \<and> l \<le> 0xDFFF
      then (0x10000 + (h - 0xD800) * 0x400 + (l - 0xDC00)) # scalars_of us
      else (if 0xD800 \<le> h \<and> h \<le> 0xDFFF then replacement else h) # scalars_of (l # us))"
| "scalars_of [u] = [if 0xD800 \<le> u \<and> u \<le> 0xDFFF then replacement else u]"
| "scalars_of [] = []"

definition text_encode :: "units \<Rightarrow> nat list" where
  "text_encode s = concat (map utf8_units (scalars_of s))"

text \<open>
  \<open>TextDecoder\<close> with \<open>fatal\<close>: one byte order mark at the start is dropped, and bytes are refused unless
  encoding what they decode to gives them back.
\<close>

definition text_decode_fatal :: "nat list \<Rightarrow> units option" where
  "text_decode_fatal bs =
     (let ns = (if take 3 bs = [0xEF, 0xBB, 0xBF] then drop 3 bs else bs);
          t = utf8_go 0 0x80 0xBF 0 ns in
      if concat (map utf8_units t) = ns then Some (utf16 t) else None)"

section \<open>The projection\<close>

definition passthrough :: "nat \<Rightarrow> bool" where
  "passthrough u =
     ((0x41 \<le> u \<and> u \<le> 0x5A) \<or> (0x61 \<le> u \<and> u \<le> 0x7A) \<or> (0x30 \<le> u \<and> u \<le> 0x39) \<or> u = 0x2E \<or> u = 0x5F \<or> u = 0x2D)"

definition upper_hex :: "nat \<Rightarrow> nat" where
  "upper_hex n = (if n < 10 then 48 + n else 55 + n)"

definition project_byte :: "nat \<Rightarrow> units" where
  "project_byte b = (if b < 0x80 \<and> passthrough b then [b] else [0x7E, upper_hex (b div 16), upper_hex (b mod 16)])"

definition projectBoundId :: "units \<Rightarrow> units" where
  "projectBoundId i = concat (map project_byte (text_encode i))"

datatype bound_id_error = Bad_tilde | Malformed_utf8

fun tildes_ok :: "units \<Rightarrow> bool" where
  "tildes_ok [] = True"
| "tildes_ok (u # us) =
     (if u = 0x7E
      then (case us of a # b # r \<Rightarrow> hex_value a \<noteq> None \<and> hex_value b \<noteq> None \<and> tildes_ok r | _ \<Rightarrow> False)
      else tildes_ok us)"

fun segment_bytes :: "units \<Rightarrow> nat list" where
  "segment_bytes [] = []"
| "segment_bytes (u # us) =
     (if u = 0x7E
      then (case us of a # b # r \<Rightarrow> (16 * the (hex_value a) + the (hex_value b)) # segment_bytes r | _ \<Rightarrow> [])
      else text_encode [u] @ segment_bytes us)"

definition unprojectBoundId :: "units \<Rightarrow> bound_id_error + units" where
  "unprojectBoundId seg =
     (if \<not> tildes_ok seg then Inl Bad_tilde
      else case text_decode_fatal (segment_bytes seg) of None \<Rightarrow> Inl Malformed_utf8 | Some s \<Rightarrow> Inr s)"

text \<open>\<open>BOUND_ID\<close>: the tenant with its optional prefix, a slash, the rest.\<close>

definition id_char :: "nat \<Rightarrow> bool" where
  "id_char u = (passthrough u \<or> u = 0x7E)"

definition tenant_ok :: "units \<Rightarrow> bool" where
  "tenant_ok s = (list_all id_char s \<and> 1 \<le> length s \<and> length s \<le> 128)"

definition is_bound_id :: "units \<Rightarrow> bool" where
  "is_bound_id s =
     (case dropWhile (\<lambda>u. u \<noteq> 0x2F) s of
        [] \<Rightarrow> False
      | sl # rest \<Rightarrow>
          let tenant = takeWhile (\<lambda>u. u \<noteq> 0x2F) s; anon = units_of ''anon:'' in
          (tenant_ok tenant \<or> (take 5 tenant = anon \<and> tenant_ok (drop 5 tenant))) \<and>
          list_all id_char rest \<and> 16 \<le> length rest \<and> length rest \<le> 128)"

section \<open>The codec\<close>

lemma scalars_utf16: "list_all scalar s \<Longrightarrow> scalars_of (utf16 s) = s"
proof (induction s)
  case (Cons c s)
  show ?case
  proof (cases "c < 0x10000")
    case True
    then have "scalars_of (utf16_point c @ utf16 s) = c # scalars_of (utf16 s)"
      using Cons.prems by (cases "utf16 s") (auto simp: utf16_point_def scalar_def)
    with Cons show ?thesis by (simp add: utf16_def)
  next
    case False
    obtain q r where q: "q = (c - 0x10000) div 0x400" and r: "r = (c - 0x10000) mod 0x400" by blast
    have "c - 0x10000 < 0x100000" using Cons.prems by (auto simp: scalar_def)
    then have bounds: "q \<le> 0x3FF" "r \<le> 0x3FF" unfolding q r by (simp_all add: less_mult_imp_div_less less_Suc_eq_le [symmetric])
    have c: "0x10000 + q * 0x400 + r = c" using False div_mult_mod_eq [of "c - 0x10000" "0x400"] unfolding q r by linarith
    have "utf16_point c = [0xD800 + q, 0xDC00 + r]" using False unfolding q r by (simp only: utf16_point_def) simp
    moreover have "scalars_of ([0xD800 + q, 0xDC00 + r] @ utf16 s) = (0x10000 + q * 0x400 + r) # scalars_of (utf16 s)"
      using bounds by simp
    ultimately show ?thesis using Cons by (simp add: utf16_def c)
  qed
qed (simp add: utf16_def)

lemma hex_upper: "n < 16 \<Longrightarrow> hex_value (upper_hex n) = Some n"
  by (auto simp: hex_value_def upper_hex_def)

lemma byte_back:
  assumes "b < 256"
  shows "tildes_ok (project_byte b @ r) = tildes_ok r" and "segment_bytes (project_byte b @ r) = b # segment_bytes r"
proof -
  have "b div 16 < 16" using assms by (simp add: less_mult_imp_div_less)
  then have h: "hex_value (upper_hex (b div 16)) = Some (b div 16)" "hex_value (upper_hex (b mod 16)) = Some (b mod 16)"
    by (simp_all add: hex_upper)
  have p: "b < 0x80 \<Longrightarrow> passthrough b \<Longrightarrow> b \<noteq> 0x7E \<and> text_encode [b] = [b]"
    by (auto simp: passthrough_def text_encode_def utf8_units_def)
  show "tildes_ok (project_byte b @ r) = tildes_ok r" using h p by (simp add: project_byte_def)
  show "segment_bytes (project_byte b @ r) = b # segment_bytes r" using h p by (simp add: project_byte_def)
qed

lemma bytes_back:
  assumes "\<forall>b \<in> set bs. b < 256"
  shows "tildes_ok (concat (map project_byte bs))" and "segment_bytes (concat (map project_byte bs)) = bs"
  using assms by (induction bs) (simp_all add: byte_back)

lemma encoded_bytes: "list_all scalar s \<Longrightarrow> b \<in> set (concat (map utf8_units s)) \<Longrightarrow> b < 256"
  using utf8_units_byte by (fastforce simp: list_all_iff scalar_def)

lemma unproject_encoded:
  assumes "list_all scalar s"
  shows "unprojectBoundId (projectBoundId (utf16 s)) = (case text_decode_fatal (concat (map utf8_units s)) of None \<Rightarrow> Inl Malformed_utf8 | Some t \<Rightarrow> Inr t)"
  using bytes_back [of "concat (map utf8_units s)"] encoded_bytes [OF assms]
  by (auto simp: unprojectBoundId_def projectBoundId_def text_encode_def scalars_utf16 [OF assms])

lemma fatal_text:
  assumes "list_all scalar s"
  shows "take 3 (concat (map utf8_units s)) \<noteq> [0xEF, 0xBB, 0xBF] \<Longrightarrow> text_decode_fatal (concat (map utf8_units s)) = Some (utf16 s)"
    and "text_decode_fatal (concat (map utf8_units (0xFEFF # s))) = Some (utf16 s)"
proof -
  show "take 3 (concat (map utf8_units s)) \<noteq> [0xEF, 0xBB, 0xBF] \<Longrightarrow> text_decode_fatal (concat (map utf8_units s)) = Some (utf16 s)"
    by (simp add: text_decode_fatal_def utf8_go_text [OF assms])
  have "utf8_units 0xFEFF = [0xEF, 0xBB, 0xBF]" by (simp add: utf8_units_def)
  then show "text_decode_fatal (concat (map utf8_units (0xFEFF # s))) = Some (utf16 s)"
    by (simp add: text_decode_fatal_def utf8_go_text [OF assms])
qed

lemma unproject_text:
  assumes "text_ok s"
  shows "unprojectBoundId (projectBoundId (utf16 s)) = Inr (utf16 s)"
proof -
  have s: "list_all scalar s" using assms by (simp add: text_ok_def)
  have "take 3 (concat (map utf8_units s)) \<noteq> [0xEF, 0xBB, 0xBF]"
    using assms no_mark by (cases s) (auto simp: text_ok_def)
  with fatal_text(1) [OF s] show ?thesis by (simp add: unproject_encoded [OF s])
qed

text \<open>Every id of the grammar is plain text, so its projection decodes to it.\<close>

lemma bound_id_chars: "is_bound_id i \<Longrightarrow> \<forall>u \<in> set i. u < 0x80"
proof -
  assume b: "is_bound_id i"
  have chars: "list_all id_char t \<Longrightarrow> \<forall>u \<in> set t. u < 0x80" for t
    by (auto simp: list_all_iff id_char_def passthrough_def)
  obtain sl rest where d: "dropWhile (\<lambda>u. u \<noteq> 0x2F) i = sl # rest" using b by (auto simp: is_bound_id_def split: list.splits)
  then have i: "i = takeWhile (\<lambda>u. u \<noteq> 0x2F) i @ sl # rest" using takeWhile_dropWhile_id [of "\<lambda>u. u \<noteq> 0x2F" i] by simp
  have sl: "sl = 0x2F" using hd_dropWhile [of "\<lambda>u. u \<noteq> 0x2F" i] d by auto
  let ?t = "takeWhile (\<lambda>u. u \<noteq> 0x2F) i"
  have rest: "list_all id_char rest" and t: "tenant_ok ?t \<or> (take 5 ?t = units_of ''anon:'' \<and> tenant_ok (drop 5 ?t))"
    using b d by (auto simp: is_bound_id_def Let_def)
  have "\<forall>u \<in> set ?t. u < 0x80"
    using t
  proof
    assume "take 5 ?t = units_of ''anon:'' \<and> tenant_ok (drop 5 ?t)"
    moreover have "set ?t = set (take 5 ?t) \<union> set (drop 5 ?t)" by (metis append_take_drop_id set_append)
    moreover have "\<forall>u \<in> set (units_of ''anon:''). u < 0x80" by code_simp
    ultimately show ?thesis using chars by (auto simp: tenant_ok_def)
  qed (use chars in \<open>auto simp: tenant_ok_def\<close>)
  moreover have "set i = set ?t \<union> {sl} \<union> set rest" by (subst i) auto
  ultimately show "\<forall>u \<in> set i. u < 0x80" using chars [OF rest] sl by auto
qed

text \<open>
  Claim C34: a bound id survives its projection: for every id of the grammar, decoding its one path segment gives it back.
\<close>

theorem bound_ids_round_trip:
  assumes "is_bound_id i"
  shows "unprojectBoundId (projectBoundId i) = Inr i"
proof -
  have plain: "\<forall>u \<in> set i. u < 0x80" by (rule bound_id_chars [OF assms])
  then have "utf16 i = i" by (induction i) (auto simp: utf16_def utf16_point_def)
  moreover have "text_ok i" using plain by (cases i) (auto simp: text_ok_def scalar_def list_all_iff)
  ultimately show ?thesis using unproject_text [of i] by simp
qed

text \<open>
  The codec does not rest on the grammar: every well-formed text that does not start with a byte order mark
  comes back from its projection.
\<close>

theorem bound_id_round_trip:
  assumes "text_ok s"
  shows "unprojectBoundId (projectBoundId (utf16 s)) = Inr (utf16 s)"
  by (rule unproject_text [OF assms])

text \<open>
  The codec is not total, as its comment says it is: an id that starts with a byte order mark comes back without
  it, so two ids share a path segment's meaning.
\<close>

theorem leading_mark_lost:
  assumes "list_all scalar s"
  shows "unprojectBoundId (projectBoundId (utf16 (0xFEFF # s))) = Inr (utf16 s)"
proof -
  have "list_all scalar (0xFEFF # s)" using assms by (simp add: scalar_def)
  from unproject_encoded [OF this] fatal_text(2) [OF assms] show ?thesis by simp
qed

lemma projected_units: "u \<in> set (projectBoundId i) \<Longrightarrow> \<exists>b \<in> set (text_encode i). u \<in> set (project_byte b)"
  by (auto simp: projectBoundId_def)

lemma upper_hex_passes: "n < 16 \<Longrightarrow> passthrough (upper_hex n)"
  by (auto simp: upper_hex_def passthrough_def)

text \<open>
  Whatever the id, its projection is one path segment of unreserved characters: letters, digits and
  \<open>. _ - ~\<close>, so neither a slash nor a percent sign is in it; and an id of such characters without a tilde is
  its own projection.
\<close>

theorem projection_is_unreserved:
  assumes "list_all scalar s"
  shows "list_all id_char (projectBoundId (utf16 s)) \<and> (list_all passthrough (utf16 s) \<longrightarrow> projectBoundId (utf16 s) = utf16 s)"
proof
  have "passthrough u \<or> u = 0x7E" if "u \<in> set (project_byte b)" "b < 256" for u b
    using that upper_hex_passes [of "b div 16"] upper_hex_passes [of "b mod 16"]
    by (auto simp: project_byte_def less_mult_imp_div_less split: if_splits)
  then show "list_all id_char (projectBoundId (utf16 s))"
    using projected_units [of _ "utf16 s"] encoded_bytes [OF assms]
    by (fastforce simp: list_all_iff id_char_def text_encode_def scalars_utf16 [OF assms])
  have "concat (map project_byte (concat (map utf8_units (scalars_of t)))) = t" if "list_all passthrough t" for t
    using that
  proof (induction t)
    case (Cons u t)
    then have u: "u < 0x80" "passthrough u" by (auto simp: passthrough_def)
    then have "scalars_of (u # t) = u # scalars_of t" by (cases t) auto
    with u Cons show ?case by (simp add: utf8_units_def project_byte_def)
  qed simp
  then show "list_all passthrough (utf16 s) \<longrightarrow> projectBoundId (utf16 s) = utf16 s"
    by (simp add: projectBoundId_def text_encode_def)
qed

text \<open>
  A segment is refused exactly for a tilde that does not introduce two hexadecimal digits or for
  bytes that are not UTF-8.
\<close>

lemma unproject_refuses:
  "unprojectBoundId seg = Inl e \<longleftrightarrow>
     (e = Bad_tilde \<and> \<not> tildes_ok seg) \<or> (e = Malformed_utf8 \<and> tildes_ok seg \<and> text_decode_fatal (segment_bytes seg) = None)"
  by (auto simp: unprojectBoundId_def split: option.splits)

definition example_id :: js_text where
  "example_id = [0x61, 0x6E, 0x6F, 0x6E, 0x3A, 0x74, 0x2F, 0xE9, 0x1F600, 0x7E]"

theorem bound_id_round_trip_witness: "unprojectBoundId (projectBoundId (utf16 example_id)) = Inr (utf16 example_id)"
  by (rule bound_id_round_trip) (simp add: example_id_def text_ok_def scalar_def)

theorem bound_ids_round_trip_witness: "unprojectBoundId (projectBoundId (units_of ''anon:t/0123456789abcdef'')) = Inr (units_of ''anon:t/0123456789abcdef'')"
  by (rule bound_ids_round_trip) code_simp

theorem leading_mark_lost_witness: "unprojectBoundId (projectBoundId (utf16 (0xFEFF # example_id))) = Inr (utf16 example_id)"
  by (rule leading_mark_lost) (simp add: example_id_def scalar_def)

theorem projection_is_unreserved_witness: "list_all id_char (projectBoundId (utf16 example_id))"
  using projection_is_unreserved [of example_id] by (simp add: example_id_def scalar_def)

end
