(* ===== verification/Localized.thy ===== *)
theory Localized
  imports Json "HOL-Library.Sublist"
begin

text \<open>
  The resolution of a localized section (\<open>localized-content.ts\<close>): the reference algorithm with its fallback
  through the script and the language, the algorithm it replaced, and the key patterns of both.
\<close>

section \<open>Sections\<close>

record content_section =
  se_data :: jobject
  se_localizations :: jobject

text \<open>\<open>{ ...a, ...b }\<close>; spreading a value that is not an object adds nothing the sections hold.\<close>

definition spread :: "jobject \<Rightarrow> json \<Rightarrow> jobject" where
  "spread es v = (case v of JObj fs \<Rightarrow> foldl (\<lambda>out (k, x). AList.update k x out) es fs | _ \<Rightarrow> es)"

definition localized :: "content_section \<Rightarrow> string \<Rightarrow> jobject option" where
  "localized sec key =
     (let v = js_get (se_localizations sec) key in
      if is_truthy v then Some (spread (se_data sec) (the v)) else None)"

definition alpha4 :: "string \<Rightarrow> bool" where
  "alpha4 s = (length s = 4 \<and> list_all (\<lambda>c. is_lower c \<or> is_upper c) s)"

definition resolveSection :: "content_section \<Rightarrow> string \<Rightarrow> string \<Rightarrow> jobject" where
  "resolveSection sec negotiated base =
     (if negotiated = base \<or> se_localizations sec = [] then se_data sec
      else
        (case localized sec negotiated of Some r \<Rightarrow> r
         | None \<Rightarrow>
             let parts = split_char (CHR ''-'') negotiated;
                 script = (if 3 \<le> length parts \<and> alpha4 (parts ! 1) then localized sec (hd parts @ ''-'' @ parts ! 1) else None) in
             (case script of Some r \<Rightarrow> r
              | None \<Rightarrow>
                  (case (if 2 \<le> length parts then localized sec (hd parts) else None) of Some r \<Rightarrow> r | None \<Rightarrow> se_data sec))))"

definition resolveSectionRfc0103 :: "content_section \<Rightarrow> string \<Rightarrow> string \<Rightarrow> jobject" where
  "resolveSectionRfc0103 sec negotiated base =
     (if negotiated = base \<or> se_localizations sec = [] then se_data sec
      else
        (case localized sec negotiated of Some r \<Rightarrow> r
         | None \<Rightarrow>
             (case (if CHR ''-'' \<in> set negotiated then localized sec (hd (split_char (CHR ''-'') negotiated)) else None) of
                Some r \<Rightarrow> r | None \<Rightarrow> se_data sec)))"

text \<open>\<open>LOCALE_KEY_PATTERN_RFC0103\<close> and \<open>LOCALE_KEY_PATTERN\<close>.\<close>

definition locale_key_0103 :: "string \<Rightarrow> bool" where
  "locale_key_0103 s =
     (2 \<le> length s \<and> list_all is_lower (take 2 s) \<and>
      (drop 2 s = [] \<or> (length s = 5 \<and> s ! 2 = CHR ''-'' \<and> list_all is_upper (drop 3 s))))"

definition region_ok :: "string \<Rightarrow> bool" where
  "region_ok r =
     (r = [] \<or> (length r = 3 \<and> hd r = CHR ''-'' \<and> list_all is_upper (tl r)) \<or>
      (length r = 4 \<and> hd r = CHR ''-'' \<and> list_all is_digit (tl r)))"

definition script_ok :: "string \<Rightarrow> bool" where
  "script_ok r = (5 \<le> length r \<and> hd r = CHR ''-'' \<and> is_upper (r ! 1) \<and> list_all is_lower (take 3 (drop 2 r)))"

definition after_language :: "string \<Rightarrow> bool" where
  "after_language r = (region_ok r \<or> (script_ok r \<and> region_ok (drop 5 r)))"

definition locale_key :: "string \<Rightarrow> bool" where
  "locale_key s =
     ((2 \<le> length s \<and> list_all is_lower (take 2 s) \<and> after_language (drop 2 s)) \<or>
      (3 \<le> length s \<and> list_all is_lower (take 3 s) \<and> after_language (drop 3 s)))"

section \<open>The amended algorithm extends the old one\<close>

text \<open>A section all of whose keys were valid before the amendment.\<close>

definition section_0103 :: "content_section \<Rightarrow> bool" where
  "section_0103 sec = list_all (\<lambda>(k, v). locale_key_0103 k) (se_localizations sec)"

lemma split_dash: "CHR ''-'' \<in> set s \<longleftrightarrow> 2 \<le> length (split_char (CHR ''-'') s)"
proof
  assume "CHR ''-'' \<in> set s"
  then obtain a b where s: "s = a @ CHR ''-'' # b" by (meson split_list)
  then have "split_char (CHR ''-'') s = split_char (CHR ''-'') a @ split_char (CHR ''-'') b" by (simp add: split_char_append)
  moreover have "split_char (CHR ''-'') a \<noteq> []" "split_char (CHR ''-'') b \<noteq> []" by simp_all
  ultimately show "2 \<le> length (split_char (CHR ''-'') s)"
    by (cases "split_char (CHR ''-'') a"; cases "split_char (CHR ''-'') b") auto
next
  assume "2 \<le> length (split_char (CHR ''-'') s)"
  then show "CHR ''-'' \<in> set s" using split_char_single [of "CHR ''-''" s] by (cases "CHR ''-'' \<in> set s") auto
qed

lemma script_not_0103: "alpha4 t \<Longrightarrow> \<not> locale_key_0103 (l @ ''-'' @ t)"
proof
  assume t: "alpha4 t" and k: "locale_key_0103 (l @ ''-'' @ t)"
  let ?s = "l @ ''-'' @ t"
  have len: "length ?s = length l + 5" using t by (simp add: alpha4_def)
  then have "drop 2 ?s \<noteq> []" unfolding drop_eq_Nil by linarith
  with k len have "length l = 0" by (auto simp: locale_key_0103_def)
  with k have "is_lower (CHR ''-'')" by (simp add: locale_key_0103_def numeral_2_eq_2)
  then show False by (simp add: is_lower_def)
qed

lemma own_key: "is_truthy (js_get es k) \<Longrightarrow> k \<in> fst ` set es \<or> proto_member k \<noteq> None"
  by (auto simp: js_get_def is_truthy_def split: option.splits dest: map_of_SomeD) (force dest: map_of_SomeD)+

lemma script_not_proto: "alpha4 t \<Longrightarrow> proto_member (l @ ''-'' @ t) = None"
proof -
  assume "alpha4 t"
  have "CHR ''-'' \<in> set (l @ ''-'' @ t)" by simp
  moreover have "CHR ''-'' \<notin> set ''constructor''" "CHR ''-'' \<notin> set ''__proto__''" "\<forall>f \<in> set object_prototype_functions. CHR ''-'' \<notin> set f"
    by (simp_all add: object_prototype_functions_def)
  ultimately show ?thesis unfolding proto_member_def by metis
qed

text \<open>
  Claim C37: the amendment changes nothing that was valid before it: on a section whose keys all match
  the superseded pattern, the amended algorithm returns what the frozen one returns, for every
  negotiated and base locale.
\<close>

theorem amended_resolution_identity:
  assumes "section_0103 sec"
  shows "resolveSection sec negotiated base = resolveSectionRfc0103 sec negotiated base"
proof -
  have none: "localized sec (l @ ''-'' @ t) = None" if "alpha4 t" for l t
  proof -
    have "l @ ''-'' @ t \<notin> fst ` set (se_localizations sec)"
      using assms script_not_0103 [OF that, of l] by (auto simp: section_0103_def list_all_iff)
    then show ?thesis
      using own_key [of "se_localizations sec" "l @ ''-'' @ t"] script_not_proto [OF that, of l] by (auto simp: localized_def Let_def)
  qed
  have script: "(if 3 \<le> length parts \<and> alpha4 (parts ! 1) then localized sec (hd parts @ ''-'' @ parts ! 1) else None) = None" for parts
    using none by simp
  show ?thesis
    unfolding resolveSection_def resolveSectionRfc0103_def Let_def script split_dash by (simp split: option.split)
qed

text \<open>Every key the superseded pattern takes the new one takes.\<close>

lemma locale_keys_superset: "locale_key_0103 s \<Longrightarrow> locale_key s"
proof -
  assume k: "locale_key_0103 s"
  have "after_language (drop 2 s)"
  proof (cases "drop 2 s = []")
    case False
    with k have l: "length s = 5" "s ! 2 = CHR ''-''" "list_all is_upper (drop 3 s)" by (auto simp: locale_key_0103_def)
    then have "drop 2 s = s ! 2 # drop 3 s" using Cons_nth_drop_Suc [of 2 s] by simp
    with l show ?thesis by (simp add: after_language_def region_ok_def)
  qed (simp add: after_language_def region_ok_def)
  with k show ?thesis by (auto simp: locale_key_0103_def locale_key_def)
qed

text \<open>
  The fallback goes from the nearest locale outwards: when the exact locale and its script family have no
  content and the language has, the language's members are laid over the base's.
\<close>

theorem fallback_reaches_language:
  assumes "negotiated = lang @ ''-'' @ rest" and "CHR ''-'' \<notin> set lang" and "negotiated \<noteq> base"
    and "map_of (se_localizations sec) lang = Some (JObj fs)"
    and "list_all (\<lambda>(k, v). k = lang \<or> \<not> (\<exists>t. prefix k negotiated \<and> k = lang @ ''-'' @ t)) (se_localizations sec)"
  shows "resolveSection sec negotiated base = spread (se_data sec) (JObj fs)"
proof -
  have parts: "split_char (CHR ''-'') negotiated = lang # split_char (CHR ''-'') rest"
    using assms(1,2) split_char_append [of "CHR ''-''" lang rest] by (simp add: split_char_single)
  have none: "localized sec (lang @ ''-'' @ t) = None" if "prefix (lang @ ''-'' @ t) negotiated" for t
  proof -
    have "lang @ ''-'' @ t \<notin> fst ` set (se_localizations sec)" using assms(5) that by (auto simp: list_all_iff)
    moreover have "proto_member (lang @ ''-'' @ t) = None"
    proof -
      have "CHR ''-'' \<in> set (lang @ ''-'' @ t)" by simp
      moreover have "CHR ''-'' \<notin> set ''constructor''" "CHR ''-'' \<notin> set ''__proto__''" "\<forall>f \<in> set object_prototype_functions. CHR ''-'' \<notin> set f"
        by (simp_all add: object_prototype_functions_def)
      ultimately show ?thesis unfolding proto_member_def by metis
    qed
    ultimately show ?thesis using own_key [of "se_localizations sec" "lang @ ''-'' @ t"] by (auto simp: localized_def Let_def)
  qed
  have first: "prefix (split_char (CHR ''-'') rest ! 0) rest"
    by (induction rest) (auto split: list.splits)
  have lang: "localized sec lang = Some (spread (se_data sec) (JObj fs))"
    using assms(4) by (simp add: localized_def js_get_def is_truthy_def)
  have ne: "se_localizations sec \<noteq> []" using assms(4) by auto
  have exact: "localized sec negotiated = None" using none [of rest] assms(1) by simp
  have script: "localized sec (lang @ ''-'' @ split_char (CHR ''-'') rest ! 0) = None"
    using none first assms(1) by simp
  have "Suc 0 \<le> length (split_char (CHR ''-'') rest)" by (simp add: Suc_le_eq)
  then show ?thesis
    using assms(3) ne exact script lang by (simp add: resolveSection_def parts Let_def)
qed

definition sample_section :: content_section where
  "sample_section = \<lparr>se_data = [(''title'', JStr ''hello'')], se_localizations = [(''fr'', JObj [(''title'', JStr ''bonjour'')])]\<rparr>"

theorem amended_resolution_identity_witness:
  "resolveSection sample_section ''fr-Latn-CA'' ''en'' = resolveSectionRfc0103 sample_section ''fr-Latn-CA'' ''en''"
  by (rule amended_resolution_identity) code_simp

theorem fallback_reaches_language_witness:
  "resolveSection sample_section ''fr-Latn-CA'' ''en'' = spread [(''title'', JStr ''hello'')] (JObj [(''title'', JStr ''bonjour'')])"
  using fallback_reaches_language [of "''fr-Latn-CA''" "''fr''" "''Latn-CA''" "''en''" sample_section "[(''title'', JStr ''bonjour'')]"]
  by (simp add: sample_section_def)

end
