(* ===== verification/Canary_Text.thy ===== *)
theory Canary_Text
  imports Prelude "HOL-Library.Multiset"
begin

text \<open>
  The leak detector over captured text (\<open>canaries.ts\<close>), and the comparison of two effect ledgers
  (\<open>effect-refire.ts\<close>) that decides which attempts of a replay fork the parent never made.
\<close>

section \<open>Canaries\<close>

definition CANARY_MARKER :: string where
  "CANARY_MARKER = ''CANARY-openwop-CONFORMANCE-NEVER-SECRET''"

definition buildCanary :: "string \<Rightarrow> string \<Rightarrow> string" where
  "buildCanary pre body = pre @ CANARY_MARKER @ ''-'' @ body"

record canary =
  ca_label :: string
  ca_value :: string

definition CANARIES :: "canary list" where
  "CANARIES =
     [\<lparr>ca_label = ''openai'', ca_value = buildCanary ''sk-'' ''oai9Lt7Nw2QrZ0aB8mYjPpQe''\<rparr>,
      \<lparr>ca_label = ''anthropic'', ca_value = buildCanary (''sk-'' @ ''ant-'') ''ant3Ko0LqFqzv9Sb1J7mNcR''\<rparr>,
      \<lparr>ca_label = ''google'', ca_value = ''AIza'' @ CANARY_MARKER @ ''Goog12345abcdef9876''\<rparr>,
      \<lparr>ca_label = ''jwt-bearer'',
        ca_value = ''eyJhbGciOiJIUzI1NiJ9.'' @ ''eyJjYW5hcnkiOnRydWV9.'' @ CANARY_MARKER @ ''-jwt-signature-xyz''\<rparr>,
      \<lparr>ca_label = ''byok-credential-ref'', ca_value = buildCanary ''cred_'' ''OpaqueRefAlphaNumX9Y8Z7''\<rparr>]"

record text_leak =
  tl_label :: string
  tl_value :: string
  tl_position :: nat

definition exact_leaks :: "string \<Rightarrow> text_leak list" where
  "exact_leaks captured =
     concat (map (\<lambda>c. case index_of (ca_value c) captured of None \<Rightarrow> []
       | Some pos \<Rightarrow> [\<lparr>tl_label = ca_label c, tl_value = ca_value c, tl_position = pos\<rparr>]) CANARIES)"

definition index_from :: "string \<Rightarrow> string \<Rightarrow> nat \<Rightarrow> nat option" where
  "index_from p s frm = map_option (\<lambda>i. i + frm) (index_of p (drop frm s))"

definition covers :: "text_leak \<Rightarrow> nat \<Rightarrow> bool" where
  "covers l pos = (tl_position l \<le> pos \<and> pos < tl_position l + length (tl_value l))"

lemma starts_with_short: "starts_with p s \<Longrightarrow> length p \<le> length s"
  by (auto simp: starts_with_iff)

lemma index_of_bound: "index_of p s = Some i \<Longrightarrow> i + length p \<le> length s"
proof (induction p s arbitrary: i rule: index_of.induct)
  case (2 p c cs)
  then show ?case using starts_with_short [of p "c # cs"] by (auto split: if_splits)
qed (auto dest: starts_with_short split: if_splits)

function marker_scan :: "string \<Rightarrow> nat \<Rightarrow> text_leak list \<Rightarrow> text_leak list" where
  "marker_scan captured scanFrom leaks =
     (if scanFrom < length captured
      then (case index_from CANARY_MARKER captured scanFrom of
              None \<Rightarrow> leaks
            | Some pos \<Rightarrow>
                marker_scan captured (pos + length CANARY_MARKER)
                  (if list_ex (\<lambda>l. covers l pos) leaks then leaks
                   else leaks @ [\<lparr>tl_label = ''marker-only'', tl_value = CANARY_MARKER, tl_position = pos\<rparr>]))
      else leaks)"
  by pat_completeness auto
termination
  by (relation "measure (\<lambda>(captured, frm, leaks). length captured - frm)") (auto simp: index_from_def CANARY_MARKER_def)

declare marker_scan.simps [simp del]

definition findCanaryLeaks :: "string \<Rightarrow> text_leak list" where
  "findCanaryLeaks captured = marker_scan captured 0 (exact_leaks captured)"

definition getCanary :: "string \<Rightarrow> canary option" where
  "getCanary label = List.find (\<lambda>c. ca_label c = label) CANARIES"

text \<open>\<open>None\<close> when nothing leaked, otherwise the label, position and excerpt of each leak.\<close>

definition excerpt :: "string \<Rightarrow> text_leak \<Rightarrow> string" where
  "excerpt captured l =
     (let start = tl_position l - 32; finish = min (length captured) (tl_position l + length (tl_value l) + 32)
      in take (finish - start) (drop start captured))"

definition assertNoCanaryLeak :: "string \<Rightarrow> (string \<times> nat \<times> string) list option" where
  "assertNoCanaryLeak captured =
     (let leaks = findCanaryLeaks captured in
      if leaks = [] then None else Some (map (\<lambda>l. (tl_label l, tl_position l, excerpt captured l)) leaks))"

section \<open>No marker is overlooked\<close>

definition occurs_at :: "string \<Rightarrow> string \<Rightarrow> nat \<Rightarrow> bool" where
  "occurs_at p s i = (\<exists>a b. s = a @ p @ b \<and> length a = i)"

lemma occurs_at_drop: "occurs_at p s i \<longleftrightarrow> i \<le> length s \<and> starts_with p (drop i s)"
proof
  assume "occurs_at p s i"
  then show "i \<le> length s \<and> starts_with p (drop i s)" by (auto simp: occurs_at_def starts_with_iff)
next
  assume i: "i \<le> length s \<and> starts_with p (drop i s)"
  then obtain b where "drop i s = p @ b" by (auto simp: starts_with_iff)
  then have "s = take i s @ p @ b" by (metis append_take_drop_id)
  with i show "occurs_at p s i" unfolding occurs_at_def by (metis length_take min.absorb2)
qed

lemma index_of_least: "index_of p s = Some i \<Longrightarrow> starts_with p (drop i s) \<and> (\<forall>j < i. \<not> starts_with p (drop j s))"
proof (induction p s arbitrary: i rule: index_of.induct)
  case (2 p c cs)
  show ?case
  proof (cases "starts_with p (c # cs)")
    case False
    with 2(2) obtain k where k: "index_of p cs = Some k" "i = Suc k" by auto
    from 2(1) [OF False k(1)] k(2) False show ?thesis by (auto simp: less_Suc_eq_0_disj)
  qed (use 2 in auto)
qed (auto split: if_splits simp: starts_with_def)

lemma index_of_none: "index_of p s = None \<Longrightarrow> j \<le> length s \<Longrightarrow> \<not> starts_with p (drop j s)"
proof (induction p s arbitrary: j rule: index_of.induct)
  case (2 p c cs)
  then show ?case by (cases j) (auto split: if_splits)
qed (auto split: if_splits simp: starts_with_iff)

lemma next_marker:
  assumes "index_from p s frm = Some pos" and "frm \<le> length s"
  shows "frm \<le> pos" and "occurs_at p s pos" and "\<And>q. frm \<le> q \<Longrightarrow> q < pos \<Longrightarrow> \<not> occurs_at p s q"
proof -
  obtain k where k: "index_of p (drop frm s) = Some k" "pos = k + frm" using assms(1) by (auto simp: index_from_def)
  note f = index_of_least [OF k(1)]
  show "frm \<le> pos" using k(2) by simp
  show "occurs_at p s pos" using f k(2) index_of_bound [OF k(1)] assms(2) by (auto simp: occurs_at_drop add.commute)
  show "\<not> occurs_at p s q" if q: "frm \<le> q" "q < pos" for q
  proof -
    have "q - frm < k" using q k(2) by simp
    with f have "\<not> starts_with p (drop (q - frm) (drop frm s))" by blast
    with q(1) show ?thesis by (simp add: occurs_at_drop)
  qed
qed

lemma no_more_marker: "index_from p s frm = None \<Longrightarrow> frm \<le> q \<Longrightarrow> \<not> occurs_at p s q"
proof
  assume n: "index_from p s frm = None" and q: "frm \<le> q" and o: "occurs_at p s q"
  then have "index_of p (drop frm s) = None" "q - frm \<le> length (drop frm s)" "starts_with p (drop (q - frm) (drop frm s))"
    by (auto simp: index_from_def occurs_at_drop)
  then show False using index_of_none by blast
qed

text \<open>No end of the marker is a beginning of it, so two occurrences never overlap.\<close>

lemma marker_borderless: "list_all (\<lambda>d. drop d CANARY_MARKER \<noteq> take (length CANARY_MARKER - d) CANARY_MARKER) [1..<length CANARY_MARKER]"
  by code_simp

lemma markers_apart:
  assumes "occurs_at CANARY_MARKER s p" and "occurs_at CANARY_MARKER s q" and "p < q"
  shows "p + length CANARY_MARKER \<le> q"
proof (rule ccontr)
  let ?m = CANARY_MARKER
  assume "\<not> ?thesis"
  then have d: "0 < q - p" "q - p < length ?m" using assms(3) by auto
  obtain b where b: "drop p s = ?m @ b" using assms(1) by (auto simp: occurs_at_drop starts_with_iff)
  obtain c where c: "drop q s = ?m @ c" using assms(2) by (auto simp: occurs_at_drop starts_with_iff)
  have "drop q s = drop (q - p) (drop p s)" using assms(3) by simp
  then have "drop (q - p) ?m @ b = ?m @ c" using b c d by simp
  then have "take (length (drop (q - p) ?m)) (?m @ c) = drop (q - p) ?m" by (metis append_eq_conv_conj)
  then have "drop (q - p) ?m = take (length ?m - (q - p)) ?m" using d by simp
  moreover have "q - p \<in> set [1..<length ?m]" using d by simp
  ultimately show False using marker_borderless unfolding list_all_iff by blast
qed

lemma marker_scan_keeps: "set leaks \<subseteq> set (marker_scan captured frm leaks)"
proof (induction captured frm leaks rule: marker_scan.induct)
  case (1 captured scanFrom leaks)
  then show ?case by (subst marker_scan.simps) (fastforce split: option.splits)
qed

lemma marker_scan_covers:
  assumes "occurs_at CANARY_MARKER captured q" and "frm \<le> q"
  shows "\<exists>l \<in> set (marker_scan captured frm leaks). covers l q"
  using assms
proof (induction captured frm leaks rule: marker_scan.induct)
  case (1 captured scanFrom leaks)
  have "q + length CANARY_MARKER \<le> length captured" using 1(2) by (auto simp: occurs_at_def)
  then have less: "scanFrom < length captured" using 1(3) by (simp add: CANARY_MARKER_def)
  show ?case
  proof (cases "index_from CANARY_MARKER captured scanFrom")
    case None
    then show ?thesis using no_more_marker [OF None 1(3)] 1(2) by simp
  next
    case (Some pos)
    let ?new = "if list_ex (\<lambda>l. covers l pos) leaks then leaks
      else leaks @ [\<lparr>tl_label = ''marker-only'', tl_value = CANARY_MARKER, tl_position = pos\<rparr>]"
    have step: "marker_scan captured scanFrom leaks = marker_scan captured (pos + length CANARY_MARKER) ?new"
      using less Some by (subst marker_scan.simps) simp
    note n = next_marker [OF Some less_imp_le [OF less]]
    consider "q = pos" | "pos < q" using n(3) [of q] 1(2,3) by force
    then show ?thesis
    proof cases
      case 1
      have "\<exists>l \<in> set ?new. covers l pos" by (auto simp: list_ex_iff covers_def CANARY_MARKER_def)
      then obtain l where l: "l \<in> set ?new" "covers l pos" by blast
      have "l \<in> set (marker_scan captured scanFrom leaks)"
        unfolding step by (rule subsetD [OF marker_scan_keeps l(1)])
      with l(2) \<open>q = pos\<close> show ?thesis by blast
    next
      case 2
      then have "pos + length CANARY_MARKER \<le> q" using markers_apart [OF n(2) 1(2)] by simp
      from "1.IH" [OF less Some 1(2) this] show ?thesis unfolding step .
    qed
  qed
qed

lemma exact_leak_marked: "l \<in> set (exact_leaks captured) \<Longrightarrow> \<exists>q. occurs_at CANARY_MARKER captured q"
proof -
  assume "l \<in> set (exact_leaks captured)"
  then obtain c where c: "c \<in> set CANARIES" and l: "l \<in> set (case index_of (ca_value c) captured of None \<Rightarrow> []
      | Some pos \<Rightarrow> [\<lparr>tl_label = ca_label c, tl_value = ca_value c, tl_position = pos\<rparr>])"
    unfolding exact_leaks_def by auto
  from l obtain pos where pos: "index_of (ca_value c) captured = Some pos"
    by (cases "index_of (ca_value c) captured") simp_all
  have "list_all (\<lambda>c. has_sub CANARY_MARKER (ca_value c)) CANARIES" by code_simp
  with c obtain a b where "ca_value c = a @ CANARY_MARKER @ b" by (auto simp: list_all_iff has_sub_iff)
  moreover obtain d where "drop pos captured = ca_value c @ d" using index_of_least [OF pos] by (auto simp: starts_with_iff)
  ultimately have "captured = (take pos captured @ a) @ CANARY_MARKER @ b @ d" by (metis append.assoc append_take_drop_id)
  then show ?thesis unfolding occurs_at_def by blast
qed

lemma marker_scan_origin:
  "l \<in> set (marker_scan captured frm leaks) \<Longrightarrow> frm \<le> length captured \<Longrightarrow> l \<in> set leaks \<or> (\<exists>q. occurs_at CANARY_MARKER captured q)"
proof (induction captured frm leaks rule: marker_scan.induct)
  case (1 captured scanFrom leaks)
  show ?case
  proof (cases "scanFrom < length captured")
    case True
    show ?thesis
    proof (cases "index_from CANARY_MARKER captured scanFrom")
      case None
      with 1(2) show ?thesis by (subst (asm) marker_scan.simps) (simp split: if_splits)
    next
      case (Some pos)
      then show ?thesis using next_marker(2) [OF Some 1(3)] by blast
    qed
  qed (use 1(2) in \<open>subst (asm) marker_scan.simps, simp\<close>)
qed

text \<open>
  Claim C27: the detector misses no canary: whatever surrounds it, every occurrence of the marker lies in the range of
  a reported leak, and nothing is reported exactly when the text does not contain the marker.
\<close>

theorem every_marker_reported:
  "(\<forall>q. occurs_at CANARY_MARKER captured q \<longrightarrow> (\<exists>l \<in> set (findCanaryLeaks captured). covers l q)) \<and>
   (findCanaryLeaks captured = [] \<longleftrightarrow> \<not> has_sub CANARY_MARKER captured)"
proof
  show all: "\<forall>q. occurs_at CANARY_MARKER captured q \<longrightarrow> (\<exists>l \<in> set (findCanaryLeaks captured). covers l q)"
    using marker_scan_covers [of captured _ 0] by (simp add: findCanaryLeaks_def)
  have some: "has_sub CANARY_MARKER captured \<longleftrightarrow> (\<exists>q. occurs_at CANARY_MARKER captured q)"
    by (auto simp: has_sub_iff occurs_at_def)
  have "l \<in> set (findCanaryLeaks captured) \<Longrightarrow> \<exists>q. occurs_at CANARY_MARKER captured q" for l
    using marker_scan_origin [of l captured 0] exact_leak_marked by (auto simp: findCanaryLeaks_def)
  with all some show "findCanaryLeaks captured = [] \<longleftrightarrow> \<not> has_sub CANARY_MARKER captured"
    by (metis empty_iff empty_set list.set_sel(1))
qed

theorem every_marker_reported_witness: "\<exists>l \<in> set (findCanaryLeaks (''key='' @ CANARY_MARKER)). covers l 4"
proof -
  have "occurs_at CANARY_MARKER (''key='' @ CANARY_MARKER) 4"
    unfolding occurs_at_def by (rule exI [of _ "''key=''"], rule exI [of _ "[]"]) simp
  with every_marker_reported [of "''key='' @ CANARY_MARKER"] show ?thesis by blast
qed

section \<open>Refired attempts\<close>

text \<open>A row of an effect ledger as the texts \<open>String\<close> gives of its three members.\<close>

record effect_row =
  ef_nodeId :: string
  ef_attempt :: string
  ef_at :: string

definition effect_key :: "effect_row \<Rightarrow> string" where
  "effect_key r = ef_nodeId r @ ''|'' @ ef_attempt r @ ''|'' @ ef_at r"

definition count_of :: "string \<Rightarrow> (string \<times> nat) list \<Rightarrow> nat" where
  "count_of k m = (case map_of m k of None \<Rightarrow> 0 | Some n \<Rightarrow> n)"

definition count_attempts :: "effect_row list \<Rightarrow> (string \<times> nat) list" where
  "count_attempts rows = fold (\<lambda>r m. AList.update (effect_key r) (count_of (effect_key r) m + 1) m) rows []"

fun refire_loop :: "(string \<times> nat) list \<Rightarrow> effect_row list \<Rightarrow> effect_row list" where
  "refire_loop available [] = []"
| "refire_loop available (r # rs) =
     (let n = count_of (effect_key r) available in
      if 0 < n then refire_loop (AList.update (effect_key r) (n - 1) available) rs
      else r # refire_loop available rs)"

definition refiredAttempts :: "effect_row list \<Rightarrow> effect_row list \<Rightarrow> effect_row list" where
  "refiredAttempts parent fork = refire_loop (count_attempts parent) fork"

lemma count_attempts_mset: "count_of k (count_attempts rows) = count (mset (map effect_key rows)) k"
proof -
  have "count_of k (fold (\<lambda>r m. AList.update (effect_key r) (count_of (effect_key r) m + 1) m) rows m) =
      count_of k m + count (mset (map effect_key rows)) k" for m
    by (induction rows arbitrary: m) (auto simp: count_of_def split: option.splits)
  from this [of "[]"] show ?thesis by (simp add: count_attempts_def count_of_def)
qed

lemma refire_loop_mset:
  assumes "\<And>k. count_of k m = count M k"
  shows "mset (map effect_key (refire_loop m fork)) = mset (map effect_key fork) - M"
  using assms
proof (induction fork arbitrary: m M)
  case (Cons r rs)
  let ?k = "effect_key r"
  show ?case
  proof (cases "0 < count_of ?k m")
    case True
    then have "0 < count M ?k" using Cons.prems [of ?k] by simp
    then have "?k \<in># M" by (simp only: count_greater_zero_iff)
    then obtain N where N: "M = add_mset ?k N" by (blast dest: multi_member_split)
    have "count_of k (AList.update ?k (count_of ?k m - 1) m) = count (M - {#?k#}) k" for k
      using Cons.prems [of k] by (simp add: count_of_def)
    from Cons.IH [OF this] have "mset (map effect_key (refire_loop (AList.update ?k (count_of ?k m - 1) m) rs)) = mset (map effect_key rs) - (M - {#?k#})" .
    then show ?thesis using True N by (simp add: Let_def)
  next
    case False
    then have "?k \<notin># M" using Cons.prems [of ?k] by (simp add: count_eq_zero_iff)
    then show ?thesis using Cons.IH [OF Cons.prems] False by (simp add: Let_def)
  qed
qed simp

text \<open>
  The attempts counted as refired are, as a multiset of keys, those of the fork less those of the parent: a row
  the parent recorded \<open>n\<close> times excuses \<open>n\<close> of the fork's and no more.
\<close>

theorem refired_is_difference:
  "mset (map effect_key (refiredAttempts parent fork)) = mset (map effect_key fork) - mset (map effect_key parent)"
  unfolding refiredAttempts_def by (rule refire_loop_mset) (rule count_attempts_mset)

text \<open>
  The key joins its parts with a bar the parts may hold: a fork's attempt of one node is excused by the
  parent's attempt of another.
\<close>

theorem refire_excused_by_bar:
  assumes "parent = \<lparr>ef_nodeId = a, ef_attempt = b @ ''|'' @ c, ef_at = d\<rparr>"
    and "fork = \<lparr>ef_nodeId = a @ ''|'' @ b, ef_attempt = c, ef_at = d\<rparr>"
  shows "refiredAttempts [parent] [fork] = []"
proof -
  have "mset (map effect_key (refiredAttempts [parent] [fork])) = {#}"
    unfolding refiredAttempts_def refire_loop_mset [OF count_attempts_mset] by (simp add: assms effect_key_def)
  then show ?thesis by simp
qed

theorem refire_excused_by_bar_witness:
  "refiredAttempts [\<lparr>ef_nodeId = ''n'', ef_attempt = ''1|2'', ef_at = ''t''\<rparr>] [\<lparr>ef_nodeId = ''n|1'', ef_attempt = ''2'', ef_at = ''t''\<rparr>] = []"
  using refire_excused_by_bar [of _ "''n''" "''1''" "''2''" "''t''"] by simp

end
