(* ===== verification/Audit_Checkpoint.thy ===== *)
theory Audit_Checkpoint
  imports Jcs Base64
begin

text \<open>
  The audit checkpoint (\<open>audit-checkpoint.ts\<close>): the hash of an entry, the root over a range of entry hashes and
  the check of its signature; and the search of events for a value sent to a host (\<open>carries-payload.ts\<close>), which
  compares canonical texts as well. SHA-256 and Ed25519 are parameters; a text stands for its bytes.
\<close>

section \<open>The root\<close>

definition hex_char :: "char \<Rightarrow> bool" where
  "hex_char c = (is_digit c \<or> ((97 :: nat) \<le> of_char c \<and> (of_char c :: nat) \<le> 102))"

definition HEX64 :: "string \<Rightarrow> bool" where
  "HEX64 s = (length s = 64 \<and> list_all hex_char s)"

definition auditEntryHash :: "(units \<Rightarrow> string) \<Rightarrow> int jv \<Rightarrow> refusal + string" where
  "auditEntryHash sha entry = ebind (canonicalJSON int_ops entry) (\<lambda>t. Inr (sha t))"

datatype checkpoint_error = Empty_range | Wrong_count nat nat | Bad_leaf string

text \<open>One level up: parents of pairs, the last odd node as it is.\<close>

fun next_level :: "(string \<Rightarrow> string) \<Rightarrow> string list \<Rightarrow> string list" where
  "next_level sha (l # r # rest) = sha (l @ r) # next_level sha rest"
| "next_level sha [l] = [l]"
| "next_level sha [] = []"

lemma next_level_length: "length (next_level sha xs) = (length xs + 1) div 2"
  by (induction sha xs rule: next_level.induct) auto

function root_of :: "(string \<Rightarrow> string) \<Rightarrow> string list \<Rightarrow> string" where
  "root_of sha level = (if 1 < length level then root_of sha (next_level sha level) else hd level)"
  by pat_completeness auto
termination
  by (relation "measure (\<lambda>(sha, level). length level)") (auto simp: next_level_length)

declare root_of.simps [simp del]

definition checkpointMerkleRoot :: "(string \<Rightarrow> string) \<Rightarrow> string list \<Rightarrow> nat option \<Rightarrow> checkpoint_error + string" where
  "checkpointMerkleRoot sha leaves expectedLeaves =
     (if leaves = [] then Inl Empty_range
      else if expectedLeaves \<noteq> None \<and> expectedLeaves \<noteq> Some (length leaves) then Inl (Wrong_count (the expectedLeaves) (length leaves))
      else (case List.find (\<lambda>l. \<not> HEX64 l) leaves of
              Some l \<Rightarrow> Inl (Bad_leaf l)
            | None \<Rightarrow> Inr (root_of sha leaves)))"

text \<open>\<open>Buffer.from(s, 'hex')\<close> of a text that matches the pattern.\<close>

definition nibble_of :: "char \<Rightarrow> nat" where
  "nibble_of c = (if is_digit c then of_char c - 48 else of_char c - 87)"

fun hex_bytes :: "string \<Rightarrow> nat list" where
  "hex_bytes (a # b # r) = (16 * nibble_of a + nibble_of b) # hex_bytes r"
| "hex_bytes r = []"

definition verifyCheckpointSignature :: "('k \<Rightarrow> nat list \<Rightarrow> nat list \<Rightarrow> bool) \<Rightarrow> string \<Rightarrow> string \<Rightarrow> 'k \<Rightarrow> bool" where
  "verifyCheckpointSignature verify merkleRoot signature key =
     (if \<not> HEX64 merkleRoot then False
      else
        let sig = from_base64 signature in
        if length sig \<noteq> 64 then False else verify key (hex_bytes merkleRoot) sig)"

datatype key_source = Pem string | Spki_der "nat list"

definition checkpointPublicKey :: "(key_source \<Rightarrow> 'k option) \<Rightarrow> string \<Rightarrow> 'k option" where
  "checkpointPublicKey create advertised =
     create (if starts_with ''-----BEGIN'' advertised then Pem advertised else Spki_der (from_base64 advertised))"

section \<open>What a root commits to\<close>

text \<open>
  The texts that are hashed on the way to a root, level by level. A hash of fixed width collides somewhere, so what a
  root commits to is stated by the texts the two computations hash, and not by the existence of a collision.
\<close>

fun pairs_of :: "string list \<Rightarrow> string list" where
  "pairs_of (l # r # rest) = (l @ r) # pairs_of rest"
| "pairs_of [l] = []"
| "pairs_of [] = []"

function hashed :: "(string \<Rightarrow> string) \<Rightarrow> string list \<Rightarrow> string list" where
  "hashed sha level = (if 1 < length level then pairs_of level @ hashed sha (next_level sha level) else [])"
  by pat_completeness auto
termination
  by (relation "measure (\<lambda>(sha, level). length level)") (auto simp: next_level_length)

declare hashed.simps [simp del]

text \<open>Two texts with one hash, the first of them hashed in one computation and the second in the other.\<close>

definition clash :: "(string \<Rightarrow> string) \<Rightarrow> string list \<Rightarrow> string list \<Rightarrow> bool" where
  "clash sha xs ys = (\<exists>x \<in> set xs. \<exists>y \<in> set ys. x \<noteq> y \<and> sha x = sha y)"

lemma clash_mono: "clash sha xs ys \<Longrightarrow> set xs \<subseteq> set xs' \<Longrightarrow> set ys \<subseteq> set ys' \<Longrightarrow> clash sha xs' ys'"
  unfolding clash_def by blast

lemma level_hex: "list_all HEX64 xs \<Longrightarrow> (\<And>s. HEX64 (sha s)) \<Longrightarrow> list_all HEX64 (next_level sha xs)"
  by (induction sha xs rule: next_level.induct) auto

lemma level_commits:
  assumes "length xs = length ys" and "list_all HEX64 xs" and "list_all HEX64 ys"
    and "next_level sha xs = next_level sha ys" and "\<not> clash sha (pairs_of xs) (pairs_of ys)"
  shows "xs = ys"
  using assms
proof (induction sha xs arbitrary: ys rule: next_level.induct)
  case (1 sha l r rest)
  then obtain l' r' rest' where ys: "ys = l' # r' # rest'" by (cases ys; cases "tl ys") auto
  have "sha (l @ r) = sha (l' @ r')" using 1(5) by (simp add: ys)
  with 1(6) have "l @ r = l' @ r'" by (auto simp: clash_def ys)
  moreover have "length l = length l'" using 1(3,4) by (simp add: ys HEX64_def)
  moreover have "\<not> clash sha (pairs_of rest) (pairs_of rest')" using 1(6) by (auto simp: clash_def ys)
  ultimately show ?case using 1 by (simp add: ys)
next
  case (2 sha l)
  then show ?case by (cases ys) auto
qed simp

lemma root_commits:
  assumes "length xs = length ys" and "xs \<noteq> []" and "list_all HEX64 xs" and "list_all HEX64 ys"
    and "root_of sha xs = root_of sha ys" and "\<And>s. HEX64 (sha s)" and "\<not> clash sha (hashed sha xs) (hashed sha ys)"
  shows "xs = ys"
  using assms
proof (induction "length xs" arbitrary: xs ys rule: less_induct)
  case less
  show ?case
  proof (cases "1 < length xs")
    case True
    have "root_of sha (next_level sha xs) = root_of sha (next_level sha ys)"
      using less.prems(1,5) True by (simp add: root_of.simps [of sha xs] root_of.simps [of sha ys])
    moreover have "next_level sha xs \<noteq> []" using True next_level_length [of sha xs] by auto
    moreover have split: "hashed sha xs = pairs_of xs @ hashed sha (next_level sha xs)"
        "hashed sha ys = pairs_of ys @ hashed sha (next_level sha ys)"
      using less.prems(1) True by (simp_all add: hashed.simps [of sha xs] hashed.simps [of sha ys])
    then have free: "\<not> clash sha (hashed sha (next_level sha xs)) (hashed sha (next_level sha ys))"
        "\<not> clash sha (pairs_of xs) (pairs_of ys)"
      using less.prems(7) clash_mono by auto
    ultimately have "next_level sha xs = next_level sha ys"
      using less.hyps [of "next_level sha xs" "next_level sha ys"] less.prems True
      by (simp add: next_level_length level_hex)
    with less.prems free(2) show ?thesis by (blast intro: level_commits)
  next
    case False
    with less.prems(1,2) obtain a b where "xs = [a]" "ys = [b]" by (cases xs; cases ys) auto
    with less.prems(5) show ?thesis by (simp add: root_of.simps)
  qed
qed

lemma root_value:
  "checkpointMerkleRoot sha leaves n = Inr r \<longleftrightarrow>
     leaves \<noteq> [] \<and> (n = None \<or> n = Some (length leaves)) \<and> list_all HEX64 leaves \<and> r = root_of sha leaves"
  by (auto simp: checkpointMerkleRoot_def find_None_iff find_Some_iff list_all_iff split: option.splits)

text \<open>
  Claim C36: with the count held, a root commits to its entries: two ranges of the expected length with one root are the same
  range, entry by entry, or two different texts have one hash, one of them hashed in computing the first root and the
  other in computing the second. To change an entry under a published root is to find a second preimage among those.
\<close>

theorem root_binds_leaves:
  assumes "checkpointMerkleRoot sha leaves (Some n) = Inr r" and "checkpointMerkleRoot sha leaves' (Some n) = Inr r"
    and "\<And>s. HEX64 (sha s)"
  shows "leaves = leaves' \<or> (\<exists>x \<in> set (hashed sha leaves). \<exists>y \<in> set (hashed sha leaves'). x \<noteq> y \<and> sha x = sha y)"
  using assms root_commits [of leaves leaves' sha] by (auto simp: root_value clash_def)

text \<open>
  Without the count it does not: for every range of more than two entries, the inner nodes presented as
  leaves have the same root, and holding the count refuses them.
\<close>

theorem inner_nodes_pass_uncounted:
  assumes "checkpointMerkleRoot sha leaves None = Inr r" and "2 < length leaves" and "\<And>s. HEX64 (sha s)"
  shows "checkpointMerkleRoot sha (next_level sha leaves) None = Inr r \<and>
    (\<exists>e. checkpointMerkleRoot sha (next_level sha leaves) (Some (length leaves)) = Inl e)"
proof -
  have "next_level sha leaves \<noteq> []" "length (next_level sha leaves) \<noteq> length leaves"
    using assms(2) next_level_length [of sha leaves] by auto
  moreover have "root_of sha leaves = root_of sha (next_level sha leaves)"
    using assms(2) by (simp add: root_of.simps [of sha leaves])
  ultimately show ?thesis
    using assms level_hex [of leaves sha] by (auto simp: root_value) (auto simp: checkpointMerkleRoot_def)
qed

definition sample_sha :: "string \<Rightarrow> string" where
  "sample_sha s = replicate 64 (if s = [] then CHR ''0'' else CHR ''1'')"

lemma sample_sha_hex: "HEX64 (sample_sha s)"
  by (simp add: sample_sha_def HEX64_def list_all_iff hex_char_def is_digit_def)

definition sample_leaves :: "string list" where
  "sample_leaves = map (\<lambda>c. replicate 64 c) [CHR ''a'', CHR ''b'', CHR ''c'']"

lemma sample_root: "checkpointMerkleRoot sample_sha sample_leaves n = Inr (root_of sample_sha sample_leaves) \<longleftrightarrow> n = None \<or> n = Some 3"
  by (auto simp: root_value sample_leaves_def HEX64_def list_all_iff hex_char_def)

definition other_leaves :: "string list" where
  "other_leaves = map (\<lambda>c. replicate 64 c) [CHR ''d'', CHR ''e'', CHR ''f'']"

theorem root_binds_leaves_witness:
  "sample_leaves \<noteq> other_leaves \<and>
   (\<exists>x \<in> set (hashed sample_sha sample_leaves). \<exists>y \<in> set (hashed sample_sha other_leaves). x \<noteq> y \<and> sample_sha x = sample_sha y)"
proof -
  have a: "checkpointMerkleRoot sample_sha sample_leaves (Some 3) = Inr (root_of sample_sha sample_leaves)" by (simp add: sample_root)
  have "root_of sample_sha other_leaves = root_of sample_sha sample_leaves"
    by (simp add: root_of.simps sample_leaves_def other_leaves_def sample_sha_def)
  then have b: "checkpointMerkleRoot sample_sha other_leaves (Some 3) = Inr (root_of sample_sha sample_leaves)"
    by (auto simp: root_value other_leaves_def HEX64_def list_all_iff hex_char_def)
  have "sample_leaves \<noteq> other_leaves" by (simp add: sample_leaves_def other_leaves_def)
  then show ?thesis using root_binds_leaves [OF a b sample_sha_hex] by blast
qed

theorem inner_nodes_pass_uncounted_witness:
  "checkpointMerkleRoot sample_sha (next_level sample_sha sample_leaves) None = Inr (root_of sample_sha sample_leaves)"
proof -
  have "2 < length sample_leaves" by (simp add: sample_leaves_def)
  then show ?thesis
    using inner_nodes_pass_uncounted [of sample_sha sample_leaves "root_of sample_sha sample_leaves"] sample_root sample_sha_hex by blast
qed

section \<open>Whether an event carries a value\<close>

primrec jv_subtrees :: "'n jv \<Rightarrow> 'n jv list" where
  "jv_subtrees V_null = [V_null]"
| "jv_subtrees (V_bool b) = [V_bool b]"
| "jv_subtrees (V_num n) = [V_num n]"
| "jv_subtrees (V_str s) = [V_str s]"
| "jv_subtrees (V_arr vs) = V_arr vs # concat (map jv_subtrees vs)"
| "jv_subtrees (V_obj es) = V_obj es # concat (map snd (map (map_prod id jv_subtrees) es))"
| "jv_subtrees (V_other t) = [V_other t]"

definition jcs_text :: "'n number_ops \<Rightarrow> 'n jv \<Rightarrow> units option" where
  "jcs_text ops v = (case canonicalJSON ops v of Inr t \<Rightarrow> Some t | Inl e \<Rightarrow> None)"

definition event_payload :: "'n jv \<Rightarrow> 'n jv option" where
  "event_payload e = (case e of V_obj es \<Rightarrow> map_of es (units_of ''payload'') | _ \<Rightarrow> None)"

definition carriesPayload :: "'n number_ops \<Rightarrow> 'n jv list \<Rightarrow> 'n jv \<Rightarrow> bool" where
  "carriesPayload ops events sent =
     (case jcs_text ops sent of
        None \<Rightarrow> False
      | Some want \<Rightarrow>
          list_ex (\<lambda>e. case event_payload e of None \<Rightarrow> False
            | Some p \<Rightarrow> list_ex (\<lambda>s. jcs_text ops s = Some want) (jv_subtrees p)) events)"

lemma subtree_ok: "s \<in> set (jv_subtrees v) \<Longrightarrow> i_json ops v \<Longrightarrow> exact ops v \<Longrightarrow> i_json ops s \<and> exact ops s"
proof (induction v)
  case (V_arr vs)
  then show ?case by (auto simp: list_all_iff)
next
  case (V_obj es)
  show ?case
  proof (cases "s = V_obj es")
    case False
    with V_obj.prems(1) obtain k w where kw: "(k, w) \<in> set es" "s \<in> set (jv_subtrees w)" by auto
    have "i_json ops w" "exact ops w" using V_obj.prems(2,3) kw(1) by (fastforce simp: list_all_iff)+
    with V_obj.IH [of "(k, w)" w] kw show ?thesis by simp
  qed (use V_obj.prems in simp)
qed simp_all

lemma jcs_text_same:
  assumes "number_laws ops" and "i_json ops v" and "exact ops v" and "i_json ops w" and "exact ops w"
  shows "jcs_text ops v = jcs_text ops w \<longleftrightarrow> normal ops v = normal ops w"
proof -
  obtain t u where t: "canonicalJSON ops v = Inr t" and u: "canonicalJSON ops w = Inr u"
    using number_laws.canonical_succeeds [OF assms(1)] assms(2,4) by blast
  note pv = number_laws.canonical_parses [OF assms(1) t assms(3)] number_laws.canonical_normal [OF assms(1) t]
  note pw = number_laws.canonical_parses [OF assms(1) u assms(5)] number_laws.canonical_normal [OF assms(1) u]
  show ?thesis using pv pw by (auto simp: jcs_text_def t u)
qed

text \<open>
  The search compares values and not texts: an event is found to carry what was sent exactly when some part of its
  payload is the same value up to the order of members, however the host re-ordered them.
\<close>

theorem carried_up_to_order:
  assumes "number_laws ops" and "i_json ops sent" and "exact ops sent"
    and "\<forall>e \<in> set events. \<forall>p. event_payload e = Some p \<longrightarrow> i_json ops p \<and> exact ops p"
  shows "carriesPayload ops events sent \<longleftrightarrow>
    (\<exists>e \<in> set events. \<exists>p. event_payload e = Some p \<and> (\<exists>s \<in> set (jv_subtrees p). normal ops s = normal ops sent))"
proof -
  obtain want where want: "jcs_text ops sent = Some want"
    using number_laws.canonical_succeeds [OF assms(1,2)] by (auto simp: jcs_text_def)
  have "jcs_text ops s = Some want \<longleftrightarrow> normal ops s = normal ops sent"
    if "e \<in> set events" "event_payload e = Some p" "s \<in> set (jv_subtrees p)" for e p s
    using jcs_text_same [OF assms(1) _ _ assms(2,3), of s] subtree_ok [OF that(3)] assms(4) that(1,2) want by metis
  note part = this
  have "(case event_payload e of None \<Rightarrow> False | Some p \<Rightarrow> list_ex (\<lambda>s. jcs_text ops s = Some want) (jv_subtrees p)) \<longleftrightarrow>
      (\<exists>p. event_payload e = Some p \<and> (\<exists>s \<in> set (jv_subtrees p). normal ops s = normal ops sent))" if e: "e \<in> set events" for e
  proof (cases "event_payload e")
    case (Some p)
    then show ?thesis using part [OF e Some] by (simp add: list_ex_iff)
  qed simp
  then show ?thesis unfolding carriesPayload_def want option.case list_ex_iff by (rule bex_cong [OF refl])
qed

definition sent_surface :: "int jv" where
  "sent_surface = V_obj [([0x61], V_num 1), ([0x62], V_str [0x73])]"

definition stored_surface :: "int jv" where
  "stored_surface = V_obj [([0x62], V_str [0x73]), ([0x61], V_num 1)]"

definition surface_event :: "int jv" where
  "surface_event = V_obj [(units_of ''payload'', V_arr [stored_surface])]"

lemma surface_ok: "i_json int_ops sent_surface" "exact int_ops sent_surface" "i_json int_ops stored_surface" "exact int_ops stored_surface"
  using int_exact [of 1] by (simp_all add: sent_surface_def stored_surface_def max_exact_big_def) (simp_all add: int_ops_def)

theorem carried_up_to_order_witness: "carriesPayload int_ops [surface_event] sent_surface"
proof -
  have p: "event_payload surface_event = Some (V_arr [stored_surface])" by (simp add: surface_event_def event_payload_def)
  have "\<forall>e \<in> set [surface_event]. \<forall>p. event_payload e = Some p \<longrightarrow> i_json int_ops p \<and> exact int_ops p"
    using p surface_ok(3,4) by simp
  note found = carried_up_to_order [OF int_numbers.number_laws_axioms surface_ok(1,2) this]
  have "stored_surface \<in> set (jv_subtrees (V_arr [stored_surface]))" by (simp add: stored_surface_def)
  moreover have "normal int_ops stored_surface = normal int_ops sent_surface"
    by (simp add: stored_surface_def sent_surface_def by_name_def)
  ultimately have "\<exists>s \<in> set (jv_subtrees (V_arr [stored_surface])). normal int_ops s = normal int_ops sent_surface" by (rule bexI [rotated])
  with p have "\<exists>p. event_payload surface_event = Some p \<and> (\<exists>s \<in> set (jv_subtrees p). normal int_ops s = normal int_ops sent_surface)" by blast
  then show ?thesis unfolding found by (rule bexI) simp
qed

end
