(* ===== verification/V2_Members.thy ===== *)
theory V2_Members
  imports Json
begin

text \<open>
  Retirement at major 2: the members a release retires and the search of events for them
  (\<open>v2-retired-members.ts\<close>), and the removal of the retired \<open>supported\<close> flag from a value
  (\<open>v2-projection.ts\<close>). A member named \<open>__proto__\<close> is outside the projection's model.
\<close>

section \<open>Due rows\<close>

record persisted_retirement =
  pr_id :: string
  pr_removeIn :: string
  pr_due :: bool
  pr_schemaFiles :: "string list"

datatype member_kind = Property | Value

record retired_member =
  rm_rowId :: string
  rm_removeIn :: string
  rm_schemaFile :: string
  rm_kind :: member_kind
  rm_name :: string

record retired_emission =
  re_rowId :: string
  re_member :: string
  re_eventType :: string
  re_path :: string

text \<open>Reading a member of \<open>null\<close>.\<close>

datatype read_fault = Null_read

definition digits :: "string \<Rightarrow> bool" where
  "digits s = (s \<noteq> [] \<and> list_all is_digit s)"

definition minorOf :: "string \<Rightarrow> nat option" where
  "minorOf v =
     (case split_char (CHR ''.'') (js_trim v) of
        [a, m] \<Rightarrow> if a = ''2'' \<and> digits m then Some (foldl digit_value 0 m) else None
      | [a, m, p] \<Rightarrow> if a = ''2'' \<and> digits m \<and> digits p then Some (foldl digit_value 0 m) else None
      | _ \<Rightarrow> None)"

definition triggersOf :: "json \<Rightarrow> string list" where
  "triggersOf e =
     (case prop_of e ''removalTrigger'' of
        Some (JArr xs) \<Rightarrow> concat (map (\<lambda>x. case x of JStr s \<Rightarrow> [s] | _ \<Rightarrow> []) xs)
      | Some (JStr s) \<Rightarrow> [s]
      | _ \<Rightarrow> [])"

definition not_null :: "json \<Rightarrow> read_fault + json" where
  "not_null v = (if v = JNull then Inl Null_read else Inr v)"

definition source_file :: "json \<Rightarrow> read_fault + string" where
  "source_file s = ebind (not_null s) (\<lambda>s. Inr (js_string (coalesce (prop_of s ''file'') (JStr ''''))))"

definition elements_of :: "json option \<Rightarrow> json list" where
  "elements_of v = (case v of Some (JArr xs) \<Rightarrow> xs | _ \<Rightarrow> [])"

definition retirement_row :: "nat option \<Rightarrow> json \<Rightarrow> read_fault + persisted_retirement list" where
  "retirement_row rel e =
     ebind (not_null e) (\<lambda>e.
       if ''v2-minor'' \<notin> set (triggersOf e) then Inr []
       else if coalesce (Option.bind (prop_of e ''retirement'') (\<lambda>r. prop_of r ''persistence'')) (JStr ''advertised'') \<noteq> JStr ''persisted'' then Inr []
       else
         let removeIn = js_string (coalesce (prop_of e ''removeIn'') (JStr '''')); due_at = minorOf removeIn in
         ebind (emap source_file (elements_of (prop_of e ''sources''))) (\<lambda>files. Inr
           [\<lparr>pr_id = js_string (coalesce (prop_of e ''id'') (JStr ''(no id)'')), pr_removeIn = removeIn,
             pr_due = (case (rel, due_at) of (Some r, Some a) \<Rightarrow> a \<le> r | _ \<Rightarrow> False),
             pr_schemaFiles = filter (starts_with ''schemas/v2/'') files\<rparr>]))"

definition persistedRetirements :: "json \<Rightarrow> string \<Rightarrow> read_fault + persisted_retirement list" where
  "persistedRetirements deprecations release =
     ebind (emap (retirement_row (minorOf release)) (elements_of (prop_of deprecations ''entries''))) (\<lambda>rows. Inr (concat rows))"

section \<open>Members and their emissions\<close>

definition retired_name :: "string \<Rightarrow> jobject \<Rightarrow> string option \<Rightarrow> string option \<Rightarrow> (member_kind \<times> string) list" where
  "retired_name removeIn es parentKey grandKey =
     (if js_get es ''x-openwop-retired-in'' \<noteq> Some (JStr removeIn) then []
      else
        (case js_get es ''const'' of
           Some (JStr s) \<Rightarrow> [(Value, s)]
         | _ \<Rightarrow>
             (case js_get es ''enum'' of
                Some (JArr [JStr s]) \<Rightarrow> [(Value, s)]
              | _ \<Rightarrow>
                  (case parentKey of Some k \<Rightarrow> if grandKey = Some ''properties'' then [(Property, k)] else [] | None \<Rightarrow> []))))"

fun schema_walk :: "string \<Rightarrow> json \<Rightarrow> string option \<Rightarrow> string option \<Rightarrow> (member_kind \<times> string) list" where
  "schema_walk removeIn (JArr xs) parentKey grandKey = concat (map (\<lambda>x. schema_walk removeIn x None parentKey) xs)"
| "schema_walk removeIn (JObj es) parentKey grandKey =
     retired_name removeIn es parentKey grandKey @ concat (map (\<lambda>(k, v). schema_walk removeIn v (Some k) parentKey) es)"
| "schema_walk removeIn v parentKey grandKey = []"

definition retiredMembers :: "persisted_retirement \<Rightarrow> (string \<Rightarrow> json) \<Rightarrow> retired_member list" where
  "retiredMembers row loadSchema =
     concat (map (\<lambda>file. map (\<lambda>(kind, name). \<lparr>rm_rowId = pr_id row, rm_removeIn = pr_removeIn row, rm_schemaFile = file,
       rm_kind = kind, rm_name = name\<rparr>) (schema_walk (pr_removeIn row) (loadSchema file) None None)) (pr_schemaFiles row))"

definition emissions_of :: "retired_member list \<Rightarrow> member_kind \<Rightarrow> string \<Rightarrow> string \<Rightarrow> string \<Rightarrow> retired_emission list" where
  "emissions_of members kind name eventType path =
     map (\<lambda>m. \<lparr>re_rowId = rm_rowId m, re_member = rm_name m, re_eventType = eventType, re_path = path\<rparr>)
       (filter (\<lambda>m. rm_kind m = kind \<and> name = rm_name m) members)"

lemma item_size [termination_simp]: "(i, x) \<in> set (List.enumerate n xs) \<Longrightarrow> size x < Suc (size_list size xs)"
  by (induction xs arbitrary: n) (auto simp: less_Suc_eq dest: less_imp_le)

fun event_walk :: "retired_member list \<Rightarrow> string \<Rightarrow> json \<Rightarrow> string \<Rightarrow> retired_emission list" where
  "event_walk members eventType (JStr s) path = emissions_of members Value s eventType path"
| "event_walk members eventType (JArr xs) path =
     concat (map (\<lambda>(i, x). event_walk members eventType x (path @ ''['' @ nat_digits i @ '']'')) (List.enumerate 0 xs))"
| "event_walk members eventType (JObj es) path =
     concat (map (\<lambda>(k, v). emissions_of members Property k eventType (path @ ''.'' @ k) @ event_walk members eventType v (path @ ''.'' @ k)) es)"
| "event_walk members eventType v path = []"

definition findRetiredEmissions :: "json list \<Rightarrow> retired_member list \<Rightarrow> retired_emission list" where
  "findRetiredEmissions events members =
     concat (map (\<lambda>ev. event_walk members (js_string (coalesce (prop_of ev ''type'') (JStr ''(untyped)''))) ev ''$'') events)"

text \<open>A value and everything inside it.\<close>

fun subtrees :: "json \<Rightarrow> json list" where
  "subtrees (JArr xs) = JArr xs # concat (map subtrees xs)"
| "subtrees (JObj es) = JObj es # concat (map (\<lambda>(k, v). subtrees v) es)"
| "subtrees v = [v]"

lemma self_subtree [simp]: "v \<in> set (subtrees v)"
  by (cases v) auto

text \<open>Whether a value carries a member anywhere.\<close>

definition carries :: "retired_member \<Rightarrow> json \<Rightarrow> bool" where
  "carries m v =
     (case rm_kind m of
        Value \<Rightarrow> JStr (rm_name m) \<in> set (subtrees v)
      | Property \<Rightarrow> \<exists>es. JObj es \<in> set (subtrees v) \<and> rm_name m \<in> fst ` set es)"

lemma carries_simps:
  "carries m (JStr s) \<longleftrightarrow> rm_kind m = Value \<and> rm_name m = s"
  "carries m (JArr xs) \<longleftrightarrow> (\<exists>x \<in> set xs. carries m x)"
  "carries m (JObj es) \<longleftrightarrow> (\<exists>(k, v) \<in> set es. (rm_kind m = Property \<and> rm_name m = k) \<or> carries m v)"
  "\<not> carries m JNull" "\<not> carries m (JBool b)" "\<not> carries m (JNum n)" "\<not> carries m (JNative f)"
proof -
  show "carries m (JStr s) \<longleftrightarrow> rm_kind m = Value \<and> rm_name m = s" "\<not> carries m JNull" "\<not> carries m (JBool b)"
    "\<not> carries m (JNum n)" "\<not> carries m (JNative f)"
    by (auto simp: carries_def split: member_kind.split)
  show "carries m (JArr xs) \<longleftrightarrow> (\<exists>x \<in> set xs. carries m x)"
    by (cases "rm_kind m") (simp_all add: carries_def, blast)
  show "carries m (JObj es) \<longleftrightarrow> (\<exists>(k, v) \<in> set es. (rm_kind m = Property \<and> rm_name m = k) \<or> carries m v)"
    by (cases "rm_kind m") (simp_all add: carries_def split_beta image_iff, blast)
qed

lemma event_walk_empty: "event_walk members eventType v path = [] \<longleftrightarrow> (\<forall>m \<in> set members. \<not> carries m v)"
proof (induction v arbitrary: path rule: json_induct)
  case (Arr xs)
  have "(\<forall>(i, x) \<in> set (List.enumerate n ys). event_walk members eventType x (p i) = []) \<longleftrightarrow>
      (\<forall>x \<in> set ys. \<forall>m \<in> set members. \<not> carries m x)" if "set ys \<subseteq> set xs" for p n ys
    using that by (induction ys arbitrary: n) (simp_all add: Arr)
  note items = this [OF subset_refl, of 0]
  have "event_walk members eventType (JArr xs) path = [] \<longleftrightarrow>
      (\<forall>(i, x) \<in> set (List.enumerate 0 xs). event_walk members eventType x (path @ ''['' @ nat_digits i @ '']'') = [])"
    by (simp only: event_walk.simps concat_eq_Nil_conv set_map ball_simps case_prod_unfold)
  also have "\<dots> \<longleftrightarrow> (\<forall>m \<in> set members. \<not> carries m (JArr xs))" unfolding items carries_simps by blast
  finally show ?case .
next
  case (Obj es)
  have "(emissions_of members Property k eventType q = [] \<and> event_walk members eventType v q = []) \<longleftrightarrow>
      (\<forall>m \<in> set members. \<not> ((rm_kind m = Property \<and> rm_name m = k) \<or> carries m v))" if "(k, v) \<in> set es" for k v q
    unfolding Obj [OF that] by (auto simp: emissions_of_def filter_empty_conv)
  then have "(\<forall>(k, v) \<in> set es. emissions_of members Property k eventType (q k) = [] \<and> event_walk members eventType v (q k) = []) \<longleftrightarrow>
      (\<forall>(k, v) \<in> set es. \<forall>m \<in> set members. \<not> ((rm_kind m = Property \<and> rm_name m = k) \<or> carries m v))" for q
    by (intro ball_cong refl) auto
  from this [of "\<lambda>k. path @ ''.'' @ k"] show ?case unfolding carries_simps
    by (simp only: event_walk.simps concat_eq_Nil_conv set_map ball_simps case_prod_unfold append_is_Nil_conv) blast
qed (auto simp: carries_simps emissions_of_def filter_empty_conv)

text \<open>
  The search decides: no emission is reported exactly when no event carries a retired member, as a key
  or as a string, at any depth.
\<close>

theorem retired_search_decides:
  "findRetiredEmissions events members = [] \<longleftrightarrow> \<not> (\<exists>ev \<in> set events. \<exists>m \<in> set members. carries m ev)"
  by (auto simp: findRetiredEmissions_def event_walk_empty)

lemma walk_inside: "JObj es \<in> set (subtrees schema) \<Longrightarrow> (k, v) \<in> set es \<Longrightarrow> \<exists>g. set (schema_walk r v (Some k) g) \<subseteq> set (schema_walk r schema p q)"
proof (induction schema arbitrary: p q rule: json_induct)
  case (Arr xs)
  then show ?case by fastforce
next
  case (Obj fs)
  show ?case
  proof (cases "es = fs")
    case True
    with Obj.prems(2) show ?thesis by force
  next
    case False
    with Obj.prems(1) obtain l w where lw: "(l, w) \<in> set fs" "JObj es \<in> set (subtrees w)" by auto
    then obtain g where "set (schema_walk r v (Some k) g) \<subseteq> set (schema_walk r w (Some l) p)"
      using Obj.IH [OF lw Obj.prems(2)] by blast
    with lw(1) show ?thesis by force
  qed
qed auto

lemma annotated_property:
  assumes "JObj es \<in> set (subtrees schema)" and "(''properties'', JObj ps) \<in> set es" and "(name, JObj o1) \<in> set ps"
    and "js_get o1 ''x-openwop-retired-in'' = Some (JStr r)" and "js_get o1 ''const'' = None" and "js_get o1 ''enum'' = None"
  shows "(Property, name) \<in> set (schema_walk r schema p q)"
proof -
  obtain g where "set (schema_walk r (JObj ps) (Some ''properties'') g) \<subseteq> set (schema_walk r schema p q)"
    using walk_inside [OF assms(1,2)] by blast
  moreover have "(Property, name) \<in> set (schema_walk r (JObj o1) (Some name) (Some ''properties''))"
    using assms(4-6) by (simp add: retired_name_def)
  with assms(3) have "(Property, name) \<in> set (schema_walk r (JObj ps) (Some ''properties'') g)" by force
  ultimately show ?thesis by blast
qed

text \<open>
  The two halves meet: when a schema file of a row annotates a property with the row's release, an event that
  holds a key of that name anywhere is reported.
\<close>

theorem annotated_property_reported:
  assumes "f \<in> set (pr_schemaFiles row)" and "JObj es \<in> set (subtrees (load f))" and "(''properties'', JObj ps) \<in> set es"
    and "(name, JObj o1) \<in> set ps" and "js_get o1 ''x-openwop-retired-in'' = Some (JStr (pr_removeIn row))"
    and "js_get o1 ''const'' = None" and "js_get o1 ''enum'' = None"
    and "ev \<in> set events" and "JObj fs \<in> set (subtrees ev)" and "name \<in> fst ` set fs"
  shows "findRetiredEmissions events (retiredMembers row load) \<noteq> []"
proof -
  let ?m = "\<lparr>rm_rowId = pr_id row, rm_removeIn = pr_removeIn row, rm_schemaFile = f, rm_kind = Property, rm_name = name\<rparr>"
  have "?m \<in> set (retiredMembers row load)"
    using annotated_property [OF assms(2-7), of None None] assms(1) by (force simp: retiredMembers_def)
  moreover have "carries ?m ev" using assms(9,10) by (auto simp: carries_def)
  ultimately show ?thesis using retired_search_decides [of events "retiredMembers row load"] assms(8) by blast
qed

definition sample_schema :: json where
  "sample_schema = JObj [(''properties'', JObj [(''old'', JObj [(''x-openwop-retired-in'', JStr ''2.3'')])])]"

definition sample_row :: persisted_retirement where
  "sample_row = \<lparr>pr_id = ''r'', pr_removeIn = ''2.3'', pr_due = True, pr_schemaFiles = [''schemas/v2/a'']\<rparr>"

definition sample_event :: json where
  "sample_event = JObj [(''type'', JStr ''run.started''), (''payload'', JArr [JObj [(''old'', JNum 1)]])]"

theorem annotated_property_reported_witness:
  "findRetiredEmissions [sample_event] (retiredMembers sample_row (\<lambda>f. sample_schema)) \<noteq> []"
proof (rule annotated_property_reported)
  show "''schemas/v2/a'' \<in> set (pr_schemaFiles sample_row)" by (simp add: sample_row_def)
  show "JObj [(''properties'', JObj [(''old'', JObj [(''x-openwop-retired-in'', JStr ''2.3'')])])] \<in> set (subtrees sample_schema)"
    by (simp add: sample_schema_def)
  show "(''old'', JObj [(''x-openwop-retired-in'', JStr ''2.3'')]) \<in> set [(''old'', JObj [(''x-openwop-retired-in'', JStr ''2.3'')])]" by simp
  show "JObj [(''old'', JNum 1)] \<in> set (subtrees sample_event)" by (simp add: sample_event_def)
qed (simp_all add: sample_row_def js_get_def proto_member_def object_prototype_functions_def)

section \<open>The retired flag\<close>

definition fix_required :: "jobject \<Rightarrow> jobject" where
  "fix_required out =
     (case map_of out ''required'' of
        Some (JArr rs) \<Rightarrow>
          let kept = filter (\<lambda>r. r \<noteq> JStr ''supported'') rs in
          if kept \<noteq> [] then AList.update ''required'' (JArr kept) out else AList.delete ''required'' out
      | _ \<Rightarrow> out)"

fun stripSupportedFlag :: "json \<Rightarrow> json" where
  "stripSupportedFlag (JArr xs) = JArr (map stripSupportedFlag xs)"
| "stripSupportedFlag (JObj es) =
     JObj (fix_required (js_assign (map (\<lambda>(k, v). (k, stripSupportedFlag v)) (filter (\<lambda>(k, v). k \<noteq> ''supported'') es))))"
| "stripSupportedFlag v = v"

definition carriesUnspliceablePayload :: "json \<Rightarrow> bool" where
  "carriesUnspliceablePayload v =
     (case v of
        JObj p \<Rightarrow>
          (case js_get p ''properties'' of Some (JObj (q # qs)) \<Rightarrow> False | Some (JArr (q # qs)) \<Rightarrow> False
           | _ \<Rightarrow>
             let t = js_get p ''type'' in
             if t = Some (JStr ''boolean'') then False
             else if (\<exists>xs. js_get p ''enum'' = Some (JArr xs)) then True
             else if t = Some (JStr ''array'') then True
             else if t \<in> {Some (JStr ''string''), Some (JStr ''integer''), Some (JStr ''number'')} then True
             else t = Some (JStr ''object'') \<and>
               (case js_get p ''additionalProperties'' of Some (JObj _) \<Rightarrow> True | Some (JArr _) \<Rightarrow> True | _ \<Rightarrow> False))
      | _ \<Rightarrow> False)"

text \<open>Neither the flag nor a requirement of it, at any depth, and no empty requirement list.\<close>

fun flag_free :: "json \<Rightarrow> bool" where
  "flag_free (JArr xs) = (\<forall>x \<in> set xs. flag_free x)"
| "flag_free (JObj es) =
     (''supported'' \<notin> fst ` set es \<and>
      (case map_of es ''required'' of Some (JArr rs) \<Rightarrow> rs \<noteq> [] \<and> JStr ''supported'' \<notin> set rs | _ \<Rightarrow> True) \<and>
      (\<forall>(k, v) \<in> set es. flag_free v))"
| "flag_free v = True"

text \<open>A parsed value without a member named \<open>__proto__\<close>.\<close>

fun plain_value :: "json \<Rightarrow> bool" where
  "plain_value (JArr xs) = (\<forall>x \<in> set xs. plain_value x)"
| "plain_value (JObj es) = (distinct (map fst es) \<and> ''__proto__'' \<notin> fst ` set es \<and> (\<forall>(k, v) \<in> set es. plain_value v))"
| "plain_value v = True"

definition stripped :: "jobject \<Rightarrow> jobject" where
  "stripped es = map (\<lambda>(k, v). (k, stripSupportedFlag v)) (filter (\<lambda>(k, v). k \<noteq> ''supported'') es)"

lemma strip_object: "plain_value (JObj es) \<Longrightarrow> stripSupportedFlag (JObj es) = JObj (fix_required (stripped es))"
proof -
  assume p: "plain_value (JObj es)"
  have keys: "map fst (stripped es) = filter (\<lambda>k. k \<noteq> ''supported'') (map fst es)"
    by (simp add: stripped_def comp_def case_prod_unfold filter_map)
  have "distinct (map fst (stripped es))" unfolding keys using p by simp
  moreover have "''__proto__'' \<notin> set (map fst (stripped es))" unfolding keys using p by simp
  then have "''__proto__'' \<notin> fst ` set (stripped es)" by simp
  ultimately have "distinct (map fst (stripped es))" "''__proto__'' \<notin> fst ` set (stripped es)" .
  then show ?thesis by (simp add: stripped_def js_assign_plain)
qed

lemma fix_required_entries:
  "(k, v) \<in> set (fix_required out) \<Longrightarrow> (k, v) \<in> set out \<or> (k = ''required'' \<and> (\<exists>rs. map_of out ''required'' = Some (JArr rs) \<and>
     v = JArr (filter (\<lambda>r. r \<noteq> JStr ''supported'') rs) \<and> v \<noteq> JArr []))"
proof -
  have upd: "(k, v) \<in> set (AList.update l w m) \<Longrightarrow> (k, v) = (l, w) \<or> (k, v) \<in> set m" for l w and m :: jobject
    by (induction m) (auto split: if_splits)
  assume fx: "(k, v) \<in> set (fix_required out)"
  show ?thesis
  proof (cases "map_of out ''required''")
    case (Some r)
    show ?thesis
    proof (cases r)
      case (JArr rs)
      let ?kept = "filter (\<lambda>r. r \<noteq> JStr ''supported'') rs"
      have "fix_required out = (if ?kept \<noteq> [] then AList.update ''required'' (JArr ?kept) out else AList.delete ''required'' out)"
        using Some JArr by (simp only: fix_required_def option.case json.case Let_def)
      then show ?thesis
      proof (cases "?kept = []")
        case True
        with fx \<open>fix_required out = _\<close> show ?thesis by (simp add: AList.delete_eq)
      next
        case False
        with fx \<open>fix_required out = _\<close> upd [of "''required''" "JArr ?kept" out] Some JArr show ?thesis by auto
      qed
    qed (use fx Some in \<open>simp_all add: fix_required_def\<close>)
  qed (use fx in \<open>simp add: fix_required_def\<close>)
qed

lemma required_after:
  "case map_of (fix_required out) ''required'' of Some (JArr rs) \<Rightarrow> rs \<noteq> [] \<and> JStr ''supported'' \<notin> set rs | _ \<Rightarrow> True"
  by (auto simp: fix_required_def Let_def delete_conv map_of_delete split: option.split json.split)

lemma strip_flag_free: "plain_value v \<Longrightarrow> flag_free (stripSupportedFlag v)"
proof (induction v rule: json_induct)
  case (Obj es)
  have vals: "flag_free w" if "(k, w) \<in> set (stripped es)" for k w
    using that Obj by (auto simp: stripped_def)
  have "flag_free w \<and> k \<noteq> ''supported''" if "(k, w) \<in> set (fix_required (stripped es))" for k w
  proof (cases "(k, w) \<in> set (stripped es)")
    case True
    then show ?thesis using vals by (auto simp: stripped_def)
  next
    case False
    with fix_required_entries [OF that] obtain rs where k: "k = ''required''"
      and rs: "map_of (stripped es) ''required'' = Some (JArr rs)" "w = JArr (filter (\<lambda>r. r \<noteq> JStr ''supported'') rs)" by blast
    have "flag_free (JArr rs)" using vals map_of_SomeD [OF rs(1)] by blast
    with k rs(2) show ?thesis by simp
  qed
  then show ?case unfolding strip_object [OF Obj.prems] using required_after [of "stripped es"] by fastforce
qed auto

lemma strip_fixed: "plain_value v \<Longrightarrow> flag_free v \<Longrightarrow> stripSupportedFlag v = v"
proof (induction v rule: json_induct)
  case (Obj es)
  have "stripped es = es"
  proof -
    have "filter (\<lambda>(k, v). k \<noteq> ''supported'') es = es" using Obj.prems(2) by (auto simp: filter_id_conv image_iff)
    moreover have "map (\<lambda>(k, v). (k, stripSupportedFlag v)) es = es" proof (rule map_idI)
      fix e assume e: "e \<in> set es"
      obtain k w where kw: "e = (k, w)" by (cases e)
      have "plain_value w" "flag_free w" using Obj.prems e kw by fastforce+
      then have "stripSupportedFlag w = w" using Obj.IH [of k w] e kw by simp
      then show "(case e of (k, v) \<Rightarrow> (k, stripSupportedFlag v)) = e" by (simp add: kw)
    qed
    ultimately show ?thesis by (simp add: stripped_def)
  qed
  moreover have "fix_required es = es"
  proof (cases "map_of es ''required''")
    case (Some r)
    show ?thesis
    proof (cases r)
      case (JArr rs)
      then have "filter (\<lambda>r. r \<noteq> JStr ''supported'') rs = rs" "rs \<noteq> []"
        using Obj.prems(2) Some by (auto simp: filter_id_conv)
      moreover have "AList.update ''required'' (JArr rs) es = es" using Some JArr by (induction es) (auto split: if_splits)
      ultimately show ?thesis using Some JArr by (simp add: fix_required_def)
    qed (use Some in \<open>simp_all add: fix_required_def\<close>)
  qed (simp add: fix_required_def)
  ultimately show ?case using strip_object [OF Obj.prems(1)] by simp
qed (auto intro: map_idI)

text \<open>
  The projection removes the flag and nothing else: its result holds the flag at no depth and requires it
  nowhere, and a value is left as it is exactly when it is already so.
\<close>

theorem projection_removes_flag:
  assumes "plain_value v"
  shows "flag_free (stripSupportedFlag v) \<and> (stripSupportedFlag v = v \<longleftrightarrow> flag_free v)"
  using strip_flag_free [OF assms] strip_fixed [OF assms] by metis

definition flagged :: json where
  "flagged = JObj [(''supported'', JBool True), (''required'', JArr [JStr ''supported'']), (''limits'', JObj [(''supported'', JBool True), (''max'', JNum 3)])]"

theorem projection_removes_flag_witness: "flag_free (stripSupportedFlag flagged)"
  by (rule conjunct1 [OF projection_removes_flag]) (simp add: flagged_def)

end
