(* ===== verification/Spec2Isabelle.thy ===== *)
theory Spec2Isabelle
  imports Cli_Certify Canary_Scan Recorder Chain_Compensation Chain_Deferred Chain_Tree Json_Print Gate Trajectory Scoped_Receiver OAuth_Double A2A_Peer Sse Retry_Window Run_List Context_Budget Bound_Id Localized Canary_Text Mcp_Server Audit_Checkpoint V2_Members
begin

text \<open>
  A verification development for the library part of the OpenWOP conformance package
  (\<open>conformance/src\<close>): the program that runs a conformance suite against a workflow host, records what
  was and was not measured, and writes a certification bundle a third party can audit.

  1. The program and how its parts meet.

  A run starts at the command line (\<open>cli.ts\<close>). Its arguments give a plan: which major of the protocol
  is measured, which files run, whether a bundle is wanted. The suite itself runs in a child process; in
  each worker of it the recording hooks (\<open>setup.ts\<close>) turn the end of every test into rows of the
  requirement ledger (\<open>requirement-ledger.ts\<close>), a map mirrored in an append-only journal. What a test says
  while it runs reaches the ledger through the behaviour gate (\<open>behavior-gate.ts\<close>), the soft-skip notes
  (\<open>soft-skip.ts\<close>) and the observation notes (\<open>row-observation.ts\<close>). When the child has exited, the
  parent reads journal and map back, adds rows for the files and tests the report names
  (\<open>scenario-disposition.ts\<close>), evaluates the compatibility profiles of the host's discovery document
  (\<open>profiles.ts\<close>, \<open>v2-profiles.ts\<close>), scrubs the evidence, and seals the result as a bundle
  (\<open>certification-bundle-v3.ts\<close>) over canonical JSON (\<open>jcs.ts\<close>) with a digest and a signature. The
  \<open>--verify\<close> command and every consumer check such a bundle with the verifiers of
  \<open>certification-bundle-verify.ts\<close> and \<open>certification-bundle-v3.ts\<close>. Beside this pipeline stand the
  instruments the tests use: reference algorithms (chain expansion, trajectory grading, the
  transcript-window checker), receivers and doubles a host talks to (webhooks, fronts, an OAuth server,
  an A2A peer, an OTLP collector) and the clients of a host (event streams, the run-list walk).

  2. The theories, by the files they model.

  Shared: \<open>Prelude\<close> (string and list operations of the language, generic lemmas, the collections
  \<open>js_simps\<close> and \<open>inv_intros\<close>), \<open>Json\<close> (the \<open>unknown\<close> values as trees with the property access, assignment and
  conversions of the language), \<open>Json_Print\<close> (\<open>JSON.stringify\<close> with its escapes and a reader of the text).

  Chain expansion, \<open>workflow-chain-expansion.ts\<close>: \<open>Chain_Expansion\<close> (token substitution, edge rewriting,
  the prefix, \<open>expandChain\<close>; expansions with different prefixes are disjoint, edges stay inside, no secret
  reaches a node), \<open>Chain_Compensation\<close> (inverse actions and policies are carried and never merged),
  \<open>Chain_Deferred\<close> (the expansion with deferred parameters, its shared \<open>lastIndex\<close> as state; it refines the
  base expansion when nothing is deferred), \<open>Chain_Tree\<close> (co-expansion of sub-chains with the map of
  registered children, produced variables; children come before their parents, and each reference is rewritten to
  the id its child was minted).

  Recording: \<open>Ledger\<close> (\<open>requirement-ledger.ts\<close>; the files are a map from paths to lines, a row only gets
  worse, the reader settles on the worst row of the journal), \<open>Soft_Skip\<close>, \<open>It_Ids\<close>
  (\<open>requirement-ids.ts\<close>), \<open>Gate\<close> (\<open>env.ts\<close>, \<open>behavior-gate.ts\<close>), \<open>Disposition\<close>
  (\<open>scenario-disposition.ts\<close>, \<open>spec-coherence.ts\<close>; what a file's row says agrees with the ledger, no row
  passes without a witness), \<open>Recorder\<close> (\<open>setup.ts\<close> from the hook that records rows, \<open>row-observation.ts\<close>;
  a worker's run is a list of hook calls and of what tests do to the recorder between them, emptying the ledger and
  suspending its sink included, with the rows other workers append. In memory a row only gets worse until a test
  empties the ledger; a sink file only grows, whatever runs).

  Bundles: \<open>Profiles\<close> (\<open>profiles.ts\<close>, \<open>v2-profiles.ts\<close>, \<open>requirement-registry.ts\<close> and the verifier of
  version 1), \<open>Evidence\<close> (secret scan and scrubbing), \<open>Bundle_V2\<close>, \<open>Durability\<close>
  (\<open>durability-evidence.ts\<close>), \<open>Jcs\<close> (\<open>jcs.ts\<close>: the canonicalizer and the I-JSON parser, inverse to each
  other), \<open>Base64\<close>, \<open>Bundle_V3\<close> and \<open>Bundle_V3_Seal\<close> (digest, attestation, sealing and verification).

  The command: \<open>Cli_Args\<close> (arguments, plan, \<open>child-env.ts\<close>, \<open>pinned-ports.ts\<close>) and \<open>Cli_Certify\<close> (from
  the report and the ledger to the written bundle, its self-audit and the exit code). The properties that
  span components are there: a bundle this code writes is accepted by the verifier of this code and says
  exactly what the ledger says, and a certified profile has a passing row behind each requirement.

  Instruments: \<open>Trajectory\<close> (\<open>eval-trajectory.ts\<close>; the augmenting-path matching is a maximum matching),
  \<open>Context_Budget\<close> (\<open>context-budget.ts\<close>), \<open>Protobuf\<close>, \<open>Protobuf_Wire\<close> and \<open>Grpc\<close> (\<open>otlp-protobuf.ts\<close>,
  \<open>grpc-framing.ts\<close>: the decoder is the inverse of the wire format, and always returns), \<open>Collector\<close> and
  \<open>Canary_Scan\<close> (\<open>otel-collector.ts\<close>: both transports capture exactly the spans of an export, and the leak
  scan reports every canary shipped where the reader looks),
  \<open>Webhook_Verify\<close> and \<open>Webhook_Modal\<close> (\<open>webhook-receiver.ts\<close>), \<open>Scoped_Receiver\<close>
  (\<open>scoped-receiver.ts\<close>, \<open>front-mux.ts\<close>; the shared listener as a step relation), \<open>OAuth_Double\<close>
  (\<open>oauth-as-double.ts\<close>), \<open>A2A_Peer\<close> (\<open>a2a-fake-peer.ts\<close>; its runs are a step relation,
  and a request cancels exactly the task it names), \<open>Mcp_Server\<close> (\<open>mcp-fake-server.ts\<close>; paging is exact and
  the elicitation loop ends after the rounds it was given), \<open>Sse\<close> (\<open>sse.ts\<close>), \<open>Retry_Window\<close> (\<open>webhook-retry-window.ts\<close>) and \<open>Run_List\<close>
  (\<open>run-list-walk.ts\<close>), \<open>Bound_Id\<close> (\<open>bound-id.ts\<close>; every bound id survives its
  one-segment projection), \<open>Localized\<close> (\<open>localized-content.ts\<close>; the amended resolution extends the frozen one),
  \<open>Canary_Text\<close> (\<open>canaries.ts\<close>, \<open>effect-refire.ts\<close>; no canary in captured text is overlooked), \<open>Audit_Checkpoint\<close>
  (\<open>audit-checkpoint.ts\<close>, \<open>carries-payload.ts\<close>; a counted root commits to its entries, or two
  texts hashed on the way to the two roots have one hash) and
  \<open>V2_Members\<close> (\<open>v2-retired-members.ts\<close>, \<open>v2-projection.ts\<close>; a retired member is found wherever an event carries it).
  3. Conventions.

  A class or a closure's variables are a record and its methods functions that return the record; an
  exception is the left part of a sum, a loop that may not end is a value \<open>None\<close> of a partial function.
  Interfaces are locales: a rank under which a fold keeps the worst element (\<open>severity\<close>, provided by the
  certifiability of dispositions and by the kinds of soft-skip notes), a field step that only moves its
  reader forward (\<open>pb_progress\<close>, provided by every decoder of a message), what a new peer has and every step keeps
  (\<open>peer_invariant\<close>, provided by the numbering of tasks), the laws of a number's text
  (\<open>number_laws\<close>). Each is interpreted on the model's own operations in the theory that provides them.

  Characters are code units below 256; the property names, ids and messages the code compares are of this
  kind, and non-ASCII punctuation in fixed texts is written in ASCII. JSON numbers are integers, as are the
  sequence numbers, counts and times of this code; a conversion to a number is exact up to \<open>2 ^ 53\<close>, and
  where the rounding matters (varints, time stamps) it is written out. Words are used where the code's
  operators are 32-bit or the data are bytes. The text of an error or a warning is dropped unless a later
  decision reads it.

  Fuel and bounds: the JSON parsers take the length of the text as fuel (each call consumes a character),
  the search for an augmenting path the number of observed calls (each round marks a call), the walk over
  pages its own page limit, the id allocator a search proved to end; the unframing loop and the field
  loop of the decoder are partial functions, whose totality is a theorem for the decoder and holds for the
  unframing exactly on the buffers with no negative length.

  4. Parameters.

  What the sources call and do not contain is an argument: the collation order of the locale, SHA-256, HMAC
  and Ed25519 (a record of functions; the laws used are that a signature made with a key verifies under it,
  and for the genuineness of deliveries that no other signature does), the parsers of URLs and form
  bodies, the clock, the process environment, whether a journal can be written, the corpus data (floors,
  registries, coherence set, schemas and their validator), the reader of a bundle file, and the arithmetic of
  doubles where a comparison uses it. Each theorem with a hypothesis about one of them has a
  witness that instantiates it.

  5. Not modelled.

  Sockets, child processes and files on disk beyond the maps above; the HTTP driver and polling loops; the
  setup of a whole run (\<open>global-setup.ts\<close>, the first part of \<open>setup.ts\<close>), which starts and stops
  servers; the branches of \<open>cli.ts\<close> that write bundles of versions 1 and 2 or fetch the discovery document;
  the scenario witnesses (\<open>*-witness.ts\<close>) and the scenarios, which call a host and assert on its
  answers; the remaining doubles (OIDC, SAML, prompt, trigger, run graph, i18n, provider registry);
  the repository's maintenance scripts and codemods; everything that is not TypeScript. The manifest lists
  each with its reason.
\<close>

end
